(* ===== verification/Prelude.thy ===== *)
theory Prelude
  imports Complex_Main
begin

text \<open>
  Shared vocabulary of the development: the JavaScript values the TypeScript sources compute
  with, the lexicographic string order of \<open>String.prototype\<close> comparison, early-return results,
  and the insertion-ordered \<open>Map\<close> that the in-memory stores are built on.

  Strings are lists of 8-bit characters; the fields concerned (DIDs, token ids, timestamps,
  scope fields) are ASCII by the schemas of \<open>packages/types/src/schemas.ts\<close>. Numbers are exact
  rationals with the three non-finite IEEE values; comparisons are exact, sums are taken without
  rounding.
\<close>

named_theorems js_simps \<open>evaluation rules of the JavaScript primitives\<close>
named_theorems store_simps \<open>laws of the insertion-ordered map\<close>

subsection \<open>Identifiers\<close>

type_synonym did = string
type_synonym timestamp = string
type_synonym token_id = string

subsection \<open>Numbers\<close>

datatype number = NaN | NInf | Fin rat | PInf

fun num_lt :: "number \<Rightarrow> number \<Rightarrow> bool" where
  "num_lt NaN _ = False"
| "num_lt _ NaN = False"
| "num_lt (Fin a) (Fin b) = (a < b)"
| "num_lt NInf b = (b \<noteq> NInf)"
| "num_lt PInf _ = False"
| "num_lt (Fin _) b = (b = PInf)"

fun num_le :: "number \<Rightarrow> number \<Rightarrow> bool" where
  "num_le NaN _ = False"
| "num_le _ NaN = False"
| "num_le (Fin a) (Fin b) = (a \<le> b)"
| "num_le NInf _ = True"
| "num_le PInf b = (b = PInf)"
| "num_le (Fin _) b = (b = PInf)"

fun num_add :: "number \<Rightarrow> number \<Rightarrow> number" where
  "num_add NaN _ = NaN"
| "num_add _ NaN = NaN"
| "num_add (Fin a) (Fin b) = Fin (a + b)"
| "num_add PInf NInf = NaN"
| "num_add NInf PInf = NaN"
| "num_add PInf _ = PInf"
| "num_add NInf _ = NInf"
| "num_add (Fin _) b = b"

lemma num_le_trans: "num_le a b \<Longrightarrow> num_le b c \<Longrightarrow> num_le a c"
  by (cases a; cases b; cases c) auto

lemma num_lt_not_le: "a \<noteq> NaN \<Longrightarrow> b \<noteq> NaN \<Longrightarrow> num_lt a b \<longleftrightarrow> \<not> num_le b a"
  by (cases a; cases b) auto

lemma num_not_lt_le: "a \<noteq> NaN \<Longrightarrow> b \<noteq> NaN \<Longrightarrow> \<not> num_lt a b \<Longrightarrow> num_le b a"
  by (simp add: num_lt_not_le)

subsection \<open>Dynamic values\<close>

datatype jsval = JUndef | JNull | JBool bool | JNum number | JStr string
  | JArr "jsval list" | JObj "(string \<times> jsval) list"

type_synonym js_object = "(string \<times> jsval) list"

text \<open>\<open>obj[key]\<close> on a plain object: a missing own property reads as \<open>undefined\<close>.\<close>

definition get_prop :: "js_object \<Rightarrow> string \<Rightarrow> jsval" where
  "get_prop obj key = (case map_of obj key of None \<Rightarrow> JUndef | Some v \<Rightarrow> v)"

text \<open>\<open>{...obj, key: v}\<close>: an existing key keeps its place, a new one goes last.\<close>

fun set_prop :: "js_object \<Rightarrow> string \<Rightarrow> jsval \<Rightarrow> js_object" where
  "set_prop [] key v = [(key, v)]"
| "set_prop ((k, w) # obj) key v = (if k = key then (k, v) # obj else (k, w) # set_prop obj key v)"

lemma map_of_set_prop: "map_of (set_prop obj key v) = (map_of obj)(key \<mapsto> v)"
  by (induction obj key v rule: set_prop.induct) auto

lemma get_prop_set_prop [simp]:
  "get_prop (set_prop obj key v) k = (if k = key then v else get_prop obj k)"
  by (simp add: get_prop_def map_of_set_prop)

subsection \<open>String order\<close>

abbreviation code_unit :: "char \<Rightarrow> nat" where
  "code_unit \<equiv> of_char"

fun str_lt :: "string \<Rightarrow> string \<Rightarrow> bool" where
  "str_lt _ [] = False"
| "str_lt [] (_ # _) = True"
| "str_lt (a # s) (b # t) = (code_unit a < code_unit b \<or> (a = b \<and> str_lt s t))"

definition str_le :: "string \<Rightarrow> string \<Rightarrow> bool" where
  "str_le s t = (\<not> str_lt t s)"

lemma str_lt_irrefl [simp]: "\<not> str_lt s s"
  by (induction s) auto

lemma str_lt_trans: "str_lt s t \<Longrightarrow> str_lt t u \<Longrightarrow> str_lt s u"
proof (induction s t arbitrary: u rule: str_lt.induct)
  case (2 b t)
  then show ?case by (cases u) auto
next
  case (3 a s b t)
  then show ?case by (cases u) auto
qed simp

lemma str_lt_linear: "str_lt s t \<or> s = t \<or> str_lt t s"
proof (induction s t rule: str_lt.induct)
  case (1 s)
  then show ?case by (cases s) auto
next
  case (3 a s b t)
  have "code_unit a = code_unit b \<Longrightarrow> a = b"
    by simp
  with 3 show ?case by auto
qed simp

lemma str_le_refl [simp]: "str_le s s"
  by (simp add: str_le_def)

lemma str_le_trans: "str_le s t \<Longrightarrow> str_le t u \<Longrightarrow> str_le s u"
  unfolding str_le_def using str_lt_linear str_lt_trans by metis

lemma str_le_iff: "str_le s t \<longleftrightarrow> s = t \<or> str_lt s t"
  unfolding str_le_def using str_lt_linear str_lt_trans str_lt_irrefl by metis

text \<open>\<open>s.startsWith(p)\<close>.\<close>

definition starts_with :: "string \<Rightarrow> string \<Rightarrow> bool" where
  "starts_with p s = (take (length p) s = p)"

text \<open>White space, as \<open>String.prototype.trim\<close> removes it.\<close>

definition isBlank :: "char \<Rightarrow> bool" where
  "isBlank c = (c = CHR '' '' \<or> (9 \<le> code_unit c \<and> code_unit c \<le> 13) \<or> code_unit c = 160)"

subsection \<open>Early returns over a list\<close>

text \<open>A loop that returns at the first element with an answer.\<close>

fun first_some :: "('a \<Rightarrow> 'b option) \<Rightarrow> 'a list \<Rightarrow> 'b option" where
  "first_some f [] = None"
| "first_some f (x # xs) = (case f x of None \<Rightarrow> first_some f xs | Some r \<Rightarrow> Some r)"

lemma first_some_None: "first_some f xs = None \<longleftrightarrow> (\<forall>x \<in> set xs. f x = None)"
  by (induction xs) (auto split: option.splits)

lemma first_some_SomeD: "first_some f xs = Some r \<Longrightarrow> \<exists>x \<in> set xs. f x = Some r"
  by (induction xs) (auto split: option.splits)

lemma first_some_cong [fundef_cong]:
  "xs = ys \<Longrightarrow> (\<And>x. x \<in> set ys \<Longrightarrow> f x = g x) \<Longrightarrow> first_some f xs = first_some g ys"
  by (induction xs arbitrary: ys) (auto split: option.splits)

subsection \<open>Insertion-ordered maps\<close>

text \<open>
  A \<open>Map\<close> of the language: an association list in insertion order. \<open>map.set\<close> on a present key
  keeps its position, on a fresh key appends.
\<close>

type_synonym ('k, 'v) js_map = "('k \<times> 'v) list"

definition jm_get :: "('k, 'v) js_map \<Rightarrow> 'k \<Rightarrow> 'v option" where
  "jm_get m k = map_of m k"

fun jm_set :: "('k, 'v) js_map \<Rightarrow> 'k \<Rightarrow> 'v \<Rightarrow> ('k, 'v) js_map" where
  "jm_set [] k v = [(k, v)]"
| "jm_set ((k', w) # m) k v = (if k' = k then (k', v) # m else (k', w) # jm_set m k v)"

definition jm_delete :: "('k, 'v) js_map \<Rightarrow> 'k \<Rightarrow> ('k, 'v) js_map" where
  "jm_delete m k = filter (\<lambda>kv. fst kv \<noteq> k) m"

definition jm_keys :: "('k, 'v) js_map \<Rightarrow> 'k list" where
  "jm_keys m = map fst m"

definition jm_wf :: "('k, 'v) js_map \<Rightarrow> bool" where
  "jm_wf m = distinct (jm_keys m)"

text \<open>The contract every client of a keyed store relies on.\<close>

locale keyed_store =
  fixes empty :: 'm
    and get :: "'m \<Rightarrow> 'k \<Rightarrow> 'v option"
    and put :: "'m \<Rightarrow> 'k \<Rightarrow> 'v \<Rightarrow> 'm"
    and del :: "'m \<Rightarrow> 'k \<Rightarrow> 'm"
    and keys :: "'m \<Rightarrow> 'k list"
    and wf :: "'m \<Rightarrow> bool"
  assumes get_empty: "get empty k = None"
    and get_put: "get (put m k v) k' = (if k' = k then Some v else get m k')"
    and get_del: "get (del m k) k' = (if k' = k then None else get m k')"
    and keys_put: "keys (put m k v) = (if k \<in> set (keys m) then keys m else keys m @ [k])"
    and in_keys: "k \<in> set (keys m) \<longleftrightarrow> get m k \<noteq> None"
    and wf_empty: "wf empty"
    and wf_put: "wf m \<Longrightarrow> wf (put m k v)"
    and wf_del: "wf m \<Longrightarrow> wf (del m k)"
begin

lemma get_put_same [simp]: "get (put m k v) k = Some v"
  by (simp add: get_put)

lemma put_keeps: "get m k' = Some w \<Longrightarrow> k' \<noteq> k \<Longrightarrow> get (put m k v) k' = Some w"
  by (simp add: get_put)

lemma put_put: "get (put (put m k v) k w) = get (put m k w)"
  by (simp add: get_put fun_eq_iff)

lemma update_keeps_keys: "get m k \<noteq> None \<Longrightarrow> keys (put m k v) = keys m"
  by (simp add: keys_put in_keys)

lemma put_monotone: "get m k' \<noteq> None \<Longrightarrow> get (put m k v) k' \<noteq> None"
  by (simp add: get_put)

end

lemma jm_keys_set: "jm_keys (jm_set m k v) = (if k \<in> set (jm_keys m) then jm_keys m else jm_keys m @ [k])"
  by (induction m k v rule: jm_set.induct) (auto simp: jm_keys_def)

lemma jm_get_set: "jm_get (jm_set m k v) k' = (if k' = k then Some v else jm_get m k')"
  by (induction m k v rule: jm_set.induct) (auto simp: jm_get_def)

lemma jm_get_delete: "jm_get (jm_delete m k) k' = (if k' = k then None else jm_get m k')"
  by (induction m) (auto simp: jm_get_def jm_delete_def)

interpretation jm: keyed_store "[]" jm_get jm_set jm_delete jm_keys jm_wf
proof
  show "jm_get [] k = None" for k :: 'a
    by (simp add: jm_get_def)
  show "k \<in> set (jm_keys m) \<longleftrightarrow> jm_get m k \<noteq> None" for k :: 'a and m :: "('a, 'b) js_map"
    by (auto simp: jm_keys_def jm_get_def map_of_eq_None_iff)
  show "jm_wf (jm_set m k v)" if "jm_wf m" for m :: "('a, 'b) js_map" and k v
    using that by (auto simp: jm_wf_def jm_keys_set)
  show "jm_wf (jm_delete m k)" if "jm_wf m" for m :: "('a, 'b) js_map" and k
    using that by (auto simp: jm_wf_def jm_delete_def jm_keys_def distinct_map_filter)
  show "jm_wf []"
    by (simp add: jm_wf_def jm_keys_def)
qed (simp_all add: jm_get_set jm_get_delete jm_keys_set)

lemmas [store_simps] = jm_get_set jm_get_delete jm_keys_set

text \<open>Iterating a \<open>Map\<close> while rewriting the values of the keys met: keys and order stay.\<close>

definition jm_map_values :: "('k \<Rightarrow> 'v \<Rightarrow> 'v) \<Rightarrow> ('k, 'v) js_map \<Rightarrow> ('k, 'v) js_map" where
  "jm_map_values f m = map (\<lambda>(k, v). (k, f k v)) m"

lemma jm_get_map_values [store_simps]: "jm_get (jm_map_values f m) k = map_option (f k) (jm_get m k)"
  by (induction m) (auto simp: jm_get_def jm_map_values_def)

lemma jm_keys_map_values [store_simps]: "jm_keys (jm_map_values f m) = jm_keys m"
  by (induction m) (auto simp: jm_keys_def jm_map_values_def)

subsection \<open>Results\<close>

text \<open>Synchronous code that may throw: \<open>Inl\<close> is the exception.\<close>

definition res_bind :: "'e + 'a \<Rightarrow> ('a \<Rightarrow> 'e + 'b) \<Rightarrow> 'e + 'b" where
  "res_bind m k = (case m of Inl e \<Rightarrow> Inl e | Inr a \<Rightarrow> k a)"

definition ensure :: "bool \<Rightarrow> 'e \<Rightarrow> 'e + unit" where
  "ensure ok e = (if ok then Inr () else Inl e)"

definition res_error :: "'e \<Rightarrow> 'f + 'a \<Rightarrow> 'e + 'a" where
  "res_error e m = (case m of Inl _ \<Rightarrow> Inl e | Inr a \<Rightarrow> Inr a)"

lemma res_bind_Inr: "res_bind m k = Inr b \<longleftrightarrow> (\<exists>a. m = Inr a \<and> k a = Inr b)"
  by (cases m) (auto simp: res_bind_def)

lemma ensure_Inr [simp]: "ensure ok e = Inr u \<longleftrightarrow> ok"
  by (simp add: ensure_def)

lemma ensure_bind: "res_bind (ensure ok e) k = (if ok then k () else Inl e)"
  by (simp add: ensure_def res_bind_def)

lemma res_bind_Inr_left [simp]: "res_bind (Inr a) k = k a"
  by (simp add: res_bind_def)

lemma res_bind_Inl_left [simp]: "res_bind (Inl e) k = Inl e"
  by (simp add: res_bind_def)

lemma res_error_Inr [simp]: "res_error e m = Inr a \<longleftrightarrow> m = Inr a"
  by (cases m) (auto simp: res_error_def)

subsection \<open>Stores that only grow\<close>

text \<open>A value is written only when it is larger than the one stored under its key.\<close>

locale watermark_store =
  fixes get :: "'w \<Rightarrow> 'k \<Rightarrow> 'v::linorder option" and put :: "'w \<Rightarrow> 'k \<Rightarrow> 'v \<Rightarrow> 'w"
  assumes get_put: "get (put w k v) k' = (if k' = k then Some (case get w k of None \<Rightarrow> v | Some u \<Rightarrow> max u v) else get w k')"
begin

lemma put_reaches: "\<exists>u. get (put w k v) k = Some u \<and> v \<le> u"
  by (simp add: get_put split: option.splits)

lemma put_other: "k' \<noteq> k \<Longrightarrow> get (put w k v) k' = get w k'"
  by (simp add: get_put)

lemma put_keeps: "get w k' = Some u \<Longrightarrow> \<exists>u'. get (put w k v) k' = Some u' \<and> u \<le> u'"
  by (auto simp: get_put split: option.splits)

end

subsection \<open>Allowlisted transitions\<close>

text \<open>
  The sub-protocols guard their state machines with a constant list of \<open>[from, to]\<close> pairs.
  What such a list promises: a terminal state has no way out, so a run through it ends there.
\<close>

locale transition_allowlist =
  fixes transitions :: "('s \<times> 's) list"
    and terminal :: "'s \<Rightarrow> bool"
    and initial :: 's
  assumes terminal_stuck: "terminal s \<Longrightarrow> (s, t) \<notin> set transitions"
    and initial_live: "\<not> terminal initial"
begin

lemma run_from_terminal: "(s, t) \<in> (set transitions)\<^sup>* \<Longrightarrow> terminal s \<Longrightarrow> t = s"
  by (induction rule: rtrancl_induct) (auto dest: terminal_stuck)

lemma no_reopen: "(s, t) \<in> (set transitions)\<^sup>* \<Longrightarrow> terminal s \<Longrightarrow> t \<noteq> initial"
  using run_from_terminal initial_live by blast

end

end
