(* ===== verification/Js_Date.thy ===== *)
theory Js_Date
  imports Prelude
begin

text \<open>
  The part of \<open>Date\<close> the sources use, on the wire format of
  \<open>packages/types/src/schemas.ts\<close> (\<open>YYYY-MM-DDTHH:MM:SS.mmmZ\<close>), the \<open>HH:MM\<close> clock strings of
  recurring windows, and \<open>computeWindowStart\<close> of \<open>guard/cumulative-tracker.ts\<close>.

  \<open>getTime\<close> is \<open>new Date(s).getTime()\<close>, with \<open>None\<close> for \<open>NaN\<close>; strings outside the wire format
  do not reach it (the schema pattern admits only that shape), and are \<open>None\<close> too. A day of the
  month up to 31 is accepted and carried into the next month, as the engine's ISO parser does;
  an out-of-range month, day, hour, minute or second is an invalid date.

  Main results: on calendar dates the string order of timestamps is their order in time
  (\<open>timestamp_order\<close>), and \<open>HH:MM\<close> strings compare as minutes of the day (\<open>hhmm_order\<close>).
\<close>

subsection \<open>Decimal digits\<close>

definition is_digit :: "char \<Rightarrow> bool" where
  "is_digit c = (48 \<le> code_unit c \<and> code_unit c \<le> 57)"

definition digit_val :: "char \<Rightarrow> int" where
  "digit_val c = int (code_unit c) - 48"

fun num_val :: "int \<Rightarrow> string \<Rightarrow> int" where
  "num_val acc [] = acc"
| "num_val acc (c # cs) = num_val (10 * acc + digit_val c) cs"

lemma digit_val_range: "is_digit c \<Longrightarrow> 0 \<le> digit_val c \<and> digit_val c \<le> 9"
  by (auto simp: is_digit_def digit_val_def)

lemma digit_val_less: "is_digit a \<Longrightarrow> is_digit b \<Longrightarrow> code_unit a < code_unit b \<longleftrightarrow> digit_val a < digit_val b"
  by (auto simp: is_digit_def digit_val_def)

lemma digit_val_inj: "is_digit a \<Longrightarrow> is_digit b \<Longrightarrow> digit_val a = digit_val b \<longleftrightarrow> a = b"
  by (auto simp: is_digit_def digit_val_def)

lemma num_val_bounds:
  "list_all is_digit cs \<Longrightarrow> acc * 10 ^ length cs \<le> num_val acc cs \<and> num_val acc cs < (acc + 1) * 10 ^ length cs"
proof (induction cs arbitrary: acc)
  case (Cons c cs)
  let ?a = "10 * acc + digit_val c"
  have d: "0 \<le> digit_val c" "digit_val c \<le> 9"
    using Cons.prems digit_val_range by auto
  have IH: "?a * 10 ^ length cs \<le> num_val ?a cs \<and> num_val ?a cs < (?a + 1) * 10 ^ length cs"
    using Cons by simp
  have lo: "acc * 10 ^ length (c # cs) \<le> ?a * 10 ^ length cs"
    using d by (simp add: algebra_simps)
  have "(?a + 1) * 10 ^ length cs \<le> (10 * (acc + 1)) * 10 ^ length cs"
    using d by (intro mult_right_mono) auto
  also have "\<dots> = (acc + 1) * 10 ^ length (c # cs)"
    by (simp add: algebra_simps)
  finally show ?case
    unfolding num_val.simps using lo IH by linarith
qed simp

text \<open>Two digit strings of one length compare as the numbers they denote.\<close>

lemma num_val_less:
  assumes "length s = length t" "list_all is_digit s" "list_all is_digit t"
  shows "str_lt s t \<longleftrightarrow> num_val acc s < num_val acc t"
  using assms
proof (induction s t arbitrary: acc rule: list_induct2)
  case (Cons a s b t)
  let ?A = "10 * acc + digit_val a" and ?B = "10 * acc + digit_val b"
  have dg: "is_digit a" "is_digit b"
    using Cons.prems by auto
  show ?case
  proof (cases "a = b")
    case True
    then show ?thesis using Cons by simp
  next
    case False
    have bs: "num_val ?A s < (?A + 1) * 10 ^ length s" "?B * 10 ^ length s \<le> num_val ?B t"
      "num_val ?B t < (?B + 1) * 10 ^ length s" "?A * 10 ^ length s \<le> num_val ?A s"
      using Cons.prems Cons.hyps num_val_bounds[of s ?A] num_val_bounds[of t ?B] by auto
    from False dg have "digit_val a < digit_val b \<or> digit_val b < digit_val a"
      using digit_val_inj by force
    then show ?thesis
    proof
      assume lt: "digit_val a < digit_val b"
      then have "(?A + 1) * 10 ^ length s \<le> ?B * 10 ^ length s"
        by (intro mult_right_mono) auto
      then have "num_val ?A s < num_val ?B t"
        using bs by linarith
      then show ?thesis using lt dg by (simp add: digit_val_less)
    next
      assume gt: "digit_val b < digit_val a"
      then have "(?B + 1) * 10 ^ length s \<le> ?A * 10 ^ length s"
        by (intro mult_right_mono) auto
      then have "num_val ?B t < num_val ?A s"
        using bs by linarith
      then show ?thesis using gt dg False by (simp add: digit_val_less)
    qed
  qed
qed simp

lemma num_val_inj:
  assumes "length s = length t" "list_all is_digit s" "list_all is_digit t"
  shows "num_val acc s = num_val acc t \<longleftrightarrow> s = t"
  using num_val_less[OF assms, of acc] num_val_less[of t s acc] str_lt_linear[of s t] assms
  by (metis less_irrefl linorder_neqE)

lemma str_lt_append:
  "length s = length s' \<Longrightarrow> str_lt (s @ t) (s' @ t') \<longleftrightarrow> str_lt s s' \<or> (s = s' \<and> str_lt t t')"
  by (induction s s' rule: list_induct2) auto

subsection \<open>The proleptic Gregorian calendar\<close>

definition leap_year :: "int \<Rightarrow> bool" where
  "leap_year y = (y mod 4 = 0 \<and> (y mod 100 \<noteq> 0 \<or> y mod 400 = 0))"

definition day_from_year :: "int \<Rightarrow> int" where
  "day_from_year y =
     365 * (y - 1970) + (y - 1969) div 4 - (y - 1901) div 100 + (y - 1601) div 400"

definition days_in_month :: "int \<Rightarrow> int \<Rightarrow> int" where
  "days_in_month y m =
     (if m = 2 then (if leap_year y then 29 else 28)
      else if m = 4 \<or> m = 6 \<or> m = 9 \<or> m = 11 then 30 else 31)"

definition month_offset :: "int \<Rightarrow> int \<Rightarrow> int" where
  "month_offset y m =
     (if m = 1 then 0 else if m = 2 then 31
      else (if m = 3 then 59 else if m = 4 then 90 else if m = 5 then 120 else if m = 6 then 151
        else if m = 7 then 181 else if m = 8 then 212 else if m = 9 then 243 else if m = 10 then 273
        else if m = 11 then 304 else 334)
        + (if leap_year y then 1 else 0))"

definition make_day :: "int \<Rightarrow> int \<Rightarrow> int \<Rightarrow> int" where
  "make_day y m d = day_from_year y + month_offset y m + d - 1"

definition days_in_year :: "int \<Rightarrow> int" where
  "days_in_year y = (if leap_year y then 366 else 365)"

lemma div_step: "0 < n \<Longrightarrow> (x + 1) div n = x div n + (if (x + 1) mod n = 0 then 1 else 0)" for x n :: int
proof (cases "x mod n = n - 1")
  case True
  assume n: "0 < n"
  have e: "n * (x div n) + x mod n = x" by simp
  have x: "x + 1 = n * (x div n + 1) + 0"
    unfolding distrib_left using True e by linarith
  show ?thesis using int_div_pos_eq[OF x] int_mod_pos_eq[OF x] n by simp
next
  case False
  assume n: "0 < n"
  have e: "n * (x div n) + x mod n = x" by simp
  have r: "0 \<le> x mod n" "x mod n < n" using n by auto
  have x: "x + 1 = n * (x div n) + (x mod n + 1)"
    using e by linarith
  show ?thesis using int_div_pos_eq[OF x] int_mod_pos_eq[OF x] r False by simp
qed

lemma century_shift: "(y - 1900) mod 100 = y mod 100" "(y - 1600) mod 400 = y mod 400"
  "(y - 1968) mod 4 = y mod 4" for y :: int
  using mod_mult_self2[of "y - 1900" 100 19] mod_mult_self2[of "y - 1600" 400 4]
    mod_mult_self2[of "y - 1968" 4 492] by simp_all

lemma day_from_year_Suc: "day_from_year (y + 1) = day_from_year y + days_in_year y"
proof -
  have shift: "y - 1969 + 1 = y - 1968" "y - 1901 + 1 = y - 1900" "y - 1601 + 1 = y - 1600"
    by simp_all
  have a: "(y - 1968) div 4 = (y - 1969) div 4 + (if y mod 4 = 0 then 1 else 0)"
    and b: "(y - 1900) div 100 = (y - 1901) div 100 + (if y mod 100 = 0 then 1 else 0)"
    and c: "(y - 1600) div 400 = (y - 1601) div 400 + (if y mod 400 = 0 then 1 else 0)"
    using div_step[of 4 "y - 1969"] div_step[of 100 "y - 1901"] div_step[of 400 "y - 1601"]
    by (simp_all only: shift century_shift zero_less_numeral simp_thms)
  have imp: "y mod 400 = 0 \<longrightarrow> y mod 100 = 0" "y mod 100 = 0 \<longrightarrow> y mod 4 = 0"
    using mod_mod_cancel[of 100 400 y] mod_mod_cancel[of 4 100 y] by force+
  have "day_from_year (y + 1) =
      365 * (y - 1970) + 365 + (y - 1968) div 4 - (y - 1900) div 100 + (y - 1600) div 400"
    by (simp add: day_from_year_def)
  also have "\<dots> = day_from_year y + (365 + (if y mod 4 = 0 then 1 else 0) - (if y mod 100 = 0 then 1 else 0)
      + (if y mod 400 = 0 then 1 else 0))"
    unfolding a b c day_from_year_def by (simp only: algebra_simps)
  also have "365 + (if y mod 4 = 0 then 1 else 0) - (if y mod 100 = 0 then 1 else 0)
      + (if y mod 400 = 0 then 1 else 0) = days_in_year y"
    using imp unfolding days_in_year_def leap_year_def
    by (cases "y mod 4 = 0"; cases "y mod 100 = 0"; cases "y mod 400 = 0") simp_all
  finally show ?thesis .
qed

lemma day_from_year_mono: "y \<le> y' \<Longrightarrow> day_from_year y \<le> day_from_year y'"
proof (induction y' rule: int_ge_induct)
  case (step i)
  then show ?case using day_from_year_Suc[of i] by (auto simp: days_in_year_def split: if_splits)
qed simp

lemma month_end: "1 \<le> m \<Longrightarrow> m \<le> 12 \<Longrightarrow> month_offset y m + days_in_month y m \<le> days_in_year y"
  by (auto simp: month_offset_def days_in_month_def days_in_year_def)

lemma month_cases:
  "1 \<le> m \<Longrightarrow> m \<le> 12 \<Longrightarrow> m = 1 \<or> m = 2 \<or> m = 3 \<or> m = 4 \<or> m = 5 \<or> m = 6 \<or> m = 7 \<or> m = 8 \<or> m = 9 \<or>
     m = 10 \<or> m = 11 \<or> m = 12" for m :: int
  by presburger

lemma month_step:
  assumes "1 \<le> m" "m \<le> 11"
  shows "month_offset y (m + 1) = month_offset y m + days_in_month y m"
proof -
  have "m = 1 \<or> m = 2 \<or> m = 3 \<or> m = 4 \<or> m = 5 \<or> m = 6 \<or> m = 7 \<or> m = 8 \<or> m = 9 \<or> m = 10 \<or> m = 11"
    using assms month_cases[of m] by auto
  then show ?thesis
    by (elim disjE) (simp_all add: month_offset_def days_in_month_def)
qed

lemma month_offset_mono: "m \<le> m' \<Longrightarrow> 1 \<le> m \<Longrightarrow> m' \<le> 12 \<Longrightarrow> month_offset y m \<le> month_offset y m'"
proof (induction m' rule: int_ge_induct)
  case (step i)
  then show ?case using month_step[of i y] by (simp add: days_in_month_def split: if_splits)
qed simp

lemma month_before:
  "1 \<le> m \<Longrightarrow> m < m' \<Longrightarrow> m' \<le> 12 \<Longrightarrow> month_offset y m + days_in_month y m \<le> month_offset y m'"
  using month_offset_mono[of "m + 1" m' y] month_step[of m y] by simp

lemma make_day_less:
  assumes "1 \<le> m" "m \<le> 12" "d \<le> days_in_month y m" "1 \<le> m'" "m' \<le> 12" "1 \<le> d'"
    and "y < y' \<or> (y = y' \<and> (m < m' \<or> (m = m' \<and> d < d')))"
  shows "make_day y m d < make_day y' m' d'"
proof (cases "y < y'")
  case True
  have "0 \<le> month_offset y' m'"
    by (simp add: month_offset_def)
  moreover have "day_from_year y + days_in_year y \<le> day_from_year y'"
    using True day_from_year_mono[of "y + 1" y'] by (simp add: day_from_year_Suc)
  ultimately show ?thesis
    using assms month_end[of m y] by (simp add: make_day_def)
next
  case False
  with assms month_before[of m m' y] show ?thesis
    by (auto simp: make_day_def)
qed

subsection \<open>Wire timestamps\<close>

definition ts_part :: "nat \<Rightarrow> nat \<Rightarrow> string \<Rightarrow> string" where
  "ts_part i n s = take n (drop i s)"

definition ts_num :: "nat \<Rightarrow> nat \<Rightarrow> string \<Rightarrow> int" where
  "ts_num i n s = num_val 0 (ts_part i n s)"

text \<open>\<open>timestampPattern\<close> of \<open>schemas.ts\<close>.\<close>

definition timestampPattern :: "string \<Rightarrow> bool" where
  "timestampPattern s =
     (length s = 24 \<and>
      s = ts_part 0 4 s @ ''-'' @ ts_part 5 2 s @ ''-'' @ ts_part 8 2 s @ ''T'' @
          ts_part 11 2 s @ '':'' @ ts_part 14 2 s @ '':'' @ ts_part 17 2 s @ ''.'' @
          ts_part 20 3 s @ ''Z'' \<and>
      list_all is_digit (ts_part 0 4 s @ ts_part 5 2 s @ ts_part 8 2 s @ ts_part 11 2 s @
          ts_part 14 2 s @ ts_part 17 2 s @ ts_part 20 3 s))"

definition time_in_day :: "string \<Rightarrow> int" where
  "time_in_day s = 3600000 * ts_num 11 2 s + 60000 * ts_num 14 2 s + 1000 * ts_num 17 2 s + ts_num 20 3 s"

definition ts_day :: "string \<Rightarrow> int" where
  "ts_day s = make_day (ts_num 0 4 s) (ts_num 5 2 s) (ts_num 8 2 s)"

definition ts_in_range :: "string \<Rightarrow> bool" where
  "ts_in_range s =
     (1 \<le> ts_num 5 2 s \<and> ts_num 5 2 s \<le> 12 \<and> 1 \<le> ts_num 8 2 s \<and> ts_num 8 2 s \<le> 31 \<and>
      ts_num 14 2 s \<le> 59 \<and> ts_num 17 2 s \<le> 59 \<and>
      (ts_num 11 2 s \<le> 23 \<or>
       (ts_num 11 2 s = 24 \<and> ts_num 14 2 s = 0 \<and> ts_num 17 2 s = 0 \<and> ts_num 20 3 s = 0)))"

definition getTime :: "timestamp \<Rightarrow> int option" where
  "getTime s =
     (if timestampPattern s \<and> ts_in_range s then Some (86400000 * ts_day s + time_in_day s) else None)"

text \<open>A timestamp that names a day of the calendar, as \<open>toISOString\<close> always produces.\<close>

definition calendar_ts :: "timestamp \<Rightarrow> bool" where
  "calendar_ts s =
     (timestampPattern s \<and> ts_in_range s \<and> ts_num 11 2 s \<le> 23 \<and>
      ts_num 8 2 s \<le> days_in_month (ts_num 0 4 s) (ts_num 5 2 s))"

lemma calendar_ts_getTime: "calendar_ts s \<Longrightarrow> getTime s = Some (86400000 * ts_day s + time_in_day s)"
  by (simp add: calendar_ts_def getTime_def)

lemma part_order:
  assumes "list_all is_digit a" "list_all is_digit b" "length a = length b"
  shows "str_lt (a @ c # r) (b @ c # r') \<longleftrightarrow> num_val 0 a < num_val 0 b \<or> (num_val 0 a = num_val 0 b \<and> str_lt r r')"
  using assms num_val_less[of a b 0] num_val_inj[of a b 0] by (auto simp: str_lt_append)

text \<open>The string order of timestamps is the lexicographic order of their seven numbers.\<close>

lemma ts_str_order:
  assumes "timestampPattern s" "timestampPattern t"
  shows "str_lt s t \<longleftrightarrow>
    ts_num 0 4 s < ts_num 0 4 t \<or> (ts_num 0 4 s = ts_num 0 4 t \<and>
    (ts_num 5 2 s < ts_num 5 2 t \<or> (ts_num 5 2 s = ts_num 5 2 t \<and>
    (ts_num 8 2 s < ts_num 8 2 t \<or> (ts_num 8 2 s = ts_num 8 2 t \<and>
    (ts_num 11 2 s < ts_num 11 2 t \<or> (ts_num 11 2 s = ts_num 11 2 t \<and>
    (ts_num 14 2 s < ts_num 14 2 t \<or> (ts_num 14 2 s = ts_num 14 2 t \<and>
    (ts_num 17 2 s < ts_num 17 2 t \<or> (ts_num 17 2 s = ts_num 17 2 t \<and>
    ts_num 20 3 s < ts_num 20 3 t)))))))))))"
proof -
  have eq: "u = ts_part 0 4 u @ CHR ''-'' # ts_part 5 2 u @ CHR ''-'' # ts_part 8 2 u @ CHR ''T'' #
      ts_part 11 2 u @ CHR '':'' # ts_part 14 2 u @ CHR '':'' # ts_part 17 2 u @ CHR ''.'' #
      ts_part 20 3 u @ CHR ''Z'' # []" if "timestampPattern u" for u
    using that unfolding timestampPattern_def by simp
  have dg: "list_all is_digit (ts_part i n u) \<and> length (ts_part i n u) = n"
    if "timestampPattern u" "(i, n) \<in> {(0, 4), (5, 2), (8, 2), (11, 2), (14, 2), (17, 2), (20, 3)}"
    for u i n
    using that by (auto simp: timestampPattern_def ts_part_def)
  show ?thesis
    apply (subst eq[OF assms(1)], subst eq[OF assms(2)])
    apply (simp only: part_order dg[OF assms(1)] dg[OF assms(2)] insert_iff prod.inject ts_num_def
        refl simp_thms)
    apply (simp add: part_order dg assms ts_num_def)
    done
qed

lemma ts_num_bounds:
  assumes "timestampPattern s"
  shows "0 \<le> ts_num 11 2 s" "0 \<le> ts_num 14 2 s" "0 \<le> ts_num 17 2 s"
    "0 \<le> ts_num 20 3 s" "ts_num 20 3 s \<le> 999"
  using assms num_val_bounds[of "ts_part 11 2 s" 0] num_val_bounds[of "ts_part 14 2 s" 0]
    num_val_bounds[of "ts_part 17 2 s" 0] num_val_bounds[of "ts_part 20 3 s" 0]
  by (auto simp: timestampPattern_def ts_num_def ts_part_def)

lemma time_in_day_bounds:
  assumes "calendar_ts s"
  shows "0 \<le> time_in_day s \<and> time_in_day s < 86400000"
proof -
  have "ts_num 11 2 s \<le> 23" "ts_num 14 2 s \<le> 59" "ts_num 17 2 s \<le> 59" "timestampPattern s"
    using assms by (auto simp: calendar_ts_def ts_in_range_def)
  then show ?thesis
    using ts_num_bounds[of s] by (simp add: time_in_day_def)
qed

text \<open>
  Earlier in the string order means earlier in time, for timestamps that name calendar dates.
  This is what the lexicographic comparisons of \<open>isScopeSubset\<close> and \<open>validateDelegationChain\<close>
  rely on.
\<close>

lemma timestamp_order:
  assumes s: "calendar_ts s" and t: "calendar_ts t"
  shows "str_lt s t \<longleftrightarrow> the (getTime s) < the (getTime t)"
proof -
  have imp: "the (getTime u) < the (getTime v)" if "str_lt u v" "calendar_ts u" "calendar_ts v" for u v
  proof -
    have pat: "timestampPattern u" "timestampPattern v" and r: "ts_in_range u" "ts_in_range v"
      and d: "ts_num 8 2 u \<le> days_in_month (ts_num 0 4 u) (ts_num 5 2 u)"
      using that by (auto simp: calendar_ts_def)
    have tu: "time_in_day u < 86400000" and tv: "0 \<le> time_in_day v"
      using that time_in_day_bounds by auto
    have "ts_day u < ts_day v \<or> (ts_day u = ts_day v \<and> time_in_day u < time_in_day v)"
    proof (cases "ts_num 0 4 u = ts_num 0 4 v \<and> ts_num 5 2 u = ts_num 5 2 v \<and> ts_num 8 2 u = ts_num 8 2 v")
      case True
      then have "time_in_day u < time_in_day v"
        using that(1) r ts_num_bounds[OF pat(1)] ts_num_bounds[OF pat(2)]
        unfolding ts_str_order[OF pat] time_in_day_def ts_in_range_def by auto
      then show ?thesis using True by (simp add: ts_day_def)
    next
      case False
      then have "ts_day u < ts_day v"
        unfolding ts_day_def using that(1) r d
        by (intro make_day_less) (auto simp: ts_str_order[OF pat] ts_in_range_def)
      then show ?thesis ..
    qed
    then show ?thesis
      using tu tv that by (auto simp: calendar_ts_getTime)
  qed
  show ?thesis
  proof
    assume "the (getTime s) < the (getTime t)"
    then have "\<not> str_lt t s \<and> s \<noteq> t"
      using imp[OF _ t s] by fastforce
    then show "str_lt s t"
      using str_lt_linear by blast
  qed (use imp s t in blast)
qed

subsection \<open>Clock strings\<close>

text \<open>The regular expression \<open>^([01][0-9]|2[0-3]):[0-5][0-9]$\<close>.\<close>

definition HH_MM :: "string \<Rightarrow> bool" where
  "HH_MM s = (case s of
     [a, b, c, d, e] \<Rightarrow>
       ((a = CHR ''0'' \<or> a = CHR ''1'') \<and> is_digit b \<or> a = CHR ''2'' \<and> is_digit b \<and> digit_val b \<le> 3) \<and>
       c = CHR '':'' \<and> is_digit d \<and> digit_val d \<le> 5 \<and> is_digit e
   | _ \<Rightarrow> False)"

definition hhmm_minutes :: "string \<Rightarrow> int" where
  "hhmm_minutes s = num_val 0 (take 2 s) * 60 + num_val 0 (drop 3 s)"

lemma HH_MM_E:
  assumes "HH_MM s"
  obtains a b d e where "s = [a, b, CHR '':'', d, e]" "is_digit a" "is_digit b" "is_digit d" "is_digit e"
    "digit_val d \<le> 5" "10 * digit_val a + digit_val b \<le> 23"
proof -
  obtain a b c d e where s: "s = [a, b, c, d, e]"
    using assms by (auto simp: HH_MM_def split: list.splits)
  have "is_digit a" and "10 * digit_val a + digit_val b \<le> 23"
    using assms digit_val_range[of b] by (auto simp: s HH_MM_def is_digit_def digit_val_def)
  then show thesis
    using that[of a b d e] assms by (auto simp: s HH_MM_def)
qed

lemma hhmm_minutes_range: "HH_MM s \<Longrightarrow> 0 \<le> hhmm_minutes s \<and> hhmm_minutes s < 1440"
  by (elim HH_MM_E) (auto simp: hhmm_minutes_def dest!: digit_val_range)

text \<open>Well-formed clock strings compare as their minutes of the day.\<close>

lemma hhmm_order:
  assumes "HH_MM s" "HH_MM t"
  shows "str_lt s t \<longleftrightarrow> hhmm_minutes s < hhmm_minutes t"
proof -
  obtain a b d e where s: "s = [a, b] @ CHR '':'' # [d, e]" "is_digit a" "is_digit b" "is_digit d"
    "is_digit e" "digit_val d \<le> 5"
    using assms(1) by (rule HH_MM_E) auto
  obtain a' b' d' e' where t: "t = [a', b'] @ CHR '':'' # [d', e']" "is_digit a'" "is_digit b'"
    "is_digit d'" "is_digit e'" "digit_val d' \<le> 5"
    using assms(2) by (rule HH_MM_E) auto
  have m: "str_lt [d, e] [d', e'] \<longleftrightarrow> num_val 0 [d, e] < num_val 0 [d', e']"
    using s t by (intro num_val_less) auto
  have "str_lt s t \<longleftrightarrow> num_val 0 [a, b] < num_val 0 [a', b'] \<or>
      (num_val 0 [a, b] = num_val 0 [a', b'] \<and> num_val 0 [d, e] < num_val 0 [d', e'])"
    unfolding s(1) t(1) m[symmetric] using s t by (intro part_order) auto
  then show ?thesis
    using s t digit_val_range[of d] digit_val_range[of e] digit_val_range[of d'] digit_val_range[of e']
    by (auto simp: hhmm_minutes_def)
qed

lemma hhmm_le_order: "HH_MM s \<Longrightarrow> HH_MM t \<Longrightarrow> str_le s t \<longleftrightarrow> hhmm_minutes s \<le> hhmm_minutes t"
  by (auto simp: str_le_def hhmm_order)

subsection \<open>Reading the calendar back\<close>

text \<open>
  \<open>YearFromTime\<close> is the year whose first day is the last one not after the given day. The guess
  from the mean year length is off by at most one.
\<close>

definition year_guess :: "int \<Rightarrow> int" where
  "year_guess n = 1970 + (400 * n) div 146097"

definition year_from_day :: "int \<Rightarrow> int" where
  "year_from_day n =
     (let y = year_guess n in
      if n < day_from_year y then y - 1 else if day_from_year (y + 1) \<le> n then y + 1 else y)"

definition month_from_day :: "int \<Rightarrow> int" where
  "month_from_day n =
     (let y = year_from_day n; doy = n - day_from_year y in
      int (length (filter (\<lambda>m. month_offset y m \<le> doy) [1, 2, 3, 4, 5, 6, 7, 8, 9, 10, 11, 12])))"

definition date_from_day :: "int \<Rightarrow> int" where
  "date_from_day n =
     n - day_from_year (year_from_day n) - month_offset (year_from_day n) (month_from_day n) + 1"

lemma day_from_year_bounds:
  "146097 * (y - 1970) - 700 \<le> 400 * day_from_year y"
  "400 * day_from_year y \<le> 146097 * (y - 1970) + 800"
proof -
  define a b c where "a = (y - 1969) div 4" and "b = (y - 1901) div 100" and "c = (y - 1601) div 400"
  have d: "day_from_year y = 365 * (y - 1970) + a - b + c"
    by (simp add: day_from_year_def a_def b_def c_def)
  have "4 * a \<le> y - 1969" "y - 1969 < 4 * a + 4" "100 * b \<le> y - 1901" "y - 1901 < 100 * b + 100"
    "400 * c \<le> y - 1601" "y - 1601 < 400 * c + 400"
    unfolding a_def b_def c_def by - linarith+
  then show "146097 * (y - 1970) - 700 \<le> 400 * day_from_year y"
    "400 * day_from_year y \<le> 146097 * (y - 1970) + 800"
    unfolding d by (simp_all add: algebra_simps)
qed

lemma year_from_day_correct:
  "day_from_year (year_from_day n) \<le> n" "n < day_from_year (year_from_day n + 1)"
proof -
  define y where "y = year_guess n"
  have g: "146097 * (y - 1970) \<le> 400 * n" "400 * n < 146097 * (y - 1970) + 146097"
    unfolding y_def year_guess_def
    using mult_div_mod_eq[of 146097 "400 * n"] pos_mod_sign[of 146097 "400 * n"]
      pos_mod_bound[of 146097 "400 * n"] by simp_all
  have "day_from_year (y - 1) \<le> n"
    using g day_from_year_bounds[of "y - 1"] by (simp add: algebra_simps)
  moreover have "n < day_from_year (y + 1 + 1)"
    using g day_from_year_bounds[of "y + 1 + 1"] by (simp add: algebra_simps)
  ultimately show "day_from_year (year_from_day n) \<le> n" "n < day_from_year (year_from_day n + 1)"
    by (auto simp: year_from_day_def y_def[symmetric] Let_def)
qed

lemma year_from_day_unique:
  assumes "day_from_year y \<le> n" "n < day_from_year (y + 1)"
  shows "year_from_day n = y"
proof (rule ccontr)
  assume "year_from_day n \<noteq> y"
  then consider "year_from_day n + 1 \<le> y" | "y + 1 \<le> year_from_day n" by linarith
  then show False
    using day_from_year_mono year_from_day_correct[of n] assms by cases fastforce+
qed

text \<open>The month is the last one whose first day is not after the day of the year.\<close>

lemma month_count:
  assumes "0 \<le> doy" "doy < days_in_year y"
  defines "m \<equiv> int (length (filter (\<lambda>m. month_offset y m \<le> doy) [1, 2, 3, 4, 5, 6, 7, 8, 9, 10, 11, 12]))"
  shows "1 \<le> m \<and> m \<le> 12 \<and> month_offset y m \<le> doy \<and> doy < month_offset y m + days_in_month y m"
  using assms by (cases "leap_year y")
    (simp_all add: m_def month_offset_def days_in_month_def days_in_year_def split: if_splits)

lemma date_from_day_correct:
  fixes n :: int
  defines "y \<equiv> year_from_day n" and "m \<equiv> month_from_day n"
  shows "1 \<le> date_from_day n" "date_from_day n \<le> days_in_month y m" "1 \<le> m" "m \<le> 12"
    "make_day y m (date_from_day n) = n"
proof -
  have "0 \<le> n - day_from_year y" "n - day_from_year y < days_in_year y"
    using year_from_day_correct[of n] by (simp_all add: y_def day_from_year_Suc)
  from month_count[OF this] have "1 \<le> m \<and> m \<le> 12 \<and> month_offset y m \<le> n - day_from_year y \<and>
      n - day_from_year y < month_offset y m + days_in_month y m"
    by (simp add: m_def month_from_day_def y_def Let_def)
  then show "1 \<le> date_from_day n" "date_from_day n \<le> days_in_month y m" "1 \<le> m" "m \<le> 12"
    "make_day y m (date_from_day n) = n"
    by (auto simp: date_from_day_def make_day_def y_def m_def)
qed

text \<open>Only one reading of a day number as a calendar date exists.\<close>

lemma make_day_inj:
  assumes "1 \<le> m" "m \<le> 12" "1 \<le> d" "d \<le> days_in_month y m"
    and "1 \<le> m'" "m' \<le> 12" "1 \<le> d'" "d' \<le> days_in_month y' m'"
    and eq: "make_day y m d = make_day y' m' d'"
  shows "y = y'" "m = m'" "d = d'"
proof -
  have "\<not> (y < y' \<or> (y = y' \<and> (m < m' \<or> (m = m' \<and> d < d'))))"
    using make_day_less[of m d y m' d' y'] assms by auto
  moreover have "\<not> (y' < y \<or> (y' = y \<and> (m' < m \<or> (m' = m \<and> d' < d))))"
    using make_day_less[of m' d' y' m d y] assms by auto
  ultimately show "y = y'" "m = m'" "d = d'" by auto
qed

lemma date_from_make_day:
  assumes "1 \<le> m" "m \<le> 12" "1 \<le> d" "d \<le> days_in_month y m"
  shows "year_from_day (make_day y m d) = y" "month_from_day (make_day y m d) = m"
    "date_from_day (make_day y m d) = d"
  using make_day_inj[OF date_from_day_correct(3,4,1,2) assms date_from_day_correct(5)] by auto

end
