(* ===== verification/Scope_Types.thy ===== *)
theory Scope_Types
  imports Js_Date
begin

text \<open>
  The authorization data of \<open>packages/types/src/authorization.ts\<close>: the four scope kinds with
  their discriminating \<open>type\<close> strings, capabilities, delegation proofs and capability tokens.

  A scope whose \<open>type\<close> is none of the four (a plugin type, or one from a newer peer) is
  \<open>OtherScope\<close> with its type string and its remaining properties. A \<open>meterField\<close> carries the
  order of its keys, because the sources compare it by \<open>JSON.stringify\<close>.
\<close>

subsection \<open>Scopes\<close>

record recurring_window =
  startTime :: string
  endTime :: string
  daysOfWeek :: "int list option"
  timezone :: string

datatype meter_source = action_record | external_witness | consensus_meter

record meter_field =
  source :: meter_source
  metric :: string
  unit :: "string option"
  precision :: "number option"
  key_order :: "string list"

datatype window = Hour | Day | Week | Month

record allowlist_scope =
  al_field :: string
  al_values :: "string list"

record numeric_limit_scope =
  nl_field :: string
  nl_max :: number
  nl_currency :: "string option"

record temporal_scope =
  notBefore :: timestamp
  notAfter :: timestamp
  recurringWindow :: "recurring_window option"

record cumulative_limit_scope =
  meterField :: meter_field
  cl_max :: number
  cl_window :: window
  cl_currency :: "string option"

datatype scope =
  Allowlist allowlist_scope
| NumericLimit numeric_limit_scope
| Temporal temporal_scope
| CumulativeLimit cumulative_limit_scope
| OtherScope string js_object

primrec scope_type :: "scope \<Rightarrow> string" where
  "scope_type (Allowlist _) = ''allowlist''"
| "scope_type (NumericLimit _) = ''numeric_limit''"
| "scope_type (Temporal _) = ''temporal_scope''"
| "scope_type (CumulativeLimit _) = ''cumulative_limit''"
| "scope_type (OtherScope t _) = t"

primrec window_name :: "window \<Rightarrow> string" where
  "window_name Hour = ''hour''"
| "window_name Day = ''day''"
| "window_name Week = ''week''"
| "window_name Month = ''month''"

text \<open>An \<open>OtherScope\<close> is really none of the four.\<close>

definition BUILT_IN_SCOPE_TYPES :: "string list" where
  "BUILT_IN_SCOPE_TYPES = [''allowlist'', ''numeric_limit'', ''temporal_scope'', ''cumulative_limit'']"

definition scope_wf :: "scope \<Rightarrow> bool" where
  "scope_wf s = (case s of OtherScope t _ \<Rightarrow> t \<notin> set BUILT_IN_SCOPE_TYPES | _ \<Rightarrow> True)"

subsection \<open>Capabilities, proofs and tokens\<close>

record capability =
  action :: string
  cap_scope :: scope

record token_proof =
  created :: timestamp
  verificationMethod :: string
  proof_value :: string

record delegation_proof =
  parentTokenId :: token_id
  delegatorDid :: did
  delegateeDid :: did
  parentCapabilities :: "capability list"
  parentExpiresAt :: timestamp
  attenuatedCapabilities :: "capability list"
  dp_proof :: token_proof
  dcVersion :: "string option"

record capability_token =
  token_id :: token_id
  specVersion :: string
  issuerDid :: did
  principalDid :: did
  issuedTo :: did
  issuedAt :: timestamp
  expiresAt :: timestamp
  capabilities :: "capability list"
  revocationUrl :: string
  token_proof :: token_proof
  delegationChain :: "delegation_proof list option"

definition MAX_DELEGATION_DEPTH :: nat where
  "MAX_DELEGATION_DEPTH = 5"

end
