(* ===== verification/Cumulative_Tracker.thy ===== *)
theory Cumulative_Tracker
  imports Scope_Types
begin

text \<open>
  The cumulative meter of \<open>policy/src/guard\<close>: \<open>cumulative-tracker.ts\<close> (the calendar windows and
  the meter registry) and \<open>postgres-cumulative-tracker.ts\<close> (the reserve/settle protocol).

  The table \<open>policy.action_records\<close> is the list of its rows. A transaction is atomic: the
  operations below return the new table, and an error leaves the old one. The advisory lock makes
  transactions on one (agent, metric, window) run one after the other, which is how a sequence of
  calls is modelled. \<open>Date.now()\<close> and \<open>randomUUID()\<close> are arguments (\<open>wall\<close>, \<open>uuid\<close>), and so is
  the signature check of an ordinary row (\<open>sig_ok\<close>). Instants are milliseconds since the epoch.
\<close>

subsection \<open>Calendar windows\<close>

definition msPerDay :: int where
  "msPerDay = 86400000"

definition day_of :: "int \<Rightarrow> int" where
  "day_of t = t div msPerDay"

text \<open>\<open>getUTCDay\<close>: day 0 of the epoch is a Thursday.\<close>

definition getUTCDay :: "int \<Rightarrow> int" where
  "getUTCDay t = (day_of t + 4) mod 7"

fun computeWindowStart :: "window \<Rightarrow> int \<Rightarrow> int" where
  "computeWindowStart Hour now = now - now mod 3600000"
| "computeWindowStart Day now = day_of now * msPerDay"
| "computeWindowStart Week now =
     (let dayOfWeek = getUTCDay now;
          daysToMonday = (if dayOfWeek = 0 then 6 else dayOfWeek - 1)
      in (day_of now - daysToMonday) * msPerDay)"
| "computeWindowStart Month now = (day_of now - (date_from_day (day_of now) - 1)) * msPerDay"

lemma day_of_bounds: "day_of t * msPerDay \<le> t" "t < day_of t * msPerDay + msPerDay"
  using div_mult_mod_eq[of t 86400000] pos_mod_sign[of 86400000 t] pos_mod_bound[of 86400000 t]
  by (simp_all add: day_of_def msPerDay_def)

lemma day_of_mult [simp]: "day_of (d * msPerDay) = d"
  by (simp add: day_of_def msPerDay_def)

lemma getUTCDay_mult: "getUTCDay (d * msPerDay) = (d + 4) mod 7"
  by (simp add: getUTCDay_def)

lemma days_to_monday:
  "0 \<le> (if getUTCDay t = 0 then 6 else getUTCDay t - 1)" "(if getUTCDay t = 0 then 6 else getUTCDay t - 1) \<le> 6"
  using pos_mod_sign[of 7 "day_of t + 4"] pos_mod_bound[of 7 "day_of t + 4"]
  by (auto simp: getUTCDay_def)

lemma window_start_le: "computeWindowStart w now \<le> now"
proof (cases w)
  case Week
  have "(day_of now - k) * msPerDay \<le> now" if "0 \<le> k" for k
    using that day_of_bounds(1)[of now] by (simp add: msPerDay_def algebra_simps)
  then show ?thesis using Week days_to_monday(1)[of now] by (simp add: Let_def)
next
  case Month
  have "(day_of now - k) * msPerDay \<le> now" if "0 \<le> k" for k
    using that day_of_bounds(1)[of now] by (simp add: msPerDay_def algebra_simps)
  then show ?thesis using Month date_from_day_correct(1)[of "day_of now"] by simp
qed (use day_of_bounds(1)[of now] in simp_all)

lemma week_start_monday: "getUTCDay (computeWindowStart Week now) = 1"
proof -
  define d where "d = day_of now + 4"
  have "(d - (if d mod 7 = 0 then 6 else d mod 7 - 1)) mod 7 = 1"
  proof (cases "d mod 7 = 0")
    case True
    then have "(d - 6) mod 7 = (0 - 6) mod 7" by (metis mod_diff_left_eq)
    then show ?thesis using True by simp
  next
    case False
    have "d - (d mod 7 - 1) = 1 + 7 * (d div 7)"
      using minus_mod_eq_mult_div[of d 7] by simp
    then have "(d - (d mod 7 - 1)) mod 7 = 1"
      by (simp only: mod_mult_self2) simp
    then show ?thesis using False by (simp only: if_False)
  qed
  then have "(day_of now - (if getUTCDay now = 0 then 6 else getUTCDay now - 1) + 4) mod 7 = 1"
    by (simp only: getUTCDay_def d_def diff_add_eq)
  then show ?thesis by (simp add: getUTCDay_mult Let_def split: if_splits)
qed

text \<open>The start of a window lies in the window it starts, so all of a window's instants share it.\<close>

lemma month_start_day:
  "date_from_day (n - (date_from_day n - 1)) = 1"
  "month_from_day (n - (date_from_day n - 1)) = month_from_day n"
  "year_from_day (n - (date_from_day n - 1)) = year_from_day n"
proof -
  define y m where "y = year_from_day n" and "m = month_from_day n"
  have "n - (date_from_day n - 1) = make_day y m 1"
    using date_from_day_correct(5)[of n] by (simp add: make_day_def y_def m_def)
  moreover have "1 \<le> days_in_month y m"
    by (simp add: days_in_month_def)
  ultimately show "date_from_day (n - (date_from_day n - 1)) = 1"
    "month_from_day (n - (date_from_day n - 1)) = month_from_day n"
    "year_from_day (n - (date_from_day n - 1)) = year_from_day n"
    using date_from_make_day[of m 1 y] date_from_day_correct(3,4)[of n]
    by (simp_all add: y_def m_def)
qed

lemma window_start_idem: "computeWindowStart w (computeWindowStart w now) = computeWindowStart w now"
proof (cases w)
  case Hour
  then show ?thesis by (simp add: mod_diff_right_eq)
next
  case Week
  have "computeWindowStart Week (computeWindowStart Week now) =
      day_of (computeWindowStart Week now) * msPerDay"
    using week_start_monday[of now] by (subst computeWindowStart.simps(3)) simp
  also have "\<dots> = computeWindowStart Week now"
    by (simp add: Let_def)
  finally show ?thesis using Week by simp
qed (simp_all add: month_start_day)

subsection \<open>The meter registry and the table\<close>

datatype meter_aggregation = AGG_SUM | AGG_COUNT

datatype count_filter = OnlySuccess | AnyStatus

record meter_entry =
  aggregation :: meter_aggregation
  recordField :: "string option"
  requestField :: "string option"
  countFilter :: count_filter

definition METER_FIELD_REGISTRY :: "string \<Rightarrow> meter_entry option" where
  "METER_FIELD_REGISTRY k =
     (if k = ''transaction_amount'' then
        Some \<lparr>aggregation = AGG_SUM, recordField = Some ''amount'', requestField = Some ''amount'',
              countFilter = OnlySuccess\<rparr>
      else if k = ''api_call_count'' then
        Some \<lparr>aggregation = AGG_COUNT, recordField = None, requestField = None, countFilter = AnyStatus\<rparr>
      else None)"

record action_row =
  record_id :: string
  agent_did :: did
  principal_did :: did
  action_type :: string
  parameters_summary :: "js_object option"
  authorization_ref :: "js_object option"
  result_summary :: "js_object option"
  record_hash :: string
  previous_record_hash :: string
  actor_signature :: string
  ledger_signature :: string
  delegation_depth :: "int option"
  session_id :: "string option"
  created_at :: int

type_synonym action_table = "action_row list"

datatype tracker_error =
  UnregisteredMeterField string
| SettledAmountExceedsMax string
| LedgerSignatureInvalid string
| MissingSumField string

definition CUMULATIVE_RESERVE_ACTION_TYPE :: string where
  "CUMULATIVE_RESERVE_ACTION_TYPE = ''__CUMULATIVE_RESERVE__''"

definition PENDING_TTL_MS :: int where
  "PENDING_TTL_MS = 5 * 60 * 1000"

text \<open>\<open>result_summary?.[key]\<close>, and the \<open>typeof v === 'number'\<close> test on it.\<close>

definition summary_prop :: "action_row \<Rightarrow> string \<Rightarrow> jsval" where
  "summary_prop row key = (case result_summary row of None \<Rightarrow> JUndef | Some obj \<Rightarrow> get_prop obj key)"

definition number_or :: "number \<Rightarrow> jsval \<Rightarrow> number" where
  "number_or d v = (case v of JNum x \<Rightarrow> x | _ \<Rightarrow> d)"

text \<open>
  \<open>result_summary->>'status'\<close>: SQL NULL for a missing or null value. The text of a JSON value that
  is not a string is none of the status words; it stands as \<open>''json''\<close>.
\<close>

definition status_text :: "action_row \<Rightarrow> string option" where
  "status_text row =
     (case summary_prop row ''status'' of
        JUndef \<Rightarrow> None | JNull \<Rightarrow> None | JStr s \<Rightarrow> Some s | _ \<Rightarrow> Some ''json'')"

definition is_reservation :: "action_row \<Rightarrow> bool" where
  "is_reservation row = (action_type row = CUMULATIVE_RESERVE_ACTION_TYPE)"

text \<open>A number written through \<open>JSON.stringify\<close> into a \<open>jsonb\<close> column: a non-finite one becomes null.\<close>

definition json_number :: "number \<Rightarrow> jsval" where
  "json_number n = (case n of Fin _ \<Rightarrow> JNum n | _ \<Rightarrow> JNull)"

subsection \<open>Aggregation inside a transaction\<close>

text \<open>The two status filters of \<open>aggregateWithClient\<close>; a NULL status satisfies neither.\<close>

definition statusFilterExpr :: "meter_entry \<Rightarrow> int \<Rightarrow> action_row \<Rightarrow> bool" where
  "statusFilterExpr entry pendingCutoff row =
     (case status_text row of
        None \<Rightarrow> False
      | Some st \<Rightarrow>
          (case countFilter entry of
             OnlySuccess \<Rightarrow>
               st \<in> {''SUCCESS'', ''SETTLED''} \<or>
               (is_reservation row \<and> st = ''PENDING'' \<and> pendingCutoff \<le> created_at row)
           | AnyStatus \<Rightarrow>
               st \<notin> {''RELEASED'', ''REJECTED'', ''ERROR''} \<and>
               (st \<noteq> ''PENDING'' \<or> (is_reservation row \<and> pendingCutoff \<le> created_at row))))"

definition in_window :: "did \<Rightarrow> int \<Rightarrow> int \<Rightarrow> action_row \<Rightarrow> bool" where
  "in_window agentDid windowStart now row =
     (agent_did row = agentDid \<and> windowStart \<le> created_at row \<and> created_at row \<le> now)"

text \<open>What one selected row adds to the total; \<open>None\<close> for nothing.\<close>

definition row_amount :: "meter_entry \<Rightarrow> action_row \<Rightarrow> number option" where
  "row_amount entry row =
     (if is_reservation row then
        (case summary_prop row ''reserveAmount'' of
           JNum x \<Rightarrow> (if aggregation entry = AGG_COUNT then Some (Fin 1) else Some x)
         | _ \<Rightarrow> None)
      else if aggregation entry = AGG_COUNT then
        (if countFilter entry = AnyStatus \<or> summary_prop row ''status'' = JStr ''SETTLED'' then Some (Fin 1)
         else if summary_prop row ''status'' = JStr ''SUCCESS'' then Some (Fin 1)
         else None)
      else
        (case recordField entry of
           None \<Rightarrow> None
         | Some fld \<Rightarrow>
             (case summary_prop row fld of JNum x \<Rightarrow> if x = NaN then None else Some x | _ \<Rightarrow> None)))"

definition aggregateWithClient ::
  "action_table \<Rightarrow> did \<Rightarrow> int \<Rightarrow> int \<Rightarrow> int \<Rightarrow> meter_entry \<Rightarrow> number" where
  "aggregateWithClient db agentDid windowStart now wall entry =
     (let pendingCutoff = wall - PENDING_TTL_MS;
          rows = filter (\<lambda>row. in_window agentDid windowStart now row \<and>
                               statusFilterExpr entry pendingCutoff row) db
      in foldl (\<lambda>total row. case row_amount entry row of None \<Rightarrow> total | Some x \<Rightarrow> num_add total x)
           (Fin 0) rows)"

subsection \<open>Reserve\<close>

text \<open>\<open>findReservation\<close>: the query has no condition on the status of the row.\<close>

definition findReservation :: "action_table \<Rightarrow> string \<Rightarrow> action_row option" where
  "findReservation db recordId = find (\<lambda>row. record_id row = recordId \<and> is_reservation row) db"

definition reservation_row ::
  "string \<Rightarrow> string \<Rightarrow> did \<Rightarrow> string \<Rightarrow> number \<Rightarrow> number \<Rightarrow> number \<Rightarrow> int \<Rightarrow> action_row" where
  "reservation_row uuid recordId agentDid metr reserveAmount maxv cumulativeAtReserve now =
     \<lparr>record_id = recordId, agent_did = agentDid, principal_did = agentDid,
      action_type = CUMULATIVE_RESERVE_ACTION_TYPE, parameters_summary = None, authorization_ref = None,
      result_summary = Some [(''status'', JStr ''PENDING''), (''metric'', JStr metr),
        (''reserveAmount'', json_number reserveAmount), (''max'', json_number maxv),
        (''cumulativeAtReserve'', json_number cumulativeAtReserve)],
      record_hash = uuid, previous_record_hash = [], actor_signature = [], ledger_signature = [],
      delegation_depth = None, session_id = None, created_at = now\<rparr>"

text \<open>\<open>INSERT ... ON CONFLICT (record_id) DO NOTHING\<close>.\<close>

definition insertReservation :: "action_table \<Rightarrow> action_row \<Rightarrow> action_table" where
  "insertReservation db row = (if record_id row \<in> record_id ` set db then db else db @ [row])"

definition checkAndReserve ::
  "action_table \<Rightarrow> int \<Rightarrow> string \<Rightarrow> string \<Rightarrow> did \<Rightarrow> meter_field \<Rightarrow> int \<Rightarrow> int \<Rightarrow> number \<Rightarrow> number
     \<Rightarrow> (tracker_error + bool \<times> number) \<times> action_table" where
  "checkAndReserve db wall uuid recordId agentDid mf windowStart now maxv reserveAmount =
     (case METER_FIELD_REGISTRY (metric mf) of
        None \<Rightarrow> (Inl (UnregisteredMeterField (metric mf)), db)
      | Some entry \<Rightarrow>
          (case findReservation db recordId of
             Some existing \<Rightarrow>
               (let existingReserveAmount = number_or reserveAmount (summary_prop existing ''reserveAmount'');
                    existingMax = number_or maxv (summary_prop existing ''max'');
                    existingCumulative = number_or (Fin 0) (summary_prop existing ''cumulativeAtReserve'');
                    wouldExceed = num_lt existingMax (num_add existingCumulative existingReserveAmount)
                in (Inr (\<not> wouldExceed, existingCumulative), db))
           | None \<Rightarrow>
               (let currentCumulative = aggregateWithClient db agentDid windowStart now wall entry;
                    projected = num_add currentCumulative reserveAmount
                in if num_lt maxv projected then (Inr (False, currentCumulative), db)
                   else (Inr (True, currentCumulative),
                         insertReservation db
                           (reservation_row uuid recordId agentDid (metric mf) reserveAmount maxv
                              currentCumulative now)))))"

subsection \<open>Settle\<close>

datatype result_status = SUCCESS | REJECTED | ERROR

primrec result_status_name :: "result_status \<Rightarrow> string" where
  "result_status_name SUCCESS = ''SUCCESS''"
| "result_status_name REJECTED = ''REJECTED''"
| "result_status_name ERROR = ''ERROR''"

text \<open>
  The fate of a reservation: its new status, or the over-limit error of a settled amount above the
  reserved one.
\<close>

definition settle_status ::
  "meter_entry \<Rightarrow> action_row \<Rightarrow> result_status \<Rightarrow> number option \<Rightarrow> string option" where
  "settle_status entry reservation resultStatus settledAmount =
     (let reserveAmount = number_or (Fin 0) (summary_prop reservation ''reserveAmount'');
          maxv = number_or PInf (summary_prop reservation ''max'')
      in if aggregation entry = AGG_COUNT then
           (if countFilter entry = AnyStatus then Some ''SETTLED''
            else Some (if resultStatus = SUCCESS then ''SETTLED'' else ''RELEASED''))
         else if resultStatus \<noteq> SUCCESS then Some ''RELEASED''
         else
           (let effectiveAmount = (case settledAmount of None \<Rightarrow> reserveAmount | Some a \<Rightarrow> a);
                cumulativeAtReserve = number_or (Fin 0) (summary_prop reservation ''cumulativeAtReserve'')
            in if num_lt reserveAmount effectiveAmount \<and>
                  num_lt maxv (num_add cumulativeAtReserve effectiveAmount)
               then None else Some ''SETTLED''))"

definition settled_summary ::
  "action_row \<Rightarrow> string \<Rightarrow> result_status \<Rightarrow> number option \<Rightarrow> js_object" where
  "settled_summary reservation newStatus resultStatus settledAmount =
     (let reserveAmount = number_or (Fin 0) (summary_prop reservation ''reserveAmount'');
          old = (case result_summary reservation of None \<Rightarrow> [] | Some obj \<Rightarrow> obj)
      in set_prop (set_prop (set_prop old ''status'' (JStr newStatus))
           ''resultStatus'' (JStr (result_status_name resultStatus)))
           ''settledAmount''
           (json_number (case settledAmount of None \<Rightarrow> reserveAmount | Some a \<Rightarrow> a)))"

definition update_summary :: "action_table \<Rightarrow> string \<Rightarrow> js_object \<Rightarrow> action_table" where
  "update_summary db recordId obj =
     map (\<lambda>row. if record_id row = recordId \<and> is_reservation row
                then row\<lparr>result_summary := Some obj\<rparr> else row) db"

definition doSettle ::
  "action_table \<Rightarrow> string \<Rightarrow> result_status \<Rightarrow> number option \<Rightarrow> tracker_error option \<times> action_table" where
  "doSettle db recordId resultStatus settledAmount =
     (case findReservation db recordId of
        None \<Rightarrow> (None, db)
      | Some reservation \<Rightarrow>
          (case summary_prop reservation ''metric'' of
             JStr metr \<Rightarrow>
               (case METER_FIELD_REGISTRY metr of
                  None \<Rightarrow> (None, db)
                | Some entry \<Rightarrow>
                    (case settle_status entry reservation resultStatus settledAmount of
                       None \<Rightarrow> (Some (SettledAmountExceedsMax recordId), db)
                     | Some newStatus \<Rightarrow>
                         (None, update_summary db recordId
                            (settled_summary reservation newStatus resultStatus settledAmount))))
           | _ \<Rightarrow> (None, db)))"

text \<open>\<open>settleReservation\<close> runs \<open>doSettle\<close> in the caller's transaction or in its own.\<close>

definition settleReservation ::
  "action_table \<Rightarrow> string \<Rightarrow> result_status \<Rightarrow> number option \<Rightarrow> tracker_error option \<times> action_table" where
  "settleReservation db recordId resultStatus settledAmount = doSettle db recordId resultStatus settledAmount"

subsection \<open>The read-only query\<close>

definition fetchSettledRows :: "action_table \<Rightarrow> did \<Rightarrow> int \<Rightarrow> int \<Rightarrow> meter_entry \<Rightarrow> action_table" where
  "fetchSettledRows db agentDid windowStart now entry =
     filter (\<lambda>row. in_window agentDid windowStart now row \<and> \<not> is_reservation row \<and>
       (case status_text row of
          None \<Rightarrow> False
        | Some st \<Rightarrow> (case countFilter entry of
              OnlySuccess \<Rightarrow> st = ''SUCCESS''
            | AnyStatus \<Rightarrow> st \<notin> {''PENDING'', ''RELEASED''}))) db"

fun aggregate :: "(action_row \<Rightarrow> bool) \<Rightarrow> meter_entry \<Rightarrow> number \<Rightarrow> action_table \<Rightarrow> tracker_error + number" where
  "aggregate sig_ok entry acc [] = Inr acc"
| "aggregate sig_ok entry acc (row # rows) =
     (if \<not> sig_ok row then Inl (LedgerSignatureInvalid (record_id row))
      else if aggregation entry = AGG_COUNT then aggregate sig_ok entry (num_add acc (Fin 1)) rows
      else
        (case (case recordField entry of None \<Rightarrow> JUndef | Some fld \<Rightarrow> summary_prop row fld) of
           JNum x \<Rightarrow>
             (if x = NaN then Inl (MissingSumField (record_id row))
              else aggregate sig_ok entry (num_add acc x) rows)
         | _ \<Rightarrow> Inl (MissingSumField (record_id row))))"

definition getCumulativeValue ::
  "(action_row \<Rightarrow> bool) \<Rightarrow> action_table \<Rightarrow> did \<Rightarrow> meter_field \<Rightarrow> int \<Rightarrow> int \<Rightarrow> tracker_error + number" where
  "getCumulativeValue sig_ok db agentDid mf windowStart now =
     (case METER_FIELD_REGISTRY (metric mf) of
        None \<Rightarrow> Inl (UnregisteredMeterField (metric mf))
      | Some entry \<Rightarrow>
          aggregate sig_ok entry (Fin 0) (fetchSettledRows db agentDid windowStart now entry))"

subsection \<open>Totals as sums of row contributions\<close>

definition row_contrib :: "did \<Rightarrow> int \<Rightarrow> int \<Rightarrow> int \<Rightarrow> meter_entry \<Rightarrow> action_row \<Rightarrow> number option" where
  "row_contrib agentDid windowStart now wall entry row =
     (if in_window agentDid windowStart now row \<and> statusFilterExpr entry (wall - PENDING_TTL_MS) row
      then row_amount entry row else None)"

lemma foldl_contribs:
  "foldl (\<lambda>acc row. case f row of None \<Rightarrow> acc | Some x \<Rightarrow> num_add acc x) a (filter P rows) =
   foldl num_add a (List.map_filter (\<lambda>row. if P row then f row else None) rows)"
  by (induction rows arbitrary: a) (auto simp: List.map_filter_def split: option.splits)

lemma aggregate_contribs:
  "aggregateWithClient db agentDid windowStart now wall entry =
   foldl num_add (Fin 0) (List.map_filter (row_contrib agentDid windowStart now wall entry) db)"
  by (simp add: aggregateWithClient_def row_contrib_def[abs_def] Let_def foldl_contribs)

lemma aggregate_snoc:
  "aggregateWithClient (db @ [row]) agentDid windowStart now wall entry =
   (case row_contrib agentDid windowStart now wall entry row of
      None \<Rightarrow> aggregateWithClient db agentDid windowStart now wall entry
    | Some x \<Rightarrow> num_add (aggregateWithClient db agentDid windowStart now wall entry) x)"
  by (simp add: aggregate_contribs List.map_filter_def split: option.splits)

lemma aggregate_cong:
  assumes "\<And>row. row \<in> set db \<Longrightarrow>
    row_contrib agentDid windowStart now wall entry (f row) = row_contrib agentDid windowStart now wall entry row"
  shows "aggregateWithClient (map f db) agentDid windowStart now wall entry =
    aggregateWithClient db agentDid windowStart now wall entry"
proof -
  have "List.map_filter (row_contrib agentDid windowStart now wall entry) (map f db) =
      List.map_filter (row_contrib agentDid windowStart now wall entry) db"
    using assms by (induction db) (auto simp: List.map_filter_def)
  then show ?thesis by (simp add: aggregate_contribs)
qed

lemma reservation_row_simps [simp]:
  "record_id (reservation_row u i a m amt mx c n) = i"
  "agent_did (reservation_row u i a m amt mx c n) = a"
  "created_at (reservation_row u i a m amt mx c n) = n"
  "is_reservation (reservation_row u i a m amt mx c n)"
  "summary_prop (reservation_row u i a m amt mx c n) ''status'' = JStr ''PENDING''"
  "summary_prop (reservation_row u i a m amt mx c n) ''metric'' = JStr m"
  "summary_prop (reservation_row u i a m amt mx c n) ''reserveAmount'' = json_number amt"
  "summary_prop (reservation_row u i a m amt mx c n) ''max'' = json_number mx"
  "summary_prop (reservation_row u i a m amt mx c n) ''cumulativeAtReserve'' = json_number c"
  by (simp_all add: reservation_row_def is_reservation_def summary_prop_def get_prop_def)

lemma reservation_counts:
  assumes "windowStart \<le> now" "wall - PENDING_TTL_MS \<le> now"
  shows "row_contrib agentDid windowStart now wall entry (reservation_row u i agentDid m (Fin q) mx c now) =
    Some (if aggregation entry = AGG_COUNT then Fin 1 else Fin q)"
  using assms
  by (auto simp: row_contrib_def in_window_def statusFilterExpr_def status_text_def row_amount_def
      json_number_def split: count_filter.splits)

lemma find_fresh: "i \<notin> record_id ` set db \<Longrightarrow> findReservation db i = None"
  by (auto simp: findReservation_def find_None_iff)

lemma find_snoc: "List.find P xs = None \<Longrightarrow> List.find P (xs @ [x]) = (if P x then Some x else None)"
  by (induction xs) (auto split: if_splits)

lemma find_inserted:
  "i \<notin> record_id ` set db \<Longrightarrow> record_id row = i \<Longrightarrow> is_reservation row \<Longrightarrow>
   findReservation (insertReservation db row) i = Some row"
  using find_fresh[of i db] by (auto simp: findReservation_def insertReservation_def find_snoc)

subsection \<open>The contract of a metered limit\<close>

text \<open>
  What the limit evaluator needs from a tracker: an admitted request adds its amount to the total
  and keeps it within the limit, a refused one changes nothing. Under it no run of requests, in
  whatever order they are serialised, takes the total over the limit.
\<close>

fun run_requests :: "('db \<Rightarrow> 'r \<Rightarrow> bool \<times> 'db) \<Rightarrow> 'db \<Rightarrow> 'r list \<Rightarrow> 'r list \<times> 'db" where
  "run_requests reserve db [] = ([], db)"
| "run_requests reserve db (r # rs) =
     (case reserve db r of (ok, db1) \<Rightarrow>
        case run_requests reserve db1 rs of (adm, db2) \<Rightarrow> (if ok then r # adm else adm, db2))"

locale metered_limit =
  fixes reserve :: "'db \<Rightarrow> 'r \<Rightarrow> bool \<times> 'db"
    and metered :: "'db \<Rightarrow> number"
    and amount :: "'r \<Rightarrow> rat"
    and limit :: rat
    and fresh :: "'db \<Rightarrow> 'r \<Rightarrow> bool"
    and key :: "'r \<Rightarrow> string"
  assumes admit: "fresh db r \<Longrightarrow> metered db = Fin q \<Longrightarrow> reserve db r = (True, db') \<Longrightarrow>
      metered db' = Fin (q + amount r) \<and> q + amount r \<le> limit"
    and refuse: "fresh db r \<Longrightarrow> reserve db r = (False, db') \<Longrightarrow> db' = db"
    and fresh_kept: "fresh db r' \<Longrightarrow> key r \<noteq> key r' \<Longrightarrow> reserve db r = (b, db') \<Longrightarrow> fresh db' r'"
begin

lemma run_within_limit:
  assumes "list_all (fresh db) rs" "distinct (map key rs)" "metered db = Fin q" "q \<le> limit"
    and "run_requests reserve db rs = (adm, db')"
  shows "metered db' = Fin (q + sum_list (map amount adm)) \<and> q + sum_list (map amount adm) \<le> limit"
  using assms
proof (induction rs arbitrary: db q adm)
  case (Cons r rs)
  obtain ok db1 where r: "reserve db r = (ok, db1)" by fastforce
  obtain adm1 where rs: "run_requests reserve db1 rs = (adm1, db')" and adm: "adm = (if ok then r # adm1 else adm1)"
    using Cons.prems(5) r by (auto split: prod.splits)
  have fr: "fresh db r" and d: "distinct (map key rs)"
    using Cons.prems(1,2) by auto
  have "fresh db1 x" if "x \<in> set rs" for x
    using that Cons.prems(1,2) by (intro fresh_kept[OF _ _ r]) (auto simp: list_all_iff)
  then have fr': "list_all (fresh db1) rs"
    by (simp add: list_all_iff)
  show ?case
  proof (cases ok)
    case True
    then have "metered db1 = Fin (q + amount r)" "q + amount r \<le> limit"
      using admit[OF fr Cons.prems(3)] r by auto
    from Cons.IH[OF fr' d this rs] show ?thesis
      using adm True by (simp add: add.assoc)
  next
    case False
    then have "db1 = db" using refuse fr r by auto
    with Cons.IH[OF fr' d _ Cons.prems(4) rs] Cons.prems(3) show ?thesis
      using adm False by simp
  qed
qed simp

end

subsection \<open>The table keeps the contract\<close>

record reserve_request =
  rq_id :: string
  rq_amount :: rat
  rq_uuid :: string

definition reserve_at ::
  "int \<Rightarrow> did \<Rightarrow> meter_field \<Rightarrow> int \<Rightarrow> int \<Rightarrow> rat \<Rightarrow> action_table \<Rightarrow> reserve_request \<Rightarrow> bool \<times> action_table" where
  "reserve_at wall agentDid mf windowStart now m db r =
     (case checkAndReserve db wall (rq_uuid r) (rq_id r) agentDid mf windowStart now (Fin m) (Fin (rq_amount r)) of
        (Inr (ok, _), db') \<Rightarrow> (ok, db')
      | (Inl _, db') \<Rightarrow> (False, db'))"

definition metered_total :: "int \<Rightarrow> did \<Rightarrow> meter_field \<Rightarrow> int \<Rightarrow> int \<Rightarrow> action_table \<Rightarrow> number" where
  "metered_total wall agentDid mf windowStart now db =
     (case METER_FIELD_REGISTRY (metric mf) of
        None \<Rightarrow> NaN
      | Some entry \<Rightarrow> aggregateWithClient db agentDid windowStart now wall entry)"

text \<open>
  A request with a new record id, on a registered metric, inside the window and not older than the
  reservation lifetime; a call count reserves 1, as \<open>evaluateCumulativeLimit\<close> does.
\<close>

definition request_ok ::
  "int \<Rightarrow> meter_field \<Rightarrow> int \<Rightarrow> int \<Rightarrow> action_table \<Rightarrow> reserve_request \<Rightarrow> bool" where
  "request_ok wall mf windowStart now db r =
     (rq_id r \<notin> record_id ` set db \<and> windowStart \<le> now \<and> wall - PENDING_TTL_MS \<le> now \<and>
      (case METER_FIELD_REGISTRY (metric mf) of
         None \<Rightarrow> False
       | Some entry \<Rightarrow> aggregation entry = AGG_COUNT \<longrightarrow> rq_amount r = 1))"

lemma reserve_at_cases:
  assumes "request_ok wall mf windowStart now db r" "METER_FIELD_REGISTRY (metric mf) = Some entry"
  shows "reserve_at wall agentDid mf windowStart now m db r =
    (let c = aggregateWithClient db agentDid windowStart now wall entry in
     if num_lt (Fin m) (num_add c (Fin (rq_amount r))) then (False, db)
     else (True, db @ [reservation_row (rq_uuid r) (rq_id r) agentDid (metric mf) (Fin (rq_amount r)) (Fin m) c now]))"
  using assms
  by (simp add: reserve_at_def request_ok_def checkAndReserve_def find_fresh insertReservation_def Let_def)

lemma reserve_at_ids:
  "reserve_at wall agentDid mf windowStart now m db r = (b, db') \<Longrightarrow>
   record_id ` set db' \<subseteq> insert (rq_id r) (record_id ` set db)"
  by (auto simp: reserve_at_def checkAndReserve_def insertReservation_def Let_def
      split: option.splits if_splits)

interpretation pg: metered_limit "reserve_at wall agentDid mf windowStart now m"
  "metered_total wall agentDid mf windowStart now" rq_amount m
  "request_ok wall mf windowStart now" rq_id
  for wall agentDid mf windowStart now m
proof
  fix db r q db'
  assume ok: "request_ok wall mf windowStart now db r"
  then obtain entry where e: "METER_FIELD_REGISTRY (metric mf) = Some entry"
    and w: "windowStart \<le> now" "wall - PENDING_TTL_MS \<le> now"
    and amt: "aggregation entry = AGG_COUNT \<longrightarrow> rq_amount r = 1"
    by (auto simp: request_ok_def split: option.splits)
  note cases = reserve_at_cases[OF ok e, of agentDid m]
  show "db' = db" if "reserve_at wall agentDid mf windowStart now m db r = (False, db')"
    using that unfolding cases by (simp add: Let_def split: if_splits)
  show "metered_total wall agentDid mf windowStart now db' = Fin (q + rq_amount r) \<and> q + rq_amount r \<le> m"
    if q: "metered_total wall agentDid mf windowStart now db = Fin q"
      and res: "reserve_at wall agentDid mf windowStart now m db r = (True, db')"
  proof -
    have c: "aggregateWithClient db agentDid windowStart now wall entry = Fin q"
      using q e by (simp add: metered_total_def)
    have "\<not> m < q + rq_amount r"
      and db': "db' = db @ [reservation_row (rq_uuid r) (rq_id r) agentDid (metric mf) (Fin (rq_amount r)) (Fin m) (Fin q) now]"
      using res unfolding cases c by (simp_all add: Let_def split: if_splits)
    then show ?thesis
      using amt by (simp add: metered_total_def e aggregate_snoc c reservation_counts[OF w])
  qed
next
  fix db r' r b db'
  assume "request_ok wall mf windowStart now db r'" "rq_id r \<noteq> rq_id r'"
    "reserve_at wall agentDid mf windowStart now m db r = (b, db')"
  then show "request_ok wall mf windowStart now db' r'"
    using reserve_at_ids[of wall agentDid mf windowStart now m db r b db']
    by (auto simp: request_ok_def)
qed

subsection \<open>What settling does to a reservation\<close>

lemma find_reservation_props:
  "findReservation db i = Some row \<Longrightarrow> row \<in> set db \<and> record_id row = i \<and> is_reservation row"
  by (auto simp: findReservation_def find_Some_iff)

lemma settled_summary_props:
  "get_prop (settled_summary row st rs amt) ''status'' = JStr st"
  "get_prop (settled_summary row st rs amt) ''reserveAmount'' = summary_prop row ''reserveAmount''"
  by (simp_all add: settled_summary_def Let_def summary_prop_def get_prop_def[of "[]"] split: option.splits)

lemma unique_reservation:
  assumes "distinct (map record_id db)" "findReservation db i = Some row" "x \<in> set db" "record_id x = i"
  shows "x = row"
  using assms find_reservation_props[OF assms(2)] by (metis distinct_map inj_on_eq_iff)

lemma settle_updates:
  assumes "findReservation db i = Some row" "summary_prop row ''metric'' = JStr metr"
    "METER_FIELD_REGISTRY metr = Some entry" "settle_status entry row rs amt = Some st"
  shows "settleReservation db i rs amt = (None, update_summary db i (settled_summary row st rs amt))"
  using assms by (simp add: settleReservation_def doSettle_def)

lemma released_no_contrib:
  assumes "get_prop obj ''status'' = JStr ''RELEASED''"
  shows "row_contrib agentDid windowStart now wall entry (row\<lparr>result_summary := Some obj\<rparr>) = None"
  using assms by (auto simp: row_contrib_def statusFilterExpr_def status_text_def summary_prop_def
      split: count_filter.splits)

lemma settled_contrib:
  assumes "is_reservation row" "summary_prop row ''status'' = JStr ''PENDING''"
    "wall - PENDING_TTL_MS \<le> created_at row" "get_prop obj ''status'' = JStr ''SETTLED''"
    "get_prop obj ''reserveAmount'' = summary_prop row ''reserveAmount''"
  shows "row_contrib agentDid windowStart now wall entry (row\<lparr>result_summary := Some obj\<rparr>) =
    row_contrib agentDid windowStart now wall entry row"
  using assms
  by (auto simp: row_contrib_def statusFilterExpr_def status_text_def summary_prop_def row_amount_def
      is_reservation_def in_window_def split: count_filter.splits)

lemma update_contrib_none:
  assumes "\<And>row. row_contrib agentDid windowStart now wall entry (row\<lparr>result_summary := Some obj\<rparr>) = None"
  shows "List.map_filter (row_contrib agentDid windowStart now wall entry) (update_summary db i obj) =
    List.map_filter (row_contrib agentDid windowStart now wall entry)
      (filter (\<lambda>row. \<not> (record_id row = i \<and> is_reservation row)) db)"
  using assms by (induction db) (auto simp: update_summary_def List.map_filter_def)

subsection \<open>Properties\<close>


definition example_meter :: "string \<Rightarrow> meter_field" where
  "example_meter k = \<lparr>source = action_record, metric = k, unit = None, precision = None,
     key_order = [''source'', ''metric'']\<rparr>"


text \<open>
  Remark (functional). A reservation is idempotent in its record id: once admitted, calling again
  with the same id answers the same and writes nothing, whatever limit, window or amount the
  second call carries.
\<close>

theorem reserve_replay:
  assumes new: "recordId \<notin> record_id ` set db"
    and first: "checkAndReserve db wall uuid recordId agentDid mf windowStart now (Fin m) (Fin a) = (Inr (True, Fin c), db')"
    and reg: "METER_FIELD_REGISTRY (metric mf') \<noteq> None"
  shows "checkAndReserve db' wall' uuid' recordId agentDid' mf' windowStart' now' maxv' amt' = (Inr (True, Fin c), db')"
proof -
  obtain entry where e: "METER_FIELD_REGISTRY (metric mf) = Some entry"
    using first by (auto simp: checkAndReserve_def split: option.splits)
  have c: "\<not> m < c + a" and db': "db' = insertReservation db
      (reservation_row uuid recordId agentDid (metric mf) (Fin a) (Fin m) (Fin c) now)"
    using first new e by (auto simp: checkAndReserve_def find_fresh Let_def split: if_splits)
  have "findReservation db' recordId =
      Some (reservation_row uuid recordId agentDid (metric mf) (Fin a) (Fin m) (Fin c) now)"
    unfolding db' using new by (intro find_inserted) auto
  then show ?thesis
    using reg c by (auto simp: checkAndReserve_def number_or_def json_number_def)
qed

text \<open>
  At this instance the second call carries a limit of 0 on another metric and is admitted: two
  cumulative limits evaluated for one action share its record id, and only the first is checked.
\<close>

theorem reserve_replay_witness:
  "let db' = snd (checkAndReserve [] 1000 ''u'' ''r1'' ''did:a'' (example_meter ''transaction_amount'') 0 1000 (Fin 100) (Fin 60))
   in checkAndReserve db' 1000 ''v'' ''r1'' ''did:a'' (example_meter ''api_call_count'') 0 1000 (Fin 0) (Fin 1) =
      (Inr (True, Fin 0), db') \<and> length db' = 1"
proof -
  let ?call = "checkAndReserve [] 1000 ''u'' ''r1'' ''did:a'' (example_meter ''transaction_amount'') 0 1000 (Fin 100) (Fin 60)"
  have f: "?call = (Inr (True, Fin 0), snd ?call)" and l: "length (snd ?call) = 1"
    by code_simp+
  have "METER_FIELD_REGISTRY (metric (example_meter ''api_call_count'')) \<noteq> None"
    by code_simp
  from reserve_replay[OF _ f this] l show ?thesis
    by (simp add: Let_def)
qed

text \<open>
  Remark (functional). Settling a failed spend gives the reserved amount back: after a REJECTED or
  ERROR result on a SUM metric every total is the one of the table without the reservation.
\<close>

theorem settle_failure_releases:
  assumes "findReservation db i = Some row" "summary_prop row ''metric'' = JStr metr"
    and "METER_FIELD_REGISTRY metr = Some entry" "aggregation entry = AGG_SUM" "rs \<noteq> SUCCESS"
  shows "fst (settleReservation db i rs amt) = None \<and>
    aggregateWithClient (snd (settleReservation db i rs amt)) agentDid windowStart now wall e =
      aggregateWithClient (filter (\<lambda>x. \<not> (record_id x = i \<and> is_reservation x)) db) agentDid windowStart now wall e"
proof -
  have "settle_status entry row rs amt = Some ''RELEASED''"
    using assms by (simp add: settle_status_def)
  note s = settle_updates[OF assms(1-3) this]
  show ?thesis
    by (simp add: s aggregate_contribs update_contrib_none released_no_contrib settled_summary_props)
qed

definition example_table :: action_table where
  "example_table =
     [reservation_row ''u'' ''r1'' ''did:a'' ''transaction_amount'' (Fin 60) (Fin 100) (Fin 0) 1000,
      reservation_row ''v'' ''r2'' ''did:a'' ''api_call_count'' (Fin 1) (Fin 10) (Fin 1) 2000]"

definition sum_entry :: meter_entry where
  "sum_entry = the (METER_FIELD_REGISTRY ''transaction_amount'')"

theorem settle_failure_releases_witness:
  "aggregateWithClient example_table ''did:a'' 0 3000 3000 sum_entry = Fin 61 \<and>
   aggregateWithClient (snd (settleReservation example_table ''r1'' ERROR None)) ''did:a'' 0 3000 3000 sum_entry = Fin 1"
proof -
  have "findReservation example_table ''r1'' = Some (hd example_table)"
    "summary_prop (hd example_table) ''metric'' = JStr ''transaction_amount''"
    "METER_FIELD_REGISTRY ''transaction_amount'' = Some sum_entry" "aggregation sum_entry = AGG_SUM" "ERROR \<noteq> SUCCESS"
    by code_simp+
  note settle_failure_releases[OF this, of None "''did:a''" 0 3000 3000 sum_entry]
  moreover have "aggregateWithClient (filter (\<lambda>x. \<not> (record_id x = ''r1'' \<and> is_reservation x)) example_table)
      ''did:a'' 0 3000 3000 sum_entry = Fin 1"
    "aggregateWithClient example_table ''did:a'' 0 3000 3000 sum_entry = Fin 61"
    by code_simp+
  ultimately show ?thesis by simp
qed

text \<open>
  Remark (safety). A call that was counted stays counted: settling a live call-count reservation, with
  any result status, leaves every total as it was, so failing calls on purpose frees no quota.
\<close>

theorem settle_count_stays:
  assumes "distinct (map record_id db)" "findReservation db i = Some row"
    and "summary_prop row ''metric'' = JStr ''api_call_count''" "summary_prop row ''status'' = JStr ''PENDING''"
    and "wall - PENDING_TTL_MS \<le> created_at row"
  shows "aggregateWithClient (snd (settleReservation db i rs amt)) agentDid windowStart now wall e =
    aggregateWithClient db agentDid windowStart now wall e"
proof -
  obtain entry where e: "METER_FIELD_REGISTRY ''api_call_count'' = Some entry"
    "aggregation entry = AGG_COUNT" "countFilter entry = AnyStatus"
    by (simp add: METER_FIELD_REGISTRY_def)
  then have "settle_status entry row rs amt = Some ''SETTLED''"
    by (simp add: settle_status_def)
  note s = settle_updates[OF assms(2,3) e(1) this]
  have "x = row" if "x \<in> set db" "record_id x = i" for x
    using that unique_reservation assms(1,2) by blast
  then show ?thesis
    unfolding s snd_conv update_summary_def
    using assms(4,5) by (intro aggregate_cong) (auto intro!: settled_contrib simp: settled_summary_props)
qed

theorem settle_count_stays_witness:
  "aggregateWithClient (snd (settleReservation example_table ''r2'' ERROR None)) ''did:a'' 0 3000 3000 sum_entry =
   aggregateWithClient example_table ''did:a'' 0 3000 3000 sum_entry"
proof -
  let ?row = "example_table ! 1"
  have "distinct (map record_id example_table)" "findReservation example_table ''r2'' = Some ?row"
    "summary_prop ?row ''metric'' = JStr ''api_call_count''" "summary_prop ?row ''status'' = JStr ''PENDING''"
    "3000 - PENDING_TTL_MS \<le> created_at ?row"
    by code_simp+
  then show ?thesis by (rule settle_count_stays)
qed

text \<open>
  Remark (functional). The calendar windows: a window starts at or before the instant it is computed
  for, an hour and a day less than their length before it, a week on a Monday less than seven days
  before, a month on the first of the same month of the same year.
\<close>

theorem window_start_calendar:
  "computeWindowStart w now \<le> now \<and>
   now < computeWindowStart Hour now + 3600000 \<and>
   now < computeWindowStart Day now + msPerDay \<and>
   getUTCDay (computeWindowStart Week now) = 1 \<and> now < computeWindowStart Week now + 7 * msPerDay \<and>
   date_from_day (day_of (computeWindowStart Month now)) = 1 \<and>
   month_from_day (day_of (computeWindowStart Month now)) = month_from_day (day_of now) \<and>
   year_from_day (day_of (computeWindowStart Month now)) = year_from_day (day_of now)"
proof (intro conjI)
  show "computeWindowStart w now \<le> now"
    by (rule window_start_le)
  show "getUTCDay (computeWindowStart Week now) = 1"
    by (rule week_start_monday)
  show "now < computeWindowStart Hour now + 3600000"
    using pos_mod_bound[of 3600000 now] by simp
  show "now < computeWindowStart Day now + msPerDay"
    using day_of_bounds(2)[of now] by simp
  have "now < (day_of now - k) * msPerDay + 7 * msPerDay" if "k \<le> 6" for k
    using that day_of_bounds(2)[of now] by (simp add: msPerDay_def algebra_simps)
  then show "now < computeWindowStart Week now + 7 * msPerDay"
    using days_to_monday(2)[of now] by (simp add: Let_def)
qed (use month_start_day[of "day_of now"] in simp_all)

text \<open>
  Remark (invariant). The start of a window belongs to the window it starts: computing the window of a
  window start gives the same instant, so all requests of one window share one lock and one total.
\<close>

theorem window_start_stable: "computeWindowStart w (computeWindowStart w now) = computeWindowStart w now"
  by (rule window_start_idem)

end
