(* ===== verification/Scope_Evaluator.thy ===== *)
theory Scope_Evaluator
  imports Cumulative_Tracker
begin

text \<open>
  \<open>policy/src/guard/scope-evaluator.ts\<close> and \<open>policy/src/scope/scope-evaluator-registry.ts\<close>: the
  four built-in scope evaluators, the instance and plugin registries, and the conjunctive
  \<open>evaluateAll\<close>.

  The tracker behind \<open>cumulative_limit\<close> is the interface \<open>CumulativeTracker\<close>, a function on an
  abstract store \<open>'st\<close>; the Postgres table is its instance. \<open>Intl.DateTimeFormat\<close> is the argument
  \<open>intl\<close>: a time zone name gives nothing (the constructor throws) or the resolved name and the two
  formatters. Denials carry one constructor per message of the source. Instants are milliseconds;
  the record-id and agent parameters are the strings the guard injects.
\<close>

subsection \<open>Results and parameters\<close>

datatype scope_reason =
  AllowlistEmpty string | MissingOrNotString string | NotInAllowlist string
| NotANumber string | ExceedsMax string number
| NotYetActive | ExpiredScope | InvalidTimeFormat | InvalidTimezone | OutsideTime | OutsideDay
| NoTracker | MetricSourceNotImplemented meter_source | UnregisteredMeter string
| CannotExtract string string | CumulativeExceeded number number number number window
| UnknownScopeType string | PluginDenied "string option"

datatype evaluation = Allowed | Denied scope_reason

datatype eval_error = UnexpectedWeekday string | TrackerFailed tracker_error | ScopeCastFailed | PluginThrew string

type_synonym intl_formats = "string \<times> (int \<Rightarrow> string) \<times> (int \<Rightarrow> string)"
type_synonym intl = "string \<Rightarrow> intl_formats option"

type_synonym 'st tracker =
  "string \<Rightarrow> did \<Rightarrow> meter_field \<Rightarrow> int \<Rightarrow> int \<Rightarrow> number \<Rightarrow> number \<Rightarrow> 'st \<Rightarrow> (tracker_error + bool \<times> number) \<times> 'st"

type_synonym 'st evaluator_fn =
  "scope \<Rightarrow> js_object \<Rightarrow> int \<Rightarrow> 'st tracker option \<Rightarrow> 'st \<Rightarrow> (eval_error + evaluation) \<times> 'st"

subsection \<open>Allowlists and numeric limits\<close>

definition endsWith :: "string \<Rightarrow> string \<Rightarrow> bool" where
  "endsWith s t = (length t \<le> length s \<and> drop (length s - length t) s = t)"

definition matchAllowlistValue :: "string \<Rightarrow> string \<Rightarrow> bool" where
  "matchAllowlistValue actualValue candidate =
     (if take 1 candidate = ''*'' \<and> 1 < length candidate then endsWith actualValue (drop 1 candidate)
      else actualValue = candidate)"

definition evaluateAllowlist :: "string \<Rightarrow> string list \<Rightarrow> js_object \<Rightarrow> evaluation" where
  "evaluateAllowlist field values params =
     (if values = [] then Denied (AllowlistEmpty field)
      else case get_prop params field of
             JStr actualValue \<Rightarrow>
               (if list_ex (matchAllowlistValue actualValue) values then Allowed
                else Denied (NotInAllowlist field))
           | _ \<Rightarrow> Denied (MissingOrNotString field))"

definition evaluateNumericLimit :: "string \<Rightarrow> number \<Rightarrow> js_object \<Rightarrow> evaluation" where
  "evaluateNumericLimit field maxv params =
     (case get_prop params field of
        JUndef \<Rightarrow> Allowed
      | JNull \<Rightarrow> Allowed
      | JNum actualValue \<Rightarrow>
          (if actualValue = NaN then Denied (NotANumber field)
           else if num_le actualValue maxv then Allowed else Denied (ExceedsMax field maxv))
      | _ \<Rightarrow> Denied (NotANumber field))"

subsection \<open>Time\<close>

definition weekdayToISO :: "string \<Rightarrow> eval_error + int" where
  "weekdayToISO weekday =
     (case map_of [(''Mon'', 1), (''Tue'', 2), (''Wed'', 3), (''Thu'', 4), (''Fri'', 5), (''Sat'', 6), (''Sun'', 7)] weekday of
        None \<Rightarrow> Inl (UnexpectedWeekday weekday)
      | Some day \<Rightarrow> Inr day)"

text \<open>The decision on a local clock reading: the tail of \<open>evaluateRecurringWindow\<close>.\<close>

definition window_decision :: "recurring_window \<Rightarrow> string \<Rightarrow> int \<Rightarrow> evaluation" where
  "window_decision rw localHHMM isoDay =
     (let crossesMidnight = str_lt (endTime rw) (startTime rw);
          inWindow = (if crossesMidnight
                      then str_le (startTime rw) localHHMM \<or> str_lt localHHMM (endTime rw)
                      else str_le (startTime rw) localHHMM \<and> str_lt localHHMM (endTime rw))
      in if \<not> inWindow then Denied OutsideTime
         else case daysOfWeek rw of
                None \<Rightarrow> Allowed
              | Some days \<Rightarrow>
                  (let effectiveDay = (if crossesMidnight \<and> str_lt localHHMM (endTime rw)
                                       then (if isoDay = 1 then 7 else isoDay - 1) else isoDay)
                   in if effectiveDay \<notin> set days then Denied OutsideDay else Allowed))"

definition evaluateRecurringWindow :: "intl \<Rightarrow> recurring_window \<Rightarrow> int \<Rightarrow> eval_error + evaluation" where
  "evaluateRecurringWindow intl rw now =
     (if \<not> HH_MM (startTime rw) \<or> \<not> HH_MM (endTime rw) then Inr (Denied InvalidTimeFormat)
      else case intl (timezone rw) of
             None \<Rightarrow> Inr (Denied InvalidTimezone)
           | Some (resolved, fmtTime, fmtDay) \<Rightarrow>
               (if resolved \<noteq> timezone rw then Inr (Denied InvalidTimezone)
                else case weekdayToISO (fmtDay now) of
                       Inl e \<Rightarrow> Inl e
                     | Inr isoDay \<Rightarrow> Inr (window_decision rw (fmtTime now) isoDay)))"

text \<open>Comparison of an instant with \<open>new Date(s).getTime()\<close>: false on an invalid date.\<close>

definition before_date :: "int \<Rightarrow> timestamp \<Rightarrow> bool" where
  "before_date t s = (case getTime s of None \<Rightarrow> False | Some u \<Rightarrow> t < u)"

definition at_or_after_date :: "int \<Rightarrow> timestamp \<Rightarrow> bool" where
  "at_or_after_date t s = (case getTime s of None \<Rightarrow> False | Some u \<Rightarrow> u \<le> t)"

definition evaluateTemporalScope :: "intl \<Rightarrow> temporal_scope \<Rightarrow> int \<Rightarrow> eval_error + evaluation" where
  "evaluateTemporalScope intl sc nowMs =
     (if before_date nowMs (notBefore sc) then Inr (Denied NotYetActive)
      else if at_or_after_date nowMs (notAfter sc) then Inr (Denied ExpiredScope)
      else case recurringWindow sc of
             None \<Rightarrow> Inr Allowed
           | Some rw \<Rightarrow> evaluateRecurringWindow intl rw nowMs)"

subsection \<open>Cumulative limits\<close>

definition string_or_empty :: "jsval \<Rightarrow> string" where
  "string_or_empty v = (case v of JStr s \<Rightarrow> s | _ \<Rightarrow> [])"

text \<open>The reserved amount: 1 for a count, the request's number for a sum.\<close>

definition reserve_amount :: "meter_entry \<Rightarrow> js_object \<Rightarrow> number option" where
  "reserve_amount entry params =
     (if aggregation entry = AGG_COUNT then Some (Fin 1)
      else case get_prop params (case requestField entry of None \<Rightarrow> ''undefined'' | Some fld \<Rightarrow> fld) of
             JNum raw \<Rightarrow> (if raw = NaN then None else Some raw)
           | _ \<Rightarrow> None)"

definition evaluateCumulativeLimit ::
  "cumulative_limit_scope \<Rightarrow> js_object \<Rightarrow> int \<Rightarrow> 'st tracker option \<Rightarrow> 'st \<Rightarrow> (eval_error + evaluation) \<times> 'st" where
  "evaluateCumulativeLimit sc params now tracker st =
     (case tracker of
        None \<Rightarrow> (Inr (Denied NoTracker), st)
      | Some reserve \<Rightarrow>
          if source (meterField sc) \<noteq> action_record
          then (Inr (Denied (MetricSourceNotImplemented (source (meterField sc)))), st)
          else
            (case METER_FIELD_REGISTRY (metric (meterField sc)) of
               None \<Rightarrow> (Inr (Denied (UnregisteredMeter (metric (meterField sc)))), st)
             | Some entry \<Rightarrow>
                 (case reserve_amount entry params of
                    None \<Rightarrow> (Inr (Denied (CannotExtract (case requestField entry of None \<Rightarrow> ''undefined'' | Some fld \<Rightarrow> fld)
                                          (metric (meterField sc)))), st)
                  | Some amt \<Rightarrow>
                      (case reserve (string_or_empty (get_prop params ''__recordId''))
                              (string_or_empty (get_prop params ''__agentDid'')) (meterField sc)
                              (computeWindowStart (cl_window sc) now) now (cl_max sc) amt st of
                         (Inl e, st') \<Rightarrow> (Inl (TrackerFailed e), st')
                       | (Inr (ok, current), st') \<Rightarrow>
                           (Inr (if ok then Allowed
                                 else Denied (CumulativeExceeded current amt (num_add current amt) (cl_max sc) (cl_window sc))),
                            st')))))"

subsection \<open>Registries and dispatch\<close>

datatype register_error = TypeEmpty string | TypeBuiltIn string | TypeRegistered string

definition registry_register ::
  "(string, 'st evaluator_fn) js_map \<Rightarrow> string \<Rightarrow> 'st evaluator_fn \<Rightarrow> bool \<Rightarrow> register_error + (string, 'st evaluator_fn) js_map" where
  "registry_register plugins type fn force =
     (if list_all isBlank type then Inl (TypeEmpty type)
      else if type \<in> set BUILT_IN_SCOPE_TYPES then Inl (TypeBuiltIn type)
      else if jm_get plugins type \<noteq> None \<and> \<not> force then Inl (TypeRegistered type)
      else Inr (jm_set plugins type fn))"

definition registry_listTypes :: "(string, 'st evaluator_fn) js_map \<Rightarrow> string list" where
  "registry_listTypes plugins = jm_keys plugins"

record 'st scope_evaluator =
  evaluators :: "(string, 'st evaluator_fn) js_map"
  registry :: "(string, 'st evaluator_fn) js_map"
  tracker :: "'st tracker option"

definition built_in_evaluators :: "intl \<Rightarrow> (string, 'st evaluator_fn) js_map" where
  "built_in_evaluators intl =
     [(''allowlist'', \<lambda>s params now trk st. case s of
         Allowlist a \<Rightarrow> (Inr (evaluateAllowlist (al_field a) (al_values a) params), st) | _ \<Rightarrow> (Inl ScopeCastFailed, st)),
      (''numeric_limit'', \<lambda>s params now trk st. case s of
         NumericLimit n \<Rightarrow> (Inr (evaluateNumericLimit (nl_field n) (nl_max n) params), st) | _ \<Rightarrow> (Inl ScopeCastFailed, st)),
      (''temporal_scope'', \<lambda>s params now trk st. case s of
         Temporal t \<Rightarrow> (evaluateTemporalScope intl t now, st) | _ \<Rightarrow> (Inl ScopeCastFailed, st)),
      (''cumulative_limit'', \<lambda>s params now trk st. case s of
         CumulativeLimit c \<Rightarrow> evaluateCumulativeLimit c params now trk st | _ \<Rightarrow> (Inl ScopeCastFailed, st))]"

definition new_ScopeEvaluator ::
  "intl \<Rightarrow> 'st tracker option \<Rightarrow> (string, 'st evaluator_fn) js_map \<Rightarrow> 'st scope_evaluator" where
  "new_ScopeEvaluator intl trk reg =
     \<lparr>evaluators = built_in_evaluators intl, registry = reg, tracker = trk\<rparr>"

definition registerScopeEvaluator ::
  "'st scope_evaluator \<Rightarrow> string \<Rightarrow> 'st evaluator_fn \<Rightarrow> register_error + 'st scope_evaluator" where
  "registerScopeEvaluator ev type fn =
     (if type \<in> set BUILT_IN_SCOPE_TYPES then Inl (TypeBuiltIn type)
      else Inr (ev\<lparr>evaluators := jm_set (evaluators ev) type fn\<rparr>))"

definition evaluate ::
  "'st scope_evaluator \<Rightarrow> scope \<Rightarrow> js_object \<Rightarrow> int \<Rightarrow> 'st \<Rightarrow> (eval_error + evaluation) \<times> 'st" where
  "evaluate ev s params now st =
     (case jm_get (evaluators ev) (scope_type s) of
        Some fn \<Rightarrow> fn s params now (tracker ev) st
      | None \<Rightarrow>
          (case jm_get (registry ev) (scope_type s) of
             Some fn \<Rightarrow> fn s params now (tracker ev) st
           | None \<Rightarrow> (Inr (Denied (UnknownScopeType (scope_type s))), st)))"

fun evaluateAll ::
  "'st scope_evaluator \<Rightarrow> scope list \<Rightarrow> js_object \<Rightarrow> int \<Rightarrow> 'st \<Rightarrow> (eval_error + evaluation) \<times> 'st" where
  "evaluateAll ev [] params now st = (Inr Allowed, st)"
| "evaluateAll ev (s # ss) params now st =
     (case evaluate ev s params now st of
        (Inl e, st') \<Rightarrow> (Inl e, st')
      | (Inr (Denied r), st') \<Rightarrow> (Inr (Denied r), st')
      | (Inr Allowed, st') \<Rightarrow> evaluateAll ev ss params now st')"

text \<open>\<open>evaluateScope\<close>: a fresh evaluator with no tracker and the global registry.\<close>

definition evaluateScope ::
  "intl \<Rightarrow> (string, 'st evaluator_fn) js_map \<Rightarrow> scope \<Rightarrow> js_object \<Rightarrow> int \<Rightarrow> 'st \<Rightarrow> (eval_error + evaluation) \<times> 'st" where
  "evaluateScope intl globalRegistry s params now st =
     evaluate (new_ScopeEvaluator intl None globalRegistry) s params now st"

subsection \<open>Reachable evaluators\<close>

text \<open>An evaluator after any sequence of accepted registrations, on the instance or in the registry.\<close>

inductive evaluator_reach :: "intl \<Rightarrow> 'st tracker option \<Rightarrow> 'st scope_evaluator \<Rightarrow> bool"
  for intl :: intl and trk :: "'st tracker option" where
  fresh: "evaluator_reach intl trk (new_ScopeEvaluator intl trk [])"
| instance_reg: "evaluator_reach intl trk ev \<Longrightarrow> registerScopeEvaluator ev t fn = Inr ev' \<Longrightarrow> evaluator_reach intl trk ev'"
| plugin_reg: "evaluator_reach intl trk ev \<Longrightarrow> registry_register (registry ev) t fn force = Inr reg \<Longrightarrow>
    evaluator_reach intl trk (ev\<lparr>registry := reg\<rparr>)"

lemma built_in_get [js_simps]:
  "t \<in> set BUILT_IN_SCOPE_TYPES \<Longrightarrow> jm_get (built_in_evaluators intl) t \<noteq> None"
  by (auto simp: BUILT_IN_SCOPE_TYPES_def built_in_evaluators_def jm_get_def)

lemma reach_built_ins:
  "evaluator_reach intl trk ev \<Longrightarrow> tracker ev = trk \<and>
   (\<forall>t \<in> set BUILT_IN_SCOPE_TYPES. jm_get (evaluators ev) t = jm_get (built_in_evaluators intl) t \<and>
      jm_get (registry ev) t = None)"
proof (induction rule: evaluator_reach.induct)
  case fresh
  then show ?case by (simp add: new_ScopeEvaluator_def jm_get_def)
next
  case (instance_reg ev t fn ev')
  then show ?case by (auto simp: registerScopeEvaluator_def store_simps split: if_splits)
next
  case (plugin_reg ev t fn force reg)
  then show ?case by (auto simp: registry_register_def store_simps split: if_splits)
qed

lemma evaluate_built_in:
  assumes "evaluator_reach intl trk ev"
  shows "evaluate ev (Allowlist a) params now st = (Inr (evaluateAllowlist (al_field a) (al_values a) params), st)"
    "evaluate ev (NumericLimit n) params now st = (Inr (evaluateNumericLimit (nl_field n) (nl_max n) params), st)"
    "evaluate ev (Temporal t) params now st = (evaluateTemporalScope intl t now, st)"
    "evaluate ev (CumulativeLimit c) params now st = evaluateCumulativeLimit c params now trk st"
  using reach_built_ins[OF assms]
  by (simp_all add: evaluate_def BUILT_IN_SCOPE_TYPES_def built_in_evaluators_def jm_get_def)

subsection \<open>Reference reading of the stateless scopes\<close>

text \<open>
  What a scope says, in words close to the scope specification: the value is listed literally or
  ends with a listed non-empty suffix, the number is within the limit when present, the instant
  is in the interval and the recurring window.
\<close>

definition allowlist_permits :: "allowlist_scope \<Rightarrow> js_object \<Rightarrow> bool" where
  "allowlist_permits a params =
     (\<exists>v. get_prop params (al_field a) = JStr v \<and>
        (\<exists>c \<in> set (al_values a). c = v \<or> (\<exists>pre suf. suf \<noteq> [] \<and> c = CHR ''*'' # suf \<and> v = pre @ suf)))"

definition numeric_permits :: "numeric_limit_scope \<Rightarrow> js_object \<Rightarrow> bool" where
  "numeric_permits n params =
     (get_prop params (nl_field n) \<in> {JUndef, JNull} \<or>
      (\<exists>x. get_prop params (nl_field n) = JNum x \<and> num_le x (nl_max n)))"

definition stateless_permits :: "intl \<Rightarrow> js_object \<Rightarrow> int \<Rightarrow> scope \<Rightarrow> bool" where
  "stateless_permits intl params now s =
     (case s of
        Allowlist a \<Rightarrow> allowlist_permits a params
      | NumericLimit n \<Rightarrow> numeric_permits n params
      | Temporal t \<Rightarrow> evaluateTemporalScope intl t now = Inr Allowed
      | _ \<Rightarrow> False)"

definition stateless :: "scope \<Rightarrow> bool" where
  "stateless s = (case s of CumulativeLimit _ \<Rightarrow> False | OtherScope _ _ \<Rightarrow> False | _ \<Rightarrow> True)"

lemma endsWith_iff: "endsWith s t \<longleftrightarrow> (\<exists>pre. s = pre @ t)"
proof
  assume "endsWith s t"
  then have "s = take (length s - length t) s @ t"
    unfolding endsWith_def by (metis append_take_drop_id)
  then show "\<exists>pre. s = pre @ t" ..
qed (auto simp: endsWith_def)

lemma matchAllowlistValue_iff:
  "matchAllowlistValue v c \<longleftrightarrow> c = v \<or> (\<exists>pre suf. suf \<noteq> [] \<and> c = CHR ''*'' # suf \<and> v = pre @ suf)"
proof (cases c)
  case (Cons x cs)
  show ?thesis
  proof (cases "x = CHR ''*'' \<and> cs \<noteq> []")
    case True
    have "endsWith v cs" if "c = v"
      unfolding endsWith_iff using that Cons by (metis append_Cons append_Nil)
    then show ?thesis
      using Cons True by (auto simp: matchAllowlistValue_def endsWith_iff)
  qed (use Cons in \<open>auto simp: matchAllowlistValue_def\<close>)
qed (auto simp: matchAllowlistValue_def)

lemma evaluateAllowlist_iff:
  "evaluateAllowlist (al_field a) (al_values a) params = Allowed \<longleftrightarrow> allowlist_permits a params"
  by (auto simp: evaluateAllowlist_def allowlist_permits_def list_ex_iff matchAllowlistValue_iff
      split: jsval.splits)

lemma evaluateNumericLimit_iff:
  "evaluateNumericLimit (nl_field n) (nl_max n) params = Allowed \<longleftrightarrow> numeric_permits n params"
  by (auto simp: evaluateNumericLimit_def numeric_permits_def split: jsval.splits)

lemma evaluate_stateless:
  assumes "evaluator_reach intl trk ev" "stateless s"
  shows "snd (evaluate ev s params now st) = st"
    "fst (evaluate ev s params now st) = Inr Allowed \<longleftrightarrow> stateless_permits intl params now s"
  using assms(2)
  by (cases s; simp add: stateless_def evaluate_built_in[OF assms(1)] stateless_permits_def
      evaluateAllowlist_iff evaluateNumericLimit_iff)+

lemma evaluateAll_Allowed_step:
  "fst (evaluateAll ev (s # ss) params now st) = Inr Allowed \<longleftrightarrow>
   fst (evaluate ev s params now st) = Inr Allowed \<and>
   fst (evaluateAll ev ss params now (snd (evaluate ev s params now st))) = Inr Allowed"
  by (auto split: prod.splits sum.splits evaluation.splits)

subsection \<open>Recurring windows as weekly intervals\<close>

text \<open>
  Minutes from the start of the window of day \<open>d\<close> to a local clock reading, around the week. A
  window that crosses midnight belongs to the day it starts on.
\<close>

definition week_offset :: "int \<Rightarrow> int \<Rightarrow> int \<Rightarrow> int \<Rightarrow> int" where
  "week_offset isoDay x d s = (isoDay * 1440 + x - (d * 1440 + s)) mod 10080"

lemma week_offset_cases:
  assumes "1 \<le> isoDay" "isoDay \<le> 7" "1 \<le> d" "d \<le> 7" "0 \<le> x" "x < 1440" "0 \<le> s" "s < 1440"
  shows "week_offset isoDay x d s =
    (let o' = (isoDay - d) * 1440 + (x - s) in if o' < 0 then o' + 10080 else o')"
proof -
  define z where "z = (isoDay - d) * 1440 + (x - s)"
  have z: "isoDay * 1440 + x - (d * 1440 + s) = z" "(isoDay - d) * 1440 + (x - s) = z"
    by (simp_all add: z_def algebra_simps)
  have b: "- 10080 \<le> z" "z < 10080" using assms by (simp_all add: z_def)
  show ?thesis
  proof (cases "z < 0")
    case True
    then have "(z + 10080) mod 10080 = z + 10080" using b by (intro mod_pos_pos_trivial) auto
    then show ?thesis using True by (simp add: week_offset_def Let_def z del: left_diff_distrib_numeral)
  next
    case False
    then have "z mod 10080 = z" using b by (intro mod_pos_pos_trivial) auto
    then show ?thesis using False by (simp add: week_offset_def Let_def z del: left_diff_distrib_numeral)
  qed
qed

definition prev_day :: "int \<Rightarrow> int" where
  "prev_day d = (if d = 1 then 7 else d - 1)"

lemma week_offset_in:
  assumes "1 \<le> isoDay" "isoDay \<le> 7" "1 \<le> d" "d \<le> 7" "0 \<le> x" "x < 1440" "0 \<le> s" "s < 1440" "0 \<le> e" "e < 1440"
  shows "week_offset isoDay x d s < (e - s) mod 1440 \<longleftrightarrow>
    (if e < s then (d = isoDay \<and> s \<le> x) \<or> (d = prev_day isoDay \<and> x < e)
     else d = isoDay \<and> s \<le> x \<and> x < e)"
proof -
  have len: "(e - s) mod 1440 = (if e < s then e - s + 1440 else e - s)"
  proof (cases "e < s")
    case True
    have "(e - s + 1440) mod 1440 = e - s + 1440" using True assms by (intro mod_pos_pos_trivial) auto
    then show ?thesis using True by simp
  qed (use assms in \<open>auto intro!: mod_pos_pos_trivial\<close>)
  consider "isoDay = d" | "isoDay = d + 1" | "isoDay = 1" "d = 7" | "d + 2 \<le> isoDay" | "isoDay < d" "d \<le> isoDay + 5"
    using assms by linarith
  then show ?thesis
    unfolding week_offset_cases[OF assms(1-8)] len prev_day_def Let_def
    using assms by cases (auto split: if_splits)
qed

lemma window_decision_iff:
  assumes "HH_MM (startTime rw)" "HH_MM (endTime rw)" "HH_MM localHHMM"
  defines "s \<equiv> hhmm_minutes (startTime rw)" and "e \<equiv> hhmm_minutes (endTime rw)" and "x \<equiv> hhmm_minutes localHHMM"
  shows "window_decision rw localHHMM isoDay = Allowed \<longleftrightarrow>
    (if e < s then (s \<le> x \<and> (\<forall>days. daysOfWeek rw = Some days \<longrightarrow> isoDay \<in> set days)) \<or>
                   (x < e \<and> (\<forall>days. daysOfWeek rw = Some days \<longrightarrow> prev_day isoDay \<in> set days))
     else s \<le> x \<and> x < e \<and> (\<forall>days. daysOfWeek rw = Some days \<longrightarrow> isoDay \<in> set days))"
  using assms(1-3)
  by (auto simp: window_decision_def Let_def hhmm_order hhmm_le_order s_def e_def x_def prev_day_def
      split: option.splits if_splits)

lemma weekdayToISO_range: "weekdayToISO w = Inr d \<Longrightarrow> 1 \<le> d \<and> d \<le> 7"
  by (auto simp: weekdayToISO_def split: option.splits if_splits)

subsection \<open>The Postgres tracker behind the interface\<close>

definition pg_tracker :: "int \<Rightarrow> string \<Rightarrow> action_table tracker" where
  "pg_tracker wall uuid recordId agentDid mf windowStart now maxv amt db =
     checkAndReserve db wall uuid recordId agentDid mf windowStart now maxv amt"

subsection \<open>Properties\<close>

text \<open>
  Remark (safety). No sequence of accepted registrations, forced ones included, replaces a built-in
  evaluator: a scope of a built-in type is evaluated as by a fresh evaluator.
\<close>

theorem built_ins_cannot_be_overridden:
  assumes "evaluator_reach intl trk ev" "scope_type s \<in> set BUILT_IN_SCOPE_TYPES"
  shows "evaluate ev s params now st = evaluate (new_ScopeEvaluator intl trk []) s params now st"
  using reach_built_ins[OF assms(1)] reach_built_ins[OF evaluator_reach.fresh[of intl trk]] assms(2)
  by (auto simp: evaluate_def split: option.split)

theorem built_ins_cannot_be_overridden_witness:
  "let always = (\<lambda>s p n t st. (Inr Allowed, st));
       ev = new_ScopeEvaluator (\<lambda>z. None) None [] :: unit scope_evaluator
   in registerScopeEvaluator ev ''allowlist'' always = Inl (TypeBuiltIn ''allowlist'') \<and>
      (case registerScopeEvaluator ev ''custom_quota'' always of
         Inl _ \<Rightarrow> False
       | Inr ev' \<Rightarrow> evaluate ev' (Allowlist \<lparr>al_field = ''c'', al_values = []\<rparr>) [] 0 () =
             evaluate ev (Allowlist \<lparr>al_field = ''c'', al_values = []\<rparr>) [] 0 ())"
proof -
  let ?always = "(\<lambda>s p n t st. (Inr Allowed, st)) :: unit evaluator_fn"
  let ?ev = "new_ScopeEvaluator (\<lambda>z. None) None [] :: unit scope_evaluator"
  let ?ev' = "?ev\<lparr>evaluators := jm_set (evaluators ?ev) ''custom_quota'' ?always\<rparr>"
  have reg: "registerScopeEvaluator ?ev ''custom_quota'' ?always = Inr ?ev'"
    by (simp add: registerScopeEvaluator_def BUILT_IN_SCOPE_TYPES_def)
  then have "evaluator_reach (\<lambda>z. None) None ?ev'"
    by (rule evaluator_reach.instance_reg[OF evaluator_reach.fresh])
  from built_ins_cannot_be_overridden[OF this, of "Allowlist \<lparr>al_field = ''c'', al_values = []\<rparr>" "[]" 0 "()"]
  show ?thesis
    by (simp add: Let_def reg registerScopeEvaluator_def[of _ "''allowlist''"] BUILT_IN_SCOPE_TYPES_def)
qed

text \<open>
  Remark (functional). On allowlist, numeric and temporal scopes \<open>evaluateAll\<close> is the conjunction of
  what the scopes say, leaves the tracker's store alone, and is independent of their order.
\<close>

theorem evaluateAll_conjunction:
  assumes "evaluator_reach intl trk ev" "list_all stateless ss"
  shows "snd (evaluateAll ev ss params now st) = st \<and>
    (fst (evaluateAll ev ss params now st) = Inr Allowed \<longleftrightarrow> list_all (stateless_permits intl params now) ss)"
  using assms(2)
proof (induction ss)
  case (Cons s ss)
  have e: "snd (evaluate ev s params now st) = st"
    "fst (evaluate ev s params now st) = Inr Allowed \<longleftrightarrow> stateless_permits intl params now s"
    using evaluate_stateless[OF assms(1)] Cons.prems by auto
  have "snd (evaluateAll ev (s # ss) params now st) = st"
    using e(1) Cons by (auto split: prod.splits sum.splits evaluation.splits)
  then show ?case
    unfolding evaluateAll_Allowed_step e using Cons by simp
qed simp

theorem evaluateAll_conjunction_witness:
  "fst (evaluateAll (new_ScopeEvaluator (\<lambda>z. None) None [] :: unit scope_evaluator)
     [Allowlist \<lparr>al_field = ''host'', al_values = [''*.example.com'']\<rparr>,
      NumericLimit \<lparr>nl_field = ''amount'', nl_max = Fin 50, nl_currency = None\<rparr>]
     [(''host'', JStr ''api.example.com''), (''amount'', JNum (Fin 50))] 0 ()) = Inr Allowed"
proof -
  let ?ss = "[Allowlist \<lparr>al_field = ''host'', al_values = [''*.example.com'']\<rparr>,
      NumericLimit \<lparr>nl_field = ''amount'', nl_max = Fin 50, nl_currency = None\<rparr>]"
  let ?p = "[(''host'', JStr ''api.example.com''), (''amount'', JNum (Fin 50))]"
  have "list_all stateless ?ss"
    by (simp add: stateless_def)
  note evaluateAll_conjunction[OF evaluator_reach.fresh this, of "\<lambda>z. None" "None :: unit tracker option" ?p 0 "()"]
  moreover have "allowlist_permits \<lparr>al_field = ''host'', al_values = [''*.example.com'']\<rparr> ?p"
    by (simp add: allowlist_permits_def get_prop_def)
  ultimately show ?thesis
    by (simp add: stateless_permits_def numeric_permits_def get_prop_def)
qed

text \<open>
  Remark (equivalence). A recurring window is the union, over its days, of the weekly intervals that
  start on the day at \<open>startTime\<close> and last until \<open>endTime\<close>, midnight crossed or not: the string
  comparisons and the day attribution of the code decide exactly that.
\<close>

theorem recurring_window_weekly:
  assumes "HH_MM (startTime rw)" "HH_MM (endTime rw)" "HH_MM localHHMM" "1 \<le> isoDay" "isoDay \<le> 7"
  shows "window_decision rw localHHMM isoDay = Allowed \<longleftrightarrow>
    (\<exists>d \<in> {1..7}. (\<forall>days. daysOfWeek rw = Some days \<longrightarrow> d \<in> set days) \<and>
       week_offset isoDay (hhmm_minutes localHHMM) d (hhmm_minutes (startTime rw)) <
         (hhmm_minutes (endTime rw) - hhmm_minutes (startTime rw)) mod 1440)"
proof -
  let ?s = "hhmm_minutes (startTime rw)" and ?e = "hhmm_minutes (endTime rw)" and ?x = "hhmm_minutes localHHMM"
  have r: "0 \<le> ?s" "?s < 1440" "0 \<le> ?e" "?e < 1440" "0 \<le> ?x" "?x < 1440"
    using assms hhmm_minutes_range by auto
  have "week_offset isoDay ?x d ?s < (?e - ?s) mod 1440 \<longleftrightarrow>
      (if ?e < ?s then (d = isoDay \<and> ?s \<le> ?x) \<or> (d = prev_day isoDay \<and> ?x < ?e)
       else d = isoDay \<and> ?s \<le> ?x \<and> ?x < ?e)" if "d \<in> {1..7}" for d
    using that r assms by (intro week_offset_in) auto
  moreover have "isoDay \<in> {1..7}" "prev_day isoDay \<in> {1..7}"
    using assms by (auto simp: prev_day_def)
  ultimately show ?thesis
    unfolding window_decision_iff[OF assms(1-3)] by (cases "?e < ?s") auto
qed

definition night_window :: recurring_window where
  "night_window = \<lparr>startTime = ''22:00'', endTime = ''06:00'', daysOfWeek = Some [5], timezone = ''UTC''\<rparr>"

theorem recurring_window_weekly_witness:
  "window_decision night_window ''01:30'' 6 = Allowed \<and> window_decision night_window ''01:30'' 5 = Denied OutsideDay \<and>
   week_offset 6 (hhmm_minutes ''01:30'') 5 (hhmm_minutes ''22:00'') < 480"
proof -
  have "HH_MM (startTime night_window)" "HH_MM (endTime night_window)" "HH_MM ''01:30''"
    by code_simp+
  note recurring_window_weekly[OF this, of 6]
  moreover have "week_offset 6 (hhmm_minutes ''01:30'') 5 (hhmm_minutes (startTime night_window)) <
      (hhmm_minutes (endTime night_window) - hhmm_minutes (startTime night_window)) mod 1440"
    "\<forall>days. daysOfWeek night_window = Some days \<longrightarrow> 5 \<in> set days"
    by (code_simp, simp add: night_window_def)
  ultimately have "window_decision night_window ''01:30'' 6 = Allowed"
    by fastforce
  moreover have "window_decision night_window ''01:30'' 5 = Denied OutsideDay"
    "week_offset 6 (hhmm_minutes ''01:30'') 5 (hhmm_minutes ''22:00'') < 480"
    by code_simp+
  ultimately show ?thesis by simp
qed

text \<open>
  Remark (safety). A temporal scope admits an instant only inside its half-open interval, as far as
  its two bounds are valid dates; outside it the answer is the matching denial.
\<close>

theorem temporal_interval:
  assumes "getTime (notBefore sc) = Some a" "getTime (notAfter sc) = Some b"
  shows "(now < a \<longrightarrow> evaluateTemporalScope intl sc now = Inr (Denied NotYetActive)) \<and>
    (a \<le> now \<and> b \<le> now \<longrightarrow> evaluateTemporalScope intl sc now = Inr (Denied ExpiredScope)) \<and>
    (a \<le> now \<and> now < b \<longrightarrow> evaluateTemporalScope intl sc now =
       (case recurringWindow sc of None \<Rightarrow> Inr Allowed | Some rw \<Rightarrow> evaluateRecurringWindow intl rw now))"
  using assms by (auto simp: evaluateTemporalScope_def before_date_def at_or_after_date_def)

definition day_scope :: temporal_scope where
  "day_scope = \<lparr>notBefore = ''2026-03-01T00:00:00.000Z'', notAfter = ''2026-03-02T00:00:00.000Z'', recurringWindow = None\<rparr>"

theorem temporal_interval_witness:
  "evaluateTemporalScope (\<lambda>z. None) day_scope 1772323200000 = Inr Allowed \<and>
   evaluateTemporalScope (\<lambda>z. None) day_scope 1772323199999 = Inr (Denied NotYetActive) \<and>
   evaluateTemporalScope (\<lambda>z. None) day_scope 1772409600000 = Inr (Denied ExpiredScope)"
proof -
  have "getTime (notBefore day_scope) = Some 1772323200000" "getTime (notAfter day_scope) = Some 1772409600000"
    by code_simp+
  note temporal_interval[OF this, of 1772323200000 "\<lambda>z. None"] temporal_interval[OF this, of 1772323199999 "\<lambda>z. None"]
    temporal_interval[OF this, of 1772409600000 "\<lambda>z. None"]
  moreover have "recurringWindow day_scope = None"
    by (simp add: day_scope_def)
  ultimately show ?thesis by simp
qed

text \<open>
  Remark (error). A \<open>notAfter\<close> that has the wire shape but names no date (here hour 99) never
  expires: the comparison with an invalid date is false at every instant.
\<close>

theorem invalid_notAfter_never_expires:
  "timestampPattern ''2026-03-02T99:00:00.000Z'' \<and>
   evaluateTemporalScope intl
     \<lparr>notBefore = ''2026-03-01T00:00:00.000Z'', notAfter = ''2026-03-02T99:00:00.000Z'', recurringWindow = None\<rparr>
     (1772323200000 + int n) = Inr Allowed"
proof -
  have "getTime ''2026-03-01T00:00:00.000Z'' = Some 1772323200000" "getTime ''2026-03-02T99:00:00.000Z'' = None"
    "timestampPattern ''2026-03-02T99:00:00.000Z''"
    by code_simp+
  then show ?thesis
    by (simp add: evaluateTemporalScope_def before_date_def at_or_after_date_def)
qed

text \<open>
  Remark (safety). A cumulative limit backed by the table and evaluated for a new record id admits a
  request only within the limit, and then the table's total has grown by exactly the reserved
  amount.
\<close>

theorem cumulative_limit_admits_within:
  assumes ev: "evaluateCumulativeLimit sc params now (Some (pg_tracker wall uuid)) db = (Inr Allowed, db')"
    and new: "get_prop params ''__recordId'' = JStr recordId" "recordId \<notin> record_id ` set db"
    and agent: "get_prop params ''__agentDid'' = JStr agentDid"
    and ttl: "wall - PENDING_TTL_MS \<le> now"
    and fin: "cl_max sc = Fin m" "metered_total wall agentDid (meterField sc) (computeWindowStart (cl_window sc) now) now db = Fin q"
  shows "\<exists>entry amt. METER_FIELD_REGISTRY (metric (meterField sc)) = Some entry \<and>
    reserve_amount entry params = Some amt \<and>
    (\<forall>a. amt = Fin a \<longrightarrow> q + a \<le> m \<and>
      metered_total wall agentDid (meterField sc) (computeWindowStart (cl_window sc) now) now db' = Fin (q + a))"
proof -
  let ?ws = "computeWindowStart (cl_window sc) now"
  obtain entry amt where e: "METER_FIELD_REGISTRY (metric (meterField sc)) = Some entry"
    and amt: "reserve_amount entry params = Some amt"
    using ev by (auto simp: evaluateCumulativeLimit_def split: if_splits option.splits)
  have "q + a \<le> m \<and> metered_total wall agentDid (meterField sc) ?ws now db' = Fin (q + a)" if a: "amt = Fin a" for a
  proof -
    let ?r = "\<lparr>rq_id = recordId, rq_amount = a, rq_uuid = uuid\<rparr>"
    have ok: "request_ok wall (meterField sc) ?ws now db ?r"
      using new ttl window_start_le amt a e by (auto simp: request_ok_def reserve_amount_def)
    have "reserve_at wall agentDid (meterField sc) ?ws now m db ?r = (True, db')"
      using ev e amt a new agent fin
      by (auto simp: evaluateCumulativeLimit_def reserve_at_def pg_tracker_def string_or_empty_def
          split: if_splits prod.splits sum.splits)
    from pg.admit[OF ok fin(2) this] show ?thesis by simp
  qed
  with e amt show ?thesis by blast
qed

definition spend_scope :: "rat \<Rightarrow> window \<Rightarrow> cumulative_limit_scope" where
  "spend_scope m w = \<lparr>meterField = example_meter ''transaction_amount'', cl_max = Fin m, cl_window = w, cl_currency = None\<rparr>"

definition spend_params :: "rat \<Rightarrow> js_object" where
  "spend_params a = [(''amount'', JNum (Fin a)), (''__agentDid'', JStr ''did:a''), (''__recordId'', JStr ''r9'')]"

theorem cumulative_limit_admits_within_witness:
  "metered_total 4000000 ''did:a'' (example_meter ''transaction_amount'') (computeWindowStart Hour 4000000) 4000000
     (snd (evaluateCumulativeLimit (spend_scope 100 Hour) (spend_params 70) 4000000 (Some (pg_tracker 4000000 ''u'')) [])) = Fin 70"
proof -
  let ?ev = "evaluateCumulativeLimit (spend_scope 100 Hour) (spend_params 70) 4000000 (Some (pg_tracker 4000000 ''u'')) []"
  have ev: "?ev = (Inr Allowed, snd ?ev)"
    by code_simp
  have pre: "get_prop (spend_params 70) ''__recordId'' = JStr ''r9''" "get_prop (spend_params 70) ''__agentDid'' = JStr ''did:a''"
    "4000000 - PENDING_TTL_MS \<le> 4000000" "cl_max (spend_scope 100 Hour) = Fin 100"
    "metered_total 4000000 ''did:a'' (meterField (spend_scope 100 Hour)) (computeWindowStart (cl_window (spend_scope 100 Hour)) 4000000) 4000000 [] = Fin 0"
    by code_simp+
  have sum: "METER_FIELD_REGISTRY (metric (meterField (spend_scope 100 Hour))) = Some sum_entry"
    "reserve_amount sum_entry (spend_params 70) = Some (Fin 70)"
    by code_simp+
  from cumulative_limit_admits_within[OF ev pre(1) _ pre(2,3,4,5)] sum show ?thesis
    by (simp add: spend_scope_def)
qed

text \<open>
  Remark (error). Two cumulative limits on one action: the second is answered from the reservation of
  the first. An hourly limit of 100 and a monthly limit of 10 together admit a spend of 60, which
  the monthly limit alone refuses.
\<close>

theorem second_cumulative_limit_ignored:
  "fst (evaluateAll (new_ScopeEvaluator (\<lambda>z. None) (Some (pg_tracker 4000000 ''u'')) [])
     [CumulativeLimit (spend_scope 100 Hour), CumulativeLimit (spend_scope 10 Month)] (spend_params 60) 4000000 []) = Inr Allowed \<and>
   fst (evaluateAll (new_ScopeEvaluator (\<lambda>z. None) (Some (pg_tracker 4000000 ''u'')) [])
     [CumulativeLimit (spend_scope 10 Month)] (spend_params 60) 4000000 []) \<noteq> Inr Allowed"
  by code_simp

end
