(* ===== verification/Attenuation.thy ===== *)
theory Attenuation
  imports Scope_Evaluator
begin

text \<open>
  The attenuation check of \<open>identity/src/token-issuer.ts\<close>: \<open>scopeMatchKey\<close>, the subset relation on
  scopes and \<open>validateAttenuation\<close>, and what it means for the scopes as they are evaluated.

  \<open>isScopeSubset\<close> returns \<open>None\<close> for the source's \<open>true\<close> and the detail otherwise. Minutes parsed
  from a clock string are \<open>None\<close> for \<open>NaN\<close>; parts made of digits are read as numbers, an empty
  part as 0, anything else (outside the \<open>HH:MM\<close> pattern of the schema) as \<open>NaN\<close>.
\<close>

subsection \<open>Details and results\<close>

datatype temporal_reason = AtNotBefore | AtNotAfter | AtRecurringWindow

datatype cumulative_reason = AtMax | AtWindow | AtMeterField | AtCurrency

datatype caps_at = AtParentCapabilities | AtContinuity | AtLeaf

datatype side = ParentSide | ChildSide

datatype attenuation_detail =
  Rule2a string
| Rule2c string
| TemporalSubset temporal_reason
| CumulativeSubset cumulative_reason
| ScopeTypeUnknown string
| AllowlistViolation string
| NumericLimitViolation string
| CapabilitiesMismatch caps_at
| DuplicateDimension side string string
| EmptyAllowlist side string string

datatype attenuation_result = AttOk | AttFail bool attenuation_detail

subsection \<open>Scope keys and minutes\<close>

definition scopeMatchKey :: "scope \<Rightarrow> string" where
  "scopeMatchKey s =
     (case s of
        Allowlist a \<Rightarrow> ''allowlist:'' @ al_field a
      | NumericLimit n \<Rightarrow> ''numeric_limit:'' @ nl_field n
      | Temporal _ \<Rightarrow> ''temporal_scope''
      | CumulativeLimit c \<Rightarrow> ''cumulative_limit:'' @ metric (meterField c) @ '':'' @ window_name (cl_window c)
      | OtherScope t _ \<Rightarrow> ''__unknown__:'' @ t)"

fun js_split :: "char \<Rightarrow> string \<Rightarrow> string list" where
  "js_split sep [] = [[]]"
| "js_split sep (c # cs) =
     (if c = sep then [] # js_split sep cs
      else case js_split sep cs of [] \<Rightarrow> [[c]] | p # ps \<Rightarrow> (c # p) # ps)"

definition js_Number :: "string \<Rightarrow> int option" where
  "js_Number s = (if list_all is_digit s then Some (num_val 0 s) else None)"

definition parseHHMM :: "string \<Rightarrow> int option" where
  "parseHHMM t =
     (let parts = js_split (CHR '':'') t;
          h = (case parts of [] \<Rightarrow> Some 0 | a # _ \<Rightarrow> js_Number a);
          m = (case parts of _ # b # _ \<Rightarrow> js_Number b | _ \<Rightarrow> Some 0)
      in case (h, m) of (Some h', Some m') \<Rightarrow> Some (h' * 60 + m') | _ \<Rightarrow> None)"

definition expandToMinuteSet :: "int option \<Rightarrow> int option \<Rightarrow> int list" where
  "expandToMinuteSet startMin endMin =
     (case (startMin, endMin) of
        (Some a, Some b) \<Rightarrow> (if a \<le> b then [a..b - 1] else [a..1439] @ [0..b - 1])
      | (Some a, None) \<Rightarrow> [a..1439]
      | (None, Some b) \<Rightarrow> [0..b - 1]
      | (None, None) \<Rightarrow> [])"

definition isTimeRangeSubset :: "int option \<Rightarrow> int option \<Rightarrow> int option \<Rightarrow> int option \<Rightarrow> bool" where
  "isTimeRangeSubset childStart childEnd parentStart parentEnd =
     list_all (\<lambda>m. m \<in> set (expandToMinuteSet parentStart parentEnd)) (expandToMinuteSet childStart childEnd)"

text \<open>\<open>JSON.stringify\<close> equality of two meter references: same keys in the same order, same values.\<close>

definition deepEquals :: "meter_field \<Rightarrow> meter_field \<Rightarrow> bool" where
  "deepEquals a b = (a = b)"

subsection \<open>The subset relation on scopes\<close>

definition recurring_subset :: "recurring_window \<Rightarrow> recurring_window \<Rightarrow> bool" where
  "recurring_subset c p =
     (timezone c = timezone p \<and>
      (case daysOfWeek p of
         None \<Rightarrow> True
       | Some pdays \<Rightarrow>
           (case daysOfWeek c of None \<Rightarrow> False | Some cdays \<Rightarrow> list_all (\<lambda>d. d \<in> set pdays) cdays)) \<and>
      isTimeRangeSubset (parseHHMM (startTime c)) (parseHHMM (endTime c))
        (parseHHMM (startTime p)) (parseHHMM (endTime p)))"

definition temporal_subset :: "temporal_scope \<Rightarrow> temporal_scope \<Rightarrow> attenuation_detail option" where
  "temporal_subset c p =
     (if str_lt (notBefore c) (notBefore p) then Some (TemporalSubset AtNotBefore)
      else if str_lt (notAfter p) (notAfter c) then Some (TemporalSubset AtNotAfter)
      else case (recurringWindow p, recurringWindow c) of
             (Some _, None) \<Rightarrow> Some (TemporalSubset AtRecurringWindow)
           | (Some pw, Some cw) \<Rightarrow>
               (if recurring_subset cw pw then None else Some (TemporalSubset AtRecurringWindow))
           | (None, _) \<Rightarrow> None)"

definition cumulative_subset ::
  "cumulative_limit_scope \<Rightarrow> cumulative_limit_scope \<Rightarrow> attenuation_detail option" where
  "cumulative_subset c p =
     (if \<not> deepEquals (meterField c) (meterField p) then Some (CumulativeSubset AtMeterField)
      else if num_lt (cl_max p) (cl_max c) then Some (CumulativeSubset AtMax)
      else if cl_window c \<noteq> cl_window p then Some (CumulativeSubset AtWindow)
      else if cl_currency c \<noteq> cl_currency p then Some (CumulativeSubset AtCurrency)
      else None)"

definition isScopeSubset :: "scope \<Rightarrow> scope \<Rightarrow> attenuation_detail option" where
  "isScopeSubset child parent =
     (case (child, parent) of
        (Allowlist c, Allowlist p) \<Rightarrow>
          (if al_field c \<noteq> al_field p \<or> \<not> list_all (\<lambda>v. v \<in> set (al_values p)) (al_values c)
           then Some (AllowlistViolation (al_field c)) else None)
      | (NumericLimit c, NumericLimit p) \<Rightarrow>
          (if nl_field c \<noteq> nl_field p \<or> num_lt (nl_max p) (nl_max c)
           then Some (NumericLimitViolation (nl_field c)) else None)
      | (Temporal c, Temporal p) \<Rightarrow> temporal_subset c p
      | (CumulativeLimit c, CumulativeLimit p) \<Rightarrow> cumulative_subset c p
      | _ \<Rightarrow> Some (ScopeTypeUnknown (scope_type child)))"

definition isPhase2ScopeType :: "string \<Rightarrow> bool" where
  "isPhase2ScopeType t = (t = ''temporal_scope'' \<or> t = ''cumulative_limit'')"

subsection \<open>The attenuation check\<close>

definition emptyAllowlistDetail :: "side \<Rightarrow> capability list \<Rightarrow> attenuation_detail option" where
  "emptyAllowlistDetail sd caps =
     first_some (\<lambda>cap. case cap_scope cap of
        Allowlist a \<Rightarrow> (if al_values a = [] then Some (EmptyAllowlist sd (action cap) (al_field a)) else None)
      | _ \<Rightarrow> None) caps"

text \<open>The loop over the capabilities with the keys seen so far, per action.\<close>

fun duplicateDimensionDetail ::
  "side \<Rightarrow> (string, string list) js_map \<Rightarrow> capability list \<Rightarrow> attenuation_detail option" where
  "duplicateDimensionDetail sd seenByAction [] = None"
| "duplicateDimensionDetail sd seenByAction (cap # caps) =
     (let key = scopeMatchKey (cap_scope cap) in
      case jm_get seenByAction (action cap) of
        None \<Rightarrow> duplicateDimensionDetail sd (jm_set seenByAction (action cap) [key]) caps
      | Some seen \<Rightarrow>
          (if key \<in> set seen then Some (DuplicateDimension sd (action cap) key)
           else duplicateDimensionDetail sd (jm_set seenByAction (action cap) (seen @ [key])) caps))"

definition action_scope_map :: "capability list \<Rightarrow> (string, scope list) js_map" where
  "action_scope_map caps =
     foldl (\<lambda>m cap. jm_set m (action cap)
        ((case jm_get m (action cap) of None \<Rightarrow> [] | Some existing \<Rightarrow> existing) @ [cap_scope cap])) [] caps"

definition dim_map :: "scope list \<Rightarrow> (string, scope) js_map" where
  "dim_map scopes = foldl (\<lambda>m s. jm_set m (scopeMatchKey s) s) [] scopes"

text \<open>
  Rules 2a, 2b and 2c for the scopes of one action. \<open>versions\<close> is present on version-aware calls
  and only decides the \<open>mixedVersion\<close> flag of a failure.
\<close>

definition action_rules ::
  "(string \<times> string) option \<Rightarrow> scope list \<Rightarrow> scope list \<Rightarrow> attenuation_result option" where
  "action_rules versions parentScopes childScopes =
     (let childDimMap = dim_map childScopes; parentDimMap = dim_map parentScopes in
      case first_some (\<lambda>(key, parentScope).
             case jm_get childDimMap key of
               None \<Rightarrow> Some (AttFail (versions = Some (''0.2.0'', ''0.1.0'') \<and>
                                    isPhase2ScopeType (scope_type parentScope)) (Rule2a key))
             | Some childScope \<Rightarrow> map_option (AttFail False) (isScopeSubset childScope parentScope))
           parentDimMap of
        Some r \<Rightarrow> Some r
      | None \<Rightarrow>
          first_some (\<lambda>(key, childScope).
             if jm_get parentDimMap key = None
             then Some (AttFail (versions = Some (''0.1.0'', ''0.2.0'') \<and>
                               isPhase2ScopeType (scope_type childScope)) (Rule2c key))
             else None) childDimMap)"

definition validateAttenuation ::
  "capability list \<Rightarrow> capability list \<Rightarrow> (string \<times> string) option \<Rightarrow> attenuation_result" where
  "validateAttenuation parentCaps childCaps versions =
     (case emptyAllowlistDetail ParentSide parentCaps of Some d \<Rightarrow> AttFail False d | None \<Rightarrow>
     (case emptyAllowlistDetail ChildSide childCaps of Some d \<Rightarrow> AttFail False d | None \<Rightarrow>
     (case duplicateDimensionDetail ParentSide [] parentCaps of Some d \<Rightarrow> AttFail False d | None \<Rightarrow>
     (case duplicateDimensionDetail ChildSide [] childCaps of Some d \<Rightarrow> AttFail False d | None \<Rightarrow>
     (let parentActionMap = action_scope_map parentCaps in
      case first_some (\<lambda>child. if jm_get parentActionMap (action child) = None
             then Some (Rule2a (action child)) else None) childCaps of
        Some d \<Rightarrow> AttFail False d
      | None \<Rightarrow>
          (case first_some (\<lambda>(act, childScopes).
                 case jm_get parentActionMap act of
                   None \<Rightarrow> None
                 | Some parentScopes \<Rightarrow> action_rules versions parentScopes childScopes)
               (action_scope_map childCaps) of
             Some r \<Rightarrow> r
           | None \<Rightarrow> AttOk))))))"

text \<open>The two-argument overload answers with a boolean.\<close>

definition validateAttenuation_legacy :: "capability list \<Rightarrow> capability list \<Rightarrow> bool" where
  "validateAttenuation_legacy parentCaps childCaps = (validateAttenuation parentCaps childCaps None = AttOk)"

subsection \<open>The maps of the check\<close>

definition scopes_for :: "string \<Rightarrow> capability list \<Rightarrow> scope list" where
  "scopes_for a caps = map cap_scope (filter (\<lambda>c. action c = a) caps)"

lemma scopes_for_simps [simp]:
  "scopes_for a [] = []"
  "scopes_for a (cap # caps) = (if action cap = a then cap_scope cap # scopes_for a caps else scopes_for a caps)"
  "scopes_for a (caps @ caps') = scopes_for a caps @ scopes_for a caps'"
  by (simp_all add: scopes_for_def)

lemma scopes_for_empty: "scopes_for a caps = [] \<longleftrightarrow> a \<notin> action ` set caps"
  by (induction caps) auto

lemma action_scope_map_get:
  "jm_get (action_scope_map caps) a = (if scopes_for a caps = [] then None else Some (scopes_for a caps))"
proof (induction caps rule: rev_induct)
  case Nil
  then show ?case by (simp add: action_scope_map_def jm_get_def)
next
  case (snoc cap caps)
  have "action_scope_map (caps @ [cap]) = jm_set (action_scope_map caps) (action cap)
      ((case jm_get (action_scope_map caps) (action cap) of None \<Rightarrow> [] | Some e \<Rightarrow> e) @ [cap_scope cap])"
    by (simp add: action_scope_map_def)
  then show ?case using snoc by (auto simp: store_simps split: if_splits)
qed

lemma jm_wf_mem: "jm_wf m \<Longrightarrow> (k, v) \<in> set m \<longleftrightarrow> jm_get m k = Some v"
  by (auto simp: jm_wf_def jm_keys_def jm_get_def)

lemma action_scope_map_wf: "jm_wf (action_scope_map caps)"
  by (induction caps rule: rev_induct) (simp_all add: action_scope_map_def jm.wf_empty jm.wf_put)

lemma action_scope_map_all:
  "(\<forall>x \<in> set (action_scope_map caps). (case x of (a, ss) \<Rightarrow> f a ss) = r) \<longleftrightarrow>
   (\<forall>a \<in> action ` set caps. f a (scopes_for a caps) = r)"
proof -
  have "(a, ss) \<in> set (action_scope_map caps) \<longleftrightarrow> a \<in> action ` set caps \<and> ss = scopes_for a caps" for a ss
    by (auto simp: jm_wf_mem[OF action_scope_map_wf] action_scope_map_get scopes_for_empty)
  then have "set (action_scope_map caps) = (\<lambda>a. (a, scopes_for a caps)) ` action ` set caps"
    by auto
  then show ?thesis by simp
qed

lemma dim_map_snoc: "dim_map (ss @ [s]) = jm_set (dim_map ss) (scopeMatchKey s) s"
  by (simp add: dim_map_def)

lemma dim_map_wf: "jm_wf (dim_map ss)"
  by (induction ss rule: rev_induct) (auto simp: dim_map_snoc intro: jm.wf_put, simp add: dim_map_def jm.wf_empty)

lemma dim_map_get_sound: "jm_get (dim_map ss) k = Some s \<Longrightarrow> s \<in> set ss \<and> scopeMatchKey s = k"
  by (induction ss rule: rev_induct) (auto simp: dim_map_snoc store_simps dim_map_def jm_get_def[of "[]"] split: if_splits)

lemma dim_map_get_None: "jm_get (dim_map ss) k = None \<longleftrightarrow> k \<notin> scopeMatchKey ` set ss"
  by (induction ss rule: rev_induct) (auto simp: dim_map_snoc store_simps dim_map_def jm_get_def[of "[]"])

lemma dim_map_mem:
  assumes "distinct (map scopeMatchKey ss)"
  shows "(k, s) \<in> set (dim_map ss) \<longleftrightarrow> s \<in> set ss \<and> scopeMatchKey s = k"
proof
  assume "(k, s) \<in> set (dim_map ss)"
  then show "s \<in> set ss \<and> scopeMatchKey s = k"
    using dim_map_get_sound jm_wf_mem dim_map_wf by metis
next
  assume s: "s \<in> set ss \<and> scopeMatchKey s = k"
  then obtain s' where "jm_get (dim_map ss) k = Some s'"
    using dim_map_get_None[of ss k] by (metis image_eqI not_None_eq)
  moreover from this have "s' = s"
    using dim_map_get_sound s assms by (metis distinct_map inj_on_eq_iff)
  ultimately show "(k, s) \<in> set (dim_map ss)"
    using jm_wf_mem dim_map_wf by metis
qed

lemma dim_map_all:
  assumes "distinct (map scopeMatchKey ss)"
  shows "(\<forall>x \<in> set (dim_map ss). Q x) \<longleftrightarrow> (\<forall>s \<in> set ss. Q (scopeMatchKey s, s))"
proof
  assume "\<forall>s \<in> set ss. Q (scopeMatchKey s, s)"
  then have "Q (k, s)" if "(k, s) \<in> set (dim_map ss)" for k s
    using that dim_map_mem[OF assms, of k s] by auto
  then show "\<forall>x \<in> set (dim_map ss). Q x" by auto
qed (use dim_map_mem[OF assms] in blast)

lemma duplicate_none:
  "duplicateDimensionDetail sd seen caps = None \<longleftrightarrow>
   (\<forall>a. distinct (map scopeMatchKey (scopes_for a caps)) \<and>
      (\<forall>ks. jm_get seen a = Some ks \<longrightarrow> set ks \<inter> scopeMatchKey ` set (scopes_for a caps) = {}))"
proof (induction sd seen caps rule: duplicateDimensionDetail.induct)
  case (2 sd seen cap caps)
  let ?k = "scopeMatchKey (cap_scope cap)" and ?a = "action cap"
  show ?case
  proof (cases "jm_get seen ?a")
    case None
    have step: "duplicateDimensionDetail sd seen (cap # caps) = duplicateDimensionDetail sd (jm_set seen ?a [?k]) caps"
      using None by (simp add: Let_def)
    show ?thesis
      unfolding step 2(1)[OF refl None] using None by (intro iff_allI) (auto simp: store_simps)
  next
    case (Some ks)
    show ?thesis
    proof (cases "?k \<in> set ks")
      case True
      then show ?thesis using Some by (auto simp: Let_def)
    next
      case False
      have step: "duplicateDimensionDetail sd seen (cap # caps) =
          duplicateDimensionDetail sd (jm_set seen ?a (ks @ [?k])) caps"
        using Some False by (simp add: Let_def)
      show ?thesis
        unfolding step 2(2)[OF refl Some False] using Some False by (intro iff_allI) (auto simp: store_simps)
    qed
  qed
qed auto

lemma empty_none: "emptyAllowlistDetail sd caps = None \<longleftrightarrow>
   (\<forall>cap \<in> set caps. \<forall>a. cap_scope cap = Allowlist a \<longrightarrow> al_values a \<noteq> [])"
  by (auto simp: emptyAllowlistDetail_def first_some_None split: scope.splits)

subsection \<open>The declarative reading of the check\<close>

definition attenuates :: "capability list \<Rightarrow> capability list \<Rightarrow> bool" where
  "attenuates childCaps parentCaps =
     (\<forall>a \<in> action ` set childCaps.
        a \<in> action ` set parentCaps \<and>
        scopeMatchKey ` set (scopes_for a childCaps) = scopeMatchKey ` set (scopes_for a parentCaps) \<and>
        (\<forall>c \<in> set (scopes_for a childCaps). \<forall>p \<in> set (scopes_for a parentCaps).
           scopeMatchKey c = scopeMatchKey p \<longrightarrow> isScopeSubset c p = None))"

definition caps_unambiguous :: "capability list \<Rightarrow> bool" where
  "caps_unambiguous caps =
     ((\<forall>cap \<in> set caps. \<forall>a. cap_scope cap = Allowlist a \<longrightarrow> al_values a \<noteq> []) \<and>
      (\<forall>a. distinct (map scopeMatchKey (scopes_for a caps))))"

lemma action_rules_none:
  assumes "distinct (map scopeMatchKey ps)" "distinct (map scopeMatchKey cs)"
  shows "action_rules v ps cs = None \<longleftrightarrow>
    scopeMatchKey ` set cs = scopeMatchKey ` set ps \<and>
    (\<forall>c \<in> set cs. \<forall>p \<in> set ps. scopeMatchKey c = scopeMatchKey p \<longrightarrow> isScopeSubset c p = None)"
proof -
  have get: "jm_get (dim_map cs) (scopeMatchKey c) = Some c" if "c \<in> set cs" for c
    using that dim_map_mem[OF assms(2)] jm_wf_mem[OF dim_map_wf] by metis
  have one: "(case jm_get (dim_map cs) (scopeMatchKey p) of
        None \<Rightarrow> Some (AttFail m (Rule2a (scopeMatchKey p)))
      | Some c \<Rightarrow> map_option (AttFail False) (isScopeSubset c p)) = None \<longleftrightarrow>
      scopeMatchKey p \<in> scopeMatchKey ` set cs \<and>
      (\<forall>c \<in> set cs. scopeMatchKey c = scopeMatchKey p \<longrightarrow> isScopeSubset c p = None)" for p m
  proof (cases "jm_get (dim_map cs) (scopeMatchKey p)")
    case (Some c)
    then have c: "c \<in> set cs" "scopeMatchKey c = scopeMatchKey p"
      using dim_map_get_sound by auto
    have "c' = c" if "c' \<in> set cs" "scopeMatchKey c' = scopeMatchKey p" for c'
      using that get[OF that(1)] Some by simp
    then have "(\<forall>c \<in> set cs. scopeMatchKey c = scopeMatchKey p \<longrightarrow> isScopeSubset c p = None) \<longleftrightarrow> isScopeSubset c p = None"
      using c by blast
    moreover have "scopeMatchKey p \<in> scopeMatchKey ` set cs"
      using c by (metis image_eqI)
    ultimately show ?thesis using Some by simp
  next
    case None
    then have "scopeMatchKey p \<notin> scopeMatchKey ` set cs"
      unfolding dim_map_get_None .
    then show ?thesis using None by simp
  qed
  note ps = dim_map_all[OF assms(1)] and cs = dim_map_all[OF assms(2)]
  have a: "(\<forall>x \<in> set (dim_map ps). (case x of (key, p) \<Rightarrow> case jm_get (dim_map cs) key of
        None \<Rightarrow> Some (AttFail (m p) (Rule2a key)) | Some c \<Rightarrow> map_option (AttFail False) (isScopeSubset c p)) = None) \<longleftrightarrow>
      (\<forall>p \<in> set ps. scopeMatchKey p \<in> scopeMatchKey ` set cs \<and>
        (\<forall>c \<in> set cs. scopeMatchKey c = scopeMatchKey p \<longrightarrow> isScopeSubset c p = None))" for m
    unfolding ps prod.case one ..
  have b: "(\<forall>x \<in> set (dim_map cs). (case x of (key, c) \<Rightarrow> if jm_get (dim_map ps) key = None
        then Some (AttFail (m c) (Rule2c key)) else None) = None) \<longleftrightarrow>
      (\<forall>c \<in> set cs. scopeMatchKey c \<in> scopeMatchKey ` set ps)" for m
    unfolding cs prod.case dim_map_get_None by simp
  have opt: "(case x of None \<Rightarrow> y | Some r \<Rightarrow> Some r) = None \<longleftrightarrow> x = None \<and> y = None" for x y :: "attenuation_result option"
    by (cases x) auto
  have "action_rules v ps cs = None \<longleftrightarrow>
      (\<forall>p \<in> set ps. scopeMatchKey p \<in> scopeMatchKey ` set cs \<and>
        (\<forall>c \<in> set cs. scopeMatchKey c = scopeMatchKey p \<longrightarrow> isScopeSubset c p = None)) \<and>
      (\<forall>c \<in> set cs. scopeMatchKey c \<in> scopeMatchKey ` set ps)"
    unfolding action_rules_def Let_def opt first_some_None a b ..
  then show ?thesis by blast
qed

lemma validateAttenuation_ok:
  "validateAttenuation parentCaps childCaps v = AttOk \<longleftrightarrow>
   caps_unambiguous parentCaps \<and> caps_unambiguous childCaps \<and> attenuates childCaps parentCaps"
proof (cases "caps_unambiguous parentCaps \<and> caps_unambiguous childCaps")
  case True
  let ?pre = "first_some (\<lambda>child. if jm_get (action_scope_map parentCaps) (action child) = None
    then Some (Rule2a (action child)) else None) childCaps"
  let ?main = "first_some (\<lambda>(act, cs). case jm_get (action_scope_map parentCaps) act of
      None \<Rightarrow> None | Some ps \<Rightarrow> action_rules v ps cs) (action_scope_map childCaps)"
  have no: "emptyAllowlistDetail ParentSide parentCaps = None" "emptyAllowlistDetail ChildSide childCaps = None"
    "duplicateDimensionDetail ParentSide [] parentCaps = None" "duplicateDimensionDetail ChildSide [] childCaps = None"
    using True by (simp_all add: caps_unambiguous_def empty_none duplicate_none jm_get_def)
  have d: "distinct (map scopeMatchKey (scopes_for a parentCaps))" "distinct (map scopeMatchKey (scopes_for a childCaps))" for a
    using True by (simp_all add: caps_unambiguous_def)
  have pre: "?pre = None \<longleftrightarrow> action ` set childCaps \<subseteq> action ` set parentCaps"
    unfolding first_some_None action_scope_map_get scopes_for_empty by auto
  have ok: "validateAttenuation parentCaps childCaps v = AttOk \<longleftrightarrow> ?pre = None \<and> ?main = None"
  proof -
    have "?main \<noteq> Some AttOk"
      by (auto dest!: first_some_SomeD simp: action_rules_def Let_def split: option.splits if_splits)
    then show ?thesis
      by (auto simp: validateAttenuation_def no Let_def split: option.splits)
  qed
  have main: "?main = None \<longleftrightarrow> (\<forall>a \<in> action ` set childCaps. a \<in> action ` set parentCaps \<longrightarrow>
      action_rules v (scopes_for a parentCaps) (scopes_for a childCaps) = None)"
    unfolding first_some_None action_scope_map_all action_scope_map_get scopes_for_empty by simp
  show ?thesis
    unfolding ok pre main action_rules_none[OF d] attenuates_def using True by blast
next
  case False
  then show ?thesis
    by (auto simp: validateAttenuation_def caps_unambiguous_def empty_none duplicate_none jm_get_def split: option.splits)
qed

subsection \<open>Minutes\<close>

lemma parseHHMM_HH_MM: "HH_MM s \<Longrightarrow> parseHHMM s = Some (hhmm_minutes s)"
proof (elim HH_MM_E)
  fix a b d e
  assume s: "s = [a, b, CHR '':'', d, e]" and dg: "is_digit a" "is_digit b" "is_digit d" "is_digit e"
  have "x \<noteq> CHR '':''" if "is_digit x" for x
    using that by (auto simp: is_digit_def)
  with dg have "js_split (CHR '':'') s = [[a, b], [d, e]]"
    by (simp add: s)
  with dg show ?thesis
    by (simp add: parseHHMM_def js_Number_def hhmm_minutes_def s)
qed

lemma minute_set:
  "x \<in> set (expandToMinuteSet (Some s) (Some e)) \<longleftrightarrow>
   (if s \<le> e then s \<le> x \<and> x < e else (s \<le> x \<and> x < 1440) \<or> (0 \<le> x \<and> x < e))"
  by (auto simp: expandToMinuteSet_def)

definition crosses_midnight :: "recurring_window \<Rightarrow> bool" where
  "crosses_midnight rw = str_lt (endTime rw) (startTime rw)"

text \<open>
  The one shape in which containment of the minute sets and of the days does not give containment
  of the windows: the parent crosses midnight and restricts the days, the child does not cross and
  starts in the morning half, which the parent attributes to the day before.
\<close>

definition midnight_hazard :: "recurring_window \<Rightarrow> recurring_window \<Rightarrow> bool" where
  "midnight_hazard c p =
     (crosses_midnight p \<and> daysOfWeek p \<noteq> None \<and> \<not> crosses_midnight c \<and> str_lt (startTime c) (endTime p))"

lemma minutes_contained:
  assumes sub: "isTimeRangeSubset (Some cs) (Some ce) (Some ps) (Some pe)"
    and r: "0 \<le> cs" "cs < 1440" "0 \<le> ce" "ce < 1440" "0 \<le> ps" "ps < 1440" "0 \<le> pe" "pe < 1440" "0 \<le> x" "x < 1440"
  shows "ce < cs \<Longrightarrow> pe < ps \<and> ps \<le> cs \<and> ce \<le> pe"
    and "cs \<le> ce \<Longrightarrow> cs \<le> x \<Longrightarrow> x < ce \<Longrightarrow> ps \<le> pe \<Longrightarrow> ps \<le> x \<and> x < pe"
    and "cs \<le> ce \<Longrightarrow> cs \<le> x \<Longrightarrow> x < ce \<Longrightarrow> pe < ps \<Longrightarrow> pe \<le> cs \<Longrightarrow> ps \<le> x"
    and "cs \<le> ce \<Longrightarrow> cs \<le> x \<Longrightarrow> x < ce \<Longrightarrow> pe < ps \<Longrightarrow> ps \<le> x \<or> x < pe"
proof -
  have m: "y \<in> set (expandToMinuteSet (Some cs) (Some ce)) \<longrightarrow> y \<in> set (expandToMinuteSet (Some ps) (Some pe))" for y
    using sub by (auto simp: isTimeRangeSubset_def list_all_iff)
  note m' = m[unfolded minute_set]
  show "ce < cs \<Longrightarrow> pe < ps \<and> ps \<le> cs \<and> ce \<le> pe"
    using m'[of 1439] m'[of pe] m'[of cs] m'[of "ce - 1"] m'[of "ps - 1"] r by (auto split: if_splits)
  show "cs \<le> ce \<Longrightarrow> cs \<le> x \<Longrightarrow> x < ce \<Longrightarrow> ps \<le> pe \<Longrightarrow> ps \<le> x \<and> x < pe"
    "cs \<le> ce \<Longrightarrow> cs \<le> x \<Longrightarrow> x < ce \<Longrightarrow> pe < ps \<Longrightarrow> pe \<le> cs \<Longrightarrow> ps \<le> x"
    "cs \<le> ce \<Longrightarrow> cs \<le> x \<Longrightarrow> x < ce \<Longrightarrow> pe < ps \<Longrightarrow> ps \<le> x \<or> x < pe"
    using m'[of x] r by (auto split: if_splits)
qed

lemma recurring_sound:
  assumes sub: "recurring_subset c p" and ok: "\<not> midnight_hazard c p"
    and hm: "HH_MM (startTime c)" "HH_MM (endTime c)" "HH_MM (startTime p)" "HH_MM (endTime p)" "HH_MM x"
    and al: "window_decision c x isoDay = Allowed"
  shows "window_decision p x isoDay = Allowed"
proof -
  let ?m = hhmm_minutes
  define D where "D w d = (\<forall>ds. daysOfWeek w = Some ds \<longrightarrow> d \<in> set ds)" for w :: recurring_window and d
  note wd = window_decision_iff[folded D_def]
  have days: "D c d \<Longrightarrow> D p d" for d
    using sub by (auto simp: D_def recurring_subset_def list_all_iff split: option.splits)
  have ts: "isTimeRangeSubset (Some (?m (startTime c))) (Some (?m (endTime c))) (Some (?m (startTime p))) (Some (?m (endTime p)))"
    using sub hm by (simp add: recurring_subset_def parseHHMM_HH_MM)
  note r = hm[THEN hhmm_minutes_range, THEN conjunct1] hm[THEN hhmm_minutes_range, THEN conjunct2]
  note mc = minutes_contained[OF ts r(1) r(6) r(2) r(7) r(3) r(8) r(4) r(9) r(5) r(10)]
  have hz: "?m (endTime p) < ?m (startTime p) \<Longrightarrow> \<not> ?m (endTime c) < ?m (startTime c) \<Longrightarrow>
      daysOfWeek p = None \<or> ?m (endTime p) \<le> ?m (startTime c)"
    using ok hm by (auto simp: midnight_hazard_def crosses_midnight_def hhmm_order)
  show ?thesis
  proof (cases "?m (endTime c) < ?m (startTime c)")
    case True
    with mc(1) have "?m (endTime p) < ?m (startTime p)" "?m (startTime p) \<le> ?m (startTime c)" "?m (endTime c) \<le> ?m (endTime p)"
      by auto
    with al True days show ?thesis
      unfolding wd[OF hm(1,2,5)] wd[OF hm(3,4,5)] by auto
  next
    case False
    with al have x: "?m (startTime c) \<le> ?m x" "?m x < ?m (endTime c)" and d: "D p isoDay"
      using days unfolding wd[OF hm(1,2,5)] by auto
    show ?thesis
    proof (cases "?m (endTime p) < ?m (startTime p)")
      case True
      have "D p (prev_day isoDay)" if "daysOfWeek p = None"
        using that by (simp add: D_def)
      then show ?thesis
        using mc(3,4)[OF _ x] True False hz d unfolding wd[OF hm(3,4,5)] by auto
    next
      case F: False
      then have "?m (startTime p) \<le> ?m x \<and> ?m x < ?m (endTime p)"
        using mc(2)[OF _ x] False by auto
      then show ?thesis using F d unfolding wd[OF hm(3,4,5)] by auto
    qed
  qed
qed

subsection \<open>A narrower scope admits less\<close>

text \<open>The clock formatter prints \<open>HH:MM\<close>, as documented for a two-digit 24-hour format.\<close>

definition intl_sane :: "intl \<Rightarrow> bool" where
  "intl_sane intl = (\<forall>tz r ft fd now. intl tz = Some (r, ft, fd) \<longrightarrow> HH_MM (ft now))"

text \<open>Numbers that JSON can carry, timestamps that name dates, clock strings of the schema's pattern.\<close>

definition scope_sane :: "scope \<Rightarrow> bool" where
  "scope_sane s =
     (case s of
        NumericLimit n \<Rightarrow> nl_max n \<noteq> NaN
      | CumulativeLimit c \<Rightarrow> cl_max c \<noteq> NaN
      | Temporal t \<Rightarrow> calendar_ts (notBefore t) \<and> calendar_ts (notAfter t) \<and>
          (case recurringWindow t of None \<Rightarrow> True | Some w \<Rightarrow> HH_MM (startTime w) \<and> HH_MM (endTime w))
      | _ \<Rightarrow> True)"

definition hazard :: "scope \<Rightarrow> scope \<Rightarrow> bool" where
  "hazard c p =
     (case (c, p) of
        (Temporal ct, Temporal pt) \<Rightarrow>
          (case (recurringWindow ct, recurringWindow pt) of
             (Some cw, Some pw) \<Rightarrow> midnight_hazard cw pw
           | _ \<Rightarrow> False)
      | _ \<Rightarrow> False)"

text \<open>What attenuation needs of a tracker: raising the limit never turns an admission into a refusal.\<close>

definition tracker_monotone :: "'st tracker \<Rightarrow> bool" where
  "tracker_monotone t =
     (\<forall>i a mf ws now m m' amt st c st'. num_le m m' \<longrightarrow> t i a mf ws now m amt st = (Inr (True, c), st') \<longrightarrow>
        (\<exists>st''. t i a mf ws now m' amt st = (Inr (True, c), st'')))"

lemma num_le_lt_trans: "num_le m m' \<Longrightarrow> num_lt m' x \<Longrightarrow> num_lt m x"
  by (cases m; cases m'; cases x) auto

lemma number_or_mono: "num_le m m' \<Longrightarrow> num_lt (number_or m' v) x \<Longrightarrow> num_lt (number_or m v) x"
  by (cases v) (auto simp: number_or_def dest: num_le_lt_trans)

lemma check_monotone:
  assumes le: "num_le m m'" and ok: "checkAndReserve db wall uuid i a mf ws now m amt = (Inr (True, c), db')"
  shows "\<exists>db''. checkAndReserve db wall uuid i a mf ws now m' amt = (Inr (True, c), db'')"
proof -
  obtain entry where e: "METER_FIELD_REGISTRY (metric mf) = Some entry"
    using ok by (auto simp: checkAndReserve_def split: option.splits)
  show ?thesis
  proof (cases "findReservation db i")
    case (Some row)
    let ?x = "num_add (number_or (Fin 0) (summary_prop row ''cumulativeAtReserve'')) (number_or amt (summary_prop row ''reserveAmount''))"
    have "\<not> num_lt (number_or m (summary_prop row ''max'')) ?x" "c = number_or (Fin 0) (summary_prop row ''cumulativeAtReserve'')"
      using ok e Some by (auto simp: checkAndReserve_def Let_def)
    then show ?thesis
      using e Some number_or_mono[OF le, of "summary_prop row ''max''" ?x] by (auto simp: checkAndReserve_def Let_def)
  next
    case None
    then have "\<not> num_lt m (num_add c amt)" "c = aggregateWithClient db a ws now wall entry"
      using ok e by (auto simp: checkAndReserve_def Let_def split: if_splits)
    then show ?thesis
      using e None num_le_lt_trans[OF le, of "num_add c amt"] by (auto simp: checkAndReserve_def Let_def)
  qed
qed

lemma pg_tracker_monotone: "tracker_monotone (pg_tracker wall uuid)"
  unfolding tracker_monotone_def pg_tracker_def using check_monotone by blast

lemma temporal_sound:
  assumes sub: "temporal_subset c p = None" and sane: "scope_sane (Temporal c)" "scope_sane (Temporal p)"
    and hz: "\<not> hazard (Temporal c) (Temporal p)" and intl: "intl_sane intl"
    and al: "evaluateTemporalScope intl c now = Inr Allowed"
  shows "evaluateTemporalScope intl p now = Inr Allowed"
proof -
  have cal: "calendar_ts (notBefore c)" "calendar_ts (notAfter c)" "calendar_ts (notBefore p)" "calendar_ts (notAfter p)"
    using sane by (auto simp: scope_sane_def)
  have "the (getTime (notBefore p)) \<le> the (getTime (notBefore c))" "the (getTime (notAfter c)) \<le> the (getTime (notAfter p))"
    using sub timestamp_order[OF cal(1,3)] timestamp_order[OF cal(4,2)] by (auto simp: temporal_subset_def split: if_splits)
  moreover have "\<not> before_date now (notBefore c)" "\<not> at_or_after_date now (notAfter c)"
    using al by (auto simp: evaluateTemporalScope_def split: if_splits)
  ultimately have "\<not> before_date now (notBefore p)" "\<not> at_or_after_date now (notAfter p)"
    using cal by (simp_all add: before_date_def at_or_after_date_def calendar_ts_getTime)
  moreover have "evaluateRecurringWindow intl pw now = Inr Allowed" if pw: "recurringWindow p = Some pw" for pw
  proof -
    obtain cw where cw: "recurringWindow c = Some cw" "recurring_subset cw pw"
      using sub pw by (auto simp: temporal_subset_def split: if_splits option.splits)
    have hm: "HH_MM (startTime cw)" "HH_MM (endTime cw)" "HH_MM (startTime pw)" "HH_MM (endTime pw)"
      using sane cw pw by (auto simp: scope_sane_def)
    have ev: "evaluateRecurringWindow intl cw now = Inr Allowed"
      using al cw by (auto simp: evaluateTemporalScope_def split: if_splits)
    have tz: "timezone cw = timezone pw"
      using cw by (simp add: recurring_subset_def)
    obtain ft fd d where f: "intl (timezone pw) = Some (timezone pw, ft, fd)" "weekdayToISO (fd now) = Inr d"
      "window_decision cw (ft now) d = Allowed"
      using ev hm tz by (auto simp: evaluateRecurringWindow_def split: option.splits if_splits sum.splits)
    have "window_decision pw (ft now) d = Allowed"
      using recurring_sound[OF cw(2) _ hm _ f(3)] hz cw pw intl f(1) by (auto simp: hazard_def intl_sane_def)
    then show ?thesis
      using f hm by (simp add: evaluateRecurringWindow_def)
  qed
  ultimately show ?thesis
    by (auto simp: evaluateTemporalScope_def split: option.splits)
qed

lemma cumulative_sound:
  assumes sub: "cumulative_subset c p = None" and sane: "cl_max c \<noteq> NaN" "cl_max p \<noteq> NaN"
    and mono: "\<forall>t. trk = Some t \<longrightarrow> tracker_monotone t"
    and al: "fst (evaluateCumulativeLimit c params now trk st) = Inr Allowed"
  shows "fst (evaluateCumulativeLimit p params now trk st) = Inr Allowed"
proof -
  obtain t where t: "trk = Some t" "tracker_monotone t"
    using al mono by (cases trk) (auto simp: evaluateCumulativeLimit_def)
  have eq: "meterField c = meterField p" "cl_window c = cl_window p" and le: "num_le (cl_max c) (cl_max p)"
    using sub sane num_not_lt_le by (auto simp: cumulative_subset_def deepEquals_def split: if_splits)
  obtain entry amt cur st' where e: "source (meterField p) = action_record"
    "METER_FIELD_REGISTRY (metric (meterField p)) = Some entry" "reserve_amount entry params = Some amt"
    and r: "t (string_or_empty (get_prop params ''__recordId'')) (string_or_empty (get_prop params ''__agentDid''))
      (meterField p) (computeWindowStart (cl_window p) now) now (cl_max c) amt st = (Inr (True, cur), st')"
    using al t(1) eq by (auto simp: evaluateCumulativeLimit_def split: if_splits option.splits prod.splits sum.splits)
  from t(2) le r obtain st'' where "t (string_or_empty (get_prop params ''__recordId'')) (string_or_empty (get_prop params ''__agentDid''))
      (meterField p) (computeWindowStart (cl_window p) now) now (cl_max p) amt st = (Inr (True, cur), st'')"
    unfolding tracker_monotone_def by blast
  then show ?thesis
    using t(1) e by (simp add: evaluateCumulativeLimit_def)
qed

lemma scope_sound:
  assumes reach: "evaluator_reach intl trk ev" and sub: "isScopeSubset c p = None"
    and sane: "scope_sane c" "scope_sane p" and hz: "\<not> hazard c p" and intl: "intl_sane intl"
    and mono: "\<forall>t. trk = Some t \<longrightarrow> tracker_monotone t"
    and al: "fst (evaluate ev c params now st) = Inr Allowed"
  shows "fst (evaluate ev p params now st) = Inr Allowed"
proof -
  note ev = evaluate_built_in[OF reach]
  consider (A) a b where "c = Allowlist a" "p = Allowlist b" | (N) a b where "c = NumericLimit a" "p = NumericLimit b"
    | (T) a b where "c = Temporal a" "p = Temporal b" | (C) a b where "c = CumulativeLimit a" "p = CumulativeLimit b"
    using sub by (cases c; cases p) (auto simp: isScopeSubset_def)
  then show ?thesis
  proof cases
    case A
    then show ?thesis
      using al sub by (auto simp: ev evaluateAllowlist_iff allowlist_permits_def isScopeSubset_def list_all_iff split: if_splits)
  next
    case N
    then have "num_le (nl_max a) (nl_max b)"
      using sub sane num_not_lt_le by (auto simp: isScopeSubset_def scope_sane_def split: if_splits)
    then show ?thesis
      using N al sub num_le_trans by (auto simp: ev evaluateNumericLimit_iff numeric_permits_def isScopeSubset_def split: if_splits)
  next
    case T
    then show ?thesis
      using al sub sane hz intl temporal_sound[of a b intl now] by (simp add: ev isScopeSubset_def)
  next
    case C
    then show ?thesis
      using al sub sane mono cumulative_sound[of a b trk params now st] by (simp add: ev isScopeSubset_def scope_sane_def)
  qed
qed

subsection \<open>Attenuation as an order on permissions\<close>

text \<open>
  What a delegation chain relies on: an accepted link grants nothing its parent does not grant.
  Then the last link of a chain grants nothing the first does not.
\<close>

locale attenuation_order =
  fixes accepted :: "'c \<Rightarrow> 'c \<Rightarrow> bool"
    and granted :: "'c \<Rightarrow> 'r \<Rightarrow> bool"
  assumes sound: "accepted parent child \<Longrightarrow> granted child r \<Longrightarrow> granted parent r"
begin

lemma chain_sound:
  "successively accepted (first # links) \<Longrightarrow> granted (last (first # links)) r \<Longrightarrow> granted first r"
proof (induction links arbitrary: first)
  case (Cons c cs)
  then show ?case using sound[of first c r] by auto
qed simp

end

text \<open>
  A request (action, parameters, instant) is granted when the action is listed and each of its
  scopes allows it on the given store.
\<close>

type_synonym request = "string \<times> js_object \<times> int"

definition grants :: "'st scope_evaluator \<Rightarrow> 'st \<Rightarrow> capability list \<Rightarrow> request \<Rightarrow> bool" where
  "grants ev st caps = (\<lambda>(a, params, now). scopes_for a caps \<noteq> [] \<and>
     list_all (\<lambda>s. fst (evaluate ev s params now st) = Inr Allowed) (scopes_for a caps))"

definition hazard_free :: "capability list \<Rightarrow> capability list \<Rightarrow> bool" where
  "hazard_free parentCaps childCaps =
     list_all (\<lambda>p. list_all (\<lambda>c. scope_sane (cap_scope c) \<and> scope_sane (cap_scope p) \<and>
        \<not> hazard (cap_scope c) (cap_scope p)) childCaps) parentCaps"

definition link_ok :: "(string \<times> string) option \<Rightarrow> capability list \<Rightarrow> capability list \<Rightarrow> bool" where
  "link_ok versions parentCaps childCaps =
     (validateAttenuation parentCaps childCaps versions = AttOk \<and> hazard_free parentCaps childCaps)"

definition evaluator_ok :: "intl \<Rightarrow> 'st tracker option \<Rightarrow> 'st scope_evaluator \<Rightarrow> bool" where
  "evaluator_ok intl trk ev =
     (evaluator_reach intl trk ev \<and> intl_sane intl \<and> (\<forall>t. trk = Some t \<longrightarrow> tracker_monotone t))"

lemma grants_sound:
  assumes ev: "evaluator_ok intl trk ev" and link: "link_ok versions parentCaps childCaps"
    and g: "grants ev st childCaps r"
  shows "grants ev st parentCaps r"
proof -
  obtain a params now where r: "r = (a, params, now)"
    by (cases r) auto
  have child: "a \<in> action ` set childCaps" "\<And>c. c \<in> set (scopes_for a childCaps) \<Longrightarrow> fst (evaluate ev c params now st) = Inr Allowed"
    using g by (auto simp: grants_def r scopes_for_empty list_all_iff)
  have att: "attenuates childCaps parentCaps" and hf: "hazard_free parentCaps childCaps"
    using link by (simp_all add: link_ok_def validateAttenuation_ok)
  have "fst (evaluate ev p params now st) = Inr Allowed" if p: "p \<in> set (scopes_for a parentCaps)" for p
  proof -
    have keys: "scopeMatchKey ` set (scopes_for a childCaps) = scopeMatchKey ` set (scopes_for a parentCaps)"
      and subs: "\<And>c p. c \<in> set (scopes_for a childCaps) \<Longrightarrow> p \<in> set (scopes_for a parentCaps) \<Longrightarrow>
        scopeMatchKey c = scopeMatchKey p \<Longrightarrow> isScopeSubset c p = None"
      using att child(1) unfolding attenuates_def by blast+
    obtain c where c: "c \<in> set (scopes_for a childCaps)" "scopeMatchKey c = scopeMatchKey p"
      using keys p by (metis imageE image_eqI)
    moreover have "scope_sane c \<and> scope_sane p \<and> \<not> hazard c p"
      using hf c(1) p by (auto simp: hazard_free_def list_all_iff scopes_for_def)
    ultimately show ?thesis
      using scope_sound[of intl trk ev c p params now st] subs[OF c(1) p c(2)] child(2)[OF c(1)] ev
      by (simp add: evaluator_ok_def)
  qed
  moreover have "scopes_for a parentCaps \<noteq> []"
    using att child(1) by (auto simp: attenuates_def scopes_for_empty)
  ultimately show ?thesis
    by (simp add: grants_def r list_all_iff)
qed

interpretation att: attenuation_order "\<lambda>parentCaps childCaps. evaluator_ok intl trk ev \<and> link_ok versions parentCaps childCaps"
  "grants ev st"
  for intl trk ev versions st
  by unfold_locales (auto intro: grants_sound)

lemma grants_evaluateAll:
  assumes "evaluator_reach intl trk ev" "list_all stateless (scopes_for a caps)"
  shows "grants ev st caps (a, params, now) \<longleftrightarrow>
    scopes_for a caps \<noteq> [] \<and> fst (evaluateAll ev (scopes_for a caps) params now st) = Inr Allowed"
proof -
  have "fst (evaluateAll ev ss params now st) = Inr Allowed \<longleftrightarrow>
      list_all (\<lambda>s. fst (evaluate ev s params now st) = Inr Allowed) ss" if "list_all stateless ss" for ss
    using that
  proof (induction ss)
    case (Cons s ss)
    then show ?case
      unfolding evaluateAll_Allowed_step using evaluate_stateless(1)[OF assms(1), of s] by simp
  qed simp
  then show ?thesis using assms(2) by (simp add: grants_def)
qed

subsection \<open>Properties\<close>

text \<open>
  Remark (equivalence). \<open>validateAttenuation\<close> accepts exactly the child sets that are unambiguous (no
  empty allowlist, no dimension twice under an action, on both sides), whose actions all occur in
  the parent, and which under each of their actions have the parent's dimensions, each with a
  subset scope. The version argument never changes acceptance.
\<close>

theorem validateAttenuation_correct:
  "validateAttenuation parentCaps childCaps versions = AttOk \<longleftrightarrow>
   caps_unambiguous parentCaps \<and> caps_unambiguous childCaps \<and> attenuates childCaps parentCaps"
  by (rule validateAttenuation_ok)


definition host_cap :: "string list \<Rightarrow> rat \<Rightarrow> capability list" where
  "host_cap hosts m = [\<lparr>action = ''QUOTE'', cap_scope = Allowlist \<lparr>al_field = ''host'', al_values = hosts\<rparr>\<rparr>,
     \<lparr>action = ''QUOTE'', cap_scope = NumericLimit \<lparr>nl_field = ''amount'', nl_max = Fin m, nl_currency = None\<rparr>\<rparr>]"


definition temporal_caps :: "timestamp \<Rightarrow> string \<Rightarrow> string \<Rightarrow> capability list" where
  "temporal_caps na st en = [\<lparr>action = ''QUOTE'', cap_scope = Temporal
     \<lparr>notBefore = ''2026-01-01T00:00:00.000Z'', notAfter = na,
      recurringWindow = Some \<lparr>startTime = st, endTime = en, daysOfWeek = Some [1], timezone = ''UTC''\<rparr>\<rparr>\<rparr>]"

lemma temporal_caps_accepted:
  assumes "\<not> str_lt na' na"
    and "isTimeRangeSubset (parseHHMM st) (parseHHMM en) (parseHHMM st') (parseHHMM en')"
  shows "validateAttenuation (temporal_caps na' st' en') (temporal_caps na st en) v = AttOk"
  using assms
  by (simp add: validateAttenuation_ok caps_unambiguous_def attenuates_def temporal_caps_def scopes_for_def
      isScopeSubset_def temporal_subset_def recurring_subset_def scopeMatchKey_def)

text \<open>
  C40 (error). The midnight shape is a real gap: a parent restricted to Monday nights, 22:00 to
  06:00, passes a child with Mondays 01:00 to 02:00, and the child grants Monday 01:30, which the
  parent attributes to its Sunday window and refuses.
\<close>

theorem midnight_attenuation_widens:
  "let intl = (\<lambda>z. Some (z, \<lambda>t. ''01:30'', \<lambda>t. ''Mon''));
       ev = new_ScopeEvaluator intl None [] :: unit scope_evaluator;
       parentCaps = temporal_caps ''2026-12-31T00:00:00.000Z'' ''22:00'' ''06:00'';
       childCaps = temporal_caps ''2026-12-31T00:00:00.000Z'' ''01:00'' ''02:00''
   in validateAttenuation parentCaps childCaps None = AttOk \<and>
      grants ev () childCaps (''QUOTE'', [], 1772323200000) \<and>
      \<not> grants ev () parentCaps (''QUOTE'', [], 1772323200000)"
proof -
  have "parseHHMM ''01:00'' = Some 60" "parseHHMM ''02:00'' = Some 120" "parseHHMM ''22:00'' = Some 1320" "parseHHMM ''06:00'' = Some 360"
    by code_simp+
  then have "validateAttenuation (temporal_caps ''2026-12-31T00:00:00.000Z'' ''22:00'' ''06:00'')
      (temporal_caps ''2026-12-31T00:00:00.000Z'' ''01:00'' ''02:00'') None = AttOk"
    by (intro temporal_caps_accepted) (simp_all add: isTimeRangeSubset_def list_all_iff minute_set)
  moreover have "grants (new_ScopeEvaluator (\<lambda>z. Some (z, \<lambda>t. ''01:30'', \<lambda>t. ''Mon'')) None [] :: unit scope_evaluator) ()
      (temporal_caps ''2026-12-31T00:00:00.000Z'' ''01:00'' ''02:00'') (''QUOTE'', [], 1772323200000)"
    by code_simp
  moreover have "\<not> grants (new_ScopeEvaluator (\<lambda>z. Some (z, \<lambda>t. ''01:30'', \<lambda>t. ''Mon'')) None [] :: unit scope_evaluator) ()
      (temporal_caps ''2026-12-31T00:00:00.000Z'' ''22:00'' ''06:00'') (''QUOTE'', [], 1772323200000)"
    by code_simp
  ultimately show ?thesis
    unfolding Let_def by blast
qed

text \<open>
  Remark (error). The string comparison of \<open>notAfter\<close> lets a child outlive its parent with a
  timestamp of hour 99, which sorts before the parent's bound and never expires.
\<close>

theorem invalid_notAfter_widens:
  "let intl = (\<lambda>z. Some (z, \<lambda>t. ''23:00'', \<lambda>t. ''Mon''));
       ev = new_ScopeEvaluator intl None [] :: unit scope_evaluator;
       parentCaps = temporal_caps ''2026-03-02T00:00:00.000Z'' ''22:00'' ''23:30'';
       childCaps = temporal_caps ''2026-03-01T99:00:00.000Z'' ''22:00'' ''23:30''
   in validateAttenuation parentCaps childCaps None = AttOk \<and>
      grants ev () childCaps (''QUOTE'', [], 4102444800000) \<and>
      \<not> grants ev () parentCaps (''QUOTE'', [], 4102444800000)"
proof -
  have "\<not> str_lt ''2026-03-02T00:00:00.000Z'' ''2026-03-01T99:00:00.000Z''"
    by code_simp
  then have "validateAttenuation (temporal_caps ''2026-03-02T00:00:00.000Z'' ''22:00'' ''23:30'')
      (temporal_caps ''2026-03-01T99:00:00.000Z'' ''22:00'' ''23:30'') None = AttOk"
    by (intro temporal_caps_accepted) (simp_all add: isTimeRangeSubset_def list_all_iff)
  moreover have "grants (new_ScopeEvaluator (\<lambda>z. Some (z, \<lambda>t. ''23:00'', \<lambda>t. ''Mon'')) None [] :: unit scope_evaluator) ()
      (temporal_caps ''2026-03-01T99:00:00.000Z'' ''22:00'' ''23:30'') (''QUOTE'', [], 4102444800000)"
    by code_simp
  moreover have "\<not> grants (new_ScopeEvaluator (\<lambda>z. Some (z, \<lambda>t. ''23:00'', \<lambda>t. ''Mon'')) None [] :: unit scope_evaluator) ()
      (temporal_caps ''2026-03-02T00:00:00.000Z'' ''22:00'' ''23:30'') (''QUOTE'', [], 4102444800000)"
    by code_simp
  ultimately show ?thesis
    unfolding Let_def by blast
qed

end
