(* ===== verification/Encoding.thy ===== *)
theory Encoding
  imports Prelude "HOL-Library.Word"
begin

text \<open>
  Byte encodings: \<open>crypto/src/encoding.ts\<close> (hex, base64url, \<open>detectEncoding\<close>) and
  \<open>identity/src/did-key.ts\<close> (base58 and the \<open>did:key\<close> payload).

  Bytes are 8-bit words; thrown errors are \<open>Inl\<close>. \<open>Uint8Array\<close> cells and the bit operations of
  the source stay below 256 on every path, so 8-bit words carry them without loss. The base58 loops
  work on numbers, as in the source.
\<close>

unbundle bit_operations_syntax

type_synonym byte = "8 word"
type_synonym bytes = "byte list"

datatype crypto_error =
  INVALID_HEX_STRING | ENCODING_ERROR | INVALID_KEY_FORMAT | INVALID_SIGNATURE_FORMAT
| HASH_CHAIN_BROKEN | INVALID_HASH_FORMAT | SERIALIZATION_FAILED | INTERNAL_CRYPTO_ERROR

lemma byte_eqI:
  assumes "\<And>n. n \<in> {0, 1, 2, 3, 4, 5, 6, 7} \<Longrightarrow> bit a n = bit b n"
  shows "a = (b :: byte)"
proof (rule bit_word_eqI)
  fix n :: nat
  assume "n < LENGTH(8)"
  then have "n \<in> {0, 1, 2, 3, 4, 5, 6, 7}" by auto
  then show "bit a n = bit b n" by (rule assms)
qed

lemma byte_high_bits [simp]: "8 \<le> n \<Longrightarrow> \<not> bit (b :: byte) n"
  using bit_imp_le_length[of b n] by auto

subsection \<open>Hex\<close>

definition HEX_DIGITS :: string where
  "HEX_DIGITS = ''0123456789abcdef''"

definition hex_digit :: "byte \<Rightarrow> char" where
  "hex_digit n = HEX_DIGITS ! unat n"

text \<open>One character of \<open>[0-9a-f]\<close>, either case, as \<open>parseInt(_, 16)\<close> reads it.\<close>

definition hex_value :: "char \<Rightarrow> byte option" where
  "hex_value c =
     (let n = code_unit c in
      if 48 \<le> n \<and> n \<le> 57 then Some (word_of_nat (n - 48))
      else if 97 \<le> n \<and> n \<le> 102 then Some (word_of_nat (n - 87))
      else if 65 \<le> n \<and> n \<le> 70 then Some (word_of_nat (n - 55))
      else None)"

definition HEX_PATTERN :: "string \<Rightarrow> bool" where
  "HEX_PATTERN s = (s \<noteq> [] \<and> list_all (\<lambda>c. hex_value c \<noteq> None) s)"

definition toHex :: "bytes \<Rightarrow> string" where
  "toHex bs = concat (map (\<lambda>b. [hex_digit (drop_bit 4 b), hex_digit (b AND 15)]) bs)"

fun hex_pairs :: "string \<Rightarrow> bytes" where
  "hex_pairs (a # b # cs) = (push_bit 4 (the (hex_value a)) OR the (hex_value b)) # hex_pairs cs"
| "hex_pairs _ = []"

definition fromHex :: "string \<Rightarrow> crypto_error + bytes" where
  "fromHex hex =
     (if hex = [] then Inr []
      else if odd (length hex) \<or> \<not> HEX_PATTERN hex then Inl INVALID_HEX_STRING
      else Inr (hex_pairs hex))"

lemma nibble_cases:
  assumes "unat (n :: byte) < 16"
  shows "hex_value (hex_digit n) = Some n" "hex_digit n \<in> set HEX_DIGITS"
proof -
  have "list_all (\<lambda>k. hex_value (HEX_DIGITS ! k) = Some (word_of_nat k)) [0..<16]"
    by code_simp
  then have "hex_value (HEX_DIGITS ! k) = Some (word_of_nat k)" if "k < 16" for k
    using that by (simp only: list_all_iff set_upt atLeastLessThan_iff) simp
  then show "hex_value (hex_digit n) = Some n"
    using assms by (simp add: hex_digit_def)
  show "hex_digit n \<in> set HEX_DIGITS"
    unfolding hex_digit_def using assms by (intro nth_mem) (simp add: HEX_DIGITS_def)
qed

lemma high_nibble: "unat (drop_bit 4 (b :: byte)) < 16"
proof -
  have "unat b < 2 ^ LENGTH(8)" by (rule unsigned_less)
  then show ?thesis by (simp add: drop_bit_eq_div unat_div_distrib)
qed

lemma low_nibble: "unat ((b :: byte) AND 15) < 16"
  using word_and_le1[of b 15] by (simp add: word_le_nat_alt)

lemma nibbles_join: "push_bit 4 (drop_bit 4 b) OR (b AND 15) = (b :: byte)"
  by (rule byte_eqI) (auto simp: bit_simps)

lemma hex_pairs_toHex: "hex_pairs (toHex bs) = bs"
  by (induction bs) (simp_all add: toHex_def nibble_cases[OF high_nibble] nibble_cases[OF low_nibble] nibbles_join)

lemma length_toHex: "length (toHex bs) = 2 * length bs"
  by (induction bs) (simp_all add: toHex_def)

lemma toHex_chars: "set (toHex bs) \<subseteq> set HEX_DIGITS"
  using nibble_cases(2)[OF high_nibble] nibble_cases(2)[OF low_nibble] by (auto simp: toHex_def)

lemma toHex_pattern: "bs \<noteq> [] \<Longrightarrow> HEX_PATTERN (toHex bs)"
proof -
  assume "bs \<noteq> []"
  then have "toHex bs \<noteq> []" by (cases bs) (auto simp: toHex_def)
  moreover have "\<forall>c \<in> set HEX_DIGITS. hex_value c \<noteq> None"
    by code_simp
  ultimately show ?thesis
    using toHex_chars[of bs] by (auto simp: HEX_PATTERN_def list_all_iff simp del: not_None_eq)
qed

lemma fromHex_toHex [simp]: "fromHex (toHex bs) = Inr bs"
  by (cases "bs = []") (auto simp: fromHex_def toHex_pattern length_toHex hex_pairs_toHex, simp_all add: toHex_def)

subsection \<open>Base64url\<close>

definition BASE64URL_CHARS :: string where
  "BASE64URL_CHARS = ''ABCDEFGHIJKLMNOPQRSTUVWXYZabcdefghijklmnopqrstuvwxyz0123456789-_''"

definition b64_char :: "byte \<Rightarrow> char" where
  "b64_char n = BASE64URL_CHARS ! unat n"

text \<open>The lookup table: the position of a character in the alphabet, 255 elsewhere.\<close>

fun index_of :: "char \<Rightarrow> nat \<Rightarrow> string \<Rightarrow> nat option" where
  "index_of c i [] = None"
| "index_of c i (x # xs) = (if x = c then Some i else index_of c (i + 1) xs)"

definition b64_lookup :: "char \<Rightarrow> byte" where
  "b64_lookup c = (case index_of c 0 BASE64URL_CHARS of None \<Rightarrow> 255 | Some i \<Rightarrow> word_of_nat i)"

fun toBase64Url :: "bytes \<Rightarrow> string" where
  "toBase64Url [] = []"
| "toBase64Url [b0] = [b64_char (drop_bit 2 b0), b64_char (push_bit 4 (b0 AND 3) OR drop_bit 4 0)]"
| "toBase64Url [b0, b1] =
     [b64_char (drop_bit 2 b0), b64_char (push_bit 4 (b0 AND 3) OR drop_bit 4 b1),
      b64_char (push_bit 2 (b1 AND 15) OR drop_bit 6 0)]"
| "toBase64Url (b0 # b1 # b2 # bs) =
     b64_char (drop_bit 2 b0) # b64_char (push_bit 4 (b0 AND 3) OR drop_bit 4 b1) #
     b64_char (push_bit 2 (b1 AND 15) OR drop_bit 6 b2) # b64_char (b2 AND 63) # toBase64Url bs"

definition strip_padding :: "string \<Rightarrow> string" where
  "strip_padding s = rev (dropWhile (\<lambda>c. c = CHR ''='') (rev s))"

text \<open>\<open>/^[A-Za-z0-9_-]*={0,2}$/\<close>.\<close>

definition BASE64URL_PATTERN :: "string \<Rightarrow> bool" where
  "BASE64URL_PATTERN s =
     (let stripped = strip_padding s in
      list_all (\<lambda>c. c \<in> set BASE64URL_CHARS) stripped \<and> length s \<le> length stripped + 2)"

fun b64_groups :: "string \<Rightarrow> bytes" where
  "b64_groups (a # b # c # d # cs) =
     (push_bit 2 (b64_lookup a) OR drop_bit 4 (b64_lookup b)) #
     (push_bit 4 (b64_lookup b AND 15) OR drop_bit 2 (b64_lookup c)) #
     (push_bit 6 (b64_lookup c AND 3) OR b64_lookup d) # b64_groups cs"
| "b64_groups [a, b, c] =
     [push_bit 2 (b64_lookup a) OR drop_bit 4 (b64_lookup b),
      push_bit 4 (b64_lookup b AND 15) OR drop_bit 2 (b64_lookup c)]"
| "b64_groups [a, b] = [push_bit 2 (b64_lookup a) OR drop_bit 4 (b64_lookup b)]"
| "b64_groups _ = []"

definition fromBase64Url :: "string \<Rightarrow> crypto_error + bytes" where
  "fromBase64Url str =
     (if str = [] then Inr []
      else
        (let stripped = strip_padding str in
         if \<not> BASE64URL_PATTERN str then Inl ENCODING_ERROR
         else if length stripped mod 4 = 1 then Inl ENCODING_ERROR
         else Inr (b64_groups stripped)))"

datatype encoding = EncHex | EncBase64Url

definition detectEncoding :: "string \<Rightarrow> encoding" where
  "detectEncoding str =
     (if str = [] then EncHex
      else if even (length str) \<and> HEX_PATTERN str then EncHex else EncBase64Url)"

lemma sextet_cases:
  assumes "unat (n :: byte) < 64"
  shows "b64_lookup (b64_char n) = n" "b64_char n \<in> set BASE64URL_CHARS"
proof -
  have "list_all (\<lambda>k. index_of (BASE64URL_CHARS ! k) 0 BASE64URL_CHARS = Some k) [0..<64]"
    by code_simp
  then have "index_of (BASE64URL_CHARS ! k) 0 BASE64URL_CHARS = Some k" if "k < 64" for k
    using that by (simp only: list_all_iff set_upt atLeastLessThan_iff) simp
  then show "b64_lookup (b64_char n) = n"
    using assms by (simp add: b64_lookup_def b64_char_def)
  show "b64_char n \<in> set BASE64URL_CHARS"
    unfolding b64_char_def using assms by (intro nth_mem) (simp add: BASE64URL_CHARS_def)
qed

lemma sextet_bound: "n AND 63 = n \<Longrightarrow> unat (n :: byte) < 64"
  using word_and_le1[of n 63] by (simp add: word_le_nat_alt)

lemma sextets:
  "unat (drop_bit 2 b0 :: byte) < 64" "unat (push_bit 4 (b0 AND 3) OR drop_bit 4 b1 :: byte) < 64"
  "unat (push_bit 2 (b1 AND 15) OR drop_bit 6 b2 :: byte) < 64" "unat (b2 AND 63 :: byte) < 64"
  by (rule sextet_bound, rule byte_eqI, force simp: bit_simps)+

lemma first_byte_join:
  "push_bit 2 (drop_bit 2 b0) OR drop_bit 4 (push_bit 4 (b0 AND 3) OR drop_bit 4 b1) = (b0 :: byte)"
  by (rule byte_eqI) (auto simp: bit_simps, simp_all add: numeral_2_eq_2 numeral_3_eq_3)

lemma second_byte_join:
  "push_bit 4 ((push_bit 4 (b0 AND 3) OR drop_bit 4 b1) AND 15) OR
     drop_bit 2 (push_bit 2 (b1 AND 15) OR drop_bit 6 b2) = (b1 :: byte)"
  by (rule byte_eqI) (auto simp: bit_simps)

lemma third_byte_join:
  "push_bit 6 ((push_bit 2 (b1 AND 15) OR drop_bit 6 b2) AND 3) OR (b2 AND 63) = (b2 :: byte)"
  by (rule byte_eqI) (auto simp: bit_simps)

lemmas bytes_join = first_byte_join second_byte_join third_byte_join

lemmas b64_simps = sextet_cases[OF sextets(1)] sextet_cases[OF sextets(2)] sextet_cases[OF sextets(3)]
  sextet_cases[OF sextets(4)] bytes_join

lemma b64_groups_toBase64Url: "b64_groups (toBase64Url bs) = bs"
  by (induction bs rule: toBase64Url.induct) (simp_all only: toBase64Url.simps b64_groups.simps b64_simps)

lemma toBase64Url_chars: "set (toBase64Url bs) \<subseteq> set BASE64URL_CHARS"
  by (induction bs rule: toBase64Url.induct) (simp_all only: toBase64Url.simps list.set b64_simps insert_subset empty_subsetI simp_thms)

lemma toBase64Url_length: "length (toBase64Url bs) mod 4 \<noteq> 1"
  by (induction bs rule: toBase64Url.induct) simp_all

lemma toBase64Url_empty [simp]: "toBase64Url bs = [] \<longleftrightarrow> bs = []"
  by (cases bs rule: toBase64Url.cases) simp_all

lemma strip_padding_id: "CHR ''='' \<notin> set s \<Longrightarrow> strip_padding s = s"
proof -
  assume "CHR ''='' \<notin> set s"
  then have "dropWhile (\<lambda>c. c = CHR ''='') (rev s) = rev s"
    by (cases s rule: rev_cases) auto
  then show ?thesis by (simp add: strip_padding_def)
qed

lemma strip_padding_toBase64Url: "strip_padding (toBase64Url bs) = toBase64Url bs"
proof -
  have "CHR ''='' \<notin> set (toBase64Url bs)"
    using toBase64Url_chars[of bs] by (auto simp: BASE64URL_CHARS_def)
  then have "strip_padding (toBase64Url bs) = toBase64Url bs"
    by (intro strip_padding_id)
  then show ?thesis .
qed

lemma fromBase64Url_toBase64Url [simp]: "fromBase64Url (toBase64Url bs) = Inr bs"
  using toBase64Url_chars[of bs] toBase64Url_length[of bs]
  by (auto simp: fromBase64Url_def strip_padding_toBase64Url BASE64URL_PATTERN_def b64_groups_toBase64Url
      list_all_iff Let_def)

subsection \<open>Base58 and the did:key payload\<close>

definition BASE58_ALPHABET :: string where
  "BASE58_ALPHABET = ''123456789ABCDEFGHJKLMNPQRSTUVWXYZabcdefghijkmnopqrstuvwxyz''"

text \<open>
  The inner loop of both directions: multiply a little-endian number in base \<open>b\<close> by \<open>m\<close> and add,
  then push what the carry still holds.
\<close>

function push_carry :: "nat \<Rightarrow> nat \<Rightarrow> nat list" where
  "push_carry b c = (if c = 0 \<or> b < 2 then [] else (c mod b) # push_carry b (c div b))"
  by auto
termination
  by (relation "measure snd") auto

declare push_carry.simps [simp del]

fun mul_carry :: "nat \<Rightarrow> nat \<Rightarrow> nat list \<Rightarrow> nat \<Rightarrow> nat list" where
  "mul_carry m b [] c = push_carry b c"
| "mul_carry m b (d # ds) c = ((d * m + c) mod b) # mul_carry m b ds ((d * m + c) div b)"

definition encodeBase58 :: "bytes \<Rightarrow> string" where
  "encodeBase58 bs =
     (if bs = [] then []
      else
        (let digits = foldl (\<lambda>ds b. mul_carry 256 58 ds (unat b)) [0] bs;
             zeros = takeWhile (\<lambda>b. b = 0) bs
         in map (\<lambda>b. BASE58_ALPHABET ! 0) zeros @ map (\<lambda>d. BASE58_ALPHABET ! d) (rev digits)))"

datatype did_error = InvalidBase58Character char | NotBase58btc | NotEd25519Length | NotEd25519Prefix | InvalidDidKey

fun decode_digits :: "nat list \<Rightarrow> string \<Rightarrow> did_error + nat list" where
  "decode_digits acc [] = Inr acc"
| "decode_digits acc (c # cs) =
     (case index_of c 0 BASE58_ALPHABET of
        None \<Rightarrow> Inl (InvalidBase58Character c)
      | Some digit \<Rightarrow> decode_digits (mul_carry 58 256 acc digit) cs)"

definition decodeBase58 :: "string \<Rightarrow> did_error + bytes" where
  "decodeBase58 value =
     (if value = [] then Inr []
      else case decode_digits [0] value of
             Inl e \<Rightarrow> Inl e
           | Inr acc \<Rightarrow>
               Inr (map word_of_nat
                 (rev (acc @ map (\<lambda>c. 0) (takeWhile (\<lambda>c. c = BASE58_ALPHABET ! 0) value)))))"

definition ED25519_MULTICODEC_PREFIX :: bytes where
  "ED25519_MULTICODEC_PREFIX = [0xed, 0x01]"

definition publicKeyToDidKey :: "bytes \<Rightarrow> string" where
  "publicKeyToDidKey publicKeyBytes = ''did:key:z'' @ encodeBase58 (ED25519_MULTICODEC_PREFIX @ publicKeyBytes)"

definition decodeDidKeyPayload :: "string \<Rightarrow> did_error + bytes" where
  "decodeDidKeyPayload methodSpecificId =
     (if take 1 methodSpecificId \<noteq> ''z'' then Inl NotBase58btc
      else case decodeBase58 (drop 1 methodSpecificId) of
             Inl e \<Rightarrow> Inl e
           | Inr bs \<Rightarrow>
               (if length bs \<noteq> 34 then Inl NotEd25519Length
                else if take 2 bs \<noteq> ED25519_MULTICODEC_PREFIX then Inl NotEd25519Prefix
                else Inr (drop 2 bs)))"

subsubsection \<open>Positional numbers\<close>

fun val :: "nat \<Rightarrow> nat list \<Rightarrow> nat" where
  "val b [] = 0"
| "val b (d # ds) = d + b * val b ds"

definition canonical :: "nat \<Rightarrow> nat list \<Rightarrow> bool" where
  "canonical b ds = (ds \<noteq> [] \<and> (\<forall>d \<in> set ds. d < b) \<and> (last ds \<noteq> 0 \<or> ds = [0]))"

lemma val_push_carry: "2 \<le> b \<Longrightarrow> val b (push_carry b c) = c"
  by (induction b c rule: push_carry.induct) (simp add: push_carry.simps)

lemma val_mul_carry: "2 \<le> b \<Longrightarrow> val b (mul_carry m b ds c) = val b ds * m + c"
proof (induction ds arbitrary: c)
  case (Cons d ds)
  have "(d * m + c) mod b + b * ((d * m + c) div b) = d * m + c" by simp
  then show ?case using Cons by (simp add: algebra_simps)
qed (simp add: val_push_carry)

lemma push_carry_last: "2 \<le> b \<Longrightarrow> 0 < c \<Longrightarrow> push_carry b c \<noteq> [] \<and> last (push_carry b c) \<noteq> 0"
proof (induction b c rule: push_carry.induct)
  case (1 b c)
  then show ?case
    by (cases "c div b = 0") (auto simp: push_carry.simps[of b c] push_carry.simps[of b 0] div_eq_0_iff)
qed

lemma push_carry_digits: "2 \<le> b \<Longrightarrow> d \<in> set (push_carry b c) \<Longrightarrow> d < b"
proof (induction b c rule: push_carry.induct)
  case (1 b c)
  then show ?case by (auto simp: push_carry.simps[of b c] split: if_splits)
qed

lemma mul_carry_digits: "2 \<le> b \<Longrightarrow> d \<in> set (mul_carry m b ds c) \<Longrightarrow> d < b"
  by (induction ds arbitrary: c) (auto dest: push_carry_digits)

lemma mul_carry_last:
  "2 \<le> b \<Longrightarrow> 0 < m \<Longrightarrow> ds \<noteq> [] \<Longrightarrow> last ds \<noteq> 0 \<Longrightarrow> last (mul_carry m b ds c) \<noteq> 0"
proof (induction ds arbitrary: c)
  case (Cons d ds)
  show ?case
  proof (cases "ds = []")
    case True
    let ?q = "(d * m + c) div b"
    show ?thesis
    proof (cases "?q = 0")
      case True
      then have "(d * m + c) mod b = d * m + c"
        using Cons.prems by (simp add: div_eq_0_iff)
      then show ?thesis
        using Cons.prems True \<open>ds = []\<close> by (simp add: push_carry.simps)
    next
      case False
      then show ?thesis using push_carry_last[of b ?q] Cons.prems(1) True by simp
    qed
  next
    case False
    then have "mul_carry m b ds c' \<noteq> []" for c' by (cases ds) auto
    then show ?thesis using Cons False by simp
  qed
qed simp

lemma mul_carry_canonical:
  assumes "2 \<le> b" "0 < m" "canonical b ds"
  shows "canonical b (mul_carry m b ds c)"
proof -
  have "mul_carry m b ds c \<noteq> []"
    using assms by (cases ds) (auto simp: canonical_def)
  moreover have "last (mul_carry m b ds c) \<noteq> 0 \<or> mul_carry m b ds c = [0]"
  proof (cases "ds = [0]")
    case True
    show ?thesis
    proof (cases "c div b = 0")
      case True
      then show ?thesis using \<open>ds = [0]\<close> by (auto simp: push_carry.simps)
    next
      case False
      then show ?thesis using push_carry_last[of b "c div b"] assms(1) True by simp
    qed
  qed (use assms mul_carry_last[of b m ds c] in \<open>auto simp: canonical_def\<close>)
  ultimately show ?thesis
    using mul_carry_digits[OF assms(1)] by (auto simp: canonical_def)
qed

lemma val_pos: "last ds \<noteq> 0 \<Longrightarrow> ds \<noteq> [] \<Longrightarrow> 0 < b \<Longrightarrow> 0 < val b ds"
  by (induction ds) (auto split: if_splits)

lemma canonical_unique:
  assumes "2 \<le> b" "canonical b ds" "canonical b es" "val b ds = val b es"
  shows "ds = es"
proof -
  have aux: "ds = es" if "\<forall>d \<in> set ds. d < b" "\<forall>e \<in> set es. e < b" "val b ds = val b es"
    "ds \<noteq> [] \<longrightarrow> last ds \<noteq> 0" "es \<noteq> [] \<longrightarrow> last es \<noteq> 0" for ds es
    using that
  proof (induction ds arbitrary: es)
    case Nil
    then show ?case using val_pos[of es b] assms(1) by (cases "es = []") auto
  next
    case (Cons d ds)
    then have "0 < val b (d # ds)" using val_pos[of "d # ds" b] assms(1) by simp
    then obtain e es' where es: "es = e # es'" using Cons.prems(3) by (cases es) auto
    have lt: "d < b" "e < b" using Cons.prems es by auto
    have "(d + b * val b ds) mod b = (e + b * val b es') mod b" "(d + b * val b ds) div b = (e + b * val b es') div b"
      using Cons.prems(3) es by simp_all
    then have "d = e" "val b ds = val b es'"
      using lt by simp_all
    moreover have "ds = es'"
      using Cons.prems es calculation(2) by (intro Cons.IH) auto
    ultimately show ?case using es by simp
  qed
  have z: "val b ds = 0 \<longleftrightarrow> ds = [0]" if "canonical b ds" for ds
    using that val_pos[of ds b] assms(1) by (auto simp: canonical_def)
  show ?thesis
  proof (cases "val b ds = 0")
    case True
    then show ?thesis using z assms by auto
  next
    case False
    then show ?thesis using z assms by (intro aux) (auto simp: canonical_def)
  qed
qed

text \<open>The outer loops read a big-endian sequence into its value, in canonical form.\<close>

definition be_val :: "nat \<Rightarrow> nat list \<Rightarrow> nat" where
  "be_val m xs = foldl (\<lambda>v x. v * m + x) 0 xs"

lemma be_val_rev: "be_val b xs = val b (rev xs)"
proof -
  have app: "val b (ys @ zs) = val b ys + b ^ length ys * val b zs" for ys zs
    by (induction ys) (simp_all add: algebra_simps)
  have "foldl (\<lambda>v x. v * b + x) a xs = a * b ^ length xs + val b (rev xs)" for a
    by (induction xs arbitrary: a) (simp_all add: app algebra_simps)
  then show ?thesis by (simp add: be_val_def)
qed

lemma fold_mul_carry:
  assumes "2 \<le> b" "0 < m" "canonical b acc"
  shows "canonical b (foldl (mul_carry m b) acc xs) \<and>
    val b (foldl (mul_carry m b) acc xs) = foldl (\<lambda>v x. v * m + x) (val b acc) xs"
  using assms(3)
proof (induction xs arbitrary: acc)
  case (Cons x xs)
  from Cons.IH[OF mul_carry_canonical[OF assms(1,2) Cons.prems]] show ?case
    by (simp add: val_mul_carry[OF assms(1)])
qed simp

lemma canonical_zero: "2 \<le> b \<Longrightarrow> canonical b [0]"
  by (simp add: canonical_def)

lemma fold_from_zero:
  assumes "2 \<le> b" "0 < m"
  shows "canonical b (foldl (mul_carry m b) [0] xs) \<and> val b (foldl (mul_carry m b) [0] xs) = be_val m xs"
  using fold_mul_carry[OF assms canonical_zero[OF assms(1)], of xs] by (simp add: be_val_def)

lemma base58_digit:
  assumes "d < 58"
  shows "index_of (BASE58_ALPHABET ! d) 0 BASE58_ALPHABET = Some d"
proof -
  have "list_all (\<lambda>k. index_of (BASE58_ALPHABET ! k) 0 BASE58_ALPHABET = Some k) [0..<58]"
    by code_simp
  then show ?thesis
    using assms by (simp only: list_all_iff set_upt atLeastLessThan_iff) simp
qed

lemma decode_digits_map:
  "\<forall>d \<in> set ds. d < 58 \<Longrightarrow>
   decode_digits acc (map (\<lambda>d. BASE58_ALPHABET ! d) ds) = Inr (foldl (\<lambda>a d. mul_carry 58 256 a d) acc ds)"
  by (induction ds arbitrary: acc) (simp_all add: base58_digit)

lemma leading_zeros:
  assumes "\<exists>b \<in> set bs. b \<noteq> 0"
  obtains rest where "bs = replicate (length (takeWhile (\<lambda>b. b = 0) bs)) 0 @ rest" "rest \<noteq> []" "hd rest \<noteq> 0"
proof -
  let ?r = "dropWhile (\<lambda>b. b = 0) bs"
  have "takeWhile (\<lambda>b. b = 0) bs = replicate (length (takeWhile (\<lambda>b. b = 0) bs)) 0"
    by (intro replicate_eqI) (auto dest: set_takeWhileD)
  then have "bs = replicate (length (takeWhile (\<lambda>b. b = 0) bs)) 0 @ ?r"
    by (metis takeWhile_dropWhile_id)
  moreover have "?r \<noteq> []" using assms by simp
  moreover have "hd ?r \<noteq> 0" using hd_dropWhile[of "\<lambda>b. b = 0" bs] \<open>?r \<noteq> []\<close> by simp
  ultimately show thesis by (rule that)
qed

lemma encodeBase58_digits:
  assumes "bs \<noteq> []"
  defines "ds \<equiv> foldl (mul_carry 256 58) [0] (map unat bs)"
  shows "encodeBase58 bs = map (\<lambda>d. BASE58_ALPHABET ! d) (replicate (length (takeWhile (\<lambda>b. b = 0) bs)) 0 @ rev ds)"
    "canonical 58 ds" "val 58 ds = be_val 256 (map unat bs)"
proof -
  have "foldl (\<lambda>ds b. mul_carry 256 58 ds (unat b)) [0] bs = ds"
    by (simp add: ds_def foldl_map)
  then show "encodeBase58 bs = map (\<lambda>d. BASE58_ALPHABET ! d) (replicate (length (takeWhile (\<lambda>b. b = 0) bs)) 0 @ rev ds)"
    using assms(1) by (simp add: encodeBase58_def Let_def map_replicate_const)
  show "canonical 58 ds" "val 58 ds = be_val 256 (map unat bs)"
    using fold_from_zero[of 58 256 "map unat bs"] by (simp_all add: ds_def)
qed

lemma be_val_zeros: "be_val m (replicate k 0 @ xs) = be_val m xs"
  by (induction k) (simp_all add: be_val_def)

lemma leading_ones:
  assumes "ds \<noteq> []" "hd ds \<noteq> 0" "\<forall>d \<in> set ds. d < 58"
  shows "takeWhile (\<lambda>c. c = BASE58_ALPHABET ! 0) (map (\<lambda>d. BASE58_ALPHABET ! d) (replicate k 0 @ ds)) =
    replicate k (BASE58_ALPHABET ! 0)"
proof -
  obtain d ds' where ds: "ds = d # ds'" using assms(1) by (cases ds) auto
  have "index_of (BASE58_ALPHABET ! d) 0 BASE58_ALPHABET = Some d"
    using assms(3) ds by (intro base58_digit) simp
  moreover have "index_of (BASE58_ALPHABET ! 0) 0 BASE58_ALPHABET = Some 0"
    by (intro base58_digit) simp
  ultimately have "BASE58_ALPHABET ! d \<noteq> BASE58_ALPHABET ! 0"
    using assms(2) ds by (metis list.sel(1) option.inject)
  then show ?thesis
    by (induction k) (simp_all add: ds)
qed

text \<open>The value of a byte string is positive when some byte is not zero.\<close>

lemma decodeBase58_encodeBase58:
  assumes nz: "\<exists>b \<in> set bs. b \<noteq> 0"
  shows "decodeBase58 (encodeBase58 bs) = Inr bs"
proof -
  let ?k = "length (takeWhile (\<lambda>b. b = 0) bs)"
  define ds where "ds = foldl (mul_carry 256 58) [0] (map unat bs)"
  have "bs \<noteq> []" using nz by auto
  note enc = encodeBase58_digits[OF this, folded ds_def]
  obtain rest where rest: "bs = replicate ?k 0 @ rest" "rest \<noteq> []" "hd rest \<noteq> 0"
    using leading_zeros[OF nz] .
  let ?r = "rev (map unat rest)"
  have v: "val 58 ds = val 256 ?r"
  proof -
    have "be_val 256 (map unat bs) = be_val 256 (replicate ?k 0 @ map unat rest)"
      by (subst rest(1)) (simp add: map_replicate_const)
    then show ?thesis by (simp only: enc(3) be_val_zeros) (simp only: be_val_rev)
  qed
  have bound: "unat b < 256" for b :: byte
  proof -
    have "unat b < 2 ^ LENGTH(8)" by (rule unsigned_less)
    then show ?thesis by simp
  qed
  have rc: "canonical 256 ?r"
    using rest(2,3) bound by (auto simp: canonical_def last_rev hd_map unat_eq_zero)
  then have pos: "0 < val 256 ?r"
    using rest(2,3) by (intro val_pos) (auto simp: last_rev hd_map unat_eq_zero)
  have ds: "ds \<noteq> []" "hd (rev ds) \<noteq> 0" "\<forall>d \<in> set ds. d < 58"
    using enc(2) pos v by (auto simp: canonical_def hd_rev)
  let ?all = "replicate ?k 0 @ rev ds"
  have dec: "decode_digits [0] (encodeBase58 bs) = Inr (foldl (mul_carry 58 256) [0] ?all)"
    unfolding enc(1) using ds(3) by (intro decode_digits_map) auto
  have "canonical 256 (foldl (mul_carry 58 256) [0] ?all)" "val 256 (foldl (mul_carry 58 256) [0] ?all) = val 256 ?r"
    using fold_from_zero[of 256 58 ?all] v by (simp_all only: be_val_zeros) (simp_all add: be_val_rev)
  then have acc: "foldl (mul_carry 58 256) [0] ?all = ?r"
    using rc by (intro canonical_unique[of 256]) auto
  have "takeWhile (\<lambda>c. c = BASE58_ALPHABET ! 0) (encodeBase58 bs) = replicate ?k (BASE58_ALPHABET ! 0)"
    unfolding enc(1) using ds by (intro leading_ones) auto
  moreover have "encodeBase58 bs \<noteq> []"
    unfolding enc(1) using ds by simp
  ultimately have "decodeBase58 (encodeBase58 bs) = Inr (replicate ?k 0 @ rest)"
    by (simp add: decodeBase58_def dec[unfolded acc] map_replicate_const rev_map o_def)
  then show ?thesis using rest(1) by simp
qed

lemma did_key_decodes:
  assumes "length pk = 32"
  shows "decodeDidKeyPayload (drop 8 (publicKeyToDidKey pk)) = Inr pk"
proof -
  have "\<exists>b \<in> set (ED25519_MULTICODEC_PREFIX @ pk). b \<noteq> 0"
    by (simp add: ED25519_MULTICODEC_PREFIX_def)
  then show ?thesis
    using assms by (simp add: publicKeyToDidKey_def decodeDidKeyPayload_def decodeBase58_encodeBase58
        ED25519_MULTICODEC_PREFIX_def)
qed

subsection \<open>Properties\<close>

text \<open>Remark (roundtrip). Hex and base64url decode what they encode, for every byte string.\<close>

theorem encode_decode_bytes:
  "fromHex (toHex bs) = Inr bs \<and> fromBase64Url (toBase64Url bs) = Inr bs \<and> detectEncoding (toHex bs) = EncHex"
proof (cases "bs = []")
  case True
  then show ?thesis by (simp add: toHex_def detectEncoding_def fromHex_def fromBase64Url_def)
next
  case False
  then show ?thesis
    using toHex_pattern[of bs] fromHex_toHex[of bs] fromBase64Url_toBase64Url[of bs]
    by (simp add: detectEncoding_def length_toHex)
qed

text \<open>
  Remark (roundtrip). A \<open>did:key\<close> identifier gives back the public key it was made from, for every
  32-byte key.
\<close>

theorem did_key_roundtrip:
  assumes "length pk = 32"
  shows "decodeDidKeyPayload (drop 8 (publicKeyToDidKey pk)) = Inr pk"
  using assms by (rule did_key_decodes)

theorem did_key_roundtrip_witness:
  "decodeDidKeyPayload (drop 8 (publicKeyToDidKey (replicate 31 0 @ [7]))) = Inr (replicate 31 0 @ [7])"
  by (rule did_key_roundtrip) simp

text \<open>
  Remark (error). Base58 does not round-trip on strings of zero bytes: one zero byte comes back as
  three. The \<open>did:key\<close> payload starts with \<open>0xed\<close> and is not affected.
\<close>

theorem base58_zero_bytes: "encodeBase58 [0] = ''11'' \<and> decodeBase58 ''11'' = Inr [0, 0, 0]"
  by code_simp

end
