(* ===== verification/Capability_Token.thy ===== *)
theory Capability_Token
  imports Attenuation Encoding
begin

text \<open>
  Capability tokens: \<open>crypto/src/signing.ts\<close> (key and signature formats), \<open>identity/src/did.ts\<close>,
  issuing and delegating (\<open>identity/src/token-issuer.ts\<close>) and the synchronous verifier
  (\<open>identity/src/token-verifier.ts\<close>).

  The record \<open>platform\<close> holds what the sources call and do not define: Ed25519 (\<open>ed_sign\<close>,
  \<open>ed_public\<close>, \<open>ed_verify\<close>), the RFC 8785 serialiser of the \<open>canonicalize\<close> package (\<open>jcs\<close>, on the
  object each caller builds), the JSON-schema validator (\<open>schema_ok\<close>) and \<open>new URL\<close>
  (\<open>parse_url\<close>: protocol and host name). A thrown error is \<open>Inl\<close>. \<open>Date\<close> and \<open>randomUUID\<close> results
  are arguments.
\<close>

subsection \<open>The platform\<close>

datatype json_payload =
  TokenJson token_id string did did did timestamp timestamp "capability list" string "delegation_proof list option"
| ProofJson token_id did did "capability list" timestamp "capability list" "string option"
| CapabilityJson capability

record platform =
  ed_sign :: "string \<Rightarrow> bytes \<Rightarrow> bytes"
  ed_public :: "bytes \<Rightarrow> bytes"
  ed_verify :: "bytes \<Rightarrow> string \<Rightarrow> bytes \<Rightarrow> bool"
  jcs :: "json_payload \<Rightarrow> string"
  schema_ok :: "capability_token \<Rightarrow> bool"
  parse_url :: "string \<Rightarrow> (string \<times> string) option"

datatype thrown = CryptoThrown crypto_error | DidThrown did_error

subsection \<open>Keys and signatures\<close>

definition normalizeKey :: "string \<Rightarrow> crypto_error + bytes" where
  "normalizeKey input = (if detectEncoding input = EncHex then fromHex input else fromBase64Url input)"

definition assertPrivateKey :: "string \<Rightarrow> crypto_error + bytes" where
  "assertPrivateKey privateKey =
     (case normalizeKey privateKey of
        Inl _ \<Rightarrow> Inl INVALID_KEY_FORMAT
      | Inr keyBytes \<Rightarrow> if length keyBytes \<noteq> 32 \<and> length keyBytes \<noteq> 64 then Inl INVALID_KEY_FORMAT else Inr keyBytes)"

definition assertPublicKey :: "string \<Rightarrow> crypto_error + bytes" where
  "assertPublicKey publicKey =
     (case normalizeKey publicKey of
        Inl _ \<Rightarrow> Inl INVALID_KEY_FORMAT
      | Inr keyBytes \<Rightarrow> if length keyBytes \<noteq> 32 then Inl INVALID_KEY_FORMAT else Inr keyBytes)"

definition assertSignature :: "string \<Rightarrow> crypto_error + bytes" where
  "assertSignature sig =
     (case normalizeKey sig of
        Inl _ \<Rightarrow> Inl INVALID_SIGNATURE_FORMAT
      | Inr sigBytes \<Rightarrow> if length sigBytes \<noteq> 64 then Inl INVALID_SIGNATURE_FORMAT else Inr sigBytes)"

definition sign :: "platform \<Rightarrow> string \<Rightarrow> string \<Rightarrow> encoding \<Rightarrow> crypto_error + string" where
  "sign pf message privateKey outputEncoding =
     (case assertPrivateKey privateKey of
        Inl e \<Rightarrow> Inl e
      | Inr keyBytes \<Rightarrow>
          (let sigBytes = ed_sign pf message (take 32 keyBytes)
           in Inr (if outputEncoding = EncBase64Url then toBase64Url sigBytes else toHex sigBytes)))"

definition verify :: "platform \<Rightarrow> string \<Rightarrow> string \<Rightarrow> string \<Rightarrow> crypto_error + bool" where
  "verify pf message sig publicKey =
     (case assertSignature sig of
        Inl e \<Rightarrow> Inl e
      | Inr sigBytes \<Rightarrow>
          (case assertPublicKey publicKey of
             Inl e \<Rightarrow> Inl e
           | Inr keyBytes \<Rightarrow> Inr (ed_verify pf sigBytes message keyBytes)))"

subsection \<open>DIDs and timestamps\<close>

definition isDidAgent :: "string \<Rightarrow> bool" where
  "isDidAgent d =
     (take 10 d = ''did:agent:'' \<and> length d = 50 \<and>
      list_all (\<lambda>c. (97 \<le> code_unit c \<and> code_unit c \<le> 102) \<or> (48 \<le> code_unit c \<and> code_unit c \<le> 57)) (drop 10 d))"

definition isDidKey :: "string \<Rightarrow> bool" where
  "isDidKey d = (take 8 d = ''did:key:'' \<and> 8 < length d \<and> list_all (\<lambda>c. c \<in> set BASE58_ALPHABET) (drop 8 d))"

definition createAgentDID :: "(bytes \<Rightarrow> bytes) \<Rightarrow> string \<Rightarrow> crypto_error + did" where
  "createAgentDID sha256 publicKeyInput =
     (case (if detectEncoding publicKeyInput = EncHex then fromHex publicKeyInput else fromBase64Url publicKeyInput) of
        Inl e \<Rightarrow> Inl e
      | Inr bs \<Rightarrow> Inr (''did:agent:'' @ take 40 (toHex (sha256 bs))))"

definition extractPublicKeyFromDIDKey :: "did \<Rightarrow> did_error + string" where
  "extractPublicKeyFromDIDKey didKey =
     (if \<not> isDidKey didKey then Inl InvalidDidKey
      else case decodeDidKeyPayload (drop 8 didKey) of Inl e \<Rightarrow> Inl e | Inr bs \<Rightarrow> Inr (toHex bs))"

text \<open>\<open>new Date(a).getTime() <= new Date(b).getTime()\<close> and its strict form; false on invalid dates.\<close>

definition date_le :: "timestamp \<Rightarrow> timestamp \<Rightarrow> bool" where
  "date_le a b = (case (getTime a, getTime b) of (Some s, Some t) \<Rightarrow> s \<le> t | _ \<Rightarrow> False)"

definition date_gt :: "timestamp \<Rightarrow> timestamp \<Rightarrow> bool" where
  "date_gt a b = (case (getTime a, getTime b) of (Some s, Some t) \<Rightarrow> t < s | _ \<Rightarrow> False)"

definition isTimestampExpired :: "timestamp \<Rightarrow> timestamp \<Rightarrow> bool" where
  "isTimestampExpired expires now = date_le expires now"

definition parseDidFromVerificationMethod :: "string \<Rightarrow> string" where
  "parseDidFromVerificationMethod vm = (case js_split (CHR ''#'') vm of [] \<Rightarrow> [] | a # _ \<Rightarrow> a)"

subsection \<open>Signed payloads\<close>

definition createCapabilityTokenPayload :: "platform \<Rightarrow> capability_token \<Rightarrow> string" where
  "createCapabilityTokenPayload pf t =
     jcs pf (TokenJson (token_id t) (specVersion t) (issuerDid t) (principalDid t) (issuedTo t) (issuedAt t)
       (expiresAt t) (capabilities t) (revocationUrl t) (delegationChain t))"

definition proof_payload :: "platform \<Rightarrow> delegation_proof \<Rightarrow> string" where
  "proof_payload pf p =
     jcs pf (ProofJson (parentTokenId p) (delegatorDid p) (delegateeDid p) (parentCapabilities p) (parentExpiresAt p)
       (attenuatedCapabilities p) (dcVersion p))"

lemma payload_ignores_proof [simp]:
  "createCapabilityTokenPayload pf (t\<lparr>token_proof := x\<rparr>) = createCapabilityTokenPayload pf t"
  "proof_payload pf (p\<lparr>dp_proof := y\<rparr>) = proof_payload pf p"
  by (simp_all add: createCapabilityTokenPayload_def proof_payload_def)

subsection \<open>Issuing\<close>

datatype issue_error =
  IssuerNotDidKey | IssuedToNotDidAgent | NoCapabilities | ExpiryNotInFuture | BadRevocationUrl
| ExpiryExceedsParent | AttenuationRejected bool attenuation_detail | DepthExceeded nat | SignFailed crypto_error

record issue_params =
  ip_issuerDid :: did
  ip_issuedTo :: did
  ip_capabilities :: "capability list"
  ip_expiresAt :: timestamp
  ip_revocationUrl :: string
  ip_privateKey :: string

fun str_replace_first :: "string \<Rightarrow> string \<Rightarrow> string \<Rightarrow> string" where
  "str_replace_first pat rep [] = (if pat = [] then rep else [])"
| "str_replace_first pat rep (c # cs) =
     (if take (length pat) (c # cs) = pat then rep @ drop (length pat) (c # cs)
      else c # str_replace_first pat rep cs)"

fun str_includes :: "string \<Rightarrow> string \<Rightarrow> bool" where
  "str_includes [] pat = (pat = [])"
| "str_includes (c # cs) pat = (take (length pat) (c # cs) = pat \<or> str_includes cs pat)"

definition isValidRevocationUrlTemplate :: "platform \<Rightarrow> string \<Rightarrow> bool" where
  "isValidRevocationUrlTemplate pf url =
     (str_includes url ''{id}'' \<and>
      (case parse_url pf (str_replace_first ''{id}'' ''placeholder'' url) of
         None \<Rightarrow> False
       | Some (protocol, hostname) \<Rightarrow> protocol = ''https:'' \<and> hostname \<noteq> []))"

definition IDENTITY_ENCODING :: encoding where
  "IDENTITY_ENCODING = EncBase64Url"

definition sign_token :: "platform \<Rightarrow> capability_token \<Rightarrow> string \<Rightarrow> timestamp \<Rightarrow> did \<Rightarrow> issue_error + capability_token" where
  "sign_token pf payload privateKey issued signer =
     (case sign pf (createCapabilityTokenPayload pf payload) privateKey IDENTITY_ENCODING of
        Inl e \<Rightarrow> Inl (SignFailed e)
      | Inr v \<Rightarrow> Inr (payload\<lparr>token_proof :=
          \<lparr>created = issued, verificationMethod = signer @ ''#key-1'', proof_value = v\<rparr>\<rparr>))"

definition no_proof :: token_proof where
  "no_proof = \<lparr>created = [], verificationMethod = [], proof_value = []\<rparr>"

definition issueCapabilityToken ::
  "platform \<Rightarrow> issue_params \<Rightarrow> timestamp \<Rightarrow> string \<Rightarrow> issue_error + capability_token" where
  "issueCapabilityToken pf params issued uuid =
     (if \<not> isDidKey (ip_issuerDid params) then Inl IssuerNotDidKey
      else if \<not> isDidAgent (ip_issuedTo params) then Inl IssuedToNotDidAgent
      else if ip_capabilities params = [] then Inl NoCapabilities
      else if isTimestampExpired (ip_expiresAt params) issued then Inl ExpiryNotInFuture
      else if \<not> isValidRevocationUrlTemplate pf (ip_revocationUrl params) then Inl BadRevocationUrl
      else sign_token pf
        \<lparr>token_id = ''urn:cap:'' @ uuid, specVersion = ''0.1.0'', issuerDid = ip_issuerDid params,
         principalDid = ip_issuerDid params, issuedTo = ip_issuedTo params, issuedAt = issued,
         expiresAt = ip_expiresAt params, capabilities = ip_capabilities params,
         revocationUrl = ip_revocationUrl params, token_proof = no_proof, delegationChain = None\<rparr>
        (ip_privateKey params) issued (ip_issuerDid params))"

subsection \<open>Delegating\<close>

record delegate_params =
  parentToken :: capability_token
  delegatorPrivateKey :: string
  dg_delegateeDid :: did
  dg_capabilities :: "capability list"
  dg_expiresAt :: timestamp
  dg_revocationUrl :: string
  dg_dcVersion :: "string option"

text \<open>The guards of \<open>delegateCapabilityToken\<close>, in order; \<open>None\<close> when all pass.\<close>

definition delegate_guard :: "platform \<Rightarrow> delegate_params \<Rightarrow> timestamp \<Rightarrow> issue_error option" where
  "delegate_guard pf params issued =
     (let parent = parentToken params;
          currentDepth = (case delegationChain parent of None \<Rightarrow> 0 | Some c \<Rightarrow> length c) + 1
      in if \<not> isDidAgent (dg_delegateeDid params) then Some IssuedToNotDidAgent
         else if dg_capabilities params = [] then Some NoCapabilities
         else if isTimestampExpired (dg_expiresAt params) issued then Some ExpiryNotInFuture
         else if str_lt (expiresAt parent) (dg_expiresAt params) then Some ExpiryExceedsParent
         else if \<not> isValidRevocationUrlTemplate pf (dg_revocationUrl params) then Some BadRevocationUrl
         else case validateAttenuation (capabilities parent) (dg_capabilities params)
                     (Some (specVersion parent, ''0.2.0'')) of
                AttFail mixed detail \<Rightarrow> Some (AttenuationRejected mixed detail)
              | AttOk \<Rightarrow>
                  (if MAX_DELEGATION_DEPTH < currentDepth then Some (DepthExceeded currentDepth) else None))"

definition delegation_proof_of :: "delegate_params \<Rightarrow> delegation_proof" where
  "delegation_proof_of params =
     (let parent = parentToken params in
      \<lparr>parentTokenId = token_id parent, delegatorDid = issuedTo parent, delegateeDid = dg_delegateeDid params,
       parentCapabilities = capabilities parent, parentExpiresAt = expiresAt parent,
       attenuatedCapabilities = dg_capabilities params, dp_proof = no_proof, dcVersion = dg_dcVersion params\<rparr>)"

definition delegateCapabilityToken ::
  "platform \<Rightarrow> delegate_params \<Rightarrow> timestamp \<Rightarrow> string \<Rightarrow> issue_error + capability_token" where
  "delegateCapabilityToken pf params issued uuid =
     (case delegate_guard pf params issued of
        Some e \<Rightarrow> Inl e
      | None \<Rightarrow>
          (let parent = parentToken params; pp = delegation_proof_of params in
           case sign pf (proof_payload pf pp) (delegatorPrivateKey params) IDENTITY_ENCODING of
             Inl e \<Rightarrow> Inl (SignFailed e)
           | Inr v \<Rightarrow>
               sign_token pf
                 \<lparr>token_id = ''urn:cap:'' @ uuid, specVersion = ''0.2.0'', issuerDid = issuerDid parent,
                  principalDid = principalDid parent, issuedTo = dg_delegateeDid params, issuedAt = issued,
                  expiresAt = dg_expiresAt params, capabilities = dg_capabilities params,
                  revocationUrl = dg_revocationUrl params, token_proof = no_proof,
                  delegationChain = Some ((case delegationChain parent of None \<Rightarrow> [] | Some c \<Rightarrow> c) @
                    [pp\<lparr>dp_proof := \<lparr>created = issued, verificationMethod = issuedTo parent @ ''#key-1'', proof_value = v\<rparr>\<rparr>])\<rparr>
                 (delegatorPrivateKey params) issued (issuedTo parent)))"

subsection \<open>The synchronous verifier\<close>

datatype rotation_state = STABLE | ROTATING | FROZEN

record resolved_keys =
  current :: string
  previous :: "string option"
  previousValidBefore :: "timestamp option"
  rotationState :: rotation_state

datatype token_code = INVALID_TOKEN_FORMAT | TOKEN_EXPIRED | SIGNATURE_INVALID | DELEGATION_CHAIN_INVALID

text \<open>\<open>Inr None\<close> is a valid token, \<open>Inr (Some code)\<close> a rejection, \<open>Inl\<close> an exception.\<close>

type_synonym token_check = "thrown + token_code option"

definition chain_of :: "capability_token \<Rightarrow> delegation_proof list" where
  "chain_of t = (case delegationChain t of None \<Rightarrow> [] | Some c \<Rightarrow> c)"

definition lift_sig :: "crypto_error + bool \<Rightarrow> token_check" where
  "lift_sig r = (case r of Inl e \<Rightarrow> Inl (CryptoThrown e) | Inr ok \<Rightarrow> Inr (if ok then None else Some SIGNATURE_INVALID))"

text \<open>The checks before the signature.\<close>

definition token_gates :: "platform \<Rightarrow> capability_token \<Rightarrow> timestamp \<Rightarrow> resolved_keys option \<Rightarrow> token_code option" where
  "token_gates pf t now keys =
     (if \<not> schema_ok pf t then Some INVALID_TOKEN_FORMAT
      else if keys \<noteq> None \<and> \<not> isDidKey (issuerDid t) \<and> \<not> isDidAgent (issuerDid t) then Some INVALID_TOKEN_FORMAT
      else if keys = None \<and> \<not> isDidKey (issuerDid t) then Some INVALID_TOKEN_FORMAT
      else if keys = None \<and> isDidAgent (parseDidFromVerificationMethod (verificationMethod (token_proof t)))
        then Some INVALID_TOKEN_FORMAT
      else if date_gt (issuedAt t) now then Some INVALID_TOKEN_FORMAT
      else if isTimestampExpired (expiresAt t) now then Some TOKEN_EXPIRED
      else if chain_of t \<noteq> [] then Some INVALID_TOKEN_FORMAT
      else if specVersion t = ''0.1.0'' \<and>
        list_ex (\<lambda>cap. scope_type (cap_scope cap) \<in> {''temporal_scope'', ''cumulative_limit''}) (capabilities t)
        then Some INVALID_TOKEN_FORMAT
      else None)"

definition verify_rotating :: "platform \<Rightarrow> capability_token \<Rightarrow> resolved_keys \<Rightarrow> token_check" where
  "verify_rotating pf t keys =
     (let payload = createCapabilityTokenPayload pf t; sig = proof_value (token_proof t) in
      case verify pf payload sig (current keys) of
        Inl e \<Rightarrow> Inl (CryptoThrown e)
      | Inr True \<Rightarrow> Inr None
      | Inr False \<Rightarrow>
          (case (rotationState keys, previous keys, previousValidBefore keys) of
             (ROTATING, Some prev, Some cutoff) \<Rightarrow>
               (if date_le (issuedAt t) cutoff then lift_sig (verify pf payload sig prev)
                else Inr (Some SIGNATURE_INVALID))
           | _ \<Rightarrow> Inr (Some SIGNATURE_INVALID)))"

definition verifyCapabilityToken :: "platform \<Rightarrow> capability_token \<Rightarrow> timestamp \<Rightarrow> resolved_keys option \<Rightarrow> token_check" where
  "verifyCapabilityToken pf t now keys =
     (case token_gates pf t now keys of
        Some code \<Rightarrow> Inr (Some code)
      | None \<Rightarrow>
          (case keys of
             Some ks \<Rightarrow> verify_rotating pf t ks
           | None \<Rightarrow>
               (case extractPublicKeyFromDIDKey (issuerDid t) of
                  Inl e \<Rightarrow> Inl (DidThrown e)
                | Inr publicKey \<Rightarrow>
                    lift_sig (verify pf (createCapabilityTokenPayload pf t) (proof_value (token_proof t)) publicKey))))"

subsection \<open>The lightweight action check\<close>

datatype action_code = TOKEN_NOT_FOR_THIS_AGENT | INVALID_ACTION | SCOPE_EXCEEDED | SCOPE_TYPE_UNKNOWN

definition check_capability_scope :: "js_object \<Rightarrow> scope \<Rightarrow> action_code option" where
  "check_capability_scope params s =
     (case s of
        Allowlist a \<Rightarrow>
          (case get_prop params (al_field a) of
             JStr v \<Rightarrow> if v \<in> set (al_values a) then None else Some SCOPE_EXCEEDED
           | _ \<Rightarrow> Some SCOPE_EXCEEDED)
      | NumericLimit n \<Rightarrow>
          (case get_prop params (nl_field n) of
             JUndef \<Rightarrow> None
           | JNum x \<Rightarrow> if num_lt (nl_max n) x then Some SCOPE_EXCEEDED else None
           | _ \<Rightarrow> Some SCOPE_EXCEEDED)
      | _ \<Rightarrow> Some SCOPE_TYPE_UNKNOWN)"

definition checkTokenForAction :: "capability_token \<Rightarrow> string \<Rightarrow> js_object \<Rightarrow> did \<Rightarrow> action_code option" where
  "checkTokenForAction t act params agentDid =
     (if issuedTo t \<noteq> agentDid then Some TOKEN_NOT_FOR_THIS_AGENT
      else
        (let matches = filter (\<lambda>c. action c = act) (capabilities t) in
         if matches = [] then Some INVALID_ACTION
         else first_some (\<lambda>c. check_capability_scope params (cap_scope c)) matches))"

subsection \<open>Signatures come back\<close>

text \<open>The documented behaviour of Ed25519 on 32-byte seeds: sizes, and that a signature verifies.\<close>

definition ed25519_laws :: "platform \<Rightarrow> bool" where
  "ed25519_laws pf =
     (\<forall>m seed. length seed = 32 \<longrightarrow>
        length (ed_sign pf m seed) = 64 \<and> length (ed_public pf seed) = 32 \<and>
        ed_verify pf (ed_sign pf m seed) m (ed_public pf seed))"

lemma normalizeKey_toHex: "normalizeKey (toHex bs) = Inr bs"
proof (cases "bs = []")
  case True
  then show ?thesis by (simp add: normalizeKey_def toHex_def detectEncoding_def fromHex_def)
next
  case False
  then show ?thesis
    using toHex_pattern[OF False] by (simp add: normalizeKey_def detectEncoding_def length_toHex)
qed

lemma normalizeKey_toBase64Url: "\<not> HEX_PATTERN (toBase64Url bs) \<Longrightarrow> normalizeKey (toBase64Url bs) = Inr bs"
  by (cases "bs = []") (auto simp: normalizeKey_def detectEncoding_def fromHex_def)

lemma sign_verify:
  assumes laws: "ed25519_laws pf" and sk: "assertPrivateKey sk = Inr kb"
    and sig: "sign pf m sk EncBase64Url = Inr v" and nohex: "\<not> HEX_PATTERN v"
  shows "verify pf m v (toHex (ed_public pf (take 32 kb))) = Inr True"
proof -
  have len: "length (take 32 kb) = 32"
    using sk by (auto simp: assertPrivateKey_def split: sum.splits if_splits)
  have v: "v = toBase64Url (ed_sign pf m (take 32 kb))"
    using sig sk by (simp add: sign_def Let_def)
  show ?thesis
    using laws len nohex
    by (simp add: verify_def assertSignature_def assertPublicKey_def v normalizeKey_toBase64Url normalizeKey_toHex ed25519_laws_def)
qed

lemma sign_token_fields:
  assumes "sign_token pf p sk i d = Inr t"
  shows "\<exists>v. sign pf (createCapabilityTokenPayload pf p) sk EncBase64Url = Inr v \<and>
    t = p\<lparr>token_proof := \<lparr>created = i, verificationMethod = d @ ''#key-1'', proof_value = v\<rparr>\<rparr>"
  using assms by (auto simp: sign_token_def IDENTITY_ENCODING_def split: sum.splits)

lemma js_split_first: "CHR ''#'' \<notin> set d \<Longrightarrow> js_split (CHR ''#'') (d @ CHR ''#'' # r) = d # js_split (CHR ''#'') r"
  by (induction d) (simp, metis append_Cons js_split.simps(2) list.set_intros list.simps(5))

lemma parse_vm: "CHR ''#'' \<notin> set d \<Longrightarrow> parseDidFromVerificationMethod (d @ ''#key-1'') = d"
  by (simp add: parseDidFromVerificationMethod_def js_split_first)

lemma base58_no_hash: "CHR ''#'' \<notin> set BASE58_ALPHABET"
  by (simp add: BASE58_ALPHABET_def)

lemma did_key_no_hash: "isDidKey d \<Longrightarrow> CHR ''#'' \<notin> set d"
proof -
  assume d: "isDidKey d"
  have "set d = set (take 8 d) \<union> set (drop 8 d)"
    unfolding set_append[symmetric] append_take_drop_id ..
  moreover have "CHR ''#'' \<notin> set (take 8 d)"
    using d by (simp add: isDidKey_def)
  moreover have "CHR ''#'' \<notin> set (drop 8 d)"
    using d base58_no_hash unfolding isDidKey_def list_all_iff by blast
  ultimately show ?thesis by blast
qed

lemma did_key_not_agent: "isDidKey d \<Longrightarrow> \<not> isDidAgent d"
proof
  assume "isDidKey d" "isDidAgent d"
  then have "take 8 d = ''did:key:''" "take 8 (take 10 d) = take 8 ''did:agent:''"
    by (simp_all add: isDidKey_def isDidAgent_def)
  then show False by simp
qed

lemma base58_encode_chars: "set (encodeBase58 bs) \<subseteq> set BASE58_ALPHABET"
proof (cases "bs = []")
  case False
  have "BASE58_ALPHABET ! d \<in> set BASE58_ALPHABET" if "d < 58" for d
    using that by (intro nth_mem) (simp add: BASE58_ALPHABET_def)
  then show ?thesis
    using encodeBase58_digits(1,2)[OF False] by (auto simp: canonical_def)
qed (simp add: encodeBase58_def)

lemma did_key_of_public:
  assumes "length pk = 32"
  shows "isDidKey (publicKeyToDidKey pk)" "extractPublicKeyFromDIDKey (publicKeyToDidKey pk) = Inr (toHex pk)"
proof -
  have "encodeBase58 (ED25519_MULTICODEC_PREFIX @ pk) \<noteq> []"
    using encodeBase58_digits(1,2)[of "ED25519_MULTICODEC_PREFIX @ pk"] by (auto simp: ED25519_MULTICODEC_PREFIX_def canonical_def)
  moreover have "set (''z'' @ encodeBase58 (ED25519_MULTICODEC_PREFIX @ pk)) \<subseteq> set BASE58_ALPHABET"
    using base58_encode_chars[of "ED25519_MULTICODEC_PREFIX @ pk"] by (simp add: BASE58_ALPHABET_def)
  moreover have "take 8 (publicKeyToDidKey pk) = ''did:key:''"
    "drop 8 (publicKeyToDidKey pk) = ''z'' @ encodeBase58 (ED25519_MULTICODEC_PREFIX @ pk)"
    by (simp_all add: publicKeyToDidKey_def)
  moreover have "8 < length (publicKeyToDidKey pk)"
    by (simp add: publicKeyToDidKey_def)
  ultimately show k: "isDidKey (publicKeyToDidKey pk)"
    unfolding isDidKey_def list_all_iff by (simp only: subset_iff simp_thms) blast
  show "extractPublicKeyFromDIDKey (publicKeyToDidKey pk) = Inr (toHex pk)"
    using k did_key_decodes[OF assms] by (simp add: extractPublicKeyFromDIDKey_def)
qed

subsection \<open>Properties\<close>

definition demo_jcs :: "json_payload \<Rightarrow> string" where
  "demo_jcs j = (case j of
     CapabilityJson c \<Rightarrow> (case cap_scope c of
         Allowlist a \<Rightarrow> CHR ''A'' # concat (al_values a)
       | NumericLimit n \<Rightarrow> (if nl_max n = Fin 10 then ''N10'' else ''N'')
       | _ \<Rightarrow> ''X'')
   | _ \<Rightarrow> ''{}'')"

definition demo_platform :: platform where
  "demo_platform =
     \<lparr>ed_sign = (\<lambda>m seed. seed @ replicate 32 255), ed_public = (\<lambda>seed. seed),
      ed_verify = (\<lambda>sig m pk. sig = pk @ replicate 32 255), jcs = demo_jcs,
      schema_ok = (\<lambda>t. True), parse_url = (\<lambda>u. Some (''https:'', ''host''))\<rparr>"

definition demo_agent :: "nat \<Rightarrow> did" where
  "demo_agent n = ''did:agent:'' @ replicate 39 (CHR ''a'') @ [HEX_DIGITS ! n]"

definition demo_issue :: "capability list \<Rightarrow> issue_params" where
  "demo_issue caps = \<lparr>ip_issuerDid = publicKeyToDidKey (replicate 32 1), ip_issuedTo = demo_agent 2, ip_capabilities = caps,
     ip_expiresAt = ''2026-12-31T00:00:00.000Z'', ip_revocationUrl = ''https://host/{id}'',
     ip_privateKey = toHex (replicate 32 1)\<rparr>"

definition demo_token :: "capability list \<Rightarrow> capability_token" where
  "demo_token caps = (case issueCapabilityToken demo_platform (demo_issue caps) ''2026-01-01T00:00:00.000Z'' ''u1'' of Inr t \<Rightarrow> t)"

lemma demo_laws: "ed25519_laws demo_platform"
  by (simp add: ed25519_laws_def demo_platform_def)

lemma demo_issuer: "isDidKey (publicKeyToDidKey (replicate 32 1))"
  by (rule did_key_of_public) simp

lemma demo_key: "assertPrivateKey (toHex (replicate 32 1)) = Inr (replicate 32 1)"
  by (simp add: assertPrivateKey_def normalizeKey_toHex)

lemma demo_agent_ok: "isDidAgent (demo_agent 2)" "isDidAgent (demo_agent 3)" "isDidAgent (demo_agent 4)"
  by code_simp+

lemma demo_sign: "sign demo_platform m (toHex (replicate 32 1)) EncBase64Url = Inr (toBase64Url (replicate 32 1 @ replicate 32 255))"
  by (simp add: sign_def demo_key demo_platform_def Let_def)

lemma demo_issued:
  assumes "caps \<noteq> []"
  shows "issueCapabilityToken demo_platform (demo_issue caps) ''2026-01-01T00:00:00.000Z'' ''u1'' = Inr (demo_token caps)"
    "proof_value (token_proof (demo_token caps)) = toBase64Url (replicate 32 1 @ replicate 32 255)"
    "capabilities (demo_token caps) = caps" "delegationChain (demo_token caps) = None"
    "expiresAt (demo_token caps) = ''2026-12-31T00:00:00.000Z''" "specVersion (demo_token caps) = ''0.1.0''"
    "issuedTo (demo_token caps) = demo_agent 2" "token_id (demo_token caps) = ''urn:cap:u1''"
    "issuerDid (demo_token caps) = publicKeyToDidKey (replicate 32 1)"
    "principalDid (demo_token caps) = publicKeyToDidKey (replicate 32 1)"
    "issuedAt (demo_token caps) = ''2026-01-01T00:00:00.000Z''"
    "verificationMethod (token_proof (demo_token caps)) = publicKeyToDidKey (replicate 32 1) @ ''#key-1''"
proof -
  have t: "\<not> isTimestampExpired ''2026-12-31T00:00:00.000Z'' ''2026-01-01T00:00:00.000Z''"
    "isValidRevocationUrlTemplate demo_platform ''https://host/{id}''"
    by code_simp+
  note d = demo_token_def demo_issue_def issueCapabilityToken_def demo_issuer demo_agent_ok t sign_token_def
    IDENTITY_ENCODING_def demo_sign
  show "issueCapabilityToken demo_platform (demo_issue caps) ''2026-01-01T00:00:00.000Z'' ''u1'' = Inr (demo_token caps)"
    "proof_value (token_proof (demo_token caps)) = toBase64Url (replicate 32 1 @ replicate 32 255)"
    "capabilities (demo_token caps) = caps" "delegationChain (demo_token caps) = None"
    "expiresAt (demo_token caps) = ''2026-12-31T00:00:00.000Z''" "specVersion (demo_token caps) = ''0.1.0''"
    "issuedTo (demo_token caps) = demo_agent 2" "token_id (demo_token caps) = ''urn:cap:u1''"
    "issuerDid (demo_token caps) = publicKeyToDidKey (replicate 32 1)"
    "principalDid (demo_token caps) = publicKeyToDidKey (replicate 32 1)"
    "issuedAt (demo_token caps) = ''2026-01-01T00:00:00.000Z''"
    "verificationMethod (token_proof (demo_token caps)) = publicKeyToDidKey (replicate 32 1) @ ''#key-1''"
    using assms by (simp_all add: d)
qed

lemma demo_sig_not_hex: "\<not> HEX_PATTERN (toBase64Url (replicate 32 1 @ replicate 32 255))"
  by code_simp

lemma demo_verify:
  "verify demo_platform m (toBase64Url (replicate 32 1 @ replicate 32 255)) (toHex (replicate 32 k)) = Inr (k = 1)"
  by (simp add: verify_def assertSignature_def assertPublicKey_def normalizeKey_toBase64Url[OF demo_sig_not_hex] normalizeKey_toHex demo_platform_def)

definition phase2_free :: "capability list \<Rightarrow> bool" where
  "phase2_free caps = (\<not> list_ex (\<lambda>cap. isPhase2ScopeType (scope_type (cap_scope cap))) caps)"

text \<open>
  Remark (roundtrip). A token issued with the private key of its \<open>did:key\<close> issuer verifies, from its
  issuing to its expiry: the payload rebuilt by the verifier is the one that was signed. The
  capabilities are of the 0.1.0 kinds, the token satisfies the schema, and the base64url signature
  does not read as hex.
\<close>

theorem issue_verify_roundtrip:
  assumes laws: "ed25519_laws pf"
    and issue: "issueCapabilityToken pf params issued uuid = Inr t"
    and key: "assertPrivateKey (ip_privateKey params) = Inr kb"
      "ip_issuerDid params = publicKeyToDidKey (ed_public pf (take 32 kb))"
    and schema: "schema_ok pf t" and sig: "\<not> HEX_PATTERN (proof_value (token_proof t))"
    and time: "\<not> date_gt issued now" "\<not> isTimestampExpired (ip_expiresAt params) now"
    and scopes: "phase2_free (ip_capabilities params)"
  shows "verifyCapabilityToken pf t now None = Inr None"
proof -
  define p where "p = \<lparr>token_id = ''urn:cap:'' @ uuid, specVersion = ''0.1.0'', issuerDid = ip_issuerDid params,
         principalDid = ip_issuerDid params, issuedTo = ip_issuedTo params, issuedAt = issued,
         expiresAt = ip_expiresAt params, capabilities = ip_capabilities params,
         revocationUrl = ip_revocationUrl params, token_proof = no_proof, delegationChain = None\<rparr>"
  have "sign_token pf p (ip_privateKey params) issued (ip_issuerDid params) = Inr t" "isDidKey (ip_issuerDid params)"
    using issue by (auto simp: issueCapabilityToken_def p_def split: if_splits)
  then obtain v where v: "sign pf (createCapabilityTokenPayload pf p) (ip_privateKey params) EncBase64Url = Inr v"
    and t: "t = p\<lparr>token_proof := \<lparr>created = issued, verificationMethod = ip_issuerDid params @ ''#key-1'', proof_value = v\<rparr>\<rparr>"
    using sign_token_fields by blast
  have len: "length (ed_public pf (take 32 kb)) = 32"
    using laws key(1) by (auto simp: ed25519_laws_def assertPrivateKey_def split: sum.splits if_splits)
  have gates: "token_gates pf t now None = None"
    using schema time scopes \<open>isDidKey (ip_issuerDid params)\<close>
    by (auto simp: token_gates_def t p_def parse_vm did_key_no_hash did_key_not_agent chain_of_def phase2_free_def
        isPhase2ScopeType_def list_ex_iff)
  have "verify pf (createCapabilityTokenPayload pf t) v (toHex (ed_public pf (take 32 kb))) = Inr True"
    using sign_verify[OF laws key(1) v] sig by (simp add: t)
  moreover have "extractPublicKeyFromDIDKey (issuerDid t) = Inr (toHex (ed_public pf (take 32 kb)))"
    using did_key_of_public(2)[OF len] key(2) by (simp add: t p_def)
  moreover have "proof_value (token_proof t) = v"
    by (simp add: t)
  ultimately show ?thesis
    by (simp add: verifyCapabilityToken_def gates lift_sig_def)
qed

theorem issue_verify_roundtrip_witness:
  "verifyCapabilityToken demo_platform (demo_token (host_cap [''a''] 5)) ''2026-06-01T00:00:00.000Z'' None = Inr None"
proof -
  have "host_cap [''a''] 5 \<noteq> []" by (simp add: host_cap_def)
  note d = demo_issued[OF this]
  have "\<not> date_gt ''2026-01-01T00:00:00.000Z'' ''2026-06-01T00:00:00.000Z''"
    "\<not> isTimestampExpired (ip_expiresAt (demo_issue (host_cap [''a''] 5))) ''2026-06-01T00:00:00.000Z''"
    "phase2_free (ip_capabilities (demo_issue (host_cap [''a''] 5)))"
    by (code_simp, simp add: demo_issue_def, code_simp, simp add: demo_issue_def, code_simp)
  from issue_verify_roundtrip[OF demo_laws d(1) _ _ _ _ this, of "replicate 32 1"] show ?thesis
    using demo_key demo_sig_not_hex by (simp add: d(2) demo_issue_def demo_platform_def)
qed

text \<open>
  Remark (error). \<open>issueCapabilityToken\<close> always writes specVersion 0.1.0. When a capability has a
  temporal or cumulative scope the token it issues is rejected by the verifier at every instant
  and with every key: it is dead on arrival.
\<close>

theorem issued_phase2_token_rejected:
  assumes "issueCapabilityToken pf params issued uuid = Inr t" "\<not> phase2_free (ip_capabilities params)"
  shows "verifyCapabilityToken pf t now keys \<noteq> Inr None"
proof -
  have "specVersion t = ''0.1.0''" "capabilities t = ip_capabilities params"
    using assms(1) by (auto simp: issueCapabilityToken_def dest!: sign_token_fields split: if_splits)
  then have "token_gates pf t now keys \<noteq> None"
    using assms(2) by (simp add: token_gates_def phase2_free_def isPhase2ScopeType_def list_ex_iff)
  then show ?thesis
    by (auto simp: verifyCapabilityToken_def)
qed

theorem issued_phase2_token_rejected_witness:
  "verifyCapabilityToken demo_platform
     (demo_token (temporal_caps ''2026-12-31T00:00:00.000Z'' ''09:00'' ''17:00'')) ''2026-06-01T00:00:00.000Z'' None \<noteq> Inr None"
proof -
  have "temporal_caps ''2026-12-31T00:00:00.000Z'' ''09:00'' ''17:00'' \<noteq> []"
    "\<not> phase2_free (temporal_caps ''2026-12-31T00:00:00.000Z'' ''09:00'' ''17:00'')"
    by code_simp+
  then show ?thesis
    by (intro issued_phase2_token_rejected[OF demo_issued(1)]) (simp_all add: demo_issue_def)
qed

text \<open>
  Remark (safety). Delegating succeeds only with a child that is an accepted attenuation, expires no
  later than its parent in the string order, keeps issuer and principal, and extends the parent's
  chain by one proof within the depth limit.
\<close>

theorem delegate_child_shape:
  assumes "delegateCapabilityToken pf params issued uuid = Inr t"
  shows "validateAttenuation (capabilities (parentToken params)) (capabilities t)
      (Some (specVersion (parentToken params), ''0.2.0'')) = AttOk \<and>
    str_le (expiresAt t) (expiresAt (parentToken params)) \<and>
    issuerDid t = issuerDid (parentToken params) \<and> principalDid t = principalDid (parentToken params) \<and>
    isDidAgent (issuedTo t) \<and> specVersion t = ''0.2.0'' \<and>
    (\<exists>p. chain_of t = chain_of (parentToken params) @ [p] \<and> delegatorDid p = issuedTo (parentToken params) \<and>
       delegateeDid p = issuedTo t \<and> parentTokenId p = token_id (parentToken params) \<and>
       parentCapabilities p = capabilities (parentToken params) \<and> attenuatedCapabilities p = capabilities t) \<and>
    length (chain_of t) \<le> MAX_DELEGATION_DEPTH"
proof -
  have g: "delegate_guard pf params issued = None"
    using assms by (auto simp: delegateCapabilityToken_def split: option.splits)
  obtain v w where t: "t = \<lparr>token_id = ''urn:cap:'' @ uuid, specVersion = ''0.2.0'', issuerDid = issuerDid (parentToken params),
                  principalDid = principalDid (parentToken params), issuedTo = dg_delegateeDid params, issuedAt = issued,
                  expiresAt = dg_expiresAt params, capabilities = dg_capabilities params,
                  revocationUrl = dg_revocationUrl params, token_proof = w,
                  delegationChain = Some (chain_of (parentToken params) @
                    [(delegation_proof_of params)\<lparr>dp_proof := v\<rparr>])\<rparr>"
    using assms g by (auto simp: delegateCapabilityToken_def Let_def chain_of_def dest!: sign_token_fields split: sum.splits)
  show ?thesis
    using g unfolding t
    by (auto simp: delegate_guard_def Let_def str_le_def chain_of_def delegation_proof_of_def
        split: if_splits attenuation_result.splits option.splits)
qed

definition demo_delegate :: delegate_params where
  "demo_delegate = \<lparr>parentToken = demo_token (host_cap [''a'', ''b''] 50), delegatorPrivateKey = toHex (replicate 32 1),
     dg_delegateeDid = demo_agent 3, dg_capabilities = host_cap [''a''] 10, dg_expiresAt = ''2026-06-30T00:00:00.000Z'',
     dg_revocationUrl = ''https://host/{id}'', dg_dcVersion = None\<rparr>"

definition demo_child :: capability_token where
  "demo_child = (case delegateCapabilityToken demo_platform demo_delegate ''2026-02-01T00:00:00.000Z'' ''u2'' of Inr t \<Rightarrow> t)"

lemma demo_parent:
  "capabilities (parentToken demo_delegate) = host_cap [''a'', ''b''] 50"
  "delegationChain (parentToken demo_delegate) = None"
  "expiresAt (parentToken demo_delegate) = ''2026-12-31T00:00:00.000Z''" "specVersion (parentToken demo_delegate) = ''0.1.0''"
  "issuedTo (parentToken demo_delegate) = demo_agent 2" "token_id (parentToken demo_delegate) = ''urn:cap:u1''"
  "issuerDid (parentToken demo_delegate) = publicKeyToDidKey (replicate 32 1)"
  "principalDid (parentToken demo_delegate) = publicKeyToDidKey (replicate 32 1)"
  using demo_issued[of "host_cap [''a'', ''b''] 50"] by (simp_all add: demo_delegate_def host_cap_def)

lemma demo_guard: "delegate_guard demo_platform demo_delegate ''2026-02-01T00:00:00.000Z'' = None"
proof -
  have "\<not> isTimestampExpired ''2026-06-30T00:00:00.000Z'' ''2026-02-01T00:00:00.000Z''"
    "\<not> str_lt ''2026-12-31T00:00:00.000Z'' ''2026-06-30T00:00:00.000Z''"
    "isValidRevocationUrlTemplate demo_platform ''https://host/{id}''"
    "validateAttenuation (host_cap [''a'', ''b''] 50) (host_cap [''a''] 10) (Some (''0.1.0'', ''0.2.0'')) = AttOk"
    "host_cap [''a''] 10 \<noteq> []"
    by code_simp+
  then show ?thesis
    unfolding delegate_guard_def demo_parent Let_def
    by (simp add: demo_delegate_def demo_agent_ok MAX_DELEGATION_DEPTH_def)
qed

lemma demo_delegated:
  "delegateCapabilityToken demo_platform demo_delegate ''2026-02-01T00:00:00.000Z'' ''u2'' = Inr demo_child"
proof -
  have key: "delegatorPrivateKey demo_delegate = toHex (replicate 32 1)"
    by (simp add: demo_delegate_def)
  show ?thesis
    unfolding demo_child_def
    by (simp add: delegateCapabilityToken_def demo_guard Let_def key demo_sign IDENTITY_ENCODING_def sign_token_def)
qed

theorem delegate_child_shape_witness:
  "length (chain_of demo_child) = 1 \<and> issuedTo demo_child = demo_agent 3 \<and>
   str_le (expiresAt demo_child) ''2026-12-31T00:00:00.000Z''"
proof -
  have "dg_delegateeDid demo_delegate = demo_agent 3" "delegatorPrivateKey demo_delegate = toHex (replicate 32 1)"
    by (simp_all add: demo_delegate_def)
  then have "issuedTo demo_child = demo_agent 3"
    by (simp add: demo_child_def delegateCapabilityToken_def demo_guard Let_def demo_sign IDENTITY_ENCODING_def sign_token_def)
  moreover have "chain_of (parentToken demo_delegate) = []"
    by (simp add: chain_of_def demo_parent)
  ultimately show ?thesis
    using delegate_child_shape[OF demo_delegated] by (auto simp: demo_parent)
qed

text \<open>
  Remark (safety). During key rotation the old key is accepted for nothing signed after the cutoff: a
  token that verifies against resolved keys is signed by the current key, or by the previous one
  while the state is ROTATING and \<open>issuedAt\<close> is at or before the cutoff.
\<close>

theorem rotation_cutoff:
  assumes "verifyCapabilityToken pf t now (Some keys) = Inr None"
  shows "verify pf (createCapabilityTokenPayload pf t) (proof_value (token_proof t)) (current keys) = Inr True \<or>
    (\<exists>prev cutoff. rotationState keys = ROTATING \<and> previous keys = Some prev \<and> previousValidBefore keys = Some cutoff \<and>
       date_le (issuedAt t) cutoff \<and>
       verify pf (createCapabilityTokenPayload pf t) (proof_value (token_proof t)) prev = Inr True)"
  using assms
  by (auto simp: verifyCapabilityToken_def verify_rotating_def lift_sig_def Let_def
      split: option.splits sum.splits bool.splits rotation_state.splits if_splits)

text \<open>The old key signs a token issued before the cutoff; the current key is another one.\<close>

theorem rotation_cutoff_witness:
  "let t = demo_token (host_cap [''a''] 5);
       keys = \<lparr>current = toHex (replicate 32 2), previous = Some (toHex (replicate 32 1)),
               previousValidBefore = Some ''2026-01-15T00:00:00.000Z'', rotationState = ROTATING\<rparr>
   in verifyCapabilityToken demo_platform t ''2026-06-01T00:00:00.000Z'' (Some keys) = Inr None \<and>
      date_le (issuedAt t) ''2026-01-15T00:00:00.000Z''"
proof -
  let ?t = "demo_token (host_cap [''a''] 5)"
  let ?keys = "\<lparr>current = toHex (replicate 32 2), previous = Some (toHex (replicate 32 1)),
               previousValidBefore = Some ''2026-01-15T00:00:00.000Z'', rotationState = ROTATING\<rparr>"
  have ne: "host_cap [''a''] 5 \<noteq> []" and ph: "phase2_free (host_cap [''a''] 5)"
    by code_simp+
  note d = demo_issued[OF ne]
  have tm: "\<not> date_gt ''2026-01-01T00:00:00.000Z'' ''2026-06-01T00:00:00.000Z''"
    "\<not> isTimestampExpired ''2026-12-31T00:00:00.000Z'' ''2026-06-01T00:00:00.000Z''"
    "date_le ''2026-01-01T00:00:00.000Z'' ''2026-01-15T00:00:00.000Z''"
    by code_simp+
  have gates: "token_gates demo_platform ?t ''2026-06-01T00:00:00.000Z'' (Some ?keys) = None"
    using ph by (simp add: token_gates_def d demo_issuer tm chain_of_def demo_platform_def phase2_free_def isPhase2ScopeType_def list_ex_iff)
  have v: "verifyCapabilityToken demo_platform ?t ''2026-06-01T00:00:00.000Z'' (Some ?keys) = Inr None"
    by (simp add: verifyCapabilityToken_def gates verify_rotating_def Let_def d demo_verify tm lift_sig_def)
  from rotation_cutoff[OF v] have "date_le (issuedAt ?t) ''2026-01-15T00:00:00.000Z''"
    by (simp add: d demo_verify)
  with v show ?thesis by (simp add: Let_def)
qed

text \<open>
  Remark (refinement). The lightweight \<open>checkTokenForAction\<close> is never laxer than the runtime
  evaluator: what it allows, the evaluator grants, when no parameter is \<open>NaN\<close>.
\<close>

theorem light_check_implies_grants:
  assumes "checkTokenForAction t act params agentDid = None" "evaluator_reach intl trk ev"
    and "\<forall>f. get_prop params f \<noteq> JNum NaN"
    and "\<forall>c \<in> set (capabilities t). scope_sane (cap_scope c)"
  shows "grants ev st (capabilities t) (act, params, now)"
proof -
  have m: "scopes_for act (capabilities t) \<noteq> []"
    and cs: "\<And>s. s \<in> set (scopes_for act (capabilities t)) \<Longrightarrow> check_capability_scope params s = None"
    using assms(1) by (auto simp: checkTokenForAction_def Let_def scopes_for_def first_some_None split: if_splits)
  have "fst (evaluate ev s params now st) = Inr Allowed" if s: "s \<in> set (scopes_for act (capabilities t))" for s
  proof (cases s)
    case (Allowlist a)
    then show ?thesis
      using cs[OF s] by (auto simp: evaluate_built_in[OF assms(2)] evaluateAllowlist_iff allowlist_permits_def
          check_capability_scope_def split: jsval.splits if_splits)
  next
    case (NumericLimit n)
    moreover have "scope_sane s"
      using assms(4) s by (auto simp: scopes_for_def)
    then have "nl_max n \<noteq> NaN"
      using NumericLimit by (simp add: scope_sane_def)
    moreover have "x \<noteq> NaN" if "get_prop params (nl_field n) = JNum x" for x
      using that assms(3) by metis
    ultimately show ?thesis
      using cs[OF s] num_not_lt_le[of "nl_max n"]
      by (auto simp: evaluate_built_in[OF assms(2)] evaluateNumericLimit_iff numeric_permits_def
          check_capability_scope_def split: jsval.splits if_splits)
  qed (use cs[OF s] in \<open>auto simp: check_capability_scope_def\<close>)
  with m show ?thesis
    by (simp add: grants_def list_all_iff)
qed

theorem light_check_implies_grants_witness:
  "grants (new_ScopeEvaluator (\<lambda>z. None) None [] :: unit scope_evaluator) ()
     (capabilities (demo_token (host_cap [''a''] 5))) (''QUOTE'', [(''host'', JStr ''a''), (''amount'', JNum (Fin 5))], 0)"
proof -
  have ne: "host_cap [''a''] 5 \<noteq> []" by code_simp
  note d = demo_issued[OF ne]
  have c: "checkTokenForAction (demo_token (host_cap [''a''] 5)) ''QUOTE'' [(''host'', JStr ''a''), (''amount'', JNum (Fin 5))] (demo_agent 2) = None"
    unfolding checkTokenForAction_def d by code_simp
  have "\<forall>c \<in> set (capabilities (demo_token (host_cap [''a''] 5))). scope_sane (cap_scope c)"
    unfolding d by code_simp
  with c show ?thesis
    by (intro light_check_implies_grants[OF c evaluator_reach.fresh]) (simp_all add: get_prop_def split: option.splits)
qed

text \<open>Remark (error). A \<open>NaN\<close> amount passes \<open>checkTokenForAction\<close> under any numeric limit.\<close>

theorem light_check_admits_nan:
  "check_capability_scope [(''amount'', JNum NaN)] (NumericLimit \<lparr>nl_field = ''amount'', nl_max = Fin m, nl_currency = None\<rparr>) = None \<and>
   evaluateNumericLimit ''amount'' (Fin m) [(''amount'', JNum NaN)] = Denied (NotANumber ''amount'')"
  by (simp add: check_capability_scope_def get_prop_def evaluateNumericLimit_def)

text \<open>
  Remark (error). The identity layer writes base64url signatures and reads them by guessing the
  encoding: a 64-byte signature whose text happens to be all hex digits is read as 43 other bytes.
\<close>

theorem base64url_signature_misread:
  "assertSignature (toBase64Url (replicate 64 0)) = Inl INVALID_SIGNATURE_FORMAT"
  by code_simp

end
