(* ===== verification/Delegation_Chain.thy ===== *)
theory Delegation_Chain
  imports Capability_Token
begin

text \<open>
  \<open>identity/src/delegation-validator.ts\<close>: the fail-closed validation of a token's delegation
  chain, and the asynchronous entry \<open>verifyCapabilityTokenWithChain\<close> of \<open>token-verifier.ts\<close>.

  The ports are functions: \<open>resolvePublicKeys\<close> gives the keys of a DID or nothing,
  \<open>resolveToken\<close> a parent token by id, \<open>isRevoked\<close> the revocation list; the last two are optional,
  as in the source. An exception is \<open>Inl\<close>; \<open>Inr None\<close> is a valid chain and \<open>Inr (Some f)\<close> the
  rejection with its reason, index and detail. Timestamps are compared as strings where the source
  does so. Awaits are sequential.
\<close>

subsection \<open>Results\<close>

datatype dc_code =
  DC_DEPTH_EXCEEDED | DC_ATTENUATION_VIOLATED | DC_DELEGATION_CHAIN_INVALID | DC_SIGNATURE_INVALID
| DC_PARENT_TOKEN_REVOKED | DC_PARENT_TOKEN_NOT_FOUND | DC_PARENT_TOKEN_EXPIRED | DC_EXPIRY_EXCEEDED
| DC_DELEGATOR_MISMATCH | DC_CYCLE_DETECTED | DC_ROOT_NOT_PRINCIPAL | DC_INVALID_TOKEN_FORMAT
| DC_ROTATION_NOT_SUPPORTED

record dc_failure =
  reason :: dc_code
  brokenAtIndex :: "nat option"
  revokedTokenId :: "token_id option"
  detail :: "attenuation_detail option"

type_synonym dc_check = "thrown + dc_failure option"

definition dc_fail :: "dc_code \<Rightarrow> nat option \<Rightarrow> dc_failure" where
  "dc_fail c i = \<lparr>reason = c, brokenAtIndex = i, revokedTokenId = None, detail = None\<rparr>"

definition dc_fail_detail :: "dc_code \<Rightarrow> nat option \<Rightarrow> attenuation_detail \<Rightarrow> dc_failure" where
  "dc_fail_detail c i d = \<lparr>reason = c, brokenAtIndex = i, revokedTokenId = None, detail = Some d\<rparr>"

text \<open>One check after another: the first exception or failure ends the function.\<close>

definition then_check :: "dc_check \<Rightarrow> dc_check \<Rightarrow> dc_check" where
  "then_check a b = (case a of Inl e \<Rightarrow> Inl e | Inr (Some f) \<Rightarrow> Inr (Some f) | Inr None \<Rightarrow> b)"

definition require :: "bool \<Rightarrow> dc_failure \<Rightarrow> dc_check" where
  "require ok f = Inr (if ok then None else Some f)"

lemma then_check_None [simp]: "then_check a b = Inr None \<longleftrightarrow> a = Inr None \<and> b = Inr None"
  by (auto simp: then_check_def split: sum.splits option.splits)

lemma require_None [simp]: "require ok f = Inr None \<longleftrightarrow> ok"
  by (simp add: require_def)

subsection \<open>Comparing capability lists\<close>

fun str_insort :: "string \<Rightarrow> string list \<Rightarrow> string list" where
  "str_insort s [] = [s]"
| "str_insort s (t # ts) = (if str_le s t then s # t # ts else t # str_insort s ts)"

definition str_sort :: "string list \<Rightarrow> string list" where
  "str_sort ss = foldr str_insort ss []"

definition capabilitiesEqual :: "platform \<Rightarrow> capability list \<Rightarrow> capability list \<Rightarrow> bool" where
  "capabilitiesEqual pf a b =
     (length a = length b \<and>
      str_sort (map (\<lambda>c. jcs pf (CapabilityJson c)) a) = str_sort (map (\<lambda>c. jcs pf (CapabilityJson c)) b))"

subsection \<open>Signatures with two keys\<close>

text \<open>
  Current key first; on failure the previous one, when both it and its cutoff are present and the
  signing time is at or before the cutoff in the string order.
\<close>

definition dual_key_verify ::
  "platform \<Rightarrow> string \<Rightarrow> string \<Rightarrow> resolved_keys \<Rightarrow> timestamp \<Rightarrow> crypto_error + bool" where
  "dual_key_verify pf payload sig keys signedAt =
     (case verify pf payload sig (current keys) of
        Inl e \<Rightarrow> Inl e
      | Inr True \<Rightarrow> Inr True
      | Inr False \<Rightarrow>
          (case (previous keys, previousValidBefore keys) of
             (Some prev, Some cutoff) \<Rightarrow> (if str_le signedAt cutoff then verify pf payload sig prev else Inr False)
           | _ \<Rightarrow> Inr False))"

definition signature_check :: "crypto_error + bool \<Rightarrow> dc_failure \<Rightarrow> dc_check" where
  "signature_check r f = (case r of Inl e \<Rightarrow> Inl (CryptoThrown e) | Inr ok \<Rightarrow> require ok f)"

lemma signature_check_None [simp]: "signature_check r f = Inr None \<longleftrightarrow> r = Inr True"
  by (auto simp: signature_check_def split: sum.splits)

subsection \<open>The ports\<close>

record dc_ports =
  resolvePublicKeys :: "did \<Rightarrow> resolved_keys option"
  isRevoked :: "(token_id \<Rightarrow> bool) option"
  resolveToken :: "(token_id \<Rightarrow> capability_token option) option"

definition keyMap :: "dc_ports \<Rightarrow> delegation_proof list \<Rightarrow> (did, resolved_keys option) js_map" where
  "keyMap ports chain = map (\<lambda>d. (d, resolvePublicKeys ports d)) (remdups (map delegatorDid chain))"

definition key_of :: "(did, resolved_keys option) js_map \<Rightarrow> did \<Rightarrow> resolved_keys option" where
  "key_of km d = (case jm_get km d of None \<Rightarrow> None | Some r \<Rightarrow> r)"

subsection \<open>Gates\<close>

fun has_cycle :: "did list \<Rightarrow> delegation_proof list \<Rightarrow> bool" where
  "has_cycle seenDids [] = False"
| "has_cycle seenDids (p # ps) =
     (if delegateeDid p \<in> set seenDids then True else has_cycle (delegateeDid p # seenDids) ps)"

definition chain_gates :: "platform \<Rightarrow> dc_ports \<Rightarrow> capability_token \<Rightarrow> delegation_proof list \<Rightarrow> dc_check" where
  "chain_gates pf ports token chain =
     then_check (require (schema_ok pf token) (dc_fail DC_INVALID_TOKEN_FORMAT None))
     (then_check (require (specVersion token \<noteq> ''0.1.0'') (dc_fail DC_INVALID_TOKEN_FORMAT None))
     (then_check (require (resolveToken ports \<noteq> None) (dc_fail DC_INVALID_TOKEN_FORMAT None))
     (then_check (require (isRevoked ports \<noteq> None) (dc_fail DC_INVALID_TOKEN_FORMAT None))
     (then_check (require (length chain \<le> MAX_DELEGATION_DEPTH) (dc_fail DC_DEPTH_EXCEEDED None))
        (require (\<not> has_cycle (case chain of [] \<Rightarrow> [] | p # _ \<Rightarrow> [delegatorDid p]) chain)
          (dc_fail DC_CYCLE_DETECTED None))))))"

subsection \<open>One hop\<close>

definition hop_signature ::
  "platform \<Rightarrow> (did, resolved_keys option) js_map \<Rightarrow> nat \<Rightarrow> delegation_proof \<Rightarrow> dc_check" where
  "hop_signature pf km i p =
     (case key_of km (delegatorDid p) of
        None \<Rightarrow> Inr (Some (dc_fail DC_SIGNATURE_INVALID (Some i)))
      | Some keys \<Rightarrow>
          signature_check (dual_key_verify pf (proof_payload pf p) (proof_value (dp_proof p)) keys (created (dp_proof p)))
            (dc_fail DC_SIGNATURE_INVALID (Some i)))"

definition hop_parent_binding ::
  "platform \<Rightarrow> capability_token \<Rightarrow> nat \<Rightarrow> delegation_proof \<Rightarrow> capability_token \<Rightarrow> dc_check" where
  "hop_parent_binding pf token i p parent =
     then_check (require (delegatorDid p = issuedTo parent) (dc_fail DC_DELEGATOR_MISMATCH (Some i)))
     (then_check (require (issuerDid parent = issuerDid token \<and> principalDid parent = principalDid token)
        (dc_fail DC_ROOT_NOT_PRINCIPAL (Some i)))
     (then_check (require (capabilitiesEqual pf (parentCapabilities p) (capabilities parent))
        (dc_fail_detail DC_DELEGATION_CHAIN_INVALID (Some i) (CapabilitiesMismatch AtParentCapabilities)))
     (then_check (require (parentExpiresAt p = expiresAt parent)
        (dc_fail_detail DC_DELEGATION_CHAIN_INVALID (Some i) (CapabilitiesMismatch AtParentCapabilities)))
        (require (token_id parent = parentTokenId p)
          (dc_fail_detail DC_DELEGATION_CHAIN_INVALID (Some i) (CapabilitiesMismatch AtParentCapabilities))))))"

text \<open>The parent's own signature: the root by the verifier, an intermediate one by the delegator before.\<close>

definition hop_parent_signature ::
  "platform \<Rightarrow> (did, resolved_keys option) js_map \<Rightarrow> timestamp \<Rightarrow> nat \<Rightarrow> delegation_proof option \<Rightarrow> capability_token \<Rightarrow> dc_check" where
  "hop_parent_signature pf km now i prev parent =
     (case prev of
        None \<Rightarrow>
          (if chain_of parent \<noteq> [] then Inr (Some (dc_fail DC_ROOT_NOT_PRINCIPAL (Some 0)))
           else case verifyCapabilityToken pf parent now None of
                  Inl e \<Rightarrow> Inl e
                | Inr r \<Rightarrow> require (r = None) (dc_fail DC_SIGNATURE_INVALID (Some 0)))
      | Some prevProof \<Rightarrow>
          (case key_of km (delegatorDid prevProof) of
             None \<Rightarrow> Inr (Some (dc_fail DC_SIGNATURE_INVALID (Some i)))
           | Some keys \<Rightarrow>
               signature_check
                 (dual_key_verify pf (createCapabilityTokenPayload pf parent) (proof_value (token_proof parent)) keys (issuedAt parent))
                 (dc_fail DC_SIGNATURE_INVALID (Some i))))"

definition hop_attenuation :: "capability_token \<Rightarrow> nat \<Rightarrow> delegation_proof \<Rightarrow> capability_token \<Rightarrow> dc_check" where
  "hop_attenuation token i p parent =
     (case validateAttenuation (parentCapabilities p) (attenuatedCapabilities p) (Some (specVersion parent, specVersion token)) of
        AttOk \<Rightarrow> Inr None
      | AttFail _ d \<Rightarrow> Inr (Some (dc_fail_detail DC_ATTENUATION_VIOLATED (Some i) d)))"

definition hop_tail ::
  "platform \<Rightarrow> dc_ports \<Rightarrow> capability_token \<Rightarrow> timestamp \<Rightarrow> nat \<Rightarrow> delegation_proof option \<Rightarrow> delegation_proof \<Rightarrow> delegation_proof list \<Rightarrow> dc_check" where
  "hop_tail pf ports token now i prev p rest =
     then_check (case rest of
         [] \<Rightarrow> Inr None
       | nextProof # _ \<Rightarrow> require (capabilitiesEqual pf (attenuatedCapabilities p) (parentCapabilities nextProof))
           (dc_fail_detail DC_DELEGATION_CHAIN_INVALID (Some (i + 1)) (CapabilitiesMismatch AtContinuity)))
     (then_check (case isRevoked ports of
         None \<Rightarrow> Inr None
       | Some revoked \<Rightarrow> require (\<not> revoked (parentTokenId p))
           \<lparr>reason = DC_PARENT_TOKEN_REVOKED, brokenAtIndex = Some i, revokedTokenId = Some (parentTokenId p), detail = None\<rparr>)
     (then_check (require (\<not> str_lt (parentExpiresAt p) (expiresAt token)) (dc_fail DC_EXPIRY_EXCEEDED (Some i)))
     (then_check (require (\<not> str_le (parentExpiresAt p) now) (dc_fail DC_EXPIRY_EXCEEDED (Some i)))
        (case prev of
           None \<Rightarrow> Inr None
         | Some prevProof \<Rightarrow> require (delegatorDid p = delegateeDid prevProof) (dc_fail DC_DELEGATOR_MISMATCH (Some i))))))"

fun check_hops ::
  "platform \<Rightarrow> dc_ports \<Rightarrow> (did, resolved_keys option) js_map \<Rightarrow> capability_token \<Rightarrow> timestamp \<Rightarrow> nat \<Rightarrow> delegation_proof option \<Rightarrow> delegation_proof list \<Rightarrow> dc_check" where
  "check_hops pf ports km token now i prev [] = Inr None"
| "check_hops pf ports km token now i prev (p # rest) =
     then_check (hop_signature pf km i p)
     (case (case resolveToken ports of None \<Rightarrow> None | Some f \<Rightarrow> f (parentTokenId p)) of
        None \<Rightarrow> Inr (Some (dc_fail DC_PARENT_TOKEN_NOT_FOUND (Some i)))
      | Some parent \<Rightarrow>
          then_check (hop_parent_binding pf token i p parent)
          (then_check (hop_parent_signature pf km now i prev parent)
          (then_check (hop_attenuation token i p parent)
          (then_check (hop_tail pf ports token now i prev p rest)
             (check_hops pf ports km token now (i + 1) (Some p) rest)))))"

subsection \<open>The leaf\<close>

fun check_signers :: "nat \<Rightarrow> delegation_proof list \<Rightarrow> dc_check" where
  "check_signers k [] = Inr None"
| "check_signers k (p # ps) =
     then_check (require (parseDidFromVerificationMethod (verificationMethod (dp_proof p)) = delegatorDid p)
        (dc_fail DC_SIGNATURE_INVALID (Some k)))
     (check_signers (k + 1) ps)"

definition leaf_checks ::
  "platform \<Rightarrow> (did, resolved_keys option) js_map \<Rightarrow> capability_token \<Rightarrow> delegation_proof list \<Rightarrow> dc_check" where
  "leaf_checks pf km token chain =
     (let lastProof = last chain; n = length chain - 1 in
      then_check (require (issuerDid token = principalDid token) (dc_fail DC_ROOT_NOT_PRINCIPAL None))
      (then_check (require (delegateeDid lastProof = issuedTo token) (dc_fail DC_DELEGATOR_MISMATCH None))
      (then_check (require (capabilitiesEqual pf (capabilities token) (attenuatedCapabilities lastProof))
         (dc_fail_detail DC_DELEGATION_CHAIN_INVALID None (CapabilitiesMismatch AtLeaf)))
      (then_check (require (parseDidFromVerificationMethod (verificationMethod (token_proof token)) = delegatorDid lastProof)
         (dc_fail DC_SIGNATURE_INVALID (Some n)))
      (then_check (check_signers 0 chain)
        (case key_of km (delegatorDid lastProof) of
           None \<Rightarrow> Inr (Some (dc_fail DC_SIGNATURE_INVALID (Some n)))
         | Some keys \<Rightarrow>
             signature_check
               (dual_key_verify pf (createCapabilityTokenPayload pf token) (proof_value (token_proof token)) keys (issuedAt token))
               (dc_fail DC_SIGNATURE_INVALID (Some n))))))))"

definition validateDelegationChain ::
  "platform \<Rightarrow> dc_ports \<Rightarrow> capability_token \<Rightarrow> timestamp \<Rightarrow> nat \<times> dc_check" where
  "validateDelegationChain pf ports token now =
     (let chain = chain_of token; km = keyMap ports chain in
      (length chain,
       if chain = [] then Inr None
       else then_check (chain_gates pf ports token chain)
            (then_check (check_hops pf ports km token now 0 None chain)
               (leaf_checks pf km token chain))))"

definition resolveDcVersion :: "delegation_proof \<Rightarrow> capability_token \<Rightarrow> string" where
  "resolveDcVersion p token = (case dcVersion p of None \<Rightarrow> specVersion token | Some v \<Rightarrow> v)"

subsection \<open>The asynchronous verifier\<close>

definition top_level_signature :: "platform \<Rightarrow> dc_ports \<Rightarrow> capability_token \<Rightarrow> token_check" where
  "top_level_signature pf ports token =
     (let signerDid = parseDidFromVerificationMethod (verificationMethod (token_proof token));
          payload = createCapabilityTokenPayload pf token; sig = proof_value (token_proof token)
      in if isDidKey signerDid then
           (case extractPublicKeyFromDIDKey signerDid of
              Inl e \<Rightarrow> Inl (DidThrown e)
            | Inr pk \<Rightarrow> if pk = [] then Inr (Some SIGNATURE_INVALID) else lift_sig (verify pf payload sig pk))
         else if isDidAgent signerDid then
           (case resolvePublicKeys ports signerDid of
              None \<Rightarrow> Inr (Some SIGNATURE_INVALID)
            | Some keys \<Rightarrow>
                (if current keys = [] then Inr (Some SIGNATURE_INVALID)
                 else case verify pf payload sig (current keys) of
                        Inl e \<Rightarrow> Inl (CryptoThrown e)
                      | Inr True \<Rightarrow> Inr None
                      | Inr False \<Rightarrow>
                          (case (previous keys, previousValidBefore keys) of
                             (Some prev, Some cutoff) \<Rightarrow>
                               (if date_le (issuedAt token) cutoff then lift_sig (verify pf payload sig prev)
                                else Inr (Some SIGNATURE_INVALID))
                           | _ \<Rightarrow> Inr (Some SIGNATURE_INVALID))))
         else Inr (Some SIGNATURE_INVALID))"

definition verifyCapabilityTokenWithChain :: "platform \<Rightarrow> dc_ports \<Rightarrow> capability_token \<Rightarrow> timestamp \<Rightarrow> token_check" where
  "verifyCapabilityTokenWithChain pf ports token now =
     (if chain_of token = [] then verifyCapabilityToken pf token now None
      else if \<not> schema_ok pf token then Inr (Some INVALID_TOKEN_FORMAT)
      else if date_gt (issuedAt token) now then Inr (Some INVALID_TOKEN_FORMAT)
      else if isTimestampExpired (expiresAt token) now then Inr (Some TOKEN_EXPIRED)
      else if specVersion token = ''0.1.0'' then Inr (Some INVALID_TOKEN_FORMAT)
      else case snd (validateDelegationChain pf ports token now) of
             Inl e \<Rightarrow> Inl e
           | Inr (Some f) \<Rightarrow>
               Inr (Some (if reason f = DC_SIGNATURE_INVALID then SIGNATURE_INVALID else DELEGATION_CHAIN_INVALID))
           | Inr None \<Rightarrow> top_level_signature pf ports token)"

subsection \<open>What each check establishes\<close>

lemma set_str_sort: "set (str_sort ss) = set ss"
proof -
  have "set (str_insort s ts) = insert s (set ts)" for s ts
    by (induction ts) auto
  then show ?thesis by (induction ss) (simp_all add: str_sort_def)
qed

lemma capabilitiesEqual_set:
  assumes "capabilitiesEqual pf a b" "inj_on (\<lambda>c. jcs pf (CapabilityJson c)) (set a \<union> set b)"
  shows "set a = set b"
proof -
  have "set (map (\<lambda>c. jcs pf (CapabilityJson c)) a) = set (map (\<lambda>c. jcs pf (CapabilityJson c)) b)"
    using assms(1) set_str_sort unfolding capabilitiesEqual_def by metis
  then show ?thesis
    using assms(2) by (simp add: inj_on_Un_image_eq_iff)
qed

lemma capabilitiesEqual_refl [simp]: "capabilitiesEqual pf a a"
  by (simp add: capabilitiesEqual_def)

lemma has_cycle_iff:
  "\<not> has_cycle seen ps \<longleftrightarrow> distinct (map delegateeDid ps) \<and> set (map delegateeDid ps) \<inter> set seen = {}"
  by (induction seen ps rule: has_cycle.induct) auto

lemma key_of_keyMap: "d \<in> delegatorDid ` set chain \<Longrightarrow> key_of (keyMap ports chain) d = resolvePublicKeys ports d"
proof -
  have "map_of (map (\<lambda>d. (d, resolvePublicKeys ports d)) ds) d = (if d \<in> set ds then Some (resolvePublicKeys ports d) else None)" for ds
    by (induction ds) auto
  then show "d \<in> delegatorDid ` set chain \<Longrightarrow> ?thesis"
    by (simp add: key_of_def keyMap_def jm_get_def)
qed

definition parent_of :: "dc_ports \<Rightarrow> delegation_proof \<Rightarrow> capability_token option" where
  "parent_of ports p = (case resolveToken ports of None \<Rightarrow> None | Some f \<Rightarrow> f (parentTokenId p))"

text \<open>What a passed hop has established, apart from signatures.\<close>

definition hop_ok :: "platform \<Rightarrow> dc_ports \<Rightarrow> capability_token \<Rightarrow> timestamp \<Rightarrow> delegation_proof \<Rightarrow> bool" where
  "hop_ok pf ports token now p =
     (case parent_of ports p of
        None \<Rightarrow> False
      | Some parent \<Rightarrow>
          delegatorDid p = issuedTo parent \<and> issuerDid parent = issuerDid token \<and> principalDid parent = principalDid token \<and>
          capabilitiesEqual pf (parentCapabilities p) (capabilities parent) \<and>
          parentExpiresAt p = expiresAt parent \<and> token_id parent = parentTokenId p \<and>
          validateAttenuation (parentCapabilities p) (attenuatedCapabilities p) (Some (specVersion parent, specVersion token)) = AttOk \<and>
          (case isRevoked ports of None \<Rightarrow> True | Some revoked \<Rightarrow> \<not> revoked (parentTokenId p)) \<and>
          str_le (expiresAt token) (parentExpiresAt p) \<and> str_lt now (parentExpiresAt p))"

definition linked :: "platform \<Rightarrow> delegation_proof \<Rightarrow> delegation_proof \<Rightarrow> bool" where
  "linked pf p q = (capabilitiesEqual pf (attenuatedCapabilities p) (parentCapabilities q) \<and> delegatorDid q = delegateeDid p)"

lemma hop_ok_facts:
  assumes "hop_ok pf ports token now p"
  shows "\<exists>parent. parent_of ports p = Some parent \<and> issuerDid parent = issuerDid token \<and> principalDid parent = principalDid token \<and>
      capabilitiesEqual pf (parentCapabilities p) (capabilities parent) \<and>
      validateAttenuation (parentCapabilities p) (attenuatedCapabilities p) (Some (specVersion parent, specVersion token)) = AttOk"
    "\<And>revoked. isRevoked ports = Some revoked \<Longrightarrow> \<not> revoked (parentTokenId p)"
    "str_le (expiresAt token) (parentExpiresAt p)" "str_lt now (parentExpiresAt p)"
proof -
  obtain parent where par: "parent_of ports p = Some parent"
    using assms by (cases "parent_of ports p") (simp_all add: hop_ok_def)
  note h = assms[unfolded hop_ok_def par option.case]
  show "\<exists>parent. parent_of ports p = Some parent \<and> issuerDid parent = issuerDid token \<and> principalDid parent = principalDid token \<and>
      capabilitiesEqual pf (parentCapabilities p) (capabilities parent) \<and>
      validateAttenuation (parentCapabilities p) (attenuatedCapabilities p) (Some (specVersion parent, specVersion token)) = AttOk"
    using h par by blast
  show "\<And>revoked. isRevoked ports = Some revoked \<Longrightarrow> \<not> revoked (parentTokenId p)"
    using h by simp
  show "str_le (expiresAt token) (parentExpiresAt p)" "str_lt now (parentExpiresAt p)"
    using h by blast+
qed

lemma hop_attenuation_None:
  "hop_attenuation token i p parent = Inr None \<longleftrightarrow>
   validateAttenuation (parentCapabilities p) (attenuatedCapabilities p) (Some (specVersion parent, specVersion token)) = AttOk"
  by (auto simp: hop_attenuation_def split: attenuation_result.splits)

lemma not_str_le: "\<not> str_le t s \<longleftrightarrow> str_lt s t"
  by (simp add: str_le_def)

lemma check_hops_Cons:
  assumes "check_hops pf ports km token now i prev (p # rest) = Inr None"
  shows "hop_ok pf ports token now p" "\<And>q qs. rest = q # qs \<Longrightarrow> capabilitiesEqual pf (attenuatedCapabilities p) (parentCapabilities q)"
    "\<And>q. prev = Some q \<Longrightarrow> delegatorDid p = delegateeDid q"
    "check_hops pf ports km token now (i + 1) (Some p) rest = Inr None"
    "\<And>parent. parent_of ports p = Some parent \<Longrightarrow> hop_parent_signature pf km now i prev parent = Inr None"
    "hop_signature pf km i p = Inr None"
proof -
  obtain parent where par: "parent_of ports p = Some parent"
    using assms by (auto simp: parent_of_def split: option.splits)
  have c: "hop_parent_binding pf token i p parent = Inr None" "hop_parent_signature pf km now i prev parent = Inr None"
    "hop_attenuation token i p parent = Inr None" "hop_tail pf ports token now i prev p rest = Inr None"
    "check_hops pf ports km token now (i + 1) (Some p) rest = Inr None" "hop_signature pf km i p = Inr None"
    using assms par by (auto simp: parent_of_def[symmetric])
  show "hop_ok pf ports token now p"
    using c(1,3,4) par
    by (auto simp: hop_ok_def hop_parent_binding_def hop_attenuation_None hop_tail_def str_le_def split: option.splits)
  show "check_hops pf ports km token now (i + 1) (Some p) rest = Inr None" "hop_signature pf km i p = Inr None"
    by (fact c)+
  show "\<And>q qs. rest = q # qs \<Longrightarrow> capabilitiesEqual pf (attenuatedCapabilities p) (parentCapabilities q)"
    "\<And>q. prev = Some q \<Longrightarrow> delegatorDid p = delegateeDid q"
    using c(4) by (auto simp: hop_tail_def)
  show "\<And>parent. parent_of ports p = Some parent \<Longrightarrow> hop_parent_signature pf km now i prev parent = Inr None"
    using c(2) par by simp
qed

lemma check_hops_all:
  "check_hops pf ports km token now i prev chain = Inr None \<Longrightarrow> list_all (hop_ok pf ports token now) chain"
  by (induction chain arbitrary: i prev) (auto dest: check_hops_Cons simp del: check_hops.simps(2))

lemma check_hops_linked:
  "check_hops pf ports km token now i prev chain = Inr None \<Longrightarrow> successively (linked pf) chain"
proof (induction chain arbitrary: i prev)
  case (Cons p rest)
  note h = check_hops_Cons[OF Cons.prems]
  show ?case
  proof (cases rest)
    case (Cons q qs)
    then show ?thesis
      using h(2)[OF Cons] check_hops_Cons(3)[of pf ports km token now "i + 1" "Some p" q qs] h(4) Cons.IH[OF h(4)]
      by (simp add: linked_def)
  qed simp
qed simp

lemma valid_chain_parts:
  assumes "snd (validateDelegationChain pf ports token now) = Inr None" "chain_of token \<noteq> []"
  shows "chain_gates pf ports token (chain_of token) = Inr None"
    "check_hops pf ports (keyMap ports (chain_of token)) token now 0 None (chain_of token) = Inr None"
    "leaf_checks pf (keyMap ports (chain_of token)) token (chain_of token) = Inr None"
  using assms by (simp_all add: validateDelegationChain_def Let_def)

lemma did_agent_no_hash: "isDidAgent d \<Longrightarrow> CHR ''#'' \<notin> set d"
proof -
  assume d: "isDidAgent d"
  have "set d = set (take 10 d) \<union> set (drop 10 d)"
    unfolding set_append[symmetric] append_take_drop_id ..
  moreover have "CHR ''#'' \<notin> set (take 10 d)"
    using d by (simp add: isDidAgent_def)
  moreover have "CHR ''#'' \<notin> set (drop 10 d)"
    using d by (auto simp: isDidAgent_def list_all_iff)
  ultimately show ?thesis by blast
qed

subsection \<open>Authority along the chain\<close>

text \<open>
  The links of an accepted chain, from the root token's capabilities to the leaf's: attenuations
  and snapshots of the same set.
\<close>

definition dc_link :: "capability list \<Rightarrow> capability list \<Rightarrow> bool" where
  "dc_link p c = (set p = set c \<or> (\<exists>v. link_ok v p c))"

lemma grants_set_cong: "set caps = set caps' \<Longrightarrow> grants ev st caps r \<longleftrightarrow> grants ev st caps' r"
  by (cases r) (auto simp: grants_def scopes_for_def list_all_iff filter_empty_conv)

interpretation dc: attenuation_order "\<lambda>p c. evaluator_ok intl trk ev \<and> dc_link p c" "grants ev st"
  for intl trk ev st
proof
  fix parent child r
  assume l: "evaluator_ok intl trk ev \<and> dc_link parent child" and g: "grants ev st child r"
  then consider "set parent = set child" | v where "link_ok v parent child"
    by (auto simp: dc_link_def)
  then show "grants ev st parent r"
    using grants_set_cong[of parent child ev st r] grants_sound[of intl trk ev _ parent child st r] l g by cases blast+
qed

fun cap_path :: "delegation_proof list \<Rightarrow> capability list list" where
  "cap_path [] = []"
| "cap_path (p # ps) = parentCapabilities p # attenuatedCapabilities p # cap_path ps"

definition chain_caps :: "capability_token \<Rightarrow> capability_token \<Rightarrow> capability set" where
  "chain_caps root_token token = set (capabilities root_token) \<union> set (capabilities token) \<union>
     (\<Union>p \<in> set (chain_of token). set (parentCapabilities p) \<union> set (attenuatedCapabilities p))"

lemma cap_path_linked:
  assumes "successively (linked pf) chain" "list_all (hop_ok pf ports token now) chain"
    and "\<forall>p \<in> set chain. hazard_free (parentCapabilities p) (attenuatedCapabilities p)"
    and "inj_on (\<lambda>c. jcs pf (CapabilityJson c)) S"
    and "\<forall>p \<in> set chain. set (parentCapabilities p) \<subseteq> S \<and> set (attenuatedCapabilities p) \<subseteq> S"
  shows "successively dc_link (cap_path chain)"
  using assms(1,2,3,5)
proof (induction chain)
  case (Cons p ps)
  have l: "dc_link (parentCapabilities p) (attenuatedCapabilities p)"
    using Cons.prems(2,3) hop_ok_facts(1)[of pf ports token now p] unfolding dc_link_def link_ok_def by auto
  show ?case
  proof (cases ps)
    case (Cons q qs)
    have "capabilitiesEqual pf (attenuatedCapabilities p) (parentCapabilities q)"
      using Cons.prems(1) Cons by (simp add: linked_def)
    then have "set (attenuatedCapabilities p) = set (parentCapabilities q)"
      using Cons.prems(4) Cons by (intro capabilitiesEqual_set[of pf]) (auto intro: inj_on_subset[OF assms(4)])
    then show ?thesis
      using l Cons Cons.IH Cons.prems by (simp add: dc_link_def)
  qed (use l in simp)
qed simp

lemma cap_path_ends:
  "chain \<noteq> [] \<Longrightarrow> cap_path chain \<noteq> [] \<and> hd (cap_path chain) = parentCapabilities (hd chain) \<and>
   last (cap_path chain) = attenuatedCapabilities (last chain)"
proof (induction chain)
  case (Cons p ps)
  then show ?case by (cases ps) auto
qed simp

lemma chain_authority:
  assumes valid: "snd (validateDelegationChain pf ports token now) = Inr None" and ne: "chain_of token \<noteq> []"
    and root: "parent_of ports (hd (chain_of token)) = Some root_token"
    and inj: "inj_on (\<lambda>c. jcs pf (CapabilityJson c)) (chain_caps root_token token)"
    and hz: "\<forall>p \<in> set (chain_of token). hazard_free (parentCapabilities p) (attenuatedCapabilities p)"
    and ev: "evaluator_ok intl trk ev" and g: "grants ev st (capabilities token) r"
  shows "grants ev st (capabilities root_token) r"
proof -
  let ?ch = "chain_of token" and ?path = "cap_path (chain_of token)"
  note parts = valid_chain_parts[OF valid ne]
  have sub: "\<forall>p \<in> set ?ch. set (parentCapabilities p) \<subseteq> chain_caps root_token token \<and>
      set (attenuatedCapabilities p) \<subseteq> chain_caps root_token token"
    by (auto simp: chain_caps_def)
  have path: "successively dc_link ?path"
    using cap_path_linked[OF check_hops_linked[OF parts(2)] check_hops_all[OF parts(2)] hz inj sub] .
  have "capabilitiesEqual pf (capabilities token) (attenuatedCapabilities (last ?ch))"
    using parts(3) by (simp add: leaf_checks_def Let_def)
  then have leaf: "set (capabilities token) = set (attenuatedCapabilities (last ?ch))"
    using sub last_in_set[OF ne] by (intro capabilitiesEqual_set[of pf]) (auto intro!: inj_on_subset[OF inj] simp: chain_caps_def)
  have "hop_ok pf ports token now (hd ?ch)"
    using check_hops_all[OF parts(2)] ne by (simp add: list_all_iff)
  then have "capabilitiesEqual pf (parentCapabilities (hd ?ch)) (capabilities root_token)"
    using root by (simp add: hop_ok_def)
  then have rt: "set (parentCapabilities (hd ?ch)) = set (capabilities root_token)"
    using sub hd_in_set[OF ne] by (intro capabilitiesEqual_set[of pf]) (auto intro!: inj_on_subset[OF inj] simp: chain_caps_def)
  obtain x xs where xs: "?path = x # xs"
    using cap_path_ends[OF ne] by (cases ?path) auto
  have "successively (\<lambda>p c. evaluator_ok intl trk ev \<and> dc_link p c) (x # xs)"
    using path ev by (auto simp: xs intro: successively_mono)
  moreover have "grants ev st (last (x # xs)) r"
    using g leaf cap_path_ends[OF ne] grants_set_cong xs by metis
  ultimately have "grants ev st x r"
    by (rule dc.chain_sound)
  then show ?thesis
    using rt cap_path_ends[OF ne] grants_set_cong xs by (metis list.sel(1))
qed

text \<open>The root of an accepted chain is a token the verifier accepts, of the same principal.\<close>

lemma accepted_root:
  assumes valid: "snd (validateDelegationChain pf ports token now) = Inr None" and ne: "chain_of token \<noteq> []"
    and root: "parent_of ports (hd (chain_of token)) = Some root_token"
  shows "verifyCapabilityToken pf root_token now None = Inr None" "chain_of root_token = []"
    "issuerDid root_token = principalDid root_token" "principalDid root_token = principalDid token"
proof -
  note parts = valid_chain_parts[OF valid ne]
  obtain p ps where ch: "chain_of token = p # ps"
    using ne by (cases "chain_of token") auto
  have "hop_parent_signature pf (keyMap ports (chain_of token)) now 0 None root_token = Inr None"
    using check_hops_Cons(5)[OF parts(2)[unfolded ch]] root by (simp add: ch)
  then have "chain_of root_token = []" "verifyCapabilityToken pf root_token now None = Inr None"
    by (auto simp: hop_parent_signature_def split: if_splits sum.splits)
  moreover have "issuerDid root_token = issuerDid token" "principalDid root_token = principalDid token"
    using check_hops_all[OF parts(2)] root by (simp_all add: ch hop_ok_def)
  moreover have "issuerDid token = principalDid token"
    using parts(3) by (simp add: leaf_checks_def Let_def)
  ultimately show "verifyCapabilityToken pf root_token now None = Inr None" "chain_of root_token = []"
    "issuerDid root_token = principalDid root_token" "principalDid root_token = principalDid token"
    by simp_all
qed

subsection \<open>Properties\<close>

definition demo_root :: capability_token where
  "demo_root = demo_token (host_cap [''a'', ''b''] 50)"

definition demo_keys :: resolved_keys where
  "demo_keys = \<lparr>current = toHex (replicate 32 1), previous = None, previousValidBefore = None, rotationState = STABLE\<rparr>"

definition demo_ports :: "token_id list \<Rightarrow> dc_ports" where
  "demo_ports revokedIds =
     \<lparr>resolvePublicKeys = (\<lambda>d. if d = demo_agent 2 then Some demo_keys else None),
      isRevoked = Some (\<lambda>i. i \<in> set revokedIds),
      resolveToken = Some (\<lambda>i. if i = ''urn:cap:u1'' then Some demo_root else None)\<rparr>"

definition demo_proof :: delegation_proof where
  "demo_proof = \<lparr>parentTokenId = ''urn:cap:u1'', delegatorDid = demo_agent 2, delegateeDid = demo_agent 3,
     parentCapabilities = host_cap [''a'', ''b''] 50, parentExpiresAt = ''2026-12-31T00:00:00.000Z'',
     attenuatedCapabilities = host_cap [''a''] 10,
     dp_proof = \<lparr>created = ''2026-02-01T00:00:00.000Z'', verificationMethod = demo_agent 2 @ ''#key-1'',
       proof_value = toBase64Url (replicate 32 1 @ replicate 32 255)\<rparr>, dcVersion = None\<rparr>"

lemma demo_root_fields:
  "capabilities demo_root = host_cap [''a'', ''b''] 50" "chain_of demo_root = []"
  "expiresAt demo_root = ''2026-12-31T00:00:00.000Z''" "specVersion demo_root = ''0.1.0''"
  "issuedTo demo_root = demo_agent 2" "token_id demo_root = ''urn:cap:u1''"
  "issuerDid demo_root = publicKeyToDidKey (replicate 32 1)" "principalDid demo_root = publicKeyToDidKey (replicate 32 1)"
  using demo_issued[of "host_cap [''a'', ''b''] 50"] by (simp_all add: demo_root_def host_cap_def chain_of_def)

lemma demo_root_verified: "verifyCapabilityToken demo_platform demo_root ''2026-03-01T00:00:00.000Z'' None = Inr None"
proof -
  have "host_cap [''a'', ''b''] 50 \<noteq> []" and ph: "phase2_free (host_cap [''a'', ''b''] 50)"
    by code_simp+
  note d = demo_issued[OF this(1), folded demo_root_def]
  have tm: "\<not> date_gt ''2026-01-01T00:00:00.000Z'' ''2026-03-01T00:00:00.000Z''"
    "\<not> isTimestampExpired ''2026-12-31T00:00:00.000Z'' ''2026-03-01T00:00:00.000Z''"
    by code_simp+
  have gates: "token_gates demo_platform demo_root ''2026-03-01T00:00:00.000Z'' None = None"
    using ph by (simp add: token_gates_def d demo_issuer tm chain_of_def demo_platform_def phase2_free_def isPhase2ScopeType_def
        list_ex_iff parse_vm did_key_no_hash did_key_not_agent)
  have "extractPublicKeyFromDIDKey (publicKeyToDidKey (replicate 32 1)) = Inr (toHex (replicate 32 1))"
    by (rule did_key_of_public) simp
  then show ?thesis
    by (simp add: verifyCapabilityToken_def gates d demo_verify lift_sig_def)
qed

lemma demo_child_fields:
  "chain_of demo_child = [demo_proof]" "issuedTo demo_child = demo_agent 3" "capabilities demo_child = host_cap [''a''] 10"
  "proof_value (token_proof demo_child) = toBase64Url (replicate 32 1 @ replicate 32 255)" "specVersion demo_child = ''0.2.0''"
    "issuerDid demo_child = publicKeyToDidKey (replicate 32 1)" "principalDid demo_child = publicKeyToDidKey (replicate 32 1)"
    "expiresAt demo_child = ''2026-06-30T00:00:00.000Z''" "verificationMethod (token_proof demo_child) = demo_agent 2 @ ''#key-1''"
proof -
  have k: "delegatorPrivateKey demo_delegate = toHex (replicate 32 1)" "dg_delegateeDid demo_delegate = demo_agent 3"
    "dg_capabilities demo_delegate = host_cap [''a''] 10" "dg_dcVersion demo_delegate = None"
    "dg_expiresAt demo_delegate = ''2026-06-30T00:00:00.000Z''"
    by (simp_all add: demo_delegate_def)
  show "chain_of demo_child = [demo_proof]" "issuedTo demo_child = demo_agent 3" "capabilities demo_child = host_cap [''a''] 10"
    "proof_value (token_proof demo_child) = toBase64Url (replicate 32 1 @ replicate 32 255)" "specVersion demo_child = ''0.2.0''"
    "issuerDid demo_child = publicKeyToDidKey (replicate 32 1)" "principalDid demo_child = publicKeyToDidKey (replicate 32 1)"
    "expiresAt demo_child = ''2026-06-30T00:00:00.000Z''" "verificationMethod (token_proof demo_child) = demo_agent 2 @ ''#key-1''"
    by (simp_all add: demo_child_def delegateCapabilityToken_def demo_guard Let_def k demo_sign IDENTITY_ENCODING_def
        sign_token_def chain_of_def demo_parent delegation_proof_of_def demo_proof_def)
qed

lemma demo_valid: "snd (validateDelegationChain demo_platform (demo_ports []) demo_child ''2026-03-01T00:00:00.000Z'') = Inr None"
proof -
  have k: "key_of (keyMap (demo_ports []) [demo_proof]) (demo_agent 2) = Some demo_keys"
    by (subst key_of_keyMap) (simp_all add: demo_proof_def demo_ports_def)
  have ne: "demo_agent 3 \<noteq> demo_agent 2" "str_lt ''2026-03-01T00:00:00.000Z'' ''2026-12-31T00:00:00.000Z''"
    "\<not> str_lt ''2026-12-31T00:00:00.000Z'' ''2026-06-30T00:00:00.000Z''"
    "validateAttenuation (host_cap [''a'', ''b''] 50) (host_cap [''a''] 10) (Some (''0.1.0'', ''0.2.0'')) = AttOk"
    by code_simp+
  have v: "dual_key_verify demo_platform m (toBase64Url (replicate 32 1 @ replicate 32 255)) demo_keys i = Inr True" for m i
    by (simp add: dual_key_verify_def demo_keys_def demo_verify)
  have gates: "chain_gates demo_platform (demo_ports []) demo_child [demo_proof] = Inr None"
    using ne(1) by (simp add: chain_gates_def demo_child_fields demo_ports_def demo_proof_def MAX_DELEGATION_DEPTH_def demo_platform_def)
  have hop: "check_hops demo_platform (demo_ports []) (keyMap (demo_ports []) [demo_proof]) demo_child ''2026-03-01T00:00:00.000Z'' 0 None [demo_proof] = Inr None"
    using k v ne
    by (simp add: hop_signature_def hop_parent_binding_def hop_parent_signature_def hop_attenuation_def hop_tail_def
        demo_child_fields demo_root_fields not_str_le demo_root_verified demo_ports_def[of "[]"] demo_proof_def)
  have leaf: "leaf_checks demo_platform (keyMap (demo_ports []) [demo_proof]) demo_child [demo_proof] = Inr None"
    using k v by (simp add: leaf_checks_def Let_def demo_child_fields demo_proof_def parse_vm did_agent_no_hash demo_agent_ok)
  show ?thesis
    by (simp add: validateDelegationChain_def Let_def demo_child_fields(1) gates hop leaf del: check_hops.simps)
qed



text \<open>
  Remark (safety). Revocation cascades: once any ancestor token of the chain is revoked, validation
  does not succeed.
\<close>

theorem revoked_ancestor_rejected:
  assumes "p \<in> set (chain_of token)" "isRevoked ports = Some revoked" "revoked (parentTokenId p)"
  shows "snd (validateDelegationChain pf ports token now) \<noteq> Inr None"
proof
  assume v: "snd (validateDelegationChain pf ports token now) = Inr None"
  have ne: "chain_of token \<noteq> []"
    using assms(1) by auto
  have "hop_ok pf ports token now p"
    using check_hops_all[OF valid_chain_parts(2)[OF v ne]] assms(1) by (simp add: list_all_iff)
  then show False
    using assms(2,3) hop_ok_facts(2) by blast
qed

theorem revoked_ancestor_rejected_witness:
  "snd (validateDelegationChain demo_platform (demo_ports [''urn:cap:u1'']) demo_child ''2026-03-01T00:00:00.000Z'') \<noteq> Inr None"
  by (rule revoked_ancestor_rejected[of demo_proof demo_child _ "\<lambda>i. i \<in> set [''urn:cap:u1'']"]) (simp_all add: demo_child_fields demo_ports_def demo_proof_def)

text \<open>
  Remark (invariant). The shape of an accepted chain: at most five hops, no DID twice (the root
  delegator included), each hop delegated by the holder of the hop before, the last one to the
  holder of the token, and every ancestor still unexpired and expiring no earlier than the token.
\<close>

theorem accepted_chain_shape:
  assumes "snd (validateDelegationChain pf ports token now) = Inr None" "chain_of token \<noteq> []"
  shows "length (chain_of token) \<le> MAX_DELEGATION_DEPTH \<and>
    distinct (delegatorDid (hd (chain_of token)) # map delegateeDid (chain_of token)) \<and>
    successively (\<lambda>p q. delegatorDid q = delegateeDid p) (chain_of token) \<and>
    delegateeDid (last (chain_of token)) = issuedTo token \<and>
    (\<forall>p \<in> set (chain_of token). str_le (expiresAt token) (parentExpiresAt p) \<and> str_lt now (parentExpiresAt p))"
proof -
  note parts = valid_chain_parts[OF assms]
  have "successively (\<lambda>p q. delegatorDid q = delegateeDid p) (chain_of token)"
    using check_hops_linked[OF parts(2)] by (rule successively_mono) (simp add: linked_def)
  moreover have "\<forall>p \<in> set (chain_of token). str_le (expiresAt token) (parentExpiresAt p) \<and> str_lt now (parentExpiresAt p)"
    using check_hops_all[OF parts(2)] hop_ok_facts(3,4) unfolding list_all_iff by blast
  moreover have "delegateeDid (last (chain_of token)) = issuedTo token"
    using parts(3) by (simp add: leaf_checks_def Let_def)
  moreover have "length (chain_of token) \<le> MAX_DELEGATION_DEPTH"
    "\<not> has_cycle [delegatorDid (hd (chain_of token))] (chain_of token)"
    using parts(1) assms(2) by (auto simp: chain_gates_def split: list.splits)
  ultimately show ?thesis
    by (auto simp: has_cycle_iff)
qed

theorem accepted_chain_shape_witness:
  "length (chain_of demo_child) \<le> MAX_DELEGATION_DEPTH \<and> delegateeDid (last (chain_of demo_child)) = issuedTo demo_child"
  using accepted_chain_shape[OF demo_valid] by (simp add: demo_child_fields)

text \<open>
  Remark (error). Fail-closed gates, in order: a bad schema, a 0.1.0 token with a chain, a missing
  token resolver or a missing revocation list give INVALID_TOKEN_FORMAT, too long a chain gives
  DEPTH_EXCEEDED, before any key is resolved.
\<close>

theorem chain_gates_fail_closed:
  assumes "chain_of token \<noteq> []"
  shows "(\<not> schema_ok pf token \<or> specVersion token = ''0.1.0'' \<or> resolveToken ports = None \<or> isRevoked ports = None \<longrightarrow>
      snd (validateDelegationChain pf ports token now) = Inr (Some (dc_fail DC_INVALID_TOKEN_FORMAT None))) \<and>
    (schema_ok pf token \<and> specVersion token \<noteq> ''0.1.0'' \<and> resolveToken ports \<noteq> None \<and> isRevoked ports \<noteq> None \<and>
      MAX_DELEGATION_DEPTH < length (chain_of token) \<longrightarrow>
      snd (validateDelegationChain pf ports token now) = Inr (Some (dc_fail DC_DEPTH_EXCEEDED None)))"
  using assms
  by (auto simp: validateDelegationChain_def Let_def chain_gates_def then_check_def require_def)

theorem chain_gates_fail_closed_witness:
  "snd (validateDelegationChain demo_platform ((demo_ports [])\<lparr>isRevoked := None\<rparr>) demo_child ''2026-03-01T00:00:00.000Z'') =
     Inr (Some (dc_fail DC_INVALID_TOKEN_FORMAT None))"
  using chain_gates_fail_closed[of demo_child] by (simp add: demo_child_fields)

text \<open>
  C5 (roundtrip). A token delegated from a verified root token validates: the proof and the leaf
  payload rebuilt by the validator are those the delegator signed. The delegator's key is the one
  its DID resolves to, the root is resolvable, not revoked and unexpired, and the delegatee is
  another agent.
\<close>

theorem delegate_validate_roundtrip:
  assumes laws: "ed25519_laws pf"
    and del: "delegateCapabilityToken pf params issued uuid = Inr t" and par: "parentToken params = root_token"
    and root: "verifyCapabilityToken pf root_token now None = Inr None" "chain_of root_token = []"
      "issuerDid root_token = principalDid root_token" "isDidAgent (issuedTo root_token)" "str_lt now (expiresAt root_token)"
    and key: "assertPrivateKey (delegatorPrivateKey params) = Inr kb"
      "resolvePublicKeys ports (issuedTo root_token) = Some keys" "current keys = toHex (ed_public pf (take 32 kb))"
    and res: "resolveToken ports = Some f" "f (token_id root_token) = Some root_token"
    and rev: "isRevoked ports = Some revoked" "\<not> revoked (token_id root_token)"
    and ok: "schema_ok pf t" "\<not> HEX_PATTERN (proof_value (token_proof t))"
      "\<forall>p \<in> set (chain_of t). \<not> HEX_PATTERN (proof_value (dp_proof p))" "issuedTo t \<noteq> issuedTo root_token"
  shows "validateDelegationChain pf ports t now = (1, Inr None)"
proof -
  have g: "delegate_guard pf params issued = None"
    using del by (auto simp: delegateCapabilityToken_def split: option.splits)
  obtain v w where sv: "sign pf (proof_payload pf (delegation_proof_of params)) (delegatorPrivateKey params) EncBase64Url = Inr v"
    and sw: "sign pf (createCapabilityTokenPayload pf t) (delegatorPrivateKey params) EncBase64Url = Inr w"
    and t: "t = \<lparr>token_id = ''urn:cap:'' @ uuid, specVersion = ''0.2.0'', issuerDid = issuerDid root_token,
                  principalDid = principalDid root_token, issuedTo = dg_delegateeDid params, issuedAt = issued,
                  expiresAt = dg_expiresAt params, capabilities = dg_capabilities params, revocationUrl = dg_revocationUrl params,
                  token_proof = \<lparr>created = issued, verificationMethod = issuedTo root_token @ ''#key-1'', proof_value = w\<rparr>,
                  delegationChain = Some [(delegation_proof_of params)
                    \<lparr>dp_proof := \<lparr>created = issued, verificationMethod = issuedTo root_token @ ''#key-1'', proof_value = v\<rparr>\<rparr>]\<rparr>"
    using del g par root(2)
    by (auto simp: delegateCapabilityToken_def Let_def chain_of_def IDENTITY_ENCODING_def createCapabilityTokenPayload_def
        dest!: sign_token_fields split: sum.splits option.splits)
  define p where "p = (delegation_proof_of params)\<lparr>dp_proof := \<lparr>created = issued, verificationMethod = issuedTo root_token @ ''#key-1'', proof_value = v\<rparr>\<rparr>"
  have ch: "chain_of t = [p]" by (simp add: t chain_of_def p_def)
  have km: "key_of (keyMap ports [p]) (issuedTo root_token) = Some keys"
    using key_of_keyMap[of "issuedTo root_token" "[p]" ports] key(2) by (simp add: p_def delegation_proof_of_def par Let_def)
  have hash: "CHR ''#'' \<notin> set (issuedTo root_token)"
    using did_agent_no_hash[OF root(4)] .
  have "verify pf (proof_payload pf p) v (current keys) = Inr True"
    using sign_verify[OF laws key(1) sv] ok(3) key(3) by (simp add: ch p_def)
  then have s1: "dual_key_verify pf (proof_payload pf p) v keys issued = Inr True"
    by (simp add: dual_key_verify_def)
  have "verify pf (createCapabilityTokenPayload pf t) w (current keys) = Inr True"
    using sign_verify[OF laws key(1) sw] ok(2) key(3) by (simp add: t)
  then have s2: "dual_key_verify pf (createCapabilityTokenPayload pf t) w keys issued = Inr True"
    by (simp add: dual_key_verify_def)
  have guard: "validateAttenuation (capabilities root_token) (dg_capabilities params) (Some (specVersion root_token, ''0.2.0'')) = AttOk"
    "\<not> str_lt (expiresAt root_token) (dg_expiresAt params)"
    using g by (auto simp: delegate_guard_def Let_def par split: if_splits attenuation_result.splits)
  have pf_fields: "parentTokenId p = token_id root_token" "delegatorDid p = issuedTo root_token" "delegateeDid p = dg_delegateeDid params"
    "parentCapabilities p = capabilities root_token" "parentExpiresAt p = expiresAt root_token"
    "attenuatedCapabilities p = dg_capabilities params" "proof_value (dp_proof p) = v" "created (dp_proof p) = issued"
    "verificationMethod (dp_proof p) = issuedTo root_token @ ''#key-1''"
    by (simp_all add: p_def delegation_proof_of_def par Let_def)
  have t_fields: "issuerDid t = issuerDid root_token" "principalDid t = principalDid root_token" "issuedTo t = dg_delegateeDid params"
    "specVersion t = ''0.2.0''" "expiresAt t = dg_expiresAt params" "capabilities t = dg_capabilities params" "issuedAt t = issued"
    "proof_value (token_proof t) = w" "verificationMethod (token_proof t) = issuedTo root_token @ ''#key-1''"
    by (simp_all add: t)
  have gates: "chain_gates pf ports t [p] = Inr None"
    using ok(1,4) res rev by (simp add: chain_gates_def t_fields pf_fields MAX_DELEGATION_DEPTH_def)
  have hop: "check_hops pf ports (keyMap ports [p]) t now 0 None [p] = Inr None"
    using s1 km root guard res rev
    by (simp add: hop_signature_def hop_parent_binding_def hop_parent_signature_def hop_attenuation_def hop_tail_def
        pf_fields t_fields not_str_le)
  have leaf: "leaf_checks pf (keyMap ports [p]) t [p] = Inr None"
    using s2 km root(3) hash by (simp add: leaf_checks_def Let_def pf_fields t_fields parse_vm)
  show ?thesis
    by (simp add: validateDelegationChain_def Let_def ch gates hop leaf del: check_hops.simps)
qed

theorem delegate_validate_roundtrip_witness:
  "validateDelegationChain demo_platform (demo_ports []) demo_child ''2026-03-01T00:00:00.000Z'' = (1, Inr None)"
proof (rule delegate_validate_roundtrip[OF demo_laws demo_delegated _ demo_root_verified])
  show "parentToken demo_delegate = demo_root"
    by (simp add: demo_delegate_def demo_root_def)
  show "str_lt ''2026-03-01T00:00:00.000Z'' (expiresAt demo_root)"
    unfolding demo_root_fields by code_simp
  show "assertPrivateKey (delegatorPrivateKey demo_delegate) = Inr (replicate 32 1)"
    by (simp add: demo_delegate_def demo_key)
  show "resolvePublicKeys (demo_ports []) (issuedTo demo_root) = Some demo_keys"
    by (simp add: demo_ports_def demo_root_fields)
  show "current demo_keys = toHex (ed_public demo_platform (take 32 (replicate 32 1)))"
    by (simp add: demo_keys_def demo_platform_def)
  show "resolveToken (demo_ports []) = Some (\<lambda>i. if i = ''urn:cap:u1'' then Some demo_root else None)"
    "isRevoked (demo_ports []) = Some (\<lambda>i. i \<in> set [])" "schema_ok demo_platform demo_child"
    by (simp_all add: demo_ports_def demo_platform_def)
  show "\<not> HEX_PATTERN (proof_value (token_proof demo_child))"
    "\<forall>p \<in> set (chain_of demo_child). \<not> HEX_PATTERN (proof_value (dp_proof p))"
    using demo_sig_not_hex by (simp_all add: demo_child_fields demo_proof_def)
  have "demo_agent 3 \<noteq> demo_agent 2" by code_simp
  then show "issuedTo demo_child \<noteq> issuedTo demo_root"
    by (simp add: demo_child_fields demo_root_fields)
qed (simp_all add: demo_root_fields demo_agent_ok)

end
