(* ===== verification/Merkle_Tree.thy ===== *)
theory Merkle_Tree
  imports Encoding
begin

text \<open>
  \<open>crypto/src/multisig/merkle-tree.ts\<close>: the Merkle tree over signer leaves, its audit paths and
  their verification. SHA-256 is the argument \<open>sha256\<close>; what is used of it is the 32-byte length
  of its result. The JCS bytes of a signer leaf are the argument \<open>jcs_leaf\<close>. Levels are lists of
  nodes, an odd last node is promoted; a path is the byte string of its 33-byte segments.
\<close>

subsection \<open>Errors and leaves\<close>

datatype multisig_error =
  MULTISIG_TOKEN_INCOMPLETE | MULTISIG_VERSION_UNSUPPORTED | MULTISIG_THRESHOLD_INVALID | MULTISIG_SIGNERS_INSUFFICIENT
| MULTISIG_SIGNER_DUPLICATE | MULTISIG_SIGNER_ID_INVALID | MULTISIG_MERKLE_ROOT_INVALID | MULTISIG_MERKLE_PATH_INVALID
| MULTISIG_INCLUSION_PROOF_MISSING | MULTISIG_SIGNATURE_INVALID | MULTISIG_QUORUM_INSUFFICIENT
| MULTISIG_PARTIAL_SIGNED_REJECTED | MULTISIG_CHALLENGE_INVALID | MULTISIG_SCHEMA_VIOLATION

record signer_leaf =
  sl_id :: string
  sl_role :: string
  sl_signature :: string

definition generateMerkleLeaf ::
  "(bytes \<Rightarrow> bytes) \<Rightarrow> (signer_leaf \<Rightarrow> bytes) \<Rightarrow> signer_leaf \<Rightarrow> multisig_error + bytes" where
  "generateMerkleLeaf sha256 jcs_leaf input =
     (if sl_id input = [] then Inl MULTISIG_SCHEMA_VIOLATION
      else if sl_role input \<noteq> ''human'' \<and> sl_role input \<noteq> ''agent'' then Inl MULTISIG_SCHEMA_VIOLATION
      else if sl_signature input = [] then Inl MULTISIG_SCHEMA_VIOLATION
      else
        (let digest = sha256 (jcs_leaf input) in
         if length digest \<noteq> 32 then Inl MULTISIG_MERKLE_ROOT_INVALID else Inr digest))"

subsection \<open>Building\<close>

fun next_level :: "(bytes \<Rightarrow> bytes) \<Rightarrow> bytes list \<Rightarrow> bytes list" where
  "next_level sha256 (left # right # rest) = sha256 (left @ right) # next_level sha256 rest"
| "next_level sha256 [left] = [left]"
| "next_level sha256 [] = []"

lemma length_next_level: "length (next_level sha256 xs) = (length xs + 1) div 2"
  by (induction sha256 xs rule: next_level.induct) auto

text \<open>All levels from the leaves up to the root.\<close>

function tree_levels :: "(bytes \<Rightarrow> bytes) \<Rightarrow> bytes list \<Rightarrow> bytes list list" where
  "tree_levels sha256 cur =
     (if length cur \<le> 1 then [cur] else cur # tree_levels sha256 (next_level sha256 cur))"
  by auto
termination
  by (relation "measure (\<lambda>(_, cur). length cur)") (auto simp: length_next_level)

declare tree_levels.simps [simp del]

type_synonym segment = "bytes \<times> byte"

fun audit_path :: "bytes list list \<Rightarrow> nat \<Rightarrow> segment list" where
  "audit_path (cur # nxt # rest) currentIdx =
     (let isRightChild = odd currentIdx;
          siblingIdx = (if isRightChild then currentIdx - 1 else currentIdx + 1);
          seg = (if siblingIdx < length cur then [(cur ! siblingIdx, if isRightChild then 0 else 1)] else [])
      in seg @ audit_path (nxt # rest) (currentIdx div 2))"
| "audit_path _ currentIdx = []"

definition encode_path :: "segment list \<Rightarrow> bytes" where
  "encode_path segs = concat (map (\<lambda>(sibling, direction). sibling @ [direction]) segs)"

definition buildMerkleTree :: "(bytes \<Rightarrow> bytes) \<Rightarrow> bytes list \<Rightarrow> multisig_error + bytes \<times> bytes list" where
  "buildMerkleTree sha256 leaves =
     (if leaves = [] then Inl MULTISIG_MERKLE_ROOT_INVALID
      else if list_ex (\<lambda>leaf. length leaf \<noteq> 32) leaves then Inl MULTISIG_MERKLE_ROOT_INVALID
      else if length leaves = 1 then Inr (hd leaves, [[]])
      else
        (let levels = tree_levels sha256 leaves in
         Inr (hd (last levels), map (\<lambda>leafIdx. encode_path (audit_path levels leafIdx)) [0..<length leaves])))"

definition encodeMerklePath :: "bytes \<Rightarrow> string" where
  "encodeMerklePath pathBytes = toBase64Url pathBytes"

definition decodeMerklePath :: "string \<Rightarrow> multisig_error + bytes" where
  "decodeMerklePath pathStr =
     (case fromBase64Url pathStr of Inl _ \<Rightarrow> Inl MULTISIG_MERKLE_PATH_INVALID | Inr bs \<Rightarrow> Inr bs)"

subsection \<open>Verifying\<close>

definition constantTimeEquals :: "bytes \<Rightarrow> bytes \<Rightarrow> bool" where
  "constantTimeEquals a b =
     (length a = length b \<and> foldl (\<lambda>diff (x, y). diff OR (x XOR y)) 0 (zip a b) = 0)"

function walk_path :: "(bytes \<Rightarrow> bytes) \<Rightarrow> bytes \<Rightarrow> bytes \<Rightarrow> multisig_error + bytes" where
  "walk_path sha256 currentHash pathBytes =
     (if pathBytes = [] then Inr currentHash
      else
        (let siblingHash = take 32 pathBytes; direction = pathBytes ! 32 in
         if direction \<noteq> 0 \<and> direction \<noteq> 1 then Inl MULTISIG_MERKLE_PATH_INVALID
         else walk_path sha256
           (sha256 (if direction = 0 then siblingHash @ currentHash else currentHash @ siblingHash))
           (drop 33 pathBytes)))"
  by auto
termination
  by (relation "measure (\<lambda>(_, _, pathBytes). length pathBytes)") auto

declare walk_path.simps [simp del]

definition verifyMerkleInclusion :: "(bytes \<Rightarrow> bytes) \<Rightarrow> bytes \<Rightarrow> bytes \<Rightarrow> bytes \<Rightarrow> multisig_error + bool" where
  "verifyMerkleInclusion sha256 leaf pathBytes expectedRoot =
     (if length leaf \<noteq> 32 then Inl MULTISIG_MERKLE_PATH_INVALID
      else if length expectedRoot \<noteq> 32 then Inl MULTISIG_MERKLE_ROOT_INVALID
      else if length pathBytes mod 33 \<noteq> 0 then Inl MULTISIG_MERKLE_PATH_INVALID
      else if pathBytes = [] then Inr (constantTimeEquals leaf expectedRoot)
      else case walk_path sha256 leaf pathBytes of
             Inl e \<Rightarrow> Inl e
           | Inr h \<Rightarrow> Inr (constantTimeEquals h expectedRoot))"

subsection \<open>Lemmas\<close>

lemma or_eq_0: "a OR b = 0 \<longleftrightarrow> a = 0 \<and> b = 0" for a b :: byte
  by (metis bit.disj_zero_right or_eq_0_iff)

lemma xor_eq_0: "a XOR b = 0 \<longleftrightarrow> a = b" for a b :: byte
  by (auto simp: bit_eq_iff bit_xor_iff)

lemma constantTimeEquals_iff [simp]: "constantTimeEquals a b \<longleftrightarrow> a = b"
proof -
  have fold: "foldl (\<lambda>diff (x, y). diff OR (x XOR y)) d (zip a b) = 0 \<longleftrightarrow> d = 0 \<and> a = b"
    if "length a = length b" for d :: byte
    using that by (induction a b arbitrary: d rule: list_induct2) (auto simp: or_eq_0 xor_eq_0)
  show ?thesis
    by (cases "length a = length b") (auto simp: constantTimeEquals_def fold)
qed

lemma next_level_nth:
  "i < length cur \<Longrightarrow> next_level sha256 cur ! (i div 2) =
    (if odd i then sha256 (cur ! (i - 1) @ cur ! i)
     else if i + 1 < length cur then sha256 (cur ! i @ cur ! (i + 1)) else cur ! i)"
proof (induction sha256 cur arbitrary: i rule: next_level.induct)
  case (1 sha256 left right rest)
  consider "i = 0" | "i = 1" | j where "i = Suc (Suc j)"
    by (metis One_nat_def not0_implies_Suc)
  then show ?case
  proof cases
    case 3
    then have "next_level sha256 rest ! (j div 2) =
        (if odd j then sha256 (rest ! (j - 1) @ rest ! j)
         else if j + 1 < length rest then sha256 (rest ! j @ rest ! (j + 1)) else rest ! j)"
      using 1 by simp
    then show ?thesis
      using 3 by (auto simp: nth_Cons' Suc_diff_Suc)
  qed auto
qed auto

lemma next_level_sizes:
  "(\<And>x. length (sha256 x) = 32) \<Longrightarrow> \<forall>n \<in> set cur. length n = 32 \<Longrightarrow> \<forall>n \<in> set (next_level sha256 cur). length n = 32"
  by (induction sha256 cur rule: next_level.induct) auto

fun fold_segments :: "(bytes \<Rightarrow> bytes) \<Rightarrow> bytes \<Rightarrow> segment list \<Rightarrow> bytes" where
  "fold_segments sha256 h [] = h"
| "fold_segments sha256 h ((sibling, direction) # segs) =
     fold_segments sha256 (sha256 (if direction = 0 then sibling @ h else h @ sibling)) segs"

lemma walk_encode:
  "\<forall>(s, d) \<in> set segs. length s = 32 \<and> (d = 0 \<or> d = 1) \<Longrightarrow>
   walk_path sha256 h (encode_path segs) = Inr (fold_segments sha256 h segs)"
proof (induction segs arbitrary: h)
  case Nil
  then show ?case by (simp add: encode_path_def walk_path.simps)
next
  case (Cons seg segs)
  obtain s d where seg: "seg = (s, d)" by (cases seg)
  have "encode_path (seg # segs) = s @ d # encode_path segs" "length s = 32" "d = 0 \<or> d = 1"
    using Cons.prems by (auto simp: encode_path_def seg)
  then show ?case
    using Cons by (subst walk_path.simps) (auto simp: Let_def seg nth_append)
qed

lemma length_encode_path: "\<forall>(s, d) \<in> set segs. length s = 32 \<Longrightarrow> length (encode_path segs) = 33 * length segs"
  by (induction segs) (auto simp: encode_path_def)

lemma fold_segments_size: "(\<And>x. length (sha256 x) = 32) \<Longrightarrow> length h = 32 \<Longrightarrow> length (fold_segments sha256 h segs) = 32"
  by (induction sha256 h segs rule: fold_segments.induct) auto

lemma tree_levels_Cons:
  "1 < length cur \<Longrightarrow> tree_levels sha256 cur = cur # tree_levels sha256 (next_level sha256 cur)"
  by (subst tree_levels.simps) simp

lemma tree_levels_nonempty: "tree_levels sha256 cur \<noteq> []"
  by (subst tree_levels.simps) simp

lemma audit_path_step:
  assumes "1 < length cur" "i < length cur"
  shows "fold_segments sha256 (cur ! i) (audit_path (tree_levels sha256 cur) i) =
    fold_segments sha256 (next_level sha256 cur ! (i div 2)) (audit_path (tree_levels sha256 (next_level sha256 cur)) (i div 2))"
    and "set (audit_path (tree_levels sha256 cur) i) \<subseteq>
      set cur \<times> {0, 1} \<union> set (audit_path (tree_levels sha256 (next_level sha256 cur)) (i div 2))"
proof -
  obtain nxt rest where nx: "tree_levels sha256 (next_level sha256 cur) = nxt # rest"
    using tree_levels_nonempty by (cases "tree_levels sha256 (next_level sha256 cur)") auto
  note lv = tree_levels_Cons[OF assms(1)] nx
  have od: "odd i \<Longrightarrow> i - 1 < length cur" using assms(2) by simp
  show "fold_segments sha256 (cur ! i) (audit_path (tree_levels sha256 cur) i) =
    fold_segments sha256 (next_level sha256 cur ! (i div 2)) (audit_path (tree_levels sha256 (next_level sha256 cur)) (i div 2))"
    using next_level_nth[OF assms(2), of sha256] od by (cases "odd i"; cases "i + 1 < length cur") (simp_all add: lv Let_def)
  show "set (audit_path (tree_levels sha256 cur) i) \<subseteq>
      set cur \<times> {0, 1} \<union> set (audit_path (tree_levels sha256 (next_level sha256 cur)) (i div 2))"
    using od by (auto simp: lv Let_def)
qed

lemma audit_path_correct:
  assumes "\<And>x. length (sha256 x) = 32" "\<forall>n \<in> set cur. length n = 32" "i < length cur"
  shows "fold_segments sha256 (cur ! i) (audit_path (tree_levels sha256 cur) i) = hd (last (tree_levels sha256 cur)) \<and>
    (\<forall>(s, d) \<in> set (audit_path (tree_levels sha256 cur) i). length s = 32 \<and> (d = 0 \<or> d = 1))"
  using assms
proof (induction sha256 cur arbitrary: i rule: tree_levels.induct)
  case (1 sha256 cur)
  show ?case
  proof (cases "length cur \<le> 1")
    case True
    then have i: "i = 0" and hd: "hd cur = cur ! 0"
      using 1(4) by (cases cur; auto)+
    have lv: "tree_levels sha256 cur = [cur]"
      using True by (subst tree_levels.simps) simp
    show ?thesis
      by (simp add: lv i hd)
  next
    case False
    let ?n = "next_level sha256 cur"
    have "i div 2 < length ?n"
      using 1(4) by (simp add: length_next_level)
    note IH = 1(1)[OF False 1(2) next_level_sizes[OF 1(2,3)] this]
    have lst: "last (tree_levels sha256 cur) = last (tree_levels sha256 ?n)"
      using False tree_levels_Cons[of cur sha256] tree_levels_nonempty[of sha256 ?n] by simp
    have c: "1 < length cur" using False by simp
    show ?thesis
      using audit_path_step[OF c 1(4), of sha256] IH 1(3) unfolding lst by fastforce
  qed
qed

lemma walk_path_inj:
  assumes "inj sha256"
  shows "walk_path sha256 h p = Inr r \<Longrightarrow> walk_path sha256 h' p = Inr r \<Longrightarrow> h = h'"
proof (induction "length p" arbitrary: p h h' rule: less_induct)
  case less
  show ?case
  proof (cases "p = []")
    case True
    then show ?thesis using less.prems by (simp add: walk_path.simps)
  next
    case False
    let ?in = "\<lambda>h. if p ! 32 = 0 then take 32 p @ h else h @ take 32 p"
    have "walk_path sha256 (sha256 (?in h)) (drop 33 p) = Inr r" "walk_path sha256 (sha256 (?in h')) (drop 33 p) = Inr r"
      using less.prems False
      by (simp_all add: walk_path.simps[of _ h p] walk_path.simps[of _ h' p] Let_def split: if_splits)
    then have "sha256 (?in h) = sha256 (?in h')"
      using less.hyps[of "drop 33 p"] False by simp
    then show ?thesis
      using assms by (auto simp: inj_def split: if_splits dest!: spec)
  qed
qed

subsection \<open>Properties\<close>

text \<open>
  Remark (roundtrip). Every leaf of a tree is included: for each index the path that the builder
  returns verifies the leaf against the root it returns, whatever the number of leaves.
\<close>

theorem merkle_paths_verify:
  assumes sha: "\<And>x. length (sha256 x) = 32" and build: "buildMerkleTree sha256 leaves = Inr (root_hash, paths)"
    and i: "i < length leaves"
  shows "length paths = length leaves \<and> verifyMerkleInclusion sha256 (leaves ! i) (paths ! i) root_hash = Inr True"
proof -
  have ne: "leaves \<noteq> []" and len: "\<forall>n \<in> set leaves. length n = 32"
    using build by (auto simp: buildMerkleTree_def list_ex_iff split: if_splits)
  show ?thesis
  proof (cases "length leaves = 1")
    case True
    then have "root_hash = hd leaves" "paths = [[]]"
      using build ne by (auto simp: buildMerkleTree_def split: if_splits)
    then show ?thesis
      using True i len by (simp add: verifyMerkleInclusion_def hd_conv_nth ne)
  next
    case False
    let ?lv = "tree_levels sha256 leaves"
    have r: "root_hash = hd (last ?lv)" and p: "paths = map (\<lambda>k. encode_path (audit_path ?lv k)) [0..<length leaves]"
      using build False ne by (auto simp: buildMerkleTree_def Let_def split: if_splits)
    note path = audit_path_correct[of sha256 leaves i, OF sha len i]
    have segs: "\<forall>(s, d) \<in> set (audit_path ?lv i). length s = 32" "\<forall>(s, d) \<in> set (audit_path ?lv i). length s = 32 \<and> (d = 0 \<or> d = 1)"
      using conjunct2[OF path] by auto
    have w: "walk_path sha256 (leaves ! i) (encode_path (audit_path ?lv i)) = Inr root_hash"
      using walk_encode[OF segs(2)] path r by simp
    have "length (leaves ! i) = 32" using len nth_mem[OF i] by blast
    then have "length root_hash = 32"
      using fold_segments_size[of sha256 "leaves ! i" "audit_path ?lv i", OF sha] conjunct1[OF path] r by simp
    then show ?thesis
      using i len w by (cases "encode_path (audit_path ?lv i) = []")
        (simp_all add: verifyMerkleInclusion_def p length_encode_path[OF segs(1)] walk_path.simps)
  qed
qed

definition demo_sha :: "bytes \<Rightarrow> bytes" where
  "demo_sha x = take 32 (rev x @ replicate 32 7)"

theorem merkle_paths_verify_witness:
  "case buildMerkleTree demo_sha [replicate 32 1, replicate 32 2, replicate 32 3] of
     Inl _ \<Rightarrow> False
   | Inr (r, paths) \<Rightarrow> verifyMerkleInclusion demo_sha (replicate 32 3) (paths ! 2) r = Inr True \<and> length (paths ! 2) = 33"
proof -
  let ?ls = "[replicate 32 1, replicate 32 2, replicate 32 3] :: bytes list"
  obtain r paths where b: "buildMerkleTree demo_sha ?ls = Inr (r, paths)"
    by (simp add: buildMerkleTree_def Let_def)
  have "length (demo_sha x) = 32" for x
    by (simp add: demo_sha_def)
  from merkle_paths_verify[OF this b, of 2]
  have "verifyMerkleInclusion demo_sha (replicate 32 3) (paths ! 2) r = Inr True"
    by simp
  moreover have "length (paths ! 2) = 33"
    using b by (auto simp: buildMerkleTree_def Let_def tree_levels.simps encode_path_def demo_sha_def)
  ultimately show ?thesis by (simp add: b)
qed

text \<open>
  Remark (safety). One path proves one leaf: if two different leaves verify under the same path and
  root, the verification exhibits two different inputs with the same SHA-256 value.
\<close>

theorem merkle_path_binding:
  assumes "verifyMerkleInclusion sha256 leaf pathBytes root_hash = Inr True"
    and "verifyMerkleInclusion sha256 leaf' pathBytes root_hash = Inr True" "leaf \<noteq> leaf'"
  shows "\<exists>x y. x \<noteq> y \<and> sha256 x = sha256 y"
proof -
  have "walk_path sha256 leaf pathBytes = Inr root_hash" "walk_path sha256 leaf' pathBytes = Inr root_hash"
    using assms(1,2) by (auto simp: verifyMerkleInclusion_def walk_path.simps[of _ _ "[]"] split: if_splits sum.splits)
  then show ?thesis
    using walk_path_inj assms(3) unfolding inj_def by metis
qed

theorem merkle_path_binding_witness:
  "verifyMerkleInclusion (\<lambda>_. replicate 32 5) (replicate 32 1) (replicate 32 3 @ [0]) (replicate 32 5) = Inr True \<and>
   verifyMerkleInclusion (\<lambda>_. replicate 32 5) (replicate 32 2) (replicate 32 3 @ [0]) (replicate 32 5) = Inr True \<and>
   (\<exists>x y :: bytes. x \<noteq> y \<and> replicate 32 (5 :: byte) = replicate 32 5)"
proof -
  let ?v = "\<lambda>l. verifyMerkleInclusion (\<lambda>_. replicate 32 5) (replicate 32 l) (replicate 32 3 @ [0]) (replicate 32 5)"
  have "?v 1 = Inr True" "?v 2 = Inr True"
    by (simp_all add: verifyMerkleInclusion_def walk_path.simps nth_append)
  moreover from merkle_path_binding[OF this]
  have "\<exists>x y :: bytes. x \<noteq> y \<and> replicate 32 (5 :: byte) = replicate 32 5"
    by simp
  ultimately show ?thesis by blast
qed

end
