(* ===== verification/Hash_Chain.thy ===== *)
theory Hash_Chain
  imports Encoding
begin

text \<open>
  \<open>crypto/src/hash-chain.ts\<close> with \<open>canonicalization.ts\<close> and \<open>hashing.ts\<close>: the append-only record
  chain of the audit log. Records are plain objects. The arguments \<open>sha\<close> (SHA-256 of the UTF-8
  bytes of a text) and \<open>jcs\<close> (the \<open>canonicalize\<close> package, RFC 8785) stand for third-party code.
  A \<open>CryptoError\<close> is \<open>Inl\<close>; an exception leaves the chain object as it was.
\<close>

subsection \<open>Canonicalization and hashing\<close>

fun assertSerializable :: "jsval \<Rightarrow> bool" where
  "assertSerializable JUndef = False"
| "assertSerializable JNull = True"
| "assertSerializable (JBool _) = True"
| "assertSerializable (JNum n) = (case n of Fin _ \<Rightarrow> True | _ \<Rightarrow> False)"
| "assertSerializable (JStr _) = True"
| "assertSerializable (JArr vs) = list_all assertSerializable vs"
| "assertSerializable (JObj kvs) = list_all (\<lambda>kv. assertSerializable (snd kv)) kvs"

definition canonicalize :: "(js_object \<Rightarrow> string) \<Rightarrow> js_object \<Rightarrow> crypto_error + string" where
  "canonicalize jcs obj = (if assertSerializable (JObj obj) then Inr (jcs obj) else Inl SERIALIZATION_FAILED)"

definition hash :: "(string \<Rightarrow> bytes) \<Rightarrow> string \<Rightarrow> string" where
  "hash sha data = toHex (sha data)"

subsection \<open>The previous hash of a record\<close>

definition lower_char :: "char \<Rightarrow> char" where
  "lower_char c = (if 65 \<le> code_unit c \<and> code_unit c \<le> 90 then char_of (code_unit c + 32) else c)"

abbreviation toLowerCase :: "string \<Rightarrow> string" where
  "toLowerCase \<equiv> map lower_char"

definition normalizePrevHash :: "js_object \<Rightarrow> crypto_error + string option" where
  "normalizePrevHash record =
     (case get_prop record ''prevHash'' of
        JNull \<Rightarrow> Inr None
      | JUndef \<Rightarrow> Inr None
      | JStr prevHash \<Rightarrow>
          (if prevHash = [] then Inl INVALID_HASH_FORMAT
           else if detectEncoding prevHash = EncBase64Url then
             (case fromBase64Url prevHash of
                Inl e \<Rightarrow> Inl e
              | Inr bs \<Rightarrow> if length bs \<noteq> 32 then Inl INVALID_HASH_FORMAT else Inr (Some (toHex bs)))
           else
             (case fromHex prevHash of
                Inl e \<Rightarrow> Inl e
              | Inr bs \<Rightarrow> if length bs \<noteq> 32 then Inl INVALID_HASH_FORMAT else Inr (Some (toLowerCase prevHash))))
      | _ \<Rightarrow> Inl HASH_CHAIN_BROKEN)"

definition getPrevHashStrict :: "js_object \<Rightarrow> crypto_error + string option" where
  "getPrevHashStrict record =
     (case get_prop record ''prevHash'' of
        JNull \<Rightarrow> Inr None
      | JUndef \<Rightarrow> Inr None
      | JStr prevHash \<Rightarrow>
          (if prevHash = [] then Inl INVALID_HASH_FORMAT
           else case fromHex prevHash of
                  Inl e \<Rightarrow> Inl e
                | Inr bs \<Rightarrow> if length bs \<noteq> 32 then Inl INVALID_HASH_FORMAT else Inr (Some prevHash))
      | _ \<Rightarrow> Inl HASH_CHAIN_BROKEN)"

definition prev_text :: "string option \<Rightarrow> string" where
  "prev_text prevHash = (case prevHash of None \<Rightarrow> [] | Some h \<Rightarrow> h)"

definition computeRecordHash ::
  "(string \<Rightarrow> bytes) \<Rightarrow> (js_object \<Rightarrow> string) \<Rightarrow> js_object \<Rightarrow> crypto_error + string" where
  "computeRecordHash sha jcs record =
     (case getPrevHashStrict record of
        Inl e \<Rightarrow> Inl e
      | Inr prevHash \<Rightarrow>
          (case canonicalize jcs record of
             Inl e \<Rightarrow> Inl e
           | Inr payload \<Rightarrow> Inr (hash sha (prev_text prevHash @ payload))))"

subsection \<open>The chain object\<close>

record hash_chain =
  headHash :: "string option"
  chain_length :: nat

definition new_chain :: hash_chain where
  "new_chain = \<lparr>headHash = None, chain_length = 0\<rparr>"

definition append_record ::
  "(string \<Rightarrow> bytes) \<Rightarrow> (js_object \<Rightarrow> string) \<Rightarrow> hash_chain \<Rightarrow> js_object \<Rightarrow> (crypto_error + string) \<times> hash_chain" where
  "append_record sha jcs chain record =
     (case getPrevHashStrict record of
        Inl e \<Rightarrow> (Inl e, chain)
      | Inr prevHash \<Rightarrow>
          (if prevHash \<noteq> headHash chain then (Inl HASH_CHAIN_BROKEN, chain)
           else case computeRecordHash sha jcs record of
                  Inl e \<Rightarrow> (Inl e, chain)
                | Inr nextHash \<Rightarrow>
                    (Inr nextHash, chain\<lparr>headHash := Some nextHash, chain_length := chain_length chain + 1\<rparr>)))"

datatype chain_result = ChainValid nat | ChainBroken nat "string option" "string option"

definition normalizedRecord :: "js_object \<Rightarrow> string option \<Rightarrow> js_object" where
  "normalizedRecord record prevHash =
     (case prevHash of
        None \<Rightarrow> set_prop record ''prevHash'' JNull
      | Some h \<Rightarrow> set_prop record ''prevHash'' (JStr h))"

fun verify_from ::
  "(string \<Rightarrow> bytes) \<Rightarrow> (js_object \<Rightarrow> string) \<Rightarrow> nat \<Rightarrow> string option \<Rightarrow> js_object list \<Rightarrow> crypto_error + chain_result" where
  "verify_from sha jcs index expectedPrevHash [] = Inr (ChainValid index)"
| "verify_from sha jcs index expectedPrevHash (record # records) =
     (case normalizePrevHash record of
        Inl e \<Rightarrow> Inl e
      | Inr actualPrevHash \<Rightarrow>
          (if actualPrevHash \<noteq> expectedPrevHash then Inr (ChainBroken index expectedPrevHash actualPrevHash)
           else case computeRecordHash sha jcs (normalizedRecord record actualPrevHash) of
                  Inl e \<Rightarrow> Inl e
                | Inr h \<Rightarrow> verify_from sha jcs (index + 1) (Some h) records))"

definition verify_records ::
  "(string \<Rightarrow> bytes) \<Rightarrow> (js_object \<Rightarrow> string) \<Rightarrow> js_object list \<Rightarrow> crypto_error + chain_result" where
  "verify_records sha jcs records = verify_from sha jcs 0 None records"

subsection \<open>Merkle proofs over the records\<close>

datatype node_position = LeftSibling | RightSibling

record merkle_proof =
  recordIndex :: nat
  recordHash :: string
  siblings :: "(string \<times> node_position) list"
  proof_root :: string

fun sum_map :: "('a \<Rightarrow> 'e + 'b) \<Rightarrow> 'a list \<Rightarrow> 'e + 'b list" where
  "sum_map f [] = Inr []"
| "sum_map f (x # xs) =
     (case f x of Inl e \<Rightarrow> Inl e
      | Inr y \<Rightarrow> (case sum_map f xs of Inl e \<Rightarrow> Inl e | Inr ys \<Rightarrow> Inr (y # ys)))"

definition leaf_hash :: "(string \<Rightarrow> bytes) \<Rightarrow> (js_object \<Rightarrow> string) \<Rightarrow> js_object \<Rightarrow> crypto_error + string" where
  "leaf_hash sha jcs record =
     (case normalizePrevHash record of
        Inl e \<Rightarrow> Inl e
      | Inr p \<Rightarrow> computeRecordHash sha jcs (normalizedRecord record p))"

definition pad_layer :: "string list \<Rightarrow> string list" where
  "pad_layer layer = (if odd (length layer) then layer @ [last layer] else layer)"

fun nextLayer :: "(string \<Rightarrow> string) \<Rightarrow> string list \<Rightarrow> string list" where
  "nextLayer h (left # right # rest) = h (left @ right) # nextLayer h rest"
| "nextLayer h _ = []"

lemma length_nextLayer: "length (nextLayer h layer) = length layer div 2"
  by (induction h layer rule: nextLayer.induct) auto

lemma length_pad_layer: "length (pad_layer layer) = 2 * ((length layer + 1) div 2)"
  by (auto simp: pad_layer_def elim!: oddE evenE)

function merkle_climb :: "(string \<Rightarrow> string) \<Rightarrow> string list \<Rightarrow> nat \<Rightarrow> (string \<times> node_position) list \<times> string" where
  "merkle_climb h currentLayer targetIndex =
     (if length currentLayer \<le> 1 then ([], hd currentLayer)
      else
        (let layer = pad_layer currentLayer;
             sibling = (if even targetIndex then (layer ! (targetIndex + 1), RightSibling)
                        else (layer ! (targetIndex - 1), LeftSibling));
             (rest, r) = merkle_climb h (nextLayer h layer) (targetIndex div 2)
         in (sibling # rest, r)))"
  by auto
termination
  by (relation "measure (\<lambda>(_, layer, _). length layer)") (auto simp: length_nextLayer length_pad_layer)

declare merkle_climb.simps [simp del]

definition generateProof ::
  "(string \<Rightarrow> bytes) \<Rightarrow> (js_object \<Rightarrow> string) \<Rightarrow> int \<Rightarrow> js_object list \<Rightarrow> crypto_error + merkle_proof" where
  "generateProof sha jcs index records =
     (if records = [] \<or> index < 0 \<or> int (length records) \<le> index then Inl INVALID_HASH_FORMAT
      else case sum_map (leaf_hash sha jcs) records of
             Inl e \<Rightarrow> Inl e
           | Inr leaves \<Rightarrow>
               (let i = nat index; h = leaves ! i; (sibs, r) = merkle_climb (hash sha) leaves i in
                Inr \<lparr>recordIndex = i, recordHash = h, siblings = sibs, proof_root = r\<rparr>))"

subsection \<open>Lemmas\<close>

lemma toHex_lower: "toLowerCase (toHex bs) = toHex bs"
proof -
  have "\<forall>c \<in> set HEX_DIGITS. lower_char c = c"
    by code_simp
  then show ?thesis
    using toHex_chars[of bs] by (auto intro: map_idI)
qed

lemma detect_toHex: "length bs = 32 \<Longrightarrow> detectEncoding (toHex bs) = EncHex"
  using toHex_pattern[of bs] length_toHex[of bs] by (cases "bs = []") (auto simp: detectEncoding_def)

lemma toHex_inj: "toHex a = toHex b \<longleftrightarrow> a = b"
  using hex_pairs_toHex by metis

lemma set_prop_same: "get_prop obj k \<noteq> JUndef \<Longrightarrow> set_prop obj k (get_prop obj k) = obj"
  by (induction obj k "get_prop obj k" rule: set_prop.induct) (auto simp: get_prop_def)

lemma getPrevHashStrict_Inr:
  "getPrevHashStrict r = Inr p \<Longrightarrow>
   (p = None \<and> (get_prop r ''prevHash'' = JNull \<or> get_prop r ''prevHash'' = JUndef)) \<or>
   (\<exists>h. p = Some h \<and> get_prop r ''prevHash'' = JStr h)"
  by (auto simp: getPrevHashStrict_def split: jsval.splits if_splits sum.splits)

text \<open>A record that names its predecessor in the chain's own encoding is already normalized.\<close>

lemma strict_is_normal:
  assumes "getPrevHashStrict r = Inr p" "get_prop r ''prevHash'' \<noteq> JUndef"
    and "\<And>h. p = Some h \<Longrightarrow> \<exists>bs. h = toHex bs \<and> length bs = 32"
  shows "normalizePrevHash r = Inr p \<and> normalizedRecord r p = r"
proof (cases p)
  case None
  then have "get_prop r ''prevHash'' = JNull"
    using getPrevHashStrict_Inr[OF assms(1)] assms(2) by simp
  then show ?thesis
    using set_prop_same[of r "''prevHash''"] by (simp add: None normalizePrevHash_def normalizedRecord_def)
next
  case (Some h)
  then obtain bs where bs: "h = toHex bs" "length bs = 32"
    using assms(3) by blast
  have g: "get_prop r ''prevHash'' = JStr h"
    using getPrevHashStrict_Inr[OF assms(1)] Some by auto
  have "h \<noteq> []"
    using bs length_toHex[of bs] by auto
  then show ?thesis
    using set_prop_same[of r "''prevHash''"] bs g
    by (simp add: Some normalizePrevHash_def normalizedRecord_def detect_toHex toHex_lower)
qed

fun append_all ::
  "(string \<Rightarrow> bytes) \<Rightarrow> (js_object \<Rightarrow> string) \<Rightarrow> hash_chain \<Rightarrow> js_object list \<Rightarrow> crypto_error + hash_chain" where
  "append_all sha jcs chain [] = Inr chain"
| "append_all sha jcs chain (r # rs) =
     (case append_record sha jcs chain r of
        (Inl e, _) \<Rightarrow> Inl e
      | (Inr _, chain') \<Rightarrow> append_all sha jcs chain' rs)"

lemma append_record_Inr:
  "append_record sha jcs chain r = (Inr h, chain') \<longleftrightarrow>
   getPrevHashStrict r = Inr (headHash chain) \<and> computeRecordHash sha jcs r = Inr h \<and>
   chain' = chain\<lparr>headHash := Some h, chain_length := chain_length chain + 1\<rparr>"
  by (auto simp: append_record_def split: sum.splits if_splits)

lemma computeRecordHash_Inr:
  "computeRecordHash sha jcs r = Inr h \<Longrightarrow>
   \<exists>p. getPrevHashStrict r = Inr p \<and> h = toHex (sha (prev_text p @ jcs r))"
  by (auto simp: computeRecordHash_def canonicalize_def hash_def split: sum.splits if_splits)

lemma append_all_verifies:
  assumes sha: "\<And>x. length (sha x) = 32"
    and "append_all sha jcs chain rs = Inr chain'" "\<forall>r \<in> set rs. get_prop r ''prevHash'' \<noteq> JUndef"
    and "\<And>h. headHash chain = Some h \<Longrightarrow> \<exists>bs. h = toHex bs \<and> length bs = 32"
  shows "verify_from sha jcs index (headHash chain) rs = Inr (ChainValid (index + length rs)) \<and>
    chain_length chain' = chain_length chain + length rs"
  using assms(2-)
proof (induction rs arbitrary: chain index)
  case (Cons r rs)
  from Cons.prems(1) obtain h chain1 where ap: "append_record sha jcs chain r = (Inr h, chain1)"
    and rest: "append_all sha jcs chain1 rs = Inr chain'"
    by (auto split: prod.splits sum.splits)
  note a = ap[unfolded append_record_Inr]
  obtain p where "h = toHex (sha (prev_text p @ jcs r))"
    using a computeRecordHash_Inr by blast
  then have head: "\<exists>bs. h' = toHex bs \<and> length bs = 32" if "headHash chain1 = Some h'" for h'
    using that a sha by auto
  have "normalizePrevHash r = Inr (headHash chain) \<and> normalizedRecord r (headHash chain) = r"
    using a Cons.prems(2,3) by (intro strict_is_normal) auto
  then show ?case
    using a Cons.IH[OF rest _ head, of "index + 1"] Cons.prems(2) by simp
qed simp

lemma verify_from_valid_Cons:
  "verify_from sha jcs index e (r # rs) = Inr (ChainValid n) \<longleftrightarrow>
   normalizePrevHash r = Inr e \<and>
   (\<exists>h. computeRecordHash sha jcs (normalizedRecord r e) = Inr h \<and> verify_from sha jcs (index + 1) (Some h) rs = Inr (ChainValid n))"
  by (auto split: sum.splits if_splits)

lemma verify_from_append:
  "verify_from sha jcs index e (xs @ ys) = Inr (ChainValid n) \<Longrightarrow>
   \<exists>e'. verify_from sha jcs (index + length xs) e' ys = Inr (ChainValid n) \<and>
     (\<forall>zs m. verify_from sha jcs index e (xs @ zs) = Inr (ChainValid m) \<longrightarrow>
        verify_from sha jcs (index + length xs) e' zs = Inr (ChainValid m))"
proof (induction xs arbitrary: index e)
  case (Cons x xs)
  from Cons.prems obtain h where h: "normalizePrevHash x = Inr e"
    "computeRecordHash sha jcs (normalizedRecord x e) = Inr h"
    "verify_from sha jcs (index + 1) (Some h) (xs @ ys) = Inr (ChainValid n)"
    by (auto simp only: append_Cons verify_from_valid_Cons)
  from Cons.IH[OF h(3)] h(1,2) show ?case by simp
qed auto

lemma get_prevHash_normalized: "getPrevHashStrict (normalizedRecord r p) = Inr q \<Longrightarrow> q = p"
  by (auto simp: normalizedRecord_def split: option.splits dest!: getPrevHashStrict_Inr)

fun climb_root :: "(string \<Rightarrow> string) \<Rightarrow> string \<Rightarrow> (string \<times> node_position) list \<Rightarrow> string" where
  "climb_root h x [] = x"
| "climb_root h x ((s, RightSibling) # rest) = climb_root h (h (x @ s)) rest"
| "climb_root h x ((s, LeftSibling) # rest) = climb_root h (h (s @ x)) rest"

lemma nextLayer_nth:
  "i + 1 < length p \<Longrightarrow> even i \<Longrightarrow> nextLayer h p ! (i div 2) = h (p ! i @ p ! (i + 1))"
proof (induction h p arbitrary: i rule: nextLayer.induct)
  case (1 h left right rest)
  show ?case
  proof (cases "i = 0")
    case False
    then have "i = Suc (Suc (i - 2))"
      using 1(3) by presburger
    then obtain j where "i = Suc (Suc j)" by blast
    then show ?thesis using 1 by simp
  qed simp
qed auto

lemma merkle_climb_root:
  "t < length layer \<Longrightarrow> climb_root h (layer ! t) (fst (merkle_climb h layer t)) = snd (merkle_climb h layer t)"
proof (induction h layer t rule: merkle_climb.induct)
  case (1 h layer t)
  show ?case
  proof (cases "length layer \<le> 1")
    case True
    then show ?thesis using 1(2) by (cases layer) (auto simp: merkle_climb.simps)
  next
    case False
    let ?p = "pad_layer layer" and ?n = "nextLayer h (pad_layer layer)"
    have len: "length ?p = 2 * ((length layer + 1) div 2)"
      by (rule length_pad_layer)
    have pt: "?p ! t = layer ! t"
      using 1(2) by (simp add: pad_layer_def nth_append)
    have "t div 2 < length ?n"
      using 1(2) by (simp add: length_nextLayer len)
    then have IH: "climb_root h (?n ! (t div 2)) (fst (merkle_climb h ?n (t div 2))) = snd (merkle_climb h ?n (t div 2))"
      using 1(1) False by (simp add: case_prod_unfold)
    show ?thesis
    proof (cases "even t")
      case True
      then have "t + 1 < length ?p"
        using 1(2) unfolding len by presburger
      then have "?n ! (t div 2) = h (layer ! t @ ?p ! (t + 1))"
        using nextLayer_nth[of t ?p h] True pt by simp
      then show ?thesis
        using IH False True by (subst (1 2) merkle_climb.simps) (simp add: Let_def case_prod_unfold)
    next
      case odd: False
      then have "t < length ?p"
        using 1(2) unfolding len by presburger
      then have "?n ! (t div 2) = h (?p ! (t - 1) @ layer ! t)"
        using nextLayer_nth[of "t - 1" ?p h] odd pt by (auto elim!: oddE)
      then show ?thesis
        using IH False odd by (subst (1 2) merkle_climb.simps) (simp add: Let_def case_prod_unfold)
    qed
  qed
qed

lemma merkle_climb_same_root: "snd (merkle_climb h layer t) = snd (merkle_climb h layer u)"
proof (induction h layer t arbitrary: u rule: merkle_climb.induct)
  case (1 h layer t)
  show ?case
  proof (cases "length layer \<le> 1")
    case False
    then show ?thesis
      using 1[OF False refl refl, of "u div 2"]
      by (simp add: merkle_climb.simps[of h layer] Let_def case_prod_unfold)
  qed (simp add: merkle_climb.simps)
qed

lemma length_sum_map: "sum_map f xs = Inr ys \<Longrightarrow> length ys = length xs"
  by (induction xs arbitrary: ys) (auto split: sum.splits)

subsection \<open>Properties\<close>

text \<open>
  Remark (roundtrip). What \<open>append\<close> accepted, \<open>verify\<close> accepts: a chain grown from the empty one by
  records that each carry a \<open>prevHash\<close> property verifies over its whole length.
\<close>

theorem appended_chain_verifies:
  assumes "\<And>x. length (sha x) = 32"
    and "append_all sha jcs new_chain rs = Inr chain" "\<forall>r \<in> set rs. get_prop r ''prevHash'' \<noteq> JUndef"
  shows "verify_records sha jcs rs = Inr (ChainValid (length rs)) \<and> chain_length chain = length rs"
  using append_all_verifies[OF assms, of 0] by (simp add: verify_records_def new_chain_def)

definition demo_digest :: "string \<Rightarrow> bytes" where
  "demo_digest x = replicate 31 0 @ [word_of_nat (length x)]"

definition demo_canon :: "js_object \<Rightarrow> string" where
  "demo_canon obj = concat (map fst obj)"

definition demo_log :: "js_object list" where
  "demo_log =
     [[(''prevHash'', JNull), (''seq'', JNum (Fin 0))],
      [(''prevHash'', JStr (toHex (demo_digest ''prevHashseq''))), (''event'', JStr ''grant'')]]"

theorem appended_chain_verifies_witness:
  "verify_records demo_digest demo_canon demo_log = Inr (ChainValid 2)"
proof -
  have "append_all demo_digest demo_canon new_chain demo_log = Inr \<lparr>headHash = Some (toHex (replicate 31 0 @ [77])), chain_length = 2\<rparr>"
    by code_simp
  moreover have "length (demo_digest x) = 32" for x
    by (simp add: demo_digest_def)
  moreover have "\<forall>r \<in> set demo_log. get_prop r ''prevHash'' \<noteq> JUndef"
    by (simp add: demo_log_def get_prop_def)
  ultimately show ?thesis
    using appended_chain_verifies[of demo_digest demo_canon demo_log] by (simp add: demo_log_def)
qed



text \<open>
  Remark (equivalence). Inclusion proofs are sound and agree on the root: hashing a record's proof
  upwards from the record hash gives the proof's root, and the proofs of all records of one log
  have the same root.
\<close>

theorem generated_proof_recomputes_root:
  assumes "generateProof sha jcs i records = Inr pr"
  shows "climb_root (hash sha) (recordHash pr) (siblings pr) = proof_root pr \<and>
    leaf_hash sha jcs (records ! nat i) = Inr (recordHash pr) \<and>
    (\<forall>j pr'. generateProof sha jcs j records = Inr pr' \<longrightarrow> proof_root pr' = proof_root pr)"
proof -
  have nth: "sum_map f xs = Inr ys \<Longrightarrow> k < length xs \<Longrightarrow> f (xs ! k) = Inr (ys ! k)" for f :: "js_object \<Rightarrow> crypto_error + string" and xs ys k
    by (induction xs arbitrary: ys k) (auto simp: nth_Cons' split: sum.splits)
  from assms obtain leaves where l: "sum_map (leaf_hash sha jcs) records = Inr leaves"
    "0 \<le> i" "i < int (length records)" "recordHash pr = leaves ! nat i"
    "siblings pr = fst (merkle_climb (hash sha) leaves (nat i))" "proof_root pr = snd (merkle_climb (hash sha) leaves (nat i))"
    by (auto simp: generateProof_def Let_def case_prod_unfold split: if_splits sum.splits)
  have i: "nat i < length leaves" "nat i < length records"
    using l(2,3) length_sum_map[OF l(1)] by auto
  have other: "proof_root pr' = proof_root pr" if "generateProof sha jcs j records = Inr pr'" for j pr'
    using that l(1,6) merkle_climb_same_root[of "hash sha" leaves "nat j" "nat i"]
    by (auto simp: generateProof_def Let_def case_prod_unfold split: if_splits)
  show ?thesis
    using merkle_climb_root[OF i(1), of "hash sha"] nth[OF l(1) i(2)] other by (simp add: l)
qed

theorem generated_proof_recomputes_root_witness:
  "\<exists>pr. generateProof demo_digest demo_canon 1 demo_log = Inr pr \<and> length (siblings pr) = 1 \<and>
    climb_root (hash demo_digest) (recordHash pr) (siblings pr) = proof_root pr"
proof -
  have "case generateProof demo_digest demo_canon 1 demo_log of Inl _ \<Rightarrow> False | Inr pr \<Rightarrow> length (siblings pr) = 1"
    by code_simp
  then obtain pr where "generateProof demo_digest demo_canon 1 demo_log = Inr pr" "length (siblings pr) = 1"
    by (auto split: sum.splits)
  with generated_proof_recomputes_root[OF this(1)] show ?thesis by blast
qed

text \<open>
  Remark (error). A first record without a \<open>prevHash\<close> property is appended with the hash of the record
  as it is, but verified with \<open>prevHash: null\<close> added: the log that \<open>append\<close> built is reported
  broken at its second record.
\<close>

theorem genesis_without_prevHash_breaks:
  "let g = [(''seq'', JNum (Fin 0))];
       r = [(''prevHash'', JStr (hash demo_digest (demo_canon g)))]
   in (\<exists>chain. append_all demo_digest demo_canon new_chain [g, r] = Inr chain) \<and>
      verify_records demo_digest demo_canon [g, r] =
        Inr (ChainBroken 1 (Some (hash demo_digest (demo_canon (g @ [(''prevHash'', JNull)])))) (Some (hash demo_digest (demo_canon g))))"
proof -
  let ?g = "[(''seq'', JNum (Fin 0))]"
  let ?r = "[(''prevHash'', JStr (hash demo_digest (demo_canon ?g)))]"
  have "case append_all demo_digest demo_canon new_chain [?g, ?r] of Inl _ \<Rightarrow> False | Inr _ \<Rightarrow> True"
    by code_simp
  moreover have "verify_records demo_digest demo_canon [?g, ?r] =
      Inr (ChainBroken 1 (Some (hash demo_digest (demo_canon (?g @ [(''prevHash'', JNull)])))) (Some (hash demo_digest (demo_canon ?g))))"
    by code_simp
  ultimately show ?thesis
    by (auto simp: Let_def split: sum.splits)
qed

end
