(* ===== verification/Multisig.thy ===== *)
theory Multisig
  imports Merkle_Tree Capability_Token Hash_Chain
begin

text \<open>
  Multi-signature tokens: the token factory (\<open>types/src/multisig/types.ts\<close>), the proof check
  (\<open>crypto/src/multisig/verify-multisig.ts\<close>), and the issuer and the verifier over it
  (\<open>identity/src/credentials/multisig\<close>). The signers' leaves are committed in the tree of
  \<open>Merkle_Tree\<close>.

  A token is a record with all six fields, so the checks for missing fields and for the types of fields
  have no counterpart. The environment holds the third-party code: Ed25519, SHA-256, the canonical text
  of a leaf and of a payload, the schema validator, and the engine's reading of date strings.
\<close>

subsection \<open>Tokens\<close>

record signer_info =
  si_id :: string
  si_role :: string
  si_publicKey :: string
  si_signature :: string

record ms_inclusion =
  mi_signerId :: string
  mi_path :: string

record ms_token =
  mt_version :: string
  mt_threshold :: number
  mt_signers :: "signer_info list"
  mt_merkleRoot :: string
  mt_proofs :: "ms_inclusion list"
  mt_csp :: js_object

record ms_env =
  me_pf :: platform
  me_sha :: "bytes \<Rightarrow> bytes"
  me_leaf :: "signer_leaf \<Rightarrow> bytes"
  me_jcs :: "js_object \<Rightarrow> string"
  me_schema :: "ms_token \<Rightarrow> bool"
  me_date :: "string \<Rightarrow> int option"

definition isInteger :: "number \<Rightarrow> bool" where
  "isInteger n = (case n of Fin r \<Rightarrow> of_int \<lfloor>r\<rfloor> = r | _ \<Rightarrow> False)"

definition canonicalSerialize :: "ms_env \<Rightarrow> js_object \<Rightarrow> string option" where
  "canonicalSerialize env payload = (if assertSerializable (JObj payload) then Some (me_jcs env payload) else None)"

subsection \<open>The token factory\<close>

definition MULTISIG_MERKLE_PATH_MAX_LENGTH :: nat where
  "MULTISIG_MERKLE_PATH_MAX_LENGTH = 8192"

definition MULTISIG_THRESHOLD_MAX_SANITY :: rat where
  "MULTISIG_THRESHOLD_MAX_SANITY = 1000"

definition UUID_V4_PATTERN :: "string \<Rightarrow> bool" where
  "UUID_V4_PATTERN s =
     (length s = 36 \<and>
      list_all (\<lambda>i. let c = s ! i in
        if i \<in> {8, 13, 18, 23} then c = CHR ''-''
        else if i = 14 then c = CHR ''4''
        else if i = 19 then c \<in> set ''89abAB''
        else hex_value c \<noteq> None) [0..<36])"

definition toSignerId :: "string \<Rightarrow> multisig_error + string" where
  "toSignerId s =
     (if take 4 s = ''did:'' \<and> 4 < length s then Inr s
      else if UUID_V4_PATTERN s then Inr s
      else Inl MULTISIG_SIGNER_ID_INVALID)"

definition toMerklePath :: "string \<Rightarrow> multisig_error + string" where
  "toMerklePath s =
     (let body = strip_padding s in
      if s = [] \<or> MULTISIG_MERKLE_PATH_MAX_LENGTH < length s then Inl MULTISIG_MERKLE_PATH_INVALID
      else if body = [] \<or> \<not> list_all (\<lambda>c. c \<in> set BASE64URL_CHARS) body then Inl MULTISIG_MERKLE_PATH_INVALID
      else Inr s)"

text \<open>The loop over the signers with the ids seen so far.\<close>

fun create_signers :: "string list \<Rightarrow> signer_info list \<Rightarrow> multisig_error + unit" where
  "create_signers seen [] = Inr ()"
| "create_signers seen (s # ss) =
     res_bind (ensure (si_role s = ''human'' \<or> si_role s = ''agent'') MULTISIG_SCHEMA_VIOLATION) (\<lambda>_.
     res_bind (ensure (si_publicKey s \<noteq> []) MULTISIG_SCHEMA_VIOLATION) (\<lambda>_.
     res_bind (ensure (si_signature s \<noteq> []) MULTISIG_SCHEMA_VIOLATION) (\<lambda>_.
     res_bind (toSignerId (si_id s)) (\<lambda>i.
     res_bind (ensure (i \<notin> set seen) MULTISIG_SIGNER_DUPLICATE) (\<lambda>_.
     create_signers (i # seen) ss)))))"

fun create_proofs :: "string list \<Rightarrow> string list \<Rightarrow> ms_inclusion list \<Rightarrow> multisig_error + unit" where
  "create_proofs ids seen [] = Inr ()"
| "create_proofs ids seen (p # ps) =
     res_bind (toSignerId (mi_signerId p)) (\<lambda>i.
     res_bind (toMerklePath (mi_path p)) (\<lambda>_.
     res_bind (ensure (i \<notin> set seen) MULTISIG_INCLUSION_PROOF_MISSING) (\<lambda>_.
     res_bind (ensure (i \<in> set ids) MULTISIG_INCLUSION_PROOF_MISSING) (\<lambda>_.
     create_proofs ids (i # seen) ps))))"

definition createMultisigToken :: "ms_token \<Rightarrow> multisig_error + ms_token" where
  "createMultisigToken t =
     res_bind (ensure (mt_version t = ''1.0.0'') MULTISIG_VERSION_UNSUPPORTED) (\<lambda>_.
     res_bind (ensure (isInteger (mt_threshold t) \<and> \<not> num_lt (mt_threshold t) (Fin 1) \<and>
       \<not> num_lt (Fin MULTISIG_THRESHOLD_MAX_SANITY) (mt_threshold t)) MULTISIG_THRESHOLD_INVALID) (\<lambda>_.
     res_bind (ensure (\<not> num_lt (Fin (of_nat (length (mt_signers t)))) (mt_threshold t)) MULTISIG_SIGNERS_INSUFFICIENT) (\<lambda>_.
     res_bind (create_signers [] (mt_signers t)) (\<lambda>_.
     res_bind (ensure (mt_merkleRoot t \<noteq> []) MULTISIG_MERKLE_ROOT_INVALID) (\<lambda>_.
     res_bind (ensure (length (mt_proofs t) = length (mt_signers t)) MULTISIG_INCLUSION_PROOF_MISSING) (\<lambda>_.
     res_bind (create_proofs (map si_id (mt_signers t)) [] (mt_proofs t)) (\<lambda>_.
     Inr t)))))))"

subsection \<open>Checking a proof\<close>

text \<open>Hex or base64url text of a fixed number of bytes.\<close>

definition assertSignerSignature :: "string \<Rightarrow> multisig_error + bytes" where
  "assertSignerSignature sig =
     res_bind (ensure (sig \<noteq> []) MULTISIG_PARTIAL_SIGNED_REJECTED) (\<lambda>_.
     res_bind (res_error MULTISIG_SIGNATURE_INVALID (normalizeKey sig)) (\<lambda>bs.
     res_bind (ensure (length bs = 64) MULTISIG_SIGNATURE_INVALID) (\<lambda>_. Inr bs)))"

definition assertSignerPublicKey :: "string \<Rightarrow> multisig_error + bytes" where
  "assertSignerPublicKey key =
     res_bind (ensure (key \<noteq> []) MULTISIG_SIGNATURE_INVALID) (\<lambda>_.
     res_bind (res_error MULTISIG_SIGNATURE_INVALID (normalizeKey key)) (\<lambda>bs.
     res_bind (ensure (length bs = 32) MULTISIG_SIGNATURE_INVALID) (\<lambda>_. Inr bs)))"

definition decodeMerkleRoot :: "string \<Rightarrow> multisig_error + bytes" where
  "decodeMerkleRoot r =
     res_bind (ensure (r \<noteq> []) MULTISIG_MERKLE_ROOT_INVALID) (\<lambda>_.
     res_bind (res_error MULTISIG_MERKLE_ROOT_INVALID (normalizeKey r)) (\<lambda>bs.
     res_bind (ensure (length bs = 32) MULTISIG_MERKLE_ROOT_INVALID) (\<lambda>_. Inr bs)))"

fun check_signer_ids :: "string list \<Rightarrow> signer_info list \<Rightarrow> multisig_error + unit" where
  "check_signer_ids seen [] = Inr ()"
| "check_signer_ids seen (s # ss) =
     res_bind (ensure (si_id s \<noteq> []) MULTISIG_SIGNER_ID_INVALID) (\<lambda>_.
     res_bind (ensure (si_id s \<notin> set seen) MULTISIG_SIGNER_DUPLICATE) (\<lambda>_.
     res_bind (ensure (si_role s = ''human'' \<or> si_role s = ''agent'') MULTISIG_SCHEMA_VIOLATION) (\<lambda>_.
     check_signer_ids (si_id s # seen) ss)))"

fun build_proof_map :: "string list \<Rightarrow> (string, string) js_map \<Rightarrow> ms_inclusion list \<Rightarrow> multisig_error + (string, string) js_map" where
  "build_proof_map ids m [] = Inr m"
| "build_proof_map ids m (p # ps) =
     res_bind (ensure (mi_signerId p \<noteq> []) MULTISIG_INCLUSION_PROOF_MISSING) (\<lambda>_.
     res_bind (ensure (mi_path p \<noteq> []) MULTISIG_MERKLE_PATH_INVALID) (\<lambda>_.
     res_bind (ensure (jm_get m (mi_signerId p) = None) MULTISIG_INCLUSION_PROOF_MISSING) (\<lambda>_.
     res_bind (ensure (mi_signerId p \<in> set ids) MULTISIG_INCLUSION_PROOF_MISSING) (\<lambda>_.
     build_proof_map ids (jm_set m (mi_signerId p) (mi_path p)) ps))))"

definition leaf_of :: "signer_info \<Rightarrow> signer_leaf" where
  "leaf_of s = \<lparr>sl_id = si_id s, sl_role = si_role s, sl_signature = si_signature s\<rparr>"

definition check_signer :: "ms_env \<Rightarrow> string \<Rightarrow> (string, string) js_map \<Rightarrow> bytes \<Rightarrow> signer_info \<Rightarrow> multisig_error + unit" where
  "check_signer env signedText proofMap merkle s =
     res_bind (assertSignerSignature (si_signature s)) (\<lambda>signatureBytes.
     res_bind (assertSignerPublicKey (si_publicKey s)) (\<lambda>publicKeyBytes.
     res_bind (generateMerkleLeaf (me_sha env) (me_leaf env) (leaf_of s)) (\<lambda>leaf.
     case jm_get proofMap (si_id s) of
       None \<Rightarrow> Inl MULTISIG_INCLUSION_PROOF_MISSING
     | Some pathStr \<Rightarrow>
         res_bind (decodeMerklePath pathStr) (\<lambda>pathBytes.
         res_bind (verifyMerkleInclusion (me_sha env) leaf pathBytes merkle) (\<lambda>inclusionValid.
         res_bind (ensure inclusionValid MULTISIG_MERKLE_ROOT_INVALID) (\<lambda>_.
         ensure (ed_verify (me_pf env) signatureBytes signedText publicKeyBytes) MULTISIG_SIGNATURE_INVALID))))))"

fun count_signers :: "ms_env \<Rightarrow> string \<Rightarrow> (string, string) js_map \<Rightarrow> bytes \<Rightarrow> nat \<Rightarrow> signer_info list \<Rightarrow> multisig_error + nat" where
  "count_signers env signedText proofMap merkle validCount [] = Inr validCount"
| "count_signers env signedText proofMap merkle validCount (s # ss) =
     res_bind (check_signer env signedText proofMap merkle s) (\<lambda>_.
     count_signers env signedText proofMap merkle (validCount + 1) ss)"

definition verifyMultisigProof :: "ms_env \<Rightarrow> bool \<Rightarrow> string option \<Rightarrow> ms_token \<Rightarrow> multisig_error + nat \<times> number" where
  "verifyMultisigProof env enforceFullSchema cspSignedText t =
     res_bind (ensure (\<not> enforceFullSchema \<or> me_schema env t) MULTISIG_SCHEMA_VIOLATION) (\<lambda>_.
     res_bind (ensure (mt_version t = ''1.0.0'') MULTISIG_VERSION_UNSUPPORTED) (\<lambda>_.
     res_bind (ensure (isInteger (mt_threshold t) \<and> \<not> num_lt (mt_threshold t) (Fin 1)) MULTISIG_THRESHOLD_INVALID) (\<lambda>_.
     res_bind (ensure (\<not> num_lt (Fin (of_nat (length (mt_signers t)))) (mt_threshold t)) MULTISIG_SIGNERS_INSUFFICIENT) (\<lambda>_.
     res_bind (check_signer_ids [] (mt_signers t)) (\<lambda>_.
     res_bind (ensure (length (mt_proofs t) = length (mt_signers t)) MULTISIG_INCLUSION_PROOF_MISSING) (\<lambda>_.
     res_bind (build_proof_map (map si_id (mt_signers t)) [] (mt_proofs t)) (\<lambda>proofMap.
     res_bind (decodeMerkleRoot (mt_merkleRoot t)) (\<lambda>merkle.
     res_bind (case cspSignedText of Some m \<Rightarrow> Inr m
               | None \<Rightarrow> (case canonicalSerialize env (mt_csp t) of None \<Rightarrow> Inl MULTISIG_SCHEMA_VIOLATION | Some m \<Rightarrow> Inr m)) (\<lambda>signedText.
     res_bind (count_signers env signedText proofMap merkle 0 (mt_signers t)) (\<lambda>validCount.
     res_bind (ensure (\<not> num_lt (Fin (of_nat validCount)) (mt_threshold t)) MULTISIG_QUORUM_INSUFFICIENT) (\<lambda>_.
     Inr (validCount, mt_threshold t))))))))))))"

subsection \<open>The verifier\<close>

record ms_verify_options =
  vo_expectedAudience :: string
  vo_expectedChallenge :: string
  vo_now :: int
  vo_minValidityWindowMs :: int
  vo_enforceFullSchema :: bool

definition DEFAULT_MIN_VALIDITY_WINDOW_MS :: int where
  "DEFAULT_MIN_VALIDITY_WINDOW_MS = 1000"

definition verifyMultisigToken :: "ms_env \<Rightarrow> ms_verify_options \<Rightarrow> ms_token \<Rightarrow> multisig_error + nat \<times> number" where
  "verifyMultisigToken env opts t =
     res_bind (ensure (vo_expectedAudience opts \<noteq> []) MULTISIG_SCHEMA_VIOLATION) (\<lambda>_.
     res_bind (ensure (vo_expectedChallenge opts \<noteq> []) MULTISIG_CHALLENGE_INVALID) (\<lambda>_.
     res_bind (ensure (get_prop (mt_csp t) ''challenge'' = JStr (vo_expectedChallenge opts)) MULTISIG_CHALLENGE_INVALID) (\<lambda>_.
     res_bind (ensure (get_prop (mt_csp t) ''audience'' = JStr (vo_expectedAudience opts)) MULTISIG_SCHEMA_VIOLATION) (\<lambda>_.
     res_bind (case get_prop (mt_csp t) ''notAfter'' of
                 JStr n \<Rightarrow> (case me_date env n of
                    None \<Rightarrow> Inl MULTISIG_SCHEMA_VIOLATION
                  | Some ms \<Rightarrow> ensure (vo_now opts + vo_minValidityWindowMs opts < ms) MULTISIG_SCHEMA_VIOLATION)
               | _ \<Rightarrow> Inl MULTISIG_SCHEMA_VIOLATION) (\<lambda>_.
     case canonicalSerialize env (mt_csp t) of
       None \<Rightarrow> Inl MULTISIG_SCHEMA_VIOLATION
     | Some m \<Rightarrow> verifyMultisigProof env (vo_enforceFullSchema opts) (Some m) t)))))"

subsection \<open>The issuer\<close>

record signer_key =
  sk_id :: string
  sk_role :: string
  sk_publicKey :: string
  sk_privateKey :: string

record ms_issue_input =
  ms_signers :: "signer_key list"
  ms_threshold :: number
  ms_csp :: js_object
  ms_rootEncoding :: encoding

text \<open>A \<open>MultisigError\<close>, or the plain error of the token factory.\<close>

datatype ms_exn = MsError multisig_error | PlainError multisig_error

fun check_signer_keys :: "string list \<Rightarrow> signer_key list \<Rightarrow> multisig_error + unit" where
  "check_signer_keys seen [] = Inr ()"
| "check_signer_keys seen (k # ks) =
     res_bind (ensure (sk_id k \<noteq> []) MULTISIG_SIGNER_ID_INVALID) (\<lambda>_.
     res_bind (ensure (sk_id k \<notin> set seen) MULTISIG_SIGNER_DUPLICATE) (\<lambda>_.
     res_bind (ensure ((sk_role k = ''human'' \<or> sk_role k = ''agent'') \<and> sk_publicKey k \<noteq> [] \<and> sk_privateKey k \<noteq> [])
       MULTISIG_SIGNATURE_INVALID) (\<lambda>_.
     check_signer_keys (sk_id k # seen) ks)))"

text \<open>\<open>map\<close> with a function that may throw.\<close>

fun res_map :: "('a \<Rightarrow> 'e + 'b) \<Rightarrow> 'a list \<Rightarrow> 'e + 'b list" where
  "res_map f [] = Inr []"
| "res_map f (x # xs) = res_bind (f x) (\<lambda>y. res_bind (res_map f xs) (\<lambda>ys. Inr (y # ys)))"

definition sign_signer :: "ms_env \<Rightarrow> string \<Rightarrow> signer_key \<Rightarrow> multisig_error + signer_info" where
  "sign_signer env signedText k =
     res_bind (res_error MULTISIG_SIGNATURE_INVALID (sign (me_pf env) signedText (sk_privateKey k) EncHex)) (\<lambda>sig.
     Inr \<lparr>si_id = sk_id k, si_role = sk_role k, si_publicKey = sk_publicKey k, si_signature = sig\<rparr>)"

fun pre_verify :: "ms_env \<Rightarrow> string \<Rightarrow> nat \<Rightarrow> signer_info list \<Rightarrow> multisig_error + nat" where
  "pre_verify env signedText validCount [] = Inr validCount"
| "pre_verify env signedText validCount (s # ss) =
     res_bind (res_error MULTISIG_SIGNATURE_INVALID (verify (me_pf env) signedText (si_signature s) (si_publicKey s))) (\<lambda>valid.
     pre_verify env signedText (if valid then validCount + 1 else validCount) ss)"

definition ms_error :: "multisig_error + 'a \<Rightarrow> ms_exn + 'a" where
  "ms_error m = (case m of Inl e \<Rightarrow> Inl (MsError e) | Inr a \<Rightarrow> Inr a)"

definition plain_error :: "multisig_error + 'a \<Rightarrow> ms_exn + 'a" where
  "plain_error m = (case m of Inl e \<Rightarrow> Inl (PlainError e) | Inr a \<Rightarrow> Inr a)"

definition sign_and_commit :: "ms_env \<Rightarrow> ms_issue_input \<Rightarrow> multisig_error + ms_token" where
  "sign_and_commit env inp =
     res_bind (ensure (ms_signers inp \<noteq> []) MULTISIG_SIGNERS_INSUFFICIENT) (\<lambda>_.
     res_bind (ensure (isInteger (ms_threshold inp) \<and> \<not> num_lt (ms_threshold inp) (Fin 1)) MULTISIG_THRESHOLD_INVALID) (\<lambda>_.
     res_bind (ensure (\<not> num_lt (Fin (of_nat (length (ms_signers inp)))) (ms_threshold inp)) MULTISIG_SIGNERS_INSUFFICIENT) (\<lambda>_.
     res_bind (check_signer_keys [] (ms_signers inp)) (\<lambda>_.
     case canonicalSerialize env (ms_csp inp) of
       None \<Rightarrow> Inl MULTISIG_SCHEMA_VIOLATION
     | Some signedText \<Rightarrow>
         res_bind (res_map (sign_signer env signedText) (ms_signers inp)) (\<lambda>signers.
         res_bind (pre_verify env signedText 0 signers) (\<lambda>validCount.
         res_bind (ensure (\<not> num_lt (Fin (of_nat validCount)) (ms_threshold inp)) MULTISIG_QUORUM_INSUFFICIENT) (\<lambda>_.
         res_bind (res_map (\<lambda>s. generateMerkleLeaf (me_sha env) (me_leaf env) (leaf_of s)) signers) (\<lambda>leaves.
         res_bind (buildMerkleTree (me_sha env) leaves) (\<lambda>(merkle, paths).
         Inr \<lparr>mt_version = ''1.0.0'', mt_threshold = ms_threshold inp, mt_signers = signers,
              mt_merkleRoot = (if ms_rootEncoding inp = EncBase64Url then toBase64Url merkle else toHex merkle),
              mt_proofs = map2 (\<lambda>s p. \<lparr>mi_signerId = si_id s, mi_path = encodeMerklePath p\<rparr>) signers paths,
              mt_csp = ms_csp inp\<rparr>)))))))))"

definition issueMultisigToken :: "ms_env \<Rightarrow> ms_issue_input \<Rightarrow> ms_exn + ms_token" where
  "issueMultisigToken env inp = res_bind (ms_error (sign_and_commit env inp)) (\<lambda>t. plain_error (createMultisigToken t))"

subsection \<open>What the loops compute\<close>

lemma check_signer_ids_Inr:
  "check_signer_ids seen ss = Inr u \<longleftrightarrow>
     distinct (map si_id ss) \<and> set (map si_id ss) \<inter> set seen = {} \<and>
     (\<forall>s \<in> set ss. si_id s \<noteq> [] \<and> (si_role s = ''human'' \<or> si_role s = ''agent''))"
  by (induction seen ss rule: check_signer_ids.induct) (auto simp: res_bind_Inr)

lemma count_signers_Inr:
  "count_signers env m pm r c ss = Inr n \<longleftrightarrow> n = c + length ss \<and> (\<forall>s \<in> set ss. check_signer env m pm r s = Inr ())"
  by (induction env m pm r c ss rule: count_signers.induct) (auto simp: res_bind_Inr)

lemma count_signers_cases:
  assumes "\<And>s. s \<in> set ss \<Longrightarrow> check_signer env m pm r s = ensure (P s) e"
  shows "count_signers env m pm r c ss = (if \<forall>s \<in> set ss. P s then Inr (c + length ss) else Inl e)"
  using assms by (induction ss arbitrary: c) (auto simp: ensure_bind)

lemma check_signer_Inr:
  assumes "check_signer env m pm r s = Inr ()"
  shows "\<exists>sig key leaf path. normalizeKey (si_signature s) = Inr sig \<and> length sig = 64 \<and> normalizeKey (si_publicKey s) = Inr key \<and>
    length key = 32 \<and> ed_verify (me_pf env) sig m key \<and> generateMerkleLeaf (me_sha env) (me_leaf env) (leaf_of s) = Inr leaf \<and>
    verifyMerkleInclusion (me_sha env) leaf path r = Inr True"
  using assms unfolding check_signer_def assertSignerSignature_def assertSignerPublicKey_def
  by (auto simp: res_bind_Inr split: option.splits)

lemma proof_Inr:
  assumes "verifyMultisigProof env enforce (Some m) t = Inr (n, thr)"
  shows "thr = mt_threshold t \<and> n = length (mt_signers t) \<and> isInteger thr \<and> \<not> num_lt thr (Fin 1) \<and> \<not> num_lt (Fin (of_nat n)) thr \<and>
    distinct (map si_id (mt_signers t)) \<and>
    (\<exists>pm merkle. decodeMerkleRoot (mt_merkleRoot t) = Inr merkle \<and> (\<forall>s \<in> set (mt_signers t). check_signer env m pm merkle s = Inr ()))"
  using assms unfolding verifyMultisigProof_def
  by (auto simp: res_bind_Inr check_signer_ids_Inr count_signers_Inr)

text \<open>
  C24 (safety). What an accepted multi-signature token proves: its challenge and audience are the
  verifier's, it stays valid for longer than the required window, the signers have distinct ids, at
  least the threshold of them is there and all of them are counted, and every signer's signature is an
  Ed25519 signature of the canonical payload under the key the token names and is committed, with the
  signer's id and role, under the Merkle root.
\<close>

theorem accepted_multisig:
  assumes "verifyMultisigToken env opts t = Inr (n, thr)"
  shows "get_prop (mt_csp t) ''challenge'' = JStr (vo_expectedChallenge opts) \<and> get_prop (mt_csp t) ''audience'' = JStr (vo_expectedAudience opts) \<and>
    (\<exists>e ms. get_prop (mt_csp t) ''notAfter'' = JStr e \<and> me_date env e = Some ms \<and> vo_now opts + vo_minValidityWindowMs opts < ms) \<and>
    thr = mt_threshold t \<and> n = length (mt_signers t) \<and> isInteger thr \<and> \<not> num_lt thr (Fin 1) \<and> \<not> num_lt (Fin (of_nat n)) thr \<and>
    distinct (map si_id (mt_signers t)) \<and>
    (\<exists>m merkle. canonicalSerialize env (mt_csp t) = Some m \<and> decodeMerkleRoot (mt_merkleRoot t) = Inr merkle \<and>
       (\<forall>s \<in> set (mt_signers t). \<exists>sig key leaf path.
          normalizeKey (si_signature s) = Inr sig \<and> length sig = 64 \<and> normalizeKey (si_publicKey s) = Inr key \<and> length key = 32 \<and>
          ed_verify (me_pf env) sig m key \<and> generateMerkleLeaf (me_sha env) (me_leaf env) (leaf_of s) = Inr leaf \<and>
          verifyMerkleInclusion (me_sha env) leaf path merkle = Inr True))"
proof -
  obtain e ms m where v: "get_prop (mt_csp t) ''challenge'' = JStr (vo_expectedChallenge opts)" "get_prop (mt_csp t) ''audience'' = JStr (vo_expectedAudience opts)"
    "get_prop (mt_csp t) ''notAfter'' = JStr e" "me_date env e = Some ms" "vo_now opts + vo_minValidityWindowMs opts < ms"
    "canonicalSerialize env (mt_csp t) = Some m" and p: "verifyMultisigProof env (vo_enforceFullSchema opts) (Some m) t = Inr (n, thr)"
    using assms unfolding verifyMultisigToken_def by (auto simp: res_bind_Inr split: option.splits jsval.splits)
  note q = proof_Inr[OF p]
  then obtain pm merkle where r: "decodeMerkleRoot (mt_merkleRoot t) = Inr merkle" "\<forall>s \<in> set (mt_signers t). check_signer env m pm merkle s = Inr ()"
    by blast
  have "\<exists>m merkle. canonicalSerialize env (mt_csp t) = Some m \<and> decodeMerkleRoot (mt_merkleRoot t) = Inr merkle \<and>
       (\<forall>s \<in> set (mt_signers t). \<exists>sig key leaf path.
          normalizeKey (si_signature s) = Inr sig \<and> length sig = 64 \<and> normalizeKey (si_publicKey s) = Inr key \<and> length key = 32 \<and>
          ed_verify (me_pf env) sig m key \<and> generateMerkleLeaf (me_sha env) (me_leaf env) (leaf_of s) = Inr leaf \<and>
          verifyMerkleInclusion (me_sha env) leaf path merkle = Inr True)"
    using v(6) r check_signer_Inr by blast
  with v(1-5) q show ?thesis by blast
qed

subsection \<open>Issued tokens\<close>

lemma res_map_Inr: "res_map f xs = Inr ys \<longleftrightarrow> list_all2 (\<lambda>x y. f x = Inr y) xs ys"
  by (induction xs arbitrary: ys) (auto simp: res_bind_Inr list_all2_Cons1)

lemma pre_verify_Inr:
  "pre_verify env m c ss = Inr n \<Longrightarrow> s \<in> set ss \<Longrightarrow> \<exists>v. verify (me_pf env) m (si_signature s) (si_publicKey s) = Inr v"
  by (induction env m c ss rule: pre_verify.induct) (auto simp: res_bind_Inr)

lemma build_proof_map_Inr:
  "list_all (\<lambda>p. mi_signerId p \<noteq> [] \<and> mi_path p \<noteq> [] \<and> mi_signerId p \<in> set ids) ps \<Longrightarrow> distinct (map mi_signerId ps) \<Longrightarrow>
   set (map mi_signerId ps) \<inter> fst ` set m = {} \<Longrightarrow>
   build_proof_map ids m ps = Inr (m @ map (\<lambda>p. (mi_signerId p, mi_path p)) ps)"
proof (induction ps arbitrary: m)
  case (Cons p ps)
  have new: "jm_get m (mi_signerId p) = None" using Cons.prems(3) by (auto simp: jm_get_def map_of_eq_None_iff)
  moreover have "jm_set m k v = m @ [(k, v)]" if "jm_get m k = None" for k and v :: string
    using that by (induction m k v rule: jm_set.induct) (auto simp: jm_get_def split: if_splits)
  ultimately show ?case
    using Cons by (simp add: ensure_bind)
qed simp

lemma toSignerId_Inr: "toSignerId s = Inr i \<Longrightarrow> i = s \<and> s \<noteq> []"
  by (auto simp: toSignerId_def UUID_V4_PATTERN_def split: if_splits)

lemma create_signers_Inr:
  "create_signers seen ss = Inr u \<Longrightarrow> distinct (map si_id ss) \<and> set (map si_id ss) \<inter> set seen = {} \<and>
     (\<forall>s \<in> set ss. si_id s \<noteq> [] \<and> (si_role s = ''human'' \<or> si_role s = ''agent''))"
  by (induction seen ss rule: create_signers.induct) (auto simp: res_bind_Inr dest!: toSignerId_Inr)

lemma create_proofs_Inr: "create_proofs ids seen ps = Inr u \<Longrightarrow> p \<in> set ps \<Longrightarrow> mi_path p \<noteq> []"
  by (induction ids seen ps rule: create_proofs.induct) (auto simp: res_bind_Inr toMerklePath_def)

lemma created_Inr:
  assumes "createMultisigToken t = Inr t'"
  shows "t' = t \<and> check_signer_ids [] (mt_signers t) = Inr () \<and> (\<forall>p \<in> set (mt_proofs t). mi_path p \<noteq> []) \<and>
    length (mt_proofs t) = length (mt_signers t)"
  using assms unfolding createMultisigToken_def
  by (auto simp: res_bind_Inr check_signer_ids_Inr dest: create_signers_Inr create_proofs_Inr)

lemma committed_Inr:
  assumes "sign_and_commit env inp = Inr t"
  obtains m n leaves merkle paths where "canonicalSerialize env (ms_csp inp) = Some m" "mt_csp t = ms_csp inp" "mt_version t = ''1.0.0''"
    "mt_threshold t = ms_threshold inp" "isInteger (ms_threshold inp)" "\<not> num_lt (ms_threshold inp) (Fin 1)"
    "\<not> num_lt (Fin (of_nat (length (ms_signers inp)))) (ms_threshold inp)"
    "list_all2 (\<lambda>k s. sign_signer env m k = Inr s) (ms_signers inp) (mt_signers t)" "pre_verify env m 0 (mt_signers t) = Inr n"
    "list_all2 (\<lambda>s l. generateMerkleLeaf (me_sha env) (me_leaf env) (leaf_of s) = Inr l) (mt_signers t) leaves"
    "buildMerkleTree (me_sha env) leaves = Inr (merkle, paths)"
    "mt_merkleRoot t = (if ms_rootEncoding inp = EncBase64Url then toBase64Url merkle else toHex merkle)"
    "mt_proofs t = map2 (\<lambda>s p. \<lparr>mi_signerId = si_id s, mi_path = encodeMerklePath p\<rparr>) (mt_signers t) paths"
  using assms unfolding sign_and_commit_def
  by (auto simp: res_bind_Inr res_map_Inr split: option.splits)

lemma signed_signature:
  assumes "sign_signer env m k = Inr s" "ed25519_laws (me_pf env)"
  shows "\<exists>sig. assertSignerSignature (si_signature s) = Inr sig \<and> assertSignature (si_signature s) = Inr sig"
proof -
  from assms(1) obtain kb where k: "assertPrivateKey (sk_privateKey k) = Inr kb" "si_signature s = toHex (ed_sign (me_pf env) m (take 32 kb))"
    by (auto simp: sign_signer_def res_bind_Inr sign_def Let_def split: sum.splits)
  have "length (take 32 kb) = 32" using k(1) by (auto simp: assertPrivateKey_def split: sum.splits if_splits)
  then have l: "length (ed_sign (me_pf env) m (take 32 kb)) = 64" using assms(2) by (simp add: ed25519_laws_def)
  then have "toHex (ed_sign (me_pf env) m (take 32 kb)) \<noteq> []" using length_toHex by (metis list.size(3) mult_eq_0_iff zero_neq_numeral)
  with l show ?thesis
    by (simp add: k(2) assertSignerSignature_def assertSignature_def normalizeKey_toHex res_error_def ensure_bind)
qed

lemma usable_key:
  assumes "verify pf m sig pk = Inr v" "assertSignature sig = Inr sb"
  shows "\<exists>key. assertSignerPublicKey pk = Inr key \<and> v = ed_verify pf sb m key"
proof -
  from assms obtain key where key: "normalizeKey pk = Inr key" "length key = 32" "v = ed_verify pf sb m key"
    by (auto simp: verify_def assertPublicKey_def split: sum.splits if_splits)
  have "pk \<noteq> []" using key by (auto simp: normalizeKey_def detectEncoding_def fromHex_def split: if_splits)
  with key show ?thesis by (auto simp: assertSignerPublicKey_def res_error_def ensure_bind)
qed

text \<open>One signer of a committed token.\<close>

lemma committed_signer:
  assumes laws: "ed25519_laws (me_pf env)" and sha: "\<And>x. length (me_sha env x) = 32"
    and signed: "list_all2 (\<lambda>k s. sign_signer env m k = Inr s) ks ss" and ver: "pre_verify env m 0 ss = Inr n"
    and leaf: "list_all2 (\<lambda>s l. generateMerkleLeaf (me_sha env) (me_leaf env) (leaf_of s) = Inr l) ss leaves"
    and tree: "buildMerkleTree (me_sha env) leaves = Inr (merkle, paths)"
    and ids: "distinct (map si_id ss)" and i: "i < length ss"
  shows "length paths = length ss \<and> length merkle = 32 \<and>
    check_signer env m (map2 (\<lambda>s p. (si_id s, encodeMerklePath p)) ss paths) merkle (ss ! i) =
      ensure (verify (me_pf env) m (si_signature (ss ! i)) (si_publicKey (ss ! i)) = Inr True) MULTISIG_SIGNATURE_INVALID"
proof -
  let ?s = "ss ! i" and ?pm = "map2 (\<lambda>s p. (si_id s, encodeMerklePath p)) ss paths"
  have len: "length leaves = length ss" using leaf by (simp add: list_all2_lengthD)
  have path: "length paths = length ss" "verifyMerkleInclusion (me_sha env) (leaves ! i) (paths ! i) merkle = Inr True"
    using merkle_paths_verify[OF sha tree, of i] i len by simp_all
  have l: "generateMerkleLeaf (me_sha env) (me_leaf env) (leaf_of ?s) = Inr (leaves ! i)"
    using list_all2_nthD[OF leaf i] .
  have "map fst ?pm = map si_id ss" using path(1) by (intro nth_equalityI) simp_all
  moreover have "(si_id ?s, encodeMerklePath (paths ! i)) \<in> set ?pm" using path(1) i by (auto simp: set_zip)
  ultimately have got: "jm_get ?pm (si_id ?s) = Some (encodeMerklePath (paths ! i))"
    unfolding jm_get_def using ids by (intro map_of_is_SomeI) simp_all
  have "i < length ks" using i signed by (simp add: list_all2_lengthD)
  from list_all2_nthD[OF signed this] obtain sb where sb: "assertSignerSignature (si_signature ?s) = Inr sb" "assertSignature (si_signature ?s) = Inr sb"
    using signed_signature[OF _ laws] by blast
  obtain v where v: "verify (me_pf env) m (si_signature ?s) (si_publicKey ?s) = Inr v"
    using pre_verify_Inr[OF ver nth_mem[OF i]] by blast
  obtain key where key: "assertSignerPublicKey (si_publicKey ?s) = Inr key" "v = ed_verify (me_pf env) sb m key"
    using usable_key[OF v sb(2)] by blast
  have "decodeMerklePath (encodeMerklePath (paths ! i)) = Inr (paths ! i)" by (simp add: decodeMerklePath_def encodeMerklePath_def)
  then have "check_signer env m ?pm merkle ?s = ensure (verify (me_pf env) m (si_signature ?s) (si_publicKey ?s) = Inr True) MULTISIG_SIGNATURE_INVALID"
    by (simp add: check_signer_def sb(1) key l got path(2) v ensure_bind)
  moreover have "length merkle = 32" using path(2) by (auto simp: verifyMerkleInclusion_def split: if_splits)
  ultimately show ?thesis using path(1) by blast
qed

lemma decode_hex_root: "length merkle = 32 \<Longrightarrow> decodeMerkleRoot (toHex merkle) = Inr merkle"
proof -
  assume l: "length merkle = 32"
  then have "toHex merkle \<noteq> []" using length_toHex by (metis list.size(3) mult_eq_0_iff zero_neq_numeral)
  with l show ?thesis by (simp add: decodeMerkleRoot_def normalizeKey_toHex res_error_def ensure_bind)
qed

lemma issued_token_checks:
  assumes issue: "issueMultisigToken env inp = Inr t" and laws: "ed25519_laws (me_pf env)" and sha: "\<And>x. length (me_sha env x) = 32"
    and schema: "me_schema env t" and enc: "ms_rootEncoding inp = EncHex"
  shows "\<exists>m. canonicalSerialize env (mt_csp t) = Some m \<and> verifyMultisigProof env True None t =
    (if \<forall>s \<in> set (mt_signers t). verify (me_pf env) m (si_signature s) (si_publicKey s) = Inr True
     then Inr (length (mt_signers t), mt_threshold t) else Inl MULTISIG_SIGNATURE_INVALID)"
proof -
  have commit: "sign_and_commit env inp = Inr t" and created: "createMultisigToken t = Inr t"
    using issue created_Inr unfolding issueMultisigToken_def
    by (auto simp: res_bind_Inr ms_error_def plain_error_def split: sum.splits)
  note c = created_Inr[OF created]
  obtain m n leaves merkle paths where f: "canonicalSerialize env (ms_csp inp) = Some m" "mt_csp t = ms_csp inp" "mt_version t = ''1.0.0''"
    "mt_threshold t = ms_threshold inp" "isInteger (ms_threshold inp)" "\<not> num_lt (ms_threshold inp) (Fin 1)"
    "\<not> num_lt (Fin (of_nat (length (ms_signers inp)))) (ms_threshold inp)"
    and signed: "list_all2 (\<lambda>k s. sign_signer env m k = Inr s) (ms_signers inp) (mt_signers t)" and ver: "pre_verify env m 0 (mt_signers t) = Inr n"
    and leaf: "list_all2 (\<lambda>s l. generateMerkleLeaf (me_sha env) (me_leaf env) (leaf_of s) = Inr l) (mt_signers t) leaves"
    and tree: "buildMerkleTree (me_sha env) leaves = Inr (merkle, paths)"
    and out: "mt_merkleRoot t = (if ms_rootEncoding inp = EncBase64Url then toBase64Url merkle else toHex merkle)"
      "mt_proofs t = map2 (\<lambda>s p. \<lparr>mi_signerId = si_id s, mi_path = encodeMerklePath p\<rparr>) (mt_signers t) paths"
    by (rule committed_Inr[OF commit])
  let ?ss = "mt_signers t" and ?pm = "map2 (\<lambda>s p. (si_id s, encodeMerklePath p)) (mt_signers t) paths"
  have ids: "distinct (map si_id ?ss)" "\<forall>s \<in> set ?ss. si_id s \<noteq> []" using c by (auto simp: check_signer_ids_Inr)
  note one = committed_signer[OF laws sha signed ver leaf tree ids(1)]
  have "leaves \<noteq> []" using tree by (auto simp: buildMerkleTree_def)
  then have ne: "0 < length ?ss" using leaf by (cases leaves) (auto simp: list_all2_Cons2)
  note lens = conjunct1[OF one[OF ne]] conjunct1[OF conjunct2[OF one[OF ne]]]
  have pm: "build_proof_map (map si_id ?ss) [] (mt_proofs t) = Inr ?pm"
  proof -
    have "map mi_signerId (mt_proofs t) = map si_id ?ss"
      using lens(1) by (intro nth_equalityI) (simp_all add: out(2))
    moreover have "map (\<lambda>p. (mi_signerId p, mi_path p)) (mt_proofs t) = ?pm" by (simp add: out(2) comp_def split_def)
    moreover have "list_all (\<lambda>p. mi_signerId p \<noteq> [] \<and> mi_path p \<noteq> [] \<and> mi_signerId p \<in> set (map si_id ?ss)) (mt_proofs t)"
      using c ids(2) by (auto simp: list_all_iff out(2) dest: set_zip_leftD)
    ultimately show ?thesis using build_proof_map_Inr[of "map si_id ?ss" "mt_proofs t" "[]"] ids(1) by simp
  qed
  have count: "count_signers env m ?pm merkle 0 ?ss =
      (if \<forall>s \<in> set ?ss. verify (me_pf env) m (si_signature s) (si_publicKey s) = Inr True then Inr (0 + length ?ss) else Inl MULTISIG_SIGNATURE_INVALID)"
    by (rule count_signers_cases) (use one in \<open>auto simp: in_set_conv_nth\<close>)
  have root: "decodeMerkleRoot (mt_merkleRoot t) = Inr merkle"
    using decode_hex_root[OF lens(2)] enc by (simp add: out(1))
  have "length ?ss = length (ms_signers inp)" using signed by (simp add: list_all2_lengthD)
  then have "verifyMultisigProof env True None t =
    (if \<forall>s \<in> set ?ss. verify (me_pf env) m (si_signature s) (si_publicKey s) = Inr True
     then Inr (length ?ss, mt_threshold t) else Inl MULTISIG_SIGNATURE_INVALID)"
    unfolding verifyMultisigProof_def using f c schema by (simp add: ensure_bind pm root count)
  with f show ?thesis by auto
qed

text \<open>
  Remark (roundtrip). An issued token, with its root in hex, passes every check of the proof verifier but
  possibly one: it is accepted, with all signers counted, if each signature verifies under the public key
  given for that signer, and refused for its signature otherwise. So the issuer's own test, that the
  threshold is reached, is not enough: the verifier wants all signatures.
\<close>

theorem issued_multisig_verifies:
  assumes issue: "issueMultisigToken env inp = Inr t" and laws: "ed25519_laws (me_pf env)" and sha: "\<And>x. length (me_sha env x) = 32"
    and schema: "me_schema env t" and enc: "ms_rootEncoding inp = EncHex"
  shows "\<exists>m. canonicalSerialize env (mt_csp t) = Some m \<and> verifyMultisigProof env True None t =
    (if \<forall>s \<in> set (mt_signers t). verify (me_pf env) m (si_signature s) (si_publicKey s) = Inr True
     then Inr (length (mt_signers t), mt_threshold t) else Inl MULTISIG_SIGNATURE_INVALID)"
  by (rule issued_token_checks[OF assms])

text \<open>
  Remark (error). The issuer's contract allows a token with one signer and threshold one, but no such token
  is ever issued: the Merkle path of a single leaf is empty, and the token factory refuses an empty path.
\<close>

theorem single_signer_refused:
  assumes "length (ms_signers inp) = 1"
  shows "\<exists>e. issueMultisigToken env inp = Inl e"
proof (rule ccontr)
  assume "\<not> ?thesis"
  then obtain t where commit: "sign_and_commit env inp = Inr t" and created: "createMultisigToken t = Inr t"
    using created_Inr unfolding issueMultisigToken_def
    by (cases "sign_and_commit env inp") (auto simp: ms_error_def plain_error_def split: sum.splits)
  obtain m leaves merkle paths where signed: "list_all2 (\<lambda>k s. sign_signer env m k = Inr s) (ms_signers inp) (mt_signers t)"
    and leaf: "list_all2 (\<lambda>s l. generateMerkleLeaf (me_sha env) (me_leaf env) (leaf_of s) = Inr l) (mt_signers t) leaves"
    and tree: "buildMerkleTree (me_sha env) leaves = Inr (merkle, paths)"
    and proofs: "mt_proofs t = map2 (\<lambda>s p. \<lparr>mi_signerId = si_id s, mi_path = encodeMerklePath p\<rparr>) (mt_signers t) paths"
    by (rule committed_Inr[OF commit])
  have len: "length (mt_signers t) = 1" "length leaves = 1"
    using assms signed leaf by (simp_all add: list_all2_lengthD)
  then have "paths = [[]]" using tree by (auto simp: buildMerkleTree_def split: if_splits)
  then have "mi_path (hd (mt_proofs t)) = []" "mt_proofs t \<noteq> []"
    using len(1) by (cases "mt_signers t", auto simp: proofs encodeMerklePath_def)+
  with created_Inr[OF created] show False by (metis list.set_sel(1))
qed

subsection \<open>Issuing succeeds\<close>

lemma base64Url_size: "length (toBase64Url bs) \<le> 2 * length bs" "bs \<noteq> [] \<Longrightarrow> toBase64Url bs \<noteq> []"
  by (induction bs rule: toBase64Url.induct) auto

lemma tree_height: "cur \<noteq> [] \<Longrightarrow> length (tree_levels sha256 cur) \<le> length cur"
proof (induction sha256 cur rule: tree_levels.induct)
  case (1 sha256 cur)
  show ?case
  proof (cases "length cur \<le> 1")
    case True
    then show ?thesis using 1(2) by (subst tree_levels.simps) (simp add: Suc_leI)
  next
    case False
    have "next_level sha256 cur \<noteq> []" using False length_next_level[of sha256 cur] by (cases "next_level sha256 cur") auto
    from 1(1)[OF False this] have "length (tree_levels sha256 (next_level sha256 cur)) \<le> (length cur + 1) div 2"
      by (simp add: length_next_level)
    with False show ?thesis by (simp add: tree_levels_Cons)
  qed
qed

lemma audit_path_length: "length (audit_path levels i) \<le> length levels - 1"
proof (induction levels i rule: audit_path.induct)
  case (1 cur nxt rest i)
  then have "length (audit_path (nxt # rest) (i div 2)) \<le> length rest" by simp
  then show ?case by (simp add: Let_def le_SucI)
qed simp_all

lemma audit_path_nonempty: "2 \<le> length cur \<Longrightarrow> i < length cur \<Longrightarrow> audit_path (tree_levels sha256 cur) i \<noteq> []"
proof (induction sha256 cur arbitrary: i rule: tree_levels.induct)
  case (1 sha256 cur)
  obtain nxt rest where lv: "tree_levels sha256 (next_level sha256 cur) = nxt # rest"
    using tree_levels_nonempty by (cases "tree_levels sha256 (next_level sha256 cur)") auto
  have cur: "tree_levels sha256 cur = cur # nxt # rest" using 1(2) lv by (simp add: tree_levels_Cons)
  show ?case
  proof (cases "even i \<and> i + 1 = length cur \<and> 2 < length cur")
    case True
    then have "2 \<le> length (next_level sha256 cur)" "i div 2 < length (next_level sha256 cur)" by (auto simp: length_next_level)
    moreover have "\<not> length cur \<le> 1" using True by simp
    ultimately have "audit_path (nxt # rest) (i div 2) \<noteq> []" using 1(1) lv by metis
    then show ?thesis by (simp add: cur Let_def)
  next
    case False
    then have "odd i \<or> i + 1 < length cur" using 1(2,3) by (auto elim: oddE evenE)
    then show ?thesis using 1(3) by (auto simp: cur Let_def)
  qed
qed

lemma built_path_fits:
  assumes sha: "\<And>x. length (sha256 x) = 32" and build: "buildMerkleTree sha256 leaves = Inr (merkle, paths)"
    and many: "2 \<le> length leaves" "length leaves \<le> 100" and p: "p \<in> set paths"
  shows "toMerklePath (encodeMerklePath p) = Inr (encodeMerklePath p)"
proof -
  let ?lv = "tree_levels sha256 leaves"
  have len: "\<forall>n \<in> set leaves. length n = 32" using build by (auto simp: buildMerkleTree_def list_ex_iff split: if_splits)
  have "paths = map (\<lambda>i. encode_path (audit_path ?lv i)) [0..<length leaves]"
    using build many(1) by (auto simp: buildMerkleTree_def Let_def split: if_splits)
  with p obtain i where i: "i < length leaves" "p = encode_path (audit_path ?lv i)" by auto
  have segs: "\<forall>(s, d) \<in> set (audit_path ?lv i). length s = 32"
    using conjunct2[OF audit_path_correct[of sha256 leaves i, OF sha len i(1)]] by auto
  have l: "length p = 33 * length (audit_path ?lv i)" using length_encode_path[OF segs] i(2) by simp
  have "leaves \<noteq> []" using many(1) by auto
  then have "length (audit_path ?lv i) \<le> 99"
    using tree_height[of leaves sha256] audit_path_length[of ?lv i] many(2) by linarith
  then have "length (toBase64Url p) \<le> 8192" using l base64Url_size(1)[of p] by linarith
  moreover have "toBase64Url p \<noteq> []" using l audit_path_nonempty[OF many(1) i(1), of sha256] by (intro base64Url_size(2)) auto
  moreover have "strip_padding (toBase64Url p) = toBase64Url p" by (rule strip_padding_toBase64Url)
  moreover have "list_all (\<lambda>c. c \<in> set BASE64URL_CHARS) (toBase64Url p)" using toBase64Url_chars by (auto simp: list_all_iff)
  ultimately show ?thesis by (simp add: toMerklePath_def encodeMerklePath_def MULTISIG_MERKLE_PATH_MAX_LENGTH_def Let_def)
qed

text \<open>Keys that belong together, and an issuing input over them.\<close>

definition keys_match :: "platform \<Rightarrow> signer_key \<Rightarrow> bool" where
  "keys_match pf k = (\<exists>kb. assertPrivateKey (sk_privateKey k) = Inr kb \<and> sk_publicKey k = toHex (ed_public pf (take 32 kb)))"

definition signed_by :: "ms_env \<Rightarrow> string \<Rightarrow> signer_key \<Rightarrow> signer_info \<Rightarrow> bool" where
  "signed_by env m k s =
     (si_id s = sk_id k \<and> si_role s = sk_role k \<and> si_publicKey s = sk_publicKey k \<and> si_signature s \<noteq> [] \<and> sk_publicKey k \<noteq> [] \<and>
      verify (me_pf env) m (si_signature s) (si_publicKey s) = Inr True)"

definition signer_ok :: "signer_key \<Rightarrow> bool" where
  "signer_ok k = (take 4 (sk_id k) = ''did:'' \<and> 4 < length (sk_id k) \<and> (sk_role k = ''human'' \<or> sk_role k = ''agent''))"

lemma signs_and_verifies:
  assumes "keys_match (me_pf env) k" "ed25519_laws (me_pf env)"
  shows "\<exists>s. sign_signer env m k = Inr s \<and> signed_by env m k s"
proof -
  obtain kb where k: "assertPrivateKey (sk_privateKey k) = Inr kb" "sk_publicKey k = toHex (ed_public (me_pf env) (take 32 kb))"
    using assms(1) by (auto simp: keys_match_def)
  have "length (take 32 kb) = 32" using k(1) by (auto simp: assertPrivateKey_def split: sum.splits if_splits)
  then have l: "length (ed_sign (me_pf env) m (take 32 kb)) = 64" "length (ed_public (me_pf env) (take 32 kb)) = 32"
    "ed_verify (me_pf env) (ed_sign (me_pf env) m (take 32 kb)) m (ed_public (me_pf env) (take 32 kb))"
    using assms(2) by (auto simp: ed25519_laws_def)
  let ?sig = "ed_sign (me_pf env) m (take 32 kb)" and ?pub = "ed_public (me_pf env) (take 32 kb)"
  let ?s = "\<lparr>si_id = sk_id k, si_role = sk_role k, si_publicKey = sk_publicKey k, si_signature = toHex ?sig\<rparr>"
  have "toHex ?sig \<noteq> []" "toHex ?pub \<noteq> []" using length_toHex[of ?sig] length_toHex[of ?pub] l by auto
  moreover have "sign_signer env m k = Inr ?s" by (simp add: sign_signer_def sign_def k(1) res_error_def)
  moreover have "verify (me_pf env) m (toHex ?sig) (toHex ?pub) = Inr True"
    using l by (simp add: verify_def assertSignature_def assertPublicKey_def normalizeKey_toHex)
  ultimately show ?thesis by (intro exI[of _ ?s]) (simp add: k(2) signed_by_def)
qed

lemma check_signer_keys_ok:
  "distinct (map sk_id ks) \<Longrightarrow> set (map sk_id ks) \<inter> set seen = {} \<Longrightarrow>
   (\<And>k. k \<in> set ks \<Longrightarrow> sk_id k \<noteq> [] \<and> (sk_role k = ''human'' \<or> sk_role k = ''agent'') \<and> sk_publicKey k \<noteq> [] \<and> sk_privateKey k \<noteq> []) \<Longrightarrow>
   check_signer_keys seen ks = Inr ()"
  by (induction seen ks rule: check_signer_keys.induct) (auto simp: ensure_bind)

lemma create_signers_ok:
  "distinct (map si_id ss) \<Longrightarrow> set (map si_id ss) \<inter> set seen = {} \<Longrightarrow>
   (\<And>s. s \<in> set ss \<Longrightarrow> toSignerId (si_id s) = Inr (si_id s) \<and> (si_role s = ''human'' \<or> si_role s = ''agent'') \<and> si_publicKey s \<noteq> [] \<and> si_signature s \<noteq> []) \<Longrightarrow>
   create_signers seen ss = Inr ()"
  by (induction seen ss rule: create_signers.induct) (auto simp: ensure_bind)

lemma create_proofs_ok:
  "distinct (map mi_signerId ps) \<Longrightarrow> set (map mi_signerId ps) \<inter> set seen = {} \<Longrightarrow>
   (\<And>p. p \<in> set ps \<Longrightarrow> toSignerId (mi_signerId p) = Inr (mi_signerId p) \<and> toMerklePath (mi_path p) = Inr (mi_path p) \<and> mi_signerId p \<in> set ids) \<Longrightarrow>
   create_proofs ids seen ps = Inr ()"
  by (induction ids seen ps rule: create_proofs.induct) (auto simp: ensure_bind)

lemma pre_verify_all:
  "(\<And>s. s \<in> set ss \<Longrightarrow> verify (me_pf env) m (si_signature s) (si_publicKey s) = Inr True) \<Longrightarrow> pre_verify env m c ss = Inr (c + length ss)"
  by (induction ss arbitrary: c) (auto simp: res_error_def)

lemma res_map_total: "(\<And>x. x \<in> set xs \<Longrightarrow> \<exists>y. f x = Inr y \<and> P x y) \<Longrightarrow> \<exists>ys. res_map f xs = Inr ys \<and> list_all2 P xs ys"
  by (induction xs) (force simp: res_bind_Inr)+

lemma list_all2_right: "list_all2 P xs ys \<Longrightarrow> y \<in> set ys \<Longrightarrow> \<exists>x \<in> set xs. P x y"
  by (induction rule: list_all2_induct) auto

lemma commit_succeeds:
  assumes laws: "ed25519_laws (me_pf env)" and sha: "\<And>x. length (me_sha env x) = 32"
    and ks: "\<forall>k \<in> set ks. signer_ok k \<and> keys_match (me_pf env) k" "distinct (map sk_id ks)" "ks \<noteq> []"
    and serial: "canonicalSerialize env csp = Some m"
    and thr: "isInteger thr" "\<not> num_lt thr (Fin 1)" "\<not> num_lt (Fin (of_nat (length ks))) thr"
  shows "\<exists>t. sign_and_commit env \<lparr>ms_signers = ks, ms_threshold = thr, ms_csp = csp, ms_rootEncoding = EncHex\<rparr> = Inr t \<and>
    list_all2 (signed_by env m) ks (mt_signers t)"
proof -
  obtain ss where ss: "res_map (sign_signer env m) ks = Inr ss" "list_all2 (signed_by env m) ks ss"
    using res_map_total[of ks "sign_signer env m" "signed_by env m"] signs_and_verifies[OF _ laws] ks(1) by blast
  have len: "length ss = length ks" using ss(2) by (simp add: list_all2_lengthD)
  have each: "\<exists>k \<in> set ks. signed_by env m k s" if "s \<in> set ss" for s
    using list_all2_right[OF ss(2) that] .
  have pre: "pre_verify env m 0 ss = Inr (length ss)" using pre_verify_all[of ss env m 0] each by (auto simp: signed_by_def)
  have "\<exists>l. generateMerkleLeaf (me_sha env) (me_leaf env) (leaf_of s) = Inr l \<and> length l = 32" if "s \<in> set ss" for s
  proof -
    from each[OF that] ks(1) obtain k where "signer_ok k" "signed_by env m k s" by blast
    then show ?thesis using sha by (auto simp: generateMerkleLeaf_def leaf_of_def signer_ok_def signed_by_def Let_def)
  qed
  then obtain leaves where
    leaves: "res_map (\<lambda>s. generateMerkleLeaf (me_sha env) (me_leaf env) (leaf_of s)) ss = Inr leaves" "list_all2 (\<lambda>s l. length l = 32) ss leaves"
    using res_map_total[of ss "\<lambda>s. generateMerkleLeaf (me_sha env) (me_leaf env) (leaf_of s)" "\<lambda>s l. length l = 32"]
    by blast
  have "leaves \<noteq> []" using leaves(2) len ks(3) by auto
  moreover have "\<not> list_ex (\<lambda>l. length l \<noteq> 32) leaves" using leaves(2) by (auto simp: list_ex_iff list_all2_conv_all_nth in_set_conv_nth)
  ultimately obtain merkle paths where tree: "buildMerkleTree (me_sha env) leaves = Inr (merkle, paths)"
    by (cases "length leaves = 1") (auto simp: buildMerkleTree_def Let_def)
  have "check_signer_keys [] ks = Inr ()"
  proof (rule check_signer_keys_ok)
    fix k assume k: "k \<in> set ks"
    then obtain i where "i < length ks" "k = ks ! i" by (auto simp: in_set_conv_nth)
    then have "sk_publicKey k \<noteq> []" using ss(2) by (auto simp: list_all2_conv_all_nth signed_by_def)
    moreover have "sk_privateKey k \<noteq> []"
      using ks(1) k by (auto simp: keys_match_def assertPrivateKey_def normalizeKey_def detectEncoding_def fromHex_def split: sum.splits if_splits)
    ultimately show "sk_id k \<noteq> [] \<and> (sk_role k = ''human'' \<or> sk_role k = ''agent'') \<and> sk_publicKey k \<noteq> [] \<and> sk_privateKey k \<noteq> []"
      using ks(1) k by (auto simp: signer_ok_def)
  qed (use ks(2) in simp_all)
  with thr ks(3) ss leaves tree pre len show ?thesis
    by (simp add: sign_and_commit_def ensure_bind serial)
qed

lemma issue_succeeds:
  assumes laws: "ed25519_laws (me_pf env)" and sha: "\<And>x. length (me_sha env x) = 32"
    and ks: "\<forall>k \<in> set ks. signer_ok k \<and> keys_match (me_pf env) k" "distinct (map sk_id ks)" and many: "2 \<le> length ks" "length ks \<le> 100"
    and serial: "canonicalSerialize env csp = Some m"
    and thr: "isInteger thr" "\<not> num_lt thr (Fin 1)" "\<not> num_lt (Fin (of_nat (length ks))) thr"
  shows "\<exists>t. issueMultisigToken env \<lparr>ms_signers = ks, ms_threshold = thr, ms_csp = csp, ms_rootEncoding = EncHex\<rparr> = Inr t \<and>
    mt_threshold t = thr \<and> mt_csp t = csp \<and> map si_publicKey (mt_signers t) = map sk_publicKey ks \<and>
    (\<forall>s \<in> set (mt_signers t). verify (me_pf env) m (si_signature s) (si_publicKey s) = Inr True)"
proof -
  let ?inp = "\<lparr>ms_signers = ks, ms_threshold = thr, ms_csp = csp, ms_rootEncoding = EncHex\<rparr>"
  have ne: "ks \<noteq> []" using many(1) by auto
  obtain t where t: "sign_and_commit env ?inp = Inr t" and r: "list_all2 (signed_by env m) ks (mt_signers t)"
    using commit_succeeds[OF laws sha ks ne serial thr] by blast
  obtain leaves merkle paths m' where f: "mt_csp t = csp" "mt_version t = ''1.0.0''" "mt_threshold t = thr"
    and leaf: "list_all2 (\<lambda>s l. generateMerkleLeaf (me_sha env) (me_leaf env) (leaf_of s) = Inr l) (mt_signers t) leaves"
    and tree: "buildMerkleTree (me_sha env) leaves = Inr (merkle, paths)"
    and out: "mt_merkleRoot t = toHex merkle"
      "mt_proofs t = map2 (\<lambda>s p. \<lparr>mi_signerId = si_id s, mi_path = encodeMerklePath p\<rparr>) (mt_signers t) paths"
    by (rule committed_Inr[OF t]) simp
  have len: "length (mt_signers t) = length ks" "length leaves = length ks"
    using r leaf by (simp_all add: list_all2_lengthD)
  have each: "\<exists>k \<in> set ks. signed_by env m k s" if "s \<in> set (mt_signers t)" for s
    using list_all2_right[OF r that] .
  have path: "length paths = length ks" "length merkle = 32"
    using merkle_paths_verify[OF sha tree, of 0] len ne by (auto simp: verifyMerkleInclusion_def split: if_splits)
  have ids: "map si_id (mt_signers t) = map sk_id ks" "map si_publicKey (mt_signers t) = map sk_publicKey ks"
    using r by (auto simp: list_all2_conv_all_nth signed_by_def intro!: nth_equalityI)
  have signerId: "toSignerId (si_id s) = Inr (si_id s)" if "s \<in> set (mt_signers t)" for s
    using each[OF that] ks(1) by (auto simp: toSignerId_def signer_ok_def signed_by_def)
  have "create_signers [] (mt_signers t) = Inr ()"
  proof (rule create_signers_ok)
    fix s assume s: "s \<in> set (mt_signers t)"
    from each[OF s] ks(1) obtain k where "signer_ok k" "signed_by env m k s" by blast
    then show "toSignerId (si_id s) = Inr (si_id s) \<and> (si_role s = ''human'' \<or> si_role s = ''agent'') \<and> si_publicKey s \<noteq> [] \<and> si_signature s \<noteq> []"
      using signerId[OF s] by (simp add: signer_ok_def signed_by_def)
  qed (use ids(1) ks(2) in simp_all)
  moreover have "create_proofs (map si_id (mt_signers t)) [] (mt_proofs t) = Inr ()"
  proof (rule create_proofs_ok)
    have "map mi_signerId (mt_proofs t) = map si_id (mt_signers t)"
      using path(1) len by (intro nth_equalityI) (simp_all add: out(2))
    then show "distinct (map mi_signerId (mt_proofs t))" using ids(1) ks(2) by simp
    fix p assume "p \<in> set (mt_proofs t)"
    then obtain s q where "s \<in> set (mt_signers t)" "q \<in> set paths" "p = \<lparr>mi_signerId = si_id s, mi_path = encodeMerklePath q\<rparr>"
      by (auto simp: out(2) dest: set_zip_leftD set_zip_rightD)
    then show "toSignerId (mi_signerId p) = Inr (mi_signerId p) \<and> toMerklePath (mi_path p) = Inr (mi_path p) \<and> mi_signerId p \<in> set (map si_id (mt_signers t))"
      using signerId built_path_fits[OF sha tree] many len by simp
  qed simp
  moreover have "toHex merkle \<noteq> []" using length_toHex[of merkle] path(2) by auto
  moreover have "\<not> num_lt (Fin MULTISIG_THRESHOLD_MAX_SANITY) thr"
    using thr many(2) by (cases thr) (auto simp: MULTISIG_THRESHOLD_MAX_SANITY_def)
  ultimately have "createMultisigToken t = Inr t"
    using f thr len path(1) by (simp add: createMultisigToken_def ensure_bind out)
  then have "issueMultisigToken env ?inp = Inr t" by (simp add: issueMultisigToken_def t ms_error_def plain_error_def)
  with f ids(2) each show ?thesis by (auto simp: signed_by_def)
qed


subsection \<open>Examples\<close>

definition demo_ms_env :: ms_env where
  "demo_ms_env = \<lparr>me_pf = demo_platform, me_sha = demo_sha, me_leaf = (\<lambda>l. replicate (length (sl_id l)) 9), me_jcs = (\<lambda>v. ''{}''),
     me_schema = (\<lambda>t. True), me_date = (\<lambda>s. Some 5000)\<rparr>"

definition demo_ms_csp :: js_object where
  "demo_ms_csp = [(''challenge'', JStr ''c''), (''audience'', JStr ''a''), (''notAfter'', JStr ''d'')]"

definition demo_ms_key :: "string \<Rightarrow> byte \<Rightarrow> signer_key" where
  "demo_ms_key i b = \<lparr>sk_id = ''did:'' @ i, sk_role = ''human'', sk_publicKey = toHex (replicate 32 b), sk_privateKey = toHex (replicate 32 b)\<rparr>"

lemma demo_ms_facts:
  "ed25519_laws (me_pf demo_ms_env)" "length (me_sha demo_ms_env x) = 32" "me_schema demo_ms_env t"
  "canonicalSerialize demo_ms_env demo_ms_csp = Some ''{}''"
  by (simp_all add: demo_ms_env_def demo_laws demo_sha_def canonicalSerialize_def demo_ms_csp_def)

lemma demo_ms_keys: "i \<noteq> [] \<Longrightarrow> signer_ok (demo_ms_key i b) \<and> keys_match (me_pf demo_ms_env) (demo_ms_key i b)"
  by (auto simp: demo_ms_key_def signer_ok_def keys_match_def demo_ms_env_def demo_platform_def assertPrivateKey_def normalizeKey_toHex)

text \<open>Two signers with different keys, both needed.\<close>

lemma demo_ms_issued:
  obtains t where "issueMultisigToken demo_ms_env \<lparr>ms_signers = [demo_ms_key ''x'' 1, demo_ms_key ''y'' 2], ms_threshold = Fin 2,
      ms_csp = demo_ms_csp, ms_rootEncoding = EncHex\<rparr> = Inr t"
    "mt_threshold t = Fin 2" "mt_csp t = demo_ms_csp" "length (mt_signers t) = 2"
    "\<forall>s \<in> set (mt_signers t). verify (me_pf demo_ms_env) ''{}'' (si_signature s) (si_publicKey s) = Inr True"
proof -
  let ?ks = "[demo_ms_key ''x'' 1, demo_ms_key ''y'' 2]"
  have "\<forall>k \<in> set ?ks. signer_ok k \<and> keys_match (me_pf demo_ms_env) k" using demo_ms_keys by simp
  moreover have "distinct (map sk_id ?ks)" by (simp add: demo_ms_key_def)
  ultimately obtain t where "issueMultisigToken demo_ms_env \<lparr>ms_signers = ?ks, ms_threshold = Fin 2, ms_csp = demo_ms_csp, ms_rootEncoding = EncHex\<rparr> = Inr t"
    "mt_threshold t = Fin 2" "mt_csp t = demo_ms_csp" "map si_publicKey (mt_signers t) = map sk_publicKey ?ks"
    "\<forall>s \<in> set (mt_signers t). verify (me_pf demo_ms_env) ''{}'' (si_signature s) (si_publicKey s) = Inr True"
    using issue_succeeds[OF demo_ms_facts(1,2) _ _ _ _ demo_ms_facts(4), of ?ks "Fin 2"] by (auto simp: isInteger_def)
  moreover from this(4) have "length (mt_signers t) = 2" by (metis length_map length_Cons list.size(3) Suc_1 One_nat_def)
  ultimately show thesis using that by blast
qed

theorem issued_multisig_verifies_witness:
  "\<exists>t. issueMultisigToken demo_ms_env \<lparr>ms_signers = [demo_ms_key ''x'' 1, demo_ms_key ''y'' 2], ms_threshold = Fin 2,
      ms_csp = demo_ms_csp, ms_rootEncoding = EncHex\<rparr> = Inr t \<and> verifyMultisigProof demo_ms_env True None t = Inr (2, Fin 2)"
proof -
  obtain t where t: "issueMultisigToken demo_ms_env \<lparr>ms_signers = [demo_ms_key ''x'' 1, demo_ms_key ''y'' 2], ms_threshold = Fin 2,
      ms_csp = demo_ms_csp, ms_rootEncoding = EncHex\<rparr> = Inr t"
    "mt_threshold t = Fin 2" "mt_csp t = demo_ms_csp" "length (mt_signers t) = 2"
    "\<forall>s \<in> set (mt_signers t). verify (me_pf demo_ms_env) ''{}'' (si_signature s) (si_publicKey s) = Inr True"
    by (rule demo_ms_issued)
  from issued_multisig_verifies[OF t(1) demo_ms_facts(1,2,3)] t demo_ms_facts(4) show ?thesis by auto
qed

theorem accepted_multisig_witness:
  "\<exists>t n thr. verifyMultisigToken demo_ms_env \<lparr>vo_expectedAudience = ''a'', vo_expectedChallenge = ''c'', vo_now = 0,
      vo_minValidityWindowMs = 1000, vo_enforceFullSchema = True\<rparr> t = Inr (n, thr) \<and> n = 2 \<and> distinct (map si_id (mt_signers t))"
proof -
  let ?o = "\<lparr>vo_expectedAudience = ''a'', vo_expectedChallenge = ''c'', vo_now = 0, vo_minValidityWindowMs = 1000, vo_enforceFullSchema = True\<rparr>"
  obtain t where t: "issueMultisigToken demo_ms_env \<lparr>ms_signers = [demo_ms_key ''x'' 1, demo_ms_key ''y'' 2], ms_threshold = Fin 2,
      ms_csp = demo_ms_csp, ms_rootEncoding = EncHex\<rparr> = Inr t"
    "mt_threshold t = Fin 2" "mt_csp t = demo_ms_csp" "length (mt_signers t) = 2"
    "\<forall>s \<in> set (mt_signers t). verify (me_pf demo_ms_env) ''{}'' (si_signature s) (si_publicKey s) = Inr True"
    by (rule demo_ms_issued)
  have "verifyMultisigProof demo_ms_env True None t = Inr (2, Fin 2)"
    using issued_token_checks[OF t(1) demo_ms_facts(1,2,3)] t demo_ms_facts(4) by auto
  then have "verifyMultisigProof demo_ms_env True (Some ''{}'') t = Inr (2, Fin 2)"
    using t(3) demo_ms_facts(4) by (simp add: verifyMultisigProof_def)
  then have v: "verifyMultisigToken demo_ms_env ?o t = Inr (2, Fin 2)"
    unfolding verifyMultisigToken_def t(3) demo_ms_facts(4)
    by (simp add: ensure_bind demo_ms_csp_def get_prop_def demo_ms_env_def ensure_def)
  from accepted_multisig[OF v] v show ?thesis by blast
qed

theorem single_signer_refused_witness:
  "\<exists>e. issueMultisigToken demo_ms_env \<lparr>ms_signers = [demo_ms_key ''x'' 1], ms_threshold = Fin 1, ms_csp = demo_ms_csp, ms_rootEncoding = EncHex\<rparr> = Inl e"
  by (rule single_signer_refused) simp


end
