(* ===== verification/Js_Text.thy ===== *)
theory Js_Text
  imports Js_Date
begin

text \<open>
  Numbers and instants as text: \<open>String(n)\<close> on natural numbers, \<open>parseInt(s, 10)\<close> and
  \<open>Date.prototype.toISOString\<close>. A date of the years 0 to 9999 has the wire form; other years have a
  sign and six digits.
\<close>

subsection \<open>Decimal numbers\<close>

definition digit_char :: "int \<Rightarrow> char" where
  "digit_char d = char_of (48 + d mod 10)"

fun pad_dec :: "nat \<Rightarrow> int \<Rightarrow> string" where
  "pad_dec 0 n = []"
| "pad_dec (Suc k) n = pad_dec k (n div 10) @ [digit_char n]"

fun dec_string :: "nat \<Rightarrow> string" where
  "dec_string n = (if n < 10 then [digit_char (int n)] else dec_string (n div 10) @ [digit_char (int n)])"

declare dec_string.simps [simp del]

definition parseInt10 :: "string \<Rightarrow> int option" where
  "parseInt10 s =
     (let t = dropWhile isBlank s;
          negative = (take 1 t = ''-'');
          body = (if take 1 t = ''-'' \<or> take 1 t = ''+'' then drop 1 t else t);
          ds = takeWhile is_digit body
      in if ds = [] then None else Some (if negative then - num_val 0 ds else num_val 0 ds))"

lemma digit_char_props [simp]: "is_digit (digit_char d)" "digit_val (digit_char d) = d mod 10" "\<not> isBlank (digit_char d)"
  "digit_char d \<noteq> CHR ''-''" "digit_char d \<noteq> CHR ''+''"
proof -
  have "(of_char (digit_char d) :: int) = (48 + d mod 10) mod 256"
    by (simp add: digit_char_def)
  moreover have "(48 + d mod 10) mod 256 = 48 + d mod 10"
    using pos_mod_bound[of 10 d] pos_mod_sign[of 10 d] by (intro mod_pos_pos_trivial) linarith+
  moreover have "int (code_unit c) = of_char c" for c
    by (rule of_nat_of_char)
  ultimately have c: "int (code_unit (digit_char d)) = 48 + d mod 10"
    by simp
  then show "is_digit (digit_char d)" "digit_val (digit_char d) = d mod 10" "\<not> isBlank (digit_char d)"
    using pos_mod_bound[of 10 d] pos_mod_sign[of 10 d] by (auto simp: is_digit_def digit_val_def isBlank_def)
  have "code_unit (CHR ''-'') = 45" "code_unit (CHR ''+'') = 43" by code_simp+
  with c show "digit_char d \<noteq> CHR ''-''" "digit_char d \<noteq> CHR ''+''"
    using pos_mod_sign[of 10 d] by auto
qed

lemma num_val_snoc: "num_val acc (s @ [c]) = 10 * num_val acc s + digit_val c"
  by (induction acc s rule: num_val.induct) simp_all

lemma pad_dec_props: "length (pad_dec k n) = k" "list_all is_digit (pad_dec k n)" "num_val 0 (pad_dec k n) = n mod 10 ^ k"
proof -
  show "length (pad_dec k n) = k" by (induction k arbitrary: n) simp_all
  show "list_all is_digit (pad_dec k n)" by (induction k arbitrary: n) simp_all
  show "num_val 0 (pad_dec k n) = n mod 10 ^ k"
  proof (induction k arbitrary: n)
    case (Suc k)
    have "num_val 0 (pad_dec (Suc k) n) = 10 * (n div 10 mod 10 ^ k) + n mod 10"
      using Suc[of "n div 10"] by (simp add: num_val_snoc)
    also have "10 * (n div 10 mod 10 ^ k) + n mod 10 = n mod 10 ^ Suc k"
      using zmod_zmult2_eq[of "10 ^ k" n 10] by simp
    finally show ?case .
  qed simp
qed

lemma dec_string_unfold: "dec_string n = (if n < 10 then [] else dec_string (n div 10)) @ [digit_char (int n)]"
  by (subst dec_string.simps) simp

lemma dec_string_props: "list_all is_digit (dec_string n)" "num_val 0 (dec_string n) = int n"
  "\<exists>d ds. dec_string n = digit_char d # ds"
proof (induction n rule: dec_string.induct)
  case (1 n)
  show "list_all is_digit (dec_string n)"
    using 1(1) by (simp add: dec_string_unfold[of n])
  show "num_val 0 (dec_string n) = int n"
  proof -
    have "10 * int (n div 10) + int n mod 10 = int n" by (simp add: zdiv_int)
    then show ?thesis using 1(2) by (simp add: dec_string_unfold[of n] num_val_snoc)
  qed
  show "\<exists>d ds. dec_string n = digit_char d # ds"
  proof (cases "n < 10")
    case False
    then obtain d ds where "dec_string (n div 10) = digit_char d # ds" using 1(3) by blast
    with False have "dec_string n = digit_char d # (ds @ [digit_char (int n)])" by (simp add: dec_string_unfold[of n])
    then show ?thesis by blast
  qed (auto simp: dec_string_unfold[of n])
qed

lemma parseInt10_dec [simp]: "parseInt10 (dec_string n) = Some (int n)"
proof -
  obtain d ds where d: "dec_string n = digit_char d # ds"
    using dec_string_props(3) by blast
  have tw: "takeWhile is_digit ds = ds"
    using dec_string_props(1)[of n] by (simp add: d list_all_iff)
  show ?thesis
    using dec_string_props(2)[of n] by (simp add: parseInt10_def d tw)
qed

lemma dec_string_inj [simp]: "dec_string m = dec_string n \<longleftrightarrow> m = n"
  using parseInt10_dec by (metis option.inject of_nat_eq_iff)

subsection \<open>Instants\<close>

definition toISOString :: "int \<Rightarrow> timestamp" where
  "toISOString t =
     (let n = t div 86400000; r = t mod 86400000; y = year_from_day n in
      (if 0 \<le> y \<and> y \<le> 9999 then pad_dec 4 y
       else (if y < 0 then ''-'' else ''+'') @ pad_dec 6 \<bar>y\<bar>) @
      ''-'' @ pad_dec 2 (month_from_day n) @ ''-'' @ pad_dec 2 (date_from_day n) @ ''T'' @
      pad_dec 2 (r div 3600000) @ '':'' @ pad_dec 2 (r mod 3600000 div 60000) @ '':'' @
      pad_dec 2 (r mod 60000 div 1000) @ ''.'' @ pad_dec 3 (r mod 1000) @ ''Z'')"

lemma pad_dec_read:
  "0 \<le> v \<Longrightarrow> v < 10 ^ k \<Longrightarrow> num_val 0 (pad_dec k v) = v"
  by (simp add: pad_dec_props)

lemma getTime_toISOString:
  assumes "0 \<le> year_from_day (t div 86400000)" "year_from_day (t div 86400000) \<le> 9999"
  shows "getTime (toISOString t) = Some t"
proof -
  define n r where "n = t div 86400000" and "r = t mod 86400000"
  define y m d where "y = year_from_day n" and "m = month_from_day n" and "d = date_from_day n"
  define hh mi ss ml where "hh = r div 3600000" and "mi = r mod 3600000 div 60000" and "ss = r mod 60000 div 1000" and "ml = r mod 1000"
  have r: "0 \<le> r" "r < 86400000"
    by (simp_all add: r_def)
  note dd = date_from_day_correct[of n, folded y_def m_def d_def]
  have b: "0 \<le> y" "y < 10 ^ 4" "1 \<le> m" "m \<le> 12" "1 \<le> d" "d \<le> 31" "0 \<le> hh" "hh \<le> 23" "0 \<le> mi" "mi \<le> 59" "0 \<le> ss" "ss \<le> 59" "0 \<le> ml" "ml < 10 ^ 3"
  proof -
    have "d \<le> 31" using dd(2) by (simp add: days_in_month_def split: if_splits)
    moreover have q: "0 \<le> x div k \<and> x div k < q" if "0 \<le> x" "x < q * k" "0 < k" for x k q :: int
    proof -
      have "k * (x div k) < k * q"
        using that(2) mult_div_mod_eq[of k x] pos_mod_sign[OF that(3), of x] unfolding mult.commute[of k q] by linarith
      then have "x div k < q" using that(3) by (simp only: mult_less_cancel_left_pos)
      with that show ?thesis by (simp add: pos_imp_zdiv_nonneg_iff)
    qed
    moreover have "0 \<le> hh \<and> hh < 24" "0 \<le> mi \<and> mi < 60" "0 \<le> ss \<and> ss < 60"
      unfolding hh_def mi_def ss_def by (rule q; use r in simp)+
    moreover have "0 \<le> ml" "ml < 10 ^ 3"
      by (simp_all add: ml_def)
    ultimately show "0 \<le> y" "y < 10 ^ 4" "1 \<le> m" "m \<le> 12" "1 \<le> d" "d \<le> 31" "0 \<le> hh" "hh \<le> 23" "0 \<le> mi" "mi \<le> 59" "0 \<le> ss" "ss \<le> 59" "0 \<le> ml" "ml < 10 ^ 3"
      using assms dd(1,3,4) by (simp_all add: y_def[symmetric] n_def[symmetric])
  qed
  have tod: "3600000 * hh + 60000 * mi + 1000 * ss + ml = r"
  proof -
    have "r mod 3600000 mod 60000 = r mod 60000" "r mod 60000 mod 1000 = r mod 1000"
      by (simp_all add: mod_mod_cancel)
    then show ?thesis
      using mult_div_mod_eq[of 3600000 r] mult_div_mod_eq[of 60000 "r mod 3600000"] mult_div_mod_eq[of 1000 "r mod 60000"]
      unfolding hh_def mi_def ss_def ml_def by linarith
  qed
  have iso: "toISOString t = pad_dec 4 y @ ''-'' @ pad_dec 2 m @ ''-'' @ pad_dec 2 d @ ''T'' @
      pad_dec 2 hh @ '':'' @ pad_dec 2 mi @ '':'' @ pad_dec 2 ss @ ''.'' @ pad_dec 3 ml @ ''Z''"
    using assms unfolding toISOString_def Let_def y_def m_def d_def hh_def mi_def ss_def ml_def n_def r_def by simp
  have len: "length (pad_dec k v) = k" for k v by (simp add: pad_dec_props)
  have parts: "ts_part 0 4 (toISOString t) = pad_dec 4 y" "ts_part 5 2 (toISOString t) = pad_dec 2 m"
    "ts_part 8 2 (toISOString t) = pad_dec 2 d" "ts_part 11 2 (toISOString t) = pad_dec 2 hh"
    "ts_part 14 2 (toISOString t) = pad_dec 2 mi" "ts_part 17 2 (toISOString t) = pad_dec 2 ss"
    "ts_part 20 3 (toISOString t) = pad_dec 3 ml" "length (toISOString t) = 24"
    unfolding iso ts_part_def by (simp_all add: len del: pad_dec.simps)
  have nums: "ts_num 0 4 (toISOString t) = y" "ts_num 5 2 (toISOString t) = m" "ts_num 8 2 (toISOString t) = d"
    "ts_num 11 2 (toISOString t) = hh" "ts_num 14 2 (toISOString t) = mi" "ts_num 17 2 (toISOString t) = ss" "ts_num 20 3 (toISOString t) = ml"
    unfolding ts_num_def parts using b by (simp_all add: pad_dec_read del: pad_dec.simps)
  have "timestampPattern (toISOString t)"
    unfolding timestampPattern_def parts by (simp add: iso pad_dec_props del: pad_dec.simps)
  moreover have "ts_in_range (toISOString t)"
    unfolding ts_in_range_def nums using b by simp
  moreover have "ts_day (toISOString t) = n" "time_in_day (toISOString t) = r"
    using dd(5) tod by (simp_all add: ts_day_def time_in_day_def nums)
  ultimately show ?thesis
    by (simp add: getTime_def n_def r_def)
qed

text \<open>\<open>input.now ? new Date(input.now).getTime() : Date.now()\<close>; \<open>None\<close> is NaN.\<close>

definition now_ms :: "timestamp option \<Rightarrow> int \<Rightarrow> int option" where
  "now_ms now clock = (case now of None \<Rightarrow> Some clock | Some t \<Rightarrow> if t = [] then Some clock else getTime t)"

end
