(* ===== verification/Key_Rotation.thy ===== *)
theory Key_Rotation
  imports Capability_Token Js_Text
begin

text \<open>
  \<open>identity/src/key-rotation.ts\<close>: the triple-signed rotation of an agent's key at document level, and
  \<open>resolvePublicKeys\<close> of \<open>identity/src/did-agent.ts\<close>, which decides how long the old key is accepted.

  The canonical text of the rotation payload is the argument \<open>canon\<close>. The fields of an identity
  document that rotation only carries along are one object; the runtime marker \<open>_rotatingState\<close> is a
  flag. A thrown error is \<open>Inl\<close>.
\<close>

subsection \<open>Documents and proofs\<close>

datatype key_rotation_state = KR_ACTIVE | KR_ROTATING | KR_RETIRED

record rotation_proof =
  oldPublicKey :: string
  newPublicKey :: string
  oldKeySignature :: string
  newKeySignature :: string
  principalSignature :: string
  rp_agentDid :: did
  rotatedAt :: timestamp

record identity_document =
  doc_id :: did
  doc_specVersion :: string
  doc_principalDid :: did
  publicKey :: string
  carried :: js_object
  doc_updatedAt :: timestamp
  doc_version :: "int option"
  previousPublicKey :: "string option"
  rotationProof :: "rotation_proof option"
  rotating_marker :: bool

record rotation_payload =
  pl_agentDid :: did
  pl_newPublicKey :: string
  pl_oldPublicKey :: string
  pl_rotatedAt :: timestamp

datatype rotation_error =
  AlreadyRotating | InvalidNewPublicKey | InvalidNewPrivateKey | IdenticalKeys | InvalidRotatedAt
| ApprovalInvalid | NotRotating | ProofMissing | ProofInvalid | RotationCrypto crypto_error

definition isValidPublicKey :: "string \<Rightarrow> bool" where
  "isValidPublicKey key =
     ((length key = 64 \<and> list_all (\<lambda>c. is_digit c \<or> (97 \<le> code_unit c \<and> code_unit c \<le> 102)) key) \<or>
      (length key = 43 \<and> list_all (\<lambda>c. is_digit c \<or> (65 \<le> code_unit c \<and> code_unit c \<le> 90) \<or>
         (97 \<le> code_unit c \<and> code_unit c \<le> 122) \<or> c = CHR ''_'' \<or> c = CHR ''-'') key))"

definition payload_of :: "rotation_proof \<Rightarrow> rotation_payload" where
  "payload_of p = \<lparr>pl_agentDid = rp_agentDid p, pl_newPublicKey = newPublicKey p, pl_oldPublicKey = oldPublicKey p,
     pl_rotatedAt = rotatedAt p\<rparr>"

subsection \<open>Verifying a rotation\<close>

text \<open>The \<open>catch\<close> turns an exception of a signature check or of the key extraction into \<open>false\<close>.\<close>

definition verifyRotationProof :: "platform \<Rightarrow> (rotation_payload \<Rightarrow> string) \<Rightarrow> rotation_proof \<Rightarrow> did \<Rightarrow> bool" where
  "verifyRotationProof pf canon p pdid =
     (if \<not> isValidPublicKey (oldPublicKey p) \<or> \<not> isValidPublicKey (newPublicKey p) then False
      else if oldPublicKey p = newPublicKey p then False
      else if \<not> isDidAgent (rp_agentDid p) then False
      else if \<not> timestampPattern (rotatedAt p) then False
      else let payload = canon (payload_of p) in
        if verify pf payload (oldKeySignature p) (oldPublicKey p) \<noteq> Inr True then False
        else if verify pf payload (newKeySignature p) (newPublicKey p) \<noteq> Inr True then False
        else if \<not> isDidKey pdid then False
        else case extractPublicKeyFromDIDKey pdid of
               Inl _ \<Rightarrow> False
             | Inr pk \<Rightarrow> verify pf payload (principalSignature p) pk = Inr True)"

subsection \<open>Rotating\<close>

record rotate_params =
  currentDoc :: identity_document
  currentPrivateKey :: string
  new_publicKey :: string
  new_privateKey :: string
  principalApproval :: string
  rt_rotatedAt :: "timestamp option"
  currentRotationState :: "key_rotation_state option"

definition initiateKeyRotation ::
  "platform \<Rightarrow> (rotation_payload \<Rightarrow> string) \<Rightarrow> rotate_params \<Rightarrow> int \<Rightarrow> rotation_error + identity_document" where
  "initiateKeyRotation pf canon prm clock =
     (let doc = currentDoc prm;
          st = (case currentRotationState prm of None \<Rightarrow> (if rotating_marker doc then KR_ROTATING else KR_ACTIVE) | Some s \<Rightarrow> s)
      in if st = KR_ROTATING then Inl AlreadyRotating
         else if \<not> isValidPublicKey (new_publicKey prm) then Inl InvalidNewPublicKey
         else if length (new_privateKey prm) \<noteq> 128 then Inl InvalidNewPrivateKey
         else if new_publicKey prm = publicKey doc then Inl IdenticalKeys
         else if (case rt_rotatedAt prm of None \<Rightarrow> False | Some t \<Rightarrow> \<not> timestampPattern t) then Inl InvalidRotatedAt
         else
           (let rotated = (case rt_rotatedAt prm of None \<Rightarrow> toISOString clock | Some t \<Rightarrow> t);
                payload = canon \<lparr>pl_agentDid = doc_id doc, pl_newPublicKey = new_publicKey prm,
                   pl_oldPublicKey = publicKey doc, pl_rotatedAt = rotated\<rparr>
            in case sign pf payload (currentPrivateKey prm) IDENTITY_ENCODING of
                 Inl e \<Rightarrow> Inl (RotationCrypto e)
               | Inr oldSig \<Rightarrow>
                   (case sign pf payload (new_privateKey prm) IDENTITY_ENCODING of
                      Inl e \<Rightarrow> Inl (RotationCrypto e)
                    | Inr newSig \<Rightarrow>
                        (let prf = \<lparr>oldPublicKey = publicKey doc, newPublicKey = new_publicKey prm, oldKeySignature = oldSig,
                               newKeySignature = newSig, principalSignature = principalApproval prm, rp_agentDid = doc_id doc,
                               rotatedAt = rotated\<rparr>
                         in if \<not> verifyRotationProof pf canon prf (doc_principalDid doc) then Inl ApprovalInvalid
                            else Inr (doc\<lparr>doc_specVersion := ''0.2.0'', publicKey := new_publicKey prm,
                                   previousPublicKey := Some (publicKey doc), rotationProof := Some prf,
                                   doc_version := Some ((case doc_version doc of None \<Rightarrow> 1 | Some v \<Rightarrow> v) + 1),
                                   doc_updatedAt := rotated, rotating_marker := True\<rparr>)))))"

definition completeKeyRotation ::
  "platform \<Rightarrow> (rotation_payload \<Rightarrow> string) \<Rightarrow> identity_document \<Rightarrow> key_rotation_state option \<Rightarrow> rotation_error + identity_document" where
  "completeKeyRotation pf canon doc st =
     (if \<not> (rotating_marker doc \<or> st = Some KR_ROTATING) then Inl NotRotating
      else case rotationProof doc of
             None \<Rightarrow> Inl ProofMissing
           | Some p \<Rightarrow>
               if \<not> verifyRotationProof pf canon p (doc_principalDid doc) then Inl ProofInvalid
               else Inr (doc\<lparr>rotating_marker := False\<rparr>))"

subsection \<open>Resolving keys\<close>

definition DEFAULT_GRACE_PERIOD_MS :: int where
  "DEFAULT_GRACE_PERIOD_MS = 24 * 60 * 60 * 1000"

definition MAX_GRACE_PERIOD_MS :: int where
  "MAX_GRACE_PERIOD_MS = 48 * 60 * 60 * 1000"

record registry_record =
  rr_document :: identity_document
  rr_rotationState :: key_rotation_state
  rotationStartedAt :: "timestamp option"

definition math_min :: "number \<Rightarrow> number \<Rightarrow> number" where
  "math_min a b = (if a = NaN \<or> b = NaN then NaN else if num_le a b then a else b)"

definition gracePeriodMs :: "number option \<Rightarrow> number" where
  "gracePeriodMs opt =
     math_min (case opt of None \<Rightarrow> Fin (of_int DEFAULT_GRACE_PERIOD_MS) | Some g \<Rightarrow> g) (Fin (of_int MAX_GRACE_PERIOD_MS))"

definition gracePeriodExpired :: "int option \<Rightarrow> timestamp \<Rightarrow> number \<Rightarrow> bool" where
  "gracePeriodExpired nowMs started grace =
     (case (nowMs, getTime started) of (Some a, Some b) \<Rightarrow> num_le grace (Fin (of_int (a - b))) | _ \<Rightarrow> False)"

definition stable_keys :: "identity_document \<Rightarrow> resolved_keys" where
  "stable_keys doc = \<lparr>current = publicKey doc, previous = None, previousValidBefore = None, rotationState = STABLE\<rparr>"

definition agent_resolvePublicKeys :: "registry_record \<Rightarrow> number option \<Rightarrow> timestamp option \<Rightarrow> int \<Rightarrow> resolved_keys" where
  "agent_resolvePublicKeys rcd grace now clock =
     (let doc = rr_document rcd in
      if rr_rotationState rcd \<noteq> KR_ROTATING then stable_keys doc
      else case rotationStartedAt rcd of
             None \<Rightarrow> stable_keys doc
           | Some started \<Rightarrow>
               (case previousPublicKey doc of
                  Some prev \<Rightarrow>
                    if \<not> gracePeriodExpired (now_ms now clock) started (gracePeriodMs grace)
                    then \<lparr>current = publicKey doc, previous = Some prev, previousValidBefore = Some started, rotationState = ROTATING\<rparr>
                    else stable_keys doc
                | None \<Rightarrow> stable_keys doc))"

subsection \<open>Properties\<close>

text \<open>
  Remark (bounds). The old key dies with its grace period: a token that verifies under the resolved keys,
  but not under the current key, was signed with the previous key of a record in rotation, issued at
  or before the start of the rotation, and less than 48 hours (and less than the configured period)
  have passed since. The start of the rotation and the clock are dates, the period is a number.
\<close>

theorem old_key_needs_grace:
  assumes verified: "verifyCapabilityToken pf t tnow (Some (agent_resolvePublicKeys rcd grace now clock)) = Inr None"
    and not_current: "verify pf (createCapabilityTokenPayload pf t) (proof_value (token_proof t)) (publicKey (rr_document rcd)) \<noteq> Inr True"
    and dates: "now_ms now clock = Some a" "\<And>s. rotationStartedAt rcd = Some s \<Longrightarrow> getTime s = Some b" and grace: "grace \<noteq> Some NaN"
  shows "rr_rotationState rcd = KR_ROTATING \<and>
    (\<exists>prev s. previousPublicKey (rr_document rcd) = Some prev \<and> rotationStartedAt rcd = Some s \<and> date_le (issuedAt t) s \<and>
       verify pf (createCapabilityTokenPayload pf t) (proof_value (token_proof t)) prev = Inr True) \<and>
    a - b < 172800000 \<and> (\<forall>g. grace = Some (Fin g) \<longrightarrow> of_int (a - b) < g)"
proof -
  let ?k = "agent_resolvePublicKeys rcd grace now clock"
  have cur: "current ?k = publicKey (rr_document rcd)"
    by (simp add: agent_resolvePublicKeys_def Let_def stable_keys_def split: option.splits)
  have v: "verify_rotating pf t ?k = Inr None"
    using verified by (simp add: verifyCapabilityToken_def split: option.splits)
  have "rotationState ?k = ROTATING" and old: "\<exists>prev s. previous ?k = Some prev \<and> previousValidBefore ?k = Some s \<and>
      date_le (issuedAt t) s \<and> verify pf (createCapabilityTokenPayload pf t) (proof_value (token_proof t)) prev = Inr True"
    using v not_current unfolding verify_rotating_def Let_def cur
    by (auto simp: lift_sig_def split: sum.splits bool.splits rotation_state.splits option.splits if_splits)
  then obtain prev s where p: "rr_rotationState rcd = KR_ROTATING" "previousPublicKey (rr_document rcd) = Some prev" "rotationStartedAt rcd = Some s"
    "\<not> gracePeriodExpired (now_ms now clock) s (gracePeriodMs grace)" "previous ?k = Some prev" "previousValidBefore ?k = Some s"
    by (auto simp: agent_resolvePublicKeys_def Let_def stable_keys_def split: if_splits option.splits)
  have "\<not> num_le (gracePeriodMs grace) (Fin (of_int (a - b)))"
    using p(4) dates(1) dates(2)[OF p(3)] by (simp add: gracePeriodExpired_def)
  then have min: "\<not> num_le (gracePeriodMs grace) (Fin (of_int a - of_int b))" by simp
  have lim: "num_le (gracePeriodMs grace) (Fin 172800000)" "gracePeriodMs grace \<noteq> NaN"
    using grace num_not_lt_le[of "Fin 172800000"] num_lt_not_le
    by (auto simp: gracePeriodMs_def math_min_def DEFAULT_GRACE_PERIOD_MS_def MAX_GRACE_PERIOD_MS_def split: option.splits)
  have "(of_int a - of_int b :: rat) < 172800000"
    using min lim by (cases "gracePeriodMs grace") auto
  then have "of_int (a - b) < (of_int 172800000 :: rat)" by simp
  then have short: "a - b < 172800000"
    by (simp only: of_int_less_iff)
  have "\<forall>g. grace = Some (Fin g) \<longrightarrow> of_int (a - b) < g"
    using min by (auto simp: gracePeriodMs_def math_min_def split: if_splits)
  with p old short show ?thesis by auto
qed

subsection \<open>The life of a rotation\<close>

text \<open>
  Remark (safety). A rotation needs all three parties and cannot be repeated while it runs: what
  \<open>initiateKeyRotation\<close> returns carries the new key, the old key as previous one, the next version and
  a proof that the old key, the new key and the principal's did:key signed the same payload; a second
  initiation on it is refused, and \<open>completeKeyRotation\<close> returns it with only the marker removed.
\<close>

theorem rotation_is_triple_signed:
  assumes init: "initiateKeyRotation pf canon prm clock = Inr doc"
  shows "(\<exists>p pk. rotationProof doc = Some p \<and> newPublicKey p = publicKey doc \<and> oldPublicKey p = publicKey (currentDoc prm) \<and>
      publicKey doc \<noteq> publicKey (currentDoc prm) \<and> rp_agentDid p = doc_id doc \<and>
      verify pf (canon (payload_of p)) (oldKeySignature p) (publicKey (currentDoc prm)) = Inr True \<and>
      verify pf (canon (payload_of p)) (newKeySignature p) (publicKey doc) = Inr True \<and>
      extractPublicKeyFromDIDKey (doc_principalDid doc) = Inr pk \<and>
      verify pf (canon (payload_of p)) (principalSignature p) pk = Inr True) \<and>
    publicKey doc = new_publicKey prm \<and> previousPublicKey doc = Some (publicKey (currentDoc prm)) \<and>
    initiateKeyRotation pf canon (prm'\<lparr>currentDoc := doc, currentRotationState := None\<rparr>) clock' = Inl AlreadyRotating \<and>
    completeKeyRotation pf canon doc st = Inr (doc\<lparr>rotating_marker := False\<rparr>)"
proof -
  let ?old = "currentDoc prm"
  obtain os ns where d: "doc = ?old\<lparr>doc_specVersion := ''0.2.0'', publicKey := new_publicKey prm,
      previousPublicKey := Some (publicKey ?old), rotationProof := Some \<lparr>oldPublicKey = publicKey ?old, newPublicKey = new_publicKey prm,
        oldKeySignature = os, newKeySignature = ns, principalSignature = principalApproval prm, rp_agentDid = doc_id ?old,
        rotatedAt = (case rt_rotatedAt prm of None \<Rightarrow> toISOString clock | Some t \<Rightarrow> t)\<rparr>,
      doc_version := Some ((case doc_version ?old of None \<Rightarrow> 1 | Some v \<Rightarrow> v) + 1),
      doc_updatedAt := (case rt_rotatedAt prm of None \<Rightarrow> toISOString clock | Some t \<Rightarrow> t), rotating_marker := True\<rparr>"
    and ver: "verifyRotationProof pf canon (the (rotationProof doc)) (doc_principalDid ?old)"
    using init unfolding initiateKeyRotation_def Let_def
    by (auto split: sum.splits if_splits simp del: option.case_cong_weak)
  obtain p where pr: "rotationProof doc = Some p"
    by (simp add: d)
  have p: "rotationProof doc = Some p" "newPublicKey p = publicKey doc" "oldPublicKey p = publicKey ?old" "rp_agentDid p = doc_id doc"
    "doc_principalDid doc = doc_principalDid ?old" "publicKey doc = new_publicKey prm" "previousPublicKey doc = Some (publicKey ?old)"
    "rotating_marker doc"
    using pr by (auto simp: d)
  obtain pk where v: "oldPublicKey p \<noteq> newPublicKey p" "verify pf (canon (payload_of p)) (oldKeySignature p) (oldPublicKey p) = Inr True"
    "verify pf (canon (payload_of p)) (newKeySignature p) (newPublicKey p) = Inr True"
    "extractPublicKeyFromDIDKey (doc_principalDid doc) = Inr pk" "verify pf (canon (payload_of p)) (principalSignature p) pk = Inr True"
    using ver unfolding p(5) pr option.sel by (auto simp: verifyRotationProof_def Let_def split: if_splits sum.splits)
  have again: "initiateKeyRotation pf canon (prm'\<lparr>currentDoc := doc, currentRotationState := None\<rparr>) clock' = Inl AlreadyRotating"
    by (simp add: initiateKeyRotation_def Let_def p(8))
  have "completeKeyRotation pf canon doc st = Inr (doc\<lparr>rotating_marker := False\<rparr>)"
    using ver p(5,8) by (simp add: completeKeyRotation_def pr)
  with p v again show ?thesis by auto
qed

subsection \<open>Witnesses\<close>

definition demo_hex :: "8 word \<Rightarrow> string" where
  "demo_hex b = toHex (replicate 32 b)"

definition demo_document :: identity_document where
  "demo_document = \<lparr>doc_id = demo_agent 2, doc_specVersion = ''0.1.0'', doc_principalDid = publicKeyToDidKey (replicate 32 3),
     publicKey = demo_hex 1, carried = [], doc_updatedAt = ''2026-01-01T00:00:00.000Z'', doc_version = None,
     previousPublicKey = None, rotationProof = None, rotating_marker = False\<rparr>"

definition demo_rotate :: rotate_params where
  "demo_rotate = \<lparr>currentDoc = demo_document, currentPrivateKey = demo_hex 1, new_publicKey = demo_hex 2,
     new_privateKey = toHex (replicate 64 2), principalApproval = toBase64Url (replicate 32 3 @ replicate 32 255),
     rt_rotatedAt = Some ''2026-02-01T00:00:00.000Z'', currentRotationState = None\<rparr>"

lemma demo_signature_checks:
  assumes "b \<in> {1, 2, 3}"
  shows "verify demo_platform m (toBase64Url (replicate 32 b @ replicate 32 255)) (toHex (replicate 32 b)) = Inr True"
    "b \<noteq> c \<Longrightarrow> verify demo_platform m (toBase64Url (replicate 32 b @ replicate 32 255)) (toHex (replicate 32 c)) = Inr False"
proof -
  have "\<not> HEX_PATTERN (toBase64Url (replicate 32 1 @ replicate 32 255))" "\<not> HEX_PATTERN (toBase64Url (replicate 32 2 @ replicate 32 255))"
    "\<not> HEX_PATTERN (toBase64Url (replicate 32 3 @ replicate 32 255))"
    by code_simp+
  with assms have h: "\<not> HEX_PATTERN (toBase64Url (replicate 32 b @ replicate 32 255))" by auto
  have "verify demo_platform m (toBase64Url (replicate 32 b @ replicate 32 255)) (toHex (replicate 32 c)) = Inr (b = c)" for c
    by (simp add: verify_def assertSignature_def assertPublicKey_def normalizeKey_toBase64Url[OF h] normalizeKey_toHex demo_platform_def)
  then show "verify demo_platform m (toBase64Url (replicate 32 b @ replicate 32 255)) (toHex (replicate 32 b)) = Inr True"
    "b \<noteq> c \<Longrightarrow> verify demo_platform m (toBase64Url (replicate 32 b @ replicate 32 255)) (toHex (replicate 32 c)) = Inr False"
    by simp_all
qed

lemma demo_hex_ok: "isValidPublicKey (demo_hex 1)" "isValidPublicKey (demo_hex 2)" "demo_hex 1 \<noteq> demo_hex 2"
  by code_simp+

lemma demo_rotated:
  "\<exists>doc. initiateKeyRotation demo_platform (\<lambda>p. pl_newPublicKey p) demo_rotate 0 = Inr doc"
proof -
  have s: "sign demo_platform m (demo_hex 1) EncBase64Url = Inr (toBase64Url (replicate 32 1 @ replicate 32 255))"
    "sign demo_platform m (toHex (replicate 64 2)) EncBase64Url = Inr (toBase64Url (replicate 32 2 @ replicate 32 255))" for m
    by (simp_all add: sign_def assertPrivateKey_def demo_hex_def normalizeKey_toHex demo_platform_def Let_def)
  have t: "timestampPattern ''2026-02-01T00:00:00.000Z''"
    by code_simp
  have k: "isDidKey (publicKeyToDidKey (replicate 32 3))" "extractPublicKeyFromDIDKey (publicKeyToDidKey (replicate 32 3)) = Inr (toHex (replicate 32 3))"
    by (rule did_key_of_public; simp)+
  show ?thesis
    using demo_hex_ok demo_agent_ok(1) t k s
    by (simp add: initiateKeyRotation_def Let_def demo_rotate_def demo_document_def IDENTITY_ENCODING_def length_toHex
        verifyRotationProof_def demo_signature_checks[unfolded demo_hex_def[symmetric]] demo_signature_checks)
qed

theorem rotation_is_triple_signed_witness:
  "\<exists>doc. initiateKeyRotation demo_platform (\<lambda>p. pl_newPublicKey p) demo_rotate 0 = Inr doc \<and>
     publicKey doc = demo_hex 2 \<and> previousPublicKey doc = Some (demo_hex 1) \<and>
     completeKeyRotation demo_platform (\<lambda>p. pl_newPublicKey p) doc None = Inr (doc\<lparr>rotating_marker := False\<rparr>)"
proof -
  obtain doc where d: "initiateKeyRotation demo_platform (\<lambda>p. pl_newPublicKey p) demo_rotate 0 = Inr doc"
    using demo_rotated by blast
  from rotation_is_triple_signed[OF d] d show ?thesis
    by (simp add: demo_rotate_def demo_document_def)
qed

definition demo_record :: registry_record where
  "demo_record = \<lparr>rr_document = demo_document\<lparr>publicKey := demo_hex 2, previousPublicKey := Some (demo_hex 1)\<rparr>,
     rr_rotationState = KR_ROTATING, rotationStartedAt = Some ''2026-02-01T00:00:00.000Z''\<rparr>"

theorem old_key_needs_grace_witness:
  "verifyCapabilityToken demo_platform (demo_token (host_cap [''a''] 5)) ''2026-02-01T12:00:00.000Z''
     (Some (agent_resolvePublicKeys demo_record None (Some ''2026-02-01T12:00:00.000Z'') 0)) = Inr None \<and>
   date_le (issuedAt (demo_token (host_cap [''a''] 5))) ''2026-02-01T00:00:00.000Z''"
proof -
  let ?t = "demo_token (host_cap [''a''] 5)" and ?n = "''2026-02-01T12:00:00.000Z''"
  have ne: "host_cap [''a''] 5 \<noteq> []" and ph: "phase2_free (host_cap [''a''] 5)"
    by code_simp+
  note d = demo_issued[OF ne]
  have tm: "\<not> date_gt ''2026-01-01T00:00:00.000Z'' ?n" "\<not> isTimestampExpired ''2026-12-31T00:00:00.000Z'' ?n"
    "date_le ''2026-01-01T00:00:00.000Z'' ''2026-02-01T00:00:00.000Z''" "now_ms (Some ?n) 0 = Some 1769947200000"
    "getTime ''2026-02-01T00:00:00.000Z'' = Some 1769904000000"
    by code_simp+
  have k: "agent_resolvePublicKeys demo_record None (Some ?n) 0 =
      \<lparr>current = demo_hex 2, previous = Some (demo_hex 1), previousValidBefore = Some ''2026-02-01T00:00:00.000Z'', rotationState = ROTATING\<rparr>"
    by (simp add: agent_resolvePublicKeys_def Let_def demo_record_def gracePeriodExpired_def tm gracePeriodMs_def math_min_def
        DEFAULT_GRACE_PERIOD_MS_def MAX_GRACE_PERIOD_MS_def)
  have cur: "verify demo_platform m (toBase64Url (replicate 32 1 @ replicate 32 255)) (demo_hex 2) = Inr False" for m
    using demo_verify[of m 2] by (simp add: demo_hex_def)
  have old: "verify demo_platform m (toBase64Url (replicate 32 1 @ replicate 32 255)) (demo_hex 1) = Inr True" for m
    using demo_verify[of m 1] by (simp add: demo_hex_def)
  have gates: "token_gates demo_platform ?t ?n (Some (agent_resolvePublicKeys demo_record None (Some ?n) 0)) = None"
    using ph by (simp add: token_gates_def d demo_issuer tm chain_of_def demo_platform_def phase2_free_def isPhase2ScopeType_def list_ex_iff)
  have v: "verifyCapabilityToken demo_platform ?t ?n (Some (agent_resolvePublicKeys demo_record None (Some ?n) 0)) = Inr None"
    unfolding verifyCapabilityToken_def gates
    by (simp add: verify_rotating_def Let_def k cur old lift_sig_def d tm(3))
  have "publicKey (rr_document demo_record) = demo_hex 2" "rotationStartedAt demo_record = Some ''2026-02-01T00:00:00.000Z''"
    by (simp_all add: demo_record_def)
  then have "\<exists>prev s. rotationStartedAt demo_record = Some s \<and> date_le (issuedAt ?t) s"
    using old_key_needs_grace[OF v _ tm(4), of 1769904000000] cur tm(5) by (auto simp: d)
  with v show ?thesis
    by (simp add: demo_record_def)
qed

subsection \<open>Where the code is laxer\<close>

text \<open>
  Remark (error). The identity of the keys is compared as text: the same 32 bytes in hex and in
  base64url pass as an old and a new key.
\<close>

lemma same_key_two_encodings:
  "isValidPublicKey (toHex (replicate 32 200)) \<and> isValidPublicKey (toBase64Url (replicate 32 200)) \<and>
   toHex (replicate 32 200) \<noteq> toBase64Url (replicate 32 200) \<and>
   normalizeKey (toHex (replicate 32 200)) = normalizeKey (toBase64Url (replicate 32 200))"
  by code_simp

text \<open>
  Remark (error). The grace period never ends for a clock or a rotation start that is no date: the
  comparison with NaN is false and the old key is still handed out.
\<close>

lemma invalid_now_keeps_old_key:
  assumes "getTime now = None" "now \<noteq> []" "rr_rotationState rcd = KR_ROTATING" "rotationStartedAt rcd = Some s"
    "previousPublicKey (rr_document rcd) = Some prev"
  shows "previous (agent_resolvePublicKeys rcd grace (Some now) clock) = Some prev"
  using assms by (simp add: agent_resolvePublicKeys_def Let_def now_ms_def gracePeriodExpired_def)

end
