(* ===== verification/Effects.thy ===== *)
theory Effects
  imports Prelude
begin

text \<open>
  Asynchronous code against injected ports: an effect takes the state of the world behind the ports
  and returns an exception or a value, together with the state it leaves. \<open>await\<close> is \<open>eff_bind\<close>,
  \<open>try/catch\<close> is \<open>eff_catch\<close>; an exception keeps the effects made before it. Statements about all
  outcomes of a composed effect are Hoare triples with one postcondition for values and one for
  exceptions.
\<close>

named_theorems triple_rules \<open>rules of the Hoare triples over effects\<close>

type_synonym ('w, 'e, 'a) eff = "'w \<Rightarrow> ('e + 'a) \<times> 'w"

definition eff_return :: "'a \<Rightarrow> ('w, 'e, 'a) eff" where
  "eff_return a = (\<lambda>w. (Inr a, w))"

definition eff_throw :: "'e \<Rightarrow> ('w, 'e, 'a) eff" where
  "eff_throw e = (\<lambda>w. (Inl e, w))"

definition eff_bind :: "('w, 'e, 'a) eff \<Rightarrow> ('a \<Rightarrow> ('w, 'e, 'b) eff) \<Rightarrow> ('w, 'e, 'b) eff" where
  "eff_bind m k = (\<lambda>w. case m w of (Inl e, w') \<Rightarrow> (Inl e, w') | (Inr a, w') \<Rightarrow> k a w')"

definition eff_catch :: "('w, 'e, 'a) eff \<Rightarrow> ('e \<Rightarrow> ('w, 'f, 'a) eff) \<Rightarrow> ('w, 'f, 'a) eff" where
  "eff_catch m h = (\<lambda>w. case m w of (Inl e, w') \<Rightarrow> h e w' | (Inr a, w') \<Rightarrow> (Inr a, w'))"

definition eff_lift :: "'e + 'a \<Rightarrow> ('w, 'e, 'a) eff" where
  "eff_lift r = (\<lambda>w. (r, w))"

definition eff_when :: "bool \<Rightarrow> ('w, 'e, unit) eff \<Rightarrow> ('w, 'e, unit) eff" where
  "eff_when b m = (if b then m else eff_return ())"

definition eff_guard :: "bool \<Rightarrow> 'e \<Rightarrow> ('w, 'e, unit) eff" where
  "eff_guard ok e = (if ok then eff_return () else eff_throw e)"

lemmas eff_defs = eff_return_def eff_throw_def eff_bind_def eff_catch_def eff_lift_def eff_when_def eff_guard_def

subsection \<open>Composition\<close>

lemma eff_bind_return [simp]: "eff_bind (eff_return a) k = k a"
  by (simp add: eff_bind_def eff_return_def)

lemma eff_bind_throw [simp]: "eff_bind (eff_throw e) k = eff_throw e"
  by (simp add: eff_bind_def eff_throw_def)

lemma eff_bind_assoc: "eff_bind (eff_bind m k) l = eff_bind m (\<lambda>a. eff_bind (k a) l)"
  by (rule ext) (auto simp: eff_bind_def split: prod.splits sum.splits)

lemma eff_guard_bind: "eff_bind (eff_guard ok e) k = (if ok then k () else eff_throw e)"
  by (simp add: eff_guard_def)

lemma eff_bind_Inr:
  "eff_bind m k w = (Inr b, w') \<longleftrightarrow> (\<exists>a w1. m w = (Inr a, w1) \<and> k a w1 = (Inr b, w'))"
  by (auto simp: eff_bind_def split: prod.splits sum.splits)

lemma eff_guard_Inr [simp]: "eff_guard ok e w = (Inr u, w') \<longleftrightarrow> ok \<and> w' = w"
  by (auto simp: eff_guard_def eff_return_def eff_throw_def)

lemma eff_return_Inr [simp]: "eff_return a w = (r, w') \<longleftrightarrow> r = Inr a \<and> w' = w"
  by (auto simp: eff_return_def)

lemma eff_throw_eq [simp]: "eff_throw e w = (r, w') \<longleftrightarrow> r = Inl e \<and> w' = w"
  by (auto simp: eff_throw_def)

lemma eff_when_Inr: "eff_when b m w = (Inr u, w') \<longleftrightarrow> (if b then m w = (Inr u, w') else w' = w)"
  by (auto simp: eff_when_def)

subsection \<open>Effects that cannot return\<close>

definition always_throws :: "('w, 'e, 'a) eff \<Rightarrow> bool" where
  "always_throws m = (\<forall>w a w'. m w \<noteq> (Inr a, w'))"

lemma always_throws_bind: "always_throws m \<Longrightarrow> eff_bind m k = eff_bind m l"
  unfolding always_throws_def by (rule ext) (auto simp: eff_bind_def split: prod.splits sum.splits)

lemma always_throws_bindI: "always_throws m \<or> (\<forall>a. always_throws (k a)) \<Longrightarrow> always_throws (eff_bind m k)"
  unfolding always_throws_def eff_bind_Inr by blast

lemma always_throws_throw [simp]: "always_throws (eff_throw e)"
  by (simp add: always_throws_def)

lemma always_throws_guard: "\<not> ok \<Longrightarrow> always_throws (eff_guard ok e)"
  by (simp add: always_throws_def)

subsection \<open>Hoare triples\<close>

definition triple ::
  "('w \<Rightarrow> bool) \<Rightarrow> ('w, 'e, 'a) eff \<Rightarrow> ('a \<Rightarrow> 'w \<Rightarrow> bool) \<Rightarrow> ('w \<Rightarrow> bool) \<Rightarrow> bool" where
  "triple P m Q E =
     (\<forall>w. P w \<longrightarrow> (case m w of (Inl _, w') \<Rightarrow> E w' | (Inr a, w') \<Rightarrow> Q a w'))"

lemma triple_return [triple_rules]: "(\<And>w. P w \<Longrightarrow> Q a w) \<Longrightarrow> triple P (eff_return a) Q E"
  by (simp add: triple_def eff_return_def)

lemma triple_throw [triple_rules]: "(\<And>w. P w \<Longrightarrow> E w) \<Longrightarrow> triple P (eff_throw e) Q E"
  by (simp add: triple_def eff_throw_def)

lemma triple_bind [triple_rules]:
  "triple P m R E \<Longrightarrow> (\<And>a. triple (R a) (k a) Q E) \<Longrightarrow> triple P (eff_bind m k) Q E"
  unfolding triple_def eff_bind_def by (fastforce split: prod.splits sum.splits)

lemma triple_catch [triple_rules]:
  "triple P m Q R \<Longrightarrow> (\<And>e. triple R (h e) Q E) \<Longrightarrow> triple P (eff_catch m h) Q E"
  unfolding triple_def eff_catch_def by (fastforce split: prod.splits sum.splits)

lemma triple_guard [triple_rules]:
  "(\<And>w. P w \<Longrightarrow> if ok then Q () w else E w) \<Longrightarrow> triple P (eff_guard ok e) Q E"
  by (auto simp: eff_guard_def intro!: triple_return triple_throw split: if_splits)

lemma triple_lift [triple_rules]:
  "(\<And>w. P w \<Longrightarrow> case r of Inl _ \<Rightarrow> E w | Inr a \<Rightarrow> Q a w) \<Longrightarrow> triple P (eff_lift r) Q E"
  by (auto simp: triple_def eff_lift_def split: sum.splits)

lemma triple_if:
  "(b \<Longrightarrow> triple P m Q E) \<Longrightarrow> (\<not> b \<Longrightarrow> triple P n Q E) \<Longrightarrow> triple P (if b then m else n) Q E"
  by simp

lemma triple_conseq:
  "triple P' m Q' E' \<Longrightarrow> (\<And>w. P w \<Longrightarrow> P' w) \<Longrightarrow> (\<And>a w. Q' a w \<Longrightarrow> Q a w) \<Longrightarrow> (\<And>w. E' w \<Longrightarrow> E w) \<Longrightarrow> triple P m Q E"
  unfolding triple_def by (fastforce split: prod.splits sum.splits)

lemma triple_run:
  assumes "triple P m Q E" "P w" "m w = (r, w')"
  shows "(\<exists>e. r = Inl e \<and> E w') \<or> (\<exists>a. r = Inr a \<and> Q a w')"
  using assms unfolding triple_def by (cases r) fastforce+

subsection \<open>What an effect does to a view of the world\<close>

definition keeps :: "('w \<Rightarrow> 's) \<Rightarrow> ('w, 'e, 'a) eff \<Rightarrow> bool" where
  "keeps view m = (\<forall>w. view (snd (m w)) = view w)"

definition sets_view :: "('w \<Rightarrow> 's) \<Rightarrow> ('w, 'e, 'a) eff \<Rightarrow> 's \<Rightarrow> bool" where
  "sets_view view m s = (\<forall>w. view (snd (m w)) = (case fst (m w) of Inl _ \<Rightarrow> view w | Inr _ \<Rightarrow> s))"

definition reports_view :: "('w \<Rightarrow> 's) \<Rightarrow> ('w, 'e, 'a) eff \<Rightarrow> ('a \<Rightarrow> 's) \<Rightarrow> bool" where
  "reports_view view m f =
     (keeps view m \<and> (\<forall>w. case fst (m w) of Inl _ \<Rightarrow> True | Inr a \<Rightarrow> f a = view w))"

lemma keeps_triple:
  assumes "keeps view m"
  shows "triple (\<lambda>w. F (view w)) m (\<lambda>_ w. F (view w)) (\<lambda>w. F (view w))"
  unfolding triple_def
proof (intro allI impI)
  fix w
  assume "F (view w)"
  then have "F (view (snd (m w)))"
    using assms by (simp add: keeps_def)
  then show "case m w of (Inl _, w') \<Rightarrow> F (view w') | (Inr _, w') \<Rightarrow> F (view w')"
    by (cases "m w"; cases "fst (m w)") auto
qed

lemma sets_triple:
  assumes "sets_view view m s" "\<And>x. F x \<Longrightarrow> E x"
  shows "triple (\<lambda>w. F (view w)) m (\<lambda>_ w. view w = s) (\<lambda>w. E (view w))"
  unfolding triple_def
proof (intro allI impI)
  fix w
  assume F: "F (view w)"
  have "view (snd (m w)) = (case fst (m w) of Inl _ \<Rightarrow> view w | Inr _ \<Rightarrow> s)"
    using assms(1) by (simp add: sets_view_def)
  then show "case m w of (Inl _, w') \<Rightarrow> E (view w') | (Inr _, w') \<Rightarrow> view w' = s"
    using assms(2)[OF F] by (cases "m w"; cases "fst (m w)") auto
qed

lemma reports_triple:
  assumes "reports_view view m f" "\<And>x. F x \<Longrightarrow> E x"
  shows "triple (\<lambda>w. F (view w)) m (\<lambda>a w. F (view w) \<and> view w = f a) (\<lambda>w. E (view w))"
  unfolding triple_def
proof (intro allI impI)
  fix w
  assume F: "F (view w)"
  have "view (snd (m w)) = view w" "case fst (m w) of Inl _ \<Rightarrow> True | Inr a \<Rightarrow> f a = view w"
    using assms(1) by (simp_all add: reports_view_def keeps_def)
  then show "case m w of (Inl _, w') \<Rightarrow> E (view w') | (Inr a, w') \<Rightarrow> F (view w') \<and> view w' = f a"
    using F assms(2)[OF F] by (cases "m w"; cases "fst (m w)") auto
qed

lemma keeps_return [simp]: "keeps view (eff_return a)"
  by (simp add: keeps_def eff_return_def)

lemma keeps_throw [simp]: "keeps view (eff_throw e)"
  by (simp add: keeps_def eff_throw_def)

lemma keeps_guard [simp]: "keeps view (eff_guard ok e)"
  by (simp add: eff_guard_def)

lemma keeps_lift [simp]: "keeps view (eff_lift r)"
  by (simp add: keeps_def eff_lift_def)

lemma keeps_bind: "keeps view m \<Longrightarrow> (\<And>a. keeps view (k a)) \<Longrightarrow> keeps view (eff_bind m k)"
  unfolding keeps_def eff_bind_def by (simp split: prod.splits sum.splits) (metis snd_conv)

lemma keeps_catch: "keeps view m \<Longrightarrow> (\<And>e. keeps view (h e)) \<Longrightarrow> keeps view (eff_catch m h)"
  unfolding keeps_def eff_catch_def by (simp split: prod.splits sum.splits) (metis snd_conv)

subsection \<open>Loops\<close>

text \<open>\<open>for (const x of xs) await f(x)\<close>.\<close>

primrec eff_each :: "('a \<Rightarrow> ('w, 'e, unit) eff) \<Rightarrow> 'a list \<Rightarrow> ('w, 'e, unit) eff" where
  "eff_each f [] = eff_return ()"
| "eff_each f (x # xs) = eff_bind (f x) (\<lambda>_. eff_each f xs)"

lemma eff_each_Inr:
  "eff_each f xs w = (Inr u, w') \<Longrightarrow> x \<in> set xs \<Longrightarrow> \<exists>w1 w2. f x w1 = (Inr (), w2)"
  by (induction xs arbitrary: w) (auto simp: eff_bind_Inr)

lemma keeps_each: "(\<And>x. x \<in> set xs \<Longrightarrow> keeps view (f x)) \<Longrightarrow> keeps view (eff_each f xs)"
  by (induction xs) (auto intro!: keeps_bind)

end
