(* ===== verification/Controller_Chain.thy ===== *)
theory Controller_Chain
  imports Capability_Token Effects Js_Text
begin

text \<open>
  \<open>identity/src/controller-chain-resolution\<close>: from the controller named in the document of a target DID
  the resolver follows controller links upwards, with a cycle check and a depth limit, then checks
  freshness, document signatures, revocation and bindings of every node, and signs a proof of the chain
  that a verifier checks (types in \<open>types/src/controller-chain-resolution/types.ts\<close>).

  The resolver, the freshness service, the revocation checker, the clock and the source of node ids are
  ports. Of a document the model has the fields the code reads; \<open>null\<close> and a missing field are \<open>None\<close>.
  The depth limit of a request is a whole number. The freshness requests of step 4 start together; they
  do not depend on each other and are taken in the order of the nodes.
\<close>

subsection \<open>Data\<close>

definition MAX_CHAIN_DEPTH :: int where
  "MAX_CHAIN_DEPTH = 5"

datatype ccr_code =
  CCR_CHAIN_DEPTH_EXCEEDED | CCR_CHAIN_BROKEN | CCR_FRESHNESS_INVALID | CCR_CONTROLLER_REVOKED | CCR_CHAIN_CYCLE
| CCR_CHAIN_BINDING_INVALID | CCR_CHAIN_SIGNATURE_INVALID | CCR_RESOLVER_UNAVAILABLE | CCR_VERSION_UNSUPPORTED
| CCR_CHALLENGE_EXPIRED | CCR_AUDIENCE_MISMATCH | CCR_SCHEMA_INVALID

text \<open>A \<open>CcrError\<close> with the reason of its detail, or any other thrown value.\<close>

datatype ccr_exn = CcrError ccr_code "string option" | CcrOther string

record did_doc =
  doc_controller :: "did option"
  doc_versionId :: "string option"
  doc_vm :: "did option list option"
  doc_other :: js_object

record freshness_summary =
  fs_windowMs :: number
  fs_asOfTime :: timestamp
  fs_verified :: bool

record chain_node =
  cn_nodeId :: string
  cn_controllerDid :: did
  cn_parent :: "did option"
  cn_resolvedAt :: timestamp
  cn_freshness :: freshness_summary
  cn_documentVersion :: string
  cn_isRoot :: bool
  cn_depth :: nat
  cn_document :: did_doc

record ccr_request =
  cq_targetDid :: did
  cq_challenge :: string
  cq_verifierDid :: did
  cq_maxChainDepth :: "int option"
  cq_maxFreshnessWindowMs :: "number option"

record csp_payload =
  csp_audience :: did
  csp_challenge :: string
  csp_cspVersion :: string
  csp_disclosedClaims :: "string list"
  csp_notAfter :: timestamp
  csp_token :: string

record integrity_proof =
  ci_payload :: csp_payload
  ci_chainSignature :: string
  ci_resolverDid :: did

record chain_resolution =
  cr_rootControllerDid :: did
  cr_chain :: "chain_node list"
  cr_chainDepth :: nat
  cr_integrityProof :: integrity_proof
  cr_resolvedAt :: timestamp

record 'w ccr_ports =
  ccr_resolve :: "did \<Rightarrow> ('w, ccr_exn, did_doc option) eff"
  ccr_verifyDocument :: "did_doc \<Rightarrow> ('w, ccr_exn, bool) eff"
  ccr_freshnessProof :: "did \<Rightarrow> ('w, ccr_exn, freshness_summary) eff"
  ccr_isRevoked :: "did \<Rightarrow> ('w, ccr_exn, bool) eff"
  ccr_randomUUID :: "('w, ccr_exn, string) eff"
  ccr_now :: "('w, ccr_exn, int) eff"

record 'w ccr_options =
  co_resolverDid :: "did option"
  co_signFn :: "(string \<Rightarrow> ('w, ccr_exn, string) eff) option"
  co_allowPlaceholder :: bool

subsection \<open>Loading the chain\<close>

definition new_node :: "string \<Rightarrow> int \<Rightarrow> did \<Rightarrow> chain_node list \<Rightarrow> nat \<Rightarrow> did_doc \<Rightarrow> chain_node" where
  "new_node uuid t d nodes depth doc =
     \<lparr>cn_nodeId = uuid, cn_controllerDid = d,
      cn_parent = (if depth = 0 then None else Some (cn_controllerDid (nodes ! (depth - 1)))),
      cn_resolvedAt = toISOString t,
      cn_freshness = \<lparr>fs_windowMs = Fin 0, fs_asOfTime = toISOString t, fs_verified = False\<rparr>,
      cn_documentVersion = (case doc_versionId doc of None \<Rightarrow> ''1'' | Some v \<Rightarrow> v),
      cn_isRoot = (depth = 0), cn_depth = depth, cn_document = doc\<rparr>"

text \<open>The \<open>while\<close> loop of step 3.\<close>

function load_chain ::
  "'w ccr_ports \<Rightarrow> int \<Rightarrow> did option \<Rightarrow> nat \<Rightarrow> did list \<Rightarrow> chain_node list \<Rightarrow> ('w, ccr_exn, chain_node list) eff" where
  "load_chain ports maxDepth currentDid depth seen nodes =
     (case currentDid of
        None \<Rightarrow> eff_return nodes
      | Some d \<Rightarrow>
          if maxDepth < int depth then eff_return nodes
          else if d \<in> set seen then eff_throw (CcrError CCR_CHAIN_CYCLE (Some ''cycle_detected_in_load_loop''))
          else eff_bind (ccr_resolve ports d) (\<lambda>found.
            case found of
              None \<Rightarrow> eff_throw (CcrError CCR_RESOLVER_UNAVAILABLE (Some ''chain_node_did_unavailable''))
            | Some doc \<Rightarrow>
                eff_bind (ccr_randomUUID ports) (\<lambda>uuid.
                eff_bind (ccr_now ports) (\<lambda>t.
                load_chain ports maxDepth (doc_controller doc) (depth + 1) (d # seen) (nodes @ [new_node uuid t d nodes depth doc])))))"
  by auto
termination
  by (relation "measure (\<lambda>(_, maxDepth, _, depth, _). nat (maxDepth + 1 - int depth))") auto

declare load_chain.simps [simp del]

subsection \<open>Checks on the loaded chain\<close>

text \<open>Step 4 for one node: why it is not fresh, or the summary to write back. A comparison with an invalid date is false.\<close>

definition check_freshness ::
  "'w ccr_ports \<Rightarrow> number option \<Rightarrow> did \<Rightarrow> ('w, ccr_exn, string + freshness_summary) eff" where
  "check_freshness ports maxWindow d =
     eff_catch
       (eff_bind (ccr_freshnessProof ports d) (\<lambda>rfp.
        if num_lt (case maxWindow of None \<Rightarrow> fs_windowMs rfp | Some m \<Rightarrow> m) (fs_windowMs rfp)
        then eff_return (Inl ''freshness_window_exceeded'')
        else eff_bind (ccr_now ports) (\<lambda>nowMs.
          eff_return
            (if (case getTime (fs_asOfTime rfp) of
                   None \<Rightarrow> False
                 | Some asOfMs \<Rightarrow> num_lt (fs_windowMs rfp) (Fin (of_int (nowMs - asOfMs))))
             then Inl ''stale''
             else Inr \<lparr>fs_windowMs = fs_windowMs rfp, fs_asOfTime = fs_asOfTime rfp, fs_verified = True\<rparr>))))
       (\<lambda>_. eff_return (Inl ''rfp_unavailable''))"

primrec freshness_results ::
  "'w ccr_ports \<Rightarrow> number option \<Rightarrow> chain_node list \<Rightarrow> ('w, ccr_exn, (string + freshness_summary) list) eff" where
  "freshness_results ports maxWindow [] = eff_return []"
| "freshness_results ports maxWindow (n # ns) =
     eff_bind (check_freshness ports maxWindow (cn_controllerDid n)) (\<lambda>r.
     eff_bind (freshness_results ports maxWindow ns) (\<lambda>rs. eff_return (r # rs)))"

text \<open>The loop over the results: the first failure is thrown, otherwise every summary is written back.\<close>

fun write_freshness :: "(string + freshness_summary) list \<Rightarrow> chain_node list \<Rightarrow> ccr_exn + chain_node list" where
  "write_freshness (r # rs) (n # ns) =
     (case r of
        Inl why \<Rightarrow> Inl (CcrError CCR_FRESHNESS_INVALID (Some why))
      | Inr fs \<Rightarrow> (case write_freshness rs ns of Inl e \<Rightarrow> Inl e | Inr ns' \<Rightarrow> Inr (n\<lparr>cn_freshness := fs\<rparr> # ns')))"
| "write_freshness _ ns = Inr ns"

definition check_signature :: "'w ccr_ports \<Rightarrow> chain_node \<Rightarrow> ('w, ccr_exn, unit) eff" where
  "check_signature ports n =
     eff_bind (ccr_verifyDocument ports (cn_document n)) (\<lambda>valid.
     eff_guard valid (CcrError CCR_CHAIN_SIGNATURE_INVALID (Some ''did_document_signature_invalid'')))"

definition check_controller_revocation :: "'w ccr_ports \<Rightarrow> chain_node \<Rightarrow> ('w, ccr_exn, unit) eff" where
  "check_controller_revocation ports n =
     eff_bind (eff_catch (ccr_isRevoked ports (cn_controllerDid n))
                 (\<lambda>_. eff_throw (CcrError CCR_CONTROLLER_REVOKED (Some ''revocation_checker_error'')))) (\<lambda>revoked.
     eff_guard (\<not> revoked) (CcrError CCR_CONTROLLER_REVOKED None))"

text \<open>Constraint 2 of step 9: \<open>verificationMethod?.[0]?.controller\<close>.\<close>

definition vm_controller :: "did_doc \<Rightarrow> did option" where
  "vm_controller doc = (case doc_vm doc of Some (c # _) \<Rightarrow> c | _ \<Rightarrow> None)"

definition chain_binding_valid :: "did_doc \<Rightarrow> chain_node list \<Rightarrow> bool" where
  "chain_binding_valid rootDoc nodes =
     (cn_isRoot (hd nodes) \<and> cn_parent (hd nodes) = None \<and>
      list_all (\<lambda>n. vm_controller (cn_document n) = Some (cn_controllerDid n)) nodes \<and>
      doc_controller rootDoc = Some (cn_controllerDid (hd nodes)))"

subsection \<open>The integrity proof\<close>

fun num_min :: "number \<Rightarrow> number \<Rightarrow> number" where
  "num_min NaN _ = NaN"
| "num_min _ NaN = NaN"
| "num_min a b = (if num_lt b a then b else a)"

text \<open>\<open>new Date(n).toISOString()\<close>: the time value is truncated; outside the time range it throws.\<close>

definition iso_of_number :: "number \<Rightarrow> ccr_exn + timestamp" where
  "iso_of_number n =
     (case n of
        Fin r \<Rightarrow> (let t = (if 0 \<le> r then \<lfloor>r\<rfloor> else \<lceil>r\<rceil>)
                  in if \<bar>t\<bar> \<le> 8640000000000000 then Inr (toISOString t) else Inl (CcrOther ''RangeError''))
      | _ \<Rightarrow> Inl (CcrOther ''RangeError''))"

definition chain_payload :: "ccr_request \<Rightarrow> chain_node list \<Rightarrow> timestamp \<Rightarrow> csp_payload" where
  "chain_payload request nodes limit =
     \<lparr>csp_audience = cq_verifierDid request, csp_challenge = cq_challenge request, csp_cspVersion = ''1.0.0'',
      csp_disclosedClaims = map (\<lambda>n. dec_string (cn_depth n) @ '':'' @ cn_controllerDid n) nodes, csp_notAfter = limit,
      csp_token = ''ccr:'' @ cn_controllerDid (hd nodes) @ '':depth='' @ dec_string (length nodes)\<rparr>"

text \<open>\<open>canon\<close> is the canonical form of the payload, \<open>None\<close> when it throws.\<close>

definition buildChainIntegrityProof ::
  "(csp_payload \<Rightarrow> string option) \<Rightarrow> 'w ccr_ports \<Rightarrow> 'w ccr_options \<Rightarrow> ccr_request \<Rightarrow> chain_node list \<Rightarrow>
   ('w, ccr_exn, integrity_proof) eff" where
  "buildChainIntegrityProof canon ports options request nodes =
     eff_bind (ccr_now ports) (\<lambda>t.
     eff_bind (eff_lift (iso_of_number (num_add (Fin (of_int t)) (fold num_min (map (fs_windowMs \<circ> cn_freshness) nodes) PInf)))) (\<lambda>limit.
     let payload = chain_payload request nodes limit in
     case canon payload of
       None \<Rightarrow> eff_throw (CcrError CCR_CHAIN_SIGNATURE_INVALID (Some ''jcs_canonicalize_failed''))
     | Some message \<Rightarrow>
         eff_bind (eff_guard (co_signFn options \<noteq> None \<or> co_allowPlaceholder options)
           (CcrError CCR_CHAIN_SIGNATURE_INVALID (Some ''sign_fn_missing_in_production''))) (\<lambda>_.
         eff_bind (eff_guard (co_resolverDid options \<notin> {None, Some []} \<or> co_allowPlaceholder options)
           (CcrError CCR_CHAIN_SIGNATURE_INVALID (Some ''resolver_did_missing_in_production''))) (\<lambda>_.
         eff_bind (case co_signFn options of None \<Rightarrow> eff_return ''PLACEHOLDER_SIGNATURE_NO_SIGN_FN'' | Some f \<Rightarrow> f message) (\<lambda>sig.
         eff_return \<lparr>ci_payload = payload, ci_chainSignature = sig,
           ci_resolverDid = (case co_resolverDid options of None \<Rightarrow> ''did:placeholder:ccr-resolver'' | Some d \<Rightarrow> d)\<rparr>)))))"

definition verifyChainIntegrityProof ::
  "platform \<Rightarrow> (csp_payload \<Rightarrow> string option) \<Rightarrow> integrity_proof \<Rightarrow> bytes \<Rightarrow> string \<Rightarrow> did \<Rightarrow> int \<Rightarrow> ccr_exn + unit" where
  "verifyChainIntegrityProof pf canon proof publicKey expectedChallenge verifierDid now =
     (let p = ci_payload proof in
      if csp_cspVersion p \<noteq> ''1.0.0'' then Inl (CcrError CCR_VERSION_UNSUPPORTED None)
      else if (case getTime (csp_notAfter p) of None \<Rightarrow> False | Some notAfterMs \<Rightarrow> notAfterMs < now)
      then Inl (CcrError CCR_FRESHNESS_INVALID (Some ''integrity_proof_expired''))
      else if csp_challenge p \<noteq> expectedChallenge then Inl (CcrError CCR_CHALLENGE_EXPIRED (Some ''challenge_mismatch''))
      else if csp_audience p \<noteq> verifierDid then Inl (CcrError CCR_AUDIENCE_MISMATCH (Some ''audience_mismatch''))
      else case canon p of
        None \<Rightarrow> Inl (CcrError CCR_CHAIN_SIGNATURE_INVALID (Some ''jcs_canonicalize_failed_on_verify''))
      | Some message \<Rightarrow>
          if verify pf message (ci_chainSignature proof) (toBase64Url publicKey) = Inr True then Inr ()
          else Inl (CcrError CCR_CHAIN_SIGNATURE_INVALID (Some ''ed25519_verify_failed'')))"

subsection \<open>The nine steps\<close>

text \<open>Steps 4 to 9 on a loaded chain.\<close>

definition check_loaded ::
  "'w ccr_ports \<Rightarrow> ccr_request \<Rightarrow> did_doc \<Rightarrow> chain_node list \<Rightarrow> ('w, ccr_exn, chain_node list) eff" where
  "check_loaded ports request rootDoc loaded =
     eff_bind (freshness_results ports (cq_maxFreshnessWindowMs request) loaded) (\<lambda>results.
     eff_bind (eff_lift (write_freshness results loaded)) (\<lambda>nodes.
     eff_bind (eff_each (check_signature ports) nodes) (\<lambda>_.
     eff_bind (eff_each (check_controller_revocation ports) nodes) (\<lambda>_.
     eff_bind (eff_guard (doc_controller rootDoc = Some (cn_controllerDid (hd nodes)))
       (CcrError CCR_CHAIN_BINDING_INVALID (Some ''chain_root_target_mismatch''))) (\<lambda>_.
     eff_bind (eff_guard (distinct (map cn_controllerDid nodes))
       (CcrError CCR_CHAIN_CYCLE (Some ''cycle_detected_defense_in_depth''))) (\<lambda>_.
     eff_bind (eff_guard (chain_binding_valid rootDoc nodes) (CcrError CCR_CHAIN_BINDING_INVALID None)) (\<lambda>_.
     eff_return nodes)))))))"

text \<open>The steps after loading, and the result.\<close>

definition finish_resolution ::
  "(csp_payload \<Rightarrow> string option) \<Rightarrow> 'w ccr_ports \<Rightarrow> 'w ccr_options \<Rightarrow> ccr_request \<Rightarrow> int \<Rightarrow> did_doc \<Rightarrow> chain_node list \<Rightarrow>
   ('w, ccr_exn, chain_resolution) eff" where
  "finish_resolution canon ports options request maxDepth rootDoc loaded =
     eff_bind (eff_guard (int (length loaded) \<le> maxDepth) (CcrError CCR_CHAIN_DEPTH_EXCEEDED None)) (\<lambda>_.
     eff_bind (eff_guard (loaded \<noteq> []) (CcrError CCR_CHAIN_BROKEN (Some ''empty_chain''))) (\<lambda>_.
     eff_bind (check_loaded ports request rootDoc loaded) (\<lambda>nodes.
     eff_bind (buildChainIntegrityProof canon ports options request nodes) (\<lambda>proof.
     eff_bind (ccr_now ports) (\<lambda>t.
     eff_return \<lparr>cr_rootControllerDid = cn_controllerDid (hd nodes), cr_chain = nodes, cr_chainDepth = length nodes,
       cr_integrityProof = proof, cr_resolvedAt = toISOString t\<rparr>)))))"

definition depth_limit :: "ccr_request \<Rightarrow> int" where
  "depth_limit request = (case cq_maxChainDepth request of None \<Rightarrow> MAX_CHAIN_DEPTH | Some m \<Rightarrow> m)"

definition resolveControllerChain ::
  "(csp_payload \<Rightarrow> string option) \<Rightarrow> 'w ccr_ports \<Rightarrow> 'w ccr_options \<Rightarrow> ccr_request \<Rightarrow> ('w, ccr_exn, chain_resolution) eff" where
  "resolveControllerChain canon ports options request =
     eff_bind (ccr_resolve ports (cq_targetDid request)) (\<lambda>found.
     case found of
       None \<Rightarrow> eff_throw (CcrError CCR_RESOLVER_UNAVAILABLE (Some ''root_did_unavailable''))
     | Some rootDoc \<Rightarrow>
         if doc_controller rootDoc = None \<or> doc_controller rootDoc = Some []
         then eff_throw (CcrError CCR_CHAIN_BROKEN (Some ''missing_root_controller''))
         else eff_bind (load_chain ports (depth_limit request) (doc_controller rootDoc) 0 [] [])
                (finish_resolution canon ports options request (depth_limit request) rootDoc))"

subsection \<open>What the loop loads\<close>

text \<open>A list of nodes that follows the controller links from a first DID to a document without controller.\<close>

fun chain_from :: "did option \<Rightarrow> chain_node list \<Rightarrow> bool" where
  "chain_from c [] = (c = None)"
| "chain_from c (n # ns) = (c = Some (cn_controllerDid n) \<and> chain_from (doc_controller (cn_document n)) ns)"

definition placed :: "chain_node list \<Rightarrow> bool" where
  "placed ns = (\<forall>i < length ns. cn_depth (ns ! i) = i \<and> (cn_isRoot (ns ! i) \<longleftrightarrow> i = 0) \<and>
     cn_parent (ns ! i) = (if i = 0 then None else Some (cn_controllerDid (ns ! (i - 1)))))"

definition answers :: "('w, 'e, 'a) eff \<Rightarrow> 'a \<Rightarrow> bool" where
  "answers m a = (\<exists>w w'. m w = (Inr a, w'))"

lemma placed_snoc: "placed ns \<Longrightarrow> placed (ns @ [new_node u t d ns (length ns) doc])"
  by (auto simp: placed_def nth_append new_node_def less_Suc_eq)

lemma load_chain_result:
  assumes "load_chain ports maxDepth c depth seen nodes w = (Inr out, w')"
    and "depth = length nodes" "set seen = cn_controllerDid ` set nodes" "distinct (map cn_controllerDid nodes)" "placed nodes"
    and "int (length nodes) \<le> maxDepth + 1"
  shows "\<exists>new. out = nodes @ new \<and> (chain_from c new \<or> maxDepth < int (length out)) \<and> distinct (map cn_controllerDid out) \<and> placed out \<and>
    int (length out) \<le> maxDepth + 1 \<and>
    (\<forall>n \<in> set new. answers (ccr_resolve ports (cn_controllerDid n)) (Some (cn_document n)))"
  using assms
proof (induction ports maxDepth c depth seen nodes arbitrary: w rule: load_chain.induct)
  case (1 ports maxDepth c depth seen nodes)
  show ?case
  proof (cases "c = None \<or> maxDepth < int depth")
    case True
    then have "out = nodes"
      using 1(2) by (subst (asm) load_chain.simps) (auto split: option.splits if_splits)
    with True 1(3-) show ?thesis by auto
  next
    case False
    then obtain d where c: "c = Some d" and depth: "\<not> maxDepth < int depth" by auto
    obtain doc uuid t w1 w2 w3 where fresh: "d \<notin> set seen" and doc: "ccr_resolve ports d w = (Inr (Some doc), w1)"
      and rest: "load_chain ports maxDepth (doc_controller doc) (depth + 1) (d # seen) (nodes @ [new_node uuid t d nodes depth doc]) w3 = (Inr out, w')"
      using 1(2) depth unfolding c by (subst (asm) load_chain.simps) (auto simp: eff_bind_Inr split: if_splits option.splits)
    let ?n = "new_node uuid t d nodes depth doc"
    have n: "cn_controllerDid ?n = d" "cn_document ?n = doc" by (simp_all add: new_node_def)
    from 1(1)[OF c depth fresh rest] obtain new where new: "out = (nodes @ [?n]) @ new"
      "chain_from (doc_controller doc) new \<or> maxDepth < int (length out)" "distinct (map cn_controllerDid out)" "placed out"
      "int (length out) \<le> maxDepth + 1"
      "\<forall>n \<in> set new. answers (ccr_resolve ports (cn_controllerDid n)) (Some (cn_document n))"
      using 1(3-) fresh depth placed_snoc[of nodes uuid t d doc] n by fastforce
    have "answers (ccr_resolve ports d) (Some doc)" using doc by (auto simp: answers_def)
    with new n c show ?thesis by (intro exI[of _ "?n # new"]) auto
  qed
qed

subsection \<open>What the checks establish\<close>

definition with_freshness :: "chain_node \<Rightarrow> freshness_summary \<Rightarrow> chain_node" where
  "with_freshness n fs = n\<lparr>cn_freshness := fs\<rparr>"

lemma write_freshness_Inr:
  "write_freshness rs ns = Inr ns' \<Longrightarrow> length rs = length ns \<Longrightarrow> \<exists>fss. rs = map Inr fss \<and> ns' = map2 with_freshness ns fss"
proof (induction rs ns arbitrary: ns' rule: write_freshness.induct)
  case (1 r rs n ns)
  from 1(2) obtain fs ns0 where r: "r = Inr fs" and rest: "write_freshness rs ns = Inr ns0" and ns': "ns' = with_freshness n fs # ns0"
    by (auto simp: with_freshness_def split: sum.splits)
  from 1(1)[OF r rest] 1(3) obtain fss where "rs = map Inr fss" "ns0 = map2 with_freshness ns fss" by auto
  with r ns' show ?case by (intro exI[of _ "fs # fss"]) simp
qed auto

text \<open>A summary that a node may carry: the service's own window and instant, accepted against the clock.\<close>

definition fresh_summary :: "'w ccr_ports \<Rightarrow> number option \<Rightarrow> did \<Rightarrow> freshness_summary \<Rightarrow> bool" where
  "fresh_summary ports maxWindow d fs =
     (\<exists>rfp t. answers (ccr_freshnessProof ports d) rfp \<and> answers (ccr_now ports) t \<and>
        fs = rfp\<lparr>fs_verified := True\<rparr> \<and> (\<forall>m. maxWindow = Some m \<longrightarrow> \<not> num_lt m (fs_windowMs fs)) \<and>
        (\<forall>a. getTime (fs_asOfTime fs) = Some a \<longrightarrow> \<not> num_lt (fs_windowMs fs) (Fin (of_int (t - a)))))"

lemma check_freshness_Inr:
  assumes "check_freshness ports maxWindow d w = (Inr (Inr fs), w')"
  shows "fresh_summary ports maxWindow d fs"
proof -
  obtain rfp t w1 w2 where "ccr_freshnessProof ports d w = (Inr rfp, w1)" "ccr_now ports w1 = (Inr t, w2)"
    "fs = rfp\<lparr>fs_verified := True\<rparr>" "\<forall>m. maxWindow = Some m \<longrightarrow> \<not> num_lt m (fs_windowMs rfp)"
    "\<forall>a. getTime (fs_asOfTime rfp) = Some a \<longrightarrow> \<not> num_lt (fs_windowMs rfp) (Fin (of_int (t - a)))"
    using assms unfolding check_freshness_def eff_catch_def eff_bind_def
    by (auto simp: eff_return_def split: prod.splits sum.splits if_splits option.splits)
  then show ?thesis unfolding fresh_summary_def answers_def by (intro exI[of _ rfp] exI[of _ t]) auto
qed

lemma freshness_results_Inr:
  assumes "freshness_results ports maxWindow ns w = (Inr rs, w')"
  shows "length rs = length ns \<and> (\<forall>i < length ns. \<forall>fs. rs ! i = Inr fs \<longrightarrow> fresh_summary ports maxWindow (cn_controllerDid (ns ! i)) fs)"
  using assms
proof (induction ns arbitrary: w rs w')
  case (Cons n ns)
  then obtain r rs' w1 w2 where r: "check_freshness ports maxWindow (cn_controllerDid n) w = (Inr r, w1)" "rs = r # rs'"
    and rest: "freshness_results ports maxWindow ns w1 = (Inr rs', w2)"
    by (auto simp: eff_bind_Inr)
  from Cons.IH[OF rest] check_freshness_Inr r show ?case
    by (auto simp: nth_Cons split: nat.splits)
qed simp

lemma each_Inr: "eff_each f xs w = (Inr u, w') \<Longrightarrow> x \<in> set xs \<Longrightarrow> answers (f x) ()"
  using eff_each_Inr unfolding answers_def by fast

lemma check_signature_answers: "answers (check_signature ports n) () \<Longrightarrow> answers (ccr_verifyDocument ports (cn_document n)) True"
  by (auto simp: answers_def check_signature_def eff_bind_Inr) blast

lemma controller_revocation_answers: "answers (check_controller_revocation ports n) () \<Longrightarrow> answers (ccr_isRevoked ports (cn_controllerDid n)) False"
  by (auto simp: answers_def check_controller_revocation_def eff_bind_def eff_catch_def eff_guard_def eff_return_def eff_throw_def
      split: prod.splits sum.splits if_splits)


lemma check_loaded_Inr:
  assumes "check_loaded ports request rootDoc loaded w = (Inr nodes, w')"
  shows "\<exists>fss. nodes = map2 with_freshness loaded fss \<and> length fss = length loaded \<and> chain_binding_valid rootDoc nodes \<and>
    (\<forall>n \<in> set nodes. answers (ccr_verifyDocument ports (cn_document n)) True \<and> answers (ccr_isRevoked ports (cn_controllerDid n)) False \<and>
       fresh_summary ports (cq_maxFreshnessWindowMs request) (cn_controllerDid n) (cn_freshness n))"
proof -
  obtain rs w1 w2 w3 where fresh: "freshness_results ports (cq_maxFreshnessWindowMs request) loaded w = (Inr rs, w1)"
    and wr: "write_freshness rs loaded = Inr nodes"
    and sig: "eff_each (check_signature ports) nodes w1 = (Inr (), w2)" and rvk: "eff_each (check_controller_revocation ports) nodes w2 = (Inr (), w3)"
    and binding: "chain_binding_valid rootDoc nodes"
    using assms unfolding check_loaded_def eff_bind_Inr by (auto simp: eff_lift_def)
  note f = freshness_results_Inr[OF fresh]
  from write_freshness_Inr[OF wr] f obtain fss where fss: "rs = map Inr fss" "nodes = map2 with_freshness loaded fss" by blast
  have len: "length fss = length loaded" using f fss(1) by simp
  have "fresh_summary ports (cq_maxFreshnessWindowMs request) (cn_controllerDid (nodes ! i)) (cn_freshness (nodes ! i))" if "i < length nodes" for i
    using f that len unfolding fss by (auto simp: with_freshness_def)
  then have "\<forall>n \<in> set nodes. fresh_summary ports (cq_maxFreshnessWindowMs request) (cn_controllerDid n) (cn_freshness n)"
    by (metis in_set_conv_nth)
  with fss(2) len binding each_Inr[OF sig] each_Inr[OF rvk] show ?thesis
    using check_signature_answers controller_revocation_answers by blast
qed

lemma chain_from_map2: "length fss = length ns \<Longrightarrow> chain_from c (map2 with_freshness ns fss) = chain_from c ns"
  by (induction ns fss arbitrary: c rule: list_induct2') (auto simp: with_freshness_def)

lemma placed_map2: "length fss = length ns \<Longrightarrow> placed (map2 with_freshness ns fss) = placed ns"
  by (auto simp: placed_def with_freshness_def)

lemma dids_map2: "length fss = length ns \<Longrightarrow> map f (map2 with_freshness ns fss) = map f ns" if "\<And>n fs. f (with_freshness n fs) = f n"
  using that by (induction ns fss rule: list_induct2') auto

lemma finish_Inr:
  assumes "finish_resolution canon ports options request maxDepth rootDoc loaded w = (Inr r, w')"
  obtains w1 w2 where "int (length loaded) \<le> maxDepth" "loaded \<noteq> []" "check_loaded ports request rootDoc loaded w = (Inr (cr_chain r), w1)"
    "buildChainIntegrityProof canon ports options request (cr_chain r) w1 = (Inr (cr_integrityProof r), w2)"
    "cr_chainDepth r = length (cr_chain r)"
proof -
  from assms obtain nodes w1 where g: "int (length loaded) \<le> maxDepth" "loaded \<noteq> []" "check_loaded ports request rootDoc loaded w = (Inr nodes, w1)"
    and k: "eff_bind (buildChainIntegrityProof canon ports options request nodes) (\<lambda>proof. eff_bind (ccr_now ports) (\<lambda>t.
      eff_return \<lparr>cr_rootControllerDid = cn_controllerDid (hd nodes), cr_chain = nodes, cr_chainDepth = length nodes,
        cr_integrityProof = proof, cr_resolvedAt = toISOString t\<rparr>)) w1 = (Inr r, w')"
    unfolding finish_resolution_def eff_guard_bind by (auto simp: eff_bind_Inr[of "check_loaded _ _ _ _"] split: if_splits)
  from k obtain w2 where "buildChainIntegrityProof canon ports options request nodes w1 = (Inr (cr_integrityProof r), w2)" "cr_chain r = nodes"
    "cr_chainDepth r = length nodes"
    by (auto simp: eff_bind_Inr)
  with g that show thesis by blast
qed

lemma resolve_Inr:
  assumes "resolveControllerChain canon ports options request w = (Inr r, w')"
  obtains rootDoc loaded w0 w1 where "ccr_resolve ports (cq_targetDid request) w = (Inr (Some rootDoc), w0)"
    "load_chain ports (depth_limit request) (doc_controller rootDoc) 0 [] [] w0 = (Inr loaded, w1)"
    "finish_resolution canon ports options request (depth_limit request) rootDoc loaded w1 = (Inr r, w')"
  using assms unfolding resolveControllerChain_def eff_bind_Inr by (auto simp: eff_bind_Inr split: option.splits if_splits)


subsection \<open>How much is asked\<close>

text \<open>An effect raises a counter of the world by at most \<open>k\<close>, whether it returns or throws.\<close>

definition costs :: "('w \<Rightarrow> nat) \<Rightarrow> ('w, 'e, 'a) eff \<Rightarrow> nat \<Rightarrow> bool" where
  "costs count m k = (\<forall>w. count (snd (m w)) \<le> count w + k)"

lemma costs_bind:
  assumes m: "costs count m j" and f: "\<And>a. costs count (f a) k"
  shows "costs count (eff_bind m f) (j + k)"
  unfolding costs_def
proof
  fix w
  obtain r w' where r: "m w = (r, w')" by force
  then have 1: "count w' \<le> count w + j" using m unfolding costs_def by (metis snd_conv)
  have 2: "count (snd (f a w')) \<le> count w + (j + k)" for a
  proof -
    have "count (snd (f a w')) \<le> count w' + k" using f by (simp add: costs_def)
    with 1 show ?thesis by linarith
  qed
  from 1 have "count w' \<le> count w + (j + k)" by linarith
  with r 2 show "count (snd (eff_bind m f w)) \<le> count w + (j + k)"
    by (cases r) (simp_all add: eff_bind_def)
qed

lemma costs_keeps: "keeps count m \<Longrightarrow> costs count m 0"
  by (simp add: costs_def keeps_def)

lemma costs_mono: "costs count m j \<Longrightarrow> j \<le> k \<Longrightarrow> costs count m k"
  by (meson add_left_mono costs_def order_trans)

text \<open>A world that counts the lookups; the other services do not look up documents.\<close>

definition counts_lookups :: "('w \<Rightarrow> nat) \<Rightarrow> 'w ccr_ports \<Rightarrow> 'w ccr_options \<Rightarrow> bool" where
  "counts_lookups count ports options =
     ((\<forall>d. costs count (ccr_resolve ports d) 1) \<and> (\<forall>doc. keeps count (ccr_verifyDocument ports doc)) \<and>
      (\<forall>d. keeps count (ccr_freshnessProof ports d)) \<and> (\<forall>d. keeps count (ccr_isRevoked ports d)) \<and>
      keeps count (ccr_randomUUID ports) \<and> keeps count (ccr_now ports) \<and>
      (\<forall>f m. co_signFn options = Some f \<longrightarrow> keeps count (f m)))"

lemma load_chain_costs:
  assumes "counts_lookups count ports options"
  shows "costs count (load_chain ports maxDepth c depth seen nodes) (nat (maxDepth + 1 - int depth))"
  using assms
proof (induction ports maxDepth c depth seen nodes rule: load_chain.induct)
  case (1 ports maxDepth c depth seen nodes)
  note p = 1(2)[unfolded counts_lookups_def]
  show ?case
  proof (cases "\<exists>d. c = Some d \<and> \<not> maxDepth < int depth \<and> d \<notin> set seen")
    case False
    then have "keeps count (load_chain ports maxDepth c depth seen nodes)"
      by (subst load_chain.simps) (auto split: option.splits)
    then show ?thesis by (rule costs_mono[OF costs_keeps]) simp
  next
    case True
    then obtain d where d: "c = Some d" "\<not> maxDepth < int depth" "d \<notin> set seen" by blast
    let ?k = "nat (maxDepth + 1 - int (depth + 1))"
    have next_: "costs count (eff_bind (ccr_randomUUID ports) (\<lambda>uuid. eff_bind (ccr_now ports) (\<lambda>t.
        load_chain ports maxDepth (doc_controller doc) (depth + 1) (d # seen) (nodes @ [new_node uuid t d nodes depth doc])))) (0 + (0 + ?k))" for doc
      by (intro costs_bind costs_keeps) (use p 1(1)[OF d] 1(2) in blast)+
    have "costs count (load_chain ports maxDepth c depth seen nodes) (1 + (0 + (0 + ?k)))"
      by (subst load_chain.simps, simp only: d option.case if_False, intro costs_bind)
        (use p next_ in \<open>auto split: option.splits intro!: costs_mono[OF costs_keeps[OF keeps_throw]]\<close>)
    moreover have "1 + (0 + (0 + ?k)) = nat (maxDepth + 1 - int depth)" using d(2) by simp
    ultimately show ?thesis by metis
  qed
qed

lemma freshness_keeps:
  assumes "counts_lookups count ports options"
  shows "keeps count (freshness_results ports maxWindow ns)"
proof (induction ns)
  case (Cons n ns)
  have "keeps count (check_freshness ports maxWindow d)" for d
    using assms unfolding check_freshness_def counts_lookups_def by (auto intro!: keeps_catch keeps_bind)
  with Cons show ?case by (auto intro!: keeps_bind)
qed simp

lemma finish_keeps:
  assumes "counts_lookups count ports options"
  shows "keeps count (finish_resolution canon ports options request maxDepth rootDoc loaded)"
proof -
  note p = assms[unfolded counts_lookups_def]
  have "keeps count (eff_each (check_signature ports) ns)" "keeps count (eff_each (check_controller_revocation ports) ns)" for ns
    using p unfolding check_signature_def check_controller_revocation_def by (auto intro!: keeps_each keeps_bind keeps_catch)
  then have "keeps count (check_loaded ports request rootDoc loaded)"
    unfolding check_loaded_def by (intro keeps_bind freshness_keeps[OF assms] keeps_lift keeps_guard keeps_return)
  moreover have "keeps count (buildChainIntegrityProof canon ports options request nodes)" for nodes
    using p unfolding buildChainIntegrityProof_def Let_def by (auto intro!: keeps_bind split: option.splits)
  ultimately show ?thesis
    using p unfolding finish_resolution_def by (intro keeps_bind keeps_guard keeps_return) auto
qed

text \<open>
  Remark (bounds). A resolution asks for at most one document more than the depth limit allows plus the
  target's own, whatever the documents say: chains that grow without end or lead in a circle do not
  keep the resolver busy. This holds for a resolution that returns and for one that throws.
\<close>

theorem lookups_bounded:
  assumes "counts_lookups count ports options"
  shows "count (snd (resolveControllerChain canon ports options request w)) \<le> count w + 1 + nat (depth_limit request + 1)"
proof -
  have step: "costs count (eff_bind (load_chain ports m c 0 [] []) (finish_resolution canon ports options request m doc)) (nat (m + 1) + 0)" for m c doc
    by (rule costs_bind) (use load_chain_costs[OF assms, of m c 0] finish_keeps[OF assms] in \<open>auto intro: costs_keeps\<close>)
  have "costs count (resolveControllerChain canon ports options request) (1 + (nat (depth_limit request + 1) + 0))"
    unfolding resolveControllerChain_def
    by (rule costs_bind)
      (use assms step in \<open>auto simp: counts_lookups_def split: option.splits intro!: costs_mono[OF costs_keeps[OF keeps_throw]]\<close>)
  then show ?thesis unfolding costs_def by (metis add.assoc add_0_right)
qed

text \<open>Every DID is controlled by a DID one character longer; the world counts the lookups.\<close>

definition endless_ports :: "nat ccr_ports" where
  "endless_ports =
     \<lparr>ccr_resolve = (\<lambda>d n. (Inr (Some \<lparr>doc_controller = Some (CHR ''x'' # d), doc_versionId = None, doc_vm = Some [Some d], doc_other = []\<rparr>), n + 1)),
      ccr_verifyDocument = (\<lambda>doc. eff_return True),
      ccr_freshnessProof = (\<lambda>d. eff_return \<lparr>fs_windowMs = Fin 60000, fs_asOfTime = ''1970-01-01T00:00:00.000Z'', fs_verified = True\<rparr>),
      ccr_isRevoked = (\<lambda>d. eff_return False), ccr_randomUUID = eff_return ''u'', ccr_now = eff_return 0\<rparr>"

definition demo_ccr_options :: "'w ccr_options" where
  "demo_ccr_options = \<lparr>co_resolverDid = Some ''did:r'',
     co_signFn = Some (\<lambda>m. eff_lift (case sign demo_platform m (toHex (replicate 32 1)) EncBase64Url of Inl _ \<Rightarrow> Inl (CcrOther ''sign'') | Inr v \<Rightarrow> Inr v)),
     co_allowPlaceholder = False\<rparr>"

definition demo_ccr_request :: ccr_request where
  "demo_ccr_request = \<lparr>cq_targetDid = ''did:t'', cq_challenge = ''c1'', cq_verifierDid = ''did:v'', cq_maxChainDepth = None,
     cq_maxFreshnessWindowMs = Some (Fin 100000)\<rparr>"

theorem lookups_bounded_witness:
  "snd (resolveControllerChain (\<lambda>p. Some ''m'') endless_ports demo_ccr_options demo_ccr_request 0) \<le> 7"
proof -
  have "counts_lookups (\<lambda>n. n) endless_ports demo_ccr_options"
    by (auto simp: counts_lookups_def costs_def endless_ports_def demo_ccr_options_def)
  from lookups_bounded[OF this, of "\<lambda>p. Some ''m''" demo_ccr_request 0] show ?thesis
    by (simp add: depth_limit_def demo_ccr_request_def MAX_CHAIN_DEPTH_def)
qed

subsection \<open>The proof of a chain\<close>

lemma built_proof:
  assumes "buildChainIntegrityProof canon ports options request nodes w = (Inr proof, w')"
  shows "\<exists>limit message. ci_payload proof = chain_payload request nodes limit \<and> canon (ci_payload proof) = Some message \<and>
    (\<forall>f. co_signFn options = Some f \<longrightarrow> answers (f message) (ci_chainSignature proof))"
  using assms unfolding buildChainIntegrityProof_def Let_def answers_def
  by (fastforce simp: eff_bind_Inr split: option.splits)

text \<open>
  Remark (roundtrip). The proof of a resolved chain, signed with the resolver's key, is accepted under the
  resolver's public key by the verifier and with the challenge of the request until its time limit, and
  is refused with the matching error after it, for another challenge and for another verifier. It
  discloses the depth and the DID of every node in order. (The signature and the key must not happen to
  consist of hexadecimal digits only, which the key formats cannot tell from hex.)
\<close>

theorem chain_proof_verifies:
  assumes run: "resolveControllerChain canon ports options request w = (Inr r, w')"
    and laws: "ed25519_laws pf" and sk: "assertPrivateKey sk = Inr kb"
    and signer: "co_signFn options = Some f" "\<And>m v. answers (f m) v \<Longrightarrow> sign pf m sk EncBase64Url = Inr v"
    and nohex: "\<not> HEX_PATTERN (ci_chainSignature (cr_integrityProof r))" "\<not> HEX_PATTERN (toBase64Url (ed_public pf (take 32 kb)))"
  shows "verifyChainIntegrityProof pf canon (cr_integrityProof r) (ed_public pf (take 32 kb)) challenge verifier now =
     (if \<exists>t. getTime (csp_notAfter (ci_payload (cr_integrityProof r))) = Some t \<and> t < now
      then Inl (CcrError CCR_FRESHNESS_INVALID (Some ''integrity_proof_expired''))
      else if challenge \<noteq> cq_challenge request then Inl (CcrError CCR_CHALLENGE_EXPIRED (Some ''challenge_mismatch''))
      else if verifier \<noteq> cq_verifierDid request then Inl (CcrError CCR_AUDIENCE_MISMATCH (Some ''audience_mismatch''))
      else Inr ()) \<and>
    csp_disclosedClaims (ci_payload (cr_integrityProof r)) = map (\<lambda>n. dec_string (cn_depth n) @ '':'' @ cn_controllerDid n) (cr_chain r)"
proof -
  let ?proof = "cr_integrityProof r" and ?pub = "ed_public pf (take 32 kb)"
  obtain rootDoc loaded w1 where fin: "finish_resolution canon ports options request (depth_limit request) rootDoc loaded w1 = (Inr r, w')"
    by (rule resolve_Inr[OF run])
  obtain w2 w3 where "buildChainIntegrityProof canon ports options request (cr_chain r) w2 = (Inr ?proof, w3)"
    by (rule finish_Inr[OF fin])
  from built_proof[OF this] signer(1) obtain limit message where p: "ci_payload ?proof = chain_payload request (cr_chain r) limit"
    "canon (ci_payload ?proof) = Some message" "answers (f message) (ci_chainSignature ?proof)" by blast
  have len: "length ?pub = 32"
    using laws sk by (auto simp: ed25519_laws_def assertPrivateKey_def split: sum.splits if_splits)
  have "verify pf message (ci_chainSignature ?proof) (toHex ?pub) = Inr True"
    by (rule sign_verify[OF laws sk signer(2)[OF p(3)] nohex(1)])
  then have "verify pf message (ci_chainSignature ?proof) (toBase64Url ?pub) = Inr True"
    using nohex(2) len by (simp add: verify_def assertPublicKey_def normalizeKey_toBase64Url normalizeKey_toHex split: sum.splits)
  with p show ?thesis
    by (auto simp: verifyChainIntegrityProof_def Let_def chain_payload_def split: option.splits)
qed

text \<open>\<open>did:t\<close> is controlled by \<open>did:a\<close>, and that by \<open>did:b\<close>.\<close>

definition demo_ccr_doc :: "did \<Rightarrow> did option \<Rightarrow> did_doc" where
  "demo_ccr_doc d c = \<lparr>doc_controller = c, doc_versionId = None, doc_vm = Some [Some d], doc_other = []\<rparr>"

definition demo_ccr_ports :: "bool \<Rightarrow> unit ccr_ports" where
  "demo_ccr_ports verified =
     \<lparr>ccr_resolve = (\<lambda>d. eff_return (map_of [(''did:t'', demo_ccr_doc ''did:t'' (Some ''did:a'')), (''did:a'', demo_ccr_doc ''did:a'' (Some ''did:b'')),
        (''did:b'', demo_ccr_doc ''did:b'' None)] d)),
      ccr_verifyDocument = (\<lambda>doc. eff_return True),
      ccr_freshnessProof = (\<lambda>d. eff_return \<lparr>fs_windowMs = Fin 60000, fs_asOfTime = ''1970-01-01T00:00:00.000Z'', fs_verified = verified\<rparr>),
      ccr_isRevoked = (\<lambda>d. eff_return False), ccr_randomUUID = eff_return ''u'', ccr_now = eff_return 500\<rparr>"

lemma demo_ccr_target: "ccr_resolve (demo_ccr_ports verified) ''did:t'' () = (Inr (Some (demo_ccr_doc ''did:t'' (Some ''did:a''))), ())"
  "doc_controller (demo_ccr_doc d c) = c"
  by (simp_all add: demo_ccr_ports_def eff_return_def demo_ccr_doc_def)

definition demo_ccr_nodes :: "chain_node list" where
  "demo_ccr_nodes =
     (let n = new_node ''u'' 500 ''did:a'' [] 0 (demo_ccr_doc ''did:a'' (Some ''did:b'')) in
      [n, new_node ''u'' 500 ''did:b'' [n] 1 (demo_ccr_doc ''did:b'' None)])"

lemma demo_ccr_load: "load_chain (demo_ccr_ports verified) 5 (Some ''did:a'') 0 [] [] () = (Inr demo_ccr_nodes, ())"
proof -
  note unroll = demo_ccr_ports_def eff_bind_def eff_return_def demo_ccr_doc_def demo_ccr_nodes_def Let_def
  show ?thesis
    by (subst load_chain.simps, simp add: unroll, subst load_chain.simps, simp add: unroll, subst load_chain.simps, simp add: unroll)
qed

definition demo_ccr_run :: "bool \<Rightarrow> ccr_exn + chain_resolution" where
  "demo_ccr_run verified =
     fst (finish_resolution (\<lambda>p. Some (csp_challenge p)) (demo_ccr_ports verified) demo_ccr_options demo_ccr_request 5
            (demo_ccr_doc ''did:t'' (Some ''did:a'')) demo_ccr_nodes ())"

lemma demo_ccr_run_ok:
  "case demo_ccr_run False of Inl _ \<Rightarrow> False
   | Inr r \<Rightarrow> map cn_controllerDid (cr_chain r) = [''did:a'', ''did:b''] \<and> \<not> HEX_PATTERN (ci_chainSignature (cr_integrityProof r)) \<and>
       csp_notAfter (ci_payload (cr_integrityProof r)) = ''1970-01-01T00:01:00.500Z''"
  by code_simp

lemma demo_ccr_resolution:
  obtains r where "resolveControllerChain (\<lambda>p. Some (csp_challenge p)) (demo_ccr_ports False) demo_ccr_options demo_ccr_request () = (Inr r, ())"
    "map cn_controllerDid (cr_chain r) = [''did:a'', ''did:b'']" "\<not> HEX_PATTERN (ci_chainSignature (cr_integrityProof r))"
    "csp_notAfter (ci_payload (cr_integrityProof r)) = ''1970-01-01T00:01:00.500Z''"
proof -
  obtain r where r: "demo_ccr_run False = Inr r" using demo_ccr_run_ok by (cases "demo_ccr_run False") auto
  have "resolveControllerChain (\<lambda>p. Some (csp_challenge p)) (demo_ccr_ports False) demo_ccr_options demo_ccr_request () = (Inr r, ())"
    using r unfolding demo_ccr_run_def resolveControllerChain_def
    by (simp add: eff_bind_def demo_ccr_load depth_limit_def MAX_CHAIN_DEPTH_def demo_ccr_request_def demo_ccr_target prod_eq_iff)
  with r demo_ccr_run_ok that show thesis by auto
qed


theorem chain_proof_verifies_witness:
  "\<exists>proof. (\<exists>r. resolveControllerChain (\<lambda>p. Some (csp_challenge p)) (demo_ccr_ports False) demo_ccr_options demo_ccr_request () = (Inr r, ()) \<and>
       cr_integrityProof r = proof) \<and>
     verifyChainIntegrityProof demo_platform (\<lambda>p. Some (csp_challenge p)) proof (replicate 32 1) ''c1'' ''did:v'' 60500 = Inr () \<and>
     verifyChainIntegrityProof demo_platform (\<lambda>p. Some (csp_challenge p)) proof (replicate 32 1) ''c2'' ''did:v'' 60500
       = Inl (CcrError CCR_CHALLENGE_EXPIRED (Some ''challenge_mismatch'')) \<and>
     csp_disclosedClaims (ci_payload proof) \<noteq> []"
proof -
  obtain r where r: "resolveControllerChain (\<lambda>p. Some (csp_challenge p)) (demo_ccr_ports False) demo_ccr_options demo_ccr_request () = (Inr r, ())"
    and dids: "map cn_controllerDid (cr_chain r) = [''did:a'', ''did:b'']"
    and nohex: "\<not> HEX_PATTERN (ci_chainSignature (cr_integrityProof r))"
    and limit: "csp_notAfter (ci_payload (cr_integrityProof r)) = ''1970-01-01T00:01:00.500Z''"
    by (rule demo_ccr_resolution)
  have key: "assertPrivateKey (toHex (replicate 32 1)) = Inr (replicate 32 1)"
    by (simp add: assertPrivateKey_def normalizeKey_toHex)
  have pub: "ed_public demo_platform (take 32 (replicate 32 1)) = replicate 32 1" by (simp add: demo_platform_def)
  have "\<not> HEX_PATTERN (toBase64Url (replicate 32 1))" "getTime ''1970-01-01T00:01:00.500Z'' = Some 60500" by code_simp+
  moreover obtain f where "co_signFn (demo_ccr_options :: unit ccr_options) = Some f" "\<And>m v. answers (f m) v \<Longrightarrow> sign demo_platform m (toHex (replicate 32 1)) EncBase64Url = Inr v"
    by (rule that[OF demo_ccr_options_def[THEN arg_cong[of _ _ co_signFn], simplified]]) (auto simp: answers_def eff_lift_def split: sum.splits)
  note v = chain_proof_verifies[OF r demo_laws key this nohex, unfolded pub limit]
  ultimately show ?thesis
    using v[of "''c1''" "''did:v''" 60500] v[of "''c2''" "''did:v''" 60500] dids r
    by (intro exI[of _ "cr_integrityProof r"]) (auto simp: demo_ccr_request_def)
qed

subsection \<open>A flag nobody reads\<close>

definition flagged :: "bool \<Rightarrow> 'w ccr_ports \<Rightarrow> 'w ccr_ports" where
  "flagged b ports = ports\<lparr>ccr_freshnessProof := (\<lambda>d. eff_bind (ccr_freshnessProof ports d) (\<lambda>rfp. eff_return (rfp\<lparr>fs_verified := b\<rparr>)))\<rparr>"

lemma flagged_check: "check_freshness (flagged b ports) maxWindow d = check_freshness ports maxWindow d"
  by (simp add: check_freshness_def flagged_def eff_bind_assoc cong: if_cong option.case_cong)

lemma flagged_load: "load_chain (flagged b ports) maxDepth c depth seen nodes = load_chain ports maxDepth c depth seen nodes"
proof (induction ports maxDepth c depth seen nodes rule: load_chain.induct)
  case (1 ports maxDepth c depth seen nodes)
  have same: "ccr_resolve (flagged b ports) = ccr_resolve ports" "ccr_randomUUID (flagged b ports) = ccr_randomUUID ports"
    "ccr_now (flagged b ports) = ccr_now ports"
    by (simp_all add: flagged_def)
  show ?case
  proof (cases "\<exists>d. c = Some d \<and> \<not> maxDepth < int depth \<and> d \<notin> set seen")
    case True
    then obtain d where d: "c = Some d" "\<not> maxDepth < int depth" "d \<notin> set seen" by blast
    show ?thesis
      unfolding load_chain.simps[of _ maxDepth c depth seen nodes] by (simp add: d 1[OF d, simplified] same cong: option.case_cong)
  next
    case False
    then show ?thesis unfolding load_chain.simps[of _ maxDepth c depth seen nodes] by (auto split: option.splits)
  qed
qed

text \<open>
  Remark (error). The freshness service reports for each controller whether the proof was verified; the
  resolver never reads the answer. Whatever the service reports there, the same chains are resolved.
\<close>

theorem freshness_flag_ignored:
  "resolveControllerChain canon (flagged b ports) options request = resolveControllerChain canon ports options request"
proof -
  have "freshness_results (flagged b ports) m ns = freshness_results ports m ns" for m ns
    by (induction ns) (simp_all add: flagged_check)
  moreover have "ccr_verifyDocument (flagged b ports) = ccr_verifyDocument ports" "ccr_isRevoked (flagged b ports) = ccr_isRevoked ports"
    "ccr_now (flagged b ports) = ccr_now ports" "ccr_resolve (flagged b ports) = ccr_resolve ports"
    by (simp_all add: flagged_def)
  ultimately have "finish_resolution canon (flagged b ports) options request m doc ns = finish_resolution canon ports options request m doc ns"
    and "ccr_resolve (flagged b ports) = ccr_resolve ports" for m doc ns
    unfolding finish_resolution_def check_loaded_def check_signature_def check_controller_revocation_def buildChainIntegrityProof_def
    by simp_all
  then show ?thesis
    unfolding resolveControllerChain_def flagged_load by presburger
qed

end
