(* ===== verification/Action_Recorder.thy ===== *)
theory Action_Recorder
  imports Capability_Token Hash_Chain Js_Text "HOL-Library.Multiset"
begin

text \<open>
  \<open>policy/src/recorder\<close>: the signed, hash-chained action ledger. \<open>action-recorder.ts\<close> writes and
  queries it, \<open>shared.ts\<close> builds payloads, hashes and signatures, \<open>integrity-checker.ts\<close> verifies an
  agent's chain.

  The table is \<open>policy.action_records\<close>, the one the cumulative tracker writes to: a list of rows in
  the order of the serial id. A row's \<open>created_at\<close> is an instant; the JSON columns give the objects
  back unchanged. The advisory lock and the transaction are the serial order of the calls: a call
  that throws leaves the table and the side table as they were. The ports of the control plane are
  functions; an appender or validator that throws answers \<open>False\<close>.
\<close>

subsection \<open>Inputs and errors\<close>

datatype recorder_kind = StandardKind | ControlPlaneKind

record ledger_input =
  li_recordId :: "string option"
  li_agentDid :: did
  li_principalDid :: did
  li_actionType :: string
  li_parametersSummary :: "js_object option"
  li_authorizationRef :: "js_object option"
  li_resultSummary :: "js_object option"
  li_actorPrivateKey :: string
  li_delegationDepth :: "int option"
  li_sessionId :: "string option"
  li_outputEncoding :: "encoding option"
  li_createdAt :: "timestamp option"

datatype recorder_error =
  LaneViolation | MissingParameters | MissingField string | InvalidSupersedeReason | InvalidNewSessionId
| SchemaViolation | SessionBindingMismatch | LedgerCrypto crypto_error | InvalidTimestamp | DuplicateRecordId
| SideTableFailed | LedgerKeyRequired | UnrecognizedRecordHash string | InvalidCursor

record side_entry =
  sd_recordId :: string
  sd_recordHash :: string
  sd_agentDid :: did
  sd_createdAt :: timestamp

record ledger =
  records_table :: action_table
  side_table :: "side_entry list"

record recorder =
  rc_kind :: recorder_kind
  ledgerPrivateKey :: string
  ledgerPublicKey :: string
  resolveOwner :: "jsval \<Rightarrow> (did \<times> did) option"
  schemaValidator :: "ledger_input \<Rightarrow> bool"
  appendSide :: "side_entry \<Rightarrow> bool"

definition SESSION_GOVERNOR_DID :: did where
  "SESSION_GOVERNOR_DID = ''did:system:session-governor''"

definition ACTION_SESSION_SUPERSEDED :: string where
  "ACTION_SESSION_SUPERSEDED = ''SESSION_SUPERSEDED''"

definition LEDGER_ENCODING :: encoding where
  "LEDGER_ENCODING = EncBase64Url"

subsection \<open>Keys, payloads and hashes\<close>

definition normalizeSigningPrivateKey :: "platform \<Rightarrow> string \<Rightarrow> crypto_error + string" where
  "normalizeSigningPrivateKey pf privateKey =
     (if length privateKey = 64
      then (case fromHex privateKey of
              Inl _ \<Rightarrow> Inl INVALID_KEY_FORMAT
            | Inr seed \<Rightarrow> Inr (toHex (seed @ ed_public pf seed)))
      else Inr privateKey)"

definition new_recorder ::
  "platform \<Rightarrow> recorder_kind \<Rightarrow> string \<Rightarrow> (jsval \<Rightarrow> (did \<times> did) option) \<Rightarrow> (ledger_input \<Rightarrow> bool) \<Rightarrow> (side_entry \<Rightarrow> bool)
     \<Rightarrow> recorder_error + recorder" where
  "new_recorder pf kind configuredKey resolve validate app =
     (if configuredKey = [] then Inl LedgerKeyRequired
      else case normalizeSigningPrivateKey pf configuredKey of
             Inl e \<Rightarrow> Inl (LedgerCrypto e)
           | Inr key \<Rightarrow> Inr \<lparr>rc_kind = kind, ledgerPrivateKey = key, ledgerPublicKey = drop 64 key, resolveOwner = resolve,
               schemaValidator = validate, appendSide = app\<rparr>)"

definition json_or_null :: "js_object option \<Rightarrow> jsval" where
  "json_or_null v = (case v of None \<Rightarrow> JNull | Some obj \<Rightarrow> JObj obj)"

text \<open>The payload of a row; \<open>delegationDepth\<close> and \<open>sessionId\<close> only when present.\<close>

definition buildUnsignedRecordPayload :: "action_row \<Rightarrow> timestamp \<Rightarrow> js_object" where
  "buildUnsignedRecordPayload row createdAt =
     [(''recordId'', JStr (record_id row)), (''agentDid'', JStr (agent_did row)), (''principalDid'', JStr (principal_did row)),
      (''actionType'', JStr (action_type row)), (''parametersSummary'', json_or_null (parameters_summary row)),
      (''authorizationRef'', json_or_null (authorization_ref row)), (''resultSummary'', json_or_null (result_summary row)),
      (''previousRecordHash'', JStr (previous_record_hash row)), (''createdAt'', JStr createdAt)] @
     (case delegation_depth row of None \<Rightarrow> [] | Some d \<Rightarrow> [(''delegationDepth'', JNum (Fin (of_int d)))]) @
     (case session_id row of None \<Rightarrow> [] | Some s \<Rightarrow> [(''sessionId'', JStr s)])"

definition encode_as :: "encoding \<Rightarrow> bytes \<Rightarrow> string" where
  "encode_as enc bs = (if enc = EncBase64Url then toBase64Url bs else toHex bs)"

definition ledgerRecordHash ::
  "(string \<Rightarrow> bytes) \<Rightarrow> (js_object \<Rightarrow> string) \<Rightarrow> js_object \<Rightarrow> string \<Rightarrow> encoding \<Rightarrow> crypto_error + string" where
  "ledgerRecordHash sha canon payload prev enc =
     (case canonicalize canon payload of Inl e \<Rightarrow> Inl e | Inr text \<Rightarrow> Inr (encode_as enc (sha (prev @ text))))"

definition createRecordSignature ::
  "platform \<Rightarrow> (js_object \<Rightarrow> string) \<Rightarrow> js_object \<Rightarrow> string \<Rightarrow> encoding \<Rightarrow> crypto_error + string" where
  "createRecordSignature pf canon payload privateKey enc =
     (case canonicalize canon payload of
        Inl e \<Rightarrow> Inl e
      | Inr text \<Rightarrow>
          (case normalizeSigningPrivateKey pf privateKey of Inl e \<Rightarrow> Inl e | Inr key \<Rightarrow> sign pf text key enc))"

definition verifyRecordSignature ::
  "platform \<Rightarrow> (js_object \<Rightarrow> string) \<Rightarrow> js_object \<Rightarrow> string \<Rightarrow> string \<Rightarrow> crypto_error + bool" where
  "verifyRecordSignature pf canon payload sig key =
     (case canonicalize canon payload of Inl e \<Rightarrow> Inl e | Inr text \<Rightarrow> verify pf text sig key)"

subsection \<open>Lanes\<close>

definition blank_value :: "jsval \<Rightarrow> bool" where
  "blank_value v = (v = JUndef \<or> v = JNull \<or> v = JStr [])"

definition validReasons :: "string list" where
  "validReasons = [''EXPLICIT_CLOSE'', ''TOKEN_REVOKED'', ''IDLE_EXPIRED'', ''FORCED_CLOSE'']"

definition supersede_params :: "js_object \<Rightarrow> recorder_error option" where
  "supersede_params params =
     (case filter (\<lambda>f. blank_value (get_prop params f))
             [''oldSessionId'', ''reason'', ''timestamp'', ''affectedAgentDid'', ''affectedPrincipalDid''] of
        f # _ \<Rightarrow> Some (MissingField f)
      | [] \<Rightarrow>
          (case get_prop params ''reason'' of
             JStr r \<Rightarrow>
               (if r \<notin> set validReasons then Some InvalidSupersedeReason
                else if r = ''FORCED_CLOSE''
                then (case get_prop params ''newSessionId'' of
                        JNull \<Rightarrow> None | JStr s \<Rightarrow> if s = [] then Some InvalidNewSessionId else None | _ \<Rightarrow> Some InvalidNewSessionId)
                else (case get_prop params ''newSessionId'' of
                        JStr s \<Rightarrow> if s = [] then Some InvalidNewSessionId else None | _ \<Rightarrow> Some InvalidNewSessionId))
           | _ \<Rightarrow> Some InvalidSupersedeReason))"

definition assertLaneAllowed :: "recorder_kind \<Rightarrow> ledger_input \<Rightarrow> recorder_error option" where
  "assertLaneAllowed kind inp =
     (let isGovernorActor = (li_agentDid inp = SESSION_GOVERNOR_DID);
          isGovernorPrincipal = (li_principalDid inp = SESSION_GOVERNOR_DID);
          isControlPlaneActionType = (li_actionType inp = ACTION_SESSION_SUPERSEDED)
      in case kind of
           StandardKind \<Rightarrow>
             (if isGovernorActor \<or> isGovernorPrincipal \<or> isControlPlaneActionType then Some LaneViolation else None)
         | ControlPlaneKind \<Rightarrow>
             (if \<not> isGovernorActor \<or> \<not> isGovernorPrincipal \<or> \<not> isControlPlaneActionType then Some LaneViolation
              else case li_parametersSummary inp of None \<Rightarrow> Some MissingParameters | Some params \<Rightarrow> supersede_params params))"

fun truthy :: "jsval \<Rightarrow> bool" where
  "truthy JUndef = False"
| "truthy JNull = False"
| "truthy (JBool b) = b"
| "truthy (JNum n) = (n \<noteq> NaN \<and> n \<noteq> Fin 0)"
| "truthy (JStr s) = (s \<noteq> [])"
| "truthy (JArr _) = True"
| "truthy (JObj _) = True"

text \<open>\<open>affected && affected !== owner\<close>.\<close>

definition differs :: "jsval \<Rightarrow> string \<Rightarrow> bool" where
  "differs v owner = (truthy v \<and> v \<noteq> JStr owner)"

definition binding_guard :: "recorder \<Rightarrow> ledger_input \<Rightarrow> recorder_error option" where
  "binding_guard rc inp =
     (if rc_kind rc = StandardKind then None
      else if \<not> schemaValidator rc inp then Some SchemaViolation
      else case li_parametersSummary inp of
             None \<Rightarrow> None
           | Some params \<Rightarrow>
               if \<not> truthy (get_prop params ''oldSessionId'') then None
               else (case resolveOwner rc (get_prop params ''oldSessionId'') of
                       None \<Rightarrow> Some SessionBindingMismatch
                     | Some (agent, princ) \<Rightarrow>
                         if differs (get_prop params ''affectedAgentDid'') agent \<or>
                            differs (get_prop params ''affectedPrincipalDid'') princ
                         then Some SessionBindingMismatch else None))"

subsection \<open>Writing\<close>

definition agent_rows :: "did \<Rightarrow> action_table \<Rightarrow> action_row list" where
  "agent_rows d tbl = sort_key created_at (filter (\<lambda>r. agent_did r = d) tbl)"

text \<open>\<open>ORDER BY created_at DESC, id DESC LIMIT 1\<close>: the last row in ascending order.\<close>

definition loadPreviousRecordHash :: "did \<Rightarrow> action_table \<Rightarrow> string" where
  "loadPreviousRecordHash d tbl = (if agent_rows d tbl = [] then [] else record_hash (last (agent_rows d tbl)))"

definition unsigned_row :: "ledger_input \<Rightarrow> string \<Rightarrow> string \<Rightarrow> action_row" where
  "unsigned_row inp rid prev =
     \<lparr>record_id = rid, agent_did = li_agentDid inp, principal_did = li_principalDid inp, action_type = li_actionType inp,
      parameters_summary = li_parametersSummary inp, authorization_ref = li_authorizationRef inp,
      result_summary = li_resultSummary inp, record_hash = [], previous_record_hash = prev, actor_signature = [],
      ledger_signature = [], delegation_depth = li_delegationDepth inp, session_id = li_sessionId inp, created_at = 0\<rparr>"

definition sealed_row ::
  "platform \<Rightarrow> (string \<Rightarrow> bytes) \<Rightarrow> (js_object \<Rightarrow> string) \<Rightarrow> recorder \<Rightarrow> ledger_input \<Rightarrow> action_row \<Rightarrow> timestamp \<Rightarrow> crypto_error + action_row" where
  "sealed_row pf sha canon rc inp row createdAt =
     (let enc = (case li_outputEncoding inp of None \<Rightarrow> LEDGER_ENCODING | Some e \<Rightarrow> e);
          payload = buildUnsignedRecordPayload row createdAt
      in case ledgerRecordHash sha canon payload (previous_record_hash row) enc of
           Inl e \<Rightarrow> Inl e
         | Inr h \<Rightarrow>
             (case createRecordSignature pf canon payload (li_actorPrivateKey inp) enc of
                Inl e \<Rightarrow> Inl e
              | Inr actor \<Rightarrow>
                  (case createRecordSignature pf canon payload (ledgerPrivateKey rc) enc of
                     Inl e \<Rightarrow> Inl e
                   | Inr led \<Rightarrow> Inr (row\<lparr>record_hash := h, actor_signature := actor, ledger_signature := led\<rparr>))))"

text \<open>The column \<open>created_at\<close> is read from the timestamp text when the row is inserted.\<close>

definition insert_row :: "recorder \<Rightarrow> action_row \<Rightarrow> timestamp \<Rightarrow> ledger \<Rightarrow> (recorder_error + string \<times> string) \<times> ledger" where
  "insert_row rc row createdAt lg =
     (case getTime createdAt of
        None \<Rightarrow> (Inl InvalidTimestamp, lg)
      | Some t \<Rightarrow>
          if record_id row \<in> record_id ` set (records_table lg) then (Inl DuplicateRecordId, lg)
          else let entry = \<lparr>sd_recordId = record_id row, sd_recordHash = record_hash row, sd_agentDid = agent_did row, sd_createdAt = createdAt\<rparr>;
                   written = lg\<lparr>records_table := records_table lg @ [row\<lparr>created_at := t\<rparr>]\<rparr>
               in if rc_kind rc = ControlPlaneKind
                  then (if appendSide rc entry
                        then (Inr (record_id row, record_hash row), written\<lparr>side_table := side_table lg @ [entry]\<rparr>)
                        else (Inl SideTableFailed, lg))
                  else (Inr (record_id row, record_hash row), written))"

definition record_action ::
  "platform \<Rightarrow> (string \<Rightarrow> bytes) \<Rightarrow> (js_object \<Rightarrow> string) \<Rightarrow> recorder \<Rightarrow> ledger_input \<Rightarrow> string \<Rightarrow> int \<Rightarrow> ledger
     \<Rightarrow> (recorder_error + string \<times> string) \<times> ledger" where
  "record_action pf sha canon rc inp uuid clock lg =
     (case assertLaneAllowed (rc_kind rc) inp of
        Some e \<Rightarrow> (Inl e, lg)
      | None \<Rightarrow>
          (case binding_guard rc inp of
             Some e \<Rightarrow> (Inl e, lg)
           | None \<Rightarrow>
               (let rid = (case li_recordId inp of None \<Rightarrow> uuid | Some i \<Rightarrow> i);
                    createdAt = (case li_createdAt inp of None \<Rightarrow> toISOString clock | Some t \<Rightarrow> t);
                    prev = loadPreviousRecordHash (li_agentDid inp) (records_table lg)
                in case sealed_row pf sha canon rc inp (unsigned_row inp rid prev) createdAt of
                     Inl e \<Rightarrow> (Inl (LedgerCrypto e), lg)
                   | Inr row \<Rightarrow> insert_row rc row createdAt lg)))"

subsection \<open>Reading\<close>

text \<open>
  A row is read together with its serial id, its position in the table counted from one. A cursor is
  the text of the last instant and the last id of a page. \<open>BigInt\<close> refuses what is not a decimal number (its other notations never occur in a cursor of this code). The
  time bounds of a filter are instants.
\<close>

record query_filters =
  qf_agentDid :: "did option"
  qf_principalDid :: "did option"
  qf_actionType :: "string option"
  qf_createdFrom :: "int option"
  qf_createdTo :: "int option"
  qf_cursor :: "string option"
  qf_limit :: "nat option"
  qf_desc :: bool

type_synonym numbered_row = "nat \<times> action_row"

definition numbered :: "action_table \<Rightarrow> numbered_row list" where
  "numbered tbl = zip [1..<length tbl + 1] tbl"

definition cond_holds :: "('a \<Rightarrow> bool) \<Rightarrow> 'a option \<Rightarrow> bool" where
  "cond_holds c v = (case v of None \<Rightarrow> True | Some x \<Rightarrow> c x)"

definition matches :: "query_filters \<Rightarrow> action_row \<Rightarrow> bool" where
  "matches f r =
     (cond_holds (\<lambda>x. agent_did r = x) (qf_agentDid f) \<and> cond_holds (\<lambda>x. principal_did r = x) (qf_principalDid f) \<and>
      cond_holds (\<lambda>x. action_type r = x) (qf_actionType f) \<and> cond_holds (\<lambda>x. x \<le> created_at r) (qf_createdFrom f) \<and>
      cond_holds (\<lambda>x. created_at r \<le> x) (qf_createdTo f))"

definition parseCursor :: "string \<Rightarrow> (timestamp \<times> nat) option" where
  "parseCursor s =
     (let piped = (CHR ''|'' \<in> set s);
          ts = (if piped then takeWhile (\<lambda>c. c \<noteq> CHR ''|'') s else butlast s);
          ds = (if piped then drop 1 (dropWhile (\<lambda>c. c \<noteq> CHR ''|'') s) else s)
      in if list_all is_digit ds then Some (ts, nat (num_val 0 ds)) else None)"

definition past_cursor :: "(int \<times> nat) option \<Rightarrow> numbered_row \<Rightarrow> bool" where
  "past_cursor cur r = cond_holds (\<lambda>(t, i). t < created_at (snd r) \<or> (t = created_at (snd r) \<and> i < fst r)) cur"

definition read_cursor :: "string option \<Rightarrow> recorder_error + (int \<times> nat) option" where
  "read_cursor c =
     (case c of
        None \<Rightarrow> Inr None
      | Some s \<Rightarrow>
          (case parseCursor s of
             None \<Rightarrow> Inl InvalidCursor
           | Some (ts, i) \<Rightarrow> (case getTime ts of None \<Rightarrow> Inl InvalidTimestamp | Some t \<Rightarrow> Inr (Some (t, i)))))"

definition selected :: "query_filters \<Rightarrow> (int \<times> nat) option \<Rightarrow> action_table \<Rightarrow> numbered_row list" where
  "selected f cur tbl = sort_key (\<lambda>r. created_at (snd r)) (filter (\<lambda>r. matches f (snd r) \<and> past_cursor cur r) (numbered tbl))"

text \<open>A persisted record is the row with the text of its instant.\<close>

type_synonym persisted_record = "action_row \<times> timestamp"

definition mapActionRecordRow :: "action_row \<Rightarrow> persisted_record" where
  "mapActionRecordRow r = (r, toISOString (created_at r))"

definition cursor_of :: "numbered_row \<Rightarrow> string" where
  "cursor_of r = toISOString (created_at (snd r)) @ ''|'' @ dec_string (fst r)"

definition query_records ::
  "query_filters \<Rightarrow> action_table \<Rightarrow> recorder_error + persisted_record list \<times> string option" where
  "query_records f tbl =
     (case read_cursor (qf_cursor f) of
        Inl e \<Rightarrow> Inl e
      | Inr cur \<Rightarrow>
          (let limit = (case qf_limit f of None \<Rightarrow> 100 | Some n \<Rightarrow> n);
               rows = take (limit + 1) (if qf_desc f then rev (selected f cur tbl) else selected f cur tbl);
               hasMore = limit < length rows;
               pageRows = (if hasMore then take limit rows else rows)
           in Inr (map (mapActionRecordRow \<circ> snd) pageRows,
                   if hasMore \<and> pageRows \<noteq> [] then Some (cursor_of (last pageRows)) else None)))"

subsection \<open>Verifying\<close>

record integrity_checker =
  ic_kind :: recorder_kind
  ic_resolve :: "did \<Rightarrow> string option"
  ic_ledgerPublicKey :: string

datatype integrity_result = Intact | BrokenAt string string

definition resolvePublicKey :: "integrity_checker \<Rightarrow> did \<Rightarrow> string option" where
  "resolvePublicKey ic d =
     (case ic_kind ic of
        StandardKind \<Rightarrow> if d = SESSION_GOVERNOR_DID then None else ic_resolve ic d
      | ControlPlaneKind \<Rightarrow> if d \<noteq> SESSION_GOVERNOR_DID then None else ic_resolve ic d)"

definition RECORD_HASH_CHARSET :: "string \<Rightarrow> bool" where
  "RECORD_HASH_CHARSET s =
     (s \<noteq> [] \<and> list_all (\<lambda>c. is_digit c \<or> (65 \<le> code_unit c \<and> code_unit c \<le> 90) \<or>
         (97 \<le> code_unit c \<and> code_unit c \<le> 122) \<or> c = CHR ''_'' \<or> c = CHR ''-'') s)"

text \<open>One turn of the loop: \<open>Inr None\<close> goes on to the next record.\<close>

definition check_record ::
  "platform \<Rightarrow> (string \<Rightarrow> bytes) \<Rightarrow> (js_object \<Rightarrow> string) \<Rightarrow> integrity_checker \<Rightarrow> string \<Rightarrow> persisted_record \<Rightarrow> recorder_error + string option" where
  "check_record pf sha canon ic expectedPrev rcd =
     (let (row, createdAt) = rcd; payload = buildUnsignedRecordPayload row createdAt in
      if previous_record_hash row \<noteq> expectedPrev then Inr (Some ''previous_record_hash mismatch'')
      else if \<not> RECORD_HASH_CHARSET (record_hash row) then Inl (UnrecognizedRecordHash (record_id row))
      else case ledgerRecordHash sha canon payload (previous_record_hash row) (detectEncoding (record_hash row)) of
             Inl e \<Rightarrow> Inl (LedgerCrypto e)
           | Inr expected \<Rightarrow>
               if record_hash row \<noteq> expected then Inr (Some ''record_hash mismatch'')
               else (case resolvePublicKey ic (agent_did row) of
                       None \<Rightarrow> Inr (Some ''agent public key unavailable'')
                     | Some key \<Rightarrow>
                         if key = [] then Inr (Some ''agent public key unavailable'')
                         else (case verifyRecordSignature pf canon payload (actor_signature row) key of
                                 Inl e \<Rightarrow> Inl (LedgerCrypto e)
                               | Inr False \<Rightarrow> Inr (Some ''actor_signature invalid'')
                               | Inr True \<Rightarrow>
                                   (case verifyRecordSignature pf canon payload (ledger_signature row) (ic_ledgerPublicKey ic) of
                                      Inl e \<Rightarrow> Inl (LedgerCrypto e)
                                    | Inr False \<Rightarrow> Inr (Some ''ledger_signature invalid'')
                                    | Inr True \<Rightarrow> Inr None))))"

fun check_chain ::
  "platform \<Rightarrow> (string \<Rightarrow> bytes) \<Rightarrow> (js_object \<Rightarrow> string) \<Rightarrow> integrity_checker \<Rightarrow> string \<Rightarrow> persisted_record list \<Rightarrow> recorder_error + integrity_result" where
  "check_chain pf sha canon ic prev [] = Inr Intact"
| "check_chain pf sha canon ic prev (r # rs) =
     (case check_record pf sha canon ic prev r of
        Inl e \<Rightarrow> Inl e
      | Inr (Some why) \<Rightarrow> Inr (BrokenAt (record_id (fst r)) why)
      | Inr None \<Rightarrow> check_chain pf sha canon ic (record_hash (fst r)) rs)"

definition no_filters :: query_filters where
  "no_filters = \<lparr>qf_agentDid = None, qf_principalDid = None, qf_actionType = None, qf_createdFrom = None, qf_createdTo = None,
     qf_cursor = None, qf_limit = None, qf_desc = False\<rparr>"

definition verifyIntegrity ::
  "platform \<Rightarrow> (string \<Rightarrow> bytes) \<Rightarrow> (js_object \<Rightarrow> string) \<Rightarrow> integrity_checker \<Rightarrow> did \<Rightarrow> query_filters \<Rightarrow> action_table
     \<Rightarrow> recorder_error + integrity_result" where
  "verifyIntegrity pf sha canon ic d f tbl =
     (case query_records (f\<lparr>qf_agentDid := Some d, qf_limit := Some (case qf_limit f of None \<Rightarrow> 10000 | Some n \<Rightarrow> n)\<rparr>) tbl of
        Inl e \<Rightarrow> Inl e
      | Inr (records, _) \<Rightarrow> check_chain pf sha canon ic [] records)"

subsection \<open>Order of the rows\<close>

lemma insort_key_snoc: "f a \<le> f x \<Longrightarrow> insort_key f a (ys @ [x]) = insort_key f a ys @ [x]"
  by (induction ys) auto

lemma sort_key_snoc: "\<forall>y \<in> set xs. f y \<le> f x \<Longrightarrow> sort_key f (xs @ [x]) = sort_key f xs @ [x]"
  by (induction xs) (simp_all add: insort_key_snoc)

lemma map_insort_key: "map g (insort_key (\<lambda>x. f (g x)) a ys) = insort_key f (g a) (map g ys)"
  by (induction ys) auto

lemma map_sort_key: "map g (sort_key (\<lambda>x. f (g x)) xs) = sort_key f (map g xs)"
  by (induction xs) (simp_all add: map_insort_key)

lemma map_snd_numbered [simp]: "map snd (numbered tbl) = tbl"
  unfolding numbered_def by (rule map_snd_zip) (simp del: upt_Suc)

lemma agent_rows_snoc:
  assumes "agent_did row = d" "\<forall>r \<in> set tbl. agent_did r = d \<longrightarrow> created_at r \<le> created_at row"
  shows "agent_rows d (tbl @ [row]) = agent_rows d tbl @ [row]"
  unfolding agent_rows_def using assms by (simp add: sort_key_snoc)

lemma agent_rows_other [simp]: "agent_did row \<noteq> d \<Longrightarrow> agent_rows d (tbl @ [row]) = agent_rows d tbl"
  by (simp add: agent_rows_def)

lemma query_ascending:
  assumes "read_cursor (qf_cursor f) = Inr cur" "\<not> qf_desc f" "qf_limit f = Some limit"
  shows "query_records f tbl =
    Inr (map (mapActionRecordRow \<circ> snd) (take limit (selected f cur tbl)),
         if limit < length (selected f cur tbl) \<and> 0 < limit then Some (cursor_of (selected f cur tbl ! (limit - 1))) else None)"
proof -
  let ?s = "selected f cur tbl"
  have "last (take limit ?s) = ?s ! (limit - 1)" if "limit < length ?s" "0 < limit"
    using that by (subst last_conv_nth) auto
  then show ?thesis
    using assms by (auto simp: query_records_def Let_def min_def)
qed

text \<open>What the checker reads by default: the first ten thousand rows of the agent.\<close>

lemma selected_agent: "map snd (selected (no_filters\<lparr>qf_agentDid := Some d, qf_limit := l\<rparr>) None tbl) = agent_rows d tbl"
proof -
  have "map snd (filter (\<lambda>r. agent_did (snd r) = d) (numbered tbl)) = filter (\<lambda>r. agent_did r = d) tbl"
    using filter_map[of "\<lambda>r. agent_did r = d" snd "numbered tbl"] by (simp add: comp_def)
  then show ?thesis
    unfolding selected_def agent_rows_def
    by (simp add: map_sort_key matches_def past_cursor_def cond_holds_def no_filters_def)
qed

lemma verifyIntegrity_default:
  "verifyIntegrity pf sha canon ic d no_filters tbl =
     check_chain pf sha canon ic [] (map mapActionRecordRow (take 10000 (agent_rows d tbl)))"
proof -
  let ?f = "no_filters\<lparr>qf_agentDid := Some d, qf_limit := Some 10000\<rparr>"
  have "map (mapActionRecordRow \<circ> snd) (take 10000 (selected ?f None tbl)) = map mapActionRecordRow (take 10000 (agent_rows d tbl))"
    unfolding selected_agent[symmetric, of d tbl "Some 10000"] by (simp add: take_map)
  moreover have "read_cursor (qf_cursor ?f) = Inr None" "\<not> qf_desc ?f" "qf_limit ?f = Some 10000"
    by (simp_all add: no_filters_def read_cursor_def)
  note query_ascending[OF this, of tbl]
  moreover have "qf_limit no_filters = None" by (simp add: no_filters_def)
  ultimately show ?thesis
    by (simp add: verifyIntegrity_def)
qed

subsection \<open>The chain\<close>

fun end_hash :: "string \<Rightarrow> persisted_record list \<Rightarrow> string" where
  "end_hash prev [] = prev"
| "end_hash prev (r # rs) = end_hash (record_hash (fst r)) rs"

lemma check_chain_snoc:
  "check_chain pf sha canon ic prev (rs @ [r]) = Inr Intact \<longleftrightarrow>
   check_chain pf sha canon ic prev rs = Inr Intact \<and> check_record pf sha canon ic (end_hash prev rs) r = Inr None"
  by (induction rs arbitrary: prev) (auto split: sum.splits option.splits)

lemma check_record_hash:
  assumes "check_record pf sha canon ic prev (row, createdAt) = Inr None"
  shows "\<exists>msg. canonicalize canon (buildUnsignedRecordPayload row createdAt) = Inr msg \<and>
    record_hash row = encode_as (detectEncoding (record_hash row)) (sha (prev @ msg))"
proof (cases "ledgerRecordHash sha canon (buildUnsignedRecordPayload row createdAt) prev (detectEncoding (record_hash row))")
  case (Inl e)
  then show ?thesis using assms by (simp add: check_record_def Let_def split: if_splits)
next
  case (Inr expected)
  then have "record_hash row = expected"
    using assms by (simp add: check_record_def Let_def split: if_splits)
  with Inr show ?thesis by (auto simp: ledgerRecordHash_def split: sum.splits)
qed

lemma end_hash_rows: "end_hash [] (map mapActionRecordRow (agent_rows d tbl)) = loadPreviousRecordHash d tbl"
proof -
  have "end_hash prev (map mapActionRecordRow rs) = (if rs = [] then prev else record_hash (last rs))" for prev rs
    by (induction rs arbitrary: prev) (auto simp: mapActionRecordRow_def)
  then show ?thesis by (simp add: loadPreviousRecordHash_def)
qed

subsection \<open>What a successful write leaves\<close>

lemma record_action_Inr:
  assumes "record_action pf sha canon rc inp uuid clock lg = (Inr (rid, h), lg')"
  obtains row t createdAt where
    "assertLaneAllowed (rc_kind rc) inp = None" "binding_guard rc inp = None"
    "createdAt = (case li_createdAt inp of None \<Rightarrow> toISOString clock | Some c \<Rightarrow> c)" "getTime createdAt = Some t"
    "rid = (case li_recordId inp of None \<Rightarrow> uuid | Some i \<Rightarrow> i)" "rid \<notin> record_id ` set (records_table lg)"
    "sealed_row pf sha canon rc inp (unsigned_row inp rid (loadPreviousRecordHash (li_agentDid inp) (records_table lg))) createdAt = Inr row"
    "h = record_hash row" "records_table lg' = records_table lg @ [row\<lparr>created_at := t\<rparr>]" "record_id row = rid"
proof -
  let ?c = "case li_createdAt inp of None \<Rightarrow> toISOString clock | Some c \<Rightarrow> c"
  let ?r = "case li_recordId inp of None \<Rightarrow> uuid | Some i \<Rightarrow> i"
  let ?u = "unsigned_row inp ?r (loadPreviousRecordHash (li_agentDid inp) (records_table lg))"
  have lane: "assertLaneAllowed (rc_kind rc) inp = None" "binding_guard rc inp = None"
    using assms by (auto simp: record_action_def split: option.splits)
  then obtain row where row: "sealed_row pf sha canon rc inp ?u ?c = Inr row"
    and ins: "insert_row rc row ?c lg = (Inr (rid, h), lg')"
    using assms by (cases "sealed_row pf sha canon rc inp ?u ?c") (auto simp: record_action_def Let_def)
  have id: "record_id row = ?r"
    using row by (auto simp: sealed_row_def unsigned_row_def Let_def split: sum.splits)
  obtain t where t: "getTime ?c = Some t"
    using ins by (cases "getTime ?c") (auto simp: insert_row_def)
  have "rid = ?r \<and> h = record_hash row \<and> rid \<notin> record_id ` set (records_table lg) \<and> records_table lg' = records_table lg @ [row\<lparr>created_at := t\<rparr>]"
    using ins t id by (auto simp: insert_row_def Let_def split: if_splits)
  with lane row t id that show ?thesis by metis
qed

lemma sealed_row_Inr:
  assumes "sealed_row pf sha canon rc inp row createdAt = Inr row'"
  obtains msg enc where
    "enc = (case li_outputEncoding inp of None \<Rightarrow> LEDGER_ENCODING | Some e \<Rightarrow> e)"
    "canonicalize canon (buildUnsignedRecordPayload row createdAt) = Inr msg"
    "record_hash row' = encode_as enc (sha (previous_record_hash row @ msg))"
    "createRecordSignature pf canon (buildUnsignedRecordPayload row createdAt) (li_actorPrivateKey inp) enc = Inr (actor_signature row')"
    "createRecordSignature pf canon (buildUnsignedRecordPayload row createdAt) (ledgerPrivateKey rc) enc = Inr (ledger_signature row')"
    "row' = row\<lparr>record_hash := record_hash row', actor_signature := actor_signature row', ledger_signature := ledger_signature row'\<rparr>"
  using assms by (auto simp: sealed_row_def ledgerRecordHash_def Let_def split: sum.splits)

subsection \<open>Hashes and signatures are read back\<close>

lemma length_toBase64Url: "length (toBase64Url bs) = (4 * length bs + 2) div 3"
  by (induction bs rule: toBase64Url.induct) (simp_all add: Let_def)

lemma detect_encode_as: "length bs = 32 \<Longrightarrow> detectEncoding (encode_as enc bs) = enc"
proof (cases enc)
  case EncBase64Url
  then show "length bs = 32 \<Longrightarrow> ?thesis"
    by (auto simp: encode_as_def detectEncoding_def length_toBase64Url)
qed (simp add: encode_as_def detect_toHex)

lemma charset_digits:
  "\<forall>c \<in> set BASE64URL_CHARS. is_digit c \<or> (65 \<le> code_unit c \<and> code_unit c \<le> 90) \<or> (97 \<le> code_unit c \<and> code_unit c \<le> 122) \<or> c = CHR ''_'' \<or> c = CHR ''-''"
  "set HEX_DIGITS \<subseteq> set BASE64URL_CHARS"
  by code_simp+

lemma charset_encode_as: "bs \<noteq> [] \<Longrightarrow> RECORD_HASH_CHARSET (encode_as enc bs)"
proof -
  assume ne: "bs \<noteq> []"
  have "set (encode_as enc bs) \<subseteq> set BASE64URL_CHARS"
    using toHex_chars[of bs] toBase64Url_chars[of bs] charset_digits(2) by (auto simp: encode_as_def)
  moreover have "encode_as enc bs \<noteq> []"
    using ne toHex_pattern[OF ne] length_toHex[of bs] by (auto simp: encode_as_def)
  ultimately show ?thesis
    unfolding RECORD_HASH_CHARSET_def list_all_iff using charset_digits(1) by blast
qed

lemma record_signature_verifies:
  assumes laws: "ed25519_laws pf" and seed: "length seed = 32" and key: "sk = toHex seed \<or> sk = toHex (seed @ ed_public pf seed)"
    and sig: "createRecordSignature pf canon payload sk enc = Inr v" and nohex: "enc = EncBase64Url \<Longrightarrow> \<not> HEX_PATTERN v"
  shows "verifyRecordSignature pf canon payload v (toHex (ed_public pf seed)) = Inr True"
proof -
  have n: "normalizeSigningPrivateKey pf sk = Inr (toHex (seed @ ed_public pf seed))"
    using key seed laws by (auto simp: normalizeSigningPrivateKey_def length_toHex ed25519_laws_def)
  have a: "assertPrivateKey (toHex (seed @ ed_public pf seed)) = Inr (seed @ ed_public pf seed)"
    using seed laws by (simp add: assertPrivateKey_def normalizeKey_toHex ed25519_laws_def)
  obtain msg where m: "canonicalize canon payload = Inr msg"
    and v: "v = encode_as enc (ed_sign pf msg seed)"
    using sig n a seed by (auto simp: createRecordSignature_def sign_def encode_as_def Let_def split: sum.splits)
  have "normalizeKey v = Inr (ed_sign pf msg seed)"
    using nohex by (cases enc) (auto simp: v encode_as_def normalizeKey_toHex normalizeKey_toBase64Url)
  with laws seed show ?thesis
    by (simp add: verifyRecordSignature_def m verify_def assertSignature_def assertPublicKey_def normalizeKey_toHex ed25519_laws_def)
qed

lemma payload_fields:
  "buildUnsignedRecordPayload (row\<lparr>record_hash := a, actor_signature := b, ledger_signature := c\<rparr>) t = buildUnsignedRecordPayload row t"
  "buildUnsignedRecordPayload (row\<lparr>created_at := n\<rparr>) t = buildUnsignedRecordPayload row t"
  by (simp_all add: buildUnsignedRecordPayload_def)

lemma sealed_row_checks:
  assumes laws: "ed25519_laws pf" and digest: "\<And>x. length (sha x) = 32"
    and sealed: "sealed_row pf sha canon rc inp row createdAt = Inr row'"
    and actor: "li_actorPrivateKey inp = toHex aseed" "length aseed = 32" "resolvePublicKey ic (agent_did row) = Some (toHex (ed_public pf aseed))"
    and ledger: "ledgerPrivateKey rc = toHex (lseed @ ed_public pf lseed)" "length lseed = 32" "ic_ledgerPublicKey ic = toHex (ed_public pf lseed)"
    and nohex: "li_outputEncoding inp \<noteq> Some EncHex \<Longrightarrow> \<not> HEX_PATTERN (actor_signature row') \<and> \<not> HEX_PATTERN (ledger_signature row')"
  shows "check_record pf sha canon ic (previous_record_hash row) (row'\<lparr>created_at := t\<rparr>, createdAt) = Inr None"
proof -
  obtain msg enc where enc: "enc = (case li_outputEncoding inp of None \<Rightarrow> LEDGER_ENCODING | Some e \<Rightarrow> e)"
    and msg: "canonicalize canon (buildUnsignedRecordPayload row createdAt) = Inr msg"
    and h: "record_hash row' = encode_as enc (sha (previous_record_hash row @ msg))"
    and sigs: "createRecordSignature pf canon (buildUnsignedRecordPayload row createdAt) (li_actorPrivateKey inp) enc = Inr (actor_signature row')"
      "createRecordSignature pf canon (buildUnsignedRecordPayload row createdAt) (ledgerPrivateKey rc) enc = Inr (ledger_signature row')"
    and row': "row' = row\<lparr>record_hash := record_hash row', actor_signature := actor_signature row', ledger_signature := ledger_signature row'\<rparr>"
    using sealed_row_Inr[OF sealed] by metis
  have b64: "enc = EncBase64Url \<Longrightarrow> li_outputEncoding inp \<noteq> Some EncHex"
    by (auto simp: enc split: option.splits)
  have payload: "buildUnsignedRecordPayload (row'\<lparr>created_at := t\<rparr>) createdAt = buildUnsignedRecordPayload row createdAt"
    by (subst row') (simp add: payload_fields)
  have fields: "previous_record_hash row' = previous_record_hash row" "agent_did row' = agent_did row"
    by (subst row', simp)+
  have ne: "sha x \<noteq> []" "toHex (ed_public pf aseed) \<noteq> []" for x
  proof -
    show "sha x \<noteq> []" using digest[of x] by auto
    have "length (ed_public pf aseed) = 32" using laws actor(2) by (simp add: ed25519_laws_def)
    then show "toHex (ed_public pf aseed) \<noteq> []" using length_toHex[of "ed_public pf aseed"] by auto
  qed
  have "verifyRecordSignature pf canon (buildUnsignedRecordPayload row createdAt) (actor_signature row') (toHex (ed_public pf aseed)) = Inr True"
    by (rule record_signature_verifies[OF laws actor(2) _ sigs(1)]) (use actor(1) nohex b64 in auto)
  moreover have "verifyRecordSignature pf canon (buildUnsignedRecordPayload row createdAt) (ledger_signature row') (toHex (ed_public pf lseed)) = Inr True"
    by (rule record_signature_verifies[OF laws ledger(2) _ sigs(2)]) (use ledger(1) nohex b64 in auto)
  ultimately show ?thesis
    by (simp add: check_record_def payload fields ledgerRecordHash_def msg h detect_encode_as digest charset_encode_as ne actor(3) ledger(3))
qed

lemma toHex_append: "toHex (xs @ ys) = toHex xs @ toHex ys"
  by (simp add: toHex_def)

lemma toHex_nonempty: "toHex bs = [] \<longleftrightarrow> bs = []"
  using length_toHex[of bs] by auto

lemma new_recorder_seed:
  assumes "ed25519_laws pf" "length lseed = 32" "new_recorder pf kind (toHex lseed) res vld app = Inr rc"
  shows "ledgerPrivateKey rc = toHex (lseed @ ed_public pf lseed)" "ledgerPublicKey rc = toHex (ed_public pf lseed)" "rc_kind rc = kind"
  using assms by (auto simp: new_recorder_def normalizeSigningPrivateKey_def length_toHex toHex_append split: if_splits)

subsection \<open>Properties\<close>

definition recorded_at :: "ledger_input \<Rightarrow> int \<Rightarrow> timestamp" where
  "recorded_at inp clock = (case li_createdAt inp of None \<Rightarrow> toISOString clock | Some t \<Rightarrow> t)"

text \<open>
  C27 (invariant). Writing keeps the ledger intact: when the chain of an agent verifies and a record of
  that agent is written that is not older than its predecessors, the chain of the agent verifies
  again, and the verdict on every other agent is unchanged. The recorder has a 32-byte ledger key, the
  checker knows the public keys of ledger and agent, Ed25519 keeps its law, SHA-256 gives 32 bytes,
  and no base64url signature consists of hex digits only.
\<close>

theorem record_keeps_integrity:
  assumes laws: "ed25519_laws pf" "\<And>x. length (sha x) = 32"
    and rc: "new_recorder pf kind (toHex lseed) res vld app = Inr rc" "length lseed = 32"
    and actor: "li_actorPrivateKey inp = toHex aseed" "length aseed = 32"
    and ic: "ic_ledgerPublicKey ic = ledgerPublicKey rc" "resolvePublicKey ic (li_agentDid inp) = Some (toHex (ed_public pf aseed))"
    and time: "recorded_at inp clock = toISOString t" "0 \<le> year_from_day (t div 86400000)" "year_from_day (t div 86400000) \<le> 9999"
      "\<forall>r \<in> set (records_table lg). agent_did r = li_agentDid inp \<longrightarrow> created_at r \<le> t"
    and intact: "verifyIntegrity pf sha canon ic (li_agentDid inp) no_filters (records_table lg) = Inr Intact"
    and written: "record_action pf sha canon rc inp uuid clock lg = (Inr (rid, h), lg')"
    and nohex: "li_outputEncoding inp \<noteq> Some EncHex \<longrightarrow>
      \<not> HEX_PATTERN (actor_signature (last (records_table lg'))) \<and> \<not> HEX_PATTERN (ledger_signature (last (records_table lg')))"
  shows "verifyIntegrity pf sha canon ic (li_agentDid inp) no_filters (records_table lg') = Inr Intact \<and>
    (\<forall>d. d \<noteq> li_agentDid inp \<longrightarrow>
       verifyIntegrity pf sha canon ic d no_filters (records_table lg') = verifyIntegrity pf sha canon ic d no_filters (records_table lg))"
proof -
  let ?d = "li_agentDid inp" and ?rows = "agent_rows (li_agentDid inp) (records_table lg)"
  let ?prev = "loadPreviousRecordHash ?d (records_table lg)"
  note key = new_recorder_seed[OF laws(1) rc(2,1)]
  have gt: "getTime (toISOString t) = Some t"
    by (rule getTime_toISOString[OF time(2,3)])
  obtain row where sealed: "sealed_row pf sha canon rc inp (unsigned_row inp rid ?prev) (toISOString t) = Inr row"
    and tbl: "records_table lg' = records_table lg @ [row\<lparr>created_at := t\<rparr>]"
    using written time(1) gt by (auto elim!: record_action_Inr simp: recorded_at_def)
  have did: "agent_did row = ?d"
    using sealed by (auto simp: sealed_row_def unsigned_row_def Let_def split: sum.splits)
  have u: "previous_record_hash (unsigned_row inp rid ?prev) = ?prev" "agent_did (unsigned_row inp rid ?prev) = ?d"
    by (simp_all add: unsigned_row_def)
  have "check_record pf sha canon ic (previous_record_hash (unsigned_row inp rid ?prev)) (row\<lparr>created_at := t\<rparr>, toISOString t) = Inr None"
    by (rule sealed_row_checks[OF laws(1,2) sealed actor _ key(1) rc(2)]) (use ic key(2) u nohex tbl in auto)
  then have new: "check_record pf sha canon ic (end_hash [] (map mapActionRecordRow ?rows)) (mapActionRecordRow (row\<lparr>created_at := t\<rparr>)) = Inr None"
    by (simp add: u end_hash_rows mapActionRecordRow_def)
  have rows: "agent_rows ?d (records_table lg') = ?rows @ [row\<lparr>created_at := t\<rparr>]"
    unfolding tbl by (rule agent_rows_snoc) (use did time(4) in auto)
  have "verifyIntegrity pf sha canon ic ?d no_filters (records_table lg') = Inr Intact"
  proof (cases "length ?rows < 10000")
    case True
    then have "take 10000 (?rows @ [row\<lparr>created_at := t\<rparr>]) = ?rows @ [row\<lparr>created_at := t\<rparr>]" "take 10000 ?rows = ?rows" by simp_all
    with new intact show ?thesis by (simp add: verifyIntegrity_default rows check_chain_snoc del: take_append)
  next
    case False
    with intact show ?thesis by (simp add: verifyIntegrity_default rows)
  qed
  moreover have "verifyIntegrity pf sha canon ic d no_filters (records_table lg') = verifyIntegrity pf sha canon ic d no_filters (records_table lg)"
    if "d \<noteq> ?d" for d
    using that did by (simp add: verifyIntegrity_default tbl)
  ultimately show ?thesis by blast
qed

definition demo_recorder :: recorder where
  "demo_recorder = \<lparr>rc_kind = StandardKind, ledgerPrivateKey = toHex (replicate 64 1), ledgerPublicKey = toHex (replicate 32 1),
     resolveOwner = (\<lambda>s. None), schemaValidator = (\<lambda>i. True), appendSide = (\<lambda>e. True)\<rparr>"

definition demo_input :: ledger_input where
  "demo_input = \<lparr>li_recordId = None, li_agentDid = demo_agent 2, li_principalDid = ''did:key:p'', li_actionType = ''QUOTE'',
     li_parametersSummary = Some [(''amount'', JNum (Fin 5))], li_authorizationRef = None, li_resultSummary = None,
     li_actorPrivateKey = toHex (replicate 32 1), li_delegationDepth = None, li_sessionId = Some ''s1'', li_outputEncoding = None,
     li_createdAt = None\<rparr>"

definition demo_checker :: integrity_checker where
  "demo_checker = \<lparr>ic_kind = StandardKind, ic_resolve = (\<lambda>d. Some (toHex (replicate 32 1))), ic_ledgerPublicKey = toHex (replicate 32 1)\<rparr>"

definition demo_written :: "(recorder_error + string \<times> string) \<times> ledger" where
  "demo_written = record_action demo_platform demo_digest demo_canon demo_recorder demo_input ''r1'' 0 \<lparr>records_table = [], side_table = []\<rparr>"

lemma demo_seed: "replicate 32 (1 :: byte) @ replicate 32 1 = replicate 64 1"
  by (simp add: replicate_add[symmetric])

lemma demo_record_signature:
  assumes "assertSerializable (JObj payload)" "n = 32 \<or> n = 64"
  shows "createRecordSignature demo_platform demo_canon payload (toHex (replicate n 1)) EncBase64Url =
    Inr (toBase64Url (replicate 32 1 @ replicate 32 255))"
proof -
  note demo_seed
  then have "normalizeSigningPrivateKey demo_platform (toHex (replicate n 1)) = Inr (toHex (replicate 64 1))"
    using assms(2) by (auto simp: normalizeSigningPrivateKey_def length_toHex demo_platform_def)
  moreover have "assertPrivateKey (toHex (replicate 64 1)) = Inr (replicate 64 1)"
    by (simp add: assertPrivateKey_def normalizeKey_toHex)
  ultimately show ?thesis
    using assms(1) by (simp add: createRecordSignature_def canonicalize_def sign_def demo_platform_def Let_def)
qed

lemma demo_year: "year_from_day 0 = 1970"
  by code_simp

lemma demo_written_facts:
  "\<exists>rid h lg'. demo_written = (Inr (rid, h), lg') \<and> length (records_table lg') = 1 \<and>
     actor_signature (last (records_table lg')) = toBase64Url (replicate 32 1 @ replicate 32 255) \<and>
     ledger_signature (last (records_table lg')) = toBase64Url (replicate 32 1 @ replicate 32 255)"
proof -
  have lane: "assertLaneAllowed StandardKind demo_input = None" by code_simp
  have "getTime (toISOString 0) = Some 0"
    by (rule getTime_toISOString) (simp_all add: demo_year)
  with lane show ?thesis
    by (simp add: demo_written_def record_action_def binding_guard_def demo_recorder_def sealed_row_def ledgerRecordHash_def
        canonicalize_def demo_input_def unsigned_row_def buildUnsignedRecordPayload_def json_or_null_def LEDGER_ENCODING_def
        demo_record_signature insert_row_def Let_def)
qed

theorem record_keeps_integrity_witness:
  "length (records_table (snd demo_written)) = 1 \<and>
   verifyIntegrity demo_platform demo_digest demo_canon demo_checker (demo_agent 2) no_filters (records_table (snd demo_written)) = Inr Intact"
proof -
  obtain rid h lg' where w: "demo_written = (Inr (rid, h), lg')" "length (records_table lg') = 1"
     "actor_signature (last (records_table lg')) = toBase64Url (replicate 32 1 @ replicate 32 255)"
     "ledger_signature (last (records_table lg')) = toBase64Url (replicate 32 1 @ replicate 32 255)"
    using demo_written_facts by blast
  have rc: "new_recorder demo_platform StandardKind (toHex (replicate 32 1)) (\<lambda>s. None) (\<lambda>i. True) (\<lambda>e. True) = Inr demo_recorder"
    using toHex_append[of "replicate 32 1" "replicate 32 1"] length_toHex[of "replicate 32 1"] demo_seed
    by (simp add: new_recorder_def normalizeSigningPrivateKey_def demo_platform_def demo_recorder_def length_toHex toHex_nonempty)
  have "resolvePublicKey demo_checker (demo_agent 2) = Some (toHex (replicate 32 1))" by code_simp
  then have "verifyIntegrity demo_platform demo_digest demo_canon demo_checker (li_agentDid demo_input) no_filters (records_table lg') = Inr Intact"
    using record_keeps_integrity[OF demo_laws _ rc _ _ _ _ _ _ _ _ _ _ w(1)[unfolded demo_written_def], of "replicate 32 1" demo_checker 0] w(3,4) demo_sig_not_hex demo_year
    by (simp add: demo_digest_def demo_input_def demo_checker_def demo_recorder_def demo_platform_def recorded_at_def verifyIntegrity_default agent_rows_def)
  moreover have "snd demo_written = lg'" by (simp add: w(1))
  ultimately show ?thesis using w(2) by (simp add: demo_input_def)
qed

subsection \<open>Pages\<close>

definition row_before :: "numbered_row \<Rightarrow> numbered_row \<Rightarrow> bool" where
  "row_before a b = (created_at (snd a) < created_at (snd b) \<or> (created_at (snd a) = created_at (snd b) \<and> fst a < fst b))"

lemma row_before_not: "\<not> row_before a a" "row_before a b \<Longrightarrow> \<not> row_before b a"
  by (auto simp: row_before_def)

lemma past_cursor_row: "past_cursor (Some (created_at (snd r), fst r)) = row_before r"
  by (intro ext) (simp add: past_cursor_def cond_holds_def row_before_def)

lemma insort_row:
  "sorted_wrt row_before ys \<Longrightarrow> \<forall>y \<in> set ys. fst a < fst y \<Longrightarrow> sorted_wrt row_before (insort_key (\<lambda>r. created_at (snd r)) a ys)"
  by (induction ys) (auto simp: set_insort_key row_before_def)

lemma sort_rows: "sorted_wrt (\<lambda>a b. fst a < fst b) xs \<Longrightarrow> sorted_wrt row_before (sort_key (\<lambda>r. created_at (snd r)) xs)"
  by (induction xs) (auto intro!: insort_row)

lemma numbered_sorted: "sorted_wrt (\<lambda>a b. fst a < fst b) (numbered tbl)"
  by (auto simp: sorted_wrt_iff_nth_less numbered_def simp del: upt_Suc)

lemma selected_sorted: "sorted_wrt row_before (selected f cur tbl)"
  unfolding selected_def by (intro sort_rows sorted_wrt_filter numbered_sorted)

lemma selected_filter: "selected f cur tbl = filter (past_cursor cur) (selected f None tbl)"
  by (simp add: selected_def filter_sort past_cursor_def cond_holds_def conj_commute)

lemma filter_after: "sorted_wrt row_before xs \<Longrightarrow> j < length xs \<Longrightarrow> filter (row_before (xs ! j)) xs = drop (Suc j) xs"
proof (induction xs arbitrary: j)
  case (Cons x xs)
  show ?case
  proof (cases j)
    case 0
    with Cons.prems show ?thesis by (simp add: row_before_not filter_id_conv)
  next
    case (Suc i)
    with Cons.prems have "row_before x (xs ! i)" by simp
    with Suc Cons show ?thesis by (simp add: row_before_not(2))
  qed
qed simp

definition in_years :: "int \<Rightarrow> bool" where
  "in_years t = (0 \<le> year_from_day (t div 86400000) \<and> year_from_day (t div 86400000) \<le> 9999)"

lemma iso_no_pipe: "in_years t \<Longrightarrow> CHR ''|'' \<notin> set (toISOString t)"
proof -
  have "\<not> is_digit (CHR ''|'')" by code_simp
  then have "CHR ''|'' \<notin> set (pad_dec k n)" for k n
    using pad_dec_props(2)[of k n] by (auto simp: list_all_iff)
  then show "in_years t \<Longrightarrow> CHR ''|'' \<notin> set (toISOString t)"
    by (simp add: toISOString_def Let_def in_years_def del: pad_dec.simps)
qed

lemma read_cursor_of: "in_years (created_at (snd r)) \<Longrightarrow> read_cursor (Some (cursor_of r)) = Inr (Some (created_at (snd r), fst r))"
proof -
  assume y: "in_years (created_at (snd r))"
  let ?s = "toISOString (created_at (snd r))"
  have all: "\<forall>c \<in> set ?s. c \<noteq> CHR ''|''"
    using iso_no_pipe[OF y] by metis
  have "takeWhile (\<lambda>c. c \<noteq> CHR ''|'') (?s @ ''|'' @ ds) = ?s" "dropWhile (\<lambda>c. c \<noteq> CHR ''|'') (?s @ ''|'' @ ds) = ''|'' @ ds" for ds
    using all by (simp_all add: takeWhile_append dropWhile_append)
  then have "parseCursor (cursor_of r) = Some (?s, fst r)"
    using dec_string_props(1,2)[of "fst r"] by (simp add: parseCursor_def cursor_of_def Let_def)
  with y show ?thesis
    by (simp add: read_cursor_def getTime_toISOString in_years_def)
qed

text \<open>The loop of a reader that follows \<open>nextCursor\<close>.\<close>

fun read_pages :: "nat \<Rightarrow> query_filters \<Rightarrow> action_table \<Rightarrow> recorder_error + persisted_record list" where
  "read_pages 0 f tbl = Inr []"
| "read_pages (Suc n) f tbl =
     (case query_records f tbl of
        Inl e \<Rightarrow> Inl e
      | Inr (records, None) \<Rightarrow> Inr records
      | Inr (records, Some c) \<Rightarrow>
          (case read_pages n (f\<lparr>qf_cursor := Some c\<rparr>) tbl of Inl e \<Rightarrow> Inl e | Inr rest \<Rightarrow> Inr (records @ rest)))"

lemma selected_cursor [simp]: "selected (f\<lparr>qf_cursor := c\<rparr>) cur tbl = selected f cur tbl"
  by (simp add: selected_def matches_def)

lemma read_pages_from:
  assumes years: "\<forall>r \<in> set (selected f None tbl). in_years (created_at (snd r))" and f: "\<not> qf_desc f" "qf_limit f = Some (Suc k)"
    and cur: "read_cursor (qf_cursor f) = Inr cur" "selected f cur tbl = drop j (selected f None tbl)"
    and fuel: "length (selected f None tbl) < n + j"
  shows "read_pages n f tbl = Inr (map (mapActionRecordRow \<circ> snd) (drop j (selected f None tbl))) \<or> n = 0"
  using f cur fuel years
proof (induction n arbitrary: f cur j)
  case (Suc n)
  let ?S = "selected f None tbl"
  note q = query_ascending[OF Suc.prems(3) Suc.prems(1,2), of tbl, unfolded Suc.prems(4)]
  show ?case
  proof (cases "Suc k < length (drop j ?S)")
    case False
    with q show ?thesis by simp
  next
    case True
    let ?r = "?S ! (j + k)"
    let ?g = "f\<lparr>qf_cursor := Some (cursor_of ?r)\<rparr>"
    have r: "j + k < length ?S" "in_years (created_at (snd ?r))"
      using True Suc.prems(6) by auto
    have "selected ?g (Some (created_at (snd ?r), fst ?r)) tbl = drop (Suc (j + k)) ?S"
      using filter_after[OF selected_sorted r(1)] by (simp add: selected_filter[of f "Some _"] past_cursor_row)
    then have ih: "read_pages n ?g tbl = Inr (map (mapActionRecordRow \<circ> snd) (drop (Suc (j + k)) ?S)) \<or> n = 0"
      using Suc.IH[of ?g "Some (created_at (snd ?r), fst ?r)" "Suc (j + k)"] Suc.prems r(2)
      by (simp add: read_cursor_of comp_def)
    have n: "n \<noteq> 0" using True Suc.prems(5) by auto
    have split: "drop j ?S = take (Suc k) (drop j ?S) @ drop (Suc (j + k)) ?S"
      using append_take_drop_id[of "Suc k" "drop j ?S"] by (simp add: add.commute)
    have "query_records f tbl = Inr (map (mapActionRecordRow \<circ> snd) (take (Suc k) (drop j ?S)), Some (cursor_of ?r))"
      using q True by (simp add: add.commute)
    with ih n show ?thesis
      by (subst split) simp
  qed
qed simp

text \<open>
  C29 (equivalence). Reading page by page gives the whole answer: whatever the page size, following
  \<open>nextCursor\<close> over an unchanged table returns every matching record exactly once, in the order of
  instants, ties in the order of writing, in at most as many pages as the table has rows plus one.
  The instants are in the years 0 to 9999.
\<close>

theorem paging_reads_everything:
  assumes "qf_cursor f = None" "\<not> qf_desc f" "qf_limit f = Some (Suc k)"
    and "\<forall>r \<in> set tbl. in_years (created_at r)" and "length tbl \<le> n"
  shows "read_pages (Suc n) f tbl = Inr (map mapActionRecordRow (sort_key created_at (filter (matches f) tbl)))"
proof -
  have sel: "map snd (selected f None tbl) = sort_key created_at (filter (matches f) tbl)"
    using filter_map[of "matches f" snd "numbered tbl"] by (simp add: selected_def map_sort_key past_cursor_def cond_holds_def comp_def)
  have len: "length (selected f None tbl) \<le> length tbl"
    using arg_cong[OF sel, of length] by (simp add: le_trans[OF length_filter_le])
  have "snd ` set (selected f None tbl) \<subseteq> set tbl"
    using arg_cong[OF sel, of set] by auto
  with assms(4) have "\<forall>r \<in> set (selected f None tbl). in_years (created_at (snd r))" by blast
  from read_pages_from[OF this assms(2,3), of None 0 "Suc n"] assms(1,5) len
  show ?thesis by (simp add: read_cursor_def sel[symmetric])
qed

theorem paging_reads_everything_witness:
  "read_pages 3 (no_filters\<lparr>qf_limit := Some (Suc 0)\<rparr>) (map (\<lambda>t. unsigned_row demo_input ''r'' []\<lparr>created_at := t\<rparr>) [60000, 0]) =
   Inr (map (\<lambda>t. (unsigned_row demo_input ''r'' []\<lparr>created_at := t\<rparr>, toISOString t)) [0, 60000])"
proof -
  have "in_years 0" "in_years 60000" by code_simp+
  then show ?thesis
    using paging_reads_everything[of "no_filters\<lparr>qf_limit := Some (Suc 0)\<rparr>" 0 "map (\<lambda>t. unsigned_row demo_input ''r'' []\<lparr>created_at := t\<rparr>) [60000, 0]" 2]
    by (simp add: no_filters_def matches_def cond_holds_def mapActionRecordRow_def eval_nat_numeral)
qed

text \<open>
  Remark (error). Quota reservations share the table with the ledger: after an admitted reservation of an
  agent, its chain does not verify any more, whatever it was before, because the reservation row has a
  random record hash of 36 characters and no signatures.
\<close>

theorem reservation_breaks_integrity:
  assumes res: "checkAndReserve db wall uuid recordId d mf windowStart now maxv amount = (Inr (True, c), db')"
    and fresh: "recordId \<notin> record_id ` set db" and latest: "\<forall>r \<in> set db. agent_did r = d \<longrightarrow> created_at r \<le> now"
    and few: "length (agent_rows d db) < 10000" and uuid: "length uuid = 36" and digest: "\<And>x. length (sha x) = 32"
  shows "verifyIntegrity pf sha canon ic d no_filters db' \<noteq> Inr Intact"
proof -
  obtain q where db': "db' = db @ [reservation_row uuid recordId d (metric mf) amount maxv q now]"
    using res fresh find_fresh[OF fresh] by (auto simp: checkAndReserve_def insertReservation_def Let_def split: option.splits if_splits)
  let ?r = "reservation_row uuid recordId d (metric mf) amount maxv q now"
  have "agent_rows d db' = agent_rows d db @ [?r]"
    unfolding db' using latest by (intro agent_rows_snoc) auto
  moreover have "record_hash ?r \<noteq> encode_as enc (sha x)" for enc x
    using uuid digest[of x] length_toHex[of "sha x"] length_toBase64Url[of "sha x"] by (auto simp: reservation_row_def encode_as_def)
  then have "check_record pf sha canon ic prev (mapActionRecordRow ?r) \<noteq> Inr None" for prev
    using check_record_hash[of pf sha canon ic prev ?r] by (auto simp: mapActionRecordRow_def)
  ultimately show ?thesis
    using few by (simp add: verifyIntegrity_default check_chain_snoc)
qed

definition demo_meter :: meter_field where
  "demo_meter = \<lparr>source = action_record, metric = ''api_call_count'', unit = None, precision = None, key_order = []\<rparr>"

lemma demo_reservation:
  "checkAndReserve [] 0 (replicate 36 (CHR ''a'')) ''r1'' ''d'' demo_meter 0 0 (Fin 5) (Fin 1) =
   (Inr (True, Fin 0), [reservation_row (replicate 36 (CHR ''a'')) ''r1'' ''d'' ''api_call_count'' (Fin 1) (Fin 5) (Fin 0) 0])"
  by code_simp

theorem reservation_breaks_integrity_witness:
  "verifyIntegrity demo_platform demo_digest demo_canon demo_checker ''d'' no_filters [] = Inr Intact \<and>
   verifyIntegrity demo_platform demo_digest demo_canon demo_checker ''d'' no_filters
     (snd (checkAndReserve [] 0 (replicate 36 (CHR ''a'')) ''r1'' ''d'' demo_meter 0 0 (Fin 5) (Fin 1))) \<noteq> Inr Intact"
  using reservation_breaks_integrity[OF demo_reservation, of demo_digest demo_platform demo_canon demo_checker]
  by (simp add: demo_reservation demo_digest_def agent_rows_def verifyIntegrity_default)

subsection \<open>Lanes stay apart\<close>

type_synonym ledger_call = "recorder \<times> ledger_input \<times> string \<times> int"

fun ledger_run :: "platform \<Rightarrow> (string \<Rightarrow> bytes) \<Rightarrow> (js_object \<Rightarrow> string) \<Rightarrow> ledger \<Rightarrow> ledger_call list \<Rightarrow> ledger" where
  "ledger_run pf sha canon lg [] = lg"
| "ledger_run pf sha canon lg ((rc, inp, uuid, clock) # cs) =
     ledger_run pf sha canon (snd (record_action pf sha canon rc inp uuid clock lg)) cs"

definition bound_to_owner :: "recorder \<Rightarrow> js_object \<Rightarrow> bool" where
  "bound_to_owner rc ps =
     (truthy (get_prop ps ''oldSessionId'') \<longrightarrow>
        (\<exists>a p. resolveOwner rc (get_prop ps ''oldSessionId'') = Some (a, p) \<and>
           (truthy (get_prop ps ''affectedAgentDid'') \<longrightarrow> get_prop ps ''affectedAgentDid'' = JStr a) \<and>
           (truthy (get_prop ps ''affectedPrincipalDid'') \<longrightarrow> get_prop ps ''affectedPrincipalDid'' = JStr p)))"

definition in_lane :: "recorder \<Rightarrow> action_row \<Rightarrow> bool" where
  "in_lane rc r =
     (case rc_kind rc of
        StandardKind \<Rightarrow>
          agent_did r \<noteq> SESSION_GOVERNOR_DID \<and> principal_did r \<noteq> SESSION_GOVERNOR_DID \<and> action_type r \<noteq> ACTION_SESSION_SUPERSEDED
      | ControlPlaneKind \<Rightarrow>
          agent_did r = SESSION_GOVERNOR_DID \<and> principal_did r = SESSION_GOVERNOR_DID \<and> action_type r = ACTION_SESSION_SUPERSEDED \<and>
          (\<exists>ps. parameters_summary r = Some ps \<and> supersede_params ps = None \<and> bound_to_owner rc ps))"

lemma record_action_Inl: "record_action pf sha canon rc inp uuid clock lg = (Inl e, lg') \<Longrightarrow> lg' = lg"
  by (auto simp: record_action_def insert_row_def Let_def split: option.splits sum.splits if_splits)

lemma guards_in_lane:
  assumes "assertLaneAllowed (rc_kind rc) inp = None" "binding_guard rc inp = None"
  shows "in_lane rc (unsigned_row inp rid prev)"
proof (cases "rc_kind rc")
  case StandardKind
  with assms(1) show ?thesis by (simp add: assertLaneAllowed_def in_lane_def unsigned_row_def Let_def split: if_splits)
next
  case ControlPlaneKind
  then obtain ps where "li_parametersSummary inp = Some ps" "supersede_params ps = None"
    using assms(1) by (auto simp: assertLaneAllowed_def Let_def split: if_splits option.splits)
  moreover from this(1) ControlPlaneKind assms(2) have "bound_to_owner rc ps"
    by (auto simp: binding_guard_def bound_to_owner_def differs_def split: if_splits option.splits)
  ultimately show ?thesis
    using assms(1) ControlPlaneKind by (simp add: assertLaneAllowed_def in_lane_def unsigned_row_def Let_def split: if_splits)
qed

lemma in_lane_fields:
  "in_lane rc (row\<lparr>created_at := t\<rparr>) = in_lane rc row"
  "in_lane rc (row\<lparr>record_hash := a, actor_signature := b, ledger_signature := c\<rparr>) = in_lane rc row"
  by (simp_all add: in_lane_def split: recorder_kind.splits)

lemma record_action_appends:
  obtains (refused) "snd (record_action pf sha canon rc inp uuid clock lg) = lg"
  | (written) row where "records_table (snd (record_action pf sha canon rc inp uuid clock lg)) = records_table lg @ [row]"
      "in_lane rc row" "record_id row \<notin> record_id ` set (records_table lg)"
proof (cases "record_action pf sha canon rc inp uuid clock lg")
  case (Pair res lg')
  show ?thesis
  proof (cases res)
    case (Inl e)
    with Pair have "lg' = lg" by (auto intro: record_action_Inl)
    with Pair refused show ?thesis by simp
  next
    case (Inr ok)
    obtain rid h where "ok = (rid, h)" by (cases ok)
    with Inr Pair have r: "record_action pf sha canon rc inp uuid clock lg = (Inr (rid, h), lg')" by simp
    obtain row t createdAt where g: "assertLaneAllowed (rc_kind rc) inp = None" "binding_guard rc inp = None"
      and s: "sealed_row pf sha canon rc inp (unsigned_row inp rid (loadPreviousRecordHash (li_agentDid inp) (records_table lg))) createdAt = Inr row"
      and t: "records_table lg' = records_table lg @ [row\<lparr>created_at := t\<rparr>]" and i: "record_id row = rid" "rid \<notin> record_id ` set (records_table lg)"
      using record_action_Inr[OF r] by metis
    have "in_lane rc row"
      using guards_in_lane[OF g] sealed_row_Inr[OF s] in_lane_fields(2) by metis
    with t i Pair show ?thesis by (intro written[of "row\<lparr>created_at := t\<rparr>"]) (simp_all add: in_lane_fields)
  qed
qed

text \<open>
  C28 (safety). The ledger is append-only and its lanes stay apart: whatever recorders of both kinds
  write, with or without success, the old rows stay as they are and in place, record ids stay unique,
  and each new row belongs to the lane of the recorder that wrote it. Business recorders write no
  governor row; a governor row was written by a control-plane recorder, has complete supersede
  parameters, and names the parties that own the superseded session.
\<close>

theorem ledger_lanes_apart:
  "\<exists>new. records_table (ledger_run pf sha canon lg calls) = records_table lg @ new \<and>
     (\<forall>r \<in> set new. \<exists>rc \<in> fst ` set calls. in_lane rc r) \<and>
     (distinct (map record_id (records_table lg)) \<longrightarrow> distinct (map record_id (records_table lg @ new)))"
proof (induction calls arbitrary: lg)
  case (Cons call calls)
  obtain rc inp uuid clock where call: "call = (rc, inp, uuid, clock)" by (cases call)
  let ?lg = "snd (record_action pf sha canon rc inp uuid clock lg)"
  obtain new where new: "records_table (ledger_run pf sha canon lg (call # calls)) = records_table ?lg @ new"
    "\<forall>r \<in> set new. \<exists>rc \<in> fst ` set calls. in_lane rc r"
    "distinct (map record_id (records_table ?lg)) \<longrightarrow> distinct (map record_id (records_table ?lg @ new))"
    using Cons[of ?lg] by (auto simp: call)
  show ?case
  proof (rule record_action_appends[of pf sha canon rc inp uuid clock lg])
    assume "?lg = lg"
    with new show ?thesis by (intro exI[of _ new]) auto
  next
    fix row assume row: "records_table ?lg = records_table lg @ [row]" "in_lane rc row" "record_id row \<notin> record_id ` set (records_table lg)"
    with new show ?thesis by (intro exI[of _ "row # new"]) (auto simp: call)
  qed
qed simp

theorem ledger_lanes_apart_witness:
  "\<exists>row. records_table (ledger_run demo_platform demo_digest demo_canon \<lparr>records_table = [], side_table = []\<rparr>
      [(demo_recorder, demo_input, ''r1'', 0)]) = [row] \<and> in_lane demo_recorder row"
proof -
  obtain rid h lg' where w: "demo_written = (Inr (rid, h), lg')" "length (records_table lg') = 1"
    using demo_written_facts by blast
  then obtain row where "records_table lg' = [row]" by (cases "records_table lg'") auto
  with w(1) ledger_lanes_apart[of demo_platform demo_digest demo_canon "\<lparr>records_table = [], side_table = []\<rparr>" "[(demo_recorder, demo_input, ''r1'', 0)]"]
  show ?thesis by (auto simp: demo_written_def)
qed

end
