(* ===== verification/Lru_Cache.thy ===== *)
theory Lru_Cache
  imports Prelude "HOL-Library.Sublist"
begin

text \<open>
  \<open>LruTtlCache\<close> of \<open>policy/src/revocation/revocation-cache.ts\<close>: a bounded cache whose recency order is a
  doubly linked list threaded through the entries of a \<open>Map\<close>. The entries are records in the map, a
  pointer is the key of the entry it points to, \<open>null\<close> is \<open>None\<close>, and mutating an entry object writes
  it back under its key. The wall clock is an argument, in milliseconds.

  The linked structure is shown to implement a plain list of key, value and expiry, most recently
  used first.
\<close>

subsection \<open>The linked cache\<close>

record 'v cache_entry =
  ce_value :: 'v
  ce_expiresAt :: int
  ce_prev :: "string option"
  ce_next :: "string option"

record 'v lru_cache =
  lru_maxSize :: int
  lru_ttlMs :: int
  lru_store :: "(string, 'v cache_entry) js_map"
  lru_head :: "string option"
  lru_tail :: "string option"

definition new_lru :: "int \<Rightarrow> int \<Rightarrow> string + 'v lru_cache" where
  "new_lru cap ttl =
     (if cap < 1 then Inl ''LruTtlCache: maxSize must be >= 1''
      else if ttl < 0 then Inl ''LruTtlCache: ttlMs must be >= 0''
      else Inr \<lparr>lru_maxSize = cap, lru_ttlMs = ttl, lru_store = [], lru_head = None, lru_tail = None\<rparr>)"

text \<open>The truthiness test on a pointer: \<open>null\<close> and the empty key are false.\<close>

definition points :: "string option \<Rightarrow> bool" where
  "points p = (p \<noteq> None \<and> p \<noteq> Some [])"

definition modify_at :: "string option \<Rightarrow> ('v cache_entry \<Rightarrow> 'v cache_entry) \<Rightarrow> (string, 'v cache_entry) js_map \<Rightarrow> (string, 'v cache_entry) js_map" where
  "modify_at p f st =
     (case p of None \<Rightarrow> st | Some k \<Rightarrow> (case jm_get st k of None \<Rightarrow> st | Some e \<Rightarrow> jm_set st k (f e)))"

definition lru_unlink :: "'v lru_cache \<Rightarrow> string \<Rightarrow> 'v cache_entry \<Rightarrow> 'v lru_cache" where
  "lru_unlink c key entry =
     (let c1 = (if points (ce_prev entry)
                then c\<lparr>lru_store := modify_at (ce_prev entry) (\<lambda>e. e\<lparr>ce_next := ce_next entry\<rparr>) (lru_store c)\<rparr>
                else c\<lparr>lru_head := ce_next entry\<rparr>);
          c2 = (if points (ce_next entry)
                then c1\<lparr>lru_store := modify_at (ce_next entry) (\<lambda>e. e\<lparr>ce_prev := ce_prev entry\<rparr>) (lru_store c1)\<rparr>
                else c1\<lparr>lru_tail := ce_prev entry\<rparr>)
      in c2\<lparr>lru_store := modify_at (Some key) (\<lambda>e. e\<lparr>ce_prev := None, ce_next := None\<rparr>) (lru_store c2)\<rparr>)"

definition lru_push_head :: "'v lru_cache \<Rightarrow> string \<Rightarrow> 'v lru_cache" where
  "lru_push_head c key =
     c\<lparr>lru_store := (if points (lru_head c) then modify_at (lru_head c) (\<lambda>e. e\<lparr>ce_prev := Some key\<rparr>) (lru_store c) else lru_store c),
       lru_head := Some key,
       lru_tail := (if lru_tail c = None then Some key else lru_tail c)\<rparr>"

definition lru_moveToHead :: "'v lru_cache \<Rightarrow> string \<Rightarrow> 'v cache_entry \<Rightarrow> 'v lru_cache" where
  "lru_moveToHead c key entry =
     (if lru_head c = Some key then c
      else let c1 = lru_unlink c key entry;
               c2 = c1\<lparr>lru_store := modify_at (Some key) (\<lambda>e. e\<lparr>ce_prev := None, ce_next := lru_head c1\<rparr>) (lru_store c1)\<rparr>
           in lru_push_head c2 key)"

definition lru_delete :: "string \<Rightarrow> 'v lru_cache \<Rightarrow> 'v lru_cache" where
  "lru_delete key c =
     (case jm_get (lru_store c) key of
        None \<Rightarrow> c
      | Some entry \<Rightarrow> let c1 = lru_unlink c key entry in c1\<lparr>lru_store := jm_delete (lru_store c1) key\<rparr>)"

definition lru_evictTail :: "'v lru_cache \<Rightarrow> 'v lru_cache" where
  "lru_evictTail c =
     (if \<not> points (lru_tail c) then c
      else let tailKey = the (lru_tail c);
               c1 = (case jm_get (lru_store c) tailKey of None \<Rightarrow> c | Some e \<Rightarrow> lru_unlink c tailKey e)
           in c1\<lparr>lru_store := jm_delete (lru_store c1) tailKey\<rparr>)"

definition lru_get :: "int \<Rightarrow> string \<Rightarrow> 'v lru_cache \<Rightarrow> 'v option \<times> 'v lru_cache" where
  "lru_get now key c =
     (case jm_get (lru_store c) key of
        None \<Rightarrow> (None, c)
      | Some entry \<Rightarrow>
          if ce_expiresAt entry < now then (None, lru_delete key c)
          else (Some (ce_value entry), lru_moveToHead c key entry))"

definition lru_set :: "int \<Rightarrow> string \<Rightarrow> 'v \<Rightarrow> 'v lru_cache \<Rightarrow> 'v lru_cache" where
  "lru_set now key v c =
     (case jm_get (lru_store c) key of
        Some existing \<Rightarrow>
          (let entry = existing\<lparr>ce_value := v, ce_expiresAt := now + lru_ttlMs c\<rparr>
           in lru_moveToHead (c\<lparr>lru_store := jm_set (lru_store c) key entry\<rparr>) key entry)
      | None \<Rightarrow>
          (let c1 = (if lru_maxSize c \<le> int (length (lru_store c)) then lru_evictTail c else c);
               entry = \<lparr>ce_value = v, ce_expiresAt = now + lru_ttlMs c, ce_prev = None, ce_next = lru_head c1\<rparr>;
               c2 = lru_push_head c1 key
           in c2\<lparr>lru_store := jm_set (lru_store c2) key entry\<rparr>))"

definition lru_clear :: "string option \<Rightarrow> 'v lru_cache \<Rightarrow> 'v lru_cache" where
  "lru_clear prefix_opt c =
     (case prefix_opt of
        None \<Rightarrow> c\<lparr>lru_store := [], lru_head := None, lru_tail := None\<rparr>
      | Some pre \<Rightarrow> fold (\<lambda>key d. if prefix pre key then lru_delete key d else d) (jm_keys (lru_store c)) c)"

subsection \<open>The list it implements\<close>

type_synonym 'v recency_list = "(string \<times> 'v \<times> int) list"

abbreviation without :: "string \<Rightarrow> 'v recency_list \<Rightarrow> 'v recency_list" where
  "without k xs \<equiv> filter (\<lambda>x. fst x \<noteq> k) xs"

definition spec_get :: "int \<Rightarrow> string \<Rightarrow> 'v recency_list \<Rightarrow> 'v option \<times> 'v recency_list" where
  "spec_get now k xs =
     (case map_of xs k of
        None \<Rightarrow> (None, xs)
      | Some (v, x) \<Rightarrow> if x < now then (None, without k xs) else (Some v, (k, v, x) # without k xs))"

definition spec_set :: "int \<Rightarrow> int \<Rightarrow> int \<Rightarrow> string \<Rightarrow> 'v \<Rightarrow> 'v recency_list \<Rightarrow> 'v recency_list" where
  "spec_set cap ttl now k v xs =
     (k, v, now + ttl) #
     (if k \<in> fst ` set xs then without k xs else if cap \<le> int (length xs) then butlast xs else xs)"

definition spec_clear :: "string option \<Rightarrow> 'v recency_list \<Rightarrow> 'v recency_list" where
  "spec_clear prefix_opt xs = (case prefix_opt of None \<Rightarrow> [] | Some pre \<Rightarrow> filter (\<lambda>x. \<not> prefix pre (fst x)) xs)"

text \<open>The segment of a linked list: each entry as stored, with its neighbours.\<close>

definition first_key :: "'v recency_list \<Rightarrow> string option \<Rightarrow> string option" where
  "first_key xs n = (if xs = [] then n else Some (fst (hd xs)))"

definition last_key :: "string option \<Rightarrow> 'v recency_list \<Rightarrow> string option" where
  "last_key p xs = (if xs = [] then p else Some (fst (last xs)))"

fun linked :: "(string, 'v cache_entry) js_map \<Rightarrow> string option \<Rightarrow> 'v recency_list \<Rightarrow> string option \<Rightarrow> bool" where
  "linked st p [] n = True"
| "linked st p ((k, v, x) # xs) n =
     (jm_get st k = Some \<lparr>ce_value = v, ce_expiresAt = x, ce_prev = p, ce_next = first_key xs n\<rparr> \<and> linked st (Some k) xs n)"

definition represents :: "'v lru_cache \<Rightarrow> 'v recency_list \<Rightarrow> bool" where
  "represents c xs =
     (distinct (map fst xs) \<and> [] \<notin> fst ` set xs \<and> jm_wf (lru_store c) \<and> set (jm_keys (lru_store c)) = fst ` set xs \<and>
      lru_head c = first_key xs None \<and> lru_tail c = last_key None xs \<and> linked (lru_store c) None xs None)"

lemma keys_simps [simp]:
  "first_key [] n = n" "first_key (x # xs) n = Some (fst x)" "last_key p [] = p" "last_key p (xs @ [x]) = Some (fst x)"
  "first_key (xs @ ys) n = first_key xs (first_key ys n)" "last_key p (xs @ ys) = last_key (last_key p xs) ys"
  "last_key p (x # xs) = last_key (Some (fst x)) xs"
  by (auto simp: first_key_def last_key_def)

lemma linked_append: "linked st p (xs @ ys) n \<longleftrightarrow> linked st p xs (first_key ys n) \<and> linked st (last_key p xs) ys n"
  by (induction st p xs n rule: linked.induct) simp_all

lemma linked_frame: "(\<And>k. k \<in> fst ` set xs \<Longrightarrow> jm_get st' k = jm_get st k) \<Longrightarrow> linked st' p xs n = linked st p xs n"
  by (induction st p xs n rule: linked.induct) simp_all

lemma modify_at_get:
  "jm_get (modify_at p f st) k = (if p = Some k then map_option f (jm_get st k) else jm_get st k)"
  by (auto simp: modify_at_def store_simps split: option.splits)

lemma modify_at_keys [simp]: "jm_keys (modify_at p f st) = jm_keys st"
  by (auto simp: modify_at_def store_simps jm.in_keys split: option.splits)

lemma modify_at_wf [simp]: "jm_wf (modify_at p f st) = jm_wf st"
  by (simp add: jm_wf_def)

lemma without_id: "k \<notin> fst ` set xs \<Longrightarrow> without k xs = xs"
  by (rule filter_True) auto

lemma linked_outside: "k \<notin> fst ` set xs \<Longrightarrow> linked (modify_at (Some k) f st) q xs n = linked st q xs n"
  by (rule linked_frame) (auto simp: modify_at_get)

text \<open>Writing the pointer at either end of a segment changes the neighbour it has there.\<close>

lemma relink_last:
  assumes "linked st p xs n" "distinct (map fst xs)" "xs \<noteq> []"
  shows "linked (modify_at (last_key None xs) (\<lambda>e. e\<lparr>ce_next := m\<rparr>) st) p xs m"
proof -
  obtain ys k v x where xs: "xs = ys @ [(k, v, x)]"
    using assms(3) by (metis append_butlast_last_id prod_cases3)
  have "k \<notin> fst ` set ys" using assms(2) by (auto simp: xs)
  with assms(1) show ?thesis
    by (simp add: xs linked_append linked_outside modify_at_get)
qed

lemma relink_first:
  assumes "linked st p xs n" "distinct (map fst xs)" "xs \<noteq> []"
  shows "linked (modify_at (first_key xs None) (\<lambda>e. e\<lparr>ce_prev := q\<rparr>) st) q xs n"
proof -
  obtain ys k v x where xs: "xs = (k, v, x) # ys"
    using assms(3) by (metis list.exhaust prod_cases3)
  have "k \<notin> fst ` set ys" using assms(2) by (auto simp: xs)
  with assms(1) show ?thesis
    by (simp add: xs linked_outside modify_at_get)
qed

lemma represents_split:
  assumes "represents c xs" "map_of xs k = Some (v, x)"
  obtains as bs where "xs = as @ (k, v, x) # bs" "k \<notin> fst ` set as" "k \<notin> fst ` set bs" "without k xs = as @ bs"
    "jm_get (lru_store c) k = Some \<lparr>ce_value = v, ce_expiresAt = x, ce_prev = last_key None as, ce_next = first_key bs None\<rparr>"
proof -
  from map_of_SomeD[OF assms(2)] obtain as bs where xs: "xs = as @ (k, v, x) # bs"
    by (meson in_set_conv_decomp)
  moreover have "k \<notin> fst ` set as" "k \<notin> fst ` set bs"
    using assms(1) by (auto simp: represents_def xs)
  moreover from this have "without k xs = as @ bs"
    by (simp add: xs without_id)
  moreover have "jm_get (lru_store c) k = Some \<lparr>ce_value = v, ce_expiresAt = x, ce_prev = last_key None as, ce_next = first_key bs None\<rparr>"
    using assms(1) by (simp add: represents_def xs linked_append)
  ultimately show ?thesis using that by blast
qed

lemma represents_get: "represents c xs \<Longrightarrow> jm_get (lru_store c) k = None \<longleftrightarrow> map_of xs k = None"
  using jm.in_keys[of k "lru_store c"] by (auto simp: represents_def map_of_eq_None_iff)

lemma points_keys:
  "[] \<notin> fst ` set xs \<Longrightarrow> points (last_key None xs) = (xs \<noteq> [])" "[] \<notin> fst ` set xs \<Longrightarrow> points (first_key xs None) = (xs \<noteq> [])"
  by (auto simp: points_def last_key_def first_key_def dest: last_in_set hd_in_set intro: rev_image_eqI)

lemma unlinked:
  assumes rep: "represents c (as @ (k, v, x) # bs)"
    and e: "e = \<lparr>ce_value = v, ce_expiresAt = x, ce_prev = last_key None as, ce_next = first_key bs None\<rparr>"
  defines "d \<equiv> lru_unlink c k e"
  shows "linked (lru_store d) None (as @ bs) None" "lru_head d = first_key (as @ bs) None" "lru_tail d = last_key None (as @ bs)"
    "jm_keys (lru_store d) = jm_keys (lru_store c)" "jm_wf (lru_store d)" "lru_maxSize d = lru_maxSize c" "lru_ttlMs d = lru_ttlMs c"
    "jm_get (lru_store d) k = Some \<lparr>ce_value = v, ce_expiresAt = x, ce_prev = None, ce_next = None\<rparr>"
proof -
  let ?st = "lru_store c"
  define s1 where "s1 = (if as = [] then ?st else modify_at (last_key None as) (\<lambda>f. f\<lparr>ce_next := first_key bs None\<rparr>) ?st)"
  define s2 where "s2 = (if bs = [] then s1 else modify_at (first_key bs None) (\<lambda>f. f\<lparr>ce_prev := last_key None as\<rparr>) s1)"
  have inv: "distinct (map fst as)" "distinct (map fst bs)" "k \<notin> fst ` set as" "k \<notin> fst ` set bs" "fst ` set as \<inter> fst ` set bs = {}"
    "[] \<notin> fst ` set as" "[] \<notin> fst ` set bs" "jm_wf ?st" "lru_head c = first_key (as @ (k, v, x) # bs) None" "lru_tail c = last_key None (as @ (k, v, x) # bs)"
    "linked ?st None as (Some k)" "linked ?st (Some k) bs None" "jm_get ?st k = Some e"
    using rep e by (auto simp: represents_def linked_append)
  note pts = points_keys(1)[OF inv(6)] points_keys(2)[OF inv(7)]
  have st: "lru_store d = modify_at (Some k) (\<lambda>f. f\<lparr>ce_prev := None, ce_next := None\<rparr>) s2"
    by (simp add: d_def lru_unlink_def Let_def e pts s1_def s2_def)
  have last_as: "as \<noteq> [] \<Longrightarrow> \<exists>l. last_key None as = Some l \<and> l \<in> fst ` set as"
    by (auto simp: last_key_def)
  have first_bs: "bs \<noteq> [] \<Longrightarrow> \<exists>l. first_key bs None = Some l \<and> l \<in> fst ` set bs"
    by (auto simp: first_key_def)
  have a: "linked s2 None as (first_key bs None)"
  proof -
    have "linked s1 None as (first_key bs None)"
      using relink_last[OF inv(11,1)] by (auto simp: s1_def)
    moreover have "linked s2 None as n = linked s1 None as n" if ne: "bs \<noteq> []" for n
    proof -
      obtain l where "first_key bs None = Some l" "l \<notin> fst ` set as"
        using first_bs[OF ne] inv(5) by blast
      with ne show ?thesis by (simp add: s2_def linked_outside)
    qed
    ultimately show ?thesis by (cases "bs = []") (simp_all add: s2_def)
  qed
  have b: "linked s2 (last_key None as) bs None"
  proof -
    have "linked s1 (Some k) bs None"
    proof (cases "as = []")
      case False
      then obtain l where "last_key None as = Some l" "l \<notin> fst ` set bs"
        using last_as[OF False] inv(5) by blast
      with False inv(12) show ?thesis by (simp add: s1_def linked_outside)
    qed (use inv(12) in \<open>simp add: s1_def\<close>)
    from relink_first[OF this inv(2)] show ?thesis by (auto simp: s2_def)
  qed
  show "linked (lru_store d) None (as @ bs) None"
    using a b inv(3,4) by (simp add: st linked_append linked_outside)
  have "jm_get s2 k = Some e"
    using last_as first_bs inv(3,4,13) by (auto simp: s2_def s1_def modify_at_get)
  then show "jm_get (lru_store d) k = Some \<lparr>ce_value = v, ce_expiresAt = x, ce_prev = None, ce_next = None\<rparr>"
    by (simp add: st modify_at_get e)
  show "lru_head d = first_key (as @ bs) None" "lru_tail d = last_key None (as @ bs)"
  proof -
    have "lru_head d = (if as = [] then first_key bs None else lru_head c)" "lru_tail d = (if bs = [] then last_key None as else lru_tail c)"
      by (simp_all add: d_def lru_unlink_def Let_def e pts)
    with inv(9,10) show "lru_head d = first_key (as @ bs) None" "lru_tail d = last_key None (as @ bs)"
      by (cases as, simp, simp, cases bs rule: rev_cases, simp, simp)
  qed
  show "jm_keys (lru_store d) = jm_keys ?st" "jm_wf (lru_store d)" "lru_maxSize d = lru_maxSize c" "lru_ttlMs d = lru_ttlMs c"
    using inv(8) by (simp_all add: st s2_def s1_def) (simp_all add: d_def lru_unlink_def Let_def)
qed

lemma delete_represents: "represents c xs \<Longrightarrow> represents (lru_delete k c) (without k xs)"
proof (cases "map_of xs k")
  case None
  assume rep: "represents c xs"
  with None have "jm_get (lru_store c) k = None" "k \<notin> fst ` set xs"
    by (simp_all add: represents_get map_of_eq_None_iff)
  with rep show ?thesis by (simp add: lru_delete_def without_id)
next
  case (Some vx)
  assume rep: "represents c xs"
  obtain v x where vx: "vx = (v, x)" by (cases vx)
  obtain as bs where xs: "xs = as @ (k, v, x) # bs" "k \<notin> fst ` set as" "k \<notin> fst ` set bs" "without k xs = as @ bs"
    and g: "jm_get (lru_store c) k = Some \<lparr>ce_value = v, ce_expiresAt = x, ce_prev = last_key None as, ce_next = first_key bs None\<rparr>"
    using represents_split[OF rep Some[unfolded vx]] .
  note u = unlinked[OF rep[unfolded xs(1)] refl]
  have "linked (jm_delete st k) None (as @ bs) None = linked st None (as @ bs) None" for st
    by (rule linked_frame) (use xs(2,3) in \<open>auto simp: store_simps\<close>)
  moreover have "set (jm_keys (jm_delete st k)) = set (jm_keys st) - {k}" for st :: "(string, 'a cache_entry) js_map"
    by (auto simp: jm_keys_def jm_delete_def)
  moreover have "distinct (map fst (as @ bs))" "[] \<notin> fst ` set (as @ bs)" "set (jm_keys (lru_store c)) - {k} = fst ` set (as @ bs)"
    using rep xs(2,3) by (auto simp: represents_def xs(1))
  ultimately show ?thesis
    unfolding xs(4) represents_def using u g by (simp add: lru_delete_def Let_def jm.wf_del)
qed

lemma without_last: "distinct (map fst xs) \<Longrightarrow> xs \<noteq> [] \<Longrightarrow> without (fst (last xs)) xs = butlast xs"
proof (cases xs rule: rev_cases)
  case (snoc ys y)
  then show "distinct (map fst xs) \<Longrightarrow> ?thesis" by (auto simp: without_id)
qed simp

lemma evict_represents: "represents c xs \<Longrightarrow> represents (lru_evictTail c) (butlast xs)"
proof (cases "xs = []")
  case True
  then show "represents c xs \<Longrightarrow> ?thesis" by (simp add: represents_def lru_evictTail_def points_def)
next
  case False
  assume rep: "represents c xs"
  have tl: "lru_tail c = Some (fst (last xs))" "points (lru_tail c)" "without (fst (last xs)) xs = butlast xs"
    using rep False points_keys(1)[of xs] without_last[of xs] by (auto simp: represents_def last_key_def)
  then have "lru_evictTail c = lru_delete (fst (last xs)) c"
    using rep represents_get[OF rep, of "fst (last xs)"] False
    by (auto simp: lru_evictTail_def lru_delete_def Let_def map_of_eq_None_iff split: option.splits)
  with delete_represents[OF rep, of "fst (last xs)"] tl show ?thesis by simp
qed

lemma linked_push:
  assumes "linked st None ys None" "distinct (map fst ys)" "k \<notin> fst ` set ys"
    and "jm_get st' k = Some \<lparr>ce_value = v, ce_expiresAt = x, ce_prev = None, ce_next = first_key ys None\<rparr>"
    and "\<And>j. j \<noteq> k \<Longrightarrow> jm_get st' j = jm_get (if ys = [] then st else modify_at (first_key ys None) (\<lambda>e. e\<lparr>ce_prev := Some k\<rparr>) st) j"
  shows "linked st' None ((k, v, x) # ys) None"
proof -
  let ?s = "if ys = [] then st else modify_at (first_key ys None) (\<lambda>e. e\<lparr>ce_prev := Some k\<rparr>) st"
  have "linked ?s (Some k) ys None"
    using relink_first[OF assms(1,2)] by (cases "ys = []") simp_all
  moreover have "linked st' (Some k) ys None = linked ?s (Some k) ys None"
  proof (rule linked_frame)
    fix j assume "j \<in> fst ` set ys"
    then have "j \<noteq> k" using assms(3) by metis
    then show "jm_get st' j = jm_get ?s j" by (rule assms(5))
  qed
  ultimately show ?thesis using assms(4) by simp
qed

lemma move_represents:
  assumes rep: "represents c (as @ (k, v, x) # bs)"
    and e: "e = \<lparr>ce_value = v, ce_expiresAt = x, ce_prev = last_key None as, ce_next = first_key bs None\<rparr>"
  shows "represents (lru_moveToHead c k e) ((k, v, x) # as @ bs)"
proof (cases as)
  case Nil
  with rep show ?thesis by (simp add: lru_moveToHead_def represents_def)
next
  case (Cons a as')
  let ?d = "lru_unlink c k e"
  note u = unlinked[OF rep e]
  have k: "k \<notin> fst ` set (as @ bs)" "distinct (map fst (as @ bs))" "[] \<notin> fst ` set (as @ bs)" "k \<noteq> []"
    "set (jm_keys (lru_store c)) = insert k (fst ` set (as @ bs))" "lru_head c \<noteq> Some k"
    using rep Cons by (auto simp: represents_def)
  have hd: "lru_head ?d = Some (fst a)" "points (lru_head ?d)" "lru_tail ?d \<noteq> None"
    using u(2,3) Cons k(3) by (auto simp: points_def last_key_def)
  have lk: "last_key None as = last_key (Some k) as"
    using Cons by (simp add: last_key_def)
  define st2 where "st2 = modify_at (Some k) (\<lambda>f. f\<lparr>ce_prev := None, ce_next := lru_head ?d\<rparr>) (lru_store ?d)"
  have m: "lru_moveToHead c k e = ?d\<lparr>lru_store := modify_at (lru_head ?d) (\<lambda>f. f\<lparr>ce_prev := Some k\<rparr>) st2, lru_head := Some k\<rparr>"
    using hd k(6) by (simp add: lru_moveToHead_def lru_push_head_def Let_def st2_def)
  have "linked (modify_at (lru_head ?d) (\<lambda>f. f\<lparr>ce_prev := Some k\<rparr>) st2) None ((k, v, x) # as @ bs) None"
  proof (rule linked_push[OF u(1) k(2,1)])
    show "jm_get (modify_at (lru_head ?d) (\<lambda>f. f\<lparr>ce_prev := Some k\<rparr>) st2) k =
        Some \<lparr>ce_value = v, ce_expiresAt = x, ce_prev = None, ce_next = first_key (as @ bs) None\<rparr>"
      using k(1) u(8) hd(1) Cons by (auto simp: modify_at_get st2_def)
  qed (use Cons u(2) in \<open>simp add: modify_at_get st2_def\<close>)
  then show ?thesis
    using k u(3,4,5) lk by (simp add: m represents_def st2_def image_Un)
qed

lemma push_new_represents:
  assumes rep: "represents c xs" and k: "k \<notin> fst ` set xs" "k \<noteq> []"
  shows "represents ((lru_push_head c k)\<lparr>lru_store := jm_set (lru_store (lru_push_head c k)) k
      \<lparr>ce_value = v, ce_expiresAt = x, ce_prev = None, ce_next = lru_head c\<rparr>\<rparr>) ((k, v, x) # xs)"
proof -
  let ?e = "\<lparr>ce_value = v, ce_expiresAt = x, ce_prev = None, ce_next = lru_head c\<rparr>"
  define st where "st = (if xs = [] then lru_store c else modify_at (lru_head c) (\<lambda>f. f\<lparr>ce_prev := Some k\<rparr>) (lru_store c))"
  have r: "distinct (map fst xs)" "[] \<notin> fst ` set xs" "jm_wf (lru_store c)" "set (jm_keys (lru_store c)) = fst ` set xs"
    "lru_head c = first_key xs None" "lru_tail c = last_key None xs" "linked (lru_store c) None xs None"
    using rep by (simp_all add: represents_def)
  have "lru_store (lru_push_head c k) = st"
    using points_keys(2)[OF r(2)] by (simp add: lru_push_head_def st_def r(5))
  moreover have "linked (jm_set st k ?e) None ((k, v, x) # xs) None"
    by (rule linked_push[OF r(7,1) k(1)]) (simp_all add: store_simps st_def r(5))
  moreover have "jm_keys st = jm_keys (lru_store c)" "jm_wf st"
    using r(3) by (simp_all add: st_def)
  moreover have "(if lru_tail c = None then Some k else lru_tail c) = last_key None ((k, v, x) # xs)"
    by (simp add: r(6) last_key_def)
  ultimately show ?thesis
    using r k by (simp add: represents_def lru_push_head_def store_simps jm.wf_put)
qed

subsection \<open>Every operation implements its counterpart\<close>

lemma get_represents:
  assumes "represents c xs"
  shows "fst (lru_get now k c) = fst (spec_get now k xs)" "represents (snd (lru_get now k c)) (snd (spec_get now k xs))"
proof -
  have "fst (lru_get now k c) = fst (spec_get now k xs) \<and> represents (snd (lru_get now k c)) (snd (spec_get now k xs))"
  proof (cases "map_of xs k")
    case None
    with assms represents_get[OF assms, of k] show ?thesis by (simp add: lru_get_def spec_get_def)
  next
    case (Some vx)
    obtain v x where vx: "vx = (v, x)" by (cases vx)
    obtain as bs where xs: "xs = as @ (k, v, x) # bs" "without k xs = as @ bs"
      and g: "jm_get (lru_store c) k = Some \<lparr>ce_value = v, ce_expiresAt = x, ce_prev = last_key None as, ce_next = first_key bs None\<rparr>"
      using represents_split[OF assms Some[unfolded vx]] by metis
    from move_represents[OF assms[unfolded xs(1)] refl] delete_represents[OF assms, of k] g Some show ?thesis
      unfolding lru_get_def spec_get_def by (simp add: vx xs(2))
  qed
  then show "fst (lru_get now k c) = fst (spec_get now k xs)" "represents (snd (lru_get now k c)) (snd (spec_get now k xs))"
    by simp_all
qed

lemma length_represents: "represents c xs \<Longrightarrow> length (lru_store c) = length xs"
proof -
  assume "represents c xs"
  then have "distinct (jm_keys (lru_store c))" "distinct (map fst xs)" "set (jm_keys (lru_store c)) = set (map fst xs)"
    by (simp_all add: represents_def jm_wf_def)
  then show ?thesis
    by (metis distinct_card length_map jm_keys_def)
qed

lemma update_represents:
  assumes rep: "represents c (as @ (k, v, x) # bs)" and g: "jm_get (lru_store c) k = Some e"
  shows "represents (c\<lparr>lru_store := jm_set (lru_store c) k (e\<lparr>ce_value := w, ce_expiresAt := y\<rparr>)\<rparr>) (as @ (k, w, y) # bs)"
proof -
  let ?st = "jm_set (lru_store c) k (e\<lparr>ce_value := w, ce_expiresAt := y\<rparr>)"
  have r: "k \<notin> fst ` set as" "k \<notin> fst ` set bs" "linked (lru_store c) None as (Some k)" "linked (lru_store c) (Some k) bs None"
    "e = \<lparr>ce_value = v, ce_expiresAt = x, ce_prev = last_key None as, ce_next = first_key bs None\<rparr>"
    using rep g by (auto simp: represents_def linked_append)
  have "linked ?st p zs n = linked (lru_store c) p zs n" if "k \<notin> fst ` set zs" for p zs n
    by (rule linked_frame) (use that in \<open>auto simp: store_simps\<close>)
  with r have "linked ?st None (as @ (k, w, y) # bs) None"
    by (simp add: linked_append store_simps)
  with rep g show ?thesis
    by (auto simp: represents_def store_simps jm.in_keys intro: jm.wf_put)
qed

lemma set_represents:
  assumes rep: "represents c xs" and k: "k \<noteq> []"
  shows "represents (lru_set now k v c) (spec_set (lru_maxSize c) (lru_ttlMs c) now k v xs)"
proof (cases "map_of xs k")
  case None
  let ?d = "if lru_maxSize c \<le> int (length (lru_store c)) then lru_evictTail c else c"
  let ?ys = "if lru_maxSize c \<le> int (length xs) then butlast xs else xs"
  have "represents ?d ?ys"
    using rep evict_represents[OF rep] length_represents[OF rep] by simp
  moreover have "k \<notin> fst ` set ?ys" "k \<notin> fst ` set xs"
    using None by (auto simp: map_of_eq_None_iff dest: in_set_butlastD)
  moreover have "jm_get (lru_store c) k = None"
    using None represents_get[OF rep, of k] by simp
  ultimately show ?thesis
    using push_new_represents[of ?d ?ys k v "now + lru_ttlMs c"] k length_represents[OF rep]
    by (simp add: lru_set_def spec_set_def Let_def)
next
  case (Some vx)
  obtain u x where vx: "vx = (u, x)" by (cases vx)
  obtain as bs where xs: "xs = as @ (k, u, x) # bs" "without k xs = as @ bs"
    and g: "jm_get (lru_store c) k = Some \<lparr>ce_value = u, ce_expiresAt = x, ce_prev = last_key None as, ce_next = first_key bs None\<rparr>"
    using represents_split[OF rep Some[unfolded vx]] by metis
  have "k \<in> fst ` set xs" by (simp add: xs(1))
  with move_represents[OF update_represents[OF rep[unfolded xs(1)] g, where w = v and y = "now + lru_ttlMs c"] refl] g xs(2) show ?thesis
    by (simp add: lru_set_def spec_set_def Let_def)
qed

lemma clear_represents: "represents c xs \<Longrightarrow> represents (lru_clear pre c) (spec_clear pre xs)"
proof (cases pre)
  case None
  then show "represents c xs \<Longrightarrow> ?thesis"
    by (simp add: lru_clear_def spec_clear_def represents_def jm_wf_def jm_keys_def)
next
  case (Some p)
  have "represents (fold (\<lambda>key d. if prefix p key then lru_delete key d else d) ks d) (filter (\<lambda>x. \<not> (prefix p (fst x) \<and> fst x \<in> set ks)) ys)"
    if "represents d ys" for ks d and ys :: "'a recency_list"
    using that
  proof (induction ks arbitrary: d ys)
    case (Cons k ks)
    show ?case
    proof (cases "prefix p k")
      case True
      have "filter (\<lambda>x. \<not> (prefix p (fst x) \<and> fst x \<in> set ks)) (without k ys) = filter (\<lambda>x. \<not> (prefix p (fst x) \<and> fst x \<in> set (k # ks))) ys"
        using True by (auto intro!: filter_cong)
      with Cons.IH[OF delete_represents[OF Cons.prems, of k]] True show ?thesis by simp
    next
      case False
      have "filter (\<lambda>x. \<not> (prefix p (fst x) \<and> fst x \<in> set ks)) ys = filter (\<lambda>x. \<not> (prefix p (fst x) \<and> fst x \<in> set (k # ks))) ys"
        using False by (auto intro!: filter_cong)
      with Cons.IH[OF Cons.prems] False show ?thesis by simp
    qed
  qed simp
  note f = this
  show "represents c xs \<Longrightarrow> ?thesis"
  proof -
    assume rep: "represents c xs"
    have "filter (\<lambda>x. \<not> (prefix p (fst x) \<and> fst x \<in> set (jm_keys (lru_store c)))) xs = filter (\<lambda>x. \<not> prefix p (fst x)) xs"
      using rep by (auto intro!: filter_cong simp: represents_def)
    with f[OF rep, of "jm_keys (lru_store c)"] show ?thesis
      by (simp add: Some lru_clear_def spec_clear_def)
  qed
qed

subsection \<open>Runs\<close>

datatype 'v cache_call = CGet int string | CSet int string 'v | CDelete string | CClear "string option"

fun call_key_ok :: "'v cache_call \<Rightarrow> bool" where
  "call_key_ok (CSet _ k _) = (k \<noteq> [])"
| "call_key_ok _ = True"

fun lru_call :: "'v cache_call \<Rightarrow> 'v lru_cache \<Rightarrow> 'v option \<times> 'v lru_cache" where
  "lru_call (CGet now k) c = lru_get now k c"
| "lru_call (CSet now k v) c = (None, lru_set now k v c)"
| "lru_call (CDelete k) c = (None, lru_delete k c)"
| "lru_call (CClear pre) c = (None, lru_clear pre c)"

fun spec_call :: "int \<Rightarrow> int \<Rightarrow> 'v cache_call \<Rightarrow> 'v recency_list \<Rightarrow> 'v option \<times> 'v recency_list" where
  "spec_call cap ttl (CGet now k) xs = spec_get now k xs"
| "spec_call cap ttl (CSet now k v) xs = (None, spec_set cap ttl now k v xs)"
| "spec_call cap ttl (CDelete k) xs = (None, without k xs)"
| "spec_call cap ttl (CClear pre) xs = (None, spec_clear pre xs)"

fun run_calls :: "('c \<Rightarrow> 's \<Rightarrow> 'a \<times> 's) \<Rightarrow> 'c list \<Rightarrow> 's \<Rightarrow> 'a list \<times> 's" where
  "run_calls f [] s = ([], s)"
| "run_calls f (c # cs) s = (case f c s of (a, s1) \<Rightarrow> case run_calls f cs s1 of (as, s2) \<Rightarrow> (a # as, s2))"

lemma lru_limits:
  "lru_maxSize (snd (lru_call q c)) = lru_maxSize c" "lru_ttlMs (snd (lru_call q c)) = lru_ttlMs c"
proof -
  have u: "lru_maxSize (lru_unlink c k e) = lru_maxSize c" "lru_ttlMs (lru_unlink c k e) = lru_ttlMs c" for c :: "'a lru_cache" and k e
    by (simp_all add: lru_unlink_def Let_def)
  then have m: "lru_maxSize (lru_moveToHead c k e) = lru_maxSize c" "lru_ttlMs (lru_moveToHead c k e) = lru_ttlMs c"
    and d: "lru_maxSize (lru_delete k c) = lru_maxSize c" "lru_ttlMs (lru_delete k c) = lru_ttlMs c"
    and t: "lru_maxSize (lru_evictTail c) = lru_maxSize c" "lru_ttlMs (lru_evictTail c) = lru_ttlMs c" for c :: "'a lru_cache" and k e
    by (simp_all add: lru_moveToHead_def lru_push_head_def lru_delete_def lru_evictTail_def Let_def split: option.splits)
  have f: "lru_maxSize (fold (\<lambda>key d. if prefix p key then lru_delete key d else d) ks c) = lru_maxSize c"
    "lru_ttlMs (fold (\<lambda>key d. if prefix p key then lru_delete key d else d) ks c) = lru_ttlMs c" for p ks and c :: "'a lru_cache"
    by (induction ks arbitrary: c) (simp_all add: d)
  show "lru_maxSize (snd (lru_call q c)) = lru_maxSize c" "lru_ttlMs (snd (lru_call q c)) = lru_ttlMs c"
    by (cases q; simp add: lru_get_def lru_set_def lru_clear_def lru_push_head_def Let_def m d t f split: option.splits)+
qed

lemma call_represents:
  assumes "represents c xs" "call_key_ok q"
  shows "fst (lru_call q c) = fst (spec_call (lru_maxSize c) (lru_ttlMs c) q xs)"
    "represents (snd (lru_call q c)) (snd (spec_call (lru_maxSize c) (lru_ttlMs c) q xs))"
  using assms by (cases q; simp add: get_represents set_represents delete_represents clear_represents)+

lemma spec_call_bounded:
  assumes "int (length xs) \<le> cap" "1 \<le> cap" "distinct (map fst xs)"
  shows "int (length (snd (spec_call cap ttl q xs))) \<le> cap"
proof (cases q)
  case (CGet now k)
  have "length (without k xs) < length xs" if "map_of xs k = Some vx" for vx
    using map_of_SomeD[OF that] by (intro length_filter_less[of "(k, vx)"]) auto
  with assms CGet show ?thesis by (fastforce simp: spec_get_def split: option.splits)
next
  case (CSet now k v)
  have "length (without k xs) < length xs" if "k \<in> fst ` set xs"
    using that by (auto intro: length_filter_less)
  with assms CSet show ?thesis by (cases "k \<in> fst ` set xs") (auto simp: spec_set_def)
next
  case (CDelete k)
  with assms(1) show ?thesis by (auto intro: order_trans[OF _ assms(1)])
next
  case (CClear pre)
  with assms(2) show ?thesis by (auto simp: spec_clear_def split: option.splits intro: order_trans[OF _ assms(1)])
qed

lemma run_represents:
  assumes "represents c xs" "list_all call_key_ok qs" "int (length xs) \<le> lru_maxSize c" "1 \<le> lru_maxSize c"
  shows "fst (run_calls lru_call qs c) = fst (run_calls (spec_call (lru_maxSize c) (lru_ttlMs c)) qs xs) \<and>
    represents (snd (run_calls lru_call qs c)) (snd (run_calls (spec_call (lru_maxSize c) (lru_ttlMs c)) qs xs)) \<and>
    int (length (lru_store (snd (run_calls lru_call qs c)))) \<le> lru_maxSize c"
  using assms
proof (induction qs arbitrary: c xs)
  case Nil
  then show ?case by (simp add: length_represents)
next
  case (Cons q qs)
  let ?p = "lru_call q c" and ?s = "spec_call (lru_maxSize c) (lru_ttlMs c) q xs"
  have "distinct (map fst xs)" using Cons.prems(1) by (simp add: represents_def)
  then have "int (length (snd ?s)) \<le> lru_maxSize c"
    using spec_call_bounded Cons.prems(3,4) by blast
  with Cons.IH[of "snd ?p" "snd ?s"] call_represents[of c xs q] Cons.prems lru_limits[of q c]
  show ?case by (simp add: case_prod_beta)
qed

text \<open>
  C11 (refinement). The linked cache is a recency list: for any sequence of reads, writes, deletions and
  clears on a fresh cache, the answers are those of the plain list that moves a used key to the front,
  drops expired keys when they are read, and drops its last element when it is full. The number of
  stored entries never exceeds the maximum. Written keys are not empty.
\<close>

theorem lru_cache_refines_list:
  assumes "new_lru cap ttl = Inr c" "list_all call_key_ok qs"
  shows "fst (run_calls lru_call qs c) = fst (run_calls (spec_call cap ttl) qs []) \<and>
    int (length (lru_store (snd (run_calls lru_call qs c)))) \<le> cap"
proof -
  have "represents c []" "lru_maxSize c = cap" "lru_ttlMs c = ttl" "1 \<le> cap"
    using assms(1) by (auto simp: new_lru_def represents_def jm_wf_def jm_keys_def split: if_splits)
  with run_represents[of c "[]" qs] assms(2) show ?thesis by simp
qed

theorem lru_cache_refines_list_witness:
  "fst (run_calls lru_call [CSet 0 ''a'' True, CSet 1 ''b'' False, CGet 2 ''a'', CSet 3 ''c'' True, CGet 4 ''b'', CGet 4 ''a'']
     \<lparr>lru_maxSize = 2, lru_ttlMs = 10, lru_store = [], lru_head = None, lru_tail = None\<rparr>) = [None, None, Some True, None, None, Some True]"
proof -
  have n: "new_lru 2 10 = Inr (\<lparr>lru_maxSize = 2, lru_ttlMs = 10, lru_store = [], lru_head = None, lru_tail = None\<rparr> :: bool lru_cache)"
    by (simp add: new_lru_def)
  show ?thesis
    using lru_cache_refines_list[OF n, of "[CSet 0 ''a'' True, CSet 1 ''b'' False, CGet 2 ''a'', CSet 3 ''c'' True, CGet 4 ''b'', CGet 4 ''a'']"]
    by (simp add: spec_get_def spec_set_def)
qed

end
