(* ===== verification/Revocation.thy ===== *)
theory Revocation
  imports Lru_Cache
begin

text \<open>
  Revocation of tokens: \<open>policy/src/revocation\<close> (the list store, the cache and the API over both) and
  \<open>RevocationList\<close> of \<open>identity/src/revocation.ts\<close>.

  A table is a list of rows in the order of insertion. A transaction is one step: concurrent calls are
  their serial order. \<open>for_update_ok\<close> says whether the database accepts the locking clause of the version
  query, an aggregate with \<open>FOR UPDATE\<close>. A query that fails is not modelled beyond that: the API passes
  the exception on. The wall clock is an argument in milliseconds and one clock serves the cache and the
  database.
\<close>

subsection \<open>Records\<close>

datatype rv_code =
  REVOCATION_DUPLICATE | REVOCATION_INVALID_PARAMS | REVOCATION_LIST_VERSION_CONFLICT | REVOCATION_STORE_ERROR | REVOCATION_CACHE_ERROR

definition REVOCATION_REASONS :: "string list" where
  "REVOCATION_REASONS = [''KEY_COMPROMISE'', ''AFFILIATION_CHANGED'', ''SUPERSEDED'', ''CESSATION_OF_OPERATION'', ''PRIVILEGE_WITHDRAWN'', ''UNSPECIFIED'']"

definition parseRevocationReason :: "string \<Rightarrow> string option" where
  "parseRevocationReason r = (if r \<in> set REVOCATION_REASONS then Some r else None)"

text \<open>A row; the payload column is JSON and is checked when a row is read.\<close>

record revocation_row =
  rv_id :: string
  rv_tenantId :: string
  rv_tokenId :: string
  rv_revokedBy :: string
  rv_revokedAt :: int
  rv_reason :: string
  rv_listId :: string
  rv_listVersion :: int
  rv_payload :: "jsval option"

record revoke_input =
  ri_tenantId :: string
  ri_tokenId :: string
  ri_revokedBy :: string
  ri_reason :: "string option"
  ri_listId :: string
  ri_payload :: "jsval option"

fun nonempty_string :: "jsval \<Rightarrow> bool" where
  "nonempty_string (JStr s) = (s \<noteq> [])"
| "nonempty_string _ = False"

fun positive_integer :: "jsval \<Rightarrow> bool" where
  "positive_integer (JNum (Fin q)) = (1 \<le> q \<and> of_int \<lfloor>q\<rfloor> = q)"
| "positive_integer _ = False"

definition validateIssuerSignaturePayload :: "jsval \<Rightarrow> js_object option" where
  "validateIssuerSignaturePayload raw =
     (case raw of
        JObj obj \<Rightarrow>
          if \<not> nonempty_string (get_prop obj ''issuerDid'') then None
          else if \<not> nonempty_string (get_prop obj ''listId'') then None
          else if \<not> positive_integer (get_prop obj ''listVersion'') then None
          else if \<not> nonempty_string (get_prop obj ''tenantId'') then None
          else if \<not> nonempty_string (get_prop obj ''issuedAt'') then None
          else Some [(''issuerDid'', get_prop obj ''issuerDid''), (''listId'', get_prop obj ''listId''), (''listVersion'', get_prop obj ''listVersion''),
                     (''tenantId'', get_prop obj ''tenantId''), (''issuedAt'', get_prop obj ''issuedAt'')]
      | _ \<Rightarrow> None)"

text \<open>\<open>None\<close> is a thrown error.\<close>

definition rowToRecord :: "revocation_row \<Rightarrow> revocation_row option" where
  "rowToRecord row =
     (case parseRevocationReason (rv_reason row) of
        None \<Rightarrow> None
      | Some _ \<Rightarrow>
          (case rv_payload row of
             None \<Rightarrow> Some row
           | Some p \<Rightarrow>
               if p = JNull then Some (row\<lparr>rv_payload := None\<rparr>)
               else map_option (\<lambda>obj. row\<lparr>rv_payload := Some (JObj obj)\<rparr>) (validateIssuerSignaturePayload p)))"

subsection \<open>The list store\<close>

datatype revoke_result = Revoked revocation_row | RevokeFailed rv_code

definition list_rows :: "string \<Rightarrow> string \<Rightarrow> revocation_row list \<Rightarrow> revocation_row list" where
  "list_rows tenant lst tbl = filter (\<lambda>r. rv_tenantId r = tenant \<and> rv_listId r = lst) tbl"

definition getNextListVersion :: "string \<Rightarrow> string \<Rightarrow> revocation_row list \<Rightarrow> int" where
  "getNextListVersion tenant lst tbl = fold max (map rv_listVersion (list_rows tenant lst tbl)) 0 + 1"

definition store_isRevoked :: "string \<Rightarrow> string \<Rightarrow> revocation_row list \<Rightarrow> bool" where
  "store_isRevoked tenant tok tbl = list_ex (\<lambda>r. rv_tenantId r = tenant \<and> rv_tokenId r = tok) tbl"

definition INT_MAX :: int where
  "INT_MAX = 2147483647"

definition revokeWithClient :: "bool \<Rightarrow> string \<Rightarrow> int \<Rightarrow> revoke_input \<Rightarrow> string \<Rightarrow> revocation_row list \<Rightarrow> revoke_result \<times> revocation_row list" where
  "revokeWithClient for_update_ok uuid now inp why tbl =
     (if \<not> for_update_ok then (RevokeFailed REVOCATION_STORE_ERROR, tbl)
      else let listVersion = getNextListVersion (ri_tenantId inp) (ri_listId inp) tbl
           in if store_isRevoked (ri_tenantId inp) (ri_tokenId inp) tbl then (RevokeFailed REVOCATION_DUPLICATE, tbl)
              else if uuid \<in> rv_id ` set tbl \<or> INT_MAX < listVersion then (RevokeFailed REVOCATION_STORE_ERROR, tbl)
              else let row = \<lparr>rv_id = uuid, rv_tenantId = ri_tenantId inp, rv_tokenId = ri_tokenId inp, rv_revokedBy = ri_revokedBy inp,
                         rv_revokedAt = now, rv_reason = why, rv_listId = ri_listId inp, rv_listVersion = listVersion, rv_payload = ri_payload inp\<rparr>
                   in (case rowToRecord row of None \<Rightarrow> RevokeFailed REVOCATION_STORE_ERROR | Some r \<Rightarrow> Revoked r, tbl @ [row]))"

definition store_revoke :: "bool \<Rightarrow> string \<Rightarrow> int \<Rightarrow> revoke_input \<Rightarrow> revocation_row list \<Rightarrow> revoke_result \<times> revocation_row list" where
  "store_revoke for_update_ok uuid now inp tbl =
     (let why = (case ri_reason inp of None \<Rightarrow> ''UNSPECIFIED'' | Some r \<Rightarrow> r)
      in if ri_tenantId inp = [] \<or> ri_tokenId inp = [] \<or> ri_revokedBy inp = [] \<or> ri_listId inp = []
         then (RevokeFailed REVOCATION_INVALID_PARAMS, tbl)
         else if why \<notin> set REVOCATION_REASONS then (RevokeFailed REVOCATION_INVALID_PARAMS, tbl)
         else revokeWithClient for_update_ok uuid now inp why tbl)"

text \<open>\<open>Inl\<close> is the error of a stored row that does not validate; \<open>Inr None\<close> is not found.\<close>

definition getRevocation :: "string \<Rightarrow> string \<Rightarrow> revocation_row list \<Rightarrow> unit + revocation_row option" where
  "getRevocation tenant tok tbl =
     (case find (\<lambda>r. rv_tenantId r = tenant \<and> rv_tokenId r = tok) tbl of
        None \<Rightarrow> Inr None
      | Some row \<Rightarrow> (case rowToRecord row of None \<Rightarrow> Inl () | Some r \<Rightarrow> Inr (Some r)))"

record revocation_filters =
  vf_tenantId :: string
  vf_tokenId :: "string option"
  vf_listId :: "string option"
  vf_revokedAfter :: "int option"
  vf_revokedBefore :: "int option"
  vf_limit :: "nat option"
  vf_offset :: "nat option"

definition opt_cond :: "('a \<Rightarrow> bool) \<Rightarrow> 'a option \<Rightarrow> bool" where
  "opt_cond c v = (case v of None \<Rightarrow> True | Some x \<Rightarrow> c x)"

text \<open>\<open>ORDER BY revoked_at DESC\<close> leaves the order of equal instants open; the model takes the order of insertion.\<close>

definition getRevocations :: "revocation_filters \<Rightarrow> revocation_row list \<Rightarrow> revocation_row list option" where
  "getRevocations f tbl =
     (let limit = min (case vf_limit f of None \<Rightarrow> 100 | Some n \<Rightarrow> n) 1000;
          offset = (case vf_offset f of None \<Rightarrow> 0 | Some n \<Rightarrow> n);
          hits = filter (\<lambda>r. rv_tenantId r = vf_tenantId f \<and> opt_cond (\<lambda>t. rv_tokenId r = t) (vf_tokenId f) \<and>
                   opt_cond (\<lambda>l. rv_listId r = l) (vf_listId f) \<and> opt_cond (\<lambda>t. t \<le> rv_revokedAt r) (vf_revokedAfter f) \<and>
                   opt_cond (\<lambda>t. rv_revokedAt r \<le> t) (vf_revokedBefore f)) tbl;
          page = map rowToRecord (take limit (drop offset (sort_key (\<lambda>r. - rv_revokedAt r) hits)))
      in if None \<in> set page then None else Some (map the page))"

subsection \<open>The cache and the API\<close>

type_synonym token_ref = "string \<times> string"

definition cacheKey :: "token_ref \<Rightarrow> string" where
  "cacheKey i = fst i @ '':'' @ snd i"

definition rc_get :: "int \<Rightarrow> token_ref \<Rightarrow> bool lru_cache \<Rightarrow> bool option \<times> bool lru_cache" where
  "rc_get now i c = lru_get now (cacheKey i) c"

definition rc_set :: "int \<Rightarrow> token_ref \<Rightarrow> bool \<Rightarrow> bool lru_cache \<Rightarrow> bool lru_cache" where
  "rc_set now i v c = lru_set now (cacheKey i) v c"

definition invalidateToken :: "token_ref \<Rightarrow> bool lru_cache \<Rightarrow> bool lru_cache" where
  "invalidateToken i c = lru_delete (cacheKey i) c"

definition invalidateTenant :: "string \<Rightarrow> bool lru_cache \<Rightarrow> bool lru_cache" where
  "invalidateTenant tenant c = lru_clear (Some (tenant @ '':'')) c"

definition invalidateAll :: "bool lru_cache \<Rightarrow> bool lru_cache" where
  "invalidateAll c = lru_clear None c"

definition new_revocation_cache :: "int option \<Rightarrow> int option \<Rightarrow> string + bool lru_cache" where
  "new_revocation_cache maxs ttl =
     new_lru (case maxs of None \<Rightarrow> 10000 | Some m \<Rightarrow> m) (case ttl of None \<Rightarrow> 30000 | Some t \<Rightarrow> t)"

definition api_revoke ::
  "bool \<Rightarrow> string \<Rightarrow> int \<Rightarrow> revoke_input \<Rightarrow> revocation_row list \<Rightarrow> bool lru_cache \<Rightarrow> revoke_result \<times> revocation_row list \<times> bool lru_cache" where
  "api_revoke for_update_ok uuid now inp tbl c =
     (let i = (ri_tenantId inp, ri_tokenId inp);
          c1 = invalidateToken i c
      in case store_revoke for_update_ok uuid now inp tbl of
           (Revoked r, tbl1) \<Rightarrow> (Revoked r, tbl1, rc_set now i True c1)
         | (RevokeFailed e, tbl1) \<Rightarrow> (RevokeFailed e, tbl1, c1))"

definition api_isRevoked :: "int \<Rightarrow> revocation_row list \<Rightarrow> token_ref \<Rightarrow> bool lru_cache \<Rightarrow> bool \<times> bool lru_cache" where
  "api_isRevoked now tbl i c =
     (case rc_get now i c of
        (Some cached, c1) \<Rightarrow> (cached, c1)
      | (None, c1) \<Rightarrow> let revoked = store_isRevoked (fst i) (snd i) tbl in (revoked, rc_set now i revoked c1))"

subsection \<open>RevocationList of the identity layer\<close>

record identity_revocation =
  ir_tokenId :: string
  ir_revokedBy :: string
  ir_revokedAt :: int
  ir_reason :: "string option"

type_synonym revoked_cache = "(string, bool \<times> int) js_map"

definition getCachedRevocation :: "int \<Rightarrow> string \<Rightarrow> revoked_cache \<Rightarrow> bool option \<times> revoked_cache" where
  "getCachedRevocation now tok c =
     (case jm_get c tok of
        None \<Rightarrow> (None, c)
      | Some (v, e) \<Rightarrow> if e \<le> now then (None, jm_delete c tok) else (Some v, c))"

definition setCachedRevocation :: "int \<Rightarrow> int \<Rightarrow> string \<Rightarrow> bool \<Rightarrow> revoked_cache \<Rightarrow> revoked_cache" where
  "setCachedRevocation ttl now tok v c = jm_set c tok (v, now + ttl)"

definition rl_getRevocation :: "string \<Rightarrow> identity_revocation list \<Rightarrow> identity_revocation option" where
  "rl_getRevocation tok tbl = find (\<lambda>r. ir_tokenId r = tok) tbl"

definition rl_isRevoked :: "int \<Rightarrow> int \<Rightarrow> identity_revocation list \<Rightarrow> string \<Rightarrow> revoked_cache \<Rightarrow> bool \<times> revoked_cache" where
  "rl_isRevoked ttl now tbl tok c =
     (case getCachedRevocation now tok c of
        (Some v, c1) \<Rightarrow> (v, c1)
      | (None, c1) \<Rightarrow> let v = list_ex (\<lambda>r. ir_tokenId r = tok) tbl in (v, setCachedRevocation ttl now tok v c1))"

text \<open>\<open>ON CONFLICT DO NOTHING\<close>: the first revocation stays. The result is the stored one.\<close>

definition rl_revoke ::
  "int \<Rightarrow> int \<Rightarrow> string \<Rightarrow> string \<Rightarrow> string option \<Rightarrow> identity_revocation list \<Rightarrow> revoked_cache
     \<Rightarrow> identity_revocation \<times> identity_revocation list \<times> revoked_cache" where
  "rl_revoke ttl now tok by_did why tbl c =
     (case rl_getRevocation tok tbl of
        Some existing \<Rightarrow> (existing, tbl, setCachedRevocation ttl now tok True c)
      | None \<Rightarrow> let r = \<lparr>ir_tokenId = tok, ir_revokedBy = by_did, ir_revokedAt = now, ir_reason = why\<rparr>
                in (r, tbl @ [r], setCachedRevocation ttl now tok True c))"

definition rl_getRevocations :: "int option \<Rightarrow> identity_revocation list \<Rightarrow> identity_revocation list" where
  "rl_getRevocations since tbl =
     sort_key ir_revokedAt (case since of None \<Rightarrow> tbl | Some t \<Rightarrow> filter (\<lambda>r. t \<le> ir_revokedAt r) tbl)"

subsection \<open>Checks under concurrency\<close>

text \<open>
  What a caching checker does between awaits. The world has the revocations with their instants, the
  cache of this process, the clock, the database reads whose answer is not yet in the cache, and the
  answers given. Any process may revoke. A miss reads the database and fills the cache later; meanwhile
  everything else may happen, but a read is finished within \<open>lat\<close> milliseconds.
\<close>

record ('i, 'c) check_world =
  cw_revoked :: "('i \<times> int) list"
  cw_cache :: 'c
  cw_clock :: int
  cw_reads :: "('i \<times> bool \<times> int) list"
  cw_answers :: "('i \<times> bool \<times> int) list"

inductive check_reach ::
  "(int \<Rightarrow> 'i \<Rightarrow> 'c \<Rightarrow> bool option \<times> 'c) \<Rightarrow> (int \<Rightarrow> 'i \<Rightarrow> bool \<Rightarrow> 'c \<Rightarrow> 'c) \<Rightarrow> ('i \<Rightarrow> 'c \<Rightarrow> 'c) \<Rightarrow> ('i \<Rightarrow> bool) \<Rightarrow> int \<Rightarrow> 'c
     \<Rightarrow> ('i, 'c) check_world \<Rightarrow> bool"
  for get put del good lat c0 where
  start: "check_reach get put del good lat c0 \<lparr>cw_revoked = [], cw_cache = c0, cw_clock = t, cw_reads = [], cw_answers = []\<rparr>"
| tick: "check_reach get put del good lat c0 w \<Longrightarrow> cw_clock w \<le> t \<Longrightarrow> list_all (\<lambda>(i, v, r). t \<le> r + lat) (cw_reads w) \<Longrightarrow>
    check_reach get put del good lat c0 (w\<lparr>cw_clock := t\<rparr>)"
| revoke: "check_reach get put del good lat c0 w \<Longrightarrow> good i \<Longrightarrow>
    check_reach get put del good lat c0 (w\<lparr>cw_revoked := cw_revoked w @ [(i, cw_clock w)]\<rparr>)"
| invalidate: "check_reach get put del good lat c0 w \<Longrightarrow> good i \<Longrightarrow>
    check_reach get put del good lat c0 (w\<lparr>cw_cache := del i (cw_cache w)\<rparr>)"
| note_revoked: "check_reach get put del good lat c0 w \<Longrightarrow> good i \<Longrightarrow> i \<in> fst ` set (cw_revoked w) \<Longrightarrow>
    check_reach get put del good lat c0 (w\<lparr>cw_cache := put (cw_clock w) i True (cw_cache w)\<rparr>)"
| hit: "check_reach get put del good lat c0 w \<Longrightarrow> good i \<Longrightarrow> get (cw_clock w) i (cw_cache w) = (Some v, c) \<Longrightarrow>
    check_reach get put del good lat c0 (w\<lparr>cw_cache := c, cw_answers := (i, v, cw_clock w) # cw_answers w\<rparr>)"
| miss: "check_reach get put del good lat c0 w \<Longrightarrow> good i \<Longrightarrow> get (cw_clock w) i (cw_cache w) = (None, c) \<Longrightarrow>
    check_reach get put del good lat c0
      (w\<lparr>cw_cache := c, cw_reads := (i, i \<in> fst ` set (cw_revoked w), cw_clock w) # cw_reads w\<rparr>)"
| fill: "check_reach get put del good lat c0 w \<Longrightarrow> cw_reads w = xs @ (i, v, r) # ys \<Longrightarrow>
    check_reach get put del good lat c0
      (w\<lparr>cw_cache := put (cw_clock w) i v (cw_cache w), cw_reads := xs @ ys, cw_answers := (i, v, cw_clock w) # cw_answers w\<rparr>)"

text \<open>
  No cached or pending \<open>False\<close> outlives a revocation by more than the latency and the lifetime of an
  entry.
\<close>

definition fresh_enough ::
  "('c \<Rightarrow> bool) \<Rightarrow> ('c \<Rightarrow> 'i \<Rightarrow> (bool \<times> int) option) \<Rightarrow> ('i \<Rightarrow> bool) \<Rightarrow> int \<Rightarrow> int \<Rightarrow> ('i, 'c) check_world \<Rightarrow> bool" where
  "fresh_enough cinv entry good ttl lat w =
     (cinv (cw_cache w) \<and>
      (\<forall>(i, s) \<in> set (cw_revoked w). s \<le> cw_clock w) \<and>
      (\<forall>(i, v, r) \<in> set (cw_reads w). good i \<and> r \<le> cw_clock w \<and> cw_clock w \<le> r + lat \<and> (\<not> v \<longrightarrow> (\<forall>s. (i, s) \<in> set (cw_revoked w) \<longrightarrow> r \<le> s))) \<and>
      (\<forall>i v e. good i \<longrightarrow> entry (cw_cache w) i = Some (v, e) \<longrightarrow>
         e \<le> cw_clock w + ttl \<and> (\<not> v \<longrightarrow> (\<forall>s. (i, s) \<in> set (cw_revoked w) \<longrightarrow> e \<le> s + lat + ttl))))"

lemma fresh_enough_cache:
  assumes "fresh_enough cinv entry good ttl lat w" "cinv c"
    and "\<And>i v e. good i \<Longrightarrow> entry c i = Some (v, e) \<Longrightarrow>
      entry (cw_cache w) i = Some (v, e) \<or> (e \<le> cw_clock w + ttl \<and> (\<not> v \<longrightarrow> (\<forall>s. (i, s) \<in> set (cw_revoked w) \<longrightarrow> e \<le> s + lat + ttl)))"
  shows "fresh_enough cinv entry good ttl lat (w\<lparr>cw_cache := c\<rparr>)"
proof -
  have "e \<le> cw_clock w + ttl \<and> (\<not> v \<longrightarrow> (\<forall>s. (i, s) \<in> set (cw_revoked w) \<longrightarrow> e \<le> s + lat + ttl))"
    if "good i" "entry c i = Some (v, e)" for i v e
    using assms(3)[OF that] assms(1) that(1) unfolding fresh_enough_def by blast
  then show ?thesis
    using assms(1,2) unfolding fresh_enough_def by simp
qed

lemma fresh_enough_revoke:
  assumes f: "fresh_enough cinv entry good ttl lat w" and lat: "0 \<le> lat"
  shows "fresh_enough cinv entry good ttl lat (w\<lparr>cw_revoked := cw_revoked w @ [(i, cw_clock w)]\<rparr>)"
proof -
  have "e \<le> s + lat + ttl" if "good j" "entry (cw_cache w) j = Some (False, e)" "(j, s) \<in> set (cw_revoked w @ [(i, cw_clock w)])" for j e s
  proof -
    have "e \<le> cw_clock w + ttl \<and> (\<forall>s. (j, s) \<in> set (cw_revoked w) \<longrightarrow> e \<le> s + lat + ttl)"
      using f that(1,2) unfolding fresh_enough_def by blast
    with that(3) lat show ?thesis by auto
  qed
  moreover have "\<forall>(j, v, r) \<in> set (cw_reads w). good j \<and> r \<le> cw_clock w \<and> cw_clock w \<le> r + lat \<and>
      (\<not> v \<longrightarrow> (\<forall>s. (j, s) \<in> set (cw_revoked w @ [(i, cw_clock w)]) \<longrightarrow> r \<le> s))"
    using f unfolding fresh_enough_def by auto
  ultimately show ?thesis
    using f unfolding fresh_enough_def by auto
qed

text \<open>What a checker needs from its cache, on the references it may use.\<close>

locale expiring_cache =
  fixes get :: "int \<Rightarrow> 'i \<Rightarrow> 'c \<Rightarrow> bool option \<times> 'c"
    and put :: "int \<Rightarrow> 'i \<Rightarrow> bool \<Rightarrow> 'c \<Rightarrow> 'c"
    and del :: "'i \<Rightarrow> 'c \<Rightarrow> 'c"
    and entry :: "'c \<Rightarrow> 'i \<Rightarrow> (bool \<times> int) option"
    and cinv :: "'c \<Rightarrow> bool"
    and good :: "'i \<Rightarrow> bool"
    and ttl :: int
  assumes ttl_nonneg: "0 \<le> ttl"
    and inv_get: "cinv c \<Longrightarrow> good i \<Longrightarrow> cinv (snd (get now i c))"
    and inv_put: "cinv c \<Longrightarrow> good i \<Longrightarrow> cinv (put now i v c)"
    and inv_del: "cinv c \<Longrightarrow> good i \<Longrightarrow> cinv (del i c)"
    and get_hit: "cinv c \<Longrightarrow> good i \<Longrightarrow> fst (get now i c) = Some v \<Longrightarrow> \<exists>e. entry c i = Some (v, e) \<and> now \<le> e"
    and get_keeps: "cinv c \<Longrightarrow> good i \<Longrightarrow> good j \<Longrightarrow> entry (snd (get now i c)) j = Some x \<Longrightarrow> entry c j = Some x"
    and put_entry: "cinv c \<Longrightarrow> good i \<Longrightarrow> good j \<Longrightarrow> entry (put now i v c) j = Some x \<Longrightarrow> if j = i then x = (v, now + ttl) else entry c j = Some x"
    and del_entry: "cinv c \<Longrightarrow> good i \<Longrightarrow> good j \<Longrightarrow> entry (del i c) j = Some x \<Longrightarrow> j \<noteq> i \<and> entry c j = Some x"
begin

lemma entry_after_put:
  assumes "cinv c" "good i" "good j" "entry (put now i v c) j = Some (w, e)"
  obtains "j = i" "w = v" "e = now + ttl" | "j \<noteq> i" "entry c j = Some (w, e)"
  using put_entry[OF assms] by (auto split: if_splits)

lemma fresh_enough_get:
  assumes f: "fresh_enough cinv entry good ttl lat w" and i: "good i"
  shows "fresh_enough cinv entry good ttl lat (w\<lparr>cw_cache := snd (get now i (cw_cache w))\<rparr>)"
proof -
  have "cinv (cw_cache w)" using f by (simp add: fresh_enough_def)
  note g = inv_get[OF this i] get_keeps[OF this i]
  show ?thesis by (rule fresh_enough_cache[OF f g(1)]) (use g(2) in blast)
qed

lemma reach_fresh:
  assumes "check_reach get put del good lat c0 w" "cinv c0" "\<And>i. good i \<Longrightarrow> entry c0 i = None" "0 \<le> lat"
  shows "fresh_enough cinv entry good ttl lat w"
  using assms
proof (induction rule: check_reach.induct)
  case (start t)
  then show ?case by (simp add: fresh_enough_def)
next
  case (tick w t)
  then show ?case using ttl_nonneg
    by (fastforce simp: fresh_enough_def list_all_iff)
next
  case (revoke w i)
  then have f: "fresh_enough cinv entry good ttl lat w" by blast
  then show ?case using \<open>0 \<le> lat\<close> by (rule fresh_enough_revoke)
next
  case (invalidate w i)
  then have f: "fresh_enough cinv entry good ttl lat w" by blast
  have "cinv (cw_cache w)" using f by (simp add: fresh_enough_def)
  note d = inv_del[OF this invalidate(2)] del_entry[OF this invalidate(2)]
  show ?case
    by (rule fresh_enough_cache[OF f d(1)]) (use d(2) in blast)
next
  case (note_revoked w i)
  then have f: "fresh_enough cinv entry good ttl lat w" by blast
  show ?case
  proof (rule fresh_enough_cache[OF f])
    show "cinv (put (cw_clock w) i True (cw_cache w))" using f note_revoked(2) inv_put by (simp add: fresh_enough_def)
    fix j v e assume j: "good j" "entry (put (cw_clock w) i True (cw_cache w)) j = Some (v, e)"
    have "cinv (cw_cache w)" using f by (simp add: fresh_enough_def)
    from entry_after_put[OF this note_revoked(2) j] show "entry (cw_cache w) j = Some (v, e) \<or> (e \<le> cw_clock w + ttl \<and> (\<not> v \<longrightarrow> (\<forall>s. (j, s) \<in> set (cw_revoked w) \<longrightarrow> e \<le> s + lat + ttl)))"
      by cases simp_all
  qed
next
  case (hit w i v c)
  then have f: "fresh_enough cinv entry good ttl lat w" by blast
  have c: "c = snd (get (cw_clock w) i (cw_cache w))" using hit(3) by simp
  have "fresh_enough cinv entry good ttl lat (w\<lparr>cw_cache := c\<rparr>)"
    using fresh_enough_get[OF f hit(2)] by (simp add: c)
  then show ?case by (simp add: fresh_enough_def)
next
  case (miss w i c)
  then have f: "fresh_enough cinv entry good ttl lat w" by blast
  have c: "c = snd (get (cw_clock w) i (cw_cache w))" using miss(3) by simp
  have g: "fresh_enough cinv entry good ttl lat (w\<lparr>cw_cache := c\<rparr>)"
    using fresh_enough_get[OF f miss(2)] by (simp add: c)
  have "r \<notin> fst ` set (cw_revoked w) \<Longrightarrow> (r, s) \<notin> set (cw_revoked w)" for r s by force
  with g miss(2) \<open>0 \<le> lat\<close> show ?case by (auto simp: fresh_enough_def)
next
  case (fill w xs i v r ys)
  then have f: "fresh_enough cinv entry good ttl lat w" by blast
  have i: "good i" "cw_clock w \<le> r + lat" "\<not> v \<Longrightarrow> (i, s) \<in> set (cw_revoked w) \<Longrightarrow> r \<le> s" for s
    using f fill(2) by (auto simp: fresh_enough_def)
  have "fresh_enough cinv entry good ttl lat (w\<lparr>cw_cache := put (cw_clock w) i v (cw_cache w)\<rparr>)"
  proof (rule fresh_enough_cache[OF f])
    show "cinv (put (cw_clock w) i v (cw_cache w))" using f i(1) inv_put by (simp add: fresh_enough_def)
    fix j u e assume j: "good j" "entry (put (cw_clock w) i v (cw_cache w)) j = Some (u, e)"
    have "cinv (cw_cache w)" using f by (simp add: fresh_enough_def)
    from entry_after_put[OF this i(1) j]
    show "entry (cw_cache w) j = Some (u, e) \<or> (e \<le> cw_clock w + ttl \<and> (\<not> u \<longrightarrow> (\<forall>s. (j, s) \<in> set (cw_revoked w) \<longrightarrow> e \<le> s + lat + ttl)))"
      using i by cases (force, blast)
  qed
  with fill(2) show ?case by (simp add: fresh_enough_def)
qed

text \<open>A check in a reachable world that finds the token not revoked is at most \<open>lat + ttl\<close> late.\<close>

lemma hit_not_late:
  assumes "check_reach get put del good lat c0 w" "cinv c0" "\<And>i. good i \<Longrightarrow> entry c0 i = None" "0 \<le> lat"
    and "good i" "fst (get (cw_clock w) i (cw_cache w)) = Some False" "(i, s) \<in> set (cw_revoked w)"
  shows "cw_clock w \<le> s + lat + ttl"
proof -
  have f: "fresh_enough cinv entry good ttl lat w"
    by (rule reach_fresh[OF assms(1-4)])
  then have "cinv (cw_cache w)" by (simp add: fresh_enough_def)
  from get_hit[OF this assms(5,6)] obtain e where "entry (cw_cache w) i = Some (False, e)" "cw_clock w \<le> e" by blast
  moreover from this(1) f assms(5,7) have "e \<le> s + lat + ttl"
    unfolding fresh_enough_def by blast
  ultimately show ?thesis by simp
qed

end

subsection \<open>The two caches keep the contract\<close>

definition colon_free :: "token_ref \<Rightarrow> bool" where
  "colon_free i = (CHR '':'' \<notin> set (fst i))"

lemma cacheKey_inj: "colon_free i \<Longrightarrow> colon_free j \<Longrightarrow> cacheKey i = cacheKey j \<longleftrightarrow> i = j"
proof -
  assume c: "colon_free i" "colon_free j"
  have t: "takeWhile (\<lambda>c. c \<noteq> CHR '':'') (cacheKey k) = fst k" "dropWhile (\<lambda>c. c \<noteq> CHR '':'') (cacheKey k) = '':'' @ snd k" if "colon_free k" for k
  proof -
    have "\<forall>c \<in> set (fst k). c \<noteq> CHR '':''" using that unfolding colon_free_def by metis
    then show "takeWhile (\<lambda>c. c \<noteq> CHR '':'') (cacheKey k) = fst k" "dropWhile (\<lambda>c. c \<noteq> CHR '':'') (cacheKey k) = '':'' @ snd k"
      by (simp_all add: cacheKey_def takeWhile_append dropWhile_append)
  qed
  show ?thesis
    using t[OF c(1)] t[OF c(2)] by (auto intro: prod_eqI)
qed

lemma cacheKey_nonempty [simp]: "cacheKey i \<noteq> []"
  by (simp add: cacheKey_def)

definition lru_entry :: "bool lru_cache \<Rightarrow> token_ref \<Rightarrow> (bool \<times> int) option" where
  "lru_entry c i = map_option (\<lambda>e. (ce_value e, ce_expiresAt e)) (jm_get (lru_store c) (cacheKey i))"

definition lru_inv :: "int \<Rightarrow> bool lru_cache \<Rightarrow> bool" where
  "lru_inv ttl c = (lru_ttlMs c = ttl \<and> (\<exists>xs. represents c xs))"

lemma represents_entry: "represents c xs \<Longrightarrow> lru_entry c i = map_of xs (cacheKey i)"
proof (cases "map_of xs (cacheKey i)")
  case None
  then show "represents c xs \<Longrightarrow> ?thesis" using represents_get[of c xs "cacheKey i"] by (simp add: lru_entry_def)
next
  case (Some vx)
  then show "represents c xs \<Longrightarrow> ?thesis"
    by (cases vx) (auto simp: lru_entry_def elim!: represents_split)
qed

lemma map_of_without: "map_of (without k xs) j = (if j = k then None else map_of xs j)"
  by (induction xs) auto

lemma map_of_butlast: "distinct (map fst xs) \<Longrightarrow> map_of (butlast xs) j = Some x \<Longrightarrow> map_of xs j = Some x"
  by (cases xs rule: rev_cases) (auto simp: map_add_def split: option.splits)

interpretation rc: expiring_cache rc_get rc_set invalidateToken lru_entry "lru_inv (int n)" colon_free "int n" for n
proof
  fix c i j now v x
  show "0 \<le> int n" by simp
  assume c: "lru_inv (int n) c" and i: "colon_free i"
  then obtain xs where r: "represents c xs" and t: "lru_ttlMs c = int n" by (auto simp: lru_inv_def)
  let ?g = "rc_get now i c" and ?k = "cacheKey i"
  have rg: "represents (snd ?g) (snd (spec_get now ?k xs))" "fst ?g = fst (spec_get now ?k xs)"
    using get_represents[OF r] by (simp_all add: rc_get_def)
  have rp: "represents (rc_set now i v c) (spec_set (lru_maxSize c) (int n) now ?k v xs)"
    using set_represents[OF r cacheKey_nonempty[of i], of now v] t by (simp add: rc_set_def)
  have rd: "represents (invalidateToken i c) (without ?k xs)"
    using delete_represents[OF r] by (simp add: invalidateToken_def)
  have ttl: "lru_ttlMs (snd ?g) = int n" "lru_ttlMs (rc_set now i v c) = int n" "lru_ttlMs (invalidateToken i c) = int n"
    using t lru_limits(2)[of "CGet now ?k" c] lru_limits(2)[of "CSet now ?k v" c] lru_limits(2)[of "CDelete ?k" c]
    by (simp_all add: rc_get_def rc_set_def invalidateToken_def)
  show "lru_inv (int n) (snd ?g)" "lru_inv (int n) (rc_set now i v c)" "lru_inv (int n) (invalidateToken i c)"
    using rg(1) rp rd ttl by (auto simp: lru_inv_def)
  show "\<exists>e. lru_entry c i = Some (v, e) \<and> now \<le> e" if "fst ?g = Some v"
    using that by (auto simp: rg(2) represents_entry[OF r] spec_get_def split: option.splits if_splits)
  assume j: "colon_free j"
  note kj = cacheKey_inj[OF j i]
  show "lru_entry c j = Some x" if "lru_entry (snd ?g) j = Some x"
    using that by (auto simp: represents_entry[OF rg(1)] represents_entry[OF r] spec_get_def map_of_without split: option.splits if_splits)
  show "j \<noteq> i \<and> lru_entry c j = Some x" if "lru_entry (invalidateToken i c) j = Some x"
    using that kj by (auto simp: represents_entry[OF rd] represents_entry[OF r] map_of_without split: if_splits)
  show "if j = i then x = (v, now + int n) else lru_entry c j = Some x" if "lru_entry (rc_set now i v c) j = Some x"
    using that kj r map_of_butlast[of xs "cacheKey j" x]
    by (auto simp: represents_entry[OF rp] represents_entry[OF r] spec_set_def map_of_without represents_def split: if_splits)
qed

interpretation rl: expiring_cache getCachedRevocation "setCachedRevocation (int n)" "\<lambda>tok c. jm_delete c tok" jm_get "\<lambda>c. True" "\<lambda>tok. True" "int n" for n
  by unfold_locales
    (auto simp: getCachedRevocation_def setCachedRevocation_def store_simps split: option.splits if_splits)

subsection \<open>Properties\<close>

definition table_view :: "revocation_row list \<Rightarrow> (token_ref \<times> int) list" where
  "table_view tbl = map (\<lambda>r. ((rv_tenantId r, rv_tokenId r), rv_revokedAt r)) tbl"

lemma store_isRevoked_view: "store_isRevoked (fst i) (snd i) tbl \<longleftrightarrow> i \<in> fst ` set (table_view tbl)"
  by (cases i) (auto simp: store_isRevoked_def list_ex_iff table_view_def image_iff)

text \<open>
  C10 (liveness). A revocation takes effect: whatever processes revoke, and however checks and
  revocations of this process interleave between awaits, once the lifetime of a cache entry and the
  latency of one database read have passed since a token was revoked, every check answers that it is
  revoked. Tenant ids have no colon.
\<close>

theorem revocation_takes_effect:
  assumes cache: "new_revocation_cache maxs (Some (int ttl)) = Inr c0"
    and reach: "check_reach rc_get rc_set invalidateToken colon_free lat c0 w" "cw_revoked w = table_view tbl" "0 \<le> lat"
    and i: "colon_free i" "(i, s) \<in> set (table_view tbl)" and late: "s + lat + int ttl < cw_clock w"
  shows "fst (api_isRevoked (cw_clock w) tbl i (cw_cache w))"
proof (cases "fst (rc_get (cw_clock w) i (cw_cache w))")
  case None
  have "store_isRevoked (fst i) (snd i) tbl"
    using i(2) by (force simp: store_isRevoked_view)
  with None show ?thesis by (cases "rc_get (cw_clock w) i (cw_cache w)") (simp add: api_isRevoked_def Let_def)
next
  case (Some v)
  have c0: "lru_inv (int ttl) c0" "lru_entry c0 j = None" for j
    using cache by (auto simp: new_revocation_cache_def new_lru_def lru_inv_def represents_def lru_entry_def jm_wf_def jm_keys_def jm_get_def
        split: if_splits intro!: exI[of _ "[]"])
  have "v"
  proof (rule ccontr)
    assume "\<not> v"
    with Some have "fst (rc_get (cw_clock w) i (cw_cache w)) = Some False" by simp
    from rc.hit_not_late[OF reach(1) c0 reach(3) i(1) this, of s] i(2) late reach(2) show False by simp
  qed
  with Some show ?thesis by (cases "rc_get (cw_clock w) i (cw_cache w)") (simp add: api_isRevoked_def)
qed

text \<open>
  Remark (liveness). The same for \<open>RevocationList\<close> of the identity layer with its unbounded map.
\<close>

theorem identity_revocation_takes_effect:
  assumes "check_reach getCachedRevocation (setCachedRevocation (int ttl)) (\<lambda>tok c. jm_delete c tok) (\<lambda>tok. True) lat [] w"
    and "cw_revoked w = map (\<lambda>r. (ir_tokenId r, ir_revokedAt r)) tbl" "0 \<le> lat"
    and "(tok, s) \<in> set (cw_revoked w)" "s + lat + int ttl < cw_clock w"
  shows "fst (rl_isRevoked (int ttl) (cw_clock w) tbl tok (cw_cache w))"
proof (cases "getCachedRevocation (cw_clock w) tok (cw_cache w)")
  case (Pair a c)
  have "v" if "a = Some v" for v
  proof (rule ccontr)
    assume "\<not> v"
    with that Pair have "fst (getCachedRevocation (cw_clock w) tok (cw_cache w)) = Some False" by simp
    from rl.hit_not_late[OF assms(1) _ _ assms(3) _ this assms(4)] assms(5) show False by (simp add: jm_get_def)
  qed
  moreover have "list_ex (\<lambda>r. ir_tokenId r = tok) tbl"
    using assms(2,4) by (auto simp: list_ex_iff)
  ultimately show ?thesis
    unfolding rl_isRevoked_def Pair by (auto simp: Let_def split: option.split)
qed

subsection \<open>Serial calls\<close>

datatype api_call = ARevoke string int revoke_input | ACheck int token_ref | AInvalidateToken token_ref | AInvalidateTenant string

fun api_exec :: "bool \<Rightarrow> api_call \<Rightarrow> revocation_row list \<times> bool lru_cache \<Rightarrow> bool option \<times> revocation_row list \<times> bool lru_cache" where
  "api_exec fu (ARevoke uuid now inp) (tbl, c) = (None, snd (api_revoke fu uuid now inp tbl c))"
| "api_exec fu (ACheck now i) (tbl, c) = (case api_isRevoked now tbl i c of (v, c1) \<Rightarrow> (Some v, tbl, c1))"
| "api_exec fu (AInvalidateToken i) (tbl, c) = (None, tbl, invalidateToken i c)"
| "api_exec fu (AInvalidateTenant t) (tbl, c) = (None, tbl, invalidateTenant t c)"

text \<open>The same calls on the table alone.\<close>

fun direct_exec :: "bool \<Rightarrow> api_call \<Rightarrow> revocation_row list \<Rightarrow> bool option \<times> revocation_row list" where
  "direct_exec fu (ARevoke uuid now inp) tbl = (None, snd (store_revoke fu uuid now inp tbl))"
| "direct_exec fu (ACheck now i) tbl = (Some (store_isRevoked (fst i) (snd i) tbl), tbl)"
| "direct_exec fu _ tbl = (None, tbl)"

fun call_colon_free :: "api_call \<Rightarrow> bool" where
  "call_colon_free (ARevoke _ _ inp) = colon_free (ri_tenantId inp, ri_tokenId inp)"
| "call_colon_free (ACheck _ i) = colon_free i"
| "call_colon_free (AInvalidateToken i) = colon_free i"
| "call_colon_free (AInvalidateTenant _) = True"

definition cache_exact :: "nat \<Rightarrow> revocation_row list \<Rightarrow> bool lru_cache \<Rightarrow> bool" where
  "cache_exact n tbl c =
     (lru_inv (int n) c \<and> (\<forall>i v e. colon_free i \<longrightarrow> lru_entry c i = Some (v, e) \<longrightarrow> v = store_isRevoked (fst i) (snd i) tbl))"

lemma store_revoke_table:
  assumes "store_revoke fu uuid now inp tbl = (res, tbl')"
  shows "tbl' = tbl \<and> (\<nexists>r. res = Revoked r) \<or>
    (\<exists>row. tbl' = tbl @ [row] \<and> rv_tenantId row = ri_tenantId inp \<and> rv_tokenId row = ri_tokenId inp \<and> rv_listId row = ri_listId inp \<and>
       rv_listVersion row = getNextListVersion (ri_tenantId inp) (ri_listId inp) tbl \<and> \<not> store_isRevoked (ri_tenantId inp) (ri_tokenId inp) tbl)"
  using assms by (auto simp: store_revoke_def revokeWithClient_def Let_def split: if_splits option.splits)

lemma cache_exact_subset:
  "cache_exact n tbl c \<Longrightarrow> lru_inv (int n) d \<Longrightarrow> (\<And>j x. colon_free j \<Longrightarrow> lru_entry d j = Some x \<Longrightarrow> lru_entry c j = Some x) \<Longrightarrow> cache_exact n tbl d"
  unfolding cache_exact_def by blast

lemma cache_exact_put:
  assumes "cache_exact n tbl c" "colon_free i" "v = store_isRevoked (fst i) (snd i) tbl"
  shows "cache_exact n tbl (rc_set now i v c)"
proof -
  have c: "lru_inv (int n) c" using assms(1) by (simp add: cache_exact_def)
  have "w = store_isRevoked (fst j) (snd j) tbl" if "colon_free j" "lru_entry (rc_set now i v c) j = Some (w, e)" for j w e
    using rc.entry_after_put[OF c assms(2) that] assms(1,3) that(1) unfolding cache_exact_def by metis
  with rc.inv_put[OF c assms(2)] show ?thesis by (auto simp: cache_exact_def)
qed

lemma cache_exact_revoke:
  assumes ex: "cache_exact n tbl c" and i: "colon_free (ri_tenantId inp, ri_tokenId inp)"
    and st: "store_revoke fu uuid now inp tbl = (res, tbl')"
  shows "cache_exact n tbl' (snd (snd (api_revoke fu uuid now inp tbl c))) \<and> fst (snd (api_revoke fu uuid now inp tbl c)) = tbl'"
proof -
  let ?i = "(ri_tenantId inp, ri_tokenId inp)"
  have c: "lru_inv (int n) c" using ex by (simp add: cache_exact_def)
  have other: "store_isRevoked (fst j) (snd j) tbl' = store_isRevoked (fst j) (snd j) tbl" if "j \<noteq> ?i" for j
    using store_revoke_table[OF st] that by (cases j) (auto simp: store_isRevoked_def)
  have "w = store_isRevoked (fst j) (snd j) tbl'" if j: "colon_free j" "lru_entry (invalidateToken ?i c) j = Some (w, e)" for j w e
  proof -
    have "j \<noteq> ?i" "lru_entry c j = Some (w, e)" using rc.del_entry[OF c i j] by simp_all
    with ex j(1) other[of j] show ?thesis unfolding cache_exact_def by metis
  qed
  with rc.inv_del[OF c i] have d: "cache_exact n tbl' (invalidateToken ?i c)"
    unfolding cache_exact_def by blast
  show ?thesis
  proof (cases res)
    case (Revoked r)
    then have "store_isRevoked (fst ?i) (snd ?i) tbl'"
      using store_revoke_table[OF st] by (auto simp: store_isRevoked_def)
    with cache_exact_put[OF d i, of True now] Revoked st show ?thesis by (simp add: api_revoke_def Let_def)
  next
    case (RevokeFailed e)
    with d st show ?thesis by (simp add: api_revoke_def Let_def)
  qed
qed

lemma cache_exact_check:
  assumes ex: "cache_exact n tbl c" and i: "colon_free i"
  shows "fst (api_isRevoked now tbl i c) = store_isRevoked (fst i) (snd i) tbl \<and> cache_exact n tbl (snd (api_isRevoked now tbl i c))"
proof (cases "rc_get now i c")
  case (Pair a d)
  have c: "lru_inv (int n) c" using ex by (simp add: cache_exact_def)
  have d: "cache_exact n tbl d"
    using cache_exact_subset[OF ex rc.inv_get[OF c i, of now] rc.get_keeps[OF c i, of _ now]] Pair by simp
  show ?thesis
  proof (cases a)
    case None
    with cache_exact_put[OF d i refl, of now] Pair show ?thesis by (simp add: api_isRevoked_def Let_def)
  next
    case (Some v)
    with rc.get_hit[OF c i, of now v] Pair ex i have "v = store_isRevoked (fst i) (snd i) tbl"
      unfolding cache_exact_def by auto
    with d Pair Some show ?thesis by (simp add: api_isRevoked_def)
  qed
qed

lemma cache_exact_exec:
  assumes "cache_exact n tbl c" "call_colon_free q"
  obtains c' where "api_exec fu q (tbl, c) = (fst (direct_exec fu q tbl), snd (direct_exec fu q tbl), c')" "cache_exact n (snd (direct_exec fu q tbl)) c'"
proof (cases q)
  case (ARevoke uuid now inp)
  obtain res tbl' where st: "store_revoke fu uuid now inp tbl = (res, tbl')" by (cases "store_revoke fu uuid now inp tbl")
  from cache_exact_revoke[OF assms(1) _ st] assms(2) that show ?thesis
    by (simp add: ARevoke st prod_eq_iff)
next
  case (ACheck now i)
  from cache_exact_check[OF assms(1), of i now] assms(2) that show ?thesis
    by (simp add: ACheck case_prod_beta)
next
  case (AInvalidateToken i)
  have c: "lru_inv (int n) c" using assms(1) by (simp add: cache_exact_def)
  have i: "colon_free i" using assms(2) AInvalidateToken by simp
  have "cache_exact n tbl (invalidateToken i c)"
    by (rule cache_exact_subset[OF assms(1) rc.inv_del[OF c i]]) (use rc.del_entry[OF c i] in blast)
  with that show ?thesis by (simp add: AInvalidateToken)
next
  case (AInvalidateTenant t)
  obtain xs where xs: "represents c xs" "lru_ttlMs c = int n" using assms(1) by (auto simp: cache_exact_def lru_inv_def)
  let ?p = "Some (t @ '':'')"
  have r: "represents (invalidateTenant t c) (spec_clear ?p xs)" and l: "lru_ttlMs (invalidateTenant t c) = int n"
    using clear_represents[OF xs(1)] lru_limits(2)[of "CClear ?p" c] xs(2) by (simp_all add: invalidateTenant_def)
  have "map_of (filter P xs) j = Some x \<Longrightarrow> map_of xs j = Some x" for P j x
    using xs(1) by (auto simp: represents_def distinct_map_filter dest!: map_of_SomeD)
  then have "cache_exact n tbl (invalidateTenant t c)"
    using r l represents_entry[OF r] represents_entry[OF xs(1)]
    by (intro cache_exact_subset[OF assms(1)]) (auto simp: lru_inv_def spec_clear_def)
  with that show ?thesis by (simp add: AInvalidateTenant)
qed

text \<open>
  Remark (equivalence). The cache is invisible to serial callers: any sequence of revocations, checks and
  invalidations through the API, at any instants, gives the answers and the table that the same calls
  give on the table alone. Tenant ids have no colon.
\<close>

theorem cached_checks_exact:
  assumes "new_revocation_cache maxs (Some (int n)) = Inr c" "list_all call_colon_free calls"
  shows "fst (run_calls (api_exec fu) calls (tbl, c)) = fst (run_calls (direct_exec fu) calls tbl) \<and>
    fst (snd (run_calls (api_exec fu) calls (tbl, c))) = snd (run_calls (direct_exec fu) calls tbl)"
proof -
  have "cache_exact n tbl c"
    using assms(1) by (auto simp: new_revocation_cache_def new_lru_def cache_exact_def lru_inv_def represents_def lru_entry_def jm_wf_def jm_keys_def jm_get_def
        split: if_splits intro!: exI[of _ "[]"])
  then show ?thesis
    using assms(2)
  proof (induction calls arbitrary: tbl c)
    case (Cons q qs)
    obtain c' where "api_exec fu q (tbl, c) = (fst (direct_exec fu q tbl), snd (direct_exec fu q tbl), c')" "cache_exact n (snd (direct_exec fu q tbl)) c'"
      by (rule cache_exact_exec[of n tbl c q fu]) (use Cons.prems in simp_all)
    with Cons.IH[of "snd (direct_exec fu q tbl)" c'] Cons.prems(2) show ?case
      by (simp add: case_prod_beta)
  qed simp
qed

definition demo_revoke :: "string \<Rightarrow> string \<Rightarrow> revoke_input" where
  "demo_revoke tenant tok = \<lparr>ri_tenantId = tenant, ri_tokenId = tok, ri_revokedBy = ''did:key:p'', ri_reason = None, ri_listId = ''l1'', ri_payload = None\<rparr>"

definition demo_cache :: "bool lru_cache" where
  "demo_cache = \<lparr>lru_maxSize = 10000, lru_ttlMs = 30000, lru_store = [], lru_head = None, lru_tail = None\<rparr>"

lemma demo_cache_new: "new_revocation_cache None (Some (int 30000)) = Inr demo_cache"
  by (simp add: new_revocation_cache_def new_lru_def demo_cache_def)

theorem cached_checks_exact_witness:
  "fst (run_calls (api_exec True) [ACheck 0 (''t'', ''k''), ARevoke ''u1'' 1 (demo_revoke ''t'' ''k''), ACheck 2 (''t'', ''k'')] ([], demo_cache)) =
   [Some False, None, Some True]"
proof -
  have "list_all call_colon_free [ACheck 0 (''t'', ''k''), ARevoke ''u1'' 1 (demo_revoke ''t'' ''k''), ACheck 2 (''t'', ''k'')]"
    "fst (run_calls (direct_exec True) [ACheck 0 (''t'', ''k''), ARevoke ''u1'' 1 (demo_revoke ''t'' ''k''), ACheck 2 (''t'', ''k'')] []) = [Some False, None, Some True]"
    by code_simp+
  with cached_checks_exact[OF demo_cache_new] show ?thesis by metis
qed

theorem revocation_takes_effect_witness:
  "fst (api_isRevoked 30001 [\<lparr>rv_id = ''u1'', rv_tenantId = ''t'', rv_tokenId = ''k'', rv_revokedBy = ''did:key:p'', rv_revokedAt = 0,
     rv_reason = ''UNSPECIFIED'', rv_listId = ''l1'', rv_listVersion = 1, rv_payload = None\<rparr>] (''t'', ''k'') (rc_set 0 (''t'', ''k'') False demo_cache))"
proof -
  let ?i = "(''t'', ''k'')"
  let ?reach = "check_reach rc_get rc_set invalidateToken colon_free 0 demo_cache"
  have g: "colon_free ?i" "rc_get 0 ?i demo_cache = (None, demo_cache)" by code_simp+
  have "?reach \<lparr>cw_revoked = [], cw_cache = demo_cache, cw_clock = 0, cw_reads = [], cw_answers = []\<rparr>"
    by (rule check_reach.start)
  from check_reach.miss[OF this g(1)] g(2)
  have "?reach \<lparr>cw_revoked = [], cw_cache = demo_cache, cw_clock = 0, cw_reads = [(?i, False, 0)], cw_answers = []\<rparr>" by simp
  from check_reach.revoke[OF this g(1)]
  have "?reach \<lparr>cw_revoked = [(?i, 0)], cw_cache = demo_cache, cw_clock = 0, cw_reads = [(?i, False, 0)], cw_answers = []\<rparr>" by simp
  from check_reach.fill[OF this, of "[]" ?i False 0 "[]"]
  have "?reach \<lparr>cw_revoked = [(?i, 0)], cw_cache = rc_set 0 ?i False demo_cache, cw_clock = 0, cw_reads = [], cw_answers = [(?i, False, 0)]\<rparr>" by simp
  from check_reach.tick[OF this, of 30001]
  have w: "?reach \<lparr>cw_revoked = [(?i, 0)], cw_cache = rc_set 0 ?i False demo_cache, cw_clock = 30001, cw_reads = [], cw_answers = [(?i, False, 0)]\<rparr>" by simp
  show ?thesis
    using revocation_takes_effect[OF demo_cache_new w, of "[\<lparr>rv_id = ''u1'', rv_tenantId = ''t'', rv_tokenId = ''k'', rv_revokedBy = ''did:key:p'', rv_revokedAt = 0,
       rv_reason = ''UNSPECIFIED'', rv_listId = ''l1'', rv_listVersion = 1, rv_payload = None\<rparr>]" ?i 0] g(1)
    by (simp add: table_view_def)
qed

theorem identity_revocation_takes_effect_witness:
  "fst (rl_isRevoked 60000 60001 [\<lparr>ir_tokenId = ''k'', ir_revokedBy = ''did:key:p'', ir_revokedAt = 0, ir_reason = None\<rparr>] ''k'' [])"
proof -
  let ?reach = "check_reach getCachedRevocation (setCachedRevocation (int 60000)) (\<lambda>tok c. jm_delete c tok) (\<lambda>tok. True) 0 []"
  have "?reach \<lparr>cw_revoked = [], cw_cache = [], cw_clock = 0, cw_reads = [], cw_answers = []\<rparr>"
    by (rule check_reach.start)
  from check_reach.revoke[OF this, of "''k''"]
  have "?reach \<lparr>cw_revoked = [(''k'', 0)], cw_cache = [], cw_clock = 0, cw_reads = [], cw_answers = []\<rparr>" by simp
  from check_reach.tick[OF this, of 60001]
  have w: "?reach \<lparr>cw_revoked = [(''k'', 0)], cw_cache = [], cw_clock = 60001, cw_reads = [], cw_answers = []\<rparr>" by simp
  show ?thesis
    using identity_revocation_takes_effect[OF w, of "[\<lparr>ir_tokenId = ''k'', ir_revokedBy = ''did:key:p'', ir_revokedAt = 0, ir_reason = None\<rparr>]" "''k''" 0]
    by simp
qed

text \<open>
  Remark (error). The cache key joins tenant and token with a colon, so different references can share an
  entry: after a check of tenant \<open>a\<close> for the token \<open>b:c\<close>, the revoked token \<open>c\<close> of tenant \<open>a:b\<close>
  passes as not revoked.
\<close>

theorem cache_key_collision:
  "fst (run_calls (api_exec True) [ARevoke ''u1'' 0 (demo_revoke ''a:b'' ''c''), ACheck 40000 (''a'', ''b:c''), ACheck 40001 (''a:b'', ''c'')] ([], demo_cache)) =
     [None, Some False, Some False] \<and>
   fst (run_calls (direct_exec True) [ARevoke ''u1'' 0 (demo_revoke ''a:b'' ''c''), ACheck 40000 (''a'', ''b:c''), ACheck 40001 (''a:b'', ''c'')] []) =
     [None, Some False, Some True]"
  by code_simp

subsection \<open>List versions\<close>

definition versions_ok :: "revocation_row list \<Rightarrow> bool" where
  "versions_ok tbl =
     ((\<forall>t l. map rv_listVersion (list_rows t l tbl) = map int [1..<length (list_rows t l tbl) + 1]) \<and>
      distinct (map (\<lambda>r. (rv_tenantId r, rv_tokenId r)) tbl))"

lemma fold_max_upt: "fold max (map int [1..<n + 1]) 0 = int n"
  by (induction n) auto

lemma versions_ok_snoc:
  assumes "versions_ok tbl" "rv_listVersion row = getNextListVersion (rv_tenantId row) (rv_listId row) tbl"
    "\<not> store_isRevoked (rv_tenantId row) (rv_tokenId row) tbl"
  shows "versions_ok (tbl @ [row])"
proof -
  have "rv_listVersion row = int (length (list_rows (rv_tenantId row) (rv_listId row) tbl)) + 1"
    using assms(1,2) fold_max_upt by (simp add: getNextListVersion_def versions_ok_def del: upt_Suc)
  then have "map rv_listVersion (list_rows t l (tbl @ [row])) = map int [1..<length (list_rows t l (tbl @ [row])) + 1]" for t l
    using assms(1) by (auto simp: versions_ok_def list_rows_def)
  moreover have "(rv_tenantId row, rv_tokenId row) \<notin> (\<lambda>r. (rv_tenantId r, rv_tokenId r)) ` set tbl"
    using assms(3) by (auto simp: store_isRevoked_def list_ex_iff)
  ultimately show ?thesis
    using assms(1) by (simp add: versions_ok_def)
qed

text \<open>
  Remark (invariant). Whatever revocations are requested, valid or not, the versions of each list are 1, 2,
  3 and so on in the order of writing, a token is revoked at most once per tenant, no row is ever lost,
  and a success means that the token is revoked from then on.
\<close>

theorem list_versions_count:
  assumes "versions_ok tbl"
  shows "versions_ok (snd (run_calls (\<lambda>(uuid, now, inp). store_revoke fu uuid now inp) calls tbl)) \<and>
    (\<exists>new. snd (run_calls (\<lambda>(uuid, now, inp). store_revoke fu uuid now inp) calls tbl) = tbl @ new) \<and>
    (fst (store_revoke fu uuid now inp tbl) = Revoked r \<longrightarrow> store_isRevoked (ri_tenantId inp) (ri_tokenId inp) (snd (store_revoke fu uuid now inp tbl)))"
proof -
  have "versions_ok (snd (run_calls (\<lambda>(uuid, now, inp). store_revoke fu uuid now inp) calls tbl)) \<and>
    (\<exists>new. snd (run_calls (\<lambda>(uuid, now, inp). store_revoke fu uuid now inp) calls tbl) = tbl @ new)"
    using assms
  proof (induction calls arbitrary: tbl)
    case (Cons q qs)
    obtain u n i where q: "q = (u, n, i)" by (cases q)
    obtain res tbl' where st: "store_revoke fu u n i tbl = (res, tbl')" by (cases "store_revoke fu u n i tbl")
    have "versions_ok tbl' \<and> (\<exists>new. tbl' = tbl @ new)"
      using store_revoke_table[OF st] Cons.prems versions_ok_snoc by force
    with Cons.IH[of tbl'] show ?case by (auto simp: q st case_prod_beta)
  qed simp
  moreover have "store_isRevoked (ri_tenantId inp) (ri_tokenId inp) (snd (store_revoke fu uuid now inp tbl))"
    if "fst (store_revoke fu uuid now inp tbl) = Revoked r"
    using store_revoke_table[of fu uuid now inp tbl "Revoked r" "snd (store_revoke fu uuid now inp tbl)"] that
    by (auto simp: prod_eq_iff store_isRevoked_def)
  ultimately show ?thesis by blast
qed

theorem list_versions_count_witness:
  "map rv_listVersion (snd (run_calls (\<lambda>(uuid, now, inp). store_revoke True uuid now inp)
     [(''u1'', 0, demo_revoke ''t'' ''a''), (''u2'', 1, demo_revoke ''t'' ''a''), (''u3'', 2, demo_revoke ''t'' ''b'')] [])) = [1, 2]"
proof -
  let ?tbl = "snd (run_calls (\<lambda>(uuid, now, inp). store_revoke True uuid now inp)
     [(''u1'', 0, demo_revoke ''t'' ''a''), (''u2'', 1, demo_revoke ''t'' ''a''), (''u3'', 2, demo_revoke ''t'' ''b'')] [])"
  have "versions_ok []" by (simp add: versions_ok_def list_rows_def)
  then have "versions_ok ?tbl" using list_versions_count by blast
  then have "map rv_listVersion (list_rows ''t'' ''l1'' ?tbl) = map int [1..<length (list_rows ''t'' ''l1'' ?tbl) + 1]"
    by (simp add: versions_ok_def del: run_calls.simps)
  moreover have "list_rows ''t'' ''l1'' ?tbl = ?tbl" "length ?tbl = 2" by code_simp+
  moreover have "map int [1..<2 + 1] = [1, 2]" by code_simp
  ultimately show ?thesis by (simp del: run_calls.simps upt_Suc)
qed

text \<open>
  Remark (error). \<open>FOR UPDATE\<close> is not allowed with aggregate functions in PostgreSQL. When the database
  refuses the version query, no revocation ever succeeds.
\<close>

theorem for_update_blocks_revocation:
  "\<exists>e. store_revoke False uuid now inp tbl = (RevokeFailed e, tbl)"
  by (simp add: store_revoke_def revokeWithClient_def Let_def)

text \<open>
  Remark (error). A row whose payload does not validate is committed, and the caller is told that the
  store failed.
\<close>

theorem failed_revocation_committed:
  "fst (store_revoke True ''u1'' 0 ((demo_revoke ''t'' ''k'')\<lparr>ri_payload := Some (JObj [])\<rparr>) []) = RevokeFailed REVOCATION_STORE_ERROR \<and>
   store_isRevoked ''t'' ''k'' (snd (store_revoke True ''u1'' 0 ((demo_revoke ''t'' ''k'')\<lparr>ri_payload := Some (JObj [])\<rparr>) []))"
  by code_simp

end
