(* ===== verification/Envelope_Ledger.thy ===== *)
theory Envelope_Ledger
  imports Prelude
begin

text \<open>
  \<open>policy/src/envelope-ledger\<close>: the ledger that lets one worker at a time process an envelope. A row is
  claimed with a lease, then committed, rejected, or given up when the lease runs out.

  The table is a list of rows in the order of the serial id. The three partial unique indexes of the
  table are checks of the updates; a violated one is an exception, and a transaction that ends with an
  exception leaves the table as it was. \<open>clock_timestamp()\<close> is read anew by each statement: the instants
  of a call's statements are its arguments, in milliseconds. Row locks make the transactions on an
  existing row serial. They do not cover a row that is not there yet: a claim that has found no row may
  see other transactions before its insertion, and is therefore also split into two steps.
\<close>

subsection \<open>Rows\<close>

datatype claim_status = EL_PENDING | EL_COMMITTED | EL_REJECTED | EL_EXPIRED

record envelope_row =
  el_id :: nat
  el_envelopeId :: string
  el_status :: claim_status
  el_ttlSeconds :: int
  el_claimerId :: "string option"
  el_claimedAt :: int
  el_finalizedAt :: "int option"
  el_resultSummary :: "js_object option"

record envelope_table =
  el_rows :: "envelope_row list"
  el_next :: nat

definition terminal_row :: "envelope_row \<Rightarrow> bool" where
  "terminal_row r = (el_status r = EL_COMMITTED \<or> el_status r = EL_REJECTED)"

text \<open>\<open>claimed_at + ttl_seconds * interval '1 second' >= clock_timestamp()\<close>.\<close>

definition lease_valid :: "int \<Rightarrow> envelope_row \<Rightarrow> bool" where
  "lease_valid t r = (t \<le> el_claimedAt r + el_ttlSeconds r * 1000)"

definition owner_ok :: "string option \<Rightarrow> envelope_row \<Rightarrow> bool" where
  "owner_ok claimer r = (case claimer of None \<Rightarrow> True | Some c \<Rightarrow> el_claimerId r = None \<or> el_claimerId r = Some c)"

definition has_status :: "string \<Rightarrow> claim_status \<Rightarrow> envelope_table \<Rightarrow> bool" where
  "has_status e s tbl = list_ex (\<lambda>r. el_envelopeId r = e \<and> el_status r = s) (el_rows tbl)"

definition update_rows :: "(envelope_row \<Rightarrow> bool) \<Rightarrow> (envelope_row \<Rightarrow> envelope_row) \<Rightarrow> envelope_table \<Rightarrow> envelope_table" where
  "update_rows p f tbl = tbl\<lparr>el_rows := map (\<lambda>r. if p r then f r else r) (el_rows tbl)\<rparr>"

subsection \<open>Claiming\<close>

datatype claim_result = Claimed nat | ClaimAlreadyPending | ClaimAlreadyTerminal | ClaimError

definition claim_check :: "string \<Rightarrow> envelope_table \<Rightarrow> claim_result option" where
  "claim_check e tbl =
     (case find (\<lambda>r. el_envelopeId r = e \<and> el_status r \<noteq> EL_EXPIRED) (el_rows tbl) of
        None \<Rightarrow> None
      | Some r \<Rightarrow> Some (if terminal_row r then ClaimAlreadyTerminal else ClaimAlreadyPending))"

definition claim_insert :: "string \<Rightarrow> int \<Rightarrow> string option \<Rightarrow> int \<Rightarrow> envelope_table \<Rightarrow> claim_result \<times> envelope_table" where
  "claim_insert e ttl claimer now tbl =
     (let burned = tbl\<lparr>el_next := el_next tbl + 1\<rparr>
      in if ttl \<le> 0 then (ClaimError, burned)
         else if has_status e EL_PENDING tbl then (ClaimAlreadyPending, burned)
         else (Claimed (el_next tbl),
               burned\<lparr>el_rows := el_rows tbl @ [\<lparr>el_id = el_next tbl, el_envelopeId = e, el_status = EL_PENDING, el_ttlSeconds = ttl,
                 el_claimerId = claimer, el_claimedAt = now, el_finalizedAt = None, el_resultSummary = None\<rparr>]\<rparr>))"

definition DEFAULT_TTL_SECONDS :: int where
  "DEFAULT_TTL_SECONDS = 30"

definition el_claim :: "string \<Rightarrow> int option \<Rightarrow> string option \<Rightarrow> int \<Rightarrow> envelope_table \<Rightarrow> claim_result \<times> envelope_table" where
  "el_claim e ttl claimer now tbl =
     (case claim_check e tbl of
        Some conflict \<Rightarrow> (conflict, tbl)
      | None \<Rightarrow> claim_insert e (case ttl of None \<Rightarrow> DEFAULT_TTL_SECONDS | Some n \<Rightarrow> n) claimer now tbl)"

subsection \<open>Settling\<close>

datatype settle_result = Settled int | SettleNotFound | SettleAlreadyFinal | SettleLeaseExpired | SettleError

text \<open>\<open>t1\<close> is the instant of the SELECT, \<open>t2\<close> of the UPDATE that follows it.\<close>

definition el_finalize ::
  "string \<Rightarrow> js_object option \<Rightarrow> string option \<Rightarrow> int \<Rightarrow> int \<Rightarrow> envelope_table \<Rightarrow> settle_result \<times> envelope_table" where
  "el_finalize e summary claimer t1 t2 tbl =
     (let live = (\<lambda>t r. el_envelopeId r = e \<and> el_status r = EL_PENDING \<and> lease_valid t r \<and> owner_ok claimer r);
          stale = (\<lambda>r. el_envelopeId r = e \<and> el_status r = EL_PENDING \<and> \<not> lease_valid t2 r)
      in if \<not> list_ex (live t1) (el_rows tbl)
         then (if list_ex stale (el_rows tbl)
               then (SettleLeaseExpired, update_rows stale (\<lambda>r. r\<lparr>el_status := EL_EXPIRED, el_finalizedAt := Some t2\<rparr>) tbl)
               else if has_status e EL_COMMITTED tbl \<or> has_status e EL_REJECTED tbl then (SettleAlreadyFinal, tbl)
               else (SettleNotFound, tbl))
         else if \<not> list_ex (live t2) (el_rows tbl) \<or> has_status e EL_COMMITTED tbl then (SettleError, tbl)
         else (Settled t2,
               update_rows (live t2) (\<lambda>r. r\<lparr>el_status := EL_COMMITTED, el_finalizedAt := Some t2, el_resultSummary := summary\<rparr>) tbl))"

definition el_reject :: "string \<Rightarrow> string option \<Rightarrow> int \<Rightarrow> envelope_table \<Rightarrow> settle_result \<times> envelope_table" where
  "el_reject e claimer t tbl =
     (let live = (\<lambda>r. el_envelopeId r = e \<and> el_status r = EL_PENDING \<and> owner_ok claimer r)
      in if \<not> list_ex live (el_rows tbl)
         then (if has_status e EL_COMMITTED tbl \<or> has_status e EL_REJECTED tbl then (SettleAlreadyFinal, tbl) else (SettleNotFound, tbl))
         else if has_status e EL_REJECTED tbl then (SettleError, tbl)
         else (Settled t, update_rows live (\<lambda>r. r\<lparr>el_status := EL_REJECTED, el_finalizedAt := Some t\<rparr>) tbl))"

text \<open>\<open>SKIP LOCKED\<close>: rows that other transactions hold are passed over.\<close>

definition expireStalePending :: "nat \<Rightarrow> (envelope_row \<Rightarrow> bool) \<Rightarrow> int \<Rightarrow> envelope_table \<Rightarrow> nat \<times> envelope_table" where
  "expireStalePending limit locked t tbl =
     (let to_expire = take limit (sort_key el_claimedAt (filter (\<lambda>r. el_status r = EL_PENDING \<and> \<not> lease_valid t r \<and> \<not> locked r) (el_rows tbl)))
      in (length to_expire,
          update_rows (\<lambda>r. el_id r \<in> el_id ` set to_expire) (\<lambda>r. r\<lparr>el_status := EL_EXPIRED, el_finalizedAt := Some t\<rparr>) tbl))"

definition getLatestRow :: "string \<Rightarrow> envelope_table \<Rightarrow> envelope_row option" where
  "getLatestRow e tbl = (case rev (filter (\<lambda>r. el_envelopeId r = e) (el_rows tbl)) of [] \<Rightarrow> None | r # _ \<Rightarrow> Some r)"

definition getEntry :: "string \<Rightarrow> envelope_table \<Rightarrow> envelope_row option" where
  "getEntry e tbl = (case rev (filter (\<lambda>r. el_envelopeId r = e \<and> el_status r \<noteq> EL_EXPIRED) (el_rows tbl)) of [] \<Rightarrow> None | r # _ \<Rightarrow> Some r)"

subsection \<open>Steps\<close>

text \<open>
  The state is the table and the claims that have found no row and have not yet inserted. A granted
  claim of the split form is an insertion.
\<close>

record ledger_state =
  ls_table :: envelope_table
  ls_claims :: "string list"

inductive el_step :: "ledger_state \<Rightarrow> ledger_state \<Rightarrow> bool" where
  claim_begin: "claim_check e (ls_table s) = None \<Longrightarrow> el_step s (s\<lparr>ls_claims := e # ls_claims s\<rparr>)"
| claim_end: "ls_claims s = xs @ e # ys \<Longrightarrow> el_step s \<lparr>ls_table = snd (claim_insert e ttl claimer now (ls_table s)), ls_claims = xs @ ys\<rparr>"
| claim: "el_step s (s\<lparr>ls_table := snd (el_claim e ttl' claimer now (ls_table s))\<rparr>)"
| finalize: "el_step s (s\<lparr>ls_table := snd (el_finalize e summary claimer t1 t2 (ls_table s))\<rparr>)"
| reject: "el_step s (s\<lparr>ls_table := snd (el_reject e claimer t (ls_table s))\<rparr>)"
| expire: "el_step s (s\<lparr>ls_table := snd (expireStalePending limit locked t (ls_table s))\<rparr>)"

inductive_simps el_step_simps: "el_step s s'"

subsection \<open>The indexes hold\<close>

abbreviation rows_with :: "string \<Rightarrow> claim_status \<Rightarrow> envelope_table \<Rightarrow> envelope_row list" where
  "rows_with e st tbl \<equiv> filter (\<lambda>r. el_envelopeId r = e \<and> el_status r = st) (el_rows tbl)"

definition index_ok :: "envelope_table \<Rightarrow> bool" where
  "index_ok tbl =
     (distinct (map el_id (el_rows tbl)) \<and> list_all (\<lambda>r. el_id r < el_next tbl) (el_rows tbl) \<and>
      (\<forall>e st. st \<noteq> EL_EXPIRED \<longrightarrow> length (rows_with e st tbl) \<le> 1))"

text \<open>What may happen to a row: only a pending one changes, and only in its status and its outcome.\<close>

definition row_moves :: "envelope_row \<Rightarrow> envelope_row \<Rightarrow> bool" where
  "row_moves r r' =
     ((el_status r \<noteq> EL_PENDING \<longrightarrow> r' = r) \<and> el_id r' = el_id r \<and> el_envelopeId r' = el_envelopeId r \<and>
      el_ttlSeconds r' = el_ttlSeconds r \<and> el_claimerId r' = el_claimerId r \<and> el_claimedAt r' = el_claimedAt r \<and>
      (el_status r' = EL_COMMITTED \<longrightarrow> r' = r \<or> (\<exists>t. el_finalizedAt r' = Some t \<and> lease_valid t r')))"

lemma row_moves_refl [simp]: "row_moves r r"
  by (simp add: row_moves_def)

lemma length_filter_map_le: "(\<And>r. r \<in> set xs \<Longrightarrow> P (g r) \<Longrightarrow> Q r) \<Longrightarrow> length (filter P (map g xs)) \<le> length (filter Q xs)"
  by (induction xs) (auto intro: le_SucI)

lemma has_status_rows: "has_status e st tbl \<longleftrightarrow> rows_with e st tbl \<noteq> []"
  by (auto simp: has_status_def list_ex_iff filter_empty_conv)

text \<open>An update of pending rows to one new status keeps the indexes, if that status is not taken.\<close>

lemma update_index_ok:
  assumes ok: "index_ok tbl"
    and p: "\<And>r. p r \<Longrightarrow> el_status r = EL_PENDING"
    and f: "\<And>r. el_id (f r) = el_id r" "\<And>r. el_envelopeId (f r) = el_envelopeId r" "\<And>r. el_status (f r) = st" "st \<noteq> EL_PENDING"
    and free: "\<And>r. r \<in> set (el_rows tbl) \<Longrightarrow> p r \<Longrightarrow> st \<noteq> EL_EXPIRED \<Longrightarrow> \<not> has_status (el_envelopeId r) st tbl"
  shows "index_ok (update_rows p f tbl)"
proof -
  let ?g = "\<lambda>r. if p r then f r else r"
  have ids: "map el_id (map ?g rs) = map el_id rs" for rs
    using f(1) by (auto simp: comp_def)
  have ids': "list_all (\<lambda>r. el_id r < n) (map ?g rs) = list_all (\<lambda>r. el_id r < n) rs" for rs n
    by (induction rs) (simp_all add: f(1))
  have "length (rows_with e s (update_rows p f tbl)) \<le> 1" if "s \<noteq> EL_EXPIRED" for e s
  proof (cases "s = st \<and> (\<exists>r \<in> set (el_rows tbl). p r \<and> el_envelopeId r = e)")
    case True
    then have none: "rows_with e s tbl = []"
      using free that by (metis has_status_rows)
    have "length (filter (\<lambda>r. el_envelopeId r = e \<and> el_status r = s) (map ?g (el_rows tbl))) \<le> length (rows_with e EL_PENDING tbl)"
      by (rule length_filter_map_le) (use none p f in \<open>auto simp: filter_empty_conv split: if_splits\<close>)
    also have "\<dots> \<le> 1" using ok by (simp add: index_ok_def)
    finally show ?thesis by (simp add: update_rows_def)
  next
    case False
    have "length (filter (\<lambda>r. el_envelopeId r = e \<and> el_status r = s) (map ?g (el_rows tbl))) \<le> length (rows_with e s tbl)"
      by (rule length_filter_map_le) (use False f in \<open>auto split: if_splits\<close>)
    also have "\<dots> \<le> 1" using ok that by (simp add: index_ok_def)
    finally show ?thesis by (simp add: update_rows_def)
  qed
  moreover have "distinct (map el_id (map ?g (el_rows tbl)))" "list_all (\<lambda>r. el_id r < el_next tbl) (map ?g (el_rows tbl))"
    unfolding ids ids' using ok by (simp_all add: index_ok_def)
  moreover have "el_rows (update_rows p f tbl) = map ?g (el_rows tbl)" "el_next (update_rows p f tbl) = el_next tbl"
    by (simp_all add: update_rows_def)
  ultimately show ?thesis unfolding index_ok_def by metis
qed

lemma insert_index_ok: "index_ok tbl \<Longrightarrow> index_ok (snd (claim_insert e ttl claimer now tbl))"
proof -
  assume ok: "index_ok tbl"
  have "list_all (\<lambda>r. el_id r < Suc (el_next tbl)) (el_rows tbl)" "el_next tbl \<notin> el_id ` set (el_rows tbl)"
    using ok by (auto simp: index_ok_def list_all_iff)
  with ok show ?thesis
    by (auto simp: claim_insert_def Let_def index_ok_def has_status_rows)
qed

text \<open>A new table continues an old one: every old row is still there or has moved, new rows come after.\<close>

definition continues :: "envelope_table \<Rightarrow> envelope_table \<Rightarrow> bool" where
  "continues tbl tbl' = (\<exists>new. length (el_rows tbl') = length (el_rows tbl) + length new \<and>
     list_all2 row_moves (el_rows tbl) (take (length (el_rows tbl)) (el_rows tbl')) \<and> drop (length (el_rows tbl)) (el_rows tbl') = new \<and>
     list_all (\<lambda>r. el_status r = EL_PENDING) new)"

lemma continues_refl [simp]: "continues tbl tbl"
  by (simp add: continues_def list_all2_refl)

lemma continues_update:
  assumes "\<And>r. p r \<Longrightarrow> row_moves r (f r)"
  shows "continues tbl (update_rows p f tbl)"
  using assms by (auto simp: continues_def update_rows_def list_all2_conv_all_nth)

lemma continues_insert [simp]: "continues tbl (snd (claim_insert e ttl claimer now tbl))"
  by (auto simp: continues_def claim_insert_def Let_def list_all2_refl)

lemma claim_cases: "snd (el_claim e ttl claimer now tbl) = tbl \<or> (\<exists>n. snd (el_claim e ttl claimer now tbl) = snd (claim_insert e n claimer now tbl))"
  by (auto simp: el_claim_def split: option.splits)

lemma finalize_step:
  assumes "index_ok tbl"
  shows "index_ok (snd (el_finalize e summary claimer t1 t2 tbl)) \<and> continues tbl (snd (el_finalize e summary claimer t1 t2 tbl))"
  using assms unfolding el_finalize_def Let_def
  by (auto intro!: update_index_ok continues_update simp: row_moves_def lease_valid_def)

lemma reject_step:
  assumes "index_ok tbl"
  shows "index_ok (snd (el_reject e claimer t tbl)) \<and> continues tbl (snd (el_reject e claimer t tbl))"
  using assms unfolding el_reject_def Let_def
  by (auto intro!: update_index_ok continues_update simp: row_moves_def)

lemma expire_pending:
  assumes "index_ok tbl" "r \<in> set (el_rows tbl)"
    and "el_id r \<in> el_id ` set (take limit (sort_key el_claimedAt (filter (\<lambda>r. el_status r = EL_PENDING \<and> \<not> lease_valid t r \<and> \<not> locked r) (el_rows tbl))))"
  shows "el_status r = EL_PENDING"
proof -
  obtain q where q: "q \<in> set (el_rows tbl)" "el_status q = EL_PENDING" "el_id q = el_id r"
    using assms(3) by (force dest: in_set_takeD)
  then have "q = r"
    using assms(1,2) by (auto simp: index_ok_def distinct_map inj_on_def)
  with q show ?thesis by simp
qed

lemma update_rows_cong: "(\<And>r. r \<in> set (el_rows tbl) \<Longrightarrow> p r = q r) \<Longrightarrow> update_rows p f tbl = update_rows q f tbl"
  by (simp add: update_rows_def)

lemma expire_step:
  assumes "index_ok tbl"
  shows "index_ok (snd (expireStalePending limit locked t tbl)) \<and> continues tbl (snd (expireStalePending limit locked t tbl))"
proof -
  let ?ids = "el_id ` set (take limit (sort_key el_claimedAt (filter (\<lambda>r. el_status r = EL_PENDING \<and> \<not> lease_valid t r \<and> \<not> locked r) (el_rows tbl))))"
  let ?p = "\<lambda>r. el_status r = EL_PENDING \<and> el_id r \<in> ?ids"
  have "snd (expireStalePending limit locked t tbl) = update_rows ?p (\<lambda>r. r\<lparr>el_status := EL_EXPIRED, el_finalizedAt := Some t\<rparr>) tbl"
    unfolding expireStalePending_def Let_def snd_conv by (rule update_rows_cong) (use expire_pending[OF assms] in blast)
  then show ?thesis
    using assms by (auto intro!: update_index_ok continues_update simp: row_moves_def)
qed

lemma step_keeps:
  assumes "el_step s s'" "index_ok (ls_table s)"
  shows "index_ok (ls_table s') \<and> continues (ls_table s) (ls_table s')"
  using assms
proof cases
  case (claim_end xs e ys ttl claimer now)
  with assms(2) show ?thesis by (simp add: insert_index_ok)
next
  case (claim e ttl' claimer now)
  with assms(2) claim_cases[of e ttl' claimer now "ls_table s"] show ?thesis by (auto simp: insert_index_ok)
qed (use assms(2) finalize_step reject_step expire_step in auto)

lemma continues_cases:
  assumes "continues tbl tbl'" "r' \<in> set (el_rows tbl')"
  obtains (moved) r where "r \<in> set (el_rows tbl)" "row_moves r r'" | (fresh) "el_status r' = EL_PENDING"
proof -
  let ?n = "length (el_rows tbl)"
  have "r' \<in> set (take ?n (el_rows tbl')) \<or> r' \<in> set (drop ?n (el_rows tbl'))"
    using assms(2) by (metis Un_iff append_take_drop_id set_append)
  then show ?thesis
  proof
    assume "r' \<in> set (take ?n (el_rows tbl'))"
    with assms(1) obtain r where "r \<in> set (el_rows tbl)" "row_moves r r'"
      unfolding continues_def by (metis in_set_conv_nth list_all2_conv_all_nth)
    then show ?thesis by (rule moved)
  next
    assume "r' \<in> set (drop ?n (el_rows tbl'))"
    with assms(1) have "el_status r' = EL_PENDING" by (auto simp: continues_def list_all_iff)
    then show ?thesis by (rule fresh)
  qed
qed

lemma continues_keeps:
  assumes "continues tbl tbl'" "r \<in> set (el_rows tbl)" "el_status r \<noteq> EL_PENDING"
  shows "r \<in> set (el_rows tbl')"
proof -
  from assms(1,2) obtain r' where "r' \<in> set (take (length (el_rows tbl)) (el_rows tbl'))" "row_moves r r'"
    unfolding continues_def by (metis in_set_conv_nth list_all2_conv_all_nth)
  with assms(3) show ?thesis by (auto simp: row_moves_def dest: in_set_takeD)
qed

definition empty_ledger :: ledger_state where
  "empty_ledger = \<lparr>ls_table = \<lparr>el_rows = [], el_next = 1\<rparr>, ls_claims = []\<rparr>"

definition committed_in_lease :: "envelope_table \<Rightarrow> bool" where
  "committed_in_lease tbl = (\<forall>r \<in> set (el_rows tbl). el_status r = EL_COMMITTED \<longrightarrow> (\<exists>t. el_finalizedAt r = Some t \<and> lease_valid t r))"

lemma step_committed:
  assumes "continues tbl tbl'" "committed_in_lease tbl"
  shows "committed_in_lease tbl'"
  unfolding committed_in_lease_def
proof (intro ballI impI)
  fix r' assume r': "r' \<in> set (el_rows tbl')" "el_status r' = EL_COMMITTED"
  show "\<exists>t. el_finalizedAt r' = Some t \<and> lease_valid t r'"
    using assms(1) r'(1)
  proof (cases rule: continues_cases)
    case (moved r)
    with r'(2) assms(2) show ?thesis by (auto simp: row_moves_def committed_in_lease_def)
  qed (use r'(2) in simp)
qed

lemma steps_keep:
  assumes "el_step\<^sup>*\<^sup>* s s'" "index_ok (ls_table s)"
  shows "index_ok (ls_table s') \<and> (committed_in_lease (ls_table s) \<longrightarrow> committed_in_lease (ls_table s')) \<and>
    (\<forall>r \<in> set (el_rows (ls_table s)). el_status r \<noteq> EL_PENDING \<longrightarrow> r \<in> set (el_rows (ls_table s')))"
  using assms
proof (induction rule: rtranclp_induct)
  case (step y z)
  then have y: "index_ok (ls_table y)" by blast
  note k = step_keeps[OF step.hyps(2) y]
  show ?case
    using k step.IH[OF step.prems] step_committed[OF k[THEN conjunct2]] continues_keeps[OF k[THEN conjunct2]] by blast
qed simp

subsection \<open>Properties\<close>

text \<open>
  C26 (safety). An envelope is settled once: however claims, settlements, rejections and sweeps of any
  workers interleave, the ledger has at most one pending, one committed and one rejected row of an
  envelope, a row that has left the pending state never changes or disappears, and a row was committed
  only while its lease was running.
\<close>

theorem envelope_settled_once:
  assumes "el_step\<^sup>*\<^sup>* empty_ledger s" "el_step\<^sup>*\<^sup>* s s'"
  shows "(\<forall>e st. st \<noteq> EL_EXPIRED \<longrightarrow> length (rows_with e st (ls_table s')) \<le> 1) \<and>
    (\<forall>r \<in> set (el_rows (ls_table s)). el_status r \<noteq> EL_PENDING \<longrightarrow> r \<in> set (el_rows (ls_table s'))) \<and>
    (\<forall>r \<in> set (el_rows (ls_table s')). el_status r = EL_COMMITTED \<longrightarrow> (\<exists>t. el_finalizedAt r = Some t \<and> lease_valid t r))"
proof -
  have "index_ok (ls_table empty_ledger)" "committed_in_lease (ls_table empty_ledger)"
    by (simp_all add: empty_ledger_def index_ok_def committed_in_lease_def)
  with steps_keep[OF assms(1)] have s: "index_ok (ls_table s)" "committed_in_lease (ls_table s)" by blast+
  from steps_keep[OF assms(2) s(1)] s(2) show ?thesis
    unfolding index_ok_def committed_in_lease_def by blast
qed

definition demo_summary :: "js_object" where
  "demo_summary = [(''ok'', JBool True)]"

lemma demo_committed:
  "el_step\<^sup>*\<^sup>* empty_ledger \<lparr>ls_table = snd (el_finalize ''e1'' (Some demo_summary) (Some ''w1'') 1000 1001 (snd (el_claim ''e1'' None (Some ''w1'') 0 (ls_table empty_ledger)))), ls_claims = []\<rparr>"
proof -
  have "el_step empty_ledger (empty_ledger\<lparr>ls_table := snd (el_claim ''e1'' None (Some ''w1'') 0 (ls_table empty_ledger))\<rparr>)"
    by (rule el_step.claim)
  moreover note el_step.finalize[of "empty_ledger\<lparr>ls_table := snd (el_claim ''e1'' None (Some ''w1'') 0 (ls_table empty_ledger))\<rparr>" "''e1''" "Some demo_summary" "Some ''w1''" 1000 1001]
  ultimately show ?thesis by (simp add: empty_ledger_def rtranclp.rtrancl_into_rtrancl)
qed

theorem envelope_settled_once_witness:
  "\<exists>s r. el_step\<^sup>*\<^sup>* empty_ledger s \<and> el_rows (ls_table s) = [r] \<and> el_status r = EL_COMMITTED \<and> (\<exists>t. el_finalizedAt r = Some t \<and> lease_valid t r)"
proof -
  let ?t = "snd (el_finalize ''e1'' (Some demo_summary) (Some ''w1'') 1000 1001 (snd (el_claim ''e1'' None (Some ''w1'') 0 (ls_table empty_ledger))))"
  have len: "length (el_rows ?t) = 1" "el_status (hd (el_rows ?t)) = EL_COMMITTED" by code_simp+
  then obtain r where r: "el_rows ?t = [r]" "el_status r = EL_COMMITTED" by (cases "el_rows ?t") auto
  from envelope_settled_once[OF demo_committed rtranclp.rtrancl_refl] r demo_committed show ?thesis
    by (intro exI[of _ "\<lparr>ls_table = ?t, ls_claims = []\<rparr>"] exI[of _ r]) auto
qed

subsection \<open>Whole claims\<close>

text \<open>When no transaction comes between the check and the insertion of a claim, an envelope has one active row.\<close>

definition serial_step :: "ledger_state \<Rightarrow> ledger_state \<Rightarrow> bool" where
  "serial_step s s' = (el_step s s' \<and> ls_claims s = [] \<and> ls_claims s' = [])"

abbreviation active_rows :: "string \<Rightarrow> envelope_table \<Rightarrow> envelope_row list" where
  "active_rows e tbl \<equiv> filter (\<lambda>r. el_envelopeId r = e \<and> el_status r \<noteq> EL_EXPIRED) (el_rows tbl)"

lemma claim_check_None: "claim_check e tbl = None \<longleftrightarrow> active_rows e tbl = []"
proof -
  have "claim_check e tbl = None \<longleftrightarrow> find (\<lambda>r. el_envelopeId r = e \<and> el_status r \<noteq> EL_EXPIRED) (el_rows tbl) = None"
    by (simp add: claim_check_def split: option.split)
  then show ?thesis unfolding find_None_iff filter_empty_conv by blast
qed

lemma update_active:
  assumes "\<And>r. r \<in> set (el_rows tbl) \<Longrightarrow> p r \<Longrightarrow> el_status r = EL_PENDING \<and> el_envelopeId (f r) = el_envelopeId r"
  shows "length (active_rows e (update_rows p f tbl)) \<le> length (active_rows e tbl)"
proof -
  have "length (filter (\<lambda>r. el_envelopeId r = e \<and> el_status r \<noteq> EL_EXPIRED) (map (\<lambda>r. if p r then f r else r) (el_rows tbl))) \<le> length (active_rows e tbl)"
  proof (rule length_filter_map_le)
    fix r assume "r \<in> set (el_rows tbl)" "el_envelopeId (if p r then f r else r) = e \<and> el_status (if p r then f r else r) \<noteq> EL_EXPIRED"
    with assms[of r] show "el_envelopeId r = e \<and> el_status r \<noteq> EL_EXPIRED" by (auto split: if_splits)
  qed
  then show ?thesis by (simp add: update_rows_def)
qed

lemma settle_active:
  "length (active_rows e' (snd (el_finalize e summary claimer t1 t2 tbl))) \<le> length (active_rows e' tbl)"
  "length (active_rows e' (snd (el_reject e claimer t tbl))) \<le> length (active_rows e' tbl)"
  "index_ok tbl \<Longrightarrow> length (active_rows e' (snd (expireStalePending limit locked t tbl))) \<le> length (active_rows e' tbl)"
proof -
  show "length (active_rows e' (snd (el_finalize e summary claimer t1 t2 tbl))) \<le> length (active_rows e' tbl)"
    unfolding el_finalize_def Let_def by (auto intro!: update_active)
  show "length (active_rows e' (snd (el_reject e claimer t tbl))) \<le> length (active_rows e' tbl)"
    unfolding el_reject_def Let_def by (auto intro!: update_active)
  show "length (active_rows e' (snd (expireStalePending limit locked t tbl))) \<le> length (active_rows e' tbl)" if "index_ok tbl"
    unfolding expireStalePending_def Let_def snd_conv
  proof (rule update_active)
    fix r assume "r \<in> set (el_rows tbl)"
      "el_id r \<in> el_id ` set (take limit (sort_key el_claimedAt (filter (\<lambda>r. el_status r = EL_PENDING \<and> \<not> lease_valid t r \<and> \<not> locked r) (el_rows tbl))))"
    from expire_pending[OF that this] show "el_status r = EL_PENDING \<and> el_envelopeId (r\<lparr>el_status := EL_EXPIRED, el_finalizedAt := Some t\<rparr>) = el_envelopeId r"
      by simp
  qed
qed

lemma claim_active:
  "length (active_rows e' tbl) \<le> 1 \<Longrightarrow> length (active_rows e' (snd (el_claim e ttl claimer now tbl))) \<le> 1"
  by (auto simp: el_claim_def claim_insert_def Let_def claim_check_None split: option.splits)

lemma serial_active:
  assumes "serial_step\<^sup>*\<^sup>* empty_ledger s"
  shows "index_ok (ls_table s) \<and> (\<forall>e. length (active_rows e (ls_table s)) \<le> 1)"
  using assms
proof (induction rule: rtranclp_induct)
  case base
  then show ?case by (simp add: empty_ledger_def index_ok_def)
next
  case (step y z)
  then have st: "el_step y z" "ls_claims y = []" "ls_claims z = []" and y: "index_ok (ls_table y)" "\<And>e. length (active_rows e (ls_table y)) \<le> 1"
    by (auto simp: serial_step_def)
  from st(1) have "length (active_rows e (ls_table z)) \<le> 1" for e
  proof cases
    case (claim_begin e')
    with st(3) show ?thesis by simp
  next
    case (claim_end xs e' ys ttl claimer now)
    with st(2) show ?thesis by simp
  next
    case (claim e' ttl' claimer now)
    with claim_active y(2) show ?thesis by simp
  next
    case (finalize e' summary claimer t1 t2)
    with le_trans[OF settle_active(1) y(2)] show ?thesis by simp
  next
    case (reject e' claimer t)
    with le_trans[OF settle_active(2) y(2)] show ?thesis by simp
  next
    case (expire limit locked t)
    with le_trans[OF settle_active(3)[OF y(1)] y(2)] show ?thesis by simp
  qed
  with step_keeps[OF st(1) y(1)] show ?case by blast
qed

lemma one_of:
  assumes "length (filter P xs) \<le> 1" "r \<in> set xs" "q \<in> set xs" "P r" "P q"
  shows "q = r"
proof -
  have "r \<in> set (filter P xs)" "q \<in> set (filter P xs)" using assms(2-5) by simp_all
  with assms(1) show ?thesis by (cases "filter P xs") auto
qed

text \<open>
  Remark (safety). With whole claims a settled envelope is closed for good: once it is committed or
  rejected, every claim answers that it is terminal and nobody settles it again.
\<close>

theorem settled_envelope_closed:
  assumes "serial_step\<^sup>*\<^sup>* empty_ledger s" and r: "r \<in> set (el_rows (ls_table s))" "terminal_row r"
  shows "fst (el_claim (el_envelopeId r) ttl claimer now (ls_table s)) = ClaimAlreadyTerminal \<and>
    fst (el_finalize (el_envelopeId r) summary claimer t1 t2 (ls_table s)) = SettleAlreadyFinal \<and>
    fst (el_reject (el_envelopeId r) claimer t (ls_table s)) = SettleAlreadyFinal"
proof -
  let ?e = "el_envelopeId r"
  have one: "length (active_rows ?e (ls_table s)) \<le> 1" using serial_active[OF assms(1)] by blast
  have only: "q = r" if "q \<in> set (el_rows (ls_table s))" "el_envelopeId q = ?e" "el_status q \<noteq> EL_EXPIRED" for q
    by (rule one_of[OF one r(1) that(1)]) (use that r(2) in \<open>auto simp: terminal_row_def\<close>)
  have none: "\<not> (el_envelopeId q = ?e \<and> el_status q = EL_PENDING)" if "q \<in> set (el_rows (ls_table s))" for q
    using only[OF that] r(2) by (auto simp: terminal_row_def)
  have fin: "has_status ?e EL_COMMITTED (ls_table s) \<or> has_status ?e EL_REJECTED (ls_table s)"
    using r by (auto simp: has_status_def list_ex_iff terminal_row_def)
  obtain q where q: "find (\<lambda>q. el_envelopeId q = ?e \<and> el_status q \<noteq> EL_EXPIRED) (el_rows (ls_table s)) = Some q"
    using r by (cases "find (\<lambda>q. el_envelopeId q = ?e \<and> el_status q \<noteq> EL_EXPIRED) (el_rows (ls_table s))") (auto simp: find_None_iff terminal_row_def)
  then have "q = r" using only by (auto simp: find_Some_iff)
  with q r(2) have "fst (el_claim ?e ttl claimer now (ls_table s)) = ClaimAlreadyTerminal"
    by (simp add: el_claim_def claim_check_def)
  moreover have "fst (el_finalize ?e summary claimer t1 t2 (ls_table s)) = SettleAlreadyFinal"
    "fst (el_reject ?e claimer t (ls_table s)) = SettleAlreadyFinal"
    using none fin by (auto simp: el_finalize_def el_reject_def Let_def list_ex_iff)
  ultimately show ?thesis by blast
qed

lemma serial_claim_finalize:
  "serial_step\<^sup>*\<^sup>* empty_ledger \<lparr>ls_table = snd (el_finalize e summary w t1 t2 (snd (el_claim e ttl w now (ls_table empty_ledger)))), ls_claims = []\<rparr>"
proof -
  let ?t = "snd (el_claim e ttl w now (ls_table empty_ledger))"
  let ?s = "\<lparr>ls_table = ?t, ls_claims = []\<rparr>"
  have "serial_step empty_ledger ?s"
    using el_step.claim[of empty_ledger e ttl w now] by (simp add: serial_step_def empty_ledger_def)
  moreover have "serial_step ?s \<lparr>ls_table = snd (el_finalize e summary w t1 t2 ?t), ls_claims = []\<rparr>"
    using el_step.finalize[of ?s e summary w t1 t2] by (simp add: serial_step_def)
  ultimately show ?thesis by (meson rtranclp.rtrancl_into_rtrancl rtranclp.rtrancl_refl)
qed

theorem settled_envelope_closed_witness:
  "fst (el_claim ''e1'' None (Some ''w2'') 2000
     (snd (el_finalize ''e1'' (Some demo_summary) (Some ''w1'') 1000 1001 (snd (el_claim ''e1'' None (Some ''w1'') 0 (ls_table empty_ledger)))))) = ClaimAlreadyTerminal"
proof -
  let ?t = "snd (el_finalize ''e1'' (Some demo_summary) (Some ''w1'') 1000 1001 (snd (el_claim ''e1'' None (Some ''w1'') 0 (ls_table empty_ledger))))"
  have "length (el_rows ?t) = 1" "terminal_row (hd (el_rows ?t))" "el_envelopeId (hd (el_rows ?t)) = ''e1''" by code_simp+
  then have "hd (el_rows ?t) \<in> set (el_rows ?t)" "terminal_row (hd (el_rows ?t))" "el_envelopeId (hd (el_rows ?t)) = ''e1''"
    by (cases "el_rows ?t", auto)+
  with settled_envelope_closed[OF serial_claim_finalize, of "hd (el_rows ?t)"] show ?thesis by simp
qed

text \<open>
  C38 (error). A claim that has found no row does not lock anything. When another worker claims and
  commits the envelope before the insertion, the insertion still succeeds: the committed envelope is
  claimed a second time, and can end both committed and rejected.
\<close>

theorem claim_race_reopens:
  "\<exists>s s'. el_step\<^sup>*\<^sup>* empty_ledger s \<and> has_status ''e1'' EL_COMMITTED (ls_table s) \<and> has_status ''e1'' EL_PENDING (ls_table s) \<and>
     el_step s s' \<and> has_status ''e1'' EL_COMMITTED (ls_table s') \<and> has_status ''e1'' EL_REJECTED (ls_table s')"
proof -
  let ?t1 = "snd (el_claim ''e1'' None (Some ''w2'') 0 (ls_table empty_ledger))"
  let ?t2 = "snd (el_finalize ''e1'' None (Some ''w2'') 1000 1001 ?t1)"
  let ?t3 = "snd (claim_insert ''e1'' 30 (Some ''w1'') 2000 ?t2)"
  let ?t4 = "snd (el_reject ''e1'' (Some ''w1'') 3000 ?t3)"
  have "claim_check ''e1'' (ls_table empty_ledger) = None" by code_simp
  from el_step.claim_begin[OF this] have 1: "el_step empty_ledger \<lparr>ls_table = ls_table empty_ledger, ls_claims = [''e1'']\<rparr>"
    by (simp add: empty_ledger_def)
  have 2: "el_step \<lparr>ls_table = ls_table empty_ledger, ls_claims = [''e1'']\<rparr> \<lparr>ls_table = ?t1, ls_claims = [''e1'']\<rparr>"
    using el_step.claim[of "\<lparr>ls_table = ls_table empty_ledger, ls_claims = [''e1'']\<rparr>" "''e1''" None "Some ''w2''" 0] by simp
  have 3: "el_step \<lparr>ls_table = ?t1, ls_claims = [''e1'']\<rparr> \<lparr>ls_table = ?t2, ls_claims = [''e1'']\<rparr>"
    using el_step.finalize[of "\<lparr>ls_table = ?t1, ls_claims = [''e1'']\<rparr>" "''e1''" None "Some ''w2''" 1000 1001] by simp
  have 4: "el_step \<lparr>ls_table = ?t2, ls_claims = [''e1'']\<rparr> \<lparr>ls_table = ?t3, ls_claims = []\<rparr>"
    using el_step.claim_end[of "\<lparr>ls_table = ?t2, ls_claims = [''e1'']\<rparr>" "[]" "''e1''" "[]" 30 "Some ''w1''" 2000] by simp
  from 1 2 3 4 have s: "el_step\<^sup>*\<^sup>* empty_ledger \<lparr>ls_table = ?t3, ls_claims = []\<rparr>"
    by (meson rtranclp.rtrancl_into_rtrancl rtranclp.rtrancl_refl)
  have s': "el_step \<lparr>ls_table = ?t3, ls_claims = []\<rparr> \<lparr>ls_table = ?t4, ls_claims = []\<rparr>"
    using el_step.reject[of "\<lparr>ls_table = ?t3, ls_claims = []\<rparr>" "''e1''" "Some ''w1''" 3000] by simp
  have "has_status ''e1'' EL_COMMITTED ?t3" "has_status ''e1'' EL_PENDING ?t3" "has_status ''e1'' EL_COMMITTED ?t4" "has_status ''e1'' EL_REJECTED ?t4"
    by code_simp+
  with s s' show ?thesis
    by (intro exI[of _ "\<lparr>ls_table = ?t3, ls_claims = []\<rparr>"] exI[of _ "\<lparr>ls_table = ?t4, ls_claims = []\<rparr>"]) simp
qed

subsection \<open>Leases run out\<close>

lemma claim_free:
  assumes "active_rows e tbl = []" "0 < ttl"
  shows "fst (el_claim e (Some ttl) claimer now tbl) = Claimed (el_next tbl)"
proof -
  have "claim_check e tbl = None" using assms(1) by (simp add: claim_check_None)
  moreover have "\<not> has_status e EL_PENDING tbl" using assms(1) by (auto simp: has_status_def list_ex_iff filter_empty_conv)
  ultimately show ?thesis using assms(2) by (simp add: el_claim_def claim_insert_def Let_def)
qed

text \<open>
  Remark (liveness). A crashed worker does not block an envelope: when the lease of its pending row has run
  out and it is not settled, a sweep over all stale rows, or the attempt of anybody to finalize it,
  frees the envelope, and the next claim with a positive lifetime gets it.
\<close>

theorem stale_lease_is_freed:
  assumes reach: "el_step\<^sup>*\<^sup>* empty_ledger s" and r: "r \<in> set (el_rows (ls_table s))" "el_status r = EL_PENDING" "\<not> lease_valid t r"
    and open_: "\<not> has_status (el_envelopeId r) EL_COMMITTED (ls_table s)" "\<not> has_status (el_envelopeId r) EL_REJECTED (ls_table s)"
    and ttl: "0 < ttl" and limit: "length (el_rows (ls_table s)) \<le> limit"
  shows "(\<exists>n. fst (el_claim (el_envelopeId r) (Some ttl) claimer now (snd (expireStalePending limit (\<lambda>_. False) t (ls_table s)))) = Claimed n) \<and>
    fst (el_finalize (el_envelopeId r) summary w t t (ls_table s)) = SettleLeaseExpired \<and>
    (\<exists>n. fst (el_claim (el_envelopeId r) (Some ttl) claimer now (snd (el_finalize (el_envelopeId r) summary w t t (ls_table s)))) = Claimed n)"
proof -
  let ?e = "el_envelopeId r" and ?tbl = "ls_table s"
  let ?f = "\<lambda>r. r\<lparr>el_status := EL_EXPIRED, el_finalizedAt := Some t\<rparr>"
  have ok: "index_ok ?tbl"
    using steps_keep[OF reach] by (simp add: empty_ledger_def index_ok_def)
  have only: "q = r" if "q \<in> set (el_rows ?tbl)" "el_envelopeId q = ?e" "el_status q \<noteq> EL_EXPIRED" for q
  proof -
    have "el_status q = EL_PENDING"
      using open_ that by (cases "el_status q") (auto simp: has_status_def list_ex_iff)
    moreover have "length (rows_with ?e EL_PENDING ?tbl) \<le> 1" using ok by (simp add: index_ok_def)
    ultimately show ?thesis using one_of[of _ "el_rows ?tbl" r q] r(1,2) that by blast
  qed
  have freed: "active_rows ?e (update_rows p ?f ?tbl) = []" if "p r" for p
    using only that by (auto simp: update_rows_def filter_empty_conv split: if_splits)
  have stale: "r \<in> set (take limit (sort_key el_claimedAt (filter (\<lambda>r. el_status r = EL_PENDING \<and> \<not> lease_valid t r \<and> \<not> False) (el_rows ?tbl))))"
  proof -
    have "length (filter P (el_rows ?tbl)) \<le> limit" for P using limit length_filter_le le_trans by blast
    then show ?thesis using r by simp
  qed
  have "active_rows ?e (snd (expireStalePending limit (\<lambda>_. False) t ?tbl)) = []"
    unfolding expireStalePending_def Let_def snd_conv by (rule freed) (use stale in blast)
  moreover have fin: "el_finalize ?e summary w t t ?tbl =
      (SettleLeaseExpired, update_rows (\<lambda>q. el_envelopeId q = ?e \<and> el_status q = EL_PENDING \<and> \<not> lease_valid t q) ?f ?tbl)"
  proof -
    have "\<not> list_ex (\<lambda>q. el_envelopeId q = ?e \<and> el_status q = EL_PENDING \<and> lease_valid t q \<and> owner_ok w q) (el_rows ?tbl)"
      using only r by (force simp: list_ex_iff)
    moreover have "list_ex (\<lambda>q. el_envelopeId q = ?e \<and> el_status q = EL_PENDING \<and> \<not> lease_valid t q) (el_rows ?tbl)"
      using r by (auto simp: list_ex_iff)
    ultimately show ?thesis by (simp add: el_finalize_def Let_def)
  qed
  moreover have "active_rows ?e (update_rows (\<lambda>q. el_envelopeId q = ?e \<and> el_status q = EL_PENDING \<and> \<not> lease_valid t q) ?f ?tbl) = []"
    by (rule freed) (use r in simp)
  ultimately show ?thesis
    using claim_free[OF _ ttl] by auto
qed

theorem stale_lease_is_freed_witness:
  "\<exists>n. fst (el_claim ''e1'' (Some 30) (Some ''w2'') 31000
     (snd (expireStalePending 1000 (\<lambda>_. False) 30001 (snd (el_claim ''e1'' None (Some ''w1'') 0 (ls_table empty_ledger)))))) = Claimed n"
proof -
  let ?s = "empty_ledger\<lparr>ls_table := snd (el_claim ''e1'' None (Some ''w1'') 0 (ls_table empty_ledger))\<rparr>"
  let ?r = "hd (el_rows (ls_table ?s))"
  have "el_step empty_ledger ?s" by (rule el_step.claim)
  then have reach: "el_step\<^sup>*\<^sup>* empty_ledger ?s" by blast
  have f: "?r \<in> set (el_rows (ls_table ?s))" "el_status ?r = EL_PENDING" "\<not> lease_valid 30001 ?r" "el_envelopeId ?r = ''e1''"
    "\<not> has_status ''e1'' EL_COMMITTED (ls_table ?s)" "\<not> has_status ''e1'' EL_REJECTED (ls_table ?s)" "length (el_rows (ls_table ?s)) \<le> 1000"
    by code_simp+
  with stale_lease_is_freed[OF reach f(1,2,3), of 30 1000] show ?thesis by simp
qed

end
