(* ===== verification/Settlement_Retry.thy ===== *)
theory Settlement_Retry
  imports Effects Hash_Chain Js_Date
begin

text \<open>
  The settlement-retry sub-protocol: \<open>policy/src/settlement-retry/settlement-retry.ts\<close> over the
  types of \<open>types/src/settlement-retry/\<close>.

  The nine injected ports and the schema validators are the record \<open>sr_ports\<close>; the repository has
  no implementation of the idempotency store, so its documented behaviour is the named hypothesis
  \<open>store_laws\<close>. Ports are effects on an arbitrary world, and each may throw. The clock readings and
  the random id of one call are the fields of \<open>sr_env\<close>. The text of an error message is its error:
  \<open>ErrorMessage e\<close> stands for \<open>e.message\<close>.
\<close>

subsection \<open>Types\<close>

datatype sr_state = PENDING | IN_PROGRESS | SUCCEEDED | FAILED | DEAD_LETTER

definition SETTLEMENT_RETRY_STATE_TRANSITIONS :: "(sr_state \<times> sr_state) list" where
  "SETTLEMENT_RETRY_STATE_TRANSITIONS =
     [(PENDING, IN_PROGRESS), (IN_PROGRESS, SUCCEEDED), (IN_PROGRESS, FAILED), (IN_PROGRESS, DEAD_LETTER),
      (FAILED, IN_PROGRESS), (FAILED, DEAD_LETTER)]"

definition TERMINAL_STATES :: "sr_state \<Rightarrow> bool" where
  "TERMINAL_STATES s = (s = SUCCEEDED \<or> s = DEAD_LETTER)"

definition MAX_RETRY_ATTEMPTS :: nat where
  "MAX_RETRY_ATTEMPTS = 3"

definition SR_SUPPORTED_VERSIONS :: "string list" where
  "SR_SUPPORTED_VERSIONS = [''1.0.0'']"

datatype sr_code =
  SR_IDEMPOTENCY_VIOLATION | SR_CANONICAL_HASH_MISMATCH | SR_STATE_TRANSITION_INVALID | SR_RETRY_EXHAUSTED
| SR_PROVIDER_UNAVAILABLE | SR_PROVIDER_TIMEOUT | SR_PROVIDER_DECLINED | SR_PROVIDER_RESPONSE_INVALID
| SR_OPERATION_REVOKED | SR_SIGNED_PAYLOAD_INVALID | SR_FRESHNESS_INVALID | SR_VERSION_UNSUPPORTED
| SR_AMOUNT_INVALID | SR_BACKOFF_INVALID

text \<open>An \<open>SrError\<close> with its \<open>detail.reason\<close>, or any other thrown value.\<close>

datatype sr_exn = SrError sr_code string | OtherError string

datatype failure_reason =
  FR_PROVIDER_UNAVAILABLE | FR_PROVIDER_TIMEOUT | FR_PROVIDER_DECLINED | FR_INSUFFICIENT_FUNDS
| FR_REGULATORY_REJECTED | FR_INTERNAL_ERROR

datatype result_summary = ResponseMessage string | ErrorMessage sr_exn

record sr_signed_payload =
  cspVersion :: string
  challenge :: string
  audience :: did
  sp_notAfter :: timestamp
  payloadSignature :: string
  disclosed :: jsval

record settlement_operation =
  op_id :: string
  srVersion :: string
  tenantId :: string
  idempotencyKey :: string
  settlementType :: string
  op_principalDid :: did
  counterpartyDid :: did
  amount :: int
  op_currency :: string
  signedPayload :: sr_signed_payload
  currentState :: sr_state
  attemptCount :: nat
  revoked :: bool
  op_createdAt :: timestamp
  updatedAt :: timestamp
  finalizedAt :: "timestamp option"

record idempotency_record =
  ir_key :: string
  ir_tenantId :: string
  ir_operationId :: string
  ir_currentState :: sr_state
  ir_createdAt :: timestamp
  ir_finalizedAt :: "timestamp option"

record retry_attempt =
  ra_id :: string
  ra_operationId :: string
  attemptNumber :: nat
  fromState :: sr_state
  toState :: sr_state
  attemptedAt :: timestamp
  completedAt :: "timestamp option"
  resultSummary :: "result_summary option"
  failureReason :: "failure_reason option"
  backoffDelayMs :: number
  auditEventId :: string

record provider_result =
  providerTxId :: string
  finalState :: string
  responseCode :: "string option"
  responseMessage :: "string option"

record audit_event =
  ae_auditClass :: string
  ae_tenantId :: string
  ae_actorDid :: did
  ae_action :: string
  ae_target :: string
  ae_attemptNumber :: nat
  ae_fromState :: sr_state
  ae_toState :: sr_state
  ae_settlementType :: string
  ae_amountBucket :: string
  ae_currency :: string

record idem_input =
  ii_operationId :: string
  ii_principalDid :: did
  ii_settlementType :: string
  ii_amount :: int
  ii_currency :: string
  ii_cspVersion :: string

type_synonym ('w, 'a) sr_eff = "('w, sr_exn, 'a) eff"

record 'w sr_ports =
  submitSettlement :: "settlement_operation \<Rightarrow> ('w, provider_result) sr_eff"
  acquireAdvisoryLock :: "string \<Rightarrow> string \<Rightarrow> ('w, unit) sr_eff"
  findByKey :: "string \<Rightarrow> string \<Rightarrow> ('w, idempotency_record option) sr_eff"
  insertRecord :: "idempotency_record \<Rightarrow> ('w, unit) sr_eff"
  updateState :: "string \<Rightarrow> string \<Rightarrow> sr_state \<Rightarrow> timestamp option \<Rightarrow> ('w, unit) sr_eff"
  computeBackoffDelay :: "nat \<Rightarrow> ('w, number) sr_eff"
  isOperationRevoked :: "string \<Rightarrow> ('w, bool) sr_eff"
  recordEvent :: "audit_event \<Rightarrow> ('w, string) sr_eff"
  verifySignature :: "sr_signed_payload \<Rightarrow> did \<Rightarrow> ('w, bool \<times> string option) sr_eff"
  insertAttempt :: "retry_attempt \<Rightarrow> ('w, unit) sr_eff"
  validateSettlementOperation :: "settlement_operation \<Rightarrow> bool"
  validateRetryAttempt :: "retry_attempt \<Rightarrow> bool"
  validateIdempotencyRecord :: "idempotency_record \<Rightarrow> bool"

record sr_env =
  env_sha :: "string \<Rightarrow> bytes"
  env_jcs :: "idem_input \<Rightarrow> string"
  expectedSettlerDid :: did
  nowMs :: int
  createdStamp :: timestamp
  exhaustedStamp :: timestamp
  attemptedStamp :: timestamp
  completedStamp :: timestamp
  attemptUuid :: string

subsection \<open>Helpers\<close>

definition lower_hex :: "char \<Rightarrow> bool" where
  "lower_hex c = (c \<in> set HEX_DIGITS)"

definition toIdempotencyKey :: "string \<Rightarrow> sr_exn + string" where
  "toIdempotencyKey s =
     (if length s = 64 \<and> list_all lower_hex s then Inr s else Inl (OtherError ''SR_SCHEMA_VIOLATION''))"

definition computeIdempotencyKey :: "sr_env \<Rightarrow> idem_input \<Rightarrow> sr_exn + string" where
  "computeIdempotencyKey env input = toIdempotencyKey (hash (env_sha env) (env_jcs env input))"

definition validateStateTransition :: "sr_state \<Rightarrow> sr_state \<Rightarrow> ('w, unit) sr_eff" where
  "validateStateTransition from to =
     eff_guard (list_ex (\<lambda>(f, t). f = from \<and> t = to) SETTLEMENT_RETRY_STATE_TRANSITIONS)
       (SrError SR_STATE_TRANSITION_INVALID ''transition_not_in_allowlist'')"

definition mapErrorToFailureReason :: "sr_exn option \<Rightarrow> string option \<Rightarrow> failure_reason" where
  "mapErrorToFailureReason err code =
     (case err of
        Some (SrError SR_PROVIDER_UNAVAILABLE _) \<Rightarrow> FR_PROVIDER_UNAVAILABLE
      | Some (SrError SR_PROVIDER_TIMEOUT _) \<Rightarrow> FR_PROVIDER_TIMEOUT
      | Some (SrError SR_PROVIDER_DECLINED _) \<Rightarrow> FR_PROVIDER_DECLINED
      | _ \<Rightarrow>
          (case code of
             None \<Rightarrow> FR_INTERNAL_ERROR
           | Some c \<Rightarrow>
               (if c = ''INSUFFICIENT_FUNDS'' \<or> c = ''NSF'' then FR_INSUFFICIENT_FUNDS
                else if c = ''REGULATORY_BLOCK'' \<or> starts_with ''REG_'' c then FR_REGULATORY_REJECTED
                else if c = ''DECLINED'' then FR_PROVIDER_DECLINED
                else if c = ''TIMEOUT'' then FR_PROVIDER_TIMEOUT
                else if starts_with ''5'' c then FR_PROVIDER_TIMEOUT
                else FR_INTERNAL_ERROR)))"

definition bucketizeAmount :: "int \<Rightarrow> string" where
  "bucketizeAmount a =
     (if a < 100 then ''0-100''
      else if a < 1000 then ''100-1000''
      else if a < 10000 then ''1000-10000''
      else if a < 100000 then ''10000-100000''
      else if a < 1000000 then ''100000-1000000''
      else ''1000000+'')"

definition recordSettlementAuditEvent ::
  "'w sr_ports \<Rightarrow> settlement_operation \<Rightarrow> nat \<Rightarrow> sr_state \<Rightarrow> sr_state \<Rightarrow> ('w, string) sr_eff" where
  "recordSettlementAuditEvent ports op n from to =
     recordEvent ports
       \<lparr>ae_auditClass = ''L2'', ae_tenantId = tenantId op, ae_actorDid = op_principalDid op,
        ae_action = ''SETTLEMENT_STATE_TRANSITION'', ae_target = op_id op, ae_attemptNumber = n,
        ae_fromState = from, ae_toState = to, ae_settlementType = settlementType op,
        ae_amountBucket = bucketizeAmount (amount op), ae_currency = op_currency op\<rparr>"

definition persistRetryAttempt :: "'w sr_ports \<Rightarrow> retry_attempt \<Rightarrow> ('w, unit) sr_eff" where
  "persistRetryAttempt ports attempt =
     eff_bind (eff_guard (validateRetryAttempt ports attempt)
       (SrError SR_STATE_TRANSITION_INVALID ''retry_attempt_schema_violation''))
     (\<lambda>_. insertAttempt ports attempt)"

subsection \<open>The steps of a retry\<close>

text \<open>Step 1: the stored key is the hash of the business fields.\<close>

definition check_key :: "sr_env \<Rightarrow> settlement_operation \<Rightarrow> ('w, unit) sr_eff" where
  "check_key env op =
     eff_bind (eff_lift (computeIdempotencyKey env
       \<lparr>ii_operationId = op_id op, ii_principalDid = op_principalDid op, ii_settlementType = settlementType op,
        ii_amount = amount op, ii_currency = op_currency op, ii_cspVersion = cspVersion (signedPayload op)\<rparr>))
     (\<lambda>expectedKey. eff_guard (idempotencyKey op = expectedKey)
       (SrError SR_CANONICAL_HASH_MISMATCH ''idempotency_key_field_drift_detected''))"

text \<open>Step 2: true when the stored operation is already terminal.\<close>

definition idempotency_gate :: "sr_env \<Rightarrow> 'w sr_ports \<Rightarrow> settlement_operation \<Rightarrow> ('w, bool) sr_eff" where
  "idempotency_gate env ports op =
     eff_bind (acquireAdvisoryLock ports (tenantId op) (idempotencyKey op)) (\<lambda>_.
     eff_bind (findByKey ports (tenantId op) (idempotencyKey op)) (\<lambda>existingRecord.
       case existingRecord of
         Some r \<Rightarrow>
           (if TERMINAL_STATES (ir_currentState r) then eff_return True
            else if ir_operationId r \<noteq> op_id op
            then eff_throw (SrError SR_IDEMPOTENCY_VIOLATION ''concurrent_duplicate_key_different_operation_id'')
            else eff_return False)
       | None \<Rightarrow>
           (let newRecord = \<lparr>ir_key = idempotencyKey op, ir_tenantId = tenantId op, ir_operationId = op_id op,
                ir_currentState = currentState op, ir_createdAt = createdStamp env, ir_finalizedAt = None\<rparr>
            in eff_bind (eff_guard (validateIdempotencyRecord ports newRecord)
                 (SrError SR_STATE_TRANSITION_INVALID ''idempotency_record_schema_violation'')) (\<lambda>_.
               eff_bind (insertRecord ports newRecord) (\<lambda>_. eff_return False)))))"

text \<open>Step 3.\<close>

definition check_fields :: "'w sr_ports \<Rightarrow> settlement_operation \<Rightarrow> ('w, unit) sr_eff" where
  "check_fields ports op =
     eff_bind (eff_guard (settlementType op = ''fiat_transfer'' \<or> settlementType op = ''digital_wallet'')
       (SrError SR_VERSION_UNSUPPORTED [])) (\<lambda>_.
     eff_bind (eff_guard (srVersion op \<in> set SR_SUPPORTED_VERSIONS) (SrError SR_VERSION_UNSUPPORTED [])) (\<lambda>_.
     eff_bind (eff_guard (\<not> amount op \<le> 0) (SrError SR_AMOUNT_INVALID ''amount_must_be_positive_integer'')) (\<lambda>_.
       eff_guard (validateSettlementOperation ports op)
         (SrError SR_VERSION_UNSUPPORTED ''settlement_operation_schema_violation''))))"

text \<open>Step 4.\<close>

definition check_signed_payload :: "sr_env \<Rightarrow> 'w sr_ports \<Rightarrow> settlement_operation \<Rightarrow> ('w, unit) sr_eff" where
  "check_signed_payload env ports op =
     (let sp = signedPayload op in
      eff_bind (eff_guard (\<not> list_all isBlank (challenge sp)) (SrError SR_SIGNED_PAYLOAD_INVALID ''csp_challenge_empty'')) (\<lambda>_.
      eff_bind (eff_guard (cspVersion sp = ''1.0.0'') (SrError SR_VERSION_UNSUPPORTED ''csp_version_not_supported'')) (\<lambda>_.
      eff_bind (case getTime (sp_notAfter sp) of
           None \<Rightarrow> eff_throw (SrError SR_FRESHNESS_INVALID ''notAfter_not_parseable_as_timestamp'')
         | Some notAfterMs \<Rightarrow> eff_guard (\<not> notAfterMs < nowMs env) (SrError SR_FRESHNESS_INVALID ''signed_payload_expired'')) (\<lambda>_.
      eff_bind (eff_guard (audience sp = expectedSettlerDid env)
         (SrError SR_SIGNED_PAYLOAD_INVALID ''audience_binding_mismatch'')) (\<lambda>_.
      eff_bind (verifySignature ports sp (expectedSettlerDid env)) (\<lambda>(valid, reason).
        eff_guard valid (SrError SR_SIGNED_PAYLOAD_INVALID
          (case reason of None \<Rightarrow> ''ed25519_signature_verification_failed'' | Some r \<Rightarrow> r))))))))"

text \<open>Step 5: a failing revocation lookup counts as revoked.\<close>

definition check_revocation :: "'w sr_ports \<Rightarrow> settlement_operation \<Rightarrow> ('w, unit) sr_eff" where
  "check_revocation ports op =
     eff_bind (eff_catch (isOperationRevoked ports (op_id op))
         (\<lambda>_. eff_throw (SrError SR_OPERATION_REVOKED ''revocation_check_network_failure_fail_closed''))) (\<lambda>isRevoked.
     eff_bind (eff_guard (\<not> isRevoked) (SrError SR_OPERATION_REVOKED ''operation_revoked_by_revocation_checker'')) (\<lambda>_.
       eff_guard (\<not> revoked op) (SrError SR_OPERATION_REVOKED ''operation_revoked_field_set_defense_in_depth'')))"

text \<open>Step 6.\<close>

definition enter_in_progress :: "'w sr_ports \<Rightarrow> settlement_operation \<Rightarrow> ('w, unit) sr_eff" where
  "enter_in_progress ports op =
     eff_bind (eff_guard (\<not> TERMINAL_STATES (currentState op))
       (SrError SR_STATE_TRANSITION_INVALID ''cannot_transition_from_terminal_state'')) (\<lambda>_.
     eff_when (currentState op \<noteq> IN_PROGRESS)
       (eff_bind (validateStateTransition (currentState op) IN_PROGRESS) (\<lambda>_.
          updateState ports (tenantId op) (idempotencyKey op) IN_PROGRESS None)))"

text \<open>Step 7, up to the provider call: the retry budget and the backoff.\<close>

definition retry_budget :: "sr_env \<Rightarrow> 'w sr_ports \<Rightarrow> settlement_operation \<Rightarrow> ('w, number) sr_eff" where
  "retry_budget env ports op =
     (if MAX_RETRY_ATTEMPTS \<le> attemptCount op then
        eff_bind (validateStateTransition IN_PROGRESS DEAD_LETTER) (\<lambda>_.
        eff_bind (updateState ports (tenantId op) (idempotencyKey op) DEAD_LETTER (Some (exhaustedStamp env))) (\<lambda>_.
          eff_throw (SrError SR_RETRY_EXHAUSTED ''retry_attempts_exhausted_moved_to_dead_letter'')))
      else
        eff_bind (computeBackoffDelay ports (attemptCount op)) (\<lambda>delay.
        eff_bind (eff_guard (\<not> (num_lt delay (Fin 0) \<or> num_lt (Fin 60000) delay))
            (SrError SR_BACKOFF_INVALID ''backoff_delay_out_of_valid_range_0_to_60000ms'')) (\<lambda>_.
          eff_return delay)))"

text \<open>Step 7: the provider call inside the \<open>try\<close> block.\<close>

definition provider_call ::
  "'w sr_ports \<Rightarrow> settlement_operation \<Rightarrow> ('w, sr_state \<times> result_summary option \<times> failure_reason option) sr_eff" where
  "provider_call ports op =
     eff_bind (submitSettlement ports op) (\<lambda>r.
     eff_bind (eff_guard (finalState r = ''SUCCEEDED'' \<or> finalState r = ''FAILED'')
       (SrError SR_PROVIDER_RESPONSE_INVALID ''provider_returned_invalid_final_state'')) (\<lambda>_.
       eff_return
         (if finalState r = ''SUCCEEDED'' then SUCCEEDED else FAILED,
          map_option ResponseMessage (responseMessage r),
          if finalState r = ''FAILED'' then Some (mapErrorToFailureReason None (responseCode r)) else None)))"

definition attempt_row ::
  "sr_env \<Rightarrow> settlement_operation \<Rightarrow> number \<Rightarrow> sr_state \<Rightarrow> result_summary option \<Rightarrow> failure_reason option \<Rightarrow> string \<Rightarrow> retry_attempt" where
  "attempt_row env op delay to summary failure eventId =
     \<lparr>ra_id = attemptUuid env, ra_operationId = op_id op, attemptNumber = attemptCount op + 1,
      fromState = currentState op, toState = to, attemptedAt = attemptedStamp env,
      completedAt = Some (completedStamp env), resultSummary = summary, failureReason = failure,
      backoffDelayMs = delay, auditEventId = eventId\<rparr>"

text \<open>Step 8: audit event first, then the row that refers to it.\<close>

definition record_attempt ::
  "sr_env \<Rightarrow> 'w sr_ports \<Rightarrow> settlement_operation \<Rightarrow> number \<Rightarrow> sr_state \<Rightarrow> result_summary option \<Rightarrow> failure_reason option \<Rightarrow> ('w, unit) sr_eff" where
  "record_attempt env ports op delay to summary failure =
     eff_bind (recordSettlementAuditEvent ports op (attemptCount op + 1) (currentState op) to) (\<lambda>eventId.
       persistRetryAttempt ports (attempt_row env op delay to summary failure eventId))"

text \<open>The \<open>catch\<close> block: errors other than \<open>SrError\<close> are wrapped; the attempt is recorded as FAILED.\<close>

definition provider_failed ::
  "sr_env \<Rightarrow> 'w sr_ports \<Rightarrow> settlement_operation \<Rightarrow> number \<Rightarrow> sr_exn \<Rightarrow> ('w, 'a) sr_eff" where
  "provider_failed env ports op delay providerErr =
     (let err = (case providerErr of
                   SrError _ _ \<Rightarrow> providerErr
                 | OtherError _ \<Rightarrow> SrError SR_PROVIDER_RESPONSE_INVALID ''ledger_port_threw_unknown_error_fail_closed'')
      in eff_bind (record_attempt env ports op delay FAILED (Some (ErrorMessage err)) (Some (mapErrorToFailureReason (Some err) None))) (\<lambda>_.
         eff_bind (validateStateTransition IN_PROGRESS FAILED) (\<lambda>_.
         eff_bind (updateState ports (tenantId op) (idempotencyKey op) FAILED None) (\<lambda>_.
           eff_throw err))))"

text \<open>Step 9.\<close>

definition commit_state ::
  "sr_env \<Rightarrow> 'w sr_ports \<Rightarrow> settlement_operation \<Rightarrow> sr_state \<Rightarrow> ('w, settlement_operation) sr_eff" where
  "commit_state env ports op to =
     (let n = attemptCount op + 1; t = completedStamp env; upd = updateState ports (tenantId op) (idempotencyKey op) in
      if to = SUCCEEDED then
        eff_bind (validateStateTransition IN_PROGRESS SUCCEEDED) (\<lambda>_.
        eff_bind (upd SUCCEEDED (Some t)) (\<lambda>_.
          eff_return (op\<lparr>currentState := SUCCEEDED, attemptCount := n, finalizedAt := Some t, updatedAt := t\<rparr>)))
      else
        eff_bind (validateStateTransition IN_PROGRESS FAILED) (\<lambda>_.
        if MAX_RETRY_ATTEMPTS \<le> n then
          eff_bind (validateStateTransition FAILED DEAD_LETTER) (\<lambda>_.
          eff_bind (upd DEAD_LETTER (Some t)) (\<lambda>_.
            eff_return (op\<lparr>currentState := DEAD_LETTER, attemptCount := n, finalizedAt := Some t, updatedAt := t\<rparr>)))
        else
          eff_bind (upd FAILED None) (\<lambda>_.
            eff_return (op\<lparr>currentState := FAILED, attemptCount := n, updatedAt := t\<rparr>))))"

definition run_attempt :: "sr_env \<Rightarrow> 'w sr_ports \<Rightarrow> settlement_operation \<Rightarrow> number \<Rightarrow> ('w, settlement_operation) sr_eff" where
  "run_attempt env ports op delay =
     eff_bind (eff_catch (provider_call ports op) (provider_failed env ports op delay)) (\<lambda>(to, summary, failure).
     eff_bind (record_attempt env ports op delay to summary failure) (\<lambda>_.
       commit_state env ports op to))"

definition executeSettlementRetry ::
  "sr_env \<Rightarrow> 'w sr_ports \<Rightarrow> settlement_operation \<Rightarrow> ('w, settlement_operation) sr_eff" where
  "executeSettlementRetry env ports op =
     eff_bind (check_key env op) (\<lambda>_.
     eff_bind (idempotency_gate env ports op) (\<lambda>finished.
     if finished then eff_return op
     else
       eff_bind (check_fields ports op) (\<lambda>_.
       eff_bind (check_signed_payload env ports op) (\<lambda>_.
       eff_bind (check_revocation ports op) (\<lambda>_.
       eff_bind (enter_in_progress ports op) (\<lambda>_.
       eff_bind (retry_budget env ports op) (\<lambda>delay.
         run_attempt env ports op delay)))))))"

text \<open>\<open>handleSrError\<close>: HTTP status, severity and whether the caller may retry.\<close>

datatype severity = SevError | SevWarn | SevInfo

definition handleSrError :: "sr_code \<Rightarrow> nat \<times> severity \<times> bool" where
  "handleSrError code =
     (case code of
        SR_IDEMPOTENCY_VIOLATION \<Rightarrow> (409, SevError, False)
      | SR_CANONICAL_HASH_MISMATCH \<Rightarrow> (422, SevError, False)
      | SR_STATE_TRANSITION_INVALID \<Rightarrow> (422, SevError, False)
      | SR_RETRY_EXHAUSTED \<Rightarrow> (422, SevWarn, False)
      | SR_PROVIDER_UNAVAILABLE \<Rightarrow> (503, SevWarn, True)
      | SR_PROVIDER_TIMEOUT \<Rightarrow> (504, SevWarn, True)
      | SR_PROVIDER_DECLINED \<Rightarrow> (422, SevWarn, False)
      | SR_PROVIDER_RESPONSE_INVALID \<Rightarrow> (502, SevError, False)
      | SR_OPERATION_REVOKED \<Rightarrow> (422, SevError, False)
      | SR_SIGNED_PAYLOAD_INVALID \<Rightarrow> (422, SevError, False)
      | SR_FRESHNESS_INVALID \<Rightarrow> (422, SevError, False)
      | SR_VERSION_UNSUPPORTED \<Rightarrow> (400, SevError, False)
      | SR_AMOUNT_INVALID \<Rightarrow> (400, SevError, False)
      | SR_BACKOFF_INVALID \<Rightarrow> (500, SevError, False))"

interpretation sr: transition_allowlist SETTLEMENT_RETRY_STATE_TRANSITIONS TERMINAL_STATES PENDING
  by unfold_locales (auto simp: SETTLEMENT_RETRY_STATE_TRANSITIONS_def TERMINAL_STATES_def)

subsection \<open>Results of one call\<close>

lemma validateStateTransition_Inr [simp]:
  "validateStateTransition from to w = (Inr u, w') \<longleftrightarrow> (from, to) \<in> set SETTLEMENT_RETRY_STATE_TRANSITIONS \<and> w' = w"
  by (auto simp: validateStateTransition_def list_ex_iff)

lemma validateStateTransition_ok:
  "(from, to) \<in> set SETTLEMENT_RETRY_STATE_TRANSITIONS \<Longrightarrow> validateStateTransition from to = eff_return ()"
  by (auto simp: validateStateTransition_def eff_guard_def list_ex_iff)

lemma live_enters_progress:
  "\<not> TERMINAL_STATES s \<Longrightarrow> s = IN_PROGRESS \<or> (s, IN_PROGRESS) \<in> set SETTLEMENT_RETRY_STATE_TRANSITIONS"
  by (cases s) (auto simp: TERMINAL_STATES_def SETTLEMENT_RETRY_STATE_TRANSITIONS_def)

lemma transitions [simp]:
  "(IN_PROGRESS, SUCCEEDED) \<in> set SETTLEMENT_RETRY_STATE_TRANSITIONS"
  "(IN_PROGRESS, FAILED) \<in> set SETTLEMENT_RETRY_STATE_TRANSITIONS"
  "(IN_PROGRESS, DEAD_LETTER) \<in> set SETTLEMENT_RETRY_STATE_TRANSITIONS"
  "(FAILED, DEAD_LETTER) \<in> set SETTLEMENT_RETRY_STATE_TRANSITIONS"
  by (simp_all add: SETTLEMENT_RETRY_STATE_TRANSITIONS_def)

lemmas transition_steps = validateStateTransition_ok[OF transitions(1)] validateStateTransition_ok[OF transitions(2)]
  validateStateTransition_ok[OF transitions(3)] validateStateTransition_ok[OF transitions(4)]

text \<open>What a returned operation looks like: untouched, or one attempt later.\<close>

definition advanced :: "sr_env \<Rightarrow> settlement_operation \<Rightarrow> settlement_operation \<Rightarrow> bool" where
  "advanced env op op' =
     (let n = attemptCount op + 1; t = completedStamp env in
      \<not> TERMINAL_STATES (currentState op) \<and> n \<le> MAX_RETRY_ATTEMPTS \<and>
      (op' = op\<lparr>currentState := SUCCEEDED, attemptCount := n, finalizedAt := Some t, updatedAt := t\<rparr> \<or>
       n = MAX_RETRY_ATTEMPTS \<and>
         op' = op\<lparr>currentState := DEAD_LETTER, attemptCount := n, finalizedAt := Some t, updatedAt := t\<rparr> \<or>
       n < MAX_RETRY_ATTEMPTS \<and> op' = op\<lparr>currentState := FAILED, attemptCount := n, updatedAt := t\<rparr>))"

lemma commit_state_Inr:
  assumes "commit_state env ports op to w = (Inr op', w')" "\<not> TERMINAL_STATES (currentState op)"
    "attemptCount op + 1 \<le> MAX_RETRY_ATTEMPTS"
  shows "advanced env op op'"
  using assms
  by (auto simp: commit_state_def advanced_def Let_def eff_bind_Inr transition_steps split: if_splits)

lemma execute_Inr:
  assumes "executeSettlementRetry env ports op w = (Inr op', w')"
  shows "op' = op \<or> advanced env op op'"
proof (cases "op' = op")
  case False
  then obtain d to w1 w2 w3 w4 where live: "enter_in_progress ports op w1 = (Inr (), w2)"
    and budget: "retry_budget env ports op w2 = (Inr d, w3)" and commit: "commit_state env ports op to w4 = (Inr op', w')"
    using assms by (auto simp: executeSettlementRetry_def run_attempt_def eff_bind_Inr split: if_splits)
  have "\<not> TERMINAL_STATES (currentState op)"
    using live by (auto simp: enter_in_progress_def eff_bind_Inr)
  moreover have "attemptCount op + 1 \<le> MAX_RETRY_ATTEMPTS"
    using budget by (auto simp: retry_budget_def eff_bind_Inr split: if_splits)
  ultimately show ?thesis
    using commit_state_Inr[OF commit] by simp
qed simp

lemma advanced_facts:
  assumes "advanced env op op'"
  shows "attemptCount op' = attemptCount op + 1" "attemptCount op' \<le> MAX_RETRY_ATTEMPTS"
    "\<not> TERMINAL_STATES (currentState op)"
    "(currentState op, currentState op') \<in> (set SETTLEMENT_RETRY_STATE_TRANSITIONS)\<^sup>*"
    "attemptCount op' = MAX_RETRY_ATTEMPTS \<Longrightarrow> TERMINAL_STATES (currentState op')"
proof -
  let ?T = "set SETTLEMENT_RETRY_STATE_TRANSITIONS"
  have live: "\<not> TERMINAL_STATES (currentState op)"
    and last: "(IN_PROGRESS, currentState op') \<in> ?T"
    using assms by (auto simp: advanced_def Let_def)
  then have "(currentState op, IN_PROGRESS) \<in> ?T\<^sup>*"
    using live_enters_progress[of "currentState op"] by auto
  then show "(currentState op, currentState op') \<in> ?T\<^sup>*"
    using last by (rule rtrancl_into_rtrancl)
  show "\<not> TERMINAL_STATES (currentState op)" by (rule live)
qed (use assms in \<open>auto simp: advanced_def Let_def TERMINAL_STATES_def\<close>)

text \<open>Repeated calls on the returned operation, at any times and in any worlds.\<close>

inductive retry_run :: "'w sr_ports \<Rightarrow> settlement_operation \<Rightarrow> nat \<Rightarrow> settlement_operation \<Rightarrow> bool" for ports where
  start: "retry_run ports op 0 op"
| idle: "retry_run ports op n op1 \<Longrightarrow> executeSettlementRetry env ports op1 w = (Inr op1, w') \<Longrightarrow> retry_run ports op n op1"
| attempt: "retry_run ports op n op1 \<Longrightarrow> executeSettlementRetry env ports op1 w = (Inr op2, w') \<Longrightarrow> op2 \<noteq> op1 \<Longrightarrow>
    retry_run ports op (n + 1) op2"

subsection \<open>The stored state\<close>

text \<open>
  What the ports promise about the state stored under one key: lookups report it, \<open>insertRecord\<close> and
  \<open>updateState\<close> set it or fail without a change, the other ports do not touch it.
\<close>

definition store_laws :: "('w \<Rightarrow> sr_state option) \<Rightarrow> string \<Rightarrow> string \<Rightarrow> 'w sr_ports \<Rightarrow> bool" where
  "store_laws stored t k ports =
     (reports_view stored (findByKey ports t k) (map_option ir_currentState) \<and>
      (\<forall>r. sets_view stored (insertRecord ports r) (Some (ir_currentState r))) \<and>
      (\<forall>s f. sets_view stored (updateState ports t k s f) (Some s)) \<and>
      keeps stored (acquireAdvisoryLock ports t k) \<and>
      (\<forall>n. keeps stored (computeBackoffDelay ports n)) \<and>
      (\<forall>i. keeps stored (isOperationRevoked ports i)) \<and>
      (\<forall>e. keeps stored (recordEvent ports e)) \<and>
      (\<forall>p d. keeps stored (verifySignature ports p d)) \<and>
      (\<forall>a. keeps stored (insertAttempt ports a)) \<and>
      (\<forall>op. keeps stored (submitSettlement ports op)))"

lemma store_lawsD:
  assumes "store_laws stored t k ports"
  shows "reports_view stored (findByKey ports t k) (map_option ir_currentState)"
    "sets_view stored (insertRecord ports r) (Some (ir_currentState r))"
    "sets_view stored (updateState ports t k s f) (Some s)"
    "keeps stored (acquireAdvisoryLock ports t k)" "keeps stored (computeBackoffDelay ports n)"
    "keeps stored (isOperationRevoked ports i)" "keeps stored (recordEvent ports e)"
    "keeps stored (verifySignature ports p d)" "keeps stored (insertAttempt ports a)"
    "keeps stored (submitSettlement ports op)"
  using assms by (simp_all add: store_laws_def)

text \<open>The steps that only look and check leave the stored state alone.\<close>

lemma checking_steps_keep:
  assumes "store_laws stored (tenantId op) (idempotencyKey op) ports"
  shows "keeps stored (check_key env op)" "keeps stored (check_fields ports op)"
    "keeps stored (check_signed_payload env ports op)" "keeps stored (check_revocation ports op)"
    "keeps stored (provider_call ports op)" "keeps stored (record_attempt env ports op delay to sm fr)"
  unfolding check_key_def check_fields_def check_signed_payload_def check_revocation_def provider_call_def
    record_attempt_def recordSettlementAuditEvent_def persistRetryAttempt_def Let_def
  by (auto intro!: keeps_bind keeps_catch store_lawsD[OF assms] split: option.splits prod.splits)

abbreviation reached :: "sr_state \<Rightarrow> sr_state option \<Rightarrow> bool" where
  "reached s0 x \<equiv> x = None \<or> (\<exists>s. x = Some s \<and> (s0, s) \<in> (set SETTLEMENT_RETRY_STATE_TRANSITIONS)\<^sup>*)"

lemma reached_progress:
  "\<not> TERMINAL_STATES s0 \<Longrightarrow> reached s0 (Some IN_PROGRESS)"
  using live_enters_progress[of s0] by auto

lemma reached_next:
  "reached s0 (Some s) \<Longrightarrow> (s, s') \<in> set SETTLEMENT_RETRY_STATE_TRANSITIONS \<Longrightarrow> reached s0 (Some s')"
  by (auto intro: rtrancl_into_rtrancl)

lemma gate_triple:
  assumes "store_laws stored (tenantId op) (idempotencyKey op) ports"
  shows "triple (\<lambda>w. F (stored w)) (idempotency_gate env ports op)
    (\<lambda>finished w. (finished \<longrightarrow> F (stored w) \<and> (\<exists>s. stored w = Some s \<and> TERMINAL_STATES s)) \<and>
        (\<not> finished \<longrightarrow> F None \<and> stored w = Some (currentState op) \<or> F (stored w) \<and> (\<exists>s. stored w = Some s \<and> \<not> TERMINAL_STATES s)))
    (\<lambda>w. F (stored w))"
proof -
  let ?Q = "\<lambda>finished w. (finished \<longrightarrow> F (stored w) \<and> (\<exists>s. stored w = Some s \<and> TERMINAL_STATES s)) \<and>
        (\<not> finished \<longrightarrow> F None \<and> stored w = Some (currentState op) \<or> F (stored w) \<and> (\<exists>s. stored w = Some s \<and> \<not> TERMINAL_STATES s))"
  have ins: "triple (\<lambda>w. F (stored w) \<and> stored w = None)
      (eff_bind (insertRecord ports r) (\<lambda>_. eff_return False)) ?Q (\<lambda>w. F (stored w))"
    if "ir_currentState r = currentState op" for r
  proof (cases "F None")
    case True
    show ?thesis
      by (rule triple_bind[OF triple_conseq[OF sets_triple[OF store_lawsD(2)[OF assms], where F = F and E = F]] triple_return])
        (use that True in auto)
  next
    case False
    then show ?thesis by (auto simp: triple_def)
  qed
  show ?thesis
    unfolding idempotency_gate_def
    by (rule triple_bind[OF keeps_triple[OF store_lawsD(4)[OF assms]]
          triple_bind[OF reports_triple[OF store_lawsD(1)[OF assms], where F = F and E = F]]])
      (auto simp: Let_def eff_guard_bind intro!: triple_if triple_return triple_throw ins split: option.split)
qed

lemma enter_triple:
  assumes "store_laws stored (tenantId op) (idempotencyKey op) ports"
  shows "triple (\<lambda>w. stored w = Some (currentState op)) (enter_in_progress ports op)
    (\<lambda>_ w. \<not> TERMINAL_STATES (currentState op) \<and> stored w = Some IN_PROGRESS) (\<lambda>w. stored w = Some (currentState op))"
proof (cases "TERMINAL_STATES (currentState op)")
  case True
  then show ?thesis
    by (simp add: enter_in_progress_def eff_guard_bind triple_throw)
next
  case live: False
  show ?thesis
  proof (cases "currentState op = IN_PROGRESS")
    case True
    then show ?thesis
      using live by (simp add: enter_in_progress_def eff_guard_bind eff_when_def triple_return)
  next
    case False
    then have "validateStateTransition (currentState op) IN_PROGRESS = (eff_return () :: ('a, unit) sr_eff)"
      using live_enters_progress[OF live] by (auto simp: validateStateTransition_ok)
    moreover have "triple (\<lambda>w. stored w = Some (currentState op)) (updateState ports (tenantId op) (idempotencyKey op) IN_PROGRESS None)
        (\<lambda>_ w. stored w = Some IN_PROGRESS) (\<lambda>w. stored w = Some (currentState op))"
      by (rule sets_triple[OF store_lawsD(3)[OF assms]])
    ultimately show ?thesis
      using live False by (simp add: enter_in_progress_def eff_guard_bind eff_when_def)
  qed
qed

lemma budget_triple:
  assumes "store_laws stored (tenantId op) (idempotencyKey op) ports"
  shows "triple (\<lambda>w. stored w = Some IN_PROGRESS) (retry_budget env ports op)
    (\<lambda>_ w. stored w = Some IN_PROGRESS) (\<lambda>w. stored w = Some IN_PROGRESS \<or> stored w = Some DEAD_LETTER)"
proof -
  let ?ip = "\<lambda>w. stored w = Some IN_PROGRESS" and ?E = "\<lambda>w. stored w = Some IN_PROGRESS \<or> stored w = Some DEAD_LETTER"
  have upd: "triple ?ip (updateState ports (tenantId op) (idempotencyKey op) DEAD_LETTER f) (\<lambda>_ w. stored w = Some DEAD_LETTER) ?E" for f
    by (rule sets_triple[OF store_lawsD(3)[OF assms], where F = "\<lambda>x. x = Some IN_PROGRESS"
          and E = "\<lambda>x. x = Some IN_PROGRESS \<or> x = Some DEAD_LETTER"]) simp
  have delay: "triple ?ip (computeBackoffDelay ports n) (\<lambda>_. ?ip) ?E" for n
    by (rule triple_conseq[OF keeps_triple[OF store_lawsD(5)[OF assms], where F = "\<lambda>x. x = Some IN_PROGRESS"]]) auto
  show ?thesis
    unfolding retry_budget_def transition_steps eff_bind_return eff_guard_bind
    by (auto intro!: triple_if triple_bind[OF upd] triple_bind[OF delay] triple_throw triple_return)
qed

abbreviation settled :: "sr_state option \<Rightarrow> bool" where
  "settled x \<equiv> x = Some IN_PROGRESS \<or> (\<exists>s. x = Some s \<and> (IN_PROGRESS, s) \<in> set SETTLEMENT_RETRY_STATE_TRANSITIONS)"

lemma update_settles:
  assumes "store_laws stored (tenantId op) (idempotencyKey op) ports" "(IN_PROGRESS, s) \<in> set SETTLEMENT_RETRY_STATE_TRANSITIONS"
  shows "triple (\<lambda>w. stored w = Some IN_PROGRESS) (updateState ports (tenantId op) (idempotencyKey op) s f)
    (\<lambda>_ w. settled (stored w)) (\<lambda>w. settled (stored w))"
  by (rule triple_conseq[OF sets_triple[OF store_lawsD(3)[OF assms(1)], where F = "\<lambda>x. x = Some IN_PROGRESS" and E = settled]])
    (use assms(2) in auto)

lemma run_triple:
  assumes laws: "store_laws stored (tenantId op) (idempotencyKey op) ports"
  shows "triple (\<lambda>w. stored w = Some IN_PROGRESS) (run_attempt env ports op delay)
    (\<lambda>_ w. settled (stored w)) (\<lambda>w. settled (stored w))"
proof -
  let ?ip = "\<lambda>w. stored w = Some IN_PROGRESS" and ?st = "\<lambda>w. settled (stored w)"
  have rec: "triple ?ip (record_attempt env ports op delay to sm fr) (\<lambda>_. ?ip) ?st" for to sm fr
    by (rule triple_conseq[OF keeps_triple[OF checking_steps_keep(6)[OF laws], where F = "\<lambda>x. x = Some IN_PROGRESS"]]) auto
  have call: "triple ?ip (provider_call ports op) (\<lambda>_. ?ip) ?ip"
    by (rule keeps_triple[OF checking_steps_keep(5)[OF laws], where F = "\<lambda>x. x = Some IN_PROGRESS"])
  have failed: "triple ?ip (provider_failed env ports op delay e) (\<lambda>_. ?ip) ?st"
    for e and Q :: "sr_state \<times> result_summary option \<times> failure_reason option \<Rightarrow> 'a \<Rightarrow> bool"
    unfolding provider_failed_def Let_def transition_steps eff_bind_return
    by (rule triple_bind[OF rec triple_bind[OF update_settles[OF laws transitions(2)] triple_throw]])
  have commit: "triple ?ip (commit_state env ports op to) (\<lambda>_. ?st) ?st" for to
    unfolding commit_state_def Let_def transition_steps eff_bind_return
    by (auto intro!: triple_if triple_bind[OF update_settles[OF laws]] triple_return)
  show ?thesis
    unfolding run_attempt_def
    by (rule triple_bind[OF triple_catch[OF call failed]]) (auto intro!: triple_bind[OF rec commit] split: prod.splits)
qed

subsection \<open>The checks before the provider call\<close>

definition cleared :: "sr_env \<Rightarrow> 'w sr_ports \<Rightarrow> settlement_operation \<Rightarrow> ('w, number) sr_eff" where
  "cleared env ports op =
     eff_bind (check_fields ports op) (\<lambda>_.
     eff_bind (check_signed_payload env ports op) (\<lambda>_.
     eff_bind (check_revocation ports op) (\<lambda>_.
     eff_bind (enter_in_progress ports op) (\<lambda>_.
       retry_budget env ports op))))"

lemma execute_cleared:
  "executeSettlementRetry env ports op =
     eff_bind (check_key env op) (\<lambda>_.
     eff_bind (idempotency_gate env ports op) (\<lambda>finished.
     if finished then eff_return op else eff_bind (cleared env ports op) (run_attempt env ports op)))"
  unfolding executeSettlementRetry_def cleared_def eff_bind_assoc ..

lemma cleared_submit [simp]: "cleared env (ports\<lparr>submitSettlement := f\<rparr>) op = cleared env ports op"
  by (simp add: cleared_def check_fields_def check_signed_payload_def check_revocation_def enter_in_progress_def retry_budget_def)

lemma gate_submit [simp]: "idempotency_gate env (ports\<lparr>submitSettlement := f\<rparr>) op = idempotency_gate env ports op"
  by (simp add: idempotency_gate_def Let_def cong: option.case_cong)

lemma payload_throws:
  assumes "getTime (sp_notAfter (signedPayload op)) = None \<or> (\<exists>t. getTime (sp_notAfter (signedPayload op)) = Some t \<and> t < nowMs env) \<or>
    audience (signedPayload op) \<noteq> expectedSettlerDid env \<or>
    (\<forall>w reason. fst (verifySignature ports (signedPayload op) (expectedSettlerDid env) w) \<noteq> Inr (True, reason))"
  shows "always_throws (check_signed_payload env ports op)"
  unfolding always_throws_def
proof (intro allI notI)
  fix w u w'
  assume "check_signed_payload env ports op w = (Inr u, w')"
  then obtain w1 reason w2 where "getTime (sp_notAfter (signedPayload op)) \<noteq> None"
    "\<forall>t. getTime (sp_notAfter (signedPayload op)) = Some t \<longrightarrow> \<not> t < nowMs env"
    "audience (signedPayload op) = expectedSettlerDid env"
    "verifySignature ports (signedPayload op) (expectedSettlerDid env) w1 = (Inr (True, reason), w2)"
    by (auto simp: check_signed_payload_def Let_def eff_bind_Inr split: option.splits)
  then show False
    using assms by (metis fst_conv not_None_eq)
qed

lemma revocation_throws:
  assumes "revoked op \<or> (\<forall>w. fst (isOperationRevoked ports (op_id op) w) \<noteq> Inr False)"
  shows "always_throws (check_revocation ports op)"
  unfolding always_throws_def
proof (intro allI notI)
  fix w u w'
  assume a: "check_revocation ports op w = (Inr u, w')"
  obtain b w1 where "isOperationRevoked ports (op_id op) w = (b, w1)" by fastforce
  with a have "isOperationRevoked ports (op_id op) w = (Inr False, w1)" "\<not> revoked op"
    by (auto simp: check_revocation_def eff_bind_Inr eff_catch_def split: sum.splits)
  with assms show False by (metis fst_conv)
qed

lemma progress_throws: "TERMINAL_STATES (currentState op) \<Longrightarrow> always_throws (enter_in_progress ports op)"
  by (simp add: enter_in_progress_def eff_guard_bind)

lemma budget_throws: "MAX_RETRY_ATTEMPTS \<le> attemptCount op \<Longrightarrow> always_throws (retry_budget env ports op)"
  by (simp add: retry_budget_def always_throws_bindI)

subsection \<open>Properties\<close>


text \<open>The world of the examples: the record of one key and the attempts written.\<close>

type_synonym demo_sr_world = "idempotency_record option \<times> retry_attempt list"

definition demo_sr_ports :: "string \<Rightarrow> demo_sr_world sr_ports" where
  "demo_sr_ports fin =
     \<lparr>submitSettlement = (\<lambda>op. eff_return \<lparr>providerTxId = ''tx'', finalState = fin, responseCode = Some ''NSF'', responseMessage = None\<rparr>),
      acquireAdvisoryLock = (\<lambda>_ _. eff_return ()),
      findByKey = (\<lambda>_ _ w. (Inr (fst w), w)),
      insertRecord = (\<lambda>r w. (Inr (), (Some r, snd w))),
      updateState = (\<lambda>_ _ s f w. case fst w of
          None \<Rightarrow> (Inl (OtherError ''no row''), w)
        | Some r \<Rightarrow> (Inr (), (Some (r\<lparr>ir_currentState := s, ir_finalizedAt := f\<rparr>), snd w))),
      computeBackoffDelay = (\<lambda>n. eff_return (Fin 1000)),
      isOperationRevoked = (\<lambda>_. eff_return False),
      recordEvent = (\<lambda>_. eff_return ''event''),
      verifySignature = (\<lambda>_ _. eff_return (True, None)),
      insertAttempt = (\<lambda>a w. (Inr (), (fst w, snd w @ [a]))),
      validateSettlementOperation = (\<lambda>_. True), validateRetryAttempt = (\<lambda>_. True), validateIdempotencyRecord = (\<lambda>_. True)\<rparr>"

definition demo_sr_env :: sr_env where
  "demo_sr_env =
     \<lparr>env_sha = (\<lambda>_. replicate 32 0), env_jcs = (\<lambda>_. ''{}''), expectedSettlerDid = ''did:agent:settler'', nowMs = 0,
      createdStamp = ''t0'', exhaustedStamp = ''t1'', attemptedStamp = ''t2'', completedStamp = ''t3'', attemptUuid = ''u''\<rparr>"

definition demo_sr_op :: settlement_operation where
  "demo_sr_op =
     \<lparr>op_id = ''op'', srVersion = ''1.0.0'', tenantId = ''t'', idempotencyKey = toHex (replicate 32 0),
      settlementType = ''fiat_transfer'', op_principalDid = ''did:key:z'', counterpartyDid = ''did:key:y'', amount = 500,
      op_currency = ''EUR'',
      signedPayload = \<lparr>cspVersion = ''1.0.0'', challenge = ''c'', audience = ''did:agent:settler'',
        sp_notAfter = ''2030-01-01T00:00:00.000Z'', payloadSignature = ''s'', disclosed = JNull\<rparr>,
      currentState = PENDING, attemptCount = 0, revoked = False, op_createdAt = ''t'', updatedAt = ''t'', finalizedAt = None\<rparr>"

lemma demo_store_laws: "store_laws (\<lambda>w. map_option ir_currentState (fst w)) t k (demo_sr_ports fin)"
  by (auto simp: store_laws_def demo_sr_ports_def reports_view_def sets_view_def keeps_def eff_return_def split: option.splits)






text \<open>
  Remark (error). The row written for a first success goes from PENDING to SUCCEEDED, a pair that the
  type's documented invariant (every row's transition is in the allowlist) excludes.
\<close>

lemma attempt_row_outside_allowlist:
  "let rows = snd (snd (executeSettlementRetry demo_sr_env (demo_sr_ports ''SUCCEEDED'') demo_sr_op (None, [])))
   in map (\<lambda>a. (fromState a, toState a)) rows = [(PENDING, SUCCEEDED)] \<and>
      (PENDING, SUCCEEDED) \<notin> set SETTLEMENT_RETRY_STATE_TRANSITIONS"
  by code_simp

end
