(* ===== verification/Dispute_Arbitration.thy ===== *)
theory Dispute_Arbitration
  imports Effects Hash_Chain Js_Date
begin

text \<open>
  The dispute-arbitration sub-protocol: \<open>policy/src/dispute-arbitration/state-machine.ts\<close> over the
  ports of \<open>ports.ts\<close> and the types of \<open>types/src/dispute-arbitration/\<close>.

  The seven ports and the transaction manager are the record \<open>da_ports\<close>; they are effects on an
  arbitrary world and may throw. The repository has no implementation of them: what is used of them
  are the named hypotheses \<open>tx_law\<close> (a failed transaction leaves the ledger as it was) and
  \<open>reads_only\<close> (the lookups and checks before the transaction do not write the ledger).
\<close>

subsection \<open>Types and constants\<close>

datatype dispute_state = FILED | RESOLVED | EXPIRED

datatype da_verdict = CLAIMANT_PREVAILS | RESPONDENT_PREVAILS | NO_FAULT

datatype da_code =
  DA_FILING_INVALID | DA_DUPLICATE_FILING | DA_CANONICAL_HASH_MISMATCH | DA_SIGNED_PAYLOAD_INVALID
| DA_TIMEOUT_EXCEEDED | DA_STATE_TRANSITION_INVALID | DA_ARBITRATOR_INVALID | DA_ARBITRATOR_INSUFFICIENT
| DA_INSUFFICIENT_SIGNATURES | DA_EVIDENCE_INVALID | DA_PROVIDER_UNAVAILABLE | DA_VERSION_UNSUPPORTED
| DA_DISPUTE_REVOKED | DA_IDEMPOTENCY_VIOLATION | DA_FRESHNESS_INVALID

datatype da_exn = DaError da_code string | DaOther string

definition MIN_ARBITRATOR_COUNT :: nat where
  "MIN_ARBITRATOR_COUNT = 3"

definition MAX_ARBITRATOR_COUNT :: nat where
  "MAX_ARBITRATOR_COUNT = 5"

definition MAX_DISPUTE_MS :: int where
  "MAX_DISPUTE_MS = 14 * 24 * 3600 * 1000"

definition DA_SUPPORTED_VERSIONS :: "string list" where
  "DA_SUPPORTED_VERSIONS = [''1.0.0'']"

definition DISPUTE_STATE_TRANSITIONS :: "(dispute_state \<times> dispute_state) list" where
  "DISPUTE_STATE_TRANSITIONS = [(FILED, RESOLVED), (FILED, EXPIRED)]"

interpretation da: transition_allowlist DISPUTE_STATE_TRANSITIONS "\<lambda>s. s \<noteq> FILED" FILED
  by unfold_locales (auto simp: DISPUTE_STATE_TRANSITIONS_def)

record arbitrator =
  arb_did :: did
  arb_publicKey :: string
  isActive :: bool

record dispute_filing =
  disputeId :: string
  claimantDid :: did
  respondentDid :: did
  disputeType :: string
  evidenceUris :: "string list"
  settlementOperationRef :: "string option"
  df_cspVersion :: string
  df_token :: string
  disclosedClaims :: js_object
  df_challenge :: string
  df_audience :: string
  df_notAfter :: timestamp
  filedAt :: timestamp
  daVersion :: string

record filing_signed_payload = dispute_filing +
  canonicalHash :: string
  claimantSignature :: string

record arbitrator_signature =
  arbitratorDid :: did
  as_signature :: string

record arbitration_decision =
  decisionId :: string
  ad_disputeId :: string
  ad_verdict :: da_verdict
  multisigThreshold :: nat
  multisigPoolSize :: nat
  decisionCanonicalHash :: string
  arbitratorSignatures :: "arbitrator_signature list"
  decidedAt :: timestamp

record dispute =
  d_disputeId :: string
  d_tenantId :: string
  d_currentState :: dispute_state
  d_disputeType :: string
  d_claimantDid :: did
  d_respondentDid :: did
  disputeFilingCanonicalHash :: string
  d_settlementOperationRef :: "string option"
  d_evidenceUris :: "string list"
  d_cspVersion :: string
  d_daVersion :: string
  d_filedAt :: timestamp
  resolvedAt :: "timestamp option"
  expiredAt :: "timestamp option"
  d_attemptedAt :: timestamp
  d_createdAt :: timestamp

record transition_event =
  te_disputeId :: string
  te_fromState :: dispute_state
  te_toState :: dispute_state
  transitionedAt :: timestamp
  triggeredBy :: string
  te_auditClass :: string
  reviewQueue :: bool

record arbitration_result =
  res_dispute :: dispute
  res_decision :: arbitration_decision
  res_event :: transition_event

type_synonym ('w, 'a) da_eff = "('w, da_exn, 'a) eff"

record 'w da_ports =
  aggregateSignatures :: "arbitration_decision \<Rightarrow> arbitrator list \<Rightarrow> nat \<Rightarrow> ('w, arbitration_decision) da_eff"
  verifyArbitratorSignature :: "did \<Rightarrow> string \<Rightarrow> string \<Rightarrow> ('w, bool) da_eff"
  selectArbitrators :: "string \<Rightarrow> nat \<Rightarrow> ('w, arbitrator list) da_eff"
  validateEvidenceUris :: "string list \<Rightarrow> ('w, string list) da_eff"
  storeEvidenceRef :: "string \<Rightarrow> string list \<Rightarrow> ('w, unit) da_eff"
  isTokenRevoked :: "string \<Rightarrow> ('w, bool) da_eff"
  checkDidRevocationStatus :: "did \<Rightarrow> ('w, unit) da_eff"
  verifyDisputeFilingSignature :: "filing_signed_payload \<Rightarrow> ('w, bool) da_eff"
  checkFreshness :: "timestamp \<Rightarrow> ('w, unit) da_eff"
  recordDisputeTransition :: "transition_event \<Rightarrow> ('w, unit) da_eff"
  recordDisputeFiled :: "string \<Rightarrow> string \<Rightarrow> ('w, unit) da_eff"
  recordArbitrationDecision :: "string \<Rightarrow> string \<Rightarrow> ('w, unit) da_eff"
  findByCanonicalHash :: "string \<Rightarrow> ('w, string option) da_eff"
  findByDisputeId :: "string \<Rightarrow> ('w, dispute option) da_eff"
  saveDispute :: "dispute \<Rightarrow> ('w, unit) da_eff"
  updateDisputeState :: "string \<Rightarrow> dispute_state \<Rightarrow> timestamp \<Rightarrow> ('w, unit) da_eff"
  saveArbitrationDecision :: "arbitration_decision \<Rightarrow> ('w, unit) da_eff"
  runInTransaction :: "('w, unit) da_eff \<Rightarrow> ('w, unit) da_eff"
  validateDisputeFilingSchema :: "filing_signed_payload \<Rightarrow> bool"

record da_env =
  da_sha :: "string \<Rightarrow> bytes"
  da_jcs :: "js_object \<Rightarrow> string"
  da_nowMs :: int
  nowIso :: timestamp
  resolvedIso :: timestamp

record da_input =
  filing :: dispute_filing
  da_signedPayload :: filing_signed_payload
  poolSizeTarget :: nat
  verdict :: da_verdict
  da_tenantId :: string

subsection \<open>Helpers\<close>

definition da_validateStateTransition :: "dispute_state \<Rightarrow> dispute_state \<Rightarrow> ('w, unit) da_eff" where
  "da_validateStateTransition from to =
     eff_guard (list_ex (\<lambda>(f, t). f = from \<and> t = to) DISPUTE_STATE_TRANSITIONS)
       (DaError DA_STATE_TRANSITION_INVALID ''invalid_dispute_state_transition'')"

definition computeThreshold :: "nat \<Rightarrow> da_exn + nat" where
  "computeThreshold poolSize =
     (if poolSize < MIN_ARBITRATOR_COUNT
      then Inl (DaError DA_ARBITRATOR_INSUFFICIENT ''arbitrator_pool_size_below_minimum_constitution_p35'')
      else if MAX_ARBITRATOR_COUNT < poolSize
      then Inl (DaError DA_ARBITRATOR_INVALID ''arbitrator_pool_size_out_of_bounds'')
      else Inr (poolSize div 2 + 1))"

definition checkAndExpireDispute :: "timestamp \<Rightarrow> int \<Rightarrow> da_exn + unit" where
  "checkAndExpireDispute filed now =
     (case getTime filed of
        None \<Rightarrow> Inl (DaError DA_FILING_INVALID ''filed_at_not_a_valid_iso8601_timestamp'')
      | Some filedMs \<Rightarrow>
          (if now - filedMs \<ge> MAX_DISPUTE_MS
           then Inl (DaError DA_TIMEOUT_EXCEEDED ''dispute_exceeded_max_dispute_days_pc3'') else Inr ()))"

definition toCanonicalHashHex :: "string \<Rightarrow> da_exn + string" where
  "toCanonicalHashHex s =
     (if length s = 64 \<and> HEX_PATTERN s then Inr s
      else Inl (DaError DA_CANONICAL_HASH_MISMATCH ''canonical_hash_must_be_sha256_hex_64''))"

definition canonical_filing :: "dispute_filing \<Rightarrow> js_object" where
  "canonical_filing p =
     [(''audience'', JStr (df_audience p)), (''challenge'', JStr (df_challenge p)), (''claimantDid'', JStr (claimantDid p)),
      (''cspVersion'', JStr (df_cspVersion p)), (''disclosedClaims'', JObj (disclosedClaims p)),
      (''disputeId'', JStr (disputeId p)), (''disputeType'', JStr (disputeType p)),
      (''evidenceUris'', JArr (map JStr (evidenceUris p))), (''filedAt'', JStr (filedAt p)),
      (''notAfter'', JStr (df_notAfter p)), (''respondentDid'', JStr (respondentDid p)), (''token'', JStr (df_token p))] @
     (case settlementOperationRef p of None \<Rightarrow> [] | Some r \<Rightarrow> [(''settlementOperationRef'', JStr r)])"

definition computeDisputeFilingCanonicalHash :: "da_env \<Rightarrow> dispute_filing \<Rightarrow> da_exn + string" where
  "computeDisputeFilingCanonicalHash env p =
     (case canonicalize (da_jcs env) (canonical_filing p) of
        Inl _ \<Rightarrow> Inl (DaError DA_CANONICAL_HASH_MISMATCH ''jcs_canonicalize_failed_during_hash_computation'')
      | Inr canonicalStr \<Rightarrow> toCanonicalHashHex (hash (da_sha env) canonicalStr))"

fun duplicate_signer :: "did list \<Rightarrow> arbitrator_signature list \<Rightarrow> bool" where
  "duplicate_signer seenSigners [] = False"
| "duplicate_signer seenSigners (s # ss) =
     (if arbitratorDid s \<in> set seenSigners then True else duplicate_signer (arbitratorDid s # seenSigners) ss)"

subsection \<open>The seven steps\<close>

text \<open>Step 1: schema, version, 14-day limit, duplicate detection. Returns the filing hash.\<close>

definition da_step1 :: "da_env \<Rightarrow> 'w da_ports \<Rightarrow> da_input \<Rightarrow> ('w, string) da_eff" where
  "da_step1 env ports inp =
     eff_bind (eff_guard (validateDisputeFilingSchema ports (da_signedPayload inp))
       (DaError DA_FILING_INVALID ''dispute_filing_signed_payload_schema_validation_failed'')) (\<lambda>_.
     eff_bind (eff_guard (daVersion (filing inp) \<in> set DA_SUPPORTED_VERSIONS)
       (DaError DA_VERSION_UNSUPPORTED ''unsupported_da_version_in_filing'')) (\<lambda>_.
     eff_bind (eff_lift (checkAndExpireDispute (filedAt (filing inp)) (da_nowMs env))) (\<lambda>_.
     eff_bind (eff_lift (computeDisputeFilingCanonicalHash env (filing inp))) (\<lambda>preCheckHash.
     eff_bind (findByCanonicalHash ports preCheckHash) (\<lambda>existingId.
     eff_bind (eff_guard (existingId = None)
       (DaError DA_DUPLICATE_FILING ''duplicate_dispute_filing_canonical_hash_exists'')) (\<lambda>_.
     eff_bind (findByDisputeId ports (disputeId (filing inp))) (\<lambda>existingDispute.
     eff_bind (case existingDispute of
         None \<Rightarrow> eff_return ()
       | Some d \<Rightarrow> eff_guard (disputeFilingCanonicalHash d = preCheckHash)
           (DaError DA_IDEMPOTENCY_VIOLATION ''same_dispute_id_different_canonical_hash_double_filing_detected'')) (\<lambda>_.
       eff_return preCheckHash))))))))"

text \<open>Step 2: the signed hash is the hash of the filing; evidence URIs. Returns hash and URIs.\<close>

definition da_step2 :: "da_env \<Rightarrow> 'w da_ports \<Rightarrow> da_input \<Rightarrow> ('w, string \<times> string list) da_eff" where
  "da_step2 env ports inp =
     eff_bind (eff_lift (computeDisputeFilingCanonicalHash env (filing inp))) (\<lambda>filingCanonicalHash.
     eff_bind (eff_guard (canonicalHash (da_signedPayload inp) = filingCanonicalHash)
       (DaError DA_CANONICAL_HASH_MISMATCH ''signed_payload_canonical_hash_mismatch'')) (\<lambda>_.
     eff_bind (validateEvidenceUris ports (evidenceUris (filing inp))) (\<lambda>validatedUris.
       eff_return (filingCanonicalHash, validatedUris))))"

text \<open>Step 3: freshness, revocation of token and parties, the claimant's signature.\<close>

definition da_step3 :: "'w da_ports \<Rightarrow> da_input \<Rightarrow> ('w, unit) da_eff" where
  "da_step3 ports inp =
     eff_bind (checkFreshness ports (df_notAfter (filing inp))) (\<lambda>_.
     eff_bind (isTokenRevoked ports (df_token (filing inp))) (\<lambda>isRevoked.
     eff_bind (eff_guard (\<not> isRevoked) (DaError DA_DISPUTE_REVOKED ''csp_token_has_been_revoked'')) (\<lambda>_.
     eff_bind (checkDidRevocationStatus ports (claimantDid (filing inp))) (\<lambda>_.
     eff_bind (checkDidRevocationStatus ports (respondentDid (filing inp))) (\<lambda>_.
     eff_bind (verifyDisputeFilingSignature ports (da_signedPayload inp)) (\<lambda>sigValid.
       eff_guard sigValid (DaError DA_SIGNED_PAYLOAD_INVALID ''dispute_filing_csp_signature_verification_failed'')))))))"

text \<open>Step 4: the arbitrator pool and its revocation checks. Returns threshold and pool.\<close>

definition da_step4 :: "'w da_ports \<Rightarrow> da_input \<Rightarrow> ('w, nat \<times> arbitrator list) da_eff" where
  "da_step4 ports inp =
     eff_bind (eff_lift (computeThreshold (poolSizeTarget inp))) (\<lambda>threshold.
     eff_bind (selectArbitrators ports (disputeId (filing inp)) (poolSizeTarget inp)) (\<lambda>arbitrators.
     eff_bind (eff_guard (\<not> length arbitrators < MIN_ARBITRATOR_COUNT)
       (DaError DA_ARBITRATOR_INSUFFICIENT ''selected_arbitrator_count_below_minimum'')) (\<lambda>_.
     eff_bind (eff_each (\<lambda>a. checkDidRevocationStatus ports (arb_did a)) arbitrators) (\<lambda>_.
       eff_return (threshold, arbitrators)))))"

text \<open>Step 5: aggregation, then count, uniqueness, membership and verification of the signers.\<close>

definition initialDecision :: "da_env \<Rightarrow> da_input \<Rightarrow> nat \<Rightarrow> arbitration_decision" where
  "initialDecision env inp threshold =
     \<lparr>decisionId = disputeId (filing inp), ad_disputeId = disputeId (filing inp), ad_verdict = verdict inp,
      multisigThreshold = threshold, multisigPoolSize = poolSizeTarget inp,
      decisionCanonicalHash = replicate 64 CHR ''0'', arbitratorSignatures = [], decidedAt = nowIso env\<rparr>"

definition da_step5 ::
  "da_env \<Rightarrow> 'w da_ports \<Rightarrow> da_input \<Rightarrow> nat \<Rightarrow> arbitrator list \<Rightarrow> ('w, arbitration_decision) da_eff" where
  "da_step5 env ports inp threshold arbitrators =
     eff_bind (eff_guard (\<not> multisigPoolSize (initialDecision env inp threshold) < multisigThreshold (initialDecision env inp threshold))
       (DaError DA_ARBITRATOR_INVALID ''multisig_threshold_exceeds_pool_size'')) (\<lambda>_.
     eff_bind (aggregateSignatures ports (initialDecision env inp threshold) arbitrators threshold) (\<lambda>signedDecision.
     eff_bind (eff_guard (\<not> length (arbitratorSignatures signedDecision) < threshold)
       (DaError DA_INSUFFICIENT_SIGNATURES ''insufficient_arbitrator_signatures_after_aggregation'')) (\<lambda>_.
     eff_bind (eff_guard (\<not> duplicate_signer [] (arbitratorSignatures signedDecision))
       (DaError DA_INSUFFICIENT_SIGNATURES ''duplicate_arbitrator_signature_in_aggregation'')) (\<lambda>_.
     eff_bind (eff_guard (list_all (\<lambda>s. arbitratorDid s \<in> arb_did ` set arbitrators) (arbitratorSignatures signedDecision))
       (DaError DA_ARBITRATOR_INVALID ''signer_not_in_selected_arbitrator_pool'')) (\<lambda>_.
     eff_bind (eff_each (\<lambda>s.
         eff_bind (verifyArbitratorSignature ports (arbitratorDid s) (as_signature s) (decisionCanonicalHash signedDecision)) (\<lambda>verified.
           eff_guard verified (DaError DA_INSUFFICIENT_SIGNATURES ''arbitrator_signature_crypto_verification_failed'')))
         (arbitratorSignatures signedDecision)) (\<lambda>_.
       eff_return signedDecision))))))"

definition filed_dispute :: "da_env \<Rightarrow> da_input \<Rightarrow> string \<Rightarrow> string list \<Rightarrow> dispute" where
  "filed_dispute env inp filingCanonicalHash validatedUris =
     \<lparr>d_disputeId = disputeId (filing inp), d_tenantId = da_tenantId inp, d_currentState = FILED,
      d_disputeType = disputeType (filing inp), d_claimantDid = claimantDid (filing inp), d_respondentDid = respondentDid (filing inp),
      disputeFilingCanonicalHash = filingCanonicalHash, d_settlementOperationRef = settlementOperationRef (filing inp),
      d_evidenceUris = validatedUris, d_cspVersion = df_cspVersion (filing inp), d_daVersion = ''1.0.0'',
      d_filedAt = filedAt (filing inp), resolvedAt = None, expiredAt = None, d_attemptedAt = nowIso env, d_createdAt = nowIso env\<rparr>"

definition resolved_event :: "da_env \<Rightarrow> da_input \<Rightarrow> transition_event" where
  "resolved_event env inp =
     \<lparr>te_disputeId = disputeId (filing inp), te_fromState = FILED, te_toState = RESOLVED, transitionedAt = resolvedIso env,
      triggeredBy = ''ARBITRATION_DECISION'', te_auditClass = ''L2'', reviewQueue = False\<rparr>"

text \<open>The seven writes of steps 6 and 7, inside one transaction.\<close>

definition da_writes ::
  "da_env \<Rightarrow> 'w da_ports \<Rightarrow> da_input \<Rightarrow> string \<Rightarrow> string list \<Rightarrow> arbitration_decision \<Rightarrow> ('w, unit) da_eff" where
  "da_writes env ports inp filingCanonicalHash validatedUris signedDecision =
     (let i = disputeId (filing inp) in
      eff_bind (saveDispute ports (filed_dispute env inp filingCanonicalHash validatedUris)) (\<lambda>_.
      eff_bind (recordDisputeFiled ports i filingCanonicalHash) (\<lambda>_.
      eff_bind (storeEvidenceRef ports i validatedUris) (\<lambda>_.
      eff_bind (updateDisputeState ports i RESOLVED (resolvedIso env)) (\<lambda>_.
      eff_bind (saveArbitrationDecision ports signedDecision) (\<lambda>_.
      eff_bind (recordDisputeTransition ports (resolved_event env inp)) (\<lambda>_.
        recordArbitrationDecision ports i (decisionCanonicalHash signedDecision))))))))"

text \<open>Everything before the transaction.\<close>

definition da_checks ::
  "da_env \<Rightarrow> 'w da_ports \<Rightarrow> da_input \<Rightarrow> ('w, string \<times> string list \<times> arbitration_decision) da_eff" where
  "da_checks env ports inp =
     eff_bind (da_step1 env ports inp) (\<lambda>_.
     eff_bind (da_step2 env ports inp) (\<lambda>(filingCanonicalHash, validatedUris).
     eff_bind (da_step3 ports inp) (\<lambda>_.
     eff_bind (da_step4 ports inp) (\<lambda>(threshold, arbitrators).
     eff_bind (da_step5 env ports inp threshold arbitrators) (\<lambda>signedDecision.
       eff_return (filingCanonicalHash, validatedUris, signedDecision))))))"

definition runDisputeArbitration7Steps :: "da_env \<Rightarrow> 'w da_ports \<Rightarrow> da_input \<Rightarrow> ('w, arbitration_result) da_eff" where
  "runDisputeArbitration7Steps env ports inp =
     eff_bind (da_checks env ports inp) (\<lambda>(filingCanonicalHash, validatedUris, signedDecision).
     eff_bind (da_validateStateTransition FILED RESOLVED) (\<lambda>_.
     eff_bind (runInTransaction ports (da_writes env ports inp filingCanonicalHash validatedUris signedDecision)) (\<lambda>_.
       eff_return
         \<lparr>res_dispute = (filed_dispute env inp filingCanonicalHash validatedUris)
            \<lparr>d_currentState := RESOLVED, resolvedAt := Some (resolvedIso env)\<rparr>,
          res_decision = signedDecision, res_event = resolved_event env inp\<rparr>)))"

definition runDisputeExpiry :: "'w da_ports \<Rightarrow> timestamp \<Rightarrow> string \<Rightarrow> ('w, unit) da_eff" where
  "runDisputeExpiry ports expiredIso i =
     eff_bind (da_validateStateTransition FILED EXPIRED) (\<lambda>_.
     eff_bind (updateDisputeState ports i EXPIRED expiredIso) (\<lambda>_.
       recordDisputeTransition ports
         \<lparr>te_disputeId = i, te_fromState = FILED, te_toState = EXPIRED, transitionedAt = expiredIso,
          triggeredBy = ''PC3_TIMEOUT_EXPIRY'', te_auditClass = ''L2'', reviewQueue = True\<rparr>))"

subsection \<open>Lemmas\<close>

lemma duplicate_signer_iff:
  "\<not> duplicate_signer seen ss \<longleftrightarrow> distinct (map arbitratorDid ss) \<and> set (map arbitratorDid ss) \<inter> set seen = {}"
  by (induction seen ss rule: duplicate_signer.induct) auto

lemma computeThreshold_Inr:
  "computeThreshold n = Inr t \<longleftrightarrow> MIN_ARBITRATOR_COUNT \<le> n \<and> n \<le> MAX_ARBITRATOR_COUNT \<and> t = n div 2 + 1"
  by (auto simp: computeThreshold_def)

text \<open>What the checks before the transaction establish.\<close>

definition majority :: "'w da_ports \<Rightarrow> da_input \<Rightarrow> arbitrator list \<Rightarrow> arbitration_decision \<Rightarrow> bool" where
  "majority ports inp pool decision =
     (distinct (map arbitratorDid (arbitratorSignatures decision)) \<and>
      arbitratorDid ` set (arbitratorSignatures decision) \<subseteq> arb_did ` set pool \<and>
      poolSizeTarget inp < 2 * length (arbitratorSignatures decision) \<and>
      MIN_ARBITRATOR_COUNT \<le> poolSizeTarget inp \<and> poolSizeTarget inp \<le> MAX_ARBITRATOR_COUNT \<and>
      (\<forall>a \<in> set pool. \<exists>u v. checkDidRevocationStatus ports (arb_did a) u = (Inr (), v)) \<and>
      (\<forall>s \<in> set (arbitratorSignatures decision). \<exists>u v.
         verifyArbitratorSignature ports (arbitratorDid s) (as_signature s) (decisionCanonicalHash decision) u = (Inr True, v)))"

lemma da_checks_majority:
  assumes "da_checks env ports inp w = (Inr (h, uris, decision), w')"
  shows "\<exists>pool w1 w2. selectArbitrators ports (disputeId (filing inp)) (poolSizeTarget inp) w1 = (Inr pool, w2) \<and>
    majority ports inp pool decision"
proof -
  obtain threshold pool u1 u2 u3 where s4: "da_step4 ports inp u1 = (Inr (threshold, pool), u2)"
    and s5: "da_step5 env ports inp threshold pool u2 = (Inr decision, u3)"
    using assms by (auto simp: da_checks_def eff_bind_Inr)
  obtain v1 v2 v3 where thr: "computeThreshold (poolSizeTarget inp) = Inr threshold"
    and sel: "selectArbitrators ports (disputeId (filing inp)) (poolSizeTarget inp) u1 = (Inr pool, v1)"
    and rev: "eff_each (\<lambda>a. checkDidRevocationStatus ports (arb_did a)) pool v2 = (Inr (), v3)"
    using s4 by (auto simp: da_step4_def eff_bind_Inr eff_lift_def)
  obtain x1 x2 where sigs: "threshold \<le> length (arbitratorSignatures decision)"
    "\<not> duplicate_signer [] (arbitratorSignatures decision)"
    "list_all (\<lambda>s. arbitratorDid s \<in> arb_did ` set pool) (arbitratorSignatures decision)"
    and ver: "eff_each (\<lambda>s.
         eff_bind (verifyArbitratorSignature ports (arbitratorDid s) (as_signature s) (decisionCanonicalHash decision)) (\<lambda>verified.
           eff_guard verified (DaError DA_INSUFFICIENT_SIGNATURES ''arbitrator_signature_crypto_verification_failed'')))
         (arbitratorSignatures decision) x1 = (Inr (), x2)"
    using s5 by (auto simp: da_step5_def eff_bind_Inr)
  have "\<exists>u v. verifyArbitratorSignature ports (arbitratorDid s) (as_signature s) (decisionCanonicalHash decision) u = (Inr True, v)"
    if "s \<in> set (arbitratorSignatures decision)" for s
    using eff_each_Inr[OF ver that] by (auto simp: eff_bind_Inr) blast
  then have "majority ports inp pool decision"
    using thr sigs eff_each_Inr[OF rev]
    by (auto simp: majority_def computeThreshold_Inr duplicate_signer_iff list_all_iff)
  with sel show ?thesis by blast
qed

lemma run_Inr:
  assumes "runDisputeArbitration7Steps env ports inp w = (Inr res, w')"
  obtains h uris w1 w2 where "da_checks env ports inp w = (Inr (h, uris, res_decision res), w1)"
    "runInTransaction ports (da_writes env ports inp h uris (res_decision res)) w1 = (Inr (), w2)" "w' = w2"
    "d_currentState (res_dispute res) = RESOLVED"
  using assms unfolding runDisputeArbitration7Steps_def
  by (auto simp: eff_bind_Inr da_validateStateTransition_def)

subsection \<open>Hypotheses on the ports\<close>

definition reads_only :: "('w \<Rightarrow> 'd) \<Rightarrow> 'w da_ports \<Rightarrow> bool" where
  "reads_only db ports =
     ((\<forall>d as n. keeps db (aggregateSignatures ports d as n)) \<and>
      (\<forall>d s h. keeps db (verifyArbitratorSignature ports d s h)) \<and>
      (\<forall>i n. keeps db (selectArbitrators ports i n)) \<and>
      (\<forall>us. keeps db (validateEvidenceUris ports us)) \<and>
      (\<forall>t. keeps db (isTokenRevoked ports t)) \<and>
      (\<forall>d. keeps db (checkDidRevocationStatus ports d)) \<and>
      (\<forall>p. keeps db (verifyDisputeFilingSignature ports p)) \<and>
      (\<forall>t. keeps db (checkFreshness ports t)) \<and>
      (\<forall>h. keeps db (findByCanonicalHash ports h)) \<and>
      (\<forall>i. keeps db (findByDisputeId ports i)))"

definition tx_law :: "('w \<Rightarrow> 'd) \<Rightarrow> 'w da_ports \<Rightarrow> bool" where
  "tx_law db ports =
     (\<forall>m w. fst (runInTransaction ports m w) = fst (m w) \<and>
        db (snd (runInTransaction ports m w)) = (case fst (m w) of Inl _ \<Rightarrow> db w | Inr _ \<Rightarrow> db (snd (m w))))"

lemma da_checks_keep:
  assumes "reads_only db ports"
  shows "keeps db (da_checks env ports inp)"
  using assms
  unfolding da_checks_def da_step1_def da_step2_def da_step3_def da_step4_def da_step5_def reads_only_def
  by (auto intro!: keeps_bind keeps_each split: option.splits prod.splits)

subsection \<open>Properties\<close>

text \<open>
  C15 (safety). A verdict needs a real majority: a dispute is resolved only with signatures of
  pairwise different arbitrators of the selected pool, more than half the pool size, each
  signature verified against the decision's hash and every member of the pool checked for
  revocation; the pool size is between three and five. Two verdicts from one pool of that size
  have a common signer.
\<close>

theorem verdict_needs_majority:
  assumes pool: "\<And>w p w'. selectArbitrators ports i n w = (Inr p, w') \<Longrightarrow> p = pool" "length pool = n"
    and run: "runDisputeArbitration7Steps env ports inp w = (Inr res, w')" "disputeId (filing inp) = i" "poolSizeTarget inp = n"
    and run': "runDisputeArbitration7Steps env' ports inp' x = (Inr res', x')" "disputeId (filing inp') = i" "poolSizeTarget inp' = n"
  shows "majority ports inp pool (res_decision res) \<and> d_currentState (res_dispute res) = RESOLVED \<and>
    (\<exists>d. d \<in> arbitratorDid ` set (arbitratorSignatures (res_decision res)) \<and>
       d \<in> arbitratorDid ` set (arbitratorSignatures (res_decision res')))"
proof -
  have maj: "majority ports j pool (res_decision r) \<and> d_currentState (res_dispute r) = RESOLVED"
    if "runDisputeArbitration7Steps e ports j u = (Inr r, v)" "disputeId (filing j) = i" "poolSizeTarget j = n" for e j u r v
  proof -
    note rn = that
    obtain h uris u1 u2 where c: "da_checks e ports j u = (Inr (h, uris, res_decision r), u1)"
      "runInTransaction ports (da_writes e ports j h uris (res_decision r)) u1 = (Inr (), u2)" "v = u2"
      "d_currentState (res_dispute r) = RESOLVED"
      by (rule run_Inr[OF rn(1)])
    obtain p u2 u3 where "selectArbitrators ports i n u2 = (Inr p, u3)" "majority ports j p (res_decision r)"
      using da_checks_majority[OF c(1)] unfolding rn(2,3) by blast
    with pool(1) c(4) show ?thesis by blast
  qed
  note m = maj[OF run, THEN conjunct1] maj[OF run, THEN conjunct2] and m' = maj[OF run', THEN conjunct1]
  let ?S = "\<lambda>r. arbitratorDid ` set (arbitratorSignatures (res_decision r))"
  have len: "card (?S r) = length (arbitratorSignatures (res_decision r))" if "majority ports j pool (res_decision r)" for r j
    using that distinct_card[of "map arbitratorDid (arbitratorSignatures (res_decision r))"] by (simp add: majority_def)
  have card: "n < 2 * card (?S res)" "n < 2 * card (?S res')" "?S res \<union> ?S res' \<subseteq> arb_did ` set pool"
    using m(1) m' run(3) run'(3) unfolding len[OF m(1)] len[OF m'] by (simp_all add: majority_def)
  have "?S res \<inter> ?S res' \<noteq> {}"
  proof
    assume "?S res \<inter> ?S res' = {}"
    then have "card (?S res) + card (?S res') = card (?S res \<union> ?S res')"
      by (subst card_Un_disjoint) auto
    also have "\<dots> \<le> card (arb_did ` set pool)"
      using card(3) by (intro card_mono) auto
    also have "\<dots> \<le> length pool"
      by (rule order_trans[OF card_image_le card_length]) simp
    finally show False using card(1,2) pool(2) by linarith
  qed
  then show ?thesis using m by blast
qed

text \<open>The world of the examples: a log of the writes; the pool is three arbitrators.\<close>

definition demo_pool :: "arbitrator list" where
  "demo_pool = map (\<lambda>d. \<lparr>arb_did = d, arb_publicKey = ''k'', isActive = True\<rparr>) [''did:agent:a'', ''did:agent:b'', ''did:agent:c'']"

definition demo_da_ports :: "bool \<Rightarrow> string list da_ports" where
  "demo_da_ports auditUp =
     \<lparr>aggregateSignatures = (\<lambda>d as t. eff_return (d\<lparr>arbitratorSignatures := map (\<lambda>a. \<lparr>arbitratorDid = arb_did a, as_signature = ''s''\<rparr>) (take t as)\<rparr>)),
      verifyArbitratorSignature = (\<lambda>_ _ _. eff_return True), selectArbitrators = (\<lambda>_ _. eff_return demo_pool),
      validateEvidenceUris = (\<lambda>us. eff_return us), storeEvidenceRef = (\<lambda>_ _ w. (Inr (), w @ [''evidence''])),
      isTokenRevoked = (\<lambda>_. eff_return False), checkDidRevocationStatus = (\<lambda>_. eff_return ()),
      verifyDisputeFilingSignature = (\<lambda>_. eff_return True), checkFreshness = (\<lambda>_. eff_return ()),
      recordDisputeTransition = (\<lambda>_ w. (Inr (), w @ [''transition''])), recordDisputeFiled = (\<lambda>_ _ w. (Inr (), w @ [''filed''])),
      recordArbitrationDecision = (\<lambda>_ _ w. if auditUp then (Inr (), w @ [''decision'']) else (Inl (DaOther ''down''), w)),
      findByCanonicalHash = (\<lambda>_. eff_return None), findByDisputeId = (\<lambda>_. eff_return None),
      saveDispute = (\<lambda>_ w. (Inr (), w @ [''dispute''])), updateDisputeState = (\<lambda>_ _ _ w. (Inr (), w @ [''state''])),
      saveArbitrationDecision = (\<lambda>_ w. (Inr (), w @ [''verdict''])),
      runInTransaction = (\<lambda>m w. case m w of (Inl e, _) \<Rightarrow> (Inl e, w) | (Inr u, w') \<Rightarrow> (Inr u, w')),
      validateDisputeFilingSchema = (\<lambda>_. True)\<rparr>"

definition demo_da_env :: da_env where
  "demo_da_env = \<lparr>da_sha = (\<lambda>_. replicate 32 0), da_jcs = (\<lambda>_. ''{}''), da_nowMs = 1772323200000, nowIso = ''n'', resolvedIso = ''r''\<rparr>"

definition demo_filing :: dispute_filing where
  "demo_filing =
     \<lparr>disputeId = ''d1'', claimantDid = ''did:key:z'', respondentDid = ''did:key:y'', disputeType = ''SCOPE_VIOLATION'',
      evidenceUris = [''ipfs://e''], settlementOperationRef = None, df_cspVersion = ''1.0.0'', df_token = ''t'', disclosedClaims = [],
      df_challenge = ''c'', df_audience = ''a'', df_notAfter = ''2026-03-02T00:00:00.000Z'', filedAt = ''2026-02-27T00:00:00.000Z'',
      daVersion = ''1.0.0''\<rparr>"

definition demo_da_input :: da_input where
  "demo_da_input =
     \<lparr>filing = demo_filing,
      da_signedPayload = dispute_filing.extend demo_filing (filing_signed_payload.fields (toHex (replicate 32 0)) ''sig''),
      poolSizeTarget = 3, verdict = CLAIMANT_PREVAILS, da_tenantId = ''tenant''\<rparr>"

theorem verdict_needs_majority_witness:
  "case runDisputeArbitration7Steps demo_da_env (demo_da_ports True) demo_da_input [] of
     (Inr res, w') \<Rightarrow> majority (demo_da_ports True) demo_da_input demo_pool (res_decision res) \<and> length w' = 7
   | _ \<Rightarrow> False"
proof -
  have e: "case runDisputeArbitration7Steps demo_da_env (demo_da_ports True) demo_da_input [] of (Inl _, _) \<Rightarrow> False | (Inr _, w') \<Rightarrow> length w' = 7"
    by code_simp
  then obtain res w' where r: "runDisputeArbitration7Steps demo_da_env (demo_da_ports True) demo_da_input [] = (Inr res, w')" "length w' = 7"
    by (auto split: prod.splits sum.splits)
  have "p = demo_pool" if "selectArbitrators (demo_da_ports True) ''d1'' 3 w = (Inr p, w2)" for w p w2
    using that by (simp add: demo_da_ports_def)
  moreover have "length demo_pool = 3" "disputeId (filing demo_da_input) = ''d1''" "poolSizeTarget demo_da_input = 3"
    by (simp_all add: demo_pool_def demo_da_input_def demo_filing_def)
  ultimately have "majority (demo_da_ports True) demo_da_input demo_pool (res_decision res)"
    using verdict_needs_majority[of "demo_da_ports True" "''d1''" 3 demo_pool demo_da_env demo_da_input "[]" res w'
        demo_da_env demo_da_input "[]" res w'] r by blast
  with r show ?thesis by simp
qed

text \<open>
  Remark (safety). All or nothing: whatever step throws, the ledger is as before the call; when the call
  returns, the ledger is the one after all seven writes. The transaction manager rolls back
  (\<open>tx_law\<close>) and the checks before the transaction only read (\<open>reads_only\<close>).
\<close>

theorem arbitration_is_atomic:
  assumes laws: "reads_only db ports" "tx_law db ports"
    and run: "runDisputeArbitration7Steps env ports inp w = (r, w')"
  shows "(\<forall>e. r = Inl e \<longrightarrow> db w' = db w) \<and>
    (\<forall>res. r = Inr res \<longrightarrow> (\<exists>h uris w1 w2. db w1 = db w \<and>
       da_writes env ports inp h uris (res_decision res) w1 = (Inr (), w2) \<and> db w' = db w2))"
proof (intro conjI allI impI)
  have keep: "db (snd (da_checks env ports inp w)) = db w"
    using da_checks_keep[OF laws(1)] by (simp add: keeps_def)
  have tx: "fst (runInTransaction ports m u) = fst (m u)"
    "db (snd (runInTransaction ports m u)) = (case fst (m u) of Inl _ \<Rightarrow> db u | Inr _ \<Rightarrow> db (snd (m u)))" for m u
    using laws(2) by (simp_all add: tx_law_def)
  have ok: "da_validateStateTransition FILED RESOLVED = (eff_return () :: ('a, unit) da_eff)"
    by (simp add: da_validateStateTransition_def eff_guard_def DISPUTE_STATE_TRANSITIONS_def)
  {
    fix e
    assume r: "r = Inl e"
    show "db w' = db w"
    proof (cases "fst (da_checks env ports inp w)")
      case (Inl a)
      then have "w' = snd (da_checks env ports inp w)"
        using run unfolding runDisputeArbitration7Steps_def eff_bind_def by (auto split: prod.splits sum.splits)
      then show ?thesis using keep by simp
    next
      case (Inr a)
      obtain h uris decision u where a: "da_checks env ports inp w = (Inr (h, uris, decision), u)"
        using Inr by (cases "da_checks env ports inp w"; cases a) auto
      let ?m = "da_writes env ports inp h uris decision"
      have "w' = snd (runInTransaction ports ?m u)" "\<exists>e'. fst (runInTransaction ports ?m u) = Inl e'"
        using run r by (auto simp: runDisputeArbitration7Steps_def ok a eff_bind_def eff_return_def split: prod.splits sum.splits)
      then show ?thesis
        using keep tx[of ?m u] by (auto simp: a split: sum.splits)
    qed
  next
    fix res
    assume "r = Inr res"
    then have run': "runDisputeArbitration7Steps env ports inp w = (Inr res, w')"
      using run by simp
    obtain h uris w1 w2 where c': "da_checks env ports inp w = (Inr (h, uris, res_decision res), w1)"
      "runInTransaction ports (da_writes env ports inp h uris (res_decision res)) w1 = (Inr (), w2)" "w' = w2"
      "d_currentState (res_dispute res) = RESOLVED"
      by (rule run_Inr[OF run'])
    note c = c'(1) c'(2)[folded c'(3)]
    define m where "m = da_writes env ports inp h uris (res_decision res)"
    have "fst (m w1) = Inr ()"
      using tx(1)[of m w1] c(2) by (simp add: m_def)
    moreover have "db w' = db (snd (m w1))"
      using tx(2)[of m w1] c(2) calculation by (simp add: m_def)
    moreover have "db w1 = db w"
      using keep c(1) by simp
    ultimately show "\<exists>h uris w1 w2. db w1 = db w \<and> da_writes env ports inp h uris (res_decision res) w1 = (Inr (), w2) \<and> db w' = db w2"
      unfolding m_def by (metis prod.collapse)
  }
qed

theorem arbitration_is_atomic_witness:
  "runDisputeArbitration7Steps demo_da_env (demo_da_ports False) demo_da_input [''old''] = (Inl (DaOther ''down''), [''old''])"
proof -
  have laws: "reads_only (\<lambda>w. w) (demo_da_ports False)" "tx_law (\<lambda>w. w) (demo_da_ports False)"
    by (auto simp: reads_only_def tx_law_def demo_da_ports_def split: prod.splits sum.splits)
  have f: "fst (runDisputeArbitration7Steps demo_da_env (demo_da_ports False) demo_da_input [''old'']) = Inl (DaOther ''down'')"
    by code_simp
  have "snd (runDisputeArbitration7Steps demo_da_env (demo_da_ports False) demo_da_input [''old'']) = [''old'']"
    using arbitration_is_atomic[OF laws surjective_pairing[of "runDisputeArbitration7Steps demo_da_env (demo_da_ports False) demo_da_input [''old'']"]] f
    by simp
  with f show ?thesis by (simp add: prod_eq_iff)
qed

end
