(* ===== verification/Session_Store.thy ===== *)
theory Session_Store
  imports Js_Text Effects
begin

text \<open>
  \<open>communication/src/session\<close>: the persisted session record (\<open>types.ts\<close>), the in-memory store with
  its binding, compare-and-swap and cascade operations (\<open>in-memory-store.ts\<close>), and the manager over
  a store (\<open>session-manager.ts\<close>).

  The store is the \<open>Map\<close> of the source. An operation is an effect on it: an exception keeps what was
  written before it. \<open>Date.now()\<close> is the argument \<open>clock\<close>, in milliseconds; a patch has its absent
  fields \<open>None\<close>. Revisions are the decimal strings of the source, without the 53-bit limit of the
  number in between.
\<close>

subsection \<open>Sessions\<close>

datatype session_state = CREATED | ACTIVE | IDLE | CLOSED

datatype close_reason = IDLE_TIMEOUT | EXPLICIT_CLOSE | HANDSHAKE_REJECTED | CLOSE_ERROR | REVOKED_TOKEN

datatype encryption_state = OFF | REQUIRED

datatype session_error =
  SESSION_STATE_INVALID | SESSION_NOT_FOUND | SESSION_CLOSED | SESSION_DID_MISMATCH | SESSION_TOKEN_MISMATCH
| SESSION_IDLE_EXPIRED | InvalidDate

record session =
  sessionId :: string
  initiatorDid :: did
  responderDid :: did
  se_principalDid :: did
  capabilityTokenId :: "string option"
  capabilityTokenFingerprint :: "string option"
  state :: session_state
  negotiatedCapabilities :: "string list"
  encryptionState :: encryption_state
  sessionKeyFingerprint :: "string option"
  rekeyCount :: int
  establishedAt :: "timestamp option"
  lastSeenAt :: timestamp
  lastAuthorizedAt :: timestamp
  idleSince :: "timestamp option"
  closedAt :: "timestamp option"
  closeReason :: "close_reason option"
  supersedesSessionId :: "string option"
  didPairKey :: string
  se_createdAt :: timestamp
  updatedAt :: timestamp
  revision :: string

record create_input =
  ci_sessionId :: string
  ci_initiatorDid :: did
  ci_responderDid :: did
  ci_principalDid :: did
  ci_capabilityTokenId :: "string option"
  ci_capabilityTokenFingerprint :: "string option"
  ci_negotiatedCapabilities :: "string list option"
  ci_encryptionState :: "encryption_state option"
  ci_sessionKeyFingerprint :: "string option"
  ci_initialState :: "session_state option"
  ci_supersedesSessionId :: "string option"

record update_patch =
  up_state :: "session_state option"
  up_negotiatedCapabilities :: "string list option"
  up_establishedAt :: "timestamp option"
  up_lastSeenAt :: "timestamp option"
  up_lastAuthorizedAt :: "timestamp option"
  up_idleSince :: "timestamp option option"
  up_closedAt :: "timestamp option"
  up_closeReason :: "close_reason option"
  up_sessionKeyFingerprint :: "string option option"
  up_rekeyCount :: "int option"

record resume_input =
  ri_sessionId :: string
  expectedInitiatorDid :: did
  expectedResponderDid :: did
  ri_expectedTokenId :: "string option"
  ri_expectedFingerprint :: "string option"
  idleHardMs :: int
  ri_negotiatedCapabilities :: "string list"
  ri_now :: "timestamp option"

record claim_params =
  cp_sessionId :: string
  senderDid :: did
  selfDid :: did
  cp_expectedTokenId :: "string option"
  cp_expectedFingerprint :: "string option"
  cp_now :: "timestamp option"

record list_filter =
  lf_initiatorDid :: "did option"
  lf_responderDid :: "did option"
  lf_states :: "session_state list option"
  lf_limit :: "int option"

type_synonym sessions = "(string, session) js_map"
type_synonym 'a session_eff = "(sessions, session_error, 'a) eff"

subsection \<open>Reading and writing the map\<close>

definition LIVE_STATES :: "session_state list" where
  "LIVE_STATES = [CREATED, ACTIVE, IDLE]"

definition bumpRevision :: "string \<Rightarrow> session_error + string" where
  "bumpRevision r =
     (case parseInt10 r of
        None \<Rightarrow> Inl SESSION_STATE_INVALID
      | Some n \<Rightarrow> Inr (if 0 \<le> n + 1 then dec_string (nat (n + 1)) else CHR ''-'' # dec_string (nat (- (n + 1)))))"

definition fetch :: "string \<Rightarrow> session session_eff" where
  "fetch i = (\<lambda>st. case jm_get st i of None \<Rightarrow> (Inl SESSION_NOT_FOUND, st) | Some row \<Rightarrow> (Inr row, st))"

text \<open>\<open>this.sessions.set(id, {...row, ..., revision: bumpRevision(row.revision)})\<close>\<close>

definition write_row :: "string \<Rightarrow> session \<Rightarrow> session \<Rightarrow> session session_eff" where
  "write_row i row changed =
     eff_bind (eff_lift (bumpRevision (revision row))) (\<lambda>r.
     (\<lambda>st. (Inr (changed\<lparr>revision := r\<rparr>), jm_set st i (changed\<lparr>revision := r\<rparr>))))"

definition closed_row :: "timestamp \<Rightarrow> close_reason \<Rightarrow> session \<Rightarrow> session" where
  "closed_row t r row =
     row\<lparr>state := CLOSED, closedAt := Some t, closeReason := Some r, idleSince := None, updatedAt := t\<rparr>"

definition now_or :: "timestamp option \<Rightarrow> int \<Rightarrow> timestamp" where
  "now_or now clock = (case now of None \<Rightarrow> toISOString clock | Some t \<Rightarrow> t)"

text \<open>\<open>nowMs - new Date(t).getTime() > limit\<close>, false with NaN on either side.\<close>

definition elapsed_over :: "int option \<Rightarrow> timestamp \<Rightarrow> int \<Rightarrow> bool" where
  "elapsed_over nowMs t limit = (case (nowMs, getTime t) of (Some a, Some b) \<Rightarrow> limit < a - b | _ \<Rightarrow> False)"

definition iso_of :: "int option \<Rightarrow> timestamp session_eff" where
  "iso_of nowMs = (case nowMs of None \<Rightarrow> eff_throw InvalidDate | Some t \<Rightarrow> eff_return (toISOString t))"

subsection \<open>Creating and updating\<close>

definition did_pair_key :: "did \<Rightarrow> did \<Rightarrow> string" where
  "did_pair_key a b = (if str_le a b then a @ CHR 0x00 # b else b @ CHR 0x00 # a)"

definition new_session :: "create_input \<Rightarrow> timestamp \<Rightarrow> session" where
  "new_session inp now =
     (let isActive = (ci_initialState inp = Some ACTIVE);
          encState = (case ci_encryptionState inp of None \<Rightarrow> OFF | Some e \<Rightarrow> e)
      in \<lparr>sessionId = ci_sessionId inp, initiatorDid = ci_initiatorDid inp, responderDid = ci_responderDid inp,
          se_principalDid = ci_principalDid inp, capabilityTokenId = ci_capabilityTokenId inp,
          capabilityTokenFingerprint = ci_capabilityTokenFingerprint inp, state = (if isActive then ACTIVE else CREATED),
          negotiatedCapabilities = (case ci_negotiatedCapabilities inp of None \<Rightarrow> [] | Some cs \<Rightarrow> cs),
          encryptionState = encState,
          sessionKeyFingerprint = (if encState = REQUIRED then ci_sessionKeyFingerprint inp else None),
          rekeyCount = 0, establishedAt = (if isActive then Some now else None), lastSeenAt = now, lastAuthorizedAt = now,
          idleSince = None, closedAt = None, closeReason = None, supersedesSessionId = ci_supersedesSessionId inp,
          didPairKey = did_pair_key (ci_initiatorDid inp) (ci_responderDid inp), se_createdAt = now, updatedAt = now,
          revision = ''1''\<rparr>)"

definition se_create :: "int \<Rightarrow> create_input \<Rightarrow> session session_eff" where
  "se_create clock inp st =
     (if jm_get st (ci_sessionId inp) \<noteq> None then (Inl SESSION_STATE_INVALID, st)
      else if (case ci_encryptionState inp of None \<Rightarrow> OFF | Some e \<Rightarrow> e) = OFF \<and> ci_sessionKeyFingerprint inp \<noteq> None
        then (Inl SESSION_STATE_INVALID, st)
      else let s = new_session inp (toISOString clock) in (Inr s, jm_set st (ci_sessionId inp) s))"

definition or_keep :: "'a option \<Rightarrow> 'a \<Rightarrow> 'a" where
  "or_keep patch old = (case patch of None \<Rightarrow> old | Some v \<Rightarrow> v)"

definition patched :: "update_patch \<Rightarrow> timestamp \<Rightarrow> session \<Rightarrow> session" where
  "patched patch now row =
     row\<lparr>state := or_keep (up_state patch) (state row),
         negotiatedCapabilities := or_keep (up_negotiatedCapabilities patch) (negotiatedCapabilities row),
         establishedAt := or_keep (map_option Some (up_establishedAt patch)) (establishedAt row),
         lastSeenAt := or_keep (up_lastSeenAt patch) (lastSeenAt row),
         lastAuthorizedAt := or_keep (up_lastAuthorizedAt patch) (lastAuthorizedAt row),
         idleSince := or_keep (up_idleSince patch) (idleSince row),
         closedAt := or_keep (map_option Some (up_closedAt patch)) (closedAt row),
         closeReason := or_keep (map_option Some (up_closeReason patch)) (closeReason row),
         sessionKeyFingerprint := or_keep (up_sessionKeyFingerprint patch) (sessionKeyFingerprint row),
         rekeyCount := or_keep (up_rekeyCount patch) (rekeyCount row),
         updatedAt := now\<rparr>"

definition se_update :: "int \<Rightarrow> string \<Rightarrow> update_patch \<Rightarrow> session session_eff" where
  "se_update clock i patch =
     eff_bind (fetch i) (\<lambda>row.
     if state row = CLOSED then eff_throw SESSION_CLOSED
     else write_row i row (patched patch (toISOString clock) row))"

subsection \<open>Resuming and superseding\<close>

definition resumed_row :: "resume_input \<Rightarrow> timestamp \<Rightarrow> session \<Rightarrow> session" where
  "resumed_row inp now row =
     row\<lparr>state := ACTIVE, negotiatedCapabilities := ri_negotiatedCapabilities inp, lastSeenAt := now, lastAuthorizedAt := now,
         idleSince := None, establishedAt := Some (case establishedAt row of None \<Rightarrow> now | Some t \<Rightarrow> t), updatedAt := now\<rparr>"

text \<open>An absent expected fingerprint is \<open>undefined\<close>, which differs from every stored value, \<open>null\<close> included.\<close>

definition resume_checks :: "resume_input \<Rightarrow> session \<Rightarrow> unit session_eff" where
  "resume_checks inp row =
     (if state row = CLOSED then eff_throw SESSION_CLOSED
      else if state row \<noteq> IDLE then eff_throw SESSION_STATE_INVALID
      else if initiatorDid row \<noteq> expectedInitiatorDid inp \<or> responderDid row \<noteq> expectedResponderDid inp
        then eff_throw SESSION_DID_MISMATCH
      else if ri_expectedTokenId inp \<noteq> None \<and>
          (capabilityTokenId row \<noteq> ri_expectedTokenId inp \<or> ri_expectedFingerprint inp = None \<or>
           capabilityTokenFingerprint row \<noteq> ri_expectedFingerprint inp)
        then eff_throw SESSION_TOKEN_MISMATCH
      else eff_return ())"

definition se_resume :: "int \<Rightarrow> resume_input \<Rightarrow> session session_eff" where
  "se_resume clock inp =
     eff_bind (fetch (ri_sessionId inp)) (\<lambda>row.
     eff_bind (resume_checks inp row) (\<lambda>_.
     let nowMs = now_ms (ri_now inp) clock;
         expired = (case idleSince row of None \<Rightarrow> False | Some t \<Rightarrow> t \<noteq> [] \<and> elapsed_over nowMs t (idleHardMs inp))
     in if expired then
          eff_bind (iso_of nowMs) (\<lambda>nowTs.
          eff_bind (write_row (ri_sessionId inp) row (closed_row nowTs IDLE_TIMEOUT row)) (\<lambda>_.
          eff_throw SESSION_IDLE_EXPIRED))
        else
          eff_bind (iso_of nowMs) (\<lambda>now.
          write_row (ri_sessionId inp) row (resumed_row inp now row))))"

definition supersedeAndCreate ::
  "int \<Rightarrow> string \<Rightarrow> close_reason \<Rightarrow> create_input \<Rightarrow> timestamp option \<Rightarrow> session session_eff" where
  "supersedeAndCreate clock oldId reason inp now =
     eff_bind (fetch oldId) (\<lambda>old.
     eff_bind (if state old \<noteq> CLOSED
               then eff_bind (write_row oldId old (closed_row (now_or now clock) reason old)) (\<lambda>_. eff_return ())
               else eff_return ()) (\<lambda>_.
     se_create clock (inp\<lparr>ci_supersedesSessionId := Some oldId\<rparr>)))"

subsection \<open>Claiming and authorizing\<close>

definition claim_checks :: "claim_params \<Rightarrow> session \<Rightarrow> unit session_eff" where
  "claim_checks p row =
     (if state row = CLOSED then eff_throw SESSION_CLOSED
      else if state row \<noteq> ACTIVE then eff_throw SESSION_STATE_INVALID
      else if \<not> ((initiatorDid row = senderDid p \<and> responderDid row = selfDid p) \<or>
                 (responderDid row = senderDid p \<and> initiatorDid row = selfDid p))
        then eff_throw SESSION_DID_MISMATCH
      else if capabilityTokenId row \<noteq> cp_expectedTokenId p \<or> capabilityTokenFingerprint row \<noteq> cp_expectedFingerprint p
        then eff_throw SESSION_TOKEN_MISMATCH
      else eff_return ())"

definition claimForDispatch :: "int \<Rightarrow> claim_params \<Rightarrow> session session_eff" where
  "claimForDispatch clock p =
     eff_bind (fetch (cp_sessionId p)) (\<lambda>row.
     eff_bind (claim_checks p row) (\<lambda>_.
     let now = now_or (cp_now p) clock in
     write_row (cp_sessionId p) row (row\<lparr>lastSeenAt := now, updatedAt := now\<rparr>)))"

definition markAuthorized :: "int \<Rightarrow> string \<Rightarrow> string \<Rightarrow> timestamp option \<Rightarrow> session session_eff" where
  "markAuthorized clock i expectedRevision tnow =
     eff_bind (fetch i) (\<lambda>row.
     if state row = CLOSED then eff_throw SESSION_CLOSED
     else if state row \<noteq> ACTIVE then eff_throw SESSION_STATE_INVALID
     else if revision row \<noteq> expectedRevision then eff_throw SESSION_STATE_INVALID
     else let now = now_or tnow clock in write_row i row (row\<lparr>lastAuthorizedAt := now, updatedAt := now\<rparr>))"

subsection \<open>Cascades and sweeps\<close>

text \<open>\<open>for (const [id, row] of this.sessions) if (pick(row)) this.sessions.set(id, change(row))\<close>; the ids changed.\<close>

fun for_rows :: "(session \<Rightarrow> bool) \<Rightarrow> (session \<Rightarrow> session) \<Rightarrow> string list \<Rightarrow> string list session_eff" where
  "for_rows pick change [] = eff_return []"
| "for_rows pick change (i # ids) =
     eff_bind (fetch i) (\<lambda>row.
     if pick row
     then eff_bind (write_row i row (change row)) (\<lambda>_.
          eff_bind (for_rows pick change ids) (\<lambda>done. eff_return (i # done)))
     else for_rows pick change ids)"

definition all_rows :: "(session \<Rightarrow> bool) \<Rightarrow> (session \<Rightarrow> session) \<Rightarrow> string list session_eff" where
  "all_rows pick change = (\<lambda>st. for_rows pick change (jm_keys st) st)"

definition closeByToken :: "int \<Rightarrow> string \<Rightarrow> close_reason option \<Rightarrow> timestamp option \<Rightarrow> string list session_eff" where
  "closeByToken clock tokenId r now =
     all_rows (\<lambda>row. capabilityTokenId row = Some tokenId \<and> state row \<in> set LIVE_STATES)
       (closed_row (now_or now clock) (or_keep r REVOKED_TOKEN))"

definition closeByPrincipal :: "int \<Rightarrow> did \<Rightarrow> close_reason option \<Rightarrow> timestamp option \<Rightarrow> string list session_eff" where
  "closeByPrincipal clock pdid r now =
     all_rows (\<lambda>row. se_principalDid row = pdid \<and> state row \<in> set LIVE_STATES)
       (closed_row (now_or now clock) (or_keep r REVOKED_TOKEN))"

definition stale_row :: "timestamp \<Rightarrow> session \<Rightarrow> session" where
  "stale_row t row = row\<lparr>state := CLOSED, closedAt := Some t, closeReason := Some HANDSHAKE_REJECTED, updatedAt := t\<rparr>"

definition idle_row :: "timestamp \<Rightarrow> session \<Rightarrow> session" where
  "idle_row t row = row\<lparr>state := IDLE, idleSince := Some t, updatedAt := t\<rparr>"

definition idle_over :: "int option \<Rightarrow> int \<Rightarrow> session \<Rightarrow> bool" where
  "idle_over nowMs hard row =
     (state row = IDLE \<and> (case idleSince row of None \<Rightarrow> False | Some t \<Rightarrow> t \<noteq> [] \<and> elapsed_over nowMs t hard))"

definition cleanExpired :: "int \<Rightarrow> int \<Rightarrow> int \<Rightarrow> int \<Rightarrow> timestamp option \<Rightarrow> (nat \<times> nat \<times> nat) session_eff" where
  "cleanExpired clock createdTimeoutMs idleSoftMs hardMs tnow =
     (let now = now_ms tnow clock in
      eff_bind (iso_of now) (\<lambda>nowTs.
      eff_bind (all_rows (\<lambda>row. state row = CREATED \<and> elapsed_over now (se_createdAt row) createdTimeoutMs) (stale_row nowTs)) (\<lambda>stale.
      eff_bind (all_rows (\<lambda>row. state row = ACTIVE \<and> elapsed_over now (lastAuthorizedAt row) idleSoftMs) (idle_row nowTs)) (\<lambda>idle.
      eff_bind (all_rows (idle_over now hardMs) (closed_row nowTs IDLE_TIMEOUT)) (\<lambda>closed.
      eff_return (length stale, length idle, length closed))))))"

subsection \<open>Listing\<close>

text \<open>A stable descending sort by \<open>lastSeenAt\<close>; on wire timestamps \<open>localeCompare\<close> is the string order.\<close>

fun insert_recent :: "session \<Rightarrow> session list \<Rightarrow> session list" where
  "insert_recent s [] = [s]"
| "insert_recent s (t # ts) = (if str_le (lastSeenAt t) (lastSeenAt s) then s # t # ts else t # insert_recent s ts)"

definition slice0 :: "int \<Rightarrow> 'a list \<Rightarrow> 'a list" where
  "slice0 n xs = (if 0 \<le> n then take (nat n) xs else take (length xs - nat (- n)) xs)"

definition did_filter :: "did option \<Rightarrow> did \<Rightarrow> bool" where
  "did_filter f d = (case f of None \<Rightarrow> True | Some x \<Rightarrow> x = [] \<or> d = x)"

definition listActive :: "list_filter option \<Rightarrow> sessions \<Rightarrow> session list" where
  "listActive flt st =
     (let states = (case flt of None \<Rightarrow> [ACTIVE] | Some f \<Rightarrow> or_keep (lf_states f) [ACTIVE]);
          wanted = (\<lambda>s. state s \<in> set states \<and>
            (case flt of None \<Rightarrow> True
             | Some f \<Rightarrow> did_filter (lf_initiatorDid f) (initiatorDid s) \<and> did_filter (lf_responderDid f) (responderDid s)));
          results = foldr insert_recent (filter wanted (map snd st)) []
      in case flt of
           Some f \<Rightarrow> (case lf_limit f of None \<Rightarrow> results | Some n \<Rightarrow> if n = 0 then results else slice0 n results)
         | None \<Rightarrow> results)"

subsection \<open>The manager\<close>

record manager_options =
  createdTimeoutMs :: int
  idleSoftMs :: int
  mgr_idleHardMs :: int

definition default_options :: manager_options where
  "default_options = \<lparr>createdTimeoutMs = 60000, idleSoftMs = 300000, mgr_idleHardMs = 1800000\<rparr>"

definition no_patch :: update_patch where
  "no_patch = \<lparr>up_state = None, up_negotiatedCapabilities = None, up_establishedAt = None, up_lastSeenAt = None,
     up_lastAuthorizedAt = None, up_idleSince = None, up_closedAt = None, up_closeReason = None,
     up_sessionKeyFingerprint = None, up_rekeyCount = None\<rparr>"

definition activate :: "int \<Rightarrow> string \<Rightarrow> string list \<Rightarrow> session session_eff" where
  "activate clock i caps =
     eff_bind (fetch i) (\<lambda>_.
     se_update clock i (no_patch\<lparr>up_state := Some ACTIVE, up_negotiatedCapabilities := Some caps,
       up_establishedAt := Some (toISOString clock)\<rparr>))"

definition mgr_resume :: "manager_options \<Rightarrow> int \<Rightarrow> resume_input \<Rightarrow> session session_eff" where
  "mgr_resume opts clock inp = se_resume clock (inp\<lparr>idleHardMs := mgr_idleHardMs opts\<rparr>)"

definition touch :: "int \<Rightarrow> string \<Rightarrow> unit session_eff" where
  "touch clock i =
     (\<lambda>st. case jm_get st i of
        None \<Rightarrow> (Inr (), st)
      | Some s \<Rightarrow>
          if state s \<noteq> ACTIVE then (Inr (), st)
          else eff_bind (se_update clock i (no_patch\<lparr>up_lastSeenAt := Some (toISOString clock)\<rparr>)) (\<lambda>_. eff_return ()) st)"

definition mgr_close :: "int \<Rightarrow> string \<Rightarrow> close_reason \<Rightarrow> unit session_eff" where
  "mgr_close clock i r =
     eff_bind (fetch i) (\<lambda>s.
     if state s = CLOSED then eff_return ()
     else eff_bind (se_update clock i (no_patch\<lparr>up_state := Some CLOSED, up_closedAt := Some (toISOString clock),
            up_closeReason := Some r\<rparr>)) (\<lambda>_. eff_return ()))"

definition sweep :: "manager_options \<Rightarrow> int \<Rightarrow> (nat \<times> nat \<times> nat) session_eff" where
  "sweep opts clock = cleanExpired clock (createdTimeoutMs opts) (idleSoftMs opts) (mgr_idleHardMs opts) None"

subsection \<open>Versioned rows\<close>

text \<open>
  What the compare-and-swap protocol needs from a store: a step keeps every row, and a row it
  changes was not final, keeps its immutable part and gets a higher version.
\<close>

locale versioned_rows =
  fixes row :: "'st \<Rightarrow> 'k \<Rightarrow> 'row option"
    and version :: "'row \<Rightarrow> int"
    and final :: "'row \<Rightarrow> bool"
    and fixed :: "'row \<Rightarrow> 'f"
    and ok :: "'st \<Rightarrow> bool"
    and step :: "'st \<Rightarrow> 'st \<Rightarrow> bool"
  assumes step_ok: "ok st \<Longrightarrow> step st st' \<Longrightarrow> ok st'"
    and step_row: "ok st \<Longrightarrow> step st st' \<Longrightarrow> row st k = Some r \<Longrightarrow>
      \<exists>r'. row st' k = Some r' \<and> (r' = r \<or> (\<not> final r \<and> version r < version r' \<and> fixed r' = fixed r))"
begin

lemma run_row:
  "step\<^sup>*\<^sup>* st st' \<Longrightarrow> ok st \<Longrightarrow> row st k = Some r \<Longrightarrow>
   ok st' \<and> (\<exists>r'. row st' k = Some r' \<and> (r' = r \<or> (\<not> final r \<and> version r < version r' \<and> fixed r' = fixed r)))"
proof (induction rule: rtranclp_induct)
  case (step st1 st2)
  then obtain r1 where r1: "row st1 k = Some r1" "r1 = r \<or> (\<not> final r \<and> version r < version r1 \<and> fixed r1 = fixed r)"
    and ok: "ok st1" by blast
  obtain r2 where "row st2 k = Some r2" "r2 = r1 \<or> (\<not> final r1 \<and> version r1 < version r2 \<and> fixed r2 = fixed r1)"
    using step_row[OF ok step.hyps(2) r1(1)] by blast
  with r1 step_ok[OF ok step.hyps(2)] show ?case by auto
qed auto

lemma same_version_same_row:
  "step\<^sup>*\<^sup>* st st' \<Longrightarrow> ok st \<Longrightarrow> row st k = Some r \<Longrightarrow> row st' k = Some r' \<Longrightarrow> version r' = version r \<Longrightarrow> r' = r"
  using run_row[of st st' k r] by auto

lemma final_row_stays:
  "step\<^sup>*\<^sup>* st st' \<Longrightarrow> ok st \<Longrightarrow> row st k = Some r \<Longrightarrow> final r \<Longrightarrow> row st' k = Some r"
  using run_row[of st st' k r] by auto

end

datatype session_op =
  CreateOp create_input | UpdateOp string update_patch | ResumeOp resume_input
| SupersedeOp string close_reason create_input "timestamp option" | ClaimOp claim_params
| MarkOp string string "timestamp option" | CloseByTokenOp string "close_reason option" "timestamp option"
| CloseByPrincipalOp did "close_reason option" "timestamp option" | CleanOp int int int "timestamp option"

definition discard :: "('w, 'e, 'a) eff \<Rightarrow> ('w, 'e, unit) eff" where
  "discard m = eff_bind m (\<lambda>_. eff_return ())"

definition apply_op :: "int \<Rightarrow> session_op \<Rightarrow> unit session_eff" where
  "apply_op clock oper =
     (case oper of
        CreateOp inp \<Rightarrow> discard (se_create clock inp)
      | UpdateOp i patch \<Rightarrow> discard (se_update clock i patch)
      | ResumeOp inp \<Rightarrow> discard (se_resume clock inp)
      | SupersedeOp i r inp now \<Rightarrow> discard (supersedeAndCreate clock i r inp now)
      | ClaimOp p \<Rightarrow> discard (claimForDispatch clock p)
      | MarkOp i r now \<Rightarrow> discard (markAuthorized clock i r now)
      | CloseByTokenOp t r now \<Rightarrow> discard (closeByToken clock t r now)
      | CloseByPrincipalOp d r now \<Rightarrow> discard (closeByPrincipal clock d r now)
      | CleanOp c soft hard now \<Rightarrow> discard (cleanExpired clock c soft hard now))"

text \<open>A call of the store, returned or thrown.\<close>

inductive session_step :: "sessions \<Rightarrow> sessions \<Rightarrow> bool" where
  call: "session_step st (snd (apply_op clock oper st))"

definition revno :: "session \<Rightarrow> int" where
  "revno s = (case parseInt10 (revision s) of None \<Rightarrow> 0 | Some n \<Rightarrow> n)"

definition fixed_part :: "session \<Rightarrow> string \<times> did \<times> did \<times> did \<times> string option \<times> string option \<times> encryption_state \<times> timestamp" where
  "fixed_part s = (sessionId s, initiatorDid s, responderDid s, se_principalDid s, capabilityTokenId s, capabilityTokenFingerprint s,
     encryptionState s, se_createdAt s)"

definition session_wf :: "sessions \<Rightarrow> bool" where
  "session_wf st = (jm_wf st \<and> (\<forall>i s. jm_get st i = Some s \<longrightarrow> sessionId s = i \<and> (\<exists>n > 0. revision s = dec_string n)))"

definition row_evolves :: "session \<Rightarrow> session \<Rightarrow> bool" where
  "row_evolves r r' = (r' = r \<or> (state r \<noteq> CLOSED \<and> revno r < revno r' \<and> fixed_part r' = fixed_part r))"

definition evolves :: "sessions \<Rightarrow> sessions \<Rightarrow> bool" where
  "evolves st st' = (session_wf st \<longrightarrow> session_wf st' \<and>
     (\<forall>i r. jm_get st i = Some r \<longrightarrow> (\<exists>r'. jm_get st' i = Some r' \<and> row_evolves r r')))"

lemma evolves_refl [simp]: "evolves st st"
  by (simp add: evolves_def row_evolves_def)

lemma row_evolves_trans: "row_evolves a b \<Longrightarrow> row_evolves b c \<Longrightarrow> row_evolves a c"
  by (auto simp: row_evolves_def)

lemma evolves_trans: "evolves a b \<Longrightarrow> evolves b c \<Longrightarrow> evolves a c"
  unfolding evolves_def using row_evolves_trans by meson

text \<open>An effect all of whose outcomes evolve the store.\<close>

definition safe :: "'a session_eff \<Rightarrow> bool" where
  "safe m = (\<forall>st. evolves st (snd (m st)))"

lemma safe_return [simp]: "safe (eff_return a)" "safe (eff_throw e)" "safe (eff_lift r)"
  by (simp_all add: safe_def eff_return_def eff_throw_def eff_lift_def)

lemma safe_fetch [simp]: "safe (fetch i)"
  by (simp add: safe_def fetch_def split: option.splits)

lemma safe_bind:
  assumes "safe m" "\<And>a. safe (k a)"
  shows "safe (eff_bind m k)"
  unfolding safe_def
proof
  fix st
  have m: "evolves st (snd (m st))" and k: "evolves (snd (m st)) (snd (k a (snd (m st))))" for a
    using assms by (simp_all add: safe_def)
  show "evolves st (snd (eff_bind m k st))"
  proof (cases "fst (m st)")
    case (Inl e)
    then have "snd (eff_bind m k st) = snd (m st)"
      by (auto simp: eff_bind_def split: prod.splits)
    with m show ?thesis by simp
  next
    case (Inr a)
    then have "eff_bind m k st = k a (snd (m st))"
      by (auto simp: eff_bind_def split: prod.splits)
    with evolves_trans[OF m k] show ?thesis by simp
  qed
qed

text \<open>Writing back the row that was just fetched, with its immutable part unchanged.\<close>

definition keeps_fixed :: "(session \<Rightarrow> session) \<Rightarrow> bool" where
  "keeps_fixed f = (\<forall>r. fixed_part (f r) = fixed_part r)"

lemma bump_dec: "bumpRevision (dec_string n) = Inr (dec_string (Suc n))"
  by (simp add: bumpRevision_def nat_add_distrib)

lemma write_evolves:
  assumes "jm_get st i = Some row" "state row \<noteq> CLOSED" "fixed_part changed = fixed_part row"
  shows "evolves st (snd (write_row i row changed st))"
proof (unfold evolves_def, intro impI)
  assume wf: "session_wf st"
  obtain n where n: "0 < n" "revision row = dec_string n" "sessionId row = i"
    using wf assms(1) unfolding session_wf_def by blast
  let ?new = "changed\<lparr>revision := dec_string (Suc n)\<rparr>"
  have st': "snd (write_row i row changed st) = jm_set st i ?new"
    by (simp add: write_row_def eff_bind_def eff_lift_def n(2) bump_dec)
  have new: "sessionId ?new = i" "row_evolves row ?new"
    using assms(2,3) n by (auto simp: fixed_part_def row_evolves_def revno_def)
  have "session_wf (jm_set st i ?new)"
    unfolding session_wf_def
  proof (intro conjI allI impI)
    show "jm_wf (jm_set st i ?new)"
      using wf by (intro jm.wf_put) (simp add: session_wf_def)
    fix j s
    assume "jm_get (jm_set st i ?new) j = Some s"
    then show "sessionId s = j" "\<exists>n > 0. revision s = dec_string n"
      using wf new(1) unfolding session_wf_def jm_get_set by (auto split: if_splits)
  qed
  moreover have "\<exists>r'. jm_get (jm_set st i ?new) j = Some r' \<and> row_evolves r r'" if "jm_get st j = Some r" for j r
    using that assms(1) new(2) by (auto simp: jm_get_set row_evolves_def)
  ultimately show "session_wf (snd (write_row i row changed st)) \<and>
      (\<forall>j r. jm_get st j = Some r \<longrightarrow> (\<exists>r'. jm_get (snd (write_row i row changed st)) j = Some r' \<and> row_evolves r r'))"
    unfolding st' by blast
qed

lemma safe_at_bind:
  assumes "snd (m st) = st" "\<And>a. evolves st (snd (k a st))"
  shows "evolves st (snd (eff_bind m k st))"
proof (cases "m st")
  case (Pair r st')
  with assms show ?thesis by (cases r) (auto simp: eff_bind_def)
qed

lemma safe_after:
  assumes "evolves st (snd (m st))" "\<And>a. safe (k a)"
  shows "evolves st (snd (eff_bind m k st))"
proof (cases "m st")
  case (Pair r st')
  with assms show ?thesis
    by (cases r) (auto simp: eff_bind_def safe_def intro: evolves_trans)
qed

lemma safe_fetch_bind:
  assumes "\<And>st row. jm_get st i = Some row \<Longrightarrow> evolves st (snd (g row st))"
  shows "safe (eff_bind (fetch i) g)"
  unfolding safe_def
proof
  fix st
  show "evolves st (snd (eff_bind (fetch i) g st))"
    using assms[of st] by (cases "jm_get st i") (simp_all add: eff_bind_def fetch_def)
qed

lemma evolves_throw [simp]: "evolves st (snd (eff_throw e st))" "evolves st (snd (eff_return a st))"
  by (simp_all add: eff_throw_def eff_return_def)

lemma same_store [simp]: "snd (iso_of t st) = st" "snd (resume_checks inp row st) = st" "snd (claim_checks p row st) = st"
  by (auto simp: iso_of_def resume_checks_def claim_checks_def eff_throw_def eff_return_def split: option.splits)

lemma fixed_parts [simp]:
  "fixed_part (patched patch t row) = fixed_part row" "fixed_part (resumed_row inp t row) = fixed_part row"
  "fixed_part (closed_row t r row) = fixed_part row" "fixed_part (stale_row t row) = fixed_part row"
  "fixed_part (idle_row t row) = fixed_part row" "fixed_part (row\<lparr>lastSeenAt := t, updatedAt := t'\<rparr>) = fixed_part row"
  "fixed_part (row\<lparr>lastAuthorizedAt := t, updatedAt := t'\<rparr>) = fixed_part row"
  by (simp_all add: fixed_part_def patched_def resumed_row_def closed_row_def stale_row_def idle_row_def)

lemma safe_for_rows:
  assumes "\<And>row. pick row \<Longrightarrow> state row \<noteq> CLOSED" "\<And>row. fixed_part (change row) = fixed_part row"
  shows "safe (for_rows pick change ids)"
proof (induction ids)
  case (Cons i ids)
  have rest: "safe (eff_bind (for_rows pick change ids) (\<lambda>done. eff_return (i # done)))"
    by (rule safe_bind[OF Cons]) simp
  have "evolves st (snd ((if pick row
      then eff_bind (write_row i row (change row)) (\<lambda>_. eff_bind (for_rows pick change ids) (\<lambda>done. eff_return (i # done)))
      else for_rows pick change ids) st))" if "jm_get st i = Some row" for st row
    using Cons rest that assms write_evolves[of st i row "change row"]
    by (auto intro!: safe_after simp: safe_def)
  then show ?case
    by (simp only: for_rows.simps) (rule safe_fetch_bind, simp)
qed simp

lemma safe_all_rows:
  assumes "\<And>row. pick row \<Longrightarrow> state row \<noteq> CLOSED" "\<And>row. fixed_part (change row) = fixed_part row"
  shows "safe (all_rows pick change)"
  using safe_for_rows[OF assms] unfolding safe_def all_rows_def by blast

lemma safe_create: "safe (se_create clock inp)"
proof -
  have "evolves st (jm_set st (ci_sessionId inp) (new_session inp t))" if new: "jm_get st (ci_sessionId inp) = None" for st t
    unfolding evolves_def
  proof (intro impI conjI allI)
    assume wf: "session_wf st"
    have "dec_string 1 = ''1''"
      by code_simp
    then have one: "sessionId (new_session inp t) = ci_sessionId inp" "\<exists>n > 0. revision (new_session inp t) = dec_string n"
      by (auto simp: new_session_def Let_def intro!: exI[of _ 1])
    then show "session_wf (jm_set st (ci_sessionId inp) (new_session inp t))"
      using wf by (auto simp: session_wf_def jm_get_set jm.wf_put split: if_splits)
    fix i r
    assume "jm_get st i = Some r"
    with new show "\<exists>r'. jm_get (jm_set st (ci_sessionId inp) (new_session inp t)) i = Some r' \<and> row_evolves r r'"
      by (auto simp: jm_get_set row_evolves_def)
  qed
  then show ?thesis
    by (simp add: safe_def se_create_def Let_def)
qed

lemma safe_ops:
  "safe (se_update clock i patch)" "safe (se_resume clock rinp)" "safe (claimForDispatch clock p)"
  "safe (markAuthorized clock i rv now)" "safe (closeByToken clock t rs now)" "safe (closeByPrincipal clock d rs now)"
proof -
  show "safe (se_update clock i patch)"
    unfolding se_update_def by (rule safe_fetch_bind) (auto intro: write_evolves)
  show "safe (markAuthorized clock i rv now)"
    unfolding markAuthorized_def by (rule safe_fetch_bind) (auto intro: write_evolves simp: Let_def)
  show "safe (closeByToken clock t rs now)"
    unfolding closeByToken_def by (rule safe_all_rows) (auto simp: LIVE_STATES_def)
  show "safe (closeByPrincipal clock d rs now)"
    unfolding closeByPrincipal_def by (rule safe_all_rows) (auto simp: LIVE_STATES_def)
  show "safe (claimForDispatch clock p)"
    unfolding claimForDispatch_def
  proof (rule safe_fetch_bind)
    fix st :: sessions and row
    assume "jm_get st (cp_sessionId p) = Some row"
    then show "evolves st (snd (eff_bind (claim_checks p row) (\<lambda>_. let now = now_or (cp_now p) clock in
        write_row (cp_sessionId p) row (row\<lparr>lastSeenAt := now, updatedAt := now\<rparr>)) st))"
      by (cases "state row = CLOSED") (auto simp: Let_def claim_checks_def intro!: safe_at_bind write_evolves)
  qed
  show "safe (se_resume clock rinp)"
    unfolding se_resume_def
  proof (rule safe_fetch_bind)
    fix st :: sessions and row
    let ?i = "ri_sessionId rinp"
    assume row: "jm_get st ?i = Some row"
    show "evolves st (snd (eff_bind (resume_checks rinp row) (\<lambda>_. let nowMs = now_ms (ri_now rinp) clock;
         expired = (case idleSince row of None \<Rightarrow> False | Some t \<Rightarrow> t \<noteq> [] \<and> elapsed_over nowMs t (idleHardMs rinp))
     in if expired then
          eff_bind (iso_of nowMs) (\<lambda>nowTs.
          eff_bind (write_row ?i row (closed_row nowTs IDLE_TIMEOUT row)) (\<lambda>_.
          eff_throw SESSION_IDLE_EXPIRED))
        else
          eff_bind (iso_of nowMs) (\<lambda>now.
          write_row ?i row (resumed_row rinp now row))) st))"
    proof (cases "state row = CLOSED")
      case True
      then show ?thesis by (simp add: resume_checks_def)
    next
      case False
      have "evolves st (snd (eff_bind (write_row ?i row (closed_row t IDLE_TIMEOUT row)) (\<lambda>_. eff_throw SESSION_IDLE_EXPIRED) st))"
        "evolves st (snd (write_row ?i row (resumed_row rinp t row) st))" for t
        by (rule safe_after, rule write_evolves[OF row False]; simp) (rule write_evolves[OF row False]; simp)
      then show ?thesis
        unfolding Let_def
        by (intro safe_at_bind[where m = "resume_checks _ _"]) (auto intro!: safe_at_bind[where m = "iso_of _"])
    qed
  qed
qed

lemma safe_supersede: "safe (supersedeAndCreate clock i r inp now)"
  unfolding supersedeAndCreate_def
  using safe_create[unfolded safe_def]
  by (intro safe_fetch_bind) (auto intro!: safe_after safe_create write_evolves)

lemma safe_clean: "safe (cleanExpired clock c soft hard now)"
  unfolding cleanExpired_def Let_def
  by (intro safe_bind safe_all_rows) (auto simp: safe_def idle_over_def)

lemma safe_apply_op: "safe (apply_op clock oper)"
  by (cases oper) (auto simp: apply_op_def discard_def intro!: safe_bind safe_create safe_ops safe_supersede safe_clean)

interpretation ims: versioned_rows jm_get revno "\<lambda>s. state s = CLOSED" fixed_part session_wf session_step
proof
  fix st st' :: sessions and i r
  assume wf: "session_wf st" and step: "session_step st st'"
  have "evolves st st'"
    using step safe_apply_op by (auto simp: session_step.simps safe_def)
  with wf show "session_wf st'" "jm_get st i = Some r \<Longrightarrow>
      \<exists>r'. jm_get st' i = Some r' \<and> (r' = r \<or> (state r \<noteq> CLOSED \<and> revno r < revno r' \<and> fixed_part r' = fixed_part r))"
    by (auto simp: evolves_def row_evolves_def)
qed

subsection \<open>What returned calls have seen\<close>

lemma fetch_Inr [simp]: "fetch i st = (Inr row, st') \<longleftrightarrow> jm_get st i = Some row \<and> st' = st"
  by (auto simp: fetch_def split: option.splits)

lemma write_row_Inr:
  "write_row i row changed st = (Inr s, st') \<longleftrightarrow>
   (\<exists>r. bumpRevision (revision row) = Inr r \<and> s = changed\<lparr>revision := r\<rparr> \<and> st' = jm_set st i s)"
  by (auto simp: write_row_def eff_bind_Inr eff_lift_def)

lemma claim_checks_Inr:
  "claim_checks p row st = (Inr u, st') \<longleftrightarrow> st' = st \<and> state row = ACTIVE \<and>
   {initiatorDid row, responderDid row} = {senderDid p, selfDid p} \<and>
   capabilityTokenId row = cp_expectedTokenId p \<and> capabilityTokenFingerprint row = cp_expectedFingerprint p"
  by (auto simp: claim_checks_def doubleton_eq_iff)

lemma claim_Inr:
  assumes "claimForDispatch clock p st = (Inr s, st')"
  shows "jm_get st' (cp_sessionId p) = Some s" "state s = ACTIVE" "{initiatorDid s, responderDid s} = {senderDid p, selfDid p}"
    "capabilityTokenId s = cp_expectedTokenId p" "capabilityTokenFingerprint s = cp_expectedFingerprint p"
proof -
  obtain row st1 where "claim_checks p row st1 = (Inr (), st1)"
    and w: "write_row (cp_sessionId p) row (row\<lparr>lastSeenAt := now_or (cp_now p) clock, updatedAt := now_or (cp_now p) clock\<rparr>) st1 = (Inr s, st')"
    using assms unfolding claimForDispatch_def eff_bind_Inr Let_def by (metis claim_checks_Inr old.unit.exhaust)
  then have row: "state row = ACTIVE" "{initiatorDid row, responderDid row} = {senderDid p, selfDid p}"
    "capabilityTokenId row = cp_expectedTokenId p" "capabilityTokenFingerprint row = cp_expectedFingerprint p"
    unfolding claim_checks_Inr by simp_all
  obtain r where s: "s = row\<lparr>lastSeenAt := now_or (cp_now p) clock, updatedAt := now_or (cp_now p) clock, revision := r\<rparr>"
    "st' = jm_set st1 (cp_sessionId p) s"
    using w unfolding write_row_Inr by auto
  show "jm_get st' (cp_sessionId p) = Some s"
    by (simp add: s(2) jm_get_set)
  show "state s = ACTIVE" "{initiatorDid s, responderDid s} = {senderDid p, selfDid p}"
    "capabilityTokenId s = cp_expectedTokenId p" "capabilityTokenFingerprint s = cp_expectedFingerprint p"
    using row by (simp_all add: s(1))
qed

lemma op_step:
  "claimForDispatch clock p st = (x, st') \<Longrightarrow> session_step st st'"
  "closeByToken clock t r now st = (y, st') \<Longrightarrow> session_step st st'"
proof -
  have d: "snd (discard m st) = snd (m st)" for m :: "'a session_eff"
    by (cases "m st"; cases "fst (m st)") (auto simp: discard_def eff_bind_def eff_return_def)
  show "claimForDispatch clock p st = (x, st') \<Longrightarrow> session_step st st'"
    using session_step.call[of st clock "ClaimOp p"] d[of "claimForDispatch clock p"] by (simp add: apply_op_def)
  have d: "snd (discard m st) = snd (m st)" for m :: "'b session_eff"
    by (cases "m st"; cases "fst (m st)") (auto simp: discard_def eff_bind_def eff_return_def)
  show "closeByToken clock t r now st = (y, st') \<Longrightarrow> session_step st st'"
    using session_step.call[of st clock "CloseByTokenOp t r now"] d[of "closeByToken clock t r now"] by (simp add: apply_op_def)
qed

lemma mark_Inr:
  assumes "markAuthorized clock i rv now st = (Inr s, st')"
  obtains row where "jm_get st i = Some row" "revision row = rv" "state row = ACTIVE"
  using assms by (auto simp: markAuthorized_def eff_bind_Inr split: if_splits)

lemma closed_row_throws:
  assumes "jm_get st i = Some row" "state row = CLOSED"
  shows "fst (se_update clock i patch st) = Inl SESSION_CLOSED"
    "ri_sessionId rinp = i \<Longrightarrow> fst (se_resume clock rinp st) = Inl SESSION_CLOSED"
    "cp_sessionId p = i \<Longrightarrow> fst (claimForDispatch clock p st) = Inl SESSION_CLOSED"
    "fst (markAuthorized clock i rv now st) = Inl SESSION_CLOSED"
  using assms
  by (auto simp: se_update_def se_resume_def claimForDispatch_def markAuthorized_def eff_bind_def fetch_def eff_throw_def
      resume_checks_def claim_checks_def)

text \<open>A pass over the rows, on a well-formed store, changes exactly the picked rows and reports them.\<close>

lemma for_rows_run:
  assumes live: "\<And>row. pick row \<Longrightarrow> state row \<noteq> CLOSED" and fp: "\<And>row. fixed_part (change row) = fixed_part row"
    and "session_wf st" "distinct ids" "set ids \<subseteq> set (jm_keys st)"
  shows "\<exists>st'. for_rows pick change ids st = (Inr (filter (\<lambda>i. \<exists>s. jm_get st i = Some s \<and> pick s) ids), st') \<and>
    (\<forall>j s. jm_get st j = Some s \<longrightarrow>
       jm_get st' j = Some (if j \<in> set ids \<and> pick s then (change s)\<lparr>revision := dec_string (nat (revno s + 1))\<rparr> else s)) \<and>
    (\<forall>j. jm_get st j = None \<longrightarrow> jm_get st' j = None)"
  using assms(3-5)
proof (induction ids arbitrary: st)
  case (Cons i ids)
  obtain s where s: "jm_get st i = Some s"
    using Cons.prems(3) jm.in_keys[of i st] by auto
  obtain n where n: "revision s = dec_string n"
    using Cons.prems(1) s unfolding session_wf_def by blast
  show ?case
  proof (cases "pick s")
    case False
    then show ?thesis
      using Cons.IH[of st] Cons.prems s by (auto simp: eff_bind_def fetch_def)
  next
    case True
    let ?new = "(change s)\<lparr>revision := dec_string (nat (revno s + 1))\<rparr>"
    let ?st = "jm_set st i ?new"
    have w: "write_row i s (change s) st = (Inr ?new, ?st)"
      by (simp add: write_row_Inr n bump_dec revno_def nat_add_distrib)
    have get: "jm_get ?st j = (if j = i then Some ?new else jm_get st j)" for j
      by (rule jm_get_set)
    have "session_wf ?st"
      using write_evolves[OF s live[OF True] fp] Cons.prems(1) by (simp add: w evolves_def)
    moreover have "set ids \<subseteq> set (jm_keys ?st)"
      using Cons.prems(3) by (auto simp: jm_keys_set)
    ultimately obtain st' where st': "for_rows pick change ids ?st = (Inr (filter (\<lambda>i. \<exists>s. jm_get ?st i = Some s \<and> pick s) ids), st')"
      "\<forall>j s. jm_get ?st j = Some s \<longrightarrow>
         jm_get st' j = Some (if j \<in> set ids \<and> pick s then (change s)\<lparr>revision := dec_string (nat (revno s + 1))\<rparr> else s)"
      "\<forall>j. jm_get ?st j = None \<longrightarrow> jm_get st' j = None"
      using Cons.IH[of ?st] Cons.prems(2) by auto
    have i: "i \<notin> set ids" using Cons.prems(2) by simp
    have ids: "filter (\<lambda>i. \<exists>s. jm_get ?st i = Some s \<and> pick s) ids = filter (\<lambda>i. \<exists>s. jm_get st i = Some s \<and> pick s) ids"
      by (rule filter_cong) (use i get in auto)
    have "for_rows pick change (i # ids) st = (Inr (filter (\<lambda>i. \<exists>s. jm_get st i = Some s \<and> pick s) (i # ids)), st')"
      using True s st'(1) ids w by (simp add: eff_bind_def fetch_def eff_return_def)
    moreover have "jm_get st' j = Some (if j \<in> set (i # ids) \<and> pick x then (change x)\<lparr>revision := dec_string (nat (revno x + 1))\<rparr> else x)"
      if "jm_get st j = Some x" for j x
      using st'(2) i get that s True by (cases "j = i") auto
    moreover have "jm_get st' j = None" if "jm_get st j = None" for j
      using st'(3) get that s by (cases "j = i") auto
    ultimately show ?thesis by blast
  qed
qed (simp add: eff_return_def)

lemma closeByToken_run:
  assumes "session_wf st"
  shows "\<exists>st'. closeByToken clock t r now st =
      (Inr (filter (\<lambda>i. \<exists>s. jm_get st i = Some s \<and> capabilityTokenId s = Some t \<and> state s \<noteq> CLOSED) (jm_keys st)), st') \<and>
    (\<forall>j s. jm_get st j = Some s \<longrightarrow> jm_get st' j = Some
       (if capabilityTokenId s = Some t \<and> state s \<noteq> CLOSED
        then (closed_row (now_or now clock) (or_keep r REVOKED_TOKEN) s)\<lparr>revision := dec_string (nat (revno s + 1))\<rparr> else s)) \<and>
    (\<forall>j. jm_get st j = None \<longrightarrow> jm_get st' j = None)"
proof -
  have live: "state s \<in> set LIVE_STATES \<longleftrightarrow> state s \<noteq> CLOSED" for s :: session
    by (cases "state s") (simp_all add: LIVE_STATES_def)
  have keys: "j \<in> set (jm_keys st)" if "jm_get st j = Some s" for j s
    using that jm.in_keys[of j st] by simp
  have d: "distinct (jm_keys st)"
    using assms by (simp add: session_wf_def jm_wf_def)
  show ?thesis
    using for_rows_run[where pick = "\<lambda>s. capabilityTokenId s = Some t \<and> state s \<noteq> CLOSED" and
        change = "closed_row (now_or now clock) (or_keep r REVOKED_TOKEN)", OF _ _ assms d subset_refl]
    unfolding closeByToken_def all_rows_def live by (auto simp: keys)
qed

subsection \<open>Properties\<close>

text \<open>
  C16 (safety). The authorization stamp lands on the claimed row or nowhere: a message claims its
  session, any calls of the store follow, and then \<open>markAuthorized\<close> is tried with the claimed
  revision. If it returns, the row is still exactly the claimed one: active, between the two DIDs,
  bound to the expected token. Every intervening change makes the stamp fail.
\<close>

theorem authorization_fenced:
  assumes wf: "session_wf st" and claim: "claimForDispatch clock p st = (Inr s, st1)"
    and run: "session_step\<^sup>*\<^sup>* st1 st2" and mark: "markAuthorized clock' (cp_sessionId p) (revision s) now st2 = (Inr s', st3)"
  shows "jm_get st2 (cp_sessionId p) = Some s \<and> state s = ACTIVE \<and>
    {initiatorDid s, responderDid s} = {senderDid p, selfDid p} \<and>
    capabilityTokenId s = cp_expectedTokenId p \<and> capabilityTokenFingerprint s = cp_expectedFingerprint p"
proof -
  have wf1: "session_wf st1"
    using ims.step_ok[OF wf op_step(1)[OF claim]] .
  obtain row where row: "jm_get st2 (cp_sessionId p) = Some row" "revision row = revision s"
    by (rule mark_Inr[OF mark])
  have "row = s"
    by (rule ims.same_version_same_row[OF run wf1 claim_Inr(1)[OF claim] row(1)]) (simp add: revno_def row(2))
  with row(1) claim_Inr[OF claim] show ?thesis by simp
qed

text \<open>
  C17 (invariant). Rows only move forward: after any calls of the store, a session is still there; if
  it was closed it is unchanged and every use of it is refused as closed; if it changed, its revision
  has grown and its id, DIDs, principal, token binding, encryption state and creation time are the same.
\<close>

theorem sessions_move_forward:
  assumes wf: "session_wf st" and run: "session_step\<^sup>*\<^sup>* st st'" and row: "jm_get st i = Some s"
  shows "\<exists>s'. jm_get st' i = Some s' \<and> (s' = s \<or> (state s \<noteq> CLOSED \<and> revno s < revno s' \<and> fixed_part s' = fixed_part s)) \<and>
    (state s = CLOSED \<longrightarrow>
       fst (se_update clock i patch st') = Inl SESSION_CLOSED \<and>
       fst (se_resume clock (rinp\<lparr>ri_sessionId := i\<rparr>) st') = Inl SESSION_CLOSED \<and>
       fst (claimForDispatch clock (p\<lparr>cp_sessionId := i\<rparr>) st') = Inl SESSION_CLOSED \<and>
       fst (markAuthorized clock i rv now st') = Inl SESSION_CLOSED)"
proof -
  obtain s' where s': "jm_get st' i = Some s'" "s' = s \<or> (state s \<noteq> CLOSED \<and> revno s < revno s' \<and> fixed_part s' = fixed_part s)"
    using ims.run_row[OF run wf row] by blast
  show ?thesis
  proof (cases "state s = CLOSED")
    case True
    with s' have c: "jm_get st' i = Some s" by auto
    show ?thesis
      using closed_row_throws[OF c True] c by (intro exI[of _ s]) auto
  next
    case False
    with s' show ?thesis by auto
  qed
qed

text \<open>
  Remark (safety). Revocation cascades: \<open>closeByToken\<close> returns the ids of exactly the live sessions bound
  to the token, closes them with the reason and leaves the others as they were; no later sequence of
  calls lets one of them be claimed again.
\<close>

theorem token_revocation_cascades:
  assumes wf: "session_wf st" and close: "closeByToken clock t r now st = (res, st')" and run: "session_step\<^sup>*\<^sup>* st' st''"
  shows "\<exists>ids. res = Inr ids \<and>
    (\<forall>i s. jm_get st i = Some s \<longrightarrow>
       (i \<in> set ids \<longleftrightarrow> capabilityTokenId s = Some t \<and> state s \<noteq> CLOSED) \<and>
       (if i \<in> set ids
        then (\<exists>s'. jm_get st' i = Some s' \<and> state s' = CLOSED \<and> closeReason s' = Some (or_keep r REVOKED_TOKEN)) \<and>
             fst (claimForDispatch clock' (p\<lparr>cp_sessionId := i\<rparr>) st'') = Inl SESSION_CLOSED
        else jm_get st' i = Some s))"
proof -
  let ?hit = "\<lambda>s. capabilityTokenId s = Some t \<and> state s \<noteq> CLOSED"
  let ?new = "\<lambda>s. (closed_row (now_or now clock) (or_keep r REVOKED_TOKEN) s)\<lparr>revision := dec_string (nat (revno s + 1))\<rparr>"
  have res: "res = Inr (filter (\<lambda>i. \<exists>s. jm_get st i = Some s \<and> ?hit s) (jm_keys st))"
    using closeByToken_run[OF wf, of clock t r now] close by auto
  have rows: "jm_get st' j = Some (if ?hit s then ?new s else s)" if "jm_get st j = Some s" for j s
    using closeByToken_run[OF wf, of clock t r now] close that by auto
  have wf': "session_wf st'"
    using ims.step_ok[OF wf op_step(2)[OF close]] .
  have closed: "state (?new s) = CLOSED" "closeReason (?new s) = Some (or_keep r REVOKED_TOKEN)" for s
    by (simp_all add: closed_row_def)
  have later: "fst (claimForDispatch clock' (p\<lparr>cp_sessionId := i\<rparr>) st'') = Inl SESSION_CLOSED" if "jm_get st i = Some s" "?hit s" for i s
  proof -
    have "jm_get st'' i = Some (?new s)"
      using ims.final_row_stays[OF run wf', of i "?new s"] rows[OF that(1)] that(2) closed by simp
    from closed_row_throws(3)[OF this closed(1)] show ?thesis by simp
  qed
  have ids: "i \<in> set (filter (\<lambda>i. \<exists>s. jm_get st i = Some s \<and> ?hit s) (jm_keys st)) \<longleftrightarrow> ?hit s" if "jm_get st i = Some s" for i s
    using that jm.in_keys[of i st] by auto
  show ?thesis
  proof (intro exI[of _ "filter (\<lambda>i. \<exists>s. jm_get st i = Some s \<and> ?hit s) (jm_keys st)"] conjI allI impI)
    fix i s
    assume i: "jm_get st i = Some s"
    show "(i \<in> set (filter (\<lambda>i. \<exists>s. jm_get st i = Some s \<and> ?hit s) (jm_keys st))) = ?hit s"
      by (rule ids[OF i])
    show "if i \<in> set (filter (\<lambda>i. \<exists>s. jm_get st i = Some s \<and> ?hit s) (jm_keys st))
        then (\<exists>s'. jm_get st' i = Some s' \<and> state s' = CLOSED \<and> closeReason s' = Some (or_keep r REVOKED_TOKEN)) \<and>
             fst (claimForDispatch clock' (p\<lparr>cp_sessionId := i\<rparr>) st'') = Inl SESSION_CLOSED
        else jm_get st' i = Some s"
      unfolding ids[OF i] using rows[OF i] later[OF i] closed[of s] by auto
  qed (rule res)
qed

text \<open>
  Remark (bounds). A session is resumed only within its idle limit: the row was idle, between the expected
  DIDs and (where given) bound to the expected token, and with a readable idle time no more than
  \<open>idleHardMs\<close> have passed; the resumed session is active and has the same binding.
\<close>

theorem resume_within_idle_limit:
  assumes "se_resume clock inp st = (Inr s, st')"
  shows "\<exists>row. jm_get st (ri_sessionId inp) = Some row \<and> state row = IDLE \<and>
    initiatorDid row = expectedInitiatorDid inp \<and> responderDid row = expectedResponderDid inp \<and>
    (\<forall>t. ri_expectedTokenId inp = Some t \<longrightarrow> capabilityTokenId row = Some t \<and> capabilityTokenFingerprint row = ri_expectedFingerprint inp) \<and>
    (\<forall>t a b. idleSince row = Some t \<and> now_ms (ri_now inp) clock = Some a \<and> getTime t = Some b \<longrightarrow> a - b \<le> idleHardMs inp) \<and>
    state s = ACTIVE \<and> idleSince s = None \<and> fixed_part s = fixed_part row"
proof -
  obtain row st1 where row: "jm_get st (ri_sessionId inp) = Some row" and chk: "resume_checks inp row st = (Inr (), st1)"
    and tl: "(let nowMs = now_ms (ri_now inp) clock;
         expired = (case idleSince row of None \<Rightarrow> False | Some t \<Rightarrow> t \<noteq> [] \<and> elapsed_over nowMs t (idleHardMs inp))
     in if expired then
          eff_bind (iso_of nowMs) (\<lambda>nowTs.
          eff_bind (write_row (ri_sessionId inp) row (closed_row nowTs IDLE_TIMEOUT row)) (\<lambda>_.
          eff_throw SESSION_IDLE_EXPIRED))
        else
          eff_bind (iso_of nowMs) (\<lambda>now.
          write_row (ri_sessionId inp) row (resumed_row inp now row))) st1 = (Inr s, st')"
    using assms unfolding se_resume_def eff_bind_Inr fetch_Inr by auto
  have c: "state row = IDLE" "initiatorDid row = expectedInitiatorDid inp" "responderDid row = expectedResponderDid inp"
    "ri_expectedTokenId inp = Some t \<Longrightarrow> capabilityTokenId row = Some t \<and> capabilityTokenFingerprint row = ri_expectedFingerprint inp" for t
    using chk by (auto simp: resume_checks_def split: if_splits)
  have ne: "\<not> (case idleSince row of None \<Rightarrow> False | Some t \<Rightarrow> t \<noteq> [] \<and> elapsed_over (now_ms (ri_now inp) clock) t (idleHardMs inp))"
  proof
    assume "case idleSince row of None \<Rightarrow> False | Some t \<Rightarrow> t \<noteq> [] \<and> elapsed_over (now_ms (ri_now inp) clock) t (idleHardMs inp)"
    with tl show False by (simp add: Let_def eff_bind_Inr)
  qed
  with tl obtain n where "write_row (ri_sessionId inp) row (resumed_row inp n row) st1 = (Inr s, st')"
    by (auto simp: Let_def eff_bind_Inr iso_of_def split: option.splits)
  then obtain rv where s: "s = (resumed_row inp n row)\<lparr>revision := rv\<rparr>"
    unfolding write_row_Inr by blast
  have "getTime [] = None"
    by code_simp
  with ne have "a - b \<le> idleHardMs inp" if "idleSince row = Some t" "now_ms (ri_now inp) clock = Some a" "getTime t = Some b" for t a b
    using that by (auto simp: elapsed_over_def split: option.splits)
  with row c s show ?thesis
    by (auto simp: resumed_row_def fixed_part_def)
qed

subsection \<open>Witnesses\<close>

definition demo_create :: create_input where
  "demo_create = \<lparr>ci_sessionId = ''s1'', ci_initiatorDid = ''did:a'', ci_responderDid = ''did:b'', ci_principalDid = ''did:p'',
     ci_capabilityTokenId = Some ''t1'', ci_capabilityTokenFingerprint = Some ''f1'', ci_negotiatedCapabilities = None,
     ci_encryptionState = None, ci_sessionKeyFingerprint = None, ci_initialState = Some ACTIVE, ci_supersedesSessionId = None\<rparr>"

definition demo_sessions :: sessions where
  "demo_sessions = snd (apply_op 0 (CreateOp demo_create) [])"

definition demo_claim :: claim_params where
  "demo_claim = \<lparr>cp_sessionId = ''s1'', senderDid = ''did:b'', selfDid = ''did:a'', cp_expectedTokenId = Some ''t1'',
     cp_expectedFingerprint = Some ''f1'', cp_now = None\<rparr>"

lemma demo_sessions_wf: "session_wf demo_sessions"
  unfolding demo_sessions_def
  by (rule ims.step_ok[OF _ session_step.call]) (simp add: session_wf_def jm_wf_def jm_keys_def jm_get_def)

theorem authorization_fenced_witness:
  "\<exists>s st1 s' st3. claimForDispatch 1000 demo_claim demo_sessions = (Inr s, st1) \<and>
     markAuthorized 2000 ''s1'' (revision s) None st1 = (Inr s', st3) \<and> state s = ACTIVE \<and> capabilityTokenId s = Some ''t1''"
proof -
  have ran: "\<not> isl (fst (claimForDispatch 1000 demo_claim demo_sessions))"
    "\<not> isl (fst (markAuthorized 2000 ''s1'' (revision (projr (fst (claimForDispatch 1000 demo_claim demo_sessions)))) None
       (snd (claimForDispatch 1000 demo_claim demo_sessions))))"
    by code_simp+
  then obtain s st1 s' st3 where r: "claimForDispatch 1000 demo_claim demo_sessions = (Inr s, st1)"
    "markAuthorized 2000 ''s1'' (revision s) None st1 = (Inr s', st3)"
    by (metis prod.collapse sum.collapse(2) sum.sel(2))
  have "cp_sessionId demo_claim = ''s1''" "cp_expectedTokenId demo_claim = Some ''t1''"
    by (simp_all add: demo_claim_def)
  then show ?thesis
    using authorization_fenced[OF demo_sessions_wf r(1) rtranclp.rtrancl_refl, of 2000 None s' st3] r by auto
qed

definition demo_closed :: sessions where
  "demo_closed = snd (apply_op 5 (CloseByTokenOp ''t1'' None None) demo_sessions)"

theorem sessions_move_forward_witness:
  "\<exists>s s'. jm_get demo_sessions ''s1'' = Some s \<and> jm_get demo_closed ''s1'' = Some s' \<and> s' \<noteq> s \<and> revno s < revno s'"
proof -
  have "case (jm_get demo_sessions ''s1'', jm_get demo_closed ''s1'') of (Some s, Some s') \<Rightarrow> state s = ACTIVE \<and> state s' = CLOSED | _ \<Rightarrow> False"
    by code_simp
  then obtain s s' where r: "jm_get demo_sessions ''s1'' = Some s" "jm_get demo_closed ''s1'' = Some s'" "state s = ACTIVE" "state s' = CLOSED"
    by (auto split: option.splits)
  have "session_step\<^sup>*\<^sup>* demo_sessions demo_closed"
    unfolding demo_closed_def by (rule r_into_rtranclp[of session_step, OF session_step.call])
  from sessions_move_forward[OF demo_sessions_wf this r(1)] r show ?thesis by fastforce
qed

theorem token_revocation_cascades_witness:
  "\<exists>st'. closeByToken 5 ''t1'' None None demo_sessions = (Inr [''s1''], st') \<and>
     fst (claimForDispatch 6 demo_claim st') = Inl SESSION_CLOSED"
proof -
  have "case closeByToken 5 ''t1'' None None demo_sessions of (Inr ids, _) \<Rightarrow> ids = [''s1''] | _ \<Rightarrow> False"
    "jm_get demo_sessions ''s1'' \<noteq> None"
    by code_simp+
  then obtain st' s where r: "closeByToken 5 ''t1'' None None demo_sessions = (Inr [''s1''], st')" "jm_get demo_sessions ''s1'' = Some s"
    by (auto split: prod.splits sum.splits)
  have "demo_claim\<lparr>cp_sessionId := ''s1''\<rparr> = demo_claim"
    by (simp add: demo_claim_def)
  moreover obtain ids where "(Inr ids :: session_error + string list) = Inr [''s1'']" and
    rows: "\<forall>i s. jm_get demo_sessions i = Some s \<longrightarrow>
       (i \<in> set ids \<longleftrightarrow> capabilityTokenId s = Some ''t1'' \<and> state s \<noteq> CLOSED) \<and>
       (if i \<in> set ids
        then (\<exists>s'. jm_get st' i = Some s' \<and> state s' = CLOSED \<and> closeReason s' = Some (or_keep None REVOKED_TOKEN)) \<and>
             fst (claimForDispatch 6 (demo_claim\<lparr>cp_sessionId := i\<rparr>) st') = Inl SESSION_CLOSED
        else jm_get st' i = Some s)"
    using token_revocation_cascades[OF demo_sessions_wf r(1) rtranclp.rtrancl_refl, of 6 demo_claim] by metis
  ultimately have "fst (claimForDispatch 6 demo_claim st') = Inl SESSION_CLOSED"
    using rows[rule_format, OF r(2)] by simp
  with r(1) show ?thesis by blast
qed

definition demo_idle :: sessions where
  "demo_idle = snd (apply_op 400000 (CleanOp 60000 300000 1800000 None) demo_sessions)"

definition demo_resume :: resume_input where
  "demo_resume = \<lparr>ri_sessionId = ''s1'', expectedInitiatorDid = ''did:a'', expectedResponderDid = ''did:b'',
     ri_expectedTokenId = Some ''t1'', ri_expectedFingerprint = Some ''f1'', idleHardMs = 1800000,
     ri_negotiatedCapabilities = [], ri_now = None\<rparr>"

theorem resume_within_idle_limit_witness:
  "\<exists>s st'. se_resume 500000 demo_resume demo_idle = (Inr s, st') \<and> state s = ACTIVE"
proof -
  have "case se_resume 500000 demo_resume demo_idle of (Inr _, _) \<Rightarrow> True | _ \<Rightarrow> False"
    by code_simp
  then obtain s st' where r: "se_resume 500000 demo_resume demo_idle = (Inr s, st')"
    by (auto split: prod.splits sum.splits)
  from resume_within_idle_limit[OF r] r show ?thesis by auto
qed

subsection \<open>Superseding is not atomic\<close>

text \<open>
  Remark (error). \<open>supersedeAndCreate\<close> closes the old session before it finds that the new id is taken:
  the call throws, and the old session is closed without a successor.
\<close>

lemma supersede_loses_old:
  "case supersedeAndCreate 9 ''s1'' CLOSE_ERROR demo_create None demo_sessions of
     (Inl e, st') \<Rightarrow> e = SESSION_STATE_INVALID \<and> map_option state (jm_get st' ''s1'') = Some CLOSED \<and> length st' = 1
   | (Inr _, _) \<Rightarrow> False"
  by code_simp

text \<open>
  Remark (error). \<open>SessionManager.activate\<close> revives an idle session past its hard limit, which
  \<open>resume\<close> refuses: the update checks only that the session is not closed.
\<close>

lemma activate_ignores_idle_limit:
  "fst (se_resume 9000000 demo_resume demo_idle) = Inl SESSION_IDLE_EXPIRED \<and>
   (case activate 9000000 ''s1'' [] demo_idle of (Inr s, _) \<Rightarrow> state s = ACTIVE | _ \<Rightarrow> False)"
  by code_simp

end
