(* ===== verification/Runtime_Guard.thy ===== *)
theory Runtime_Guard
  imports Delegation_Chain Effects "HOL-Library.Multiset"
begin

text \<open>
  \<open>policy/src/guard/token-store.ts\<close>, the table of the tokens an agent holds, and
  \<open>policy/src/guard/runtime-guard.ts\<close>, the decision whether one of them authorizes an action.

  The table is a list of rows with the serial id and the creation instant of the database; a token
  goes through the JSON column unchanged. The guard's ports (clock, token lookup, revocation
  checker, chain validator, random ids) are effects on a world \<open>'w\<close>, which is also the store behind
  the scope evaluator, so that every await may change it. A clock reading is the ISO text the port
  returns together with the instant \<open>new Date\<close> reads from it. A denial carries one constructor per
  message.
\<close>

subsection \<open>The token store\<close>

record token_row =
  row_id :: nat
  row_token_id :: token_id
  row_agent :: did
  row_token :: capability_token
  valid_until :: "timestamp option"
  created_at :: int

record token_table =
  rows :: "token_row list"
  next_id :: nat

definition empty_table :: token_table where
  "empty_table = \<lparr>rows = [], next_id = 1\<rparr>"

text \<open>\<open>INSERT ... ON CONFLICT (token_id) DO UPDATE\<close>: the sequence advances in both cases.\<close>

definition ts_store :: "did \<Rightarrow> capability_token \<Rightarrow> int \<Rightarrow> token_table \<Rightarrow> token_table" where
  "ts_store agent token now tbl =
     (if \<exists>r \<in> set (rows tbl). row_token_id r = token_id token
      then tbl\<lparr>rows := map (\<lambda>r. if row_token_id r = token_id token
                 then r\<lparr>row_agent := agent, row_token := token, valid_until := Some (expiresAt token)\<rparr> else r) (rows tbl),
               next_id := next_id tbl + 1\<rparr>
      else tbl\<lparr>rows := rows tbl @ [\<lparr>row_id = next_id tbl, row_token_id = token_id token, row_agent = agent,
                 row_token = token, valid_until = Some (expiresAt token), created_at = now\<rparr>],
               next_id := next_id tbl + 1\<rparr>)"

text \<open>\<open>ORDER BY created_at ASC, id ASC\<close>: a stable sort by the second key, then by the first.\<close>

definition ts_ordered :: "token_row list \<Rightarrow> token_row list" where
  "ts_ordered rs = sort_key created_at (sort_key row_id rs)"

definition getTokensForAgent :: "did \<Rightarrow> token_table \<Rightarrow> capability_token list" where
  "getTokensForAgent agent tbl = map row_token (ts_ordered (filter (\<lambda>r. row_agent r = agent) (rows tbl)))"

definition getToken :: "token_id \<Rightarrow> token_table \<Rightarrow> capability_token option" where
  "getToken i tbl = map_option row_token (find (\<lambda>r. row_token_id r = i) (rows tbl))"

definition ts_remove :: "token_id \<Rightarrow> token_table \<Rightarrow> bool \<times> token_table" where
  "ts_remove i tbl =
     (\<exists>r \<in> set (rows tbl). row_token_id r = i, tbl\<lparr>rows := filter (\<lambda>r. row_token_id r \<noteq> i) (rows tbl)\<rparr>)"

subsection \<open>The guard's interface\<close>

datatype guard_reason =
  RequestedTokenNotFound | NoTokensFound | ParentTokenRevoked | NoMatchingCapability
| CapabilityRevoked | ScopeCheckFailed "scope_reason option"

record guard_result =
  allowed :: bool
  gr_reason :: "guard_reason option"
  gr_code :: "string option"
  gr_tokenId :: "token_id option"
  delegationDepth :: "nat option"

datatype policy_exn =
  TokenThrown thrown | EvalThrown eval_error | PortThrown string | NonErrorThrown jsval | ProtocolError string string

type_synonym ('w, 'a) policy_eff = "('w, policy_exn, 'a) eff"

record instant =
  iso :: timestamp
  ms :: int

type_synonym 'w chain_validator =
  "capability_token \<Rightarrow> (did \<Rightarrow> ('w, resolved_keys option) policy_eff) \<Rightarrow> (token_id \<Rightarrow> ('w, bool) policy_eff) \<Rightarrow>
   timestamp \<Rightarrow> (token_id \<Rightarrow> ('w, capability_token option) policy_eff) \<Rightarrow> ('w, nat \<times> dc_failure option) policy_eff"

record 'w guard_deps =
  rg_tokensFor :: "did \<Rightarrow> ('w, capability_token list) policy_eff"
  rg_getToken :: "(token_id \<Rightarrow> ('w, capability_token option) policy_eff) option"
  revocationChecker :: "token_id \<Rightarrow> ('w, bool) policy_eff"
  scopeEvaluator :: "'w scope_evaluator"
  rg_now :: "('w, instant) policy_eff"
  delegationChainValidator :: "'w chain_validator option"
  rg_resolvePublicKeys :: "(did \<Rightarrow> ('w, resolved_keys option) policy_eff) option"
  randomUUID :: "('w, string) policy_eff"

definition deny :: "guard_reason \<Rightarrow> guard_result" where
  "deny r = \<lparr>allowed = False, gr_reason = Some r, gr_code = None, gr_tokenId = None, delegationDepth = None\<rparr>"

definition deny_parent_revoked :: "capability_token \<Rightarrow> guard_result" where
  "deny_parent_revoked token = \<lparr>allowed = False, gr_reason = Some ParentTokenRevoked, gr_code = Some ''TOKEN_REVOKED'',
     gr_tokenId = Some (token_id token), delegationDepth = None\<rparr>"

definition allow :: "capability_token \<Rightarrow> nat \<Rightarrow> guard_result" where
  "allow token depth = \<lparr>allowed = True, gr_reason = None, gr_code = None, gr_tokenId = Some (token_id token), delegationDepth = Some depth\<rparr>"

subsection \<open>One candidate token\<close>

datatype candidate = Skip | ParentRevoked | Usable nat

definition lift_thrown :: "thrown + 'a \<Rightarrow> policy_exn + 'a" where
  "lift_thrown r = (case r of Inl e \<Rightarrow> Inl (TokenThrown e) | Inr a \<Rightarrow> Inr a)"

definition verify_root :: "platform \<Rightarrow> 'w guard_deps \<Rightarrow> capability_token \<Rightarrow> ('w, candidate) policy_eff" where
  "verify_root pf deps token =
     eff_bind (rg_now deps) (\<lambda>t.
     eff_bind (eff_lift (lift_thrown (verifyCapabilityToken pf token (iso t) None))) (\<lambda>r.
     eff_return (if r = None then Usable 0 else Skip)))"

definition verify_delegated :: "'w guard_deps \<Rightarrow> capability_token \<Rightarrow> ('w, candidate) policy_eff" where
  "verify_delegated deps token =
     (case (delegationChainValidator deps, rg_resolvePublicKeys deps, rg_getToken deps) of
        (Some validator, Some keys, Some lookup) \<Rightarrow>
          eff_bind (rg_now deps) (\<lambda>t.
          if date_gt (issuedAt token) (iso t) then eff_return Skip
          else if isTimestampExpired (expiresAt token) (iso t) then eff_return Skip
          else eff_bind (rg_now deps) (\<lambda>t2.
               eff_bind (validator token keys (revocationChecker deps) (iso t2) lookup) (\<lambda>(depth, failure).
               eff_return (case failure of
                   None \<Rightarrow> Usable depth
                 | Some f \<Rightarrow> if reason f = DC_PARENT_TOKEN_REVOKED then ParentRevoked else Skip))))
      | _ \<Rightarrow> eff_return Skip)"

definition verify_candidate :: "platform \<Rightarrow> 'w guard_deps \<Rightarrow> capability_token \<Rightarrow> ('w, candidate) policy_eff" where
  "verify_candidate pf deps token =
     (if chain_of token = [] then verify_root pf deps token else verify_delegated deps token)"

subsection \<open>The scopes of a candidate\<close>

definition record_id_for :: "'w guard_deps \<Rightarrow> js_object \<Rightarrow> ('w, string) policy_eff" where
  "record_id_for deps params =
     (case get_prop params ''__recordId'' of JStr rid \<Rightarrow> eff_return rid | _ \<Rightarrow> randomUUID deps)"

definition paramsWithAgent :: "js_object \<Rightarrow> did \<Rightarrow> string \<Rightarrow> js_object" where
  "paramsWithAgent params agent rid = set_prop (set_prop params ''__agentDid'' (JStr agent)) ''__recordId'' (JStr rid)"

definition eff_evaluateAll :: "'w scope_evaluator \<Rightarrow> scope list \<Rightarrow> js_object \<Rightarrow> int \<Rightarrow> ('w, evaluation) policy_eff" where
  "eff_evaluateAll ev scopes params t =
     (\<lambda>w. case evaluateAll ev scopes params t w of (Inl e, w') \<Rightarrow> (Inl (EvalThrown e), w') | (Inr r, w') \<Rightarrow> (Inr r, w'))"

definition evaluate_candidate ::
  "'w guard_deps \<Rightarrow> string \<Rightarrow> js_object \<Rightarrow> did \<Rightarrow> capability_token \<Rightarrow> ('w, evaluation) policy_eff" where
  "evaluate_candidate deps act params agent token =
     eff_bind (record_id_for deps params) (\<lambda>rid.
     eff_bind (rg_now deps) (\<lambda>t.
       eff_evaluateAll (scopeEvaluator deps) (scopes_for act (capabilities token)) (paramsWithAgent params agent rid) (ms t)))"

subsection \<open>The loop over the candidates\<close>

record guard_acc =
  sawMatchingCapability :: bool
  lastScopeFailure :: "scope_reason option"
  sawRevoked :: bool

definition guard_verdict :: "guard_acc \<Rightarrow> guard_result" where
  "guard_verdict acc =
     (if \<not> sawMatchingCapability acc then deny NoMatchingCapability
      else if sawRevoked acc then deny CapabilityRevoked
      else deny (ScopeCheckFailed (lastScopeFailure acc)))"

text \<open>One pass of the loop: \<open>continue\<close> with the flags (\<open>Inl\<close>) or \<open>return\<close> a result (\<open>Inr\<close>).\<close>

definition token_pass ::
  "platform \<Rightarrow> 'w guard_deps \<Rightarrow> string \<Rightarrow> js_object \<Rightarrow> did \<Rightarrow> guard_acc \<Rightarrow> capability_token \<Rightarrow> ('w, guard_acc + guard_result) policy_eff" where
  "token_pass pf deps act params agent acc token =
     eff_bind (verify_candidate pf deps token) (\<lambda>c.
     case c of
       Skip \<Rightarrow> eff_return (Inl acc)
     | ParentRevoked \<Rightarrow> eff_return (Inr (deny_parent_revoked token))
     | Usable depth \<Rightarrow>
         if scopes_for act (capabilities token) = [] then eff_return (Inl acc)
         else eff_bind (evaluate_candidate deps act params agent token) (\<lambda>scopeResult.
              case scopeResult of
                Denied r \<Rightarrow> eff_return (Inl (acc\<lparr>sawMatchingCapability := True, lastScopeFailure := Some r\<rparr>))
              | Allowed \<Rightarrow>
                  eff_bind (revocationChecker deps (token_id token)) (\<lambda>revoked.
                  eff_return (if revoked then Inl (acc\<lparr>sawMatchingCapability := True, sawRevoked := True\<rparr>)
                              else Inr (allow token depth)))))"

fun check_tokens ::
  "platform \<Rightarrow> 'w guard_deps \<Rightarrow> string \<Rightarrow> js_object \<Rightarrow> did \<Rightarrow> guard_acc \<Rightarrow> capability_token list \<Rightarrow> ('w, guard_result) policy_eff" where
  "check_tokens pf deps act params agent acc [] = eff_return (guard_verdict acc)"
| "check_tokens pf deps act params agent acc (token # tokens) =
     eff_bind (token_pass pf deps act params agent acc token) (\<lambda>d.
     case d of Inl acc' \<Rightarrow> check_tokens pf deps act params agent acc' tokens | Inr r \<Rightarrow> eff_return r)"

definition check ::
  "platform \<Rightarrow> 'w guard_deps \<Rightarrow> string \<Rightarrow> js_object \<Rightarrow> did \<Rightarrow> token_id option \<Rightarrow> ('w, guard_result) policy_eff" where
  "check pf deps act params agent requestedTokenId =
     eff_bind (rg_tokensFor deps agent) (\<lambda>allTokens.
       let tokens = (case requestedTokenId of None \<Rightarrow> allTokens | Some i \<Rightarrow> filter (\<lambda>t. token_id t = i) allTokens)
       in if tokens = []
          then eff_return (deny (if requestedTokenId \<noteq> None then RequestedTokenNotFound else NoTokensFound))
          else check_tokens pf deps act params agent
                 \<lparr>sawMatchingCapability = False, lastScopeFailure = None, sawRevoked = False\<rparr> tokens)"

text \<open>The validator of the identity layer, on ports that answer without changing the world.\<close>

definition identity_chain_validator :: "platform \<Rightarrow> dc_ports \<Rightarrow> 'w chain_validator" where
  "identity_chain_validator pf ports token keys revoked now lookup =
     (let (depth, r) = validateDelegationChain pf ports token now in
      eff_lift (case r of Inl e \<Rightarrow> Inl (TokenThrown e) | Inr failure \<Rightarrow> Inr (depth, failure)))"

subsection \<open>The store as a map\<close>

datatype store_op = StoreOp did capability_token int | RemoveOp token_id

definition table_step :: "store_op \<Rightarrow> token_table \<Rightarrow> token_table" where
  "table_step oper tbl = (case oper of StoreOp a t now \<Rightarrow> ts_store a t now tbl | RemoveOp i \<Rightarrow> snd (ts_remove i tbl))"

definition spec_step :: "store_op \<Rightarrow> (token_id \<rightharpoonup> did \<times> capability_token) \<Rightarrow> (token_id \<rightharpoonup> did \<times> capability_token)" where
  "spec_step oper m = (case oper of StoreOp a t _ \<Rightarrow> m(token_id t \<mapsto> (a, t)) | RemoveOp i \<Rightarrow> m(i := None))"

definition table_abs :: "token_table \<Rightarrow> (token_id \<rightharpoonup> did \<times> capability_token)" where
  "table_abs tbl = map_of (map (\<lambda>r. (row_token_id r, (row_agent r, row_token r))) (rows tbl))"

definition table_wf :: "token_table \<Rightarrow> bool" where
  "table_wf tbl =
     (distinct (map row_token_id (rows tbl)) \<and> (\<forall>r \<in> set (rows tbl). token_id (row_token r) = row_token_id r) \<and>
      sorted_wrt (<) (map row_id (rows tbl)) \<and> (\<forall>r \<in> set (rows tbl). row_id r < next_id tbl))"

lemma map_of_upsert:
  "map_of (map (\<lambda>r. (key r, cell r)) (map (\<lambda>r. if key r = k then f r else r) rs)) =
     (if k \<in> key ` set rs then (map_of (map (\<lambda>r. (key r, cell r)) rs))(k \<mapsto> v) else map_of (map (\<lambda>r. (key r, cell r)) rs))"
  if "\<And>r. key (f r) = key r" "\<And>r. cell (f r) = v"
  by (induction rs) (use that in auto)

lemma map_of_del:
  "map_of (map (\<lambda>r. (key r, cell r)) (filter (\<lambda>r. key r \<noteq> k) rs)) = (map_of (map (\<lambda>r. (key r, cell r)) rs))(k := None)"
  by (induction rs) auto

lemma table_abs_store: "table_abs (ts_store a t now tbl) = (table_abs tbl)(token_id t \<mapsto> (a, t))"
proof (cases "\<exists>r \<in> set (rows tbl). row_token_id r = token_id t")
  case True
  let ?f = "\<lambda>r. r\<lparr>row_agent := a, row_token := t, valid_until := Some (expiresAt t)\<rparr>"
  from True have "token_id t \<in> row_token_id ` set (rows tbl)" by force
  then show ?thesis
    using True map_of_upsert[where key = row_token_id and f = ?f and cell = "\<lambda>r. (row_agent r, row_token r)" and v = "(a, t)" and
        k = "token_id t" and rs = "rows tbl"]
    by (simp add: ts_store_def table_abs_def)
next
  case False
  then have "map_of (map (\<lambda>r. (row_token_id r, (row_agent r, row_token r))) (rows tbl)) (token_id t) = None"
    by (auto simp: map_of_eq_None_iff)
  with False show ?thesis
    by (auto simp: ts_store_def table_abs_def map_add_def fun_eq_iff split: option.splits)
qed

lemma table_wf_store:
  assumes "table_wf tbl"
  shows "table_wf (ts_store a t now tbl)"
proof (cases "\<exists>r \<in> set (rows tbl). row_token_id r = token_id t")
  case True
  have "map row_token_id (map (\<lambda>r. if row_token_id r = token_id t
      then r\<lparr>row_agent := a, row_token := t, valid_until := Some (expiresAt t)\<rparr> else r) (rows tbl)) = map row_token_id (rows tbl)"
    "map row_id (map (\<lambda>r. if row_token_id r = token_id t
      then r\<lparr>row_agent := a, row_token := t, valid_until := Some (expiresAt t)\<rparr> else r) (rows tbl)) = map row_id (rows tbl)"
    by simp_all
  then show ?thesis
    using True assms unfolding table_wf_def ts_store_def by (auto simp del: map_map)
next
  case False
  then show ?thesis
    using assms by (force simp: table_wf_def ts_store_def sorted_wrt_append)
qed

lemma table_remove:
  "table_abs (snd (ts_remove i tbl)) = (table_abs tbl)(i := None)"
  "table_wf tbl \<Longrightarrow> table_wf (snd (ts_remove i tbl))"
  by (simp add: ts_remove_def table_abs_def map_of_del[where key = row_token_id and cell = "\<lambda>r. (row_agent r, row_token r)"])
    (auto simp: table_wf_def ts_remove_def sorted_wrt_map distinct_map_filter sorted_wrt_filter)

lemma table_run:
  "table_wf (fold table_step ops empty_table) \<and> table_abs (fold table_step ops empty_table) = fold spec_step ops Map.empty"
proof (induction ops rule: rev_induct)
  case Nil
  then show ?case by (simp add: table_wf_def table_abs_def empty_table_def)
next
  case (snoc x ops)
  then show ?case
    by (cases x) (simp_all add: table_step_def spec_step_def table_abs_store table_wf_store table_remove)
qed

lemma getToken_abs: "getToken i tbl = map_option snd (table_abs tbl i)"
proof -
  have "map_option row_token (find (\<lambda>r. row_token_id r = i) rs) =
      map_option snd (map_of (map (\<lambda>r. (row_token_id r, (row_agent r, row_token r))) rs) i)" for rs
    by (induction rs) auto
  then show ?thesis by (simp add: getToken_def table_abs_def)
qed

lemma tokens_abs:
  assumes "table_wf tbl"
  shows "set (getTokensForAgent a tbl) = {t. \<exists>i. table_abs tbl i = Some (a, t)}"
    "distinct (map token_id (getTokensForAgent a tbl))"
proof -
  have d: "distinct (map fst (map (\<lambda>r. (row_token_id r, (row_agent r, row_token r))) (rows tbl)))"
    using assms by (simp add: table_wf_def comp_def)
  have "table_abs tbl i = Some (a, t) \<longleftrightarrow> (\<exists>r \<in> set (rows tbl). row_token_id r = i \<and> row_agent r = a \<and> row_token r = t)" for i t
    unfolding table_abs_def map_of_eq_Some_iff[OF d] by auto
  then show "set (getTokensForAgent a tbl) = {t. \<exists>i. table_abs tbl i = Some (a, t)}"
    by (auto simp: getTokensForAgent_def ts_ordered_def)
  have "mset (map row_token_id (ts_ordered rs)) = mset (map row_token_id rs)" for rs
    by (simp add: ts_ordered_def)
  then have "distinct (map row_token_id (ts_ordered (filter (\<lambda>r. row_agent r = a) (rows tbl))))"
    using assms mset_eq_imp_distinct_iff unfolding table_wf_def by (metis distinct_map_filter)
  moreover have "map token_id (getTokensForAgent a tbl) = map row_token_id (ts_ordered (filter (\<lambda>r. row_agent r = a) (rows tbl)))"
    using assms by (auto simp: getTokensForAgent_def ts_ordered_def table_wf_def)
  ultimately show "distinct (map token_id (getTokensForAgent a tbl))" by simp
qed

text \<open>
  C9 (refinement). The token table implements a map from token ids to their holder and token: after
  any sequence of \<open>store\<close> and \<open>remove\<close> calls, \<open>getToken\<close> is the map's lookup and
  \<open>getTokensForAgent\<close> lists, each once, exactly the tokens the map gives to the agent.
\<close>

theorem token_store_refines_map:
  "getToken i (fold table_step ops empty_table) = map_option snd (fold spec_step ops Map.empty i) \<and>
    set (getTokensForAgent a (fold table_step ops empty_table)) = {t. \<exists>j. fold spec_step ops Map.empty j = Some (a, t)} \<and>
    distinct (map token_id (getTokensForAgent a (fold table_step ops empty_table))) \<and>
    fst (ts_remove i (fold table_step ops empty_table)) = (fold spec_step ops Map.empty i \<noteq> None)"
proof -
  let ?tbl = "fold table_step ops empty_table"
  have "fst (ts_remove i ?tbl) = (table_abs ?tbl i \<noteq> None)"
    by (force simp: ts_remove_def table_abs_def map_of_eq_None_iff)
  then show ?thesis
    using getToken_abs[of i ?tbl] table_run[of ops] tokens_abs[of ?tbl a] by simp
qed

subsection \<open>Decisions of the guard\<close>

lemma allow_fields [simp]: "allowed (allow token depth)" "gr_tokenId (allow token depth) = Some (token_id token)"
  "delegationDepth (allow token depth) = Some depth"
  by (simp_all add: allow_def)

lemma deny_fields [simp]: "\<not> allowed (deny r)" "\<not> allowed (deny_parent_revoked token)" "\<not> allowed (guard_verdict acc)"
  by (simp_all add: deny_def deny_parent_revoked_def guard_verdict_def)

text \<open>What one pass of the loop has seen when it lets a token through, and in which worlds.\<close>

definition authorizes ::
  "platform \<Rightarrow> 'w guard_deps \<Rightarrow> string \<Rightarrow> js_object \<Rightarrow> did \<Rightarrow> capability_token \<Rightarrow> nat \<Rightarrow> 'w \<Rightarrow> bool" where
  "authorizes pf deps act params agent token depth w' =
     (\<exists>w0 w1 w2. verify_candidate pf deps token w0 = (Inr (Usable depth), w1) \<and>
        scopes_for act (capabilities token) \<noteq> [] \<and>
        evaluate_candidate deps act params agent token w1 = (Inr Allowed, w2) \<and>
        revocationChecker deps (token_id token) w2 = (Inr False, w'))"

lemma token_pass_allows:
  assumes "token_pass pf deps act params agent acc token w = (Inr (Inr r), w')" "allowed r"
  shows "\<exists>depth. r = allow token depth \<and> authorizes pf deps act params agent token depth w'"
proof -
  from assms obtain c w1 where c: "verify_candidate pf deps token w = (Inr c, w1)"
    unfolding token_pass_def eff_bind_Inr by blast
  show ?thesis
  proof (cases c)
    case (Usable depth)
    with assms c obtain e w2 where e: "scopes_for act (capabilities token) \<noteq> []"
      "evaluate_candidate deps act params agent token w1 = (Inr e, w2)"
      and tl: "(case e of Denied r \<Rightarrow> eff_return (Inl (acc\<lparr>sawMatchingCapability := True, lastScopeFailure := Some r\<rparr>))
              | Allowed \<Rightarrow>
                  eff_bind (revocationChecker deps (token_id token)) (\<lambda>revoked.
                  eff_return (if revoked then Inl (acc\<lparr>sawMatchingCapability := True, sawRevoked := True\<rparr>)
                              else Inr (allow token depth)))) w2 = (Inr (Inr r), w')"
      by (auto simp: token_pass_def eff_bind_Inr split: if_splits)
    then have "e = Allowed"
      by (cases e) auto
    with tl have "r = allow token depth" "revocationChecker deps (token_id token) w2 = (Inr False, w')"
      by (auto simp: eff_bind_Inr split: if_splits)
    with e c Usable \<open>e = Allowed\<close> show ?thesis
      unfolding authorizes_def by blast
  qed (use assms c in \<open>auto simp: token_pass_def eff_bind_Inr\<close>)
qed

lemma check_tokens_allows:
  assumes "check_tokens pf deps act params agent acc tokens w = (Inr r, w')" "allowed r"
  shows "\<exists>token \<in> set tokens. \<exists>depth. r = allow token depth \<and> authorizes pf deps act params agent token depth w'"
  using assms
proof (induction tokens arbitrary: acc w)
  case (Cons token tokens)
  obtain d w1 where d: "token_pass pf deps act params agent acc token w = (Inr d, w1)"
    and rest: "(case d of Inl acc' \<Rightarrow> check_tokens pf deps act params agent acc' tokens | Inr r \<Rightarrow> eff_return r) w1 = (Inr r, w')"
    using Cons.prems(1) unfolding check_tokens.simps eff_bind_Inr by blast
  show ?case
  proof (cases d)
    case (Inl acc')
    with rest Cons.IH[of acc' w1] Cons.prems(2) show ?thesis by auto
  next
    case (Inr r')
    with rest d have "token_pass pf deps act params agent acc token w = (Inr (Inr r), w')" by auto
    from token_pass_allows[OF this Cons.prems(2)] show ?thesis by auto
  qed
qed simp

lemma check_allows:
  assumes "check pf deps act params agent req w = (Inr r, w')" "allowed r"
  obtains tokens w0 token depth where "rg_tokensFor deps agent w = (Inr tokens, w0)" "token \<in> set tokens"
    "req = None \<or> req = Some (token_id token)" "r = allow token depth" "authorizes pf deps act params agent token depth w'"
proof -
  obtain tokens w0 where t: "rg_tokensFor deps agent w = (Inr tokens, w0)"
    using assms(1) unfolding check_def eff_bind_Inr by blast
  let ?ts = "case req of None \<Rightarrow> tokens | Some i \<Rightarrow> filter (\<lambda>t. token_id t = i) tokens"
  from assms t obtain acc where "check_tokens pf deps act params agent acc ?ts w0 = (Inr r, w')"
    unfolding check_def eff_bind_Inr by (auto simp: Let_def split: if_splits)
  from check_tokens_allows[OF this assms(2)] obtain token depth where "token \<in> set ?ts" "r = allow token depth"
    "authorizes pf deps act params agent token depth w'" by blast
  then show thesis by (intro that[OF t]) (auto split: option.splits)
qed

lemma usable_root:
  assumes "verify_candidate pf deps token w = (Inr (Usable depth), w')" "chain_of token = []"
  shows "depth = 0 \<and> (\<exists>w0 t. rg_now deps w0 = (Inr t, w') \<and> verifyCapabilityToken pf token (iso t) None = Inr None)"
  using assms
  by (auto simp: verify_candidate_def verify_root_def eff_bind_Inr eff_lift_def lift_thrown_def split: if_splits sum.splits)

lemma usable_delegated:
  assumes "verify_candidate pf deps token w = (Inr (Usable depth), w')" "chain_of token \<noteq> []"
  shows "\<exists>validator keys lookup w0 w1 t. delegationChainValidator deps = Some validator \<and> rg_resolvePublicKeys deps = Some keys \<and>
    rg_getToken deps = Some lookup \<and> rg_now deps w0 = (Inr t, w1) \<and>
    validator token keys (revocationChecker deps) (iso t) lookup w1 = (Inr (depth, None), w')"
proof -
  obtain validator keys lookup where p: "delegationChainValidator deps = Some validator" "rg_resolvePublicKeys deps = Some keys"
    "rg_getToken deps = Some lookup"
    using assms by (auto simp: verify_candidate_def verify_delegated_def split: option.splits)
  have usable: "Usable d = (case b of None \<Rightarrow> Usable d' | Some f \<Rightarrow> if reason f = DC_PARENT_TOKEN_REVOKED then ParentRevoked else Skip)
    \<longleftrightarrow> b = None \<and> d = d'" for d d' and b :: "dc_failure option"
    by (cases b) auto
  obtain t w0 w1 where "rg_now deps w0 = (Inr t, w1)"
    "validator token keys (revocationChecker deps) (iso t) lookup w1 = (Inr (depth, None), w')"
    using assms unfolding verify_candidate_def verify_delegated_def p eff_bind_Inr
    by (auto simp: eff_bind_Inr usable split: if_splits)
  with p show ?thesis by blast
qed

lemma evaluated_candidate:
  assumes "evaluate_candidate deps act params agent token w = (Inr e, w')"
  obtains rid and t :: instant and w1 where "evaluateAll (scopeEvaluator deps) (scopes_for act (capabilities token))
    (paramsWithAgent params agent rid) (ms t) w1 = (Inr e, w')"
proof -
  obtain rid and t :: instant and w1 where "eff_evaluateAll (scopeEvaluator deps) (scopes_for act (capabilities token))
      (paramsWithAgent params agent rid) (ms t) w1 = (Inr e, w')"
    using assms unfolding evaluate_candidate_def eff_bind_Inr by auto
  then show thesis
    by (intro that) (auto simp: eff_evaluateAll_def split: prod.splits sum.splits)
qed

lemma stateless_allowed_grants:
  assumes "evaluator_reach intl trk ev" "list_all stateless (scopes_for act caps)" "scopes_for act caps \<noteq> []"
    and "fst (evaluateAll ev (scopes_for act caps) params now w) = Inr Allowed"
  shows "grants ev st caps (act, params, now)"
proof -
  have "fst (evaluateAll ev ss params now w) = Inr Allowed \<Longrightarrow> list_all stateless ss \<Longrightarrow>
      list_all (\<lambda>s. fst (evaluate ev s params now st) = Inr Allowed) ss" for ss
  proof (induction ss)
    case (Cons s ss)
    have "snd (evaluate ev s params now w) = w"
      "fst (evaluate ev s params now w) = Inr Allowed \<longleftrightarrow> fst (evaluate ev s params now st) = Inr Allowed"
      using evaluate_stateless[OF assms(1), of s] Cons.prems(2) by simp_all
    with Cons show ?case
      unfolding evaluateAll_Allowed_step by simp
  qed simp
  then show ?thesis
    using assms(2-4) by (simp add: grants_def)
qed

subsection \<open>Properties of the guard\<close>

text \<open>
  C6 (safety). An allowed action rests on one token, and on everything about it: the token is listed
  for the agent and is the requested one when one was requested; it verified at a clock reading, by
  the verifier when it has no chain (depth 0) and otherwise by the injected chain validator with the
  key resolver and the token lookup present, whose depth is returned; it has a capability for the
  action, all of whose scopes the evaluator allowed for the parameters with the agent's DID and the
  record id; and the revocation checker then answered that it is not revoked.
\<close>

theorem allowed_action_is_authorized:
  assumes run: "check pf deps act params agent req w = (Inr r, w')" and al: "allowed r"
  shows "\<exists>tokens w0 token depth. rg_tokensFor deps agent w = (Inr tokens, w0) \<and> token \<in> set tokens \<and>
    (req = None \<or> req = Some (token_id token)) \<and> r = allow token depth \<and>
    (if chain_of token = []
     then depth = 0 \<and> (\<exists>w1 w2 t. rg_now deps w1 = (Inr t, w2) \<and> verifyCapabilityToken pf token (iso t) None = Inr None)
     else \<exists>validator keys lookup w1 w2 w3 t. delegationChainValidator deps = Some validator \<and>
       rg_resolvePublicKeys deps = Some keys \<and> rg_getToken deps = Some lookup \<and> rg_now deps w1 = (Inr t, w2) \<and>
       validator token keys (revocationChecker deps) (iso t) lookup w2 = (Inr (depth, None), w3)) \<and>
    scopes_for act (capabilities token) \<noteq> [] \<and>
    (\<exists>rid (t :: instant) w4 w5. evaluateAll (scopeEvaluator deps) (scopes_for act (capabilities token)) (paramsWithAgent params agent rid) (ms t) w4
        = (Inr Allowed, w5) \<and> revocationChecker deps (token_id token) w5 = (Inr False, w'))"
proof -
  obtain tokens w0 token depth where t: "rg_tokensFor deps agent w = (Inr tokens, w0)" "token \<in> set tokens"
    "req = None \<or> req = Some (token_id token)" "r = allow token depth" "authorizes pf deps act params agent token depth w'"
    by (rule check_allows[OF run al])
  then obtain u0 u1 u2 where a: "verify_candidate pf deps token u0 = (Inr (Usable depth), u1)"
    "scopes_for act (capabilities token) \<noteq> []" "evaluate_candidate deps act params agent token u1 = (Inr Allowed, u2)"
    "revocationChecker deps (token_id token) u2 = (Inr False, w')"
    unfolding authorizes_def by blast
  have v: "if chain_of token = []
     then depth = 0 \<and> (\<exists>w1 w2 t. rg_now deps w1 = (Inr t, w2) \<and> verifyCapabilityToken pf token (iso t) None = Inr None)
     else \<exists>validator keys lookup w1 w2 w3 t. delegationChainValidator deps = Some validator \<and>
       rg_resolvePublicKeys deps = Some keys \<and> rg_getToken deps = Some lookup \<and> rg_now deps w1 = (Inr t, w2) \<and>
       validator token keys (revocationChecker deps) (iso t) lookup w2 = (Inr (depth, None), w3)"
    using usable_root[OF a(1)] usable_delegated[OF a(1)] by (cases "chain_of token = []") (simp_all, blast+)
  obtain rid and tm :: instant and u where "evaluateAll (scopeEvaluator deps) (scopes_for act (capabilities token)) (paramsWithAgent params agent rid) (ms tm) u
      = (Inr Allowed, u2)"
    by (rule evaluated_candidate[OF a(3)])
  then have ev: "\<exists>rid (t :: instant) w4 w5. evaluateAll (scopeEvaluator deps) (scopes_for act (capabilities token)) (paramsWithAgent params agent rid) (ms t) w4
        = (Inr Allowed, w5) \<and> revocationChecker deps (token_id token) w5 = (Inr False, w')"
    using a(4) by blast
  show ?thesis
    by (rule exI[of _ tokens], rule exI[of _ w0], rule exI[of _ token], rule exI[of _ depth]) (intro conjI t(1-4) v a(2) ev)
qed

definition demo_deps :: "token_id list \<Rightarrow> unit guard_deps" where
  "demo_deps revokedIds =
     \<lparr>rg_tokensFor = (\<lambda>a. eff_return (if a = demo_agent 3 then [demo_child] else [])),
      rg_getToken = Some (\<lambda>i. eff_return (if i = ''urn:cap:u1'' then Some demo_root else None)),
      revocationChecker = (\<lambda>i. eff_return (i \<in> set revokedIds)),
      scopeEvaluator = new_ScopeEvaluator (\<lambda>z. None) None [],
      rg_now = eff_return \<lparr>iso = ''2026-03-01T00:00:00.000Z'', ms = 1772323200000\<rparr>,
      delegationChainValidator = Some (identity_chain_validator demo_platform (demo_ports revokedIds)),
      rg_resolvePublicKeys = Some (\<lambda>d. eff_return (if d = demo_agent 2 then Some demo_keys else None)),
      randomUUID = eff_return ''uuid''\<rparr>"

definition demo_params :: js_object where
  "demo_params = [(''host'', JStr ''a''), (''amount'', JNum (Fin 10))]"

lemma demo_guard_allows:
  "check demo_platform (demo_deps []) ''QUOTE'' demo_params (demo_agent 3) None () = (Inr (allow demo_child 1), ())"
proof -
  have ch: "chain_of demo_child = [demo_proof]" "capabilities demo_child = host_cap [''a''] 10"
    "expiresAt demo_child = ''2026-06-30T00:00:00.000Z''"
    by (simp_all add: demo_child_fields)
  have key: "delegatorPrivateKey demo_delegate = toHex (replicate 32 1)"
    by (simp add: demo_delegate_def)
  have iss: "issuedAt demo_child = ''2026-02-01T00:00:00.000Z''"
    by (simp add: demo_child_def delegateCapabilityToken_def demo_guard Let_def key demo_sign IDENTITY_ENCODING_def sign_token_def)
  have val: "validateDelegationChain demo_platform (demo_ports []) demo_child ''2026-03-01T00:00:00.000Z'' = (1, Inr None)"
    using demo_valid by (simp add: validateDelegationChain_def Let_def ch)
  have tm: "\<not> date_gt ''2026-02-01T00:00:00.000Z'' ''2026-03-01T00:00:00.000Z''"
    "\<not> isTimestampExpired ''2026-06-30T00:00:00.000Z'' ''2026-03-01T00:00:00.000Z''"
    by code_simp+
  have sc: "scopes_for ''QUOTE'' (host_cap [''a''] 10) \<noteq> []"
    "evaluateAll (new_ScopeEvaluator (\<lambda>z. None) None [] :: unit scope_evaluator) (scopes_for ''QUOTE'' (host_cap [''a''] 10))
       (paramsWithAgent demo_params (demo_agent 3) ''uuid'') 1772323200000 () = (Inr Allowed, ())"
    by code_simp+
  have rid: "record_id_for (demo_deps []) demo_params = eff_return ''uuid''"
    by (simp add: record_id_for_def demo_params_def get_prop_def demo_deps_def)
  have "verify_candidate demo_platform (demo_deps []) demo_child = eff_return (Usable 1)"
    by (simp add: verify_candidate_def verify_delegated_def demo_deps_def ch iss tm identity_chain_validator_def val)
      (simp add: eff_lift_def eff_return_def eff_bind_def)
  moreover have "evaluate_candidate (demo_deps []) ''QUOTE'' demo_params (demo_agent 3) demo_child = eff_return Allowed"
  proof
    fix w :: unit
    have "rg_now (demo_deps []) = eff_return \<lparr>iso = ''2026-03-01T00:00:00.000Z'', ms = 1772323200000\<rparr>"
      "scopeEvaluator (demo_deps []) = new_ScopeEvaluator (\<lambda>z. None) None []"
      by (simp_all add: demo_deps_def)
    then show "evaluate_candidate (demo_deps []) ''QUOTE'' demo_params (demo_agent 3) demo_child w = eff_return Allowed w"
      by (simp add: evaluate_candidate_def rid ch eff_evaluateAll_def sc eff_return_def[of Allowed])
  qed
  moreover have "rg_tokensFor (demo_deps []) (demo_agent 3) = eff_return [demo_child]"
    "revocationChecker (demo_deps []) i = eff_return False" for i
    by (simp_all add: demo_deps_def)
  ultimately show ?thesis
    using sc(1) by (simp add: check_def token_pass_def ch)
qed

theorem allowed_action_is_authorized_witness:
  "\<exists>token depth. check demo_platform (demo_deps []) ''QUOTE'' demo_params (demo_agent 3) None () = (Inr (allow token depth), ()) \<and>
     rg_tokensFor (demo_deps []) (demo_agent 3) () = (Inr [token], ()) \<and> scopes_for ''QUOTE'' (capabilities token) \<noteq> []"
proof -
  obtain tokens w0 token depth where t: "rg_tokensFor (demo_deps []) (demo_agent 3) () = (Inr tokens, w0)" "token \<in> set tokens"
    "allow demo_child 1 = allow token depth" "scopes_for ''QUOTE'' (capabilities token) \<noteq> []"
    using allowed_action_is_authorized[OF demo_guard_allows allow_fields(1)] by auto
  moreover from t(1) have "tokens = [demo_child]"
    by (simp add: demo_deps_def eff_return_def)
  ultimately show ?thesis
    using demo_guard_allows by (intro exI[of _ token] exI[of _ depth]) auto
qed

end
