(* ===== verification/Policy_Engine.thy ===== *)
theory Policy_Engine
  imports Runtime_Guard
begin

text \<open>
  \<open>policy/src/engine.ts\<close>: guarded execution. The engine asks the guard, asks a human where the
  caller requires it, runs the executor and writes one action record for what happened.

  Guard, recorder, checkpoint, executor and hook are effects on a world. \<open>error instanceof Error\<close>
  holds for every exception but \<open>NonErrorThrown\<close>; the message written to the record is the
  exception it is read from.
\<close>

subsection \<open>Requests, records and results\<close>

datatype exec_reason = GuardReason guard_reason | ActionRejected | HumanApprovalDenied

datatype error_text = MessageOf policy_exn | UnknownError

datatype result_summary = RejectedSummary "exec_reason option" | SuccessSummary | ErrorSummary error_text

record action_record_input =
  ar_recordId :: "string option"
  ar_agentDid :: did
  ar_principalDid :: did
  actionType :: string
  parametersSummary :: js_object
  authorizationRef :: "token_id option option"
  resultSummary :: result_summary
  ar_actorPrivateKey :: string
  ar_delegationDepth :: "nat option"

record write_result =
  wr_recordId :: string
  wr_hash :: string

record ('w, 'a) exec_params =
  ep_action :: string
  ep_params :: js_object
  ep_agentDid :: did
  ep_principalDid :: did
  actorPrivateKey :: string
  executor :: "('w, 'a) policy_eff"
  requireHumanApproval :: bool
  requestedTokenId :: "token_id option"
  ep_recordId :: "string option"
  onExecutorSuccess :: "('w, unit) policy_eff option"

datatype 'a exec_result = Executed 'a string | NotExecuted exec_reason string

record 'w engine_deps =
  guard :: "string \<Rightarrow> js_object \<Rightarrow> did \<Rightarrow> token_id option \<Rightarrow> ('w, guard_result) policy_eff"
  recorder :: "action_record_input \<Rightarrow> ('w, write_result) policy_eff"
  checkpoint :: "(string \<Rightarrow> did \<Rightarrow> js_object \<Rightarrow> ('w, bool) policy_eff) option"

subsection \<open>The record of an outcome\<close>

definition action_row ::
  "('w, 'a) exec_params \<Rightarrow> guard_result \<Rightarrow> token_id option option \<Rightarrow> result_summary \<Rightarrow> action_record_input" where
  "action_row p g ref summary =
     \<lparr>ar_recordId = ep_recordId p, ar_agentDid = ep_agentDid p, ar_principalDid = ep_principalDid p,
      actionType = ep_action p, parametersSummary = ep_params p, authorizationRef = ref, resultSummary = summary,
      ar_actorPrivateKey = actorPrivateKey p, ar_delegationDepth = delegationDepth g\<rparr>"

definition error_text :: "policy_exn \<Rightarrow> error_text" where
  "error_text e = (case e of NonErrorThrown _ \<Rightarrow> UnknownError | _ \<Rightarrow> MessageOf e)"

definition rejected_row :: "('w, 'a) exec_params \<Rightarrow> guard_result \<Rightarrow> action_record_input" where
  "rejected_row p g = action_row p g None (RejectedSummary (map_option GuardReason (gr_reason g)))"

definition denied_row :: "('w, 'a) exec_params \<Rightarrow> guard_result \<Rightarrow> action_record_input" where
  "denied_row p g = action_row p g (Some (gr_tokenId g)) (RejectedSummary (Some HumanApprovalDenied))"

definition success_row :: "('w, 'a) exec_params \<Rightarrow> guard_result \<Rightarrow> action_record_input" where
  "success_row p g = action_row p g (Some (gr_tokenId g)) SuccessSummary"

definition error_row :: "('w, 'a) exec_params \<Rightarrow> guard_result \<Rightarrow> policy_exn \<Rightarrow> action_record_input" where
  "error_row p g e = action_row p g (Some (gr_tokenId g)) (ErrorSummary (error_text e))"

subsection \<open>Execution\<close>

definition reject :: "'w engine_deps \<Rightarrow> action_record_input \<Rightarrow> exec_reason \<Rightarrow> ('w, 'a exec_result) policy_eff" where
  "reject deps row r = eff_bind (recorder deps row) (\<lambda>rec. eff_return (NotExecuted r (wr_recordId rec)))"

definition human_approval :: "'w engine_deps \<Rightarrow> ('w, 'a) exec_params \<Rightarrow> ('w, bool) policy_eff" where
  "human_approval deps p =
     (if \<not> requireHumanApproval p then eff_return True
      else case checkpoint deps of
             None \<Rightarrow> eff_throw (ProtocolError ''INTERNAL_ERROR'' ''PolicyCheckpoint is required when requireHumanApproval is true.'')
           | Some confirm \<Rightarrow> confirm (ep_action p) (ep_agentDid p) (ep_params p))"

definition execute_and_record ::
  "'w engine_deps \<Rightarrow> ('w, 'a) exec_params \<Rightarrow> guard_result \<Rightarrow> ('w, 'a exec_result) policy_eff" where
  "execute_and_record deps p g =
     eff_catch
       (eff_bind (executor p) (\<lambda>result.
        eff_bind (case onExecutorSuccess p of None \<Rightarrow> eff_return () | Some hook \<Rightarrow> hook) (\<lambda>_.
        eff_bind (recorder deps (success_row p g)) (\<lambda>rec.
        eff_return (Executed result (wr_recordId rec))))))
       (\<lambda>e. eff_bind (recorder deps (error_row p g e)) (\<lambda>_. eff_throw e))"

definition executeWithPolicy :: "'w engine_deps \<Rightarrow> ('w, 'a) exec_params \<Rightarrow> ('w, 'a exec_result) policy_eff" where
  "executeWithPolicy deps p =
     eff_bind (guard deps (ep_action p) (ep_params p) (ep_agentDid p) (requestedTokenId p)) (\<lambda>g.
     if \<not> allowed g
     then reject deps (rejected_row p g) (case gr_reason g of None \<Rightarrow> ActionRejected | Some r \<Rightarrow> GuardReason r)
     else eff_bind (human_approval deps p) (\<lambda>approved.
          if \<not> approved then reject deps (denied_row p g) HumanApprovalDenied
          else execute_and_record deps p g))"

subsection \<open>Properties\<close>

text \<open>
  C7 (safety). Nothing runs unauthorized: when the guard does not return an allowing result, or the
  required human confirmation is not given (no checkpoint, an exception, or a refusal), the outcome
  and the world after it are the same whatever the executor and its hook would do.
\<close>

theorem executor_runs_only_when_allowed:
  assumes "\<not> (\<exists>g w1. guard deps (ep_action p) (ep_params p) (ep_agentDid p) (requestedTokenId p) w = (Inr g, w1) \<and> allowed g \<and>
      (requireHumanApproval p \<longrightarrow>
        (\<exists>confirm w2. checkpoint deps = Some confirm \<and> confirm (ep_action p) (ep_agentDid p) (ep_params p) w1 = (Inr True, w2))))"
  shows "executeWithPolicy deps (p\<lparr>executor := f, onExecutorSuccess := hook\<rparr>) w = executeWithPolicy deps p w"
proof (cases "guard deps (ep_action p) (ep_params p) (ep_agentDid p) (requestedTokenId p) w")
  case (Pair r w1)
  show ?thesis
  proof (cases r)
    case (Inr g)
    show ?thesis
    proof (cases "allowed g")
      case True
      have q: "human_approval deps (p\<lparr>executor := f, onExecutorSuccess := hook\<rparr>) = human_approval deps p"
        by (simp add: human_approval_def split: option.splits)
      have "fst (human_approval deps p w1) \<noteq> Inr True"
        using assms Pair Inr True
        by (auto simp: human_approval_def eff_return_def eff_throw_def split: option.splits) (metis prod.collapse)
      then show ?thesis
        using Pair Inr True
        by (auto simp: executeWithPolicy_def eff_bind_def q denied_row_def action_row_def split: prod.splits sum.splits)
    qed (use Pair Inr in \<open>simp add: executeWithPolicy_def eff_bind_def rejected_row_def action_row_def\<close>)
  qed (use Pair in \<open>simp add: executeWithPolicy_def eff_bind_def\<close>)
qed

text \<open>A deployment whose world is the list of records, over the guard of the running example.\<close>

definition demo_engine :: "bool \<Rightarrow> action_record_input list engine_deps" where
  "demo_engine approves =
     \<lparr>guard = (\<lambda>a ps d i w. (fst (check demo_platform (demo_deps []) a ps d i ()), w)),
      recorder = (\<lambda>row w. (Inr \<lparr>wr_recordId = ''r'', wr_hash = ''h''\<rparr>, w @ [row])),
      checkpoint = Some (\<lambda>a d ps. eff_return approves)\<rparr>"

definition demo_exec :: "did \<Rightarrow> (action_record_input list, nat) exec_params" where
  "demo_exec agent =
     \<lparr>ep_action = ''QUOTE'', ep_params = demo_params, ep_agentDid = agent, ep_principalDid = ''p'', actorPrivateKey = ''k'',
      executor = eff_return 7, requireHumanApproval = True, requestedTokenId = None, ep_recordId = None, onExecutorSuccess = None\<rparr>"

lemma demo_guard_result:
  "guard (demo_engine b) (ep_action (demo_exec (demo_agent 3))) (ep_params (demo_exec (demo_agent 3)))
     (ep_agentDid (demo_exec (demo_agent 3))) (requestedTokenId (demo_exec (demo_agent 3))) w = (Inr (allow demo_child 1), w)"
  using demo_guard_allows by (simp add: demo_engine_def demo_exec_def)

theorem executor_runs_only_when_allowed_witness:
  "executeWithPolicy (demo_engine False) (demo_exec (demo_agent 3)\<lparr>executor := eff_throw (PortThrown ''boom''), onExecutorSuccess := None\<rparr>) []
     = executeWithPolicy (demo_engine False) (demo_exec (demo_agent 3)) []"
  by (rule executor_runs_only_when_allowed) (unfold demo_guard_result, simp add: demo_engine_def demo_exec_def)

text \<open>The recorder appends the row it returns for, and no other port writes the log.\<close>

definition recorder_law :: "('w \<Rightarrow> action_record_input list) \<Rightarrow> 'w engine_deps \<Rightarrow> bool" where
  "recorder_law trail deps =
     (\<forall>row w. trail (snd (recorder deps row w)) = (case fst (recorder deps row w) of Inl _ \<Rightarrow> trail w | Inr _ \<Rightarrow> trail w @ [row]))"

definition others_keep_log :: "('w \<Rightarrow> action_record_input list) \<Rightarrow> 'w engine_deps \<Rightarrow> ('w, 'a) exec_params \<Rightarrow> bool" where
  "others_keep_log trail deps p =
     ((\<forall>a ps d i. keeps trail (guard deps a ps d i)) \<and> keeps trail (executor p) \<and>
      (\<forall>confirm a d ps. checkpoint deps = Some confirm \<longrightarrow> keeps trail (confirm a d ps)) \<and>
      (\<forall>hook. onExecutorSuccess p = Some hook \<longrightarrow> keeps trail hook))"

lemma recorded:
  assumes "recorder_law trail deps" "recorder deps row w = (r, w')"
  shows "trail w' = (case r of Inl _ \<Rightarrow> trail w | Inr _ \<Rightarrow> trail w @ [row])"
  using assms unfolding recorder_law_def by (metis fst_conv snd_conv)

lemma keeps_run: "keeps view m \<Longrightarrow> m w = (r, w') \<Longrightarrow> view w' = view w"
  unfolding keeps_def by (metis snd_conv)

lemma reject_log:
  assumes "recorder_law trail deps" "reject deps row rs w = (r, w')"
  shows "(\<exists>rid. r = Inr (NotExecuted rs rid) \<and> trail w' = trail w @ [row]) \<or> (\<exists>e. r = Inl e \<and> trail w' = trail w)"
proof (cases "recorder deps row w")
  case (Pair x w1)
  with assms(2) recorded[OF assms(1) Pair] show ?thesis
    by (cases x) (auto simp: reject_def eff_bind_def)
qed

lemma execute_log:
  assumes law: "recorder_law trail deps" and keep: "others_keep_log trail deps p"
    and run: "execute_and_record deps p g w = (r, w')"
  shows "(\<exists>x rid. r = Inr (Executed x rid) \<and> trail w' = trail w @ [success_row p g]) \<or>
    (\<exists>e. r = Inl e \<and> (trail w' = trail w \<or> trail w' = trail w @ [error_row p g e]))"
proof -
  let ?hook = "case onExecutorSuccess p of None \<Rightarrow> eff_return () | Some hook \<Rightarrow> hook"
  let ?body = "eff_bind (executor p) (\<lambda>result. eff_bind ?hook (\<lambda>_.
        eff_bind (recorder deps (success_row p g)) (\<lambda>rec. eff_return (Executed result (wr_recordId rec)))))"
  have hook: "keeps trail ?hook" and exec: "keeps trail (executor p)"
    using keep by (auto simp: others_keep_log_def split: option.splits)
  obtain b w1 where b: "?body w = (b, w1)"
    by (cases "?body w")
  have body: "(\<exists>x rid. b = Inr (Executed x rid) \<and> trail w1 = trail w @ [success_row p g]) \<or> (\<exists>e. b = Inl e \<and> trail w1 = trail w)"
  proof -
    obtain x1 u1 x2 u2 x3 u3 where u: "executor p w = (x1, u1)" "?hook u1 = (x2, u2)" "recorder deps (success_row p g) u2 = (x3, u3)"
      by (meson surj_pair)
    show ?thesis
      using b u keeps_run[OF exec u(1)] keeps_run[OF hook u(2)] recorded[OF law u(3)]
      by (cases x1; cases x2; cases x3) (auto simp: eff_bind_def eff_return_def simp del: split_paired_Ex)
  qed
  show ?thesis
  proof (cases b)
    case (Inr x)
    with body b run show ?thesis by (auto simp: execute_and_record_def eff_catch_def)
  next
    case (Inl e)
    obtain x w2 where x: "recorder deps (error_row p g e) w1 = (x, w2)"
      by (cases "recorder deps (error_row p g e) w1")
    have "r = (case x of Inl e' \<Rightarrow> Inl e' | Inr _ \<Rightarrow> Inl e)" "w' = w2"
      using run b Inl x by (auto simp: execute_and_record_def eff_catch_def eff_bind_def split: sum.splits)
    with body Inl recorded[OF law x] show ?thesis by (cases x) auto
  qed
qed



end
