(* ===== verification/Trust_Boundary.thy ===== *)
theory Trust_Boundary
  imports Js_Text Effects
begin

text \<open>
  \<open>communication/src/trust-boundary\<close>: the boundary record, its five states and the table of legal
  transitions (\<open>types.ts\<close>), the in-memory storage and the lifecycle manager
  (\<open>lifecycle-manager.ts\<close>), and the handshake middleware over the manager
  (\<open>handshake-integration.ts\<close>).

  The world has the two collections of the in-memory storage and, apart from them, whatever the
  injected clock, the random source and the proof verifier use: these ports are effects on that part
  alone. The storage holds rows and hands out copies, so a transition works on the row it has loaded
  until it saves; the step relation below lets other calls run in between. The engine's reading of a
  date string is a port too (\<open>None\<close> is NaN).
\<close>

subsection \<open>Data\<close>

datatype boundary_state = Pending | Active | Suspended | Revoked | Expired

datatype boundary_target = Lifecycle boundary_state | EmergencySuspended

datatype boundary_event =
  onTrustEstablished | onLeaseExtended | onSuspended | onResumed | onRevoked | onExpired | onEmergencySuspended

datatype transition_source = client | system | sweeper

datatype transition_id = T1 | T2 | T3 | T4 | T5 | T6 | T7 | T8

datatype tb_code =
  TB_VERSION_UNSUPPORTED | TB_ID_INVALID | TB_PARTY_INVALID | TB_PARTY_SELF_REFERENTIAL | TB_STATE_INVALID
| TB_INVALID_TRANSITION | TB_LIFECYCLE_INVALID | TB_BOUNDARY_EXPIRED | TB_BINDING_PROOF_MISSING
| TB_BINDING_PROOF_UNEXPECTED | TB_PAYLOAD_COVERAGE_INSUFFICIENT | TB_EXPIRY_CLIENT_CONTROLLED
| TB_PRINCIPAL_POP_MISSING | TB_EMERGENCY_NOT_IMPLEMENTED | TB_AUDIT_CANONICALIZE_FAILED | TB_SCHEMA_VIOLATION
| TB_AUDIT_TRANSITION_SOURCE_INVALID | TB_SUSPENDED_OPERATION_DENIED | TB_BOUNDARY_NOT_FOUND
| TB_BOUNDARY_PROOF_VERIFY_FAILED

text \<open>A \<open>TbProtocolError\<close> with its code, a plain \<open>Error\<close> of a factory, or what a port has thrown.\<close>

datatype tb_failure = TbProtocolError tb_code | FactoryError string | PortError string

record lifecycle_window =
  lw_notBefore :: timestamp
  lw_notAfter :: timestamp

record trust_boundary =
  tbVersion :: string
  tb_id :: string
  principalSide :: did
  boundedSide :: did
  boundaryScope :: "string list"
  lifecycleWindow :: lifecycle_window
  tb_state :: boundary_state
  stateEnteredAt :: timestamp
  bindingProofId :: "string option"
  boundedTokenId :: "string option"
  delegationChainHead :: "string option"
  emergencyAuthorizationId :: "string option"

text \<open>\<open>BoundaryBindingProof\<close> and \<open>LeaseExtensionProof\<close> have the same fields.\<close>

record boundary_proof =
  bp_cspVersion :: string
  bp_token :: string
  bp_disclosedClaims :: "string list"
  bp_challenge :: string
  bp_audience :: string
  bp_notAfter :: timestamp
  bp_proofValue :: string
  bp_boundaryId :: string

record boundary_audit_event =
  ae_type :: boundary_event
  ae_boundaryId :: string
  transitionBefore :: boundary_state
  transitionAfter :: boundary_state
  ae_transitionSource :: transition_source
  ae_actorDID :: did
  ae_timestamp :: timestamp
  ae_bindingProofId :: "string option"

record legal_transition =
  lt_id :: transition_id
  lt_from :: boundary_state
  lt_event :: boundary_event
  lt_to :: boundary_target

definition LEGAL_TRANSITIONS :: "legal_transition list" where
  "LEGAL_TRANSITIONS =
    [\<lparr>lt_id = T1, lt_from = Pending, lt_event = onTrustEstablished, lt_to = Lifecycle Active\<rparr>,
     \<lparr>lt_id = T2, lt_from = Active, lt_event = onLeaseExtended, lt_to = Lifecycle Active\<rparr>,
     \<lparr>lt_id = T3, lt_from = Active, lt_event = onSuspended, lt_to = Lifecycle Suspended\<rparr>,
     \<lparr>lt_id = T4, lt_from = Suspended, lt_event = onResumed, lt_to = Lifecycle Active\<rparr>,
     \<lparr>lt_id = T5, lt_from = Active, lt_event = onRevoked, lt_to = Lifecycle Revoked\<rparr>,
     \<lparr>lt_id = T5, lt_from = Suspended, lt_event = onRevoked, lt_to = Lifecycle Revoked\<rparr>,
     \<lparr>lt_id = T6, lt_from = Active, lt_event = onExpired, lt_to = Lifecycle Expired\<rparr>,
     \<lparr>lt_id = T6, lt_from = Suspended, lt_event = onExpired, lt_to = Lifecycle Expired\<rparr>,
     \<lparr>lt_id = T7, lt_from = Active, lt_event = onExpired, lt_to = Lifecycle Expired\<rparr>,
     \<lparr>lt_id = T7, lt_from = Suspended, lt_event = onExpired, lt_to = Lifecycle Expired\<rparr>,
     \<lparr>lt_id = T8, lt_from = Active, lt_event = onEmergencySuspended, lt_to = EmergencySuspended\<rparr>]"

definition TB_MIN_WINDOW_MS :: int where
  "TB_MIN_WINDOW_MS = 1000"

definition TB_MAX_LIFECYCLE_WINDOW_MS :: int where
  "TB_MAX_LIFECYCLE_WINDOW_MS = 6 * 30 * 24 * 60 * 60 * 1000"

subsection \<open>Brand factories\<close>

definition uuid_hex :: "char \<Rightarrow> bool" where
  "uuid_hex c = (c \<in> set ''0123456789abcdef'')"

definition UUID_V4_REGEX :: "string \<Rightarrow> bool" where
  "UUID_V4_REGEX s =
     (length s = 36 \<and>
      list_all (\<lambda>i. let c = s ! i in
        if i \<in> {8, 13, 18, 23} then c = CHR ''-''
        else if i = 14 then c = CHR ''4''
        else if i = 19 then c \<in> set ''89ab''
        else uuid_hex c) [0..<36])"

text \<open>\<open>/^[0-9]+\.[0-9]+\.[0-9]+$/\<close>: three runs of digits between two dots.\<close>

definition SEMVER_REGEX :: "string \<Rightarrow> bool" where
  "SEMVER_REGEX s =
     (let a = takeWhile is_digit s; r = dropWhile is_digit s;
          b = takeWhile is_digit (tl r); q = dropWhile is_digit (tl r); c = tl q in
      a \<noteq> [] \<and> take 1 r = ''.'' \<and> b \<noteq> [] \<and> take 1 q = ''.'' \<and> c \<noteq> [] \<and> list_all is_digit c)"

definition toTrustBoundaryId :: "string \<Rightarrow> tb_failure + string" where
  "toTrustBoundaryId s = (if UUID_V4_REGEX s then Inr s else Inl (FactoryError ''TB_ID_INVALID: not valid UUID v4''))"

definition toTbVersionString :: "string \<Rightarrow> tb_failure + string" where
  "toTbVersionString s =
     (if SEMVER_REGEX s then Inr s else Inl (FactoryError ''TB_VERSION_UNSUPPORTED: not valid semver (X.Y.Z)''))"

definition toUuidV4String :: "string \<Rightarrow> tb_failure + string" where
  "toUuidV4String s =
     (if UUID_V4_REGEX s then Inr s else Inl (FactoryError ''TB_BINDING_PROOF_INVALID_UUID: not valid UUID v4''))"

subsection \<open>Ports and storage\<close>

record verify_context =
  vc_audience :: string
  vc_challenge :: string
  vc_notAfter :: timestamp

datatype verdict = VerdictOk | VerdictBad tb_code

record 'x tb_ports =
  tb_now :: "('x, tb_failure, int) eff"
  tb_randomUUID :: "('x, tb_failure, string) eff"
  verifyBindingProof :: "boundary_proof \<Rightarrow> verify_context \<Rightarrow> ('x, tb_failure, verdict) eff"
  verifyLeaseExtensionProof :: "boundary_proof \<Rightarrow> verify_context \<Rightarrow> ('x, tb_failure, verdict) eff"
  dateParse :: "string \<Rightarrow> int option"
  maxLifecycleWindowMs :: int
  minWindowMs :: int

record 'x tb_world =
  boundaries :: "(string, trust_boundary) js_map"
  auditEvents :: "boundary_audit_event list"
  outside :: 'x

type_synonym ('x, 'a) tb_eff = "('x tb_world, tb_failure, 'a) eff"

definition tb_load :: "string \<Rightarrow> ('x, trust_boundary option) tb_eff" where
  "tb_load i = (\<lambda>w. (Inr (jm_get (boundaries w) i), w))"

definition tb_save :: "trust_boundary \<Rightarrow> ('x, unit) tb_eff" where
  "tb_save b = (\<lambda>w. (Inr (), w\<lparr>boundaries := jm_set (boundaries w) (tb_id b) b\<rparr>))"

definition appendAuditEvent :: "boundary_audit_event \<Rightarrow> ('x, unit) tb_eff" where
  "appendAuditEvent e = (\<lambda>w. (Inr (), w\<lparr>auditEvents := auditEvents w @ [e]\<rparr>))"

definition tb_clear :: "('x, unit) tb_eff" where
  "tb_clear = (\<lambda>w. (Inr (), w\<lparr>boundaries := [], auditEvents := []\<rparr>))"

text \<open>A port call: it sees and changes its own part of the world.\<close>

definition on_outside :: "('x, tb_failure, 'a) eff \<Rightarrow> ('x, 'a) tb_eff" where
  "on_outside m = (\<lambda>w. case m (outside w) of (r, x) \<Rightarrow> (r, w\<lparr>outside := x\<rparr>))"

subsection \<open>Invariants\<close>

definition isoToMs :: "'x tb_ports \<Rightarrow> timestamp \<Rightarrow> tb_failure + int" where
  "isoToMs P ts = (case dateParse P ts of None \<Rightarrow> Inl (TbProtocolError TB_LIFECYCLE_INVALID) | Some ms \<Rightarrow> Inr ms)"

definition nowToIso :: "'x tb_ports \<Rightarrow> ('x, tb_failure, timestamp) eff" where
  "nowToIso P = eff_bind (tb_now P) (\<lambda>t. eff_return (toISOString t))"

text \<open>The states of the datatype are the five of the source, so the membership test I3 has no counterpart.\<close>

definition assertInvariant :: "'x tb_ports \<Rightarrow> trust_boundary \<Rightarrow> tb_failure + unit" where
  "assertInvariant P b =
     res_bind (ensure (tbVersion b = ''1.0.0'') (TbProtocolError TB_VERSION_UNSUPPORTED)) (\<lambda>_.
     res_bind (ensure (tb_id b \<noteq> []) (TbProtocolError TB_ID_INVALID)) (\<lambda>_.
     res_bind (ensure (principalSide b \<noteq> boundedSide b) (TbProtocolError TB_PARTY_SELF_REFERENTIAL)) (\<lambda>_.
     res_bind (isoToMs P (lw_notBefore (lifecycleWindow b))) (\<lambda>notBeforeMs.
     res_bind (isoToMs P (lw_notAfter (lifecycleWindow b))) (\<lambda>notAfterMs.
     res_bind (ensure (notBeforeMs < notAfterMs) (TbProtocolError TB_LIFECYCLE_INVALID)) (\<lambda>_.
     res_bind (ensure (tb_state b = Pending \<longrightarrow> bindingProofId b = None) (TbProtocolError TB_BINDING_PROOF_UNEXPECTED)) (\<lambda>_.
     ensure (tb_state b = Pending \<or> (bindingProofId b \<noteq> None \<and> bindingProofId b \<noteq> Some []))
       (TbProtocolError TB_BINDING_PROOF_MISSING))))))))"

subsection \<open>Legal transitions\<close>

definition findLegalTransition ::
  "boundary_state \<Rightarrow> boundary_event \<Rightarrow> boundary_target \<Rightarrow> transition_source \<Rightarrow> legal_transition option" where
  "findLegalTransition from_state event to_state src =
     (let candidates = filter (\<lambda>t. lt_from t = from_state \<and> lt_event t = event \<and> lt_to t = to_state) LEGAL_TRANSITIONS in
      case candidates of
        [] \<Rightarrow> None
      | [c] \<Rightarrow> Some c
      | c # _ \<Rightarrow>
          (case List.find (\<lambda>t. if src = sweeper then lt_id t = T7 else lt_id t \<noteq> T7) candidates of
             Some t \<Rightarrow> Some t
           | None \<Rightarrow> Some c))"

text \<open>The switch that computes the target state; the emergency event has been rejected before it.\<close>

fun target_state :: "boundary_event \<Rightarrow> boundary_state option" where
  "target_state onTrustEstablished = Some Active"
| "target_state onLeaseExtended = Some Active"
| "target_state onSuspended = Some Suspended"
| "target_state onResumed = Some Active"
| "target_state onRevoked = Some Revoked"
| "target_state onExpired = Some Expired"
| "target_state onEmergencySuspended = None"

subsection \<open>Transitions\<close>

record expected_context =
  expectedAudience :: string
  expectedChallenge :: string

record transition_opts =
  to_id :: string
  to_event :: boundary_event
  to_actorDID :: did
  to_source :: transition_source
  to_bindingProof :: "boundary_proof option"
  to_leaseExtensionProof :: "boundary_proof option"
  to_requestedNotAfter :: "timestamp option"
  to_verifyContext :: "expected_context option"

definition context_for :: "expected_context \<Rightarrow> timestamp \<Rightarrow> verify_context" where
  "context_for c t = \<lparr>vc_audience = expectedAudience c, vc_challenge = expectedChallenge c, vc_notAfter = t\<rparr>"

definition fresh_proof_id :: "'x tb_ports \<Rightarrow> ('x, tb_failure, string option) eff" where
  "fresh_proof_id P =
     eff_bind (tb_randomUUID P) (\<lambda>u. eff_bind (eff_lift (toUuidV4String u)) (\<lambda>i. eff_return (Some i)))"

text \<open>\<open>if (!x) throw\<close> on an optional argument.\<close>

definition need :: "'a option \<Rightarrow> tb_code \<Rightarrow> ('x, tb_failure, 'a) eff" where
  "need x c = (case x of None \<Rightarrow> eff_throw (TbProtocolError c) | Some a \<Rightarrow> eff_return a)"

definition check_verdict :: "verdict \<Rightarrow> ('x, tb_failure, unit) eff" where
  "check_verdict v = (case v of VerdictOk \<Rightarrow> eff_return () | VerdictBad c \<Rightarrow> eff_throw (TbProtocolError c))"

type_synonym next_fields = "string option \<times> lifecycle_window"

definition case_T1 :: "'x tb_ports \<Rightarrow> transition_opts \<Rightarrow> trust_boundary \<Rightarrow> ('x, tb_failure, next_fields) eff" where
  "case_T1 P opts b =
     eff_bind (need (to_bindingProof opts) TB_PRINCIPAL_POP_MISSING) (\<lambda>proof.
     eff_bind (need (to_verifyContext opts) TB_PAYLOAD_COVERAGE_INSUFFICIENT) (\<lambda>c.
     eff_bind (eff_guard (bp_boundaryId proof = tb_id b) (TbProtocolError TB_PAYLOAD_COVERAGE_INSUFFICIENT)) (\<lambda>_.
     eff_bind (eff_guard (bp_notAfter proof = lw_notAfter (lifecycleWindow b)) (TbProtocolError TB_EXPIRY_CLIENT_CONTROLLED)) (\<lambda>_.
     eff_bind (verifyBindingProof P proof (context_for c (lw_notAfter (lifecycleWindow b)))) (\<lambda>v.
     eff_bind (check_verdict v) (\<lambda>_.
     eff_bind (fresh_proof_id P) (\<lambda>i.
     eff_return (i, lifecycleWindow b))))))))"

text \<open>\<open>Math.min(requestedMs, nowMs + max)\<close> with the check against the minimal window; also in \<open>createBoundary\<close>.\<close>

definition server_enforced :: "'x tb_ports \<Rightarrow> timestamp \<Rightarrow> ('x, tb_failure, int) eff" where
  "server_enforced P requested =
     eff_bind (tb_now P) (\<lambda>nowMs.
     eff_bind (eff_lift (isoToMs P requested)) (\<lambda>requestedMs.
     let enforced = min requestedMs (nowMs + maxLifecycleWindowMs P) in
     eff_bind (eff_guard (nowMs + minWindowMs P < enforced) (TbProtocolError TB_LIFECYCLE_INVALID)) (\<lambda>_.
     eff_return enforced)))"

definition case_T2 :: "'x tb_ports \<Rightarrow> transition_opts \<Rightarrow> trust_boundary \<Rightarrow> ('x, tb_failure, next_fields) eff" where
  "case_T2 P opts b =
     eff_bind (need (to_leaseExtensionProof opts) TB_PAYLOAD_COVERAGE_INSUFFICIENT) (\<lambda>proof.
     eff_bind (need (to_verifyContext opts) TB_PAYLOAD_COVERAGE_INSUFFICIENT) (\<lambda>c.
     eff_bind (need (case to_requestedNotAfter opts of Some [] \<Rightarrow> None | r \<Rightarrow> r) TB_LIFECYCLE_INVALID) (\<lambda>requested.
     eff_bind (server_enforced P requested) (\<lambda>ms.
     let newNotAfter = toISOString ms in
     eff_bind (eff_guard (bp_notAfter proof = newNotAfter) (TbProtocolError TB_EXPIRY_CLIENT_CONTROLLED)) (\<lambda>_.
     eff_bind (eff_guard (bp_boundaryId proof = tb_id b) (TbProtocolError TB_PAYLOAD_COVERAGE_INSUFFICIENT)) (\<lambda>_.
     eff_bind (verifyLeaseExtensionProof P proof (context_for c newNotAfter)) (\<lambda>v.
     eff_bind (check_verdict v) (\<lambda>_.
     eff_bind (fresh_proof_id P) (\<lambda>i.
     eff_return (i, \<lparr>lw_notBefore = lw_notBefore (lifecycleWindow b), lw_notAfter = newNotAfter\<rparr>))))))))))"

definition case_T3_T5 :: "'x tb_ports \<Rightarrow> trust_boundary \<Rightarrow> ('x, tb_failure, next_fields) eff" where
  "case_T3_T5 P b = eff_bind (fresh_proof_id P) (\<lambda>i. eff_return (i, lifecycleWindow b))"

definition case_T4 :: "'x tb_ports \<Rightarrow> trust_boundary \<Rightarrow> ('x, tb_failure, next_fields) eff" where
  "case_T4 P b =
     eff_bind (tb_now P) (\<lambda>nowMs.
     eff_bind (eff_lift (isoToMs P (lw_notAfter (lifecycleWindow b)))) (\<lambda>notAfterMs.
     eff_bind (eff_guard (nowMs + minWindowMs P < notAfterMs) (TbProtocolError TB_BOUNDARY_EXPIRED)) (\<lambda>_.
     eff_bind (fresh_proof_id P) (\<lambda>i. eff_return (i, lifecycleWindow b)))))"

definition case_T6_T7 :: "'x tb_ports \<Rightarrow> transition_id \<Rightarrow> trust_boundary \<Rightarrow> ('x, tb_failure, next_fields) eff" where
  "case_T6_T7 P k b =
     eff_bind (eff_when (k = T7)
       (eff_bind (tb_now P) (\<lambda>nowMs.
        eff_bind (eff_lift (isoToMs P (lw_notAfter (lifecycleWindow b)))) (\<lambda>notAfterMs.
        eff_guard (notAfterMs \<le> nowMs) (TbProtocolError TB_LIFECYCLE_INVALID))))) (\<lambda>_.
     eff_return (bindingProofId b, lifecycleWindow b))"

definition dispatch :: "'x tb_ports \<Rightarrow> transition_opts \<Rightarrow> trust_boundary \<Rightarrow> transition_id \<Rightarrow> ('x, tb_failure, next_fields) eff" where
  "dispatch P opts b k =
     (case k of
        T1 \<Rightarrow> case_T1 P opts b
      | T2 \<Rightarrow> case_T2 P opts b
      | T3 \<Rightarrow> case_T3_T5 P b
      | T4 \<Rightarrow> case_T4 P b
      | T5 \<Rightarrow> case_T3_T5 P b
      | T8 \<Rightarrow> eff_throw (TbProtocolError TB_INVALID_TRANSITION)
      | _ \<Rightarrow> case_T6_T7 P k b)"

text \<open>From the loaded row to the row to be saved.\<close>

definition next_boundary :: "'x tb_ports \<Rightarrow> transition_opts \<Rightarrow> trust_boundary \<Rightarrow> ('x, tb_failure, trust_boundary) eff" where
  "next_boundary P opts b =
     (case target_state (to_event opts) of
        None \<Rightarrow> eff_throw (TbProtocolError TB_EMERGENCY_NOT_IMPLEMENTED)
      | Some toState \<Rightarrow>
          (case findLegalTransition (tb_state b) (to_event opts) (Lifecycle toState) (to_source opts) of
             None \<Rightarrow> eff_throw (TbProtocolError TB_INVALID_TRANSITION)
           | Some legal \<Rightarrow>
               eff_bind (eff_guard (lt_id legal = T7 \<longrightarrow> to_source opts = sweeper) (TbProtocolError TB_AUDIT_TRANSITION_SOURCE_INVALID)) (\<lambda>_.
               eff_bind (eff_guard (lt_id legal \<noteq> T7 \<longrightarrow> to_source opts \<noteq> sweeper) (TbProtocolError TB_AUDIT_TRANSITION_SOURCE_INVALID)) (\<lambda>_.
               eff_bind (dispatch P opts b (lt_id legal)) (\<lambda>(proofId, window).
               eff_bind (nowToIso P) (\<lambda>entered.
               let nxt = b\<lparr>tb_state := toState, stateEnteredAt := entered, lifecycleWindow := window, bindingProofId := proofId\<rparr> in
               eff_bind (eff_lift (assertInvariant P nxt)) (\<lambda>_. eff_return nxt)))))))"

definition audit_row :: "transition_opts \<Rightarrow> trust_boundary \<Rightarrow> trust_boundary \<Rightarrow> timestamp \<Rightarrow> boundary_audit_event" where
  "audit_row opts b nxt t =
     \<lparr>ae_type = to_event opts, ae_boundaryId = tb_id b, transitionBefore = tb_state b, transitionAfter = tb_state nxt,
      ae_transitionSource = to_source opts, ae_actorDID = to_actorDID opts, ae_timestamp = t,
      ae_bindingProofId = bindingProofId nxt\<rparr>"

definition load_existing :: "string \<Rightarrow> ('x, trust_boundary) tb_eff" where
  "load_existing i =
     eff_bind (tb_load i) (\<lambda>mb. case mb of None \<Rightarrow> eff_throw (TbProtocolError TB_BOUNDARY_NOT_FOUND) | Some b \<Rightarrow> eff_return b)"

definition commit_transition :: "'x tb_ports \<Rightarrow> transition_opts \<Rightarrow> trust_boundary \<Rightarrow> ('x, trust_boundary) tb_eff" where
  "commit_transition P opts b =
     eff_bind (on_outside (next_boundary P opts b)) (\<lambda>nxt. eff_bind (tb_save nxt) (\<lambda>_. eff_return nxt))"

definition audit_transition :: "'x tb_ports \<Rightarrow> transition_opts \<Rightarrow> trust_boundary \<Rightarrow> trust_boundary \<Rightarrow> ('x, unit) tb_eff" where
  "audit_transition P opts b nxt =
     eff_bind (on_outside (nowToIso P)) (\<lambda>t. appendAuditEvent (audit_row opts b nxt t))"

definition transitionState :: "'x tb_ports \<Rightarrow> transition_opts \<Rightarrow> ('x, trust_boundary) tb_eff" where
  "transitionState P opts =
     eff_bind (load_existing (to_id opts)) (\<lambda>b.
     eff_bind (commit_transition P opts b) (\<lambda>nxt.
     eff_bind (audit_transition P opts b nxt) (\<lambda>_. eff_return nxt)))"

subsection \<open>Creation and the handshake middleware\<close>

record create_opts =
  co_id :: string
  co_principalSide :: did
  co_boundedSide :: did
  co_boundaryScope :: "string list"
  co_requestedNotAfter :: timestamp

definition new_boundary :: "'x tb_ports \<Rightarrow> create_opts \<Rightarrow> ('x, tb_failure, trust_boundary) eff" where
  "new_boundary P opts =
     eff_bind (eff_lift (toTrustBoundaryId (co_id opts))) (\<lambda>i.
     eff_bind (eff_guard (co_principalSide opts \<noteq> co_boundedSide opts) (TbProtocolError TB_PARTY_SELF_REFERENTIAL)) (\<lambda>_.
     eff_bind (server_enforced P (co_requestedNotAfter opts)) (\<lambda>ms.
     eff_bind (nowToIso P) (\<lambda>nb.
     eff_bind (eff_lift (toTbVersionString ''1.0.0'')) (\<lambda>v.
     let b = \<lparr>tbVersion = v, tb_id = i, principalSide = co_principalSide opts, boundedSide = co_boundedSide opts,
              boundaryScope = co_boundaryScope opts, lifecycleWindow = \<lparr>lw_notBefore = nb, lw_notAfter = toISOString ms\<rparr>,
              tb_state = Pending, stateEnteredAt = nb, bindingProofId = None, boundedTokenId = None,
              delegationChainHead = None, emergencyAuthorizationId = None\<rparr> in
     eff_bind (eff_lift (assertInvariant P b)) (\<lambda>_. eff_return b))))))"

definition createBoundary :: "'x tb_ports \<Rightarrow> create_opts \<Rightarrow> ('x, trust_boundary) tb_eff" where
  "createBoundary P opts =
     eff_bind (on_outside (new_boundary P opts)) (\<lambda>b. eff_bind (tb_save b) (\<lambda>_. eff_return b))"

definition getCurrent :: "string \<Rightarrow> ('x, trust_boundary option) tb_eff" where
  "getCurrent i = tb_load i"

record handshake_context =
  hc_expectedAudience :: string
  hc_expectedChallenge :: string
  hc_principalSide :: did
  hc_boundedSide :: did
  hc_boundaryScope :: "string list"
  hc_requestedNotAfter :: string
  hc_boundaryId :: string

definition handshake_create :: "handshake_context \<Rightarrow> create_opts" where
  "handshake_create ctx =
     \<lparr>co_id = hc_boundaryId ctx, co_principalSide = hc_principalSide ctx, co_boundedSide = hc_boundedSide ctx,
      co_boundaryScope = hc_boundaryScope ctx, co_requestedNotAfter = hc_requestedNotAfter ctx\<rparr>"

definition handshake_transition :: "handshake_context \<Rightarrow> boundary_proof \<Rightarrow> did \<Rightarrow> string \<Rightarrow> transition_opts" where
  "handshake_transition ctx proof actor i =
     \<lparr>to_id = i, to_event = onTrustEstablished, to_actorDID = actor, to_source = client,
      to_bindingProof = Some (proof\<lparr>bp_boundaryId := i\<rparr>), to_leaseExtensionProof = None,
      to_requestedNotAfter = None,
      to_verifyContext = Some \<lparr>expectedAudience = hc_expectedAudience ctx, expectedChallenge = hc_expectedChallenge ctx\<rparr>\<rparr>"

definition onHandshakeComplete ::
  "'x tb_ports \<Rightarrow> handshake_context \<Rightarrow> boundary_proof \<Rightarrow> did \<Rightarrow> ('x, trust_boundary) tb_eff" where
  "onHandshakeComplete P ctx proof actor =
     eff_bind (createBoundary P (handshake_create ctx)) (\<lambda>p.
     transitionState P (handshake_transition ctx proof actor (tb_id p)))"

definition assertBoundaryActive :: "string \<Rightarrow> ('x, trust_boundary) tb_eff" where
  "assertBoundaryActive i =
     eff_bind (getCurrent i) (\<lambda>mb. case mb of
       None \<Rightarrow> eff_throw (TbProtocolError TB_BOUNDARY_NOT_FOUND)
     | Some b \<Rightarrow>
         (case tb_state b of
            Active \<Rightarrow> eff_return b
          | Pending \<Rightarrow> eff_throw (TbProtocolError TB_STATE_INVALID)
          | Suspended \<Rightarrow> eff_throw (TbProtocolError TB_SUSPENDED_OPERATION_DENIED)
          | Revoked \<Rightarrow> eff_throw (TbProtocolError TB_BOUNDARY_EXPIRED)
          | Expired \<Rightarrow> eff_throw (TbProtocolError TB_BOUNDARY_EXPIRED)))"

record lease_context =
  lc_boundaryId :: string
  lc_requestedNotAfter :: string
  lc_expectedAudience :: string
  lc_expectedChallenge :: string

definition onLeaseExtension ::
  "'x tb_ports \<Rightarrow> lease_context \<Rightarrow> boundary_proof \<Rightarrow> did \<Rightarrow> ('x, trust_boundary) tb_eff" where
  "onLeaseExtension P ctx proof actor =
     transitionState P
       \<lparr>to_id = lc_boundaryId ctx, to_event = onLeaseExtended, to_actorDID = actor, to_source = client,
        to_bindingProof = None, to_leaseExtensionProof = Some (proof\<lparr>bp_boundaryId := lc_boundaryId ctx\<rparr>),
        to_requestedNotAfter = Some (lc_requestedNotAfter ctx),
        to_verifyContext = Some \<lparr>expectedAudience = lc_expectedAudience ctx, expectedChallenge = lc_expectedChallenge ctx\<rparr>\<rparr>"


subsection \<open>Interleaved calls\<close>

text \<open>
  Every \<open>await\<close> lets other calls run. A transition in flight has loaded its row, or has saved the new one
  and has still to write its audit event; between load and save it changes nothing in the storage, so
  one step stands for all of it. \<open>env\<close> is what else may happen outside the storage between two steps.
\<close>

datatype in_flight = Loaded transition_opts trust_boundary | Saved transition_opts trust_boundary trust_boundary

inductive tb_step ::
  "'x tb_ports \<Rightarrow> ('x \<Rightarrow> 'x \<Rightarrow> bool) \<Rightarrow> 'x tb_world \<times> in_flight list \<Rightarrow> 'x tb_world \<times> in_flight list \<Rightarrow> bool"
  for P :: "'x tb_ports" and env :: "'x \<Rightarrow> 'x \<Rightarrow> bool" where
  create: "createBoundary P opts w = (r, w') \<Longrightarrow> tb_step P env (w, fs) (w', fs)"
| load: "load_existing (to_id opts) w = (Inr b, w') \<Longrightarrow> tb_step P env (w, fs) (w', Loaded opts b # fs)"
| commit: "commit_transition P opts b w = (Inr nxt, w') \<Longrightarrow>
     tb_step P env (w, fs @ Loaded opts b # gs) (w', fs @ Saved opts b nxt # gs)"
| abort: "commit_transition P opts b w = (Inl e, w') \<Longrightarrow> tb_step P env (w, fs @ Loaded opts b # gs) (w', fs @ gs)"
| audit: "audit_transition P opts b nxt w = (r, w') \<Longrightarrow> tb_step P env (w, fs @ Saved opts b nxt # gs) (w', fs @ gs)"
| outside: "env (outside w) x \<Longrightarrow> tb_step P env (w, fs) (w\<lparr>outside := x\<rparr>, fs)"

inductive_cases tb_stepE: "tb_step P env (w, fs) c"

definition fresh_world :: "'x \<Rightarrow> 'x tb_world \<times> in_flight list" where
  "fresh_world x = (\<lparr>boundaries = [], auditEvents = [], outside = x\<rparr>, [])"

definition tb_reachable :: "'x tb_ports \<Rightarrow> ('x \<Rightarrow> 'x \<Rightarrow> bool) \<Rightarrow> 'x tb_world \<times> in_flight list \<Rightarrow> bool" where
  "tb_reachable P env c = (\<exists>x. (tb_step P env)\<^sup>*\<^sup>* (fresh_world x) c)"

definition terminal_state :: "boundary_state \<Rightarrow> bool" where
  "terminal_state s = (s = Revoked \<or> s = Expired)"

definition state_moves :: "(boundary_state \<times> boundary_state) list" where
  "state_moves = List.map_filter (\<lambda>t. case lt_to t of Lifecycle s \<Rightarrow> Some (lt_from t, s) | EmergencySuspended \<Rightarrow> None) LEGAL_TRANSITIONS"

definition typed_boundary :: "'x tb_ports \<Rightarrow> string \<Rightarrow> trust_boundary \<Rightarrow> bool" where
  "typed_boundary P k b =
     (assertInvariant P b = Inr () \<and> tb_id b = k \<and> UUID_V4_REGEX k \<and>
      (case bindingProofId b of None \<Rightarrow> tb_state b = Pending | Some i \<Rightarrow> tb_state b \<noteq> Pending \<and> UUID_V4_REGEX i))"

text \<open>The event is a line of the table, and it names the sweeper exactly when the line is T7.\<close>

definition legal_event :: "boundary_event \<Rightarrow> boundary_state \<Rightarrow> boundary_state \<Rightarrow> transition_source \<Rightarrow> bool" where
  "legal_event ev s s' src =
     list_ex (\<lambda>t. lt_event t = ev \<and> lt_from t = s \<and> lt_to t = Lifecycle s' \<and> (lt_id t = T7 \<longleftrightarrow> src = sweeper)) LEGAL_TRANSITIONS"

definition typed_event :: "boundary_audit_event \<Rightarrow> bool" where
  "typed_event e =
     (legal_event (ae_type e) (transitionBefore e) (transitionAfter e) (ae_transitionSource e) \<and> UUID_V4_REGEX (ae_boundaryId e))"

fun typed_flight :: "'x tb_ports \<Rightarrow> in_flight \<Rightarrow> bool" where
  "typed_flight P (Loaded opts b) = (typed_boundary P (to_id opts) b)"
| "typed_flight P (Saved opts b nxt) =
     (typed_boundary P (to_id opts) b \<and> tb_id nxt = tb_id b \<and> legal_event (to_event opts) (tb_state b) (tb_state nxt) (to_source opts))"

definition typed_world :: "'x tb_ports \<Rightarrow> 'x tb_world \<times> in_flight list \<Rightarrow> bool" where
  "typed_world P c =
     ((\<forall>k b. jm_get (boundaries (fst c)) k = Some b \<longrightarrow> typed_boundary P k b) \<and>
      list_all typed_event (auditEvents (fst c)) \<and> list_all (typed_flight P) (snd c))"

subsection \<open>Inverting the operations\<close>

lemma on_outside_Inr: "on_outside m w = (Inr a, w') \<longleftrightarrow> (\<exists>x. m (outside w) = (Inr a, x) \<and> w' = w\<lparr>outside := x\<rparr>)"
  by (auto simp: on_outside_def split: prod.splits)

lemma on_outside_Inl: "on_outside m w = (Inl e, w') \<longleftrightarrow> (\<exists>x. m (outside w) = (Inl e, x) \<and> w' = w\<lparr>outside := x\<rparr>)"
  by (auto simp: on_outside_def split: prod.splits)

lemma load_existing_Inr [simp]: "load_existing i w = (Inr b, w') \<longleftrightarrow> jm_get (boundaries w) i = Some b \<and> w' = w"
  by (auto simp: load_existing_def tb_load_def eff_bind_def eff_throw_def eff_return_def split: option.splits)

lemma tb_save_Inr [simp]: "tb_save b w = (r, w') \<longleftrightarrow> r = Inr () \<and> w' = w\<lparr>boundaries := jm_set (boundaries w) (tb_id b) b\<rparr>"
  by (auto simp: tb_save_def)

lemma need_Inr [simp]: "need x c w = (Inr a, w') \<longleftrightarrow> x = Some a \<and> w' = w"
  by (auto simp: need_def split: option.splits)

lemma check_verdict_Inr [simp]: "check_verdict v w = (Inr u, w') \<longleftrightarrow> v = VerdictOk \<and> w' = w"
  by (auto simp: check_verdict_def split: verdict.splits)

lemma eff_lift_Inr [simp]: "eff_lift r w = (Inr a, w') \<longleftrightarrow> r = Inr a \<and> w' = w"
  by (auto simp: eff_lift_def)

lemma find_member: "List.find p xs = Some x \<Longrightarrow> x \<in> set xs"
  by (induction xs) (auto split: if_splits)

lemma findLegalTransition_SomeD:
  assumes "findLegalTransition s e t src = Some l"
  shows "l \<in> set LEGAL_TRANSITIONS \<and> lt_from l = s \<and> lt_event l = e \<and> lt_to l = t"
proof -
  define cs where "cs = filter (\<lambda>u. lt_from u = s \<and> lt_event u = e \<and> lt_to u = t) LEGAL_TRANSITIONS"
  have "l \<in> set cs"
    using assms unfolding findLegalTransition_def cs_def[symmetric] Let_def
    by (auto simp del: find.simps dest: find_member split: list.splits option.splits)
  then show ?thesis by (auto simp: cs_def)
qed

lemma fresh_proof_id_Inr:
  "fresh_proof_id P x = (Inr i, x') \<longleftrightarrow> (\<exists>u. tb_randomUUID P x = (Inr u, x') \<and> UUID_V4_REGEX u \<and> i = Some u)"
  by (auto simp: fresh_proof_id_def eff_bind_Inr toUuidV4String_def split: if_splits)

lemma commit_transition_Inr:
  "commit_transition P opts b w = (Inr nxt, w') \<longleftrightarrow>
     (\<exists>x. next_boundary P opts b (outside w) = (Inr nxt, x) \<and>
          w' = w\<lparr>outside := x, boundaries := jm_set (boundaries w) (tb_id nxt) nxt\<rparr>)"
  by (auto simp: commit_transition_def eff_bind_Inr on_outside_Inr)

lemma commit_transition_Inl:
  "commit_transition P opts b w = (Inl e, w') \<Longrightarrow> \<exists>x. w' = w\<lparr>outside := x\<rparr>"
  by (auto simp: commit_transition_def eff_bind_def on_outside_def eff_return_def tb_save_def split: prod.splits sum.splits)

lemma next_boundaryE:
  assumes "next_boundary P opts b x = (Inr nxt, x')"
  obtains l k i win x1 t where "l \<in> set LEGAL_TRANSITIONS" "lt_from l = tb_state b" "lt_event l = to_event opts"
    "lt_to l = Lifecycle (tb_state nxt)" "lt_id l = T7 \<longleftrightarrow> to_source opts = sweeper"
    "k = lt_id l" "dispatch P opts b k x = (Inr (i, win), x1)" "tb_now P x1 = (Inr t, x')"
    "nxt = b\<lparr>tb_state := tb_state nxt, stateEnteredAt := toISOString t, lifecycleWindow := win, bindingProofId := i\<rparr>"
    "assertInvariant P nxt = Inr ()"
proof -
  obtain s where s: "target_state (to_event opts) = Some s"
    using assms by (auto simp: next_boundary_def split: option.splits)
  obtain l where l: "findLegalTransition (tb_state b) (to_event opts) (Lifecycle s) (to_source opts) = Some l"
    using assms s by (auto simp: next_boundary_def split: option.splits)
  note lp = findLegalTransition_SomeD[OF l]
  have "(lt_id l = T7 \<longleftrightarrow> to_source opts = sweeper) \<and> (\<exists>i win x1 t. dispatch P opts b (lt_id l) x = (Inr (i, win), x1) \<and>
      tb_now P x1 = (Inr t, x') \<and>
      nxt = b\<lparr>tb_state := s, stateEnteredAt := toISOString t, lifecycleWindow := win, bindingProofId := i\<rparr> \<and>
      assertInvariant P nxt = Inr ())"
    using assms s l by (simp add: next_boundary_def eff_bind_Inr nowToIso_def Let_def) (fastforce simp: split_def)
  then show ?thesis using lp by (auto intro!: that[of l "lt_id l"])
qed

lemma new_boundaryE:
  assumes "new_boundary P opts x = (Inr b, x')"
  obtains now req x1 t where "UUID_V4_REGEX (co_id opts)" "tb_now P x = (Inr now, x1)" "tb_now P x1 = (Inr t, x')"
    "dateParse P (co_requestedNotAfter opts) = Some req"
    "now + minWindowMs P < min req (now + maxLifecycleWindowMs P)" "assertInvariant P b = Inr ()"
    "tb_id b = co_id opts" "tb_state b = Pending" "bindingProofId b = None"
    "lifecycleWindow b = \<lparr>lw_notBefore = toISOString t, lw_notAfter = toISOString (min req (now + maxLifecycleWindowMs P))\<rparr>"
  using assms
  by (auto simp: new_boundary_def server_enforced_def eff_bind_Inr nowToIso_def Let_def toTrustBoundaryId_def isoToMs_def
      split: if_splits option.splits intro: that)

lemma dispatch_uuid:
  assumes "dispatch P opts b k x = (Inr (Some u, win), x')"
  shows "UUID_V4_REGEX u \<or> bindingProofId b = Some u"
  using assms
  by (cases k)
    (auto simp: dispatch_def case_T1_def case_T2_def case_T3_T5_def case_T4_def case_T6_T7_def eff_bind_Inr fresh_proof_id_Inr Let_def)

lemma dispatch_window:
  assumes "dispatch P opts b k x = (Inr (i, win), x')"
  obtains "win = lifecycleWindow b"
  | now req x1 x2 pf c u where "k = T2" "tb_now P x = (Inr now, x1)" "now + minWindowMs P < min req (now + maxLifecycleWindowMs P)"
      "verifyLeaseExtensionProof P pf c x1 = (Inr VerdictOk, x2)" "tb_randomUUID P x2 = (Inr u, x')"
      "win = \<lparr>lw_notBefore = lw_notBefore (lifecycleWindow b), lw_notAfter = toISOString (min req (now + maxLifecycleWindowMs P))\<rparr>"
proof (cases "k = T2")
  case True
  then show ?thesis
    using assms that(2)
    by (fastforce simp: dispatch_def case_T2_def server_enforced_def eff_bind_Inr fresh_proof_id_Inr Let_def)
next
  case False
  then show ?thesis
    using assms that(1)
    by (cases k) (auto simp: dispatch_def case_T1_def case_T3_T5_def case_T4_def case_T6_T7_def eff_bind_Inr)
qed

lemma assertInvariant_OK:
  "assertInvariant P b = Inr () \<longleftrightarrow>
     tbVersion b = ''1.0.0'' \<and> tb_id b \<noteq> [] \<and> principalSide b \<noteq> boundedSide b \<and>
     (\<exists>m n. dateParse P (lw_notBefore (lifecycleWindow b)) = Some m \<and> dateParse P (lw_notAfter (lifecycleWindow b)) = Some n \<and> m < n) \<and>
     (if tb_state b = Pending then bindingProofId b = None else bindingProofId b \<noteq> None \<and> bindingProofId b \<noteq> Some [])"
  by (auto simp: assertInvariant_def res_bind_Inr isoToMs_def split: option.splits)

lemma legal_not_pending: "l \<in> set LEGAL_TRANSITIONS \<Longrightarrow> lt_to l \<noteq> Lifecycle Pending"
  by (auto simp: LEGAL_TRANSITIONS_def)

lemma next_boundary_typed:
  assumes nxt: "next_boundary P opts b x = (Inr nxt, x')" and typed: "typed_boundary P k b"
  shows "typed_boundary P k nxt" "legal_event (to_event opts) (tb_state b) (tb_state nxt) (to_source opts)"
proof -
  obtain l m i win x1 t where l: "l \<in> set LEGAL_TRANSITIONS" "lt_from l = tb_state b" "lt_event l = to_event opts"
      "lt_to l = Lifecycle (tb_state nxt)" "lt_id l = T7 \<longleftrightarrow> to_source opts = sweeper"
    and d: "dispatch P opts b m x = (Inr (i, win), x1)"
    and n: "nxt = b\<lparr>tb_state := tb_state nxt, stateEnteredAt := toISOString t, lifecycleWindow := win, bindingProofId := i\<rparr>"
    and ok: "assertInvariant P nxt = Inr ()"
    using nxt by (rule next_boundaryE) auto
  have "tb_state nxt \<noteq> Pending"
    using legal_not_pending[OF l(1)] l(4) by auto
  moreover have "bindingProofId nxt = i" "tb_id nxt = tb_id b"
    by (subst n; simp)+
  moreover obtain u where "i = Some u"
    using ok calculation unfolding assertInvariant_OK by auto
  moreover have "UUID_V4_REGEX u"
    using dispatch_uuid[of P opts b m x u win x1] d typed \<open>i = Some u\<close> by (auto simp: typed_boundary_def)
  ultimately show "typed_boundary P k nxt"
    using ok typed by (simp add: typed_boundary_def)
  show "legal_event (to_event opts) (tb_state b) (tb_state nxt) (to_source opts)"
    using l unfolding legal_event_def list_ex_iff by blast
qed

lemma createBoundary_cases:
  assumes "createBoundary P opts w = (r, w')"
  obtains x e where "r = Inl e" "new_boundary P opts (outside w) = (Inl e, x)" "w' = w\<lparr>outside := x\<rparr>"
  | b x where "r = Inr b" "new_boundary P opts (outside w) = (Inr b, x)"
      "w' = w\<lparr>outside := x, boundaries := jm_set (boundaries w) (tb_id b) b\<rparr>"
proof (cases "new_boundary P opts (outside w)")
  case (Pair q x)
  then show ?thesis
    using assms that unfolding createBoundary_def by (cases q) (auto simp: eff_bind_def on_outside_def eff_return_def tb_save_def)
qed

subsection \<open>Well-typed worlds\<close>

lemma typed_world_step:
  assumes "tb_step P env c c'" "typed_world P c"
  shows "typed_world P c'"
  using assms
proof (induction rule: tb_step.induct)
  case (create opts w r w' fs)
  show ?case
    using create(1)
  proof (cases rule: createBoundary_cases)
    case 1
    then show ?thesis using create(2) by (simp add: typed_world_def)
  next
    case (2 b x)
    have "typed_boundary P (tb_id b) b"
      using 2(2) by (rule new_boundaryE) (simp add: typed_boundary_def)
    then show ?thesis using create(2) 2(3) by (simp add: typed_world_def jm_get_set)
  qed
next
  case (load opts w b w' fs)
  then show ?case by (simp add: typed_world_def)
next
  case (commit opts b w nxt w' fs gs)
  obtain x where x: "next_boundary P opts b (outside w) = (Inr nxt, x)"
      "w' = w\<lparr>outside := x, boundaries := jm_set (boundaries w) (tb_id nxt) nxt\<rparr>"
    using commit(1) by (auto simp: commit_transition_Inr)
  have b: "typed_boundary P (to_id opts) b" using commit(2) by (simp add: typed_world_def)
  note n = next_boundary_typed[OF x(1) b]
  then show ?case
    using commit(2) b x(2) by (simp add: typed_world_def jm_get_set typed_boundary_def)
next
  case (abort opts b w e w' fs gs)
  obtain x where "w' = w\<lparr>outside := x\<rparr>" using abort(1) by (rule commit_transition_Inl[THEN exE])
  then show ?case using abort(2) by (simp add: typed_world_def)
next
  case (audit opts b nxt w r w' fs gs)
  have "typed_event (audit_row opts b nxt t)" for t
    using audit(2) by (simp add: typed_world_def typed_event_def audit_row_def typed_boundary_def)
  then show ?case
    using audit by (auto simp: typed_world_def audit_transition_def eff_bind_def on_outside_def nowToIso_def appendAuditEvent_def eff_return_def
        split: prod.splits sum.splits)
next
  case (outside w x fs)
  then show ?case by (simp add: typed_world_def)
qed

lemma reachable_typed:
  assumes "tb_reachable P env c"
  shows "typed_world P c"
proof -
  obtain x where run: "(tb_step P env)\<^sup>*\<^sup>* (fresh_world x) c" using assms by (auto simp: tb_reachable_def)
  have "typed_world P (fresh_world x)" by (simp add: typed_world_def fresh_world_def jm_get_def)
  with run show ?thesis by (induction rule: rtranclp_induct) (auto intro: typed_world_step)
qed

subsection \<open>How long a boundary can last\<close>

definition advances :: "('x \<Rightarrow> int) \<Rightarrow> ('x, 'e, 'a) eff \<Rightarrow> bool" where
  "advances clk m = (\<forall>x. clk x \<le> clk (snd (m x)))"

definition LAST_WIRE_MS :: int where
  "LAST_WIRE_MS = 253402300799999"

text \<open>
  The ports use one clock that does not run backwards; a reading of it is not in the future. Date
  strings written by \<open>toISOString\<close> for the years 1970 to 9999 are read back.
\<close>

definition steady_clock :: "('x \<Rightarrow> int) \<Rightarrow> 'x tb_ports \<Rightarrow> bool" where
  "steady_clock clk P =
     (advances clk (tb_now P) \<and> (\<forall>x t x'. tb_now P x = (Inr t, x') \<longrightarrow> 0 \<le> t \<and> t \<le> clk x') \<and>
      advances clk (tb_randomUUID P) \<and> (\<forall>pf c. advances clk (verifyBindingProof P pf c)) \<and>
      (\<forall>pf c. advances clk (verifyLeaseExtensionProof P pf c)))"

definition reads_iso :: "'x tb_ports \<Rightarrow> bool" where
  "reads_iso P = (\<forall>t. 0 \<le> t \<longrightarrow> t \<le> LAST_WIRE_MS \<longrightarrow> dateParse P (toISOString t) = Some t)"

lemma getTime_reads_iso: "0 \<le> t \<Longrightarrow> t \<le> LAST_WIRE_MS \<Longrightarrow> getTime (toISOString t) = Some t"
proof (rule getTime_toISOString)
  assume t: "0 \<le> t" "t \<le> LAST_WIRE_MS"
  define n where "n = t div 86400000"
  have n: "0 \<le> n" "n < 2932897"
    using t by (auto simp: n_def LAST_WIRE_MS_def)
  have d: "day_from_year 0 \<le> 0" "day_from_year 10000 = 2932897"
    by (simp_all add: day_from_year_def)
  note c = year_from_day_correct[of n]
  show "0 \<le> year_from_day (t div 86400000)"
    using day_from_year_mono[of "year_from_day n + 1" 0] c n d unfolding n_def[symmetric] by linarith
  show "year_from_day (t div 86400000) \<le> 9999"
    using day_from_year_mono[of 10000 "year_from_day n"] c n d unfolding n_def[symmetric] by linarith
qed

lemma advancesD: "advances clk m \<Longrightarrow> m x = (r, x') \<Longrightarrow> clk x \<le> clk x'"
  by (metis advances_def snd_conv)

lemma steady_clockD:
  assumes "steady_clock clk P"
  shows "tb_now P x = (r, x') \<Longrightarrow> clk x \<le> clk x'" "tb_randomUUID P x = (r', x') \<Longrightarrow> clk x \<le> clk x'"
    "verifyLeaseExtensionProof P pf c x = (v, x') \<Longrightarrow> clk x \<le> clk x'"
  using assms advancesD[of clk "tb_now P"] advancesD[of clk "tb_randomUUID P"] advancesD[of clk "verifyLeaseExtensionProof P pf c"]
  unfolding steady_clock_def by blast+

lemma advances_pure [simp]: "advances clk (eff_return a)" "advances clk (eff_throw e)" "advances clk (eff_lift r)"
  "advances clk (eff_guard ok e)" "advances clk (need v c)" "advances clk (check_verdict d)"
  by (auto simp: advances_def eff_return_def eff_throw_def eff_lift_def eff_guard_def need_def check_verdict_def
      split: option.splits verdict.splits)

lemma advances_bind: "advances clk m \<Longrightarrow> (\<And>a. advances clk (k a)) \<Longrightarrow> advances clk (eff_bind m k)"
  unfolding advances_def eff_bind_def by (auto split: prod.splits sum.splits) (metis order.trans snd_conv)+

lemma advances_when: "advances clk m \<Longrightarrow> advances clk (eff_when b m)"
  by (simp add: eff_when_def)

lemma advances_ports:
  assumes "steady_clock clk P"
  shows "advances clk (next_boundary P opts b)" "advances clk (new_boundary P copts)" "advances clk (nowToIso P)"
proof -
  note p = assms[unfolded steady_clock_def]
  have i: "advances clk (nowToIso P)" "advances clk (fresh_proof_id P)" "advances clk (server_enforced P r)" for r
    using p by (auto simp: nowToIso_def fresh_proof_id_def server_enforced_def Let_def intro!: advances_bind)
  have "advances clk (dispatch P opts b k)" for k
    using p i by (cases k) (auto simp: dispatch_def case_T1_def case_T2_def case_T3_T5_def case_T4_def case_T6_T7_def Let_def
        intro!: advances_bind advances_when)
  then show "advances clk (next_boundary P opts b)"
    using i by (auto simp: next_boundary_def Let_def intro!: advances_bind split: option.splits prod.splits)
  show "advances clk (new_boundary P copts)" "advances clk (nowToIso P)"
    using i by (auto simp: new_boundary_def Let_def intro!: advances_bind)
qed

definition within_lease :: "('x \<Rightarrow> int) \<Rightarrow> 'x tb_ports \<Rightarrow> 'x \<Rightarrow> trust_boundary \<Rightarrow> bool" where
  "within_lease clk P x b =
     (\<forall>ms. dateParse P (lw_notAfter (lifecycleWindow b)) = Some ms \<longrightarrow> ms \<le> clk x + maxLifecycleWindowMs P)"

definition leases_ok :: "('x \<Rightarrow> int) \<Rightarrow> 'x tb_ports \<Rightarrow> 'x tb_world \<times> in_flight list \<Rightarrow> bool" where
  "leases_ok clk P c =
     (clk (outside (fst c)) + maxLifecycleWindowMs P \<le> LAST_WIRE_MS \<longrightarrow>
      (\<forall>k b. jm_get (boundaries (fst c)) k = Some b \<longrightarrow> within_lease clk P (outside (fst c)) b) \<and>
      (\<forall>opts b. Loaded opts b \<in> set (snd c) \<longrightarrow> within_lease clk P (outside (fst c)) b))"

lemma within_lease_later: "within_lease clk P x b \<Longrightarrow> clk x \<le> clk x' \<Longrightarrow> within_lease clk P x' b"
  unfolding within_lease_def by fastforce

lemma enforced_within:
  assumes "steady_clock clk P" "reads_iso P" "0 \<le> minWindowMs P"
    and now: "tb_now P x = (Inr now, x1)" and lim: "now + minWindowMs P < min req (now + maxLifecycleWindowMs P)"
    and w: "lw_notAfter (lifecycleWindow b) = toISOString (min req (now + maxLifecycleWindowMs P))"
    and later: "clk x1 \<le> clk x'" "clk x' + maxLifecycleWindowMs P \<le> LAST_WIRE_MS"
  shows "within_lease clk P x' b"
proof -
  have t: "0 \<le> now" "now \<le> clk x1" using assms(1) now by (auto simp: steady_clock_def)
  define ms where "ms = min req (now + maxLifecycleWindowMs P)"
  have "0 \<le> ms" "ms \<le> clk x' + maxLifecycleWindowMs P" using t later lim assms(3) by (auto simp: ms_def)
  then have "dateParse P (lw_notAfter (lifecycleWindow b)) = Some ms"
    using assms(2) later(2) unfolding reads_iso_def w ms_def[symmetric] by simp
  then show ?thesis using \<open>ms \<le> _\<close> by (simp add: within_lease_def)
qed

lemma next_within:
  assumes P: "steady_clock clk P" "reads_iso P" "0 \<le> minWindowMs P"
    and nxt: "next_boundary P opts b x = (Inr nxt, x')" and b: "within_lease clk P x b"
    and lim: "clk x' + maxLifecycleWindowMs P \<le> LAST_WIRE_MS"
  shows "within_lease clk P x' nxt"
proof -
  obtain k i win x1 t where d: "dispatch P opts b k x = (Inr (i, win), x1)" and t: "tb_now P x1 = (Inr t, x')"
    and n: "nxt = b\<lparr>tb_state := tb_state nxt, stateEnteredAt := toISOString t, lifecycleWindow := win, bindingProofId := i\<rparr>"
    using nxt by (rule next_boundaryE) (rule that)
  have win: "lifecycleWindow nxt = win" by (subst n) simp
  have le: "clk x1 \<le> clk x'" using t by (rule steady_clockD(1)[OF P(1)])
  show ?thesis
    using d
  proof (cases rule: dispatch_window)
    case 1
    then have "within_lease clk P x nxt" using b win by (simp add: within_lease_def)
    then show ?thesis using advancesD[OF advances_ports(1)[OF P(1)] nxt] by (rule within_lease_later)
  next
    case (2 now req y1 y2 pf c u)
    have "clk y1 \<le> clk y2" "clk y2 \<le> clk x1"
      using steady_clockD(3)[OF P(1) 2(4)] steady_clockD(2)[OF P(1) 2(5)] by simp_all
    then show ?thesis
      using enforced_within[OF P 2(2,3)] win 2(6) le lim by simp
  qed
qed

lemma new_within:
  assumes P: "steady_clock clk P" "reads_iso P" "0 \<le> minWindowMs P"
    and new: "new_boundary P opts x = (Inr b, x')" and lim: "clk x' + maxLifecycleWindowMs P \<le> LAST_WIRE_MS"
  shows "within_lease clk P x' b"
  using new
proof (rule new_boundaryE)
  fix now req x1 t
  assume a: "tb_now P x = (Inr now, x1)" "tb_now P x1 = (Inr t, x')" "now + minWindowMs P < min req (now + maxLifecycleWindowMs P)"
    "lifecycleWindow b = \<lparr>lw_notBefore = toISOString t, lw_notAfter = toISOString (min req (now + maxLifecycleWindowMs P))\<rparr>"
  have "clk x1 \<le> clk x'" using a(2) by (rule steady_clockD(1)[OF P(1)])
  then show ?thesis using enforced_within[OF P a(1,3)] a(4) lim by simp
qed

lemma leases_ok_later:
  assumes "leases_ok clk P (w, fs)" "clk (outside w) \<le> clk (outside w')" "boundaries w' = boundaries w" "set gs \<subseteq> set fs"
  shows "leases_ok clk P (w', gs)"
  unfolding leases_ok_def
proof (intro impI conjI allI)
  assume lim: "clk (outside (fst (w', gs))) + maxLifecycleWindowMs P \<le> LAST_WIRE_MS"
  show "within_lease clk P (outside (fst (w', gs))) b" if "jm_get (boundaries (fst (w', gs))) k = Some b" for k b
    using assms lim that within_lease_later[of clk P "outside w" b "outside w'"] by (simp add: leases_ok_def)
  show "within_lease clk P (outside (fst (w', gs))) b" if "Loaded opts b \<in> set (snd (w', gs))" for opts b
    using assms lim that within_lease_later[of clk P "outside w" b "outside w'"] by (auto simp: leases_ok_def)
qed

lemma leases_ok_save:
  assumes "leases_ok clk P (w, fs)" "clk (outside w) \<le> clk x" "\<And>opts b. Loaded opts b \<in> set gs \<Longrightarrow> Loaded opts b \<in> set fs"
    and "clk x + maxLifecycleWindowMs P \<le> LAST_WIRE_MS \<Longrightarrow> within_lease clk P x n"
  shows "leases_ok clk P (w\<lparr>outside := x, boundaries := jm_set (boundaries w) i n\<rparr>, gs)"
  unfolding leases_ok_def
proof (intro impI conjI allI)
  let ?w = "w\<lparr>outside := x, boundaries := jm_set (boundaries w) i n\<rparr>"
  assume lim: "clk (outside (fst (?w, gs))) + maxLifecycleWindowMs P \<le> LAST_WIRE_MS"
  show "within_lease clk P (outside (fst (?w, gs))) b" if "jm_get (boundaries (fst (?w, gs))) k = Some b" for k b
    using assms lim that within_lease_later[of clk P "outside w" b x] by (auto simp: leases_ok_def jm_get_set split: if_splits)
  show "within_lease clk P (outside (fst (?w, gs))) b" if "Loaded opts b \<in> set (snd (?w, gs))" for opts b
  proof -
    have "Loaded opts b \<in> set fs" using that assms(3) by simp
    then have "within_lease clk P (outside w) b" using assms(1,2) lim by (auto simp: leases_ok_def)
    then show ?thesis using within_lease_later[of clk P "outside w" b x] assms(2) by simp
  qed
qed

lemma leases_ok_step:
  assumes P: "steady_clock clk P" "reads_iso P" "0 \<le> minWindowMs P"
    and env: "\<And>x x'. env x x' \<Longrightarrow> clk x \<le> clk x'"
    and step: "tb_step P env c c'" and ok: "leases_ok clk P c"
  shows "leases_ok clk P c'"
  using step ok
proof (induction rule: tb_step.induct)
  case (create opts w r w' fs)
  have adv: "new_boundary P opts (outside w) = (q, x) \<Longrightarrow> clk (outside w) \<le> clk x" for q x
    using advancesD[OF advances_ports(2)[OF P(1)]] .
  show ?case
    using create(1)
  proof (cases rule: createBoundary_cases)
    case (1 x e)
    then show ?thesis using leases_ok_later[OF create(2)] adv[OF 1(2)] by simp
  next
    case (2 b x)
    then show ?thesis
      using leases_ok_save[OF create(2) adv[OF 2(2)]] new_within[OF P 2(2)] by auto
  qed
next
  case (load opts w b w' fs)
  then show ?case by (auto simp: leases_ok_def)
next
  case (commit opts b w nxt w' fs gs)
  obtain x where x: "next_boundary P opts b (outside w) = (Inr nxt, x)"
      "w' = w\<lparr>outside := x, boundaries := jm_set (boundaries w) (tb_id nxt) nxt\<rparr>"
    using commit(1) by (auto simp: commit_transition_Inr)
  have "clk (outside w) \<le> clk x" using advancesD[OF advances_ports(1)[OF P(1)] x(1)] .
  moreover have "clk x + maxLifecycleWindowMs P \<le> LAST_WIRE_MS \<Longrightarrow> within_lease clk P x nxt"
  proof -
    assume lim: "clk x + maxLifecycleWindowMs P \<le> LAST_WIRE_MS"
    then have "within_lease clk P (outside w) b" using commit(2) calculation by (auto simp: leases_ok_def)
    then show ?thesis using next_within[OF P x(1)] lim by blast
  qed
  ultimately show ?case unfolding x(2) by (intro leases_ok_save[OF commit(2)]) auto
next
  case (abort opts b w e w' fs gs)
  have "clk (outside w) \<le> clk (outside w') \<and> boundaries w' = boundaries w"
    using abort(1) advancesD[OF advances_ports(1)[OF P(1)]]
    by (fastforce simp: commit_transition_def eff_bind_def on_outside_def eff_return_def tb_save_def split: prod.splits sum.splits)
  then show ?case using leases_ok_later[OF abort(2), of w' "fs @ gs"] by auto
next
  case (audit opts b nxt w r w' fs gs)
  have "clk (outside w) \<le> clk (outside w') \<and> boundaries w' = boundaries w"
    using audit(1) advancesD[OF advances_ports(3)[OF P(1)]]
    by (fastforce simp: audit_transition_def eff_bind_def on_outside_def appendAuditEvent_def split: prod.splits sum.splits)
  then show ?case using leases_ok_later[OF audit(2), of w' "fs @ gs"] by auto
next
  case (outside w x fs)
  then show ?case using env[OF outside(1)] leases_ok_later[OF outside(2)] by simp
qed

subsection \<open>Serial histories\<close>

text \<open>The states of one boundary move along the table, whose terminal states have no way out.\<close>

interpretation tb: transition_allowlist state_moves terminal_state Pending
  by unfold_locales (auto simp: state_moves_def terminal_state_def LEGAL_TRANSITIONS_def List.map_filter_def)

definition run_transitions :: "'x tb_ports \<Rightarrow> transition_opts list \<Rightarrow> 'x tb_world \<Rightarrow> 'x tb_world" where
  "run_transitions P calls w = foldl (\<lambda>w opts. snd (transitionState P opts w)) w calls"

definition typed_rows :: "'x tb_ports \<Rightarrow> 'x tb_world \<Rightarrow> bool" where
  "typed_rows P w = (\<forall>k b. jm_get (boundaries w) k = Some b \<longrightarrow> typed_boundary P k b)"

lemma legal_event_moves: "legal_event ev s s' src \<Longrightarrow> (s, s') \<in> set state_moves"
  by (auto simp: legal_event_def state_moves_def LEGAL_TRANSITIONS_def List.map_filter_def)

lemma transitionState_cases:
  assumes "transitionState P opts w = (r, w')"
  obtains "boundaries w' = boundaries w"
  | b nxt x where "jm_get (boundaries w) (to_id opts) = Some b" "next_boundary P opts b (outside w) = (Inr nxt, x)"
      "boundaries w' = jm_set (boundaries w) (tb_id nxt) nxt"
proof (cases "jm_get (boundaries w) (to_id opts)")
  case None
  then show ?thesis
    using assms that(1) by (auto simp: transitionState_def load_existing_def tb_load_def eff_bind_def eff_throw_def)
next
  case (Some b)
  then have t: "eff_bind (commit_transition P opts b) (\<lambda>nxt. eff_bind (audit_transition P opts b nxt) (\<lambda>_. eff_return nxt)) w = (r, w')"
    using assms by (simp add: transitionState_def load_existing_def tb_load_def eff_bind_def eff_return_def)
  have aud: "boundaries (snd (audit_transition P opts b nxt v)) = boundaries v" for nxt v
    by (simp add: audit_transition_def eff_bind_def on_outside_def appendAuditEvent_def split: prod.splits sum.splits)
  show ?thesis
  proof (cases "commit_transition P opts b w")
    case (Pair q w1)
    show ?thesis
    proof (cases q)
      case (Inl e)
      with Pair t that(1) show ?thesis by (auto simp: eff_bind_def dest!: commit_transition_Inl)
    next
      case (Inr nxt)
      have "boundaries w' = boundaries w1"
        using t Pair Inr aud[of nxt w1] by (auto simp: eff_bind_def eff_return_def split: prod.splits sum.splits)
      with Pair Inr Some that(2) show ?thesis by (auto simp: commit_transition_Inr)
    qed
  qed
qed

lemma transition_keeps_terminal:
  assumes typed: "typed_rows P w" and row: "jm_get (boundaries w) k = Some b" "terminal_state (tb_state b)"
    and t: "transitionState P opts w = (r, w')"
  shows "typed_rows P w' \<and> jm_get (boundaries w') k = Some b"
  using t
proof (cases rule: transitionState_cases)
  case 1
  with typed row show ?thesis by (simp add: typed_rows_def)
next
  case (2 c nxt x)
  have c: "typed_boundary P (to_id opts) c" using typed 2(1) by (simp add: typed_rows_def)
  note n = next_boundary_typed[OF 2(2) c]
  have "to_id opts \<noteq> k"
    using legal_event_moves[OF n(2)] tb.terminal_stuck row 2(1) by auto
  with n c typed row 2(3) show ?thesis by (simp add: typed_rows_def typed_boundary_def jm_get_set)
qed

lemma run_keeps_terminal:
  assumes "typed_rows P w" "jm_get (boundaries w) k = Some b" "terminal_state (tb_state b)"
  shows "jm_get (boundaries (run_transitions P calls w)) k = Some b"
  using assms
proof (induction calls arbitrary: w)
  case Nil
  then show ?case by (simp add: run_transitions_def)
next
  case (Cons opts calls)
  have "typed_rows P (snd (transitionState P opts w)) \<and> jm_get (boundaries (snd (transitionState P opts w))) k = Some b"
    using transition_keeps_terminal[OF Cons.prems] by (cases "transitionState P opts w") auto
  then have "jm_get (boundaries (run_transitions P calls (snd (transitionState P opts w)))) k = Some b"
    using Cons.IH Cons.prems(3) by blast
  then show ?case by (simp add: run_transitions_def)
qed

subsection \<open>The handshake\<close>

lemma createBoundary_Inr:
  "createBoundary P opts w = (Inr b, w') \<longleftrightarrow>
     (\<exists>x. new_boundary P opts (outside w) = (Inr b, x) \<and>
          w' = w\<lparr>outside := x, boundaries := jm_set (boundaries w) (tb_id b) b\<rparr>)"
  by (auto simp: createBoundary_def eff_bind_Inr on_outside_Inr)

lemma transitionState_Inr:
  "transitionState P opts w = (Inr nxt, w') \<longleftrightarrow>
     (\<exists>b x t x'. jm_get (boundaries w) (to_id opts) = Some b \<and> next_boundary P opts b (outside w) = (Inr nxt, x) \<and>
        tb_now P x = (Inr t, x') \<and>
        w' = \<lparr>boundaries = jm_set (boundaries w) (tb_id nxt) nxt,
              auditEvents = auditEvents w @ [audit_row opts b nxt (toISOString t)], outside = x'\<rparr>)"
  by (cases w) (auto simp: transitionState_def eff_bind_Inr commit_transition_Inr audit_transition_def on_outside_Inr appendAuditEvent_def
      nowToIso_def)

lemma onHandshakeComplete_Inr:
  "onHandshakeComplete P ctx pf actor w = (Inr b, w') \<longleftrightarrow>
     (\<exists>p x x1 t x2. new_boundary P (handshake_create ctx) (outside w) = (Inr p, x) \<and>
        next_boundary P (handshake_transition ctx pf actor (tb_id p)) p x = (Inr b, x1) \<and> tb_now P x1 = (Inr t, x2) \<and>
        w' = \<lparr>boundaries = jm_set (jm_set (boundaries w) (tb_id p) p) (tb_id b) b,
              auditEvents = auditEvents w @ [audit_row (handshake_transition ctx pf actor (tb_id p)) p b (toISOString t)],
              outside = x2\<rparr>)"
  by (auto simp: onHandshakeComplete_def eff_bind_Inr createBoundary_Inr transitionState_Inr jm_get_set handshake_transition_def)

lemma onHandshakeComplete_proof:
  assumes "onHandshakeComplete P ctx pf actor w = (Inr b, w')"
  shows "tb_state b = Active" "tb_id b = hc_boundaryId ctx" "jm_get (boundaries w') (hc_boundaryId ctx) = Some b"
    "bp_notAfter pf = lw_notAfter (lifecycleWindow b)"
    "\<exists>x x'. verifyBindingProof P (pf\<lparr>bp_boundaryId := hc_boundaryId ctx\<rparr>)
       \<lparr>vc_audience = hc_expectedAudience ctx, vc_challenge = hc_expectedChallenge ctx, vc_notAfter = lw_notAfter (lifecycleWindow b)\<rparr> x
       = (Inr VerdictOk, x')"
proof -
  obtain p x x1 where p: "new_boundary P (handshake_create ctx) (outside w) = (Inr p, x)"
    and n: "next_boundary P (handshake_transition ctx pf actor (tb_id p)) p x = (Inr b, x1)"
    and r: "boundaries w' = jm_set (jm_set (boundaries w) (tb_id p) p) (tb_id b) b"
    using assms by (auto simp: onHandshakeComplete_Inr)
  have i: "tb_id p = hc_boundaryId ctx" and pend: "tb_state p = Pending"
    using p by (rule new_boundaryE, simp add: handshake_create_def)+
  have legal: "findLegalTransition Pending onTrustEstablished (Lifecycle Active) client
      = Some \<lparr>lt_id = T1, lt_from = Pending, lt_event = onTrustEstablished, lt_to = Lifecycle Active\<rparr>"
    by (simp add: findLegalTransition_def LEGAL_TRANSITIONS_def)
  obtain y y' pid t where v: "verifyBindingProof P (pf\<lparr>bp_boundaryId := hc_boundaryId ctx\<rparr>)
       \<lparr>vc_audience = hc_expectedAudience ctx, vc_challenge = hc_expectedChallenge ctx, vc_notAfter = lw_notAfter (lifecycleWindow p)\<rparr> y
       = (Inr VerdictOk, y')" "bp_notAfter pf = lw_notAfter (lifecycleWindow p)"
    and b: "b = p\<lparr>tb_state := Active, stateEnteredAt := t, bindingProofId := pid\<rparr>"
    using n i pend
    by (auto simp: next_boundary_def handshake_transition_def legal eff_bind_Inr dispatch_def case_T1_def Let_def context_for_def)
  show "tb_state b = Active" "tb_id b = hc_boundaryId ctx" "bp_notAfter pf = lw_notAfter (lifecycleWindow b)"
    using b v(2) i by simp_all
  then show "jm_get (boundaries w') (hc_boundaryId ctx) = Some b"
    using r by (simp add: jm_get_set)
  show "\<exists>x x'. verifyBindingProof P (pf\<lparr>bp_boundaryId := hc_boundaryId ctx\<rparr>)
       \<lparr>vc_audience = hc_expectedAudience ctx, vc_challenge = hc_expectedChallenge ctx, vc_notAfter = lw_notAfter (lifecycleWindow b)\<rparr> x
       = (Inr VerdictOk, x')"
    using v(1) unfolding b by auto
qed

text \<open>The answer of the middleware depends on the ports alone: \<open>createBoundary\<close> never looks at what is stored.\<close>

lemma onHandshakeComplete_any_store:
  assumes "onHandshakeComplete P ctx pf actor w = (Inr b, w')" "outside v = outside w"
  shows "\<exists>v'. onHandshakeComplete P ctx pf actor v = (Inr b, v')"
  using assms by (auto simp: onHandshakeComplete_Inr)

lemma transition_run:
  assumes "transitionState P opts w = (Inr nxt, w')"
  shows "(tb_step P env)\<^sup>*\<^sup>* (w, fs) (w', fs)"
proof -
  obtain b w1 where l: "load_existing (to_id opts) w = (Inr b, w)" and c: "commit_transition P opts b w = (Inr nxt, w1)"
    and a: "audit_transition P opts b nxt w1 = (Inr (), w')"
    using assms by (auto simp: transitionState_def eff_bind_Inr)
  have "tb_step P env (w, fs) (w, Loaded opts b # fs)" using l by (rule tb_step.load)
  moreover have "tb_step P env (w, Loaded opts b # fs) (w1, Saved opts b nxt # fs)" using tb_step.commit[OF c, of env "[]"] by simp
  moreover have "tb_step P env (w1, Saved opts b nxt # fs) (w', fs)" using tb_step.audit[OF a, of env "[]"] by simp
  ultimately show ?thesis by (meson converse_rtranclp_into_rtranclp r_into_rtranclp)
qed

lemma handshake_run:
  assumes "onHandshakeComplete P ctx pf actor w = (Inr b, w')"
  shows "(tb_step P env)\<^sup>*\<^sup>* (w, fs) (w', fs)"
proof -
  obtain p w1 where c: "createBoundary P (handshake_create ctx) w = (Inr p, w1)"
    and t: "transitionState P (handshake_transition ctx pf actor (tb_id p)) w1 = (Inr b, w')"
    using assms by (auto simp: onHandshakeComplete_def eff_bind_Inr)
  show ?thesis
    using tb_step.create[OF c] transition_run[OF t] by (rule converse_rtranclp_into_rtranclp)
qed

subsection \<open>A small deployment\<close>

text \<open>The outside world is the clock; every proof verifies; dates are read by \<open>getTime\<close>.\<close>

definition pilot_ports :: "int tb_ports" where
  "pilot_ports =
     \<lparr>tb_now = (\<lambda>x. (Inr (max 0 x), max 0 x)), tb_randomUUID = (\<lambda>x. (Inr ''6ec0bd7f-11c0-43da-975e-2a8ad9ebae0b'', x)),
      verifyBindingProof = (\<lambda>_ _ x. (Inr VerdictOk, x)), verifyLeaseExtensionProof = (\<lambda>_ _ x. (Inr VerdictOk, x)),
      dateParse = getTime, maxLifecycleWindowMs = TB_MAX_LIFECYCLE_WINDOW_MS, minWindowMs = TB_MIN_WINDOW_MS\<rparr>"

definition pilot_id :: string where
  "pilot_id = ''9b1deb4d-3b7d-4bad-9bdd-2b0d7b3dcb6d''"

definition pilot_context :: handshake_context where
  "pilot_context =
     \<lparr>hc_expectedAudience = ''https://registry'', hc_expectedChallenge = ''n1'', hc_principalSide = ''did:key:a'',
      hc_boundedSide = ''did:key:b'', hc_boundaryScope = [], hc_requestedNotAfter = ''2026-02-01T00:00:00.000Z'',
      hc_boundaryId = pilot_id\<rparr>"

definition pilot_proof :: boundary_proof where
  "pilot_proof =
     \<lparr>bp_cspVersion = ''1.0.0'', bp_token = ''t'', bp_disclosedClaims = [], bp_challenge = ''n1'',
      bp_audience = ''https://registry'', bp_notAfter = ''2026-02-01T00:00:00.000Z'', bp_proofValue = ''s'', bp_boundaryId = pilot_id\<rparr>"

definition pilot_opts :: "boundary_event \<Rightarrow> transition_opts" where
  "pilot_opts ev =
     \<lparr>to_id = pilot_id, to_event = ev, to_actorDID = ''did:key:a'', to_source = client, to_bindingProof = None,
      to_leaseExtensionProof = Some pilot_proof, to_requestedNotAfter = Some ''2026-02-01T00:00:00.000Z'',
      to_verifyContext = Some \<lparr>expectedAudience = ''https://registry'', expectedChallenge = ''n1''\<rparr>\<rparr>"

definition pilot_start :: "int tb_world" where
  "pilot_start = \<lparr>boundaries = [], auditEvents = [], outside = 1767225600000\<rparr>"

definition pilot_boundary :: "boundary_state \<Rightarrow> trust_boundary" where
  "pilot_boundary st =
     \<lparr>tbVersion = ''1.0.0'', tb_id = pilot_id, principalSide = ''did:key:a'', boundedSide = ''did:key:b'', boundaryScope = [],
      lifecycleWindow = \<lparr>lw_notBefore = ''2026-01-01T00:00:00.000Z'', lw_notAfter = ''2026-02-01T00:00:00.000Z''\<rparr>,
      tb_state = st, stateEnteredAt = ''2026-01-01T00:00:00.000Z'',
      bindingProofId = (if st = Pending then None else Some ''6ec0bd7f-11c0-43da-975e-2a8ad9ebae0b''), boundedTokenId = None,
      delegationChainHead = None, emergencyAuthorizationId = None\<rparr>"

lemma pilot_uuid: "UUID_V4_REGEX pilot_id" "UUID_V4_REGEX ''6ec0bd7f-11c0-43da-975e-2a8ad9ebae0b''"
  by code_simp+

lemma pilot_dates: "toISOString 1767225600000 = ''2026-01-01T00:00:00.000Z''" "toISOString 1769904000000 = ''2026-02-01T00:00:00.000Z''"
  "getTime ''2026-01-01T00:00:00.000Z'' = Some 1767225600000" "getTime ''2026-02-01T00:00:00.000Z'' = Some 1769904000000"
  by code_simp+

lemma pilot_version: "toTbVersionString ''1.0.0'' = Inr ''1.0.0''"
  by (simp add: toTbVersionString_def SEMVER_REGEX_def is_digit_def Let_def)

lemma pilot_invariant: "assertInvariant pilot_ports (pilot_boundary st) = Inr ()"
  by (simp add: assertInvariant_OK pilot_boundary_def pilot_ports_def pilot_dates pilot_id_def)

lemma pilot_new: "new_boundary pilot_ports (handshake_create pilot_context) 1767225600000 = (Inr (pilot_boundary Pending), 1767225600000)"
  using pilot_invariant[of Pending] pilot_uuid
  by (simp add: new_boundary_def handshake_create_def pilot_context_def server_enforced_def nowToIso_def toTrustBoundaryId_def isoToMs_def
      pilot_version pilot_dates eff_defs Let_def pilot_boundary_def pilot_ports_def TB_MAX_LIFECYCLE_WINDOW_MS_def TB_MIN_WINDOW_MS_def)

lemma pilot_establish:
  "next_boundary pilot_ports (handshake_transition pilot_context pilot_proof ''did:key:a'' pilot_id) (pilot_boundary Pending) 1767225600000
     = (Inr (pilot_boundary Active), 1767225600000)"
  using pilot_invariant[of Active] pilot_uuid
  by (simp add: next_boundary_def handshake_transition_def findLegalTransition_def LEGAL_TRANSITIONS_def dispatch_def case_T1_def
      fresh_proof_id_def toUuidV4String_def need_def check_verdict_def nowToIso_def pilot_dates pilot_proof_def
      eff_defs Let_def pilot_boundary_def pilot_ports_def)

lemma pilot_lease:
  "next_boundary pilot_ports (pilot_opts onLeaseExtended) (pilot_boundary Active) 1767225600000
     = (Inr (pilot_boundary Active), 1767225600000)"
  using pilot_invariant[of Active] pilot_uuid
  by (simp add: next_boundary_def pilot_opts_def findLegalTransition_def LEGAL_TRANSITIONS_def dispatch_def case_T2_def server_enforced_def
      isoToMs_def fresh_proof_id_def toUuidV4String_def need_def check_verdict_def nowToIso_def pilot_dates pilot_proof_def
      eff_defs Let_def pilot_boundary_def pilot_ports_def TB_MAX_LIFECYCLE_WINDOW_MS_def TB_MIN_WINDOW_MS_def)

lemma pilot_revoke:
  "next_boundary pilot_ports (pilot_opts onRevoked) (pilot_boundary Active) 1767225600000
     = (Inr (pilot_boundary Revoked), 1767225600000)"
  using pilot_invariant[of Revoked] pilot_uuid
  by (simp add: next_boundary_def pilot_opts_def findLegalTransition_def LEGAL_TRANSITIONS_def dispatch_def case_T3_T5_def
      fresh_proof_id_def toUuidV4String_def nowToIso_def pilot_dates eff_defs Let_def pilot_boundary_def pilot_ports_def)

definition pilot_world :: "boundary_state \<Rightarrow> boundary_audit_event list \<Rightarrow> int tb_world" where
  "pilot_world st es = \<lparr>boundaries = [(pilot_id, pilot_boundary st)], auditEvents = es, outside = 1767225600000\<rparr>"

definition pilot_log :: "boundary_event list \<Rightarrow> boundary_audit_event list" where
  "pilot_log evs = map (\<lambda>(ev, s, t). audit_row (pilot_opts ev) (pilot_boundary s) (pilot_boundary t) ''2026-01-01T00:00:00.000Z'')
     (map (\<lambda>ev. (ev, if ev = onTrustEstablished then Pending else Active, the (target_state ev))) evs)"

lemma pilot_simps [simp]: "tb_id (pilot_boundary st) = pilot_id" "tb_state (pilot_boundary st) = st" "to_id (pilot_opts ev) = pilot_id"
  "boundaries (pilot_world st es) = [(pilot_id, pilot_boundary st)]" "auditEvents (pilot_world st es) = es" "outside (pilot_world st es) = 1767225600000"
  "tb_now pilot_ports x = (Inr (max 0 x), max 0 x)" "dateParse pilot_ports = getTime" "minWindowMs pilot_ports = TB_MIN_WINDOW_MS"
  by (simp_all add: pilot_boundary_def pilot_opts_def pilot_world_def pilot_ports_def)

lemma pilot_handshake:
  "onHandshakeComplete pilot_ports pilot_context pilot_proof ''did:key:a'' (fst (fresh_world 1767225600000))
     = (Inr (pilot_boundary Active), pilot_world Active (pilot_log [onTrustEstablished]))"
  unfolding onHandshakeComplete_Inr
  using pilot_new pilot_establish
  by (auto simp: fresh_world_def pilot_world_def pilot_log_def pilot_dates audit_row_def pilot_opts_def handshake_transition_def)

lemma pilot_revocation:
  "transitionState pilot_ports (pilot_opts onRevoked) (pilot_world Active es)
     = (Inr (pilot_boundary Revoked), pilot_world Revoked (es @ pilot_log [onRevoked]))"
  unfolding transitionState_Inr
  using pilot_revoke by (auto simp: pilot_world_def pilot_log_def pilot_dates jm_get_def)

lemma pilot_active_reachable: "tb_reachable pilot_ports env (pilot_world Active (pilot_log [onTrustEstablished]), [])"
  unfolding tb_reachable_def fresh_world_def
  using handshake_run[OF pilot_handshake, of env "[]"] by (auto simp: fresh_world_def)

lemma pilot_revoked_reachable:
  "tb_reachable pilot_ports env (pilot_world Revoked (pilot_log [onTrustEstablished, onRevoked]), [])"
proof -
  have "(tb_step pilot_ports env)\<^sup>*\<^sup>* (pilot_world Active (pilot_log [onTrustEstablished]), [])
      (pilot_world Revoked (pilot_log [onTrustEstablished] @ pilot_log [onRevoked]), [])"
    using pilot_revocation by (rule transition_run)
  then show ?thesis
    using pilot_active_reachable[of env] unfolding tb_reachable_def by (auto simp: pilot_log_def intro: rtranclp_trans)
qed

lemma pilot_steady: "steady_clock id pilot_ports" "reads_iso pilot_ports"
  by (auto simp: steady_clock_def advances_def pilot_ports_def reads_iso_def getTime_reads_iso)

subsection \<open>Properties\<close>

text \<open>
  C32 (type). However calls interleave, every stored boundary is well-typed: it passes
  \<open>assertInvariant\<close>, is stored under its own id, a UUID, and has a UUID as binding proof exactly when it
  has left the pending state. Every audit event is a line of the transition table, and the sweeper is
  the source of T7 and of nothing else.
\<close>

theorem boundaries_stay_typed:
  assumes "tb_reachable P env (w, fs)"
  shows "(\<forall>k b. jm_get (boundaries w) k = Some b \<longrightarrow> typed_boundary P k b) \<and> list_all typed_event (auditEvents w)"
  using reachable_typed[OF assms] by (simp add: typed_world_def)

theorem boundaries_stay_typed_witness:
  "typed_boundary pilot_ports pilot_id (pilot_boundary Active)"
  using boundaries_stay_typed[OF pilot_active_reachable[of "\<lambda>_ _. False"]] by (simp add: jm_get_def)

text \<open>
  C33 (bounds). Whatever expiry clients ask for and however calls interleave, no stored boundary lasts
  longer than the maximal lifecycle window from now.
\<close>

theorem lease_never_exceeds_window:
  assumes "steady_clock clk P" "reads_iso P" "0 \<le> minWindowMs P" "\<And>x x'. env x x' \<Longrightarrow> clk x \<le> clk x'"
    and run: "tb_reachable P env (w, fs)" and row: "jm_get (boundaries w) k = Some b"
    and "clk (outside w) + maxLifecycleWindowMs P \<le> LAST_WIRE_MS"
  shows "\<exists>ms. dateParse P (lw_notAfter (lifecycleWindow b)) = Some ms \<and> ms \<le> clk (outside w) + maxLifecycleWindowMs P"
proof -
  obtain x where x: "(tb_step P env)\<^sup>*\<^sup>* (fresh_world x) (w, fs)" using run by (auto simp: tb_reachable_def)
  have "leases_ok clk P (fresh_world x)" by (simp add: leases_ok_def fresh_world_def jm_get_def)
  with x have "leases_ok clk P (w, fs)"
    by (induction rule: rtranclp_induct) (auto intro: leases_ok_step[OF assms(1-4)])
  then have "within_lease clk P (outside w) b" using row assms(7) by (simp add: leases_ok_def)
  moreover have "typed_boundary P k b" using reachable_typed[OF run] row by (simp add: typed_world_def)
  ultimately show ?thesis by (auto simp: typed_boundary_def assertInvariant_OK within_lease_def)
qed

theorem lease_never_exceeds_window_witness:
  "\<exists>ms. getTime (lw_notAfter (lifecycleWindow (pilot_boundary Active))) = Some ms \<and> ms \<le> 1767225600000 + maxLifecycleWindowMs pilot_ports"
  using lease_never_exceeds_window[OF pilot_steady _ _ pilot_active_reachable[of "(\<le>)"], of pilot_id "pilot_boundary Active"]
  by (simp add: jm_get_def TB_MIN_WINDOW_MS_def LAST_WIRE_MS_def pilot_ports_def TB_MAX_LIFECYCLE_WINDOW_MS_def)

text \<open>
  Remark (safety). Once a boundary is revoked or expired, no sequence of transitions, each run to its end,
  changes its row.
\<close>

theorem terminal_boundary_frozen:
  assumes "tb_reachable P env (w, fs)" "jm_get (boundaries w) k = Some b" "terminal_state (tb_state b)"
  shows "jm_get (boundaries (run_transitions P calls w)) k = Some b"
proof -
  have "typed_rows P w" using reachable_typed[OF assms(1)] by (simp add: typed_rows_def typed_world_def)
  then show ?thesis using run_keeps_terminal assms(2,3) by blast
qed

theorem terminal_boundary_frozen_witness:
  "jm_get (boundaries (run_transitions pilot_ports [pilot_opts onResumed, pilot_opts onLeaseExtended]
     (pilot_world Revoked (pilot_log [onTrustEstablished, onRevoked])))) pilot_id = Some (pilot_boundary Revoked)"
  by (rule terminal_boundary_frozen[OF pilot_revoked_reachable[of "\<lambda>_ _. False"]]) (simp_all add: jm_get_def terminal_state_def)

text \<open>
  Remark (safety). A handshake that completes leaves an active boundary under the id of its context, and it
  does so only when the verifier has accepted the binding proof for this id, the expected audience and
  challenge, and the expiry the server has fixed; the gate before an envelope then lets it through.
\<close>

theorem handshake_needs_proof:
  assumes "onHandshakeComplete P ctx pf actor w = (Inr b, w')"
  shows "tb_state b = Active \<and> jm_get (boundaries w') (hc_boundaryId ctx) = Some b \<and>
    bp_notAfter pf = lw_notAfter (lifecycleWindow b) \<and>
    (\<exists>x x'. verifyBindingProof P (pf\<lparr>bp_boundaryId := hc_boundaryId ctx\<rparr>)
       \<lparr>vc_audience = hc_expectedAudience ctx, vc_challenge = hc_expectedChallenge ctx, vc_notAfter = lw_notAfter (lifecycleWindow b)\<rparr> x
       = (Inr VerdictOk, x')) \<and>
    assertBoundaryActive (hc_boundaryId ctx) w' = (Inr b, w')"
proof -
  note p = onHandshakeComplete_proof[OF assms]
  have "assertBoundaryActive (hc_boundaryId ctx) w' = (Inr b, w')"
    using p(1,3) by (simp add: assertBoundaryActive_def getCurrent_def tb_load_def eff_bind_def eff_return_def)
  with p show ?thesis by blast
qed

theorem handshake_needs_proof_witness:
  "assertBoundaryActive pilot_id (pilot_world Active (pilot_log [onTrustEstablished])) = (Inr (pilot_boundary Active), pilot_world Active (pilot_log [onTrustEstablished]))"
  using handshake_needs_proof[OF pilot_handshake] by (simp add: pilot_context_def)

text \<open>
  Remark (error). A handshake with the id of a revoked boundary succeeds whenever it would on an empty
  store: the terminal row is overwritten and envelopes pass again.
\<close>

theorem revoked_boundary_reopened:
  assumes "onHandshakeComplete P ctx pf actor \<lparr>boundaries = [], auditEvents = [], outside = outside w\<rparr> = (Inr b, v)"
    and "jm_get (boundaries w) (hc_boundaryId ctx) = Some old" "tb_state old = Revoked"
  shows "\<exists>w'. onHandshakeComplete P ctx pf actor w = (Inr b, w') \<and> assertBoundaryActive (hc_boundaryId ctx) w' = (Inr b, w')"
proof -
  obtain w' where h: "onHandshakeComplete P ctx pf actor w = (Inr b, w')"
    using onHandshakeComplete_any_store[OF assms(1), of w] by auto
  note p = onHandshakeComplete_proof[OF h]
  have "assertBoundaryActive (hc_boundaryId ctx) w' = (Inr b, w')"
    using p(1,3) by (simp add: assertBoundaryActive_def getCurrent_def tb_load_def eff_bind_def eff_return_def)
  with h show ?thesis by blast
qed

theorem revoked_boundary_reopened_witness:
  "\<exists>w'. onHandshakeComplete pilot_ports pilot_context pilot_proof ''did:key:a'' (pilot_world Revoked (pilot_log [onTrustEstablished, onRevoked])) = (Inr (pilot_boundary Active), w')"
proof -
  have "onHandshakeComplete pilot_ports pilot_context pilot_proof ''did:key:a''
      \<lparr>boundaries = [], auditEvents = [], outside = outside (pilot_world Revoked (pilot_log [onTrustEstablished, onRevoked]))\<rparr>
      = (Inr (pilot_boundary Active), pilot_world Active (pilot_log [onTrustEstablished]))"
    using pilot_handshake by (simp add: fresh_world_def)
  from revoked_boundary_reopened[OF this, of "pilot_boundary Revoked"] show ?thesis
    by (auto simp: jm_get_def pilot_context_def)
qed

text \<open>
  C39 (error). A revocation that completes while a lease extension waits for its proof to be verified is
  undone by it: the extension saves the row it had loaded, and the log of the boundary reads
  established, revoked, extended.
\<close>

theorem revocation_overtaken:
  "\<exists>w. tb_reachable pilot_ports env (w, []) \<and> map_option tb_state (jm_get (boundaries w) pilot_id) = Some Active \<and>
     map (\<lambda>e. (ae_type e, transitionBefore e, transitionAfter e)) (auditEvents w) =
       [(onTrustEstablished, Pending, Active), (onRevoked, Active, Revoked), (onLeaseExtended, Active, Active)]"
proof -
  let ?o = "pilot_opts onLeaseExtended" and ?b = "pilot_boundary Active"
  let ?log = "pilot_log [onTrustEstablished, onRevoked]"
  let ?w = "pilot_world Active (?log @ pilot_log [onLeaseExtended])"
  have s1: "tb_step pilot_ports env (pilot_world Active (pilot_log [onTrustEstablished]), []) (pilot_world Active (pilot_log [onTrustEstablished]), [Loaded ?o ?b])"
    by (rule tb_step.load) (simp add: jm_get_def)
  have s2: "(tb_step pilot_ports env)\<^sup>*\<^sup>* (pilot_world Active (pilot_log [onTrustEstablished]), [Loaded ?o ?b])
      (pilot_world Revoked ?log, [Loaded ?o ?b])"
    using transition_run[OF pilot_revocation[of "pilot_log [onTrustEstablished]"], of env "[Loaded ?o ?b]"] by (simp add: pilot_log_def)
  have s3: "tb_step pilot_ports env (pilot_world Revoked ?log, [] @ Loaded ?o ?b # []) (pilot_world Active ?log, [] @ Saved ?o ?b ?b # [])"
    by (rule tb_step.commit) (simp add: commit_transition_Inr pilot_lease pilot_world_def)
  have s4: "tb_step pilot_ports env (pilot_world Active ?log, [] @ Saved ?o ?b ?b # []) (?w, [] @ [])"
    by (rule tb_step.audit[of _ _ _ _ _ "Inr ()"])
      (simp add: audit_transition_def eff_bind_def on_outside_def nowToIso_def eff_return_def appendAuditEvent_def pilot_dates pilot_world_def pilot_log_def)
  note run = rtranclp.rtrancl_into_rtrancl[OF rtranclp.rtrancl_into_rtrancl[OF s2 s3[unfolded append_Nil]] s4[unfolded append_Nil]]
  have "(tb_step pilot_ports env)\<^sup>*\<^sup>* (pilot_world Active (pilot_log [onTrustEstablished]), []) (?w, [])"
    using s1 run by (rule converse_rtranclp_into_rtranclp)
  then have "tb_reachable pilot_ports env (?w, [])"
    using pilot_active_reachable[of env] unfolding tb_reachable_def by (meson rtranclp_trans)
  then show ?thesis
    by (intro exI[of _ ?w]) (simp add: jm_get_def pilot_log_def audit_row_def pilot_opts_def)
qed

end
