(* ===== verification/Managed_Service.thy ===== *)
theory Managed_Service
  imports Js_Text Hash_Chain
begin

text \<open>
  \<open>managed-service-runtime/src\<close>: the token-bucket rate limiter (\<open>rate-limiter.ts\<close>), the API-key check
  (\<open>auth-middleware.ts\<close>), the usage counters (\<open>usage-recorder.ts\<close>, \<open>record-on-finish.ts\<close>, the labels of
  \<open>metrics.ts\<close>) and the two servers that chain them (\<open>resolver-server.ts\<close>, \<open>revocation-server.ts\<close>).

  Times are milliseconds; the token count of a bucket is rational, without the rounding of doubles.
  The three tables of the \<open>managed_service\<close> schema are lists of rows. SHA-256 of a key's text, the
  federated resolver and the revocation checker are parameters. The counters and histograms of the
  Prometheus library are left out; the labels they are given are here.
\<close>

subsection \<open>Types\<close>

datatype tier = FREE | PRO

datatype endpoint = resolver | revocation

datatype tenant_status = TENANT_ACTIVE | TENANT_SUSPENDED_STATUS | TENANT_DELETED

datatype key_status = KEY_ACTIVE | KEY_REVOKED | KEY_EXPIRED

datatype auth_error = INVALID_API_KEY | API_KEY_REVOKED | API_KEY_EXPIRED | TENANT_SUSPENDED

record tenant_record =
  tn_id :: string
  tenantDid :: did
  tn_tier :: tier
  displayName :: string
  contactEmail :: "string option"
  tn_status :: tenant_status

record api_key_record =
  ak_id :: string
  ak_tenantId :: string
  keyHash :: string
  keyPrefix :: string
  ak_description :: "string option"
  ak_expiresAt :: "int option"
  lastUsedAt :: "int option"
  ak_status :: key_status

record auth_context =
  ac_tier :: tier
  ac_tenant :: "tenant_record option"
  ac_apiKey :: "api_key_record option"
  clientIp :: string

record rate_limit_quota =
  windowMs :: rat
  quota_max :: rat

text \<open>The parts of a request the code reads: the address, the \<open>Authorization\<close> header and the path parameter.\<close>

record http_request =
  rq_ip :: "string option"
  rq_remoteAddress :: "string option"
  rq_authorization :: "string option"
  rq_param :: string

subsection \<open>Rate limiter\<close>

record bucket =
  tokens :: rat
  lastRefill :: int
  lastAccess :: int

type_synonym buckets = "(string, bucket) js_map"

record rate_limiter_config =
  rl_quotas :: "tier \<Rightarrow> rate_limit_quota"
  maxBuckets :: nat
  forceFreeTierOnly :: bool

definition DEFAULT_QUOTAS :: "tier \<Rightarrow> rate_limit_quota" where
  "DEFAULT_QUOTAS t = \<lparr>windowMs = 60000, quota_max = (case t of FREE \<Rightarrow> 100 | PRO \<Rightarrow> 10000)\<rparr>"

definition DEFAULT_MAX_BUCKETS :: nat where
  "DEFAULT_MAX_BUCKETS = 10000"

definition default_limiter :: rate_limiter_config where
  "default_limiter = \<lparr>rl_quotas = DEFAULT_QUOTAS, maxBuckets = DEFAULT_MAX_BUCKETS, forceFreeTierOnly = True\<rparr>"

definition request_ip :: "http_request \<Rightarrow> string" where
  "request_ip req = (case rq_ip req of Some ip \<Rightarrow> ip | None \<Rightarrow> (case rq_remoteAddress req of Some ip \<Rightarrow> ip | None \<Rightarrow> ''unknown''))"

definition buildBucketKey :: "auth_context option \<Rightarrow> http_request \<Rightarrow> string" where
  "buildBucketKey auth req =
     (case auth of
        Some a \<Rightarrow>
          (case (ac_tier a, ac_apiKey a) of
             (PRO, Some k) \<Rightarrow> ''pro:'' @ ak_id k
           | _ \<Rightarrow> if clientIp a \<noteq> [] then ''free:'' @ clientIp a else ''pre-auth:'' @ request_ip req)
      | None \<Rightarrow> ''pre-auth:'' @ request_ip req)"

text \<open>The loop of \<open>evictOldest\<close>: the first key whose last access is the smallest; \<open>None\<close> is \<open>Infinity\<close>.\<close>

fun oldest :: "(string \<times> int) option \<Rightarrow> buckets \<Rightarrow> string option" where
  "oldest best [] = map_option fst best"
| "oldest best ((k, v) # bs) =
     oldest (case best of None \<Rightarrow> Some (k, lastAccess v)
             | Some (k', a) \<Rightarrow> if lastAccess v < a then Some (k, lastAccess v) else best) bs"

definition evictOldest :: "buckets \<Rightarrow> buckets" where
  "evictOldest bs = (case oldest None bs of None \<Rightarrow> bs | Some k \<Rightarrow> jm_delete bs k)"

definition getOrCreateBucket :: "buckets \<Rightarrow> string \<Rightarrow> rate_limit_quota \<Rightarrow> int \<Rightarrow> nat \<Rightarrow> bucket \<times> buckets" where
  "getOrCreateBucket bs k quota nowMs limit =
     (case jm_get bs k of
        Some b \<Rightarrow> (b, bs)
      | None \<Rightarrow>
          (let bs' = (if limit \<le> length bs then evictOldest bs else bs);
               fresh = \<lparr>tokens = quota_max quota, lastRefill = nowMs, lastAccess = nowMs\<rparr> in
           (fresh, jm_set bs' k fresh)))"

definition refillBucket :: "bucket \<Rightarrow> rate_limit_quota \<Rightarrow> int \<Rightarrow> bucket" where
  "refillBucket b quota nowMs =
     (let elapsed = nowMs - lastRefill b in
      if elapsed \<le> 0 then b
      else b\<lparr>tokens := min (quota_max quota) (tokens b + of_int elapsed / windowMs quota * quota_max quota),
             lastRefill := nowMs\<rparr>)"

definition computeRetryAfter :: "bucket \<Rightarrow> rate_limit_quota \<Rightarrow> int" where
  "computeRetryAfter b quota =
     (let refillRatePerMs = quota_max quota / windowMs quota; tokensNeeded = 1 - tokens b in
      if tokensNeeded \<le> 0 then 0 else max 1 \<lceil>tokensNeeded / refillRatePerMs / 1000\<rceil>)"

text \<open>\<open>Inr ()\<close> calls \<open>next()\<close>; \<open>Inl s\<close> answers 429 with \<open>Retry-After: s\<close>.\<close>

definition rateLimitMiddleware ::
  "rate_limiter_config \<Rightarrow> buckets \<Rightarrow> auth_context option \<Rightarrow> http_request \<Rightarrow> int \<Rightarrow> (int + unit) \<times> buckets" where
  "rateLimitMiddleware cfg bs auth req currentMs =
     (let requested = (case auth of None \<Rightarrow> FREE | Some a \<Rightarrow> ac_tier a);
          t = (if forceFreeTierOnly cfg then FREE else requested);
          quota = rl_quotas cfg t;
          k = buildBucketKey auth req;
          (b, bs') = getOrCreateBucket bs k quota currentMs (maxBuckets cfg);
          b' = (refillBucket b quota currentMs)\<lparr>lastAccess := currentMs\<rparr> in
      if tokens b' < 1 then (Inl (computeRetryAfter b' quota), jm_set bs' k b')
      else (Inr (), jm_set bs' k (b'\<lparr>tokens := tokens b' - 1\<rparr>)))"

subsection \<open>API keys\<close>

record service_db =
  api_keys :: "api_key_record list"
  tenants :: "tenant_record list"

definition js_trim :: "string \<Rightarrow> string" where
  "js_trim s = rev (dropWhile isBlank (rev (dropWhile isBlank s)))"

text \<open>\<open>/^Bearer\s+(.+)$/i\<close> on the trimmed header; \<open>.\<close> matches no line break.\<close>

definition parseBearerToken :: "string option \<Rightarrow> string option" where
  "parseBearerToken headerValue =
     (case headerValue of
        None \<Rightarrow> None
      | Some h \<Rightarrow>
          (let trimmed = js_trim h; rest = drop 6 trimmed; match = dropWhile isBlank rest; token = js_trim match in
           if map lower_char (take 6 trimmed) = ''bearer'' \<and> rest \<noteq> [] \<and> isBlank (hd rest) \<and> match \<noteq> [] \<and>
              list_all (\<lambda>c. code_unit c \<noteq> 10 \<and> code_unit c \<noteq> 13) match \<and> token \<noteq> []
           then Some token else None))"

definition computeKeyHash :: "(string \<Rightarrow> bytes) \<Rightarrow> string \<Rightarrow> string" where
  "computeKeyHash sha rawKey = toHex (sha rawKey)"

definition buildAnonymousContext :: "string \<Rightarrow> auth_context" where
  "buildAnonymousContext ip = \<lparr>ac_tier = FREE, ac_tenant = None, ac_apiKey = None, clientIp = ip\<rparr>"

text \<open>\<open>FROM api_keys ak JOIN tenants t ON t.id = ak.tenant_id WHERE ak.key_hash = $1 LIMIT 1\<close>\<close>

definition lookupApiKey :: "service_db \<Rightarrow> string \<Rightarrow> (api_key_record \<times> tenant_record) option" where
  "lookupApiKey db h =
     (case [(ak, t). ak \<leftarrow> api_keys db, keyHash ak = h, t \<leftarrow> tenants db, tn_id t = ak_tenantId ak] of
        [] \<Rightarrow> None
      | r # _ \<Rightarrow> Some r)"

definition key_expired :: "api_key_record \<Rightarrow> int \<Rightarrow> bool" where
  "key_expired ak now = (case ak_expiresAt ak of None \<Rightarrow> False | Some e \<Rightarrow> e \<le> now)"

definition touchLastUsed :: "service_db \<Rightarrow> string \<Rightarrow> int \<Rightarrow> service_db" where
  "touchLastUsed db i now = db\<lparr>api_keys := map (\<lambda>ak. if ak_id ak = i then ak\<lparr>lastUsedAt := Some now\<rparr> else ak) (api_keys db)\<rparr>"

text \<open>
  \<open>Inr auth\<close> calls \<open>next()\<close> with \<open>req.auth\<close> set. The update of \<open>last_used_at\<close> is not awaited and may fail
  (\<open>touched\<close>).
\<close>

definition authMiddleware ::
  "(string \<Rightarrow> bytes) \<Rightarrow> service_db \<Rightarrow> http_request \<Rightarrow> int \<Rightarrow> bool \<Rightarrow> (auth_error + auth_context) \<times> service_db" where
  "authMiddleware sha db req now touched =
     (case parseBearerToken (rq_authorization req) of
        None \<Rightarrow> (Inr (buildAnonymousContext (request_ip req)), db)
      | Some bearer \<Rightarrow>
          (case lookupApiKey db (computeKeyHash sha bearer) of
             None \<Rightarrow> (Inl INVALID_API_KEY, db)
           | Some (ak, t) \<Rightarrow>
               if ak_status ak = KEY_REVOKED then (Inl API_KEY_REVOKED, db)
               else if ak_status ak = KEY_EXPIRED \<or> key_expired ak now then (Inl API_KEY_EXPIRED, db)
               else if tn_status t = TENANT_SUSPENDED_STATUS \<or> tn_status t = TENANT_DELETED then (Inl TENANT_SUSPENDED, db)
               else (Inr \<lparr>ac_tier = tn_tier t, ac_tenant = Some t, ac_apiKey = Some ak, clientIp = request_ip req\<rparr>,
                     if touched then touchLastUsed db (ak_id ak) now else db)))"

subsection \<open>Usage\<close>

record usage_record =
  ur_tenantId :: "string option"
  ur_apiKeyId :: "string option"
  ur_endpoint :: endpoint
  isError :: bool
  ur_delta :: "rat option"
  occurredAt :: int

record usage_row =
  us_tenant_id :: "string option"
  us_api_key_id :: "string option"
  us_endpoint :: endpoint
  bucket_day :: string
  request_count :: int
  error_count :: int

definition formatBucketDay :: "int \<Rightarrow> string" where
  "formatBucketDay t = take 10 (toISOString t)"

text \<open>The row an insertion conflicts with: the partial index on anonymous rows, or the unique constraint, for which NULL equals nothing.\<close>

definition conflicts :: "usage_row \<Rightarrow> usage_row \<Rightarrow> bool" where
  "conflicts new row =
     (us_endpoint row = us_endpoint new \<and> bucket_day row = bucket_day new \<and>
      (if us_tenant_id new = None \<and> us_api_key_id new = None then us_tenant_id row = None \<and> us_api_key_id row = None
       else us_tenant_id new \<noteq> None \<and> us_api_key_id new \<noteq> None \<and> us_tenant_id row = us_tenant_id new \<and> us_api_key_id row = us_api_key_id new))"

definition add_counts :: "usage_row \<Rightarrow> usage_row \<Rightarrow> usage_row" where
  "add_counts new row =
     row\<lparr>request_count := request_count row + request_count new, error_count := error_count row + error_count new\<rparr>"

text \<open>\<open>INSERT ... ON CONFLICT ... DO UPDATE\<close>; a tenant without a key is inserted without a conflict clause.\<close>

fun upsert_usage :: "usage_row \<Rightarrow> usage_row list \<Rightarrow> usage_row list" where
  "upsert_usage new [] = [new]"
| "upsert_usage new (r # rs) = (if conflicts new r then add_counts new r # rs else r # upsert_usage new rs)"

definition runIncr :: "usage_row \<Rightarrow> usage_row list \<Rightarrow> usage_row list" where
  "runIncr new rows =
     (if us_tenant_id new \<noteq> None \<and> us_api_key_id new = None then rows @ [new] else upsert_usage new rows)"

text \<open>\<open>recordSync\<close>: \<open>None\<close> is the error about \<open>delta\<close>.\<close>

definition recordSync :: "usage_record \<Rightarrow> usage_row list \<Rightarrow> usage_row list option" where
  "recordSync rec rows =
     (let delta = (case ur_delta rec of None \<Rightarrow> 1 | Some d \<Rightarrow> d) in
      if delta < 1 \<or> of_int \<lfloor>delta\<rfloor> \<noteq> delta then None
      else Some (runIncr
        \<lparr>us_tenant_id = ur_tenantId rec, us_api_key_id = ur_apiKeyId rec, us_endpoint = ur_endpoint rec,
         bucket_day = formatBucketDay (occurredAt rec), request_count = \<lfloor>delta\<rfloor>,
         error_count = (if isError rec then \<lfloor>delta\<rfloor> else 0)\<rparr> rows))"

definition tenantLabel :: "did option \<Rightarrow> string" where
  "tenantLabel d = (case d of None \<Rightarrow> ''anonymous'' | Some s \<Rightarrow> if s = [] then ''anonymous'' else s)"

definition statusLabel :: "int \<Rightarrow> string" where
  "statusLabel n = (if 500 \<le> n then ''5xx'' else if 400 \<le> n then ''4xx'' else if 300 \<le> n then ''3xx'' else if 200 \<le> n then ''2xx'' else ''other'')"

subsection \<open>The servers\<close>

text \<open>
  One server: its buckets, the database and the usage log. \<open>serve\<close> is the chain of a request:
  the limiter before the key check, the handler, and on finish one usage record. The handler is given
  the path parameter and gives the status; \<open>handleResolve\<close> and \<open>handleRevocationCheck\<close> are those of
  the two servers.
\<close>

record server_state =
  sv_buckets :: buckets
  sv_db :: service_db
  usage_log :: "usage_row list"

datatype 'doc lookup_outcome = Found 'doc | NotFound | Failed

definition handleResolve :: "(did \<Rightarrow> 'doc lookup_outcome) \<Rightarrow> string \<Rightarrow> int" where
  "handleResolve resolve param =
     (if param = [] then 400 else (case resolve param of NotFound \<Rightarrow> 404 | Found _ \<Rightarrow> 200 | Failed \<Rightarrow> 502))"

text \<open>Without an injected checker the revocation server answers 503; a checker has no not-found outcome.\<close>

definition handleRevocationCheck :: "(string \<Rightarrow> bool option) option \<Rightarrow> string \<Rightarrow> int" where
  "handleRevocationCheck checker param =
     (case checker of
        None \<Rightarrow> 503
      | Some check \<Rightarrow> if param = [] then 400 else (case check param of Some _ \<Rightarrow> 200 | None \<Rightarrow> 502))"

definition finish_record :: "endpoint \<Rightarrow> auth_context option \<Rightarrow> int \<Rightarrow> int \<Rightarrow> usage_record" where
  "finish_record ep auth status now =
     \<lparr>ur_tenantId = (case auth of None \<Rightarrow> None | Some a \<Rightarrow> map_option tn_id (ac_tenant a)),
      ur_apiKeyId = (case auth of None \<Rightarrow> None | Some a \<Rightarrow> map_option ak_id (ac_apiKey a)),
      ur_endpoint = ep, isError = (400 \<le> status), ur_delta = None, occurredAt = now\<rparr>"

text \<open>The write is not awaited; when it fails (\<open>logged\<close> false) the count is lost.\<close>

definition on_finish :: "bool \<Rightarrow> usage_record \<Rightarrow> server_state \<Rightarrow> server_state" where
  "on_finish logged rec st =
     (if logged then (case recordSync rec (usage_log st) of None \<Rightarrow> st | Some l \<Rightarrow> st\<lparr>usage_log := l\<rparr>) else st)"

text \<open>One request: the clock readings of the limiter, the key check and the finish hook, and whether the two writes that nobody waits for succeed.\<close>

record arrival =
  av_endpoint :: endpoint
  av_request :: http_request
  av_limiter :: int
  av_auth :: int
  av_finish :: int
  av_touched :: bool
  av_logged :: bool

record served =
  sd_status :: int
  sd_retryAfter :: "int option"
  sd_auth :: "auth_context option"

definition serve ::
  "(string \<Rightarrow> bytes) \<Rightarrow> (endpoint \<Rightarrow> string \<Rightarrow> int) \<Rightarrow> server_state \<Rightarrow> arrival \<Rightarrow> served \<times> server_state" where
  "serve sha handler st av =
     (let req = av_request av;
          finish = (\<lambda>auth status. on_finish (av_logged av) (finish_record (av_endpoint av) auth status (av_finish av))) in
      case rateLimitMiddleware default_limiter (sv_buckets st) None req (av_limiter av) of
        (Inl wait, bs) \<Rightarrow>
          (\<lparr>sd_status = 429, sd_retryAfter = Some wait, sd_auth = None\<rparr>, finish None 429 (st\<lparr>sv_buckets := bs\<rparr>))
      | (Inr _, bs) \<Rightarrow>
          (case authMiddleware sha (sv_db st) req (av_auth av) (av_touched av) of
             (Inl e, db) \<Rightarrow>
               (\<lparr>sd_status = 401, sd_retryAfter = None, sd_auth = None\<rparr>, finish None 401 (st\<lparr>sv_buckets := bs, sv_db := db\<rparr>))
           | (Inr auth, db) \<Rightarrow>
               (let status = handler (av_endpoint av) (rq_param req) in
                (\<lparr>sd_status = status, sd_retryAfter = None, sd_auth = Some auth\<rparr>,
                 finish (Some auth) status (st\<lparr>sv_buckets := bs, sv_db := db\<rparr>)))))"

fun serve_all ::
  "(string \<Rightarrow> bytes) \<Rightarrow> (endpoint \<Rightarrow> string \<Rightarrow> int) \<Rightarrow> server_state \<Rightarrow> arrival list \<Rightarrow> served list \<times> server_state" where
  "serve_all sha handler st [] = ([], st)"
| "serve_all sha handler st (av # avs) =
     (let (r, st1) = serve sha handler st av; (rs, st2) = serve_all sha handler st1 avs in (r # rs, st2))"

text \<open>A sequence of calls of the limiter: for each the key and whether it was let through.\<close>

type_synonym limiter_call = "auth_context option \<times> http_request \<times> int"

fun limit_all :: "rate_limiter_config \<Rightarrow> buckets \<Rightarrow> limiter_call list \<Rightarrow> (string \<times> bool) list \<times> buckets" where
  "limit_all cfg bs [] = ([], bs)"
| "limit_all cfg bs ((auth, req, t) # cs) =
     (let (r, bs1) = rateLimitMiddleware cfg bs auth req t; (rs, bs2) = limit_all cfg bs1 cs in
      ((buildBucketKey auth req, r = Inr ()) # rs, bs2))"

definition call_key :: "limiter_call \<Rightarrow> string" where
  "call_key c = buildBucketKey (fst c) (fst (snd c))"

definition call_time :: "limiter_call \<Rightarrow> int" where
  "call_time c = snd (snd c)"

definition let_through :: "string \<Rightarrow> (string \<times> bool) list \<Rightarrow> nat" where
  "let_through k rs = length (filter (\<lambda>r. r = (k, True)) rs)"

subsection \<open>The bucket map\<close>

lemma length_jm_set: "length (jm_set m k v) = length m + (if jm_get m k = None then 1 else 0)"
  by (induction m k v rule: jm_set.induct) (auto simp: jm_get_def)

lemma oldest_member: "oldest best bs = Some k \<Longrightarrow> (\<exists>a. best = Some (k, a)) \<or> k \<in> set (jm_keys bs)"
  by (induction best bs rule: oldest.induct) (auto simp: jm_keys_def split: option.splits if_splits prod.splits)

lemma oldest_some: "best \<noteq> None \<or> bs \<noteq> [] \<Longrightarrow> oldest best bs \<noteq> None"
  by (induction best bs rule: oldest.induct) (auto split: option.splits)

lemma length_jm_delete: "k \<in> set (jm_keys m) \<Longrightarrow> length (jm_delete m k) < length m"
  unfolding jm_delete_def jm_keys_def by (auto intro!: length_filter_less)

lemma length_evictOldest: "bs \<noteq> [] \<Longrightarrow> length (evictOldest bs) < length bs"
  using oldest_some[of None bs] oldest_member[of None bs] by (auto simp: evictOldest_def length_jm_delete split: option.splits)

definition limiter_quota :: "rate_limiter_config \<Rightarrow> rate_limit_quota" where
  "limiter_quota cfg = rl_quotas cfg FREE"

text \<open>What the limiter does to the bucket of its key, and to the map.\<close>

definition spend :: "rate_limit_quota \<Rightarrow> int \<Rightarrow> bucket option \<Rightarrow> bool \<times> bucket" where
  "spend q t mb =
     (let b = (case mb of None \<Rightarrow> \<lparr>tokens = quota_max q, lastRefill = t, lastAccess = t\<rparr> | Some b \<Rightarrow> b);
          b' = (refillBucket b q t)\<lparr>lastAccess := t\<rparr> in
      if tokens b' < 1 then (False, b') else (True, b'\<lparr>tokens := tokens b' - 1\<rparr>))"

definition room :: "rate_limiter_config \<Rightarrow> buckets \<Rightarrow> string \<Rightarrow> buckets" where
  "room cfg bs k = (if jm_get bs k = None \<and> maxBuckets cfg \<le> length bs then evictOldest bs else bs)"

lemma jm_set_set: "jm_set (jm_set m k v) k w = jm_set m k w"
  by (induction m k v rule: jm_set.induct) auto

lemma jm_get_evict: "jm_get bs k = None \<Longrightarrow> jm_get (evictOldest bs) k = None"
  by (auto simp: evictOldest_def jm_get_delete split: option.splits)

lemma limiter_spend:
  assumes "forceFreeTierOnly cfg" "rateLimitMiddleware cfg bs auth req t = (r, bs')"
  shows "(r = Inr ()) = fst (spend (limiter_quota cfg) t (jm_get bs (buildBucketKey auth req)))"
    "bs' = jm_set (room cfg bs (buildBucketKey auth req)) (buildBucketKey auth req)
       (snd (spend (limiter_quota cfg) t (jm_get bs (buildBucketKey auth req))))"
  using assms
  by (auto simp: rateLimitMiddleware_def getOrCreateBucket_def spend_def room_def limiter_quota_def Let_def jm_set_set
      split: option.splits if_splits prod.splits)

lemma buckets_bounded:
  assumes "length bs \<le> max 1 (maxBuckets cfg)" "forceFreeTierOnly cfg" "rateLimitMiddleware cfg bs auth req t = (r, bs')"
  shows "length bs' \<le> max 1 (maxBuckets cfg)"
proof -
  let ?k = "buildBucketKey auth req"
  have e: "bs \<noteq> [] \<Longrightarrow> length (evictOldest bs) < length bs" by (rule length_evictOldest)
  have n: "jm_get bs ?k = None \<Longrightarrow> jm_get (evictOldest bs) ?k = None" by (rule jm_get_evict)
  show ?thesis
    unfolding limiter_spend(2)[OF assms(2,3)] using assms(1) e n
    by (cases "bs = []") (auto simp: length_jm_set room_def evictOldest_def)
qed

subsection \<open>How much a key can get\<close>

definition rate :: "rate_limit_quota \<Rightarrow> rat" where
  "rate q = quota_max q / windowMs q"

definition quota_ok :: "rate_limit_quota \<Rightarrow> bool" where
  "quota_ok q = (0 < windowMs q \<and> 0 \<le> quota_max q)"

definition bucket_ok :: "rate_limit_quota \<Rightarrow> bucket \<Rightarrow> bool" where
  "bucket_ok q b = (0 \<le> tokens b \<and> tokens b \<le> quota_max q)"

text \<open>What a bucket can still give in the interval from \<open>a\<close> to \<open>b\<close>.\<close>

definition potential :: "rate_limit_quota \<Rightarrow> int \<Rightarrow> int \<Rightarrow> bucket option \<Rightarrow> rat" where
  "potential q a b mb =
     (case mb of
        None \<Rightarrow> quota_max q + rate q * of_int (b - a)
      | Some bk \<Rightarrow>
          if lastRefill bk < a then quota_max q + rate q * of_int (b - a)
          else tokens bk + rate q * of_int (max 0 (b - lastRefill bk)))"

lemma rate_nonneg: "quota_ok q \<Longrightarrow> 0 \<le> rate q"
  by (simp add: quota_ok_def rate_def)

lemma refill_tokens:
  "refillBucket bk q t =
     (if t \<le> lastRefill bk then bk
      else bk\<lparr>tokens := min (quota_max q) (tokens bk + rate q * of_int (t - lastRefill bk)), lastRefill := t\<rparr>)"
  by (simp add: refillBucket_def rate_def Let_def mult.commute)

lemma refill_ok: "quota_ok q \<Longrightarrow> bucket_ok q bk \<Longrightarrow> bucket_ok q (refillBucket bk q t)"
  using rate_nonneg[of q] by (auto simp: refill_tokens bucket_ok_def quota_ok_def)

lemma spend_ok: "quota_ok q \<Longrightarrow> (\<And>bk. mb = Some bk \<Longrightarrow> bucket_ok q bk) \<Longrightarrow> bucket_ok q (snd (spend q t mb))"
  using refill_ok[of q "case mb of None \<Rightarrow> \<lparr>tokens = quota_max q, lastRefill = t, lastAccess = t\<rparr> | Some b \<Rightarrow> b" t]
  by (cases mb) (auto simp: spend_def Let_def bucket_ok_def quota_ok_def)

lemma potential_refill:
  assumes q: "quota_ok q" and ok: "bucket_ok q bk" and t: "a \<le> t" "t \<le> b"
  shows "potential q a b (Some (refillBucket bk q t)) \<le> potential q a b (Some bk)"
proof (cases "t \<le> lastRefill bk")
  case True
  then show ?thesis by (simp add: refill_tokens)
next
  case False
  let ?r = "rate q"
  have r: "0 \<le> ?r" using q by (rule rate_nonneg)
  have b: "tokens (refillBucket bk q t) \<le> quota_max q" "tokens (refillBucket bk q t) \<le> tokens bk + ?r * of_int (t - lastRefill bk)"
      "lastRefill (refillBucket bk q t) = t"
    using False by (simp_all add: refill_tokens)
  have left: "potential q a b (Some (refillBucket bk q t)) = tokens (refillBucket bk q t) + ?r * of_int (b - t)"
    using b(3) t by (simp add: potential_def)
  show ?thesis
  proof (cases "lastRefill bk < a")
    case True
    have "?r * of_int (b - t) \<le> ?r * of_int (b - a)" using r t by (intro mult_left_mono) auto
    then show ?thesis using left b(1) True by (simp add: potential_def)
  next
    case late: False
    have "?r * of_int (t - lastRefill bk) + ?r * of_int (b - t) = ?r * of_int (b - lastRefill bk)"
      by (simp add: algebra_simps)
    moreover have "max 0 (b - lastRefill bk) = b - lastRefill bk" using False t by simp
    ultimately show ?thesis using left b(2) late by (simp add: potential_def)
  qed
qed

lemma spend_potential:
  assumes q: "quota_ok q" and ok: "\<And>bk. mb = Some bk \<Longrightarrow> bucket_ok q bk" and t: "a \<le> t" "t \<le> b"
  shows "(if fst (spend q t mb) then 1 else 0) + potential q a b (Some (snd (spend q t mb))) \<le> potential q a b mb"
proof -
  define bk where "bk = (case mb of None \<Rightarrow> \<lparr>tokens = quota_max q, lastRefill = t, lastAccess = t\<rparr> | Some b \<Rightarrow> b)"
  have bk: "bucket_ok q bk" using ok q by (auto simp: bk_def bucket_ok_def quota_ok_def split: option.splits)
  have "potential q a b (Some bk) \<le> potential q a b mb"
  proof (cases mb)
    case None
    have "rate q * of_int (b - t) \<le> rate q * of_int (b - a)" using rate_nonneg[OF q] t by (intro mult_left_mono) auto
    then show ?thesis using None t by (simp add: bk_def potential_def)
  qed (simp add: bk_def)
  with potential_refill[OF q bk t] have p: "potential q a b (Some (refillBucket bk q t)) \<le> potential q a b mb" by linarith
  let ?n = "refillBucket bk q t"
  have acc: "potential q a b (Some (?n\<lparr>lastAccess := t\<rparr>)) = potential q a b (Some ?n)" by (simp add: potential_def)
  have sp: "spend q t mb = (if tokens ?n < 1 then (False, ?n\<lparr>lastAccess := t\<rparr>) else (True, ?n\<lparr>lastAccess := t, tokens := tokens ?n - 1\<rparr>))"
    by (simp add: spend_def bk_def[symmetric] Let_def)
  show ?thesis
  proof (cases "tokens ?n < 1")
    case True
    then show ?thesis using sp acc p by simp
  next
    case False
    have last: "a \<le> lastRefill ?n" using t by (auto simp: refill_tokens)
    then have "potential q a b (Some (?n\<lparr>lastAccess := t, tokens := tokens ?n - 1\<rparr>)) = potential q a b (Some ?n) - 1"
      by (simp add: potential_def)
    then show ?thesis using False sp p by simp
  qed
qed

lemma potential_bounds:
  assumes q: "quota_ok q" and ok: "\<And>bk. mb = Some bk \<Longrightarrow> bucket_ok q bk" and "a \<le> b"
  shows "0 \<le> potential q a b mb" "potential q a b mb \<le> quota_max q + rate q * of_int (b - a)"
proof -
  have r: "0 \<le> rate q" using q by (rule rate_nonneg)
  have m: "0 \<le> rate q * of_int (b - a)" "0 \<le> quota_max q" using r assms(3) q by (simp_all add: quota_ok_def)
  show "0 \<le> potential q a b mb"
    using m r ok by (cases mb) (auto simp: potential_def bucket_ok_def)
  show "potential q a b mb \<le> quota_max q + rate q * of_int (b - a)"
  proof (cases mb)
    case (Some bk)
    have "rate q * of_int (max 0 (b - lastRefill bk)) \<le> rate q * of_int (b - a)" if "\<not> lastRefill bk < a"
      using r that assms(3) by (intro mult_left_mono) auto
    then show ?thesis using Some ok by (fastforce simp: potential_def bucket_ok_def)
  qed (simp add: potential_def)
qed

text \<open>While the keys in use fit into the map, no bucket is evicted.\<close>

definition fits :: "rate_limiter_config \<Rightarrow> buckets \<Rightarrow> string set \<Rightarrow> bool" where
  "fits cfg bs ks = (jm_wf bs \<and> finite ks \<and> set (jm_keys bs) \<subseteq> ks \<and> card ks \<le> maxBuckets cfg)"

lemma fits_room: "fits cfg bs ks \<Longrightarrow> k \<in> ks \<Longrightarrow> room cfg bs k = bs"
proof (rule ccontr)
  assume f: "fits cfg bs ks" "k \<in> ks" and "room cfg bs k \<noteq> bs"
  then have n: "k \<notin> set (jm_keys bs)" and full: "maxBuckets cfg \<le> length bs"
    using jm.in_keys[of k bs] by (auto simp: room_def split: if_splits)
  have "card (set (jm_keys bs)) < card ks" using f n by (intro psubset_card_mono) (auto simp: fits_def)
  moreover have "card (set (jm_keys bs)) = length (jm_keys bs)" using f by (simp add: fits_def jm_wf_def distinct_card)
  moreover have "length (jm_keys bs) = length bs" by (simp add: jm_keys_def)
  ultimately show False using f full by (simp add: fits_def)
qed

lemma fits_set: "fits cfg bs ks \<Longrightarrow> k \<in> ks \<Longrightarrow> fits cfg (jm_set bs k v) ks"
  by (auto simp: fits_def jm.wf_put jm_keys_set)

definition buckets_ok :: "rate_limit_quota \<Rightarrow> buckets \<Rightarrow> bool" where
  "buckets_ok q bs = (\<forall>k bk. jm_get bs k = Some bk \<longrightarrow> bucket_ok q bk)"

lemma limit_all_potential:
  assumes "forceFreeTierOnly cfg" "quota_ok (limiter_quota cfg)" "buckets_ok (limiter_quota cfg) bs"
    and "fits cfg bs ks" "call_key ` set cs \<subseteq> ks" "\<forall>c \<in> set cs. a \<le> call_time c \<and> call_time c \<le> b" "a \<le> b"
  shows "of_nat (let_through k (fst (limit_all cfg bs cs))) \<le> potential (limiter_quota cfg) a b (jm_get bs k)"
  using assms
proof (induction cs arbitrary: bs)
  case Nil
  then show ?case using potential_bounds(1)[of "limiter_quota cfg" "jm_get bs k" a b] by (auto simp: let_through_def buckets_ok_def)
next
  case (Cons c cs)
  obtain auth req t where c: "c = (auth, req, t)" by (cases c)
  let ?q = "limiter_quota cfg" and ?j = "buildBucketKey auth req"
  obtain r bs1 where m: "rateLimitMiddleware cfg bs auth req t = (r, bs1)" by fastforce
  note sp = limiter_spend[OF Cons.prems(1) m]
  have j: "?j \<in> ks" and t: "a \<le> t" "t \<le> b" using Cons.prems c by (auto simp: call_key_def call_time_def)
  have bs1: "bs1 = jm_set bs ?j (snd (spend ?q t (jm_get bs ?j)))" using sp(2) fits_room[OF Cons.prems(4) j] by simp
  have okj: "jm_get bs ?j = Some bk \<Longrightarrow> bucket_ok ?q bk" for bk using Cons.prems(3) by (simp add: buckets_ok_def)
  have ok1: "buckets_ok ?q bs1"
    using Cons.prems(3) spend_ok[OF Cons.prems(2) okj] unfolding bs1 buckets_ok_def jm_get_set by (auto split: if_splits)
  have "of_nat (let_through k (fst (limit_all cfg bs1 cs))) \<le> potential ?q a b (jm_get bs1 k)"
    using Cons.IH[OF Cons.prems(1,2) ok1] fits_set[OF Cons.prems(4) j] bs1 Cons.prems by simp
  moreover have "let_through k (fst (limit_all cfg bs (c # cs))) =
      (if ?j = k \<and> r = Inr () then 1 else 0) + let_through k (fst (limit_all cfg bs1 cs))"
    using m c by (simp add: let_through_def Let_def split_def)
  moreover have "(if ?j = k \<and> r = Inr () then 1 else 0) + potential ?q a b (jm_get bs1 k) \<le> potential ?q a b (jm_get bs k)"
    using spend_potential[where mb = "jm_get bs ?j", OF Cons.prems(2) okj t] sp(1) by (auto simp: bs1 jm_get_set)
  ultimately show ?case by (auto split: if_splits)
qed

lemma limiter_keeps:
  assumes "forceFreeTierOnly cfg" "quota_ok (limiter_quota cfg)" "buckets_ok (limiter_quota cfg) bs"
    and "fits cfg bs ks" "buildBucketKey auth req \<in> ks" "rateLimitMiddleware cfg bs auth req t = (r, bs')"
  shows "buckets_ok (limiter_quota cfg) bs' \<and> fits cfg bs' ks"
proof -
  let ?q = "limiter_quota cfg" and ?j = "buildBucketKey auth req"
  have bs': "bs' = jm_set bs ?j (snd (spend ?q t (jm_get bs ?j)))"
    using limiter_spend(2)[OF assms(1,6)] fits_room[OF assms(4,5)] by simp
  have "bucket_ok ?q (snd (spend ?q t (jm_get bs ?j)))"
    using assms(3) by (intro spend_ok[OF assms(2)]) (simp add: buckets_ok_def)
  then show ?thesis
    using assms(3) fits_set[OF assms(4,5)] unfolding bs' buckets_ok_def jm_get_set by (auto split: if_splits)
qed

lemma limit_all_keeps:
  assumes "forceFreeTierOnly cfg" "quota_ok (limiter_quota cfg)" "buckets_ok (limiter_quota cfg) bs"
    and "fits cfg bs ks" "call_key ` set cs \<subseteq> ks"
  shows "buckets_ok (limiter_quota cfg) (snd (limit_all cfg bs cs)) \<and> fits cfg (snd (limit_all cfg bs cs)) ks"
  using assms
proof (induction cs arbitrary: bs)
  case (Cons c cs)
  obtain auth req t where c: "c = (auth, req, t)" by (cases c)
  obtain r bs1 where m: "rateLimitMiddleware cfg bs auth req t = (r, bs1)" by fastforce
  have "buckets_ok (limiter_quota cfg) bs1 \<and> fits cfg bs1 ks"
    using limiter_keeps[OF Cons.prems(1-4) _ m] Cons.prems(5) c by (simp add: call_key_def)
  then show ?case using Cons.IH[of bs1] Cons.prems m c by (simp add: split_def Let_def)
qed simp

subsection \<open>Usage sums\<close>

definition usage_key :: "usage_row \<Rightarrow> string option \<times> string option \<times> endpoint \<times> string" where
  "usage_key r = (us_tenant_id r, us_api_key_id r, us_endpoint r, bucket_day r)"

definition requests_of :: "string option \<times> string option \<times> endpoint \<times> string \<Rightarrow> usage_row list \<Rightarrow> int" where
  "requests_of \<kappa> rows = sum_list (map request_count (filter (\<lambda>r. usage_key r = \<kappa>) rows))"

definition errors_of :: "string option \<times> string option \<times> endpoint \<times> string \<Rightarrow> usage_row list \<Rightarrow> int" where
  "errors_of \<kappa> rows = sum_list (map error_count (filter (\<lambda>r. usage_key r = \<kappa>) rows))"

lemma conflicts_key: "conflicts new r \<Longrightarrow> usage_key r = usage_key new"
  by (auto simp: conflicts_def usage_key_def split: if_splits)

lemma add_counts_simps [simp]: "usage_key (add_counts new r) = usage_key r"
  "request_count (add_counts new r) = request_count r + request_count new"
  "error_count (add_counts new r) = error_count r + error_count new"
  by (simp_all add: usage_key_def add_counts_def)

lemma sums_Cons [simp]: "requests_of \<kappa> [] = 0" "errors_of \<kappa> [] = 0"
  "requests_of \<kappa> (r # rows) = (if usage_key r = \<kappa> then request_count r else 0) + requests_of \<kappa> rows"
  "errors_of \<kappa> (r # rows) = (if usage_key r = \<kappa> then error_count r else 0) + errors_of \<kappa> rows"
  by (simp_all add: requests_of_def errors_of_def)

lemma upsert_sums:
  "requests_of \<kappa> (upsert_usage new rows) = requests_of \<kappa> rows + (if usage_key new = \<kappa> then request_count new else 0)"
  "errors_of \<kappa> (upsert_usage new rows) = errors_of \<kappa> rows + (if usage_key new = \<kappa> then error_count new else 0)"
proof (induction rows)
  case (Cons r rows)
  {
    case 1
    then show ?case using Cons.IH(1) conflicts_key[of new r] by (cases "conflicts new r") auto
  next
    case 2
    then show ?case using Cons.IH(2) conflicts_key[of new r] by (cases "conflicts new r") auto
  }
qed simp_all

lemma runIncr_sums:
  "requests_of \<kappa> (runIncr new rows) = requests_of \<kappa> rows + (if usage_key new = \<kappa> then request_count new else 0)"
  "errors_of \<kappa> (runIncr new rows) = errors_of \<kappa> rows + (if usage_key new = \<kappa> then error_count new else 0)"
  using upsert_sums by (auto simp: runIncr_def) (simp_all add: requests_of_def errors_of_def)

definition billed_to :: "arrival \<Rightarrow> served \<Rightarrow> string option \<times> string option \<times> endpoint \<times> string" where
  "billed_to av r =
     ((case sd_auth r of None \<Rightarrow> None | Some a \<Rightarrow> map_option tn_id (ac_tenant a)),
      (case sd_auth r of None \<Rightarrow> None | Some a \<Rightarrow> map_option ak_id (ac_apiKey a)),
      av_endpoint av, formatBucketDay (av_finish av))"

lemma on_finish_log:
  "usage_log (on_finish logged (finish_record ep auth status now) st) =
     (if logged then runIncr
        \<lparr>us_tenant_id = (case auth of None \<Rightarrow> None | Some a \<Rightarrow> map_option tn_id (ac_tenant a)),
         us_api_key_id = (case auth of None \<Rightarrow> None | Some a \<Rightarrow> map_option ak_id (ac_apiKey a)), us_endpoint = ep,
         bucket_day = formatBucketDay now, request_count = 1, error_count = (if 400 \<le> status then 1 else 0)\<rparr> (usage_log st)
      else usage_log st)"
  by (simp add: on_finish_def recordSync_def finish_record_def)

lemma serve_cases:
  assumes "serve sha handler st av = (r, st')"
  obtains (limited) bs wait where "rateLimitMiddleware default_limiter (sv_buckets st) None (av_request av) (av_limiter av) = (Inl wait, bs)"
      "r = \<lparr>sd_status = 429, sd_retryAfter = Some wait, sd_auth = None\<rparr>"
      "usage_log st' = usage_log (on_finish (av_logged av) (finish_record (av_endpoint av) (sd_auth r) (sd_status r) (av_finish av)) st)"
  | (refused) bs e db where "rateLimitMiddleware default_limiter (sv_buckets st) None (av_request av) (av_limiter av) = (Inr (), bs)"
      "authMiddleware sha (sv_db st) (av_request av) (av_auth av) (av_touched av) = (Inl e, db)"
      "r = \<lparr>sd_status = 401, sd_retryAfter = None, sd_auth = None\<rparr>"
      "usage_log st' = usage_log (on_finish (av_logged av) (finish_record (av_endpoint av) (sd_auth r) (sd_status r) (av_finish av)) st)"
  | (handled) bs a db where "rateLimitMiddleware default_limiter (sv_buckets st) None (av_request av) (av_limiter av) = (Inr (), bs)"
      "authMiddleware sha (sv_db st) (av_request av) (av_auth av) (av_touched av) = (Inr a, db)"
      "r = \<lparr>sd_status = handler (av_endpoint av) (rq_param (av_request av)), sd_retryAfter = None, sd_auth = Some a\<rparr>"
      "usage_log st' = usage_log (on_finish (av_logged av) (finish_record (av_endpoint av) (sd_auth r) (sd_status r) (av_finish av)) st)"
proof (cases "rateLimitMiddleware default_limiter (sv_buckets st) None (av_request av) (av_limiter av)")
  case (Pair q bs)
  obtain p db where p: "authMiddleware sha (sv_db st) (av_request av) (av_auth av) (av_touched av) = (p, db)" by fastforce
  show ?thesis
    using assms Pair p that by (cases q; cases p) (auto simp: serve_def Let_def on_finish_log)
qed

lemma serve_sums:
  assumes "serve sha handler st av = (r, st')"
  shows "requests_of \<kappa> (usage_log st') = requests_of \<kappa> (usage_log st) + (if av_logged av \<and> billed_to av r = \<kappa> then 1 else 0)"
    "errors_of \<kappa> (usage_log st') = errors_of \<kappa> (usage_log st) + (if av_logged av \<and> 400 \<le> sd_status r \<and> billed_to av r = \<kappa> then 1 else 0)"
proof -
  have l: "usage_log st' = usage_log (on_finish (av_logged av) (finish_record (av_endpoint av) (sd_auth r) (sd_status r) (av_finish av)) st)"
    using assms by (rule serve_cases)
  show "requests_of \<kappa> (usage_log st') = requests_of \<kappa> (usage_log st) + (if av_logged av \<and> billed_to av r = \<kappa> then 1 else 0)"
    unfolding l on_finish_log by (simp add: runIncr_sums billed_to_def usage_key_def)
  show "errors_of \<kappa> (usage_log st') = errors_of \<kappa> (usage_log st) + (if av_logged av \<and> 400 \<le> sd_status r \<and> billed_to av r = \<kappa> then 1 else 0)"
    unfolding l on_finish_log by (simp add: runIncr_sums billed_to_def usage_key_def)
qed

definition bill :: "string option \<times> string option \<times> endpoint \<times> string \<Rightarrow> arrival list \<Rightarrow> served list \<Rightarrow> nat \<times> nat" where
  "bill \<kappa> avs rs =
     (length (filter (\<lambda>(av, r). billed_to av r = \<kappa>) (zip avs rs)),
      length (filter (\<lambda>(av, r). billed_to av r = \<kappa> \<and> 400 \<le> sd_status r) (zip avs rs)))"

lemma serve_all_sums:
  assumes "serve_all sha handler st avs = (rs, st')" "\<forall>av \<in> set avs. av_logged av"
  shows "requests_of \<kappa> (usage_log st') = requests_of \<kappa> (usage_log st) + int (fst (bill \<kappa> avs rs)) \<and>
    errors_of \<kappa> (usage_log st') = errors_of \<kappa> (usage_log st) + int (snd (bill \<kappa> avs rs))"
  using assms
proof (induction avs arbitrary: st rs)
  case Nil
  then show ?case by (simp add: bill_def)
next
  case (Cons av avs)
  obtain r st1 where s: "serve sha handler st av = (r, st1)" by fastforce
  obtain qs st2 where q: "serve_all sha handler st1 avs = (qs, st2)" by fastforce
  have rs: "rs = r # qs" "st2 = st'" using Cons.prems(1) s q by simp_all
  show ?case
    using Cons.IH[of st1 qs] q rs serve_sums[OF s, of \<kappa>] Cons.prems(2) by (simp add: bill_def)
qed

lemma lookupApiKey_Some:
  assumes "lookupApiKey db h = Some (ak, t)"
  shows "ak \<in> set (api_keys db) \<and> t \<in> set (tenants db) \<and> tn_id t = ak_tenantId ak \<and> keyHash ak = h"
proof -
  define xs where "xs = [(ak, t). ak \<leftarrow> api_keys db, keyHash ak = h, t \<leftarrow> tenants db, tn_id t = ak_tenantId ak]"
  have "(ak, t) \<in> set xs"
    using assms unfolding lookupApiKey_def xs_def[symmetric] by (auto split: list.splits)
  then show ?thesis by (auto simp: xs_def split: if_splits)
qed

lemma authMiddleware_Inr:
  assumes "authMiddleware sha db req now touched = (Inr a, db')"
  shows "case parseBearerToken (rq_authorization req) of
       None \<Rightarrow> a = buildAnonymousContext (request_ip req)
     | Some bearer \<Rightarrow> \<exists>ak t. ak \<in> set (api_keys db) \<and> t \<in> set (tenants db) \<and> tn_id t = ak_tenantId ak \<and>
         keyHash ak = computeKeyHash sha bearer \<and> ak_status ak = KEY_ACTIVE \<and> (\<forall>e. ak_expiresAt ak = Some e \<longrightarrow> now < e) \<and>
         tn_status t = TENANT_ACTIVE \<and> ac_apiKey a = Some ak \<and> ac_tenant a = Some t"
proof (cases "parseBearerToken (rq_authorization req)")
  case None
  then show ?thesis using assms by (simp add: authMiddleware_def)
next
  case (Some bearer)
  obtain ak t where l: "lookupApiKey db (computeKeyHash sha bearer) = Some (ak, t)"
    using assms Some by (auto simp: authMiddleware_def split: option.splits)
  have "ak_status ak = KEY_ACTIVE" "tn_status t = TENANT_ACTIVE" "\<not> key_expired ak now" "ac_apiKey a = Some ak" "ac_tenant a = Some t"
    using assms Some l by (cases "ak_status ak"; cases "tn_status t"; auto simp: authMiddleware_def split: if_splits)+
  then show ?thesis using Some lookupApiKey_Some[OF l] by (auto simp: key_expired_def)
qed

subsection \<open>Properties\<close>

text \<open>
  C34 (bounds). Whatever came before, in an interval of length L a key gets through at most the
  quota plus the refill of L, provided all keys seen fit into the bucket map, so that none is evicted.
  The clock may jump back and forth inside the interval.
\<close>

theorem quota_never_exceeded:
  assumes "forceFreeTierOnly cfg" "quota_ok (limiter_quota cfg)" "card (call_key ` set (pre @ cs)) \<le> maxBuckets cfg"
    and "\<forall>c \<in> set cs. a \<le> call_time c \<and> call_time c \<le> b" "a \<le> b"
  shows "of_nat (let_through k (fst (limit_all cfg (snd (limit_all cfg [] pre)) cs)))
      \<le> quota_max (limiter_quota cfg) + rate (limiter_quota cfg) * of_int (b - a)"
proof -
  let ?ks = "call_key ` set (pre @ cs)" and ?bs = "snd (limit_all cfg [] pre)"
  have "buckets_ok (limiter_quota cfg) []" "fits cfg [] ?ks"
    using assms(3) by (simp_all add: buckets_ok_def jm_get_def fits_def jm.wf_empty jm_keys_def)
  then have k: "buckets_ok (limiter_quota cfg) ?bs \<and> fits cfg ?bs ?ks"
    using limit_all_keeps[OF assms(1,2)] by auto
  then have "of_nat (let_through k (fst (limit_all cfg ?bs cs))) \<le> potential (limiter_quota cfg) a b (jm_get ?bs k)"
    using limit_all_potential[OF assms(1,2) _ _ _ assms(4,5)] by auto
  also have "\<dots> \<le> quota_max (limiter_quota cfg) + rate (limiter_quota cfg) * of_int (b - a)"
    using k by (intro potential_bounds(2)[OF assms(2) _ assms(5)]) (simp add: buckets_ok_def)
  finally show ?thesis .
qed

theorem quota_never_exceeded_witness:
  "of_nat (let_through ''pre-auth:unknown'' (fst (limit_all default_limiter (snd (limit_all default_limiter [] []))
     [(None, \<lparr>rq_ip = None, rq_remoteAddress = None, rq_authorization = None, rq_param = ''x''\<rparr>, 5)])))
     \<le> quota_max (limiter_quota default_limiter) + rate (limiter_quota default_limiter) * of_int (60000 - 0)"
  by (rule quota_never_exceeded)
    (simp_all add: default_limiter_def quota_ok_def limiter_quota_def DEFAULT_QUOTAS_def DEFAULT_MAX_BUCKETS_def call_time_def)

text \<open>
  Remark (liveness). A client that is refused and waits as long as \<open>Retry-After\<close> says is let through, when
  nobody else uses its key meanwhile and the clock has not run backwards before.
\<close>

theorem retry_after_suffices:
  assumes force: "forceFreeTierOnly cfg" and q: "0 < windowMs (limiter_quota cfg)" "1 \<le> quota_max (limiter_quota cfg)"
    and m: "rateLimitMiddleware cfg bs auth req t = (Inl wait, bs')"
    and past: "\<And>bk. jm_get bs (buildBucketKey auth req) = Some bk \<Longrightarrow> lastRefill bk \<le> t"
    and same: "buildBucketKey auth' req' = buildBucketKey auth req" and later: "t + 1000 * wait \<le> t'"
  shows "fst (rateLimitMiddleware cfg bs' auth' req' t') = Inr ()"
proof -
  let ?q = "limiter_quota cfg" and ?k = "buildBucketKey auth req"
  define b where "b = snd (spend ?q t (jm_get bs ?k))"
  have low: "\<not> fst (spend ?q t (jm_get bs ?k))" using limiter_spend(1)[OF force m] by simp
  have bs': "jm_get bs' ?k = Some b" using limiter_spend(2)[OF force m] by (simp add: b_def jm_get_set)
  have tok: "tokens b < 1" and last: "lastRefill b \<le> t"
    using low past by (auto simp: b_def spend_def Let_def refill_tokens split: if_splits option.splits)
  have wait: "wait = computeRetryAfter b ?q"
    using m low by (auto simp: rateLimitMiddleware_def getOrCreateBucket_def b_def spend_def limiter_quota_def force Let_def
        split: if_splits option.splits prod.splits)
  have r: "0 < rate ?q" and pos: "1 \<le> wait" using q tok by (simp_all add: rate_def wait computeRetryAfter_def Let_def)
  have "(1 - tokens b) / rate ?q / 1000 \<le> of_int wait"
    using tok by (simp add: wait computeRetryAfter_def Let_def rate_def of_int_max le_max_iff_disj)
  then have "(1 - tokens b) / rate ?q \<le> of_int (1000 * wait)" by simp
  also have "of_int (1000 * wait) \<le> (of_int (t' - lastRefill b) :: rat)" using later last by (simp only: of_int_le_iff)
  finally have "1 \<le> tokens b + rate ?q * of_int (t' - lastRefill b)" using r by (simp add: pos_divide_le_eq mult.commute)
  then have "1 \<le> tokens (refillBucket b ?q t')" using q(2) pos last later by (auto simp: refill_tokens)
  then have "fst (spend ?q t' (Some b))" by (simp add: spend_def Let_def)
  then show ?thesis
    using limiter_spend(1)[OF force, of bs' auth' req' t'] bs' same by (cases "rateLimitMiddleware cfg bs' auth' req' t'") auto
qed

definition anyone :: http_request where
  "anyone = \<lparr>rq_ip = None, rq_remoteAddress = None, rq_authorization = None, rq_param = ''x''\<rparr>"

lemma empty_bucket_refuses:
  "rateLimitMiddleware default_limiter [(''pre-auth:unknown'', \<lparr>tokens = 0, lastRefill = 0, lastAccess = 0\<rparr>)] None anyone 0
     = (Inl 1, [(''pre-auth:unknown'', \<lparr>tokens = 0, lastRefill = 0, lastAccess = 0\<rparr>)])"
  by code_simp

theorem retry_after_suffices_witness:
  "fst (rateLimitMiddleware default_limiter [(''pre-auth:unknown'', \<lparr>tokens = 0, lastRefill = 0, lastAccess = 0\<rparr>)] None anyone 1000) = Inr ()"
  by (rule retry_after_suffices[OF _ _ _ empty_bucket_refuses])
    (auto simp: default_limiter_def limiter_quota_def DEFAULT_QUOTAS_def anyone_def buildBucketKey_def request_ip_def jm_get_def)

text \<open>
  C35 (functional). When the usage writes succeed, the log says exactly what was served: for every
  tenant, key, endpoint and day the counted requests and errors are those of the replies billed to it,
  the refused requests, which are billed to nobody, included.
\<close>

theorem usage_counts_exact:
  assumes "serve_all sha handler st avs = (rs, st')" "\<forall>av \<in> set avs. av_logged av"
  shows "requests_of \<kappa> (usage_log st') = requests_of \<kappa> (usage_log st) + int (length (filter (\<lambda>(av, r). billed_to av r = \<kappa>) (zip avs rs))) \<and>
    errors_of \<kappa> (usage_log st') =
      errors_of \<kappa> (usage_log st) + int (length (filter (\<lambda>(av, r). billed_to av r = \<kappa> \<and> 400 \<le> sd_status r) (zip avs rs)))"
  using serve_all_sums[OF assms] by (simp add: bill_def)

definition bad_key_arrival :: arrival where
  "bad_key_arrival =
     \<lparr>av_endpoint = resolver, av_request = anyone\<lparr>rq_authorization := Some ''Bearer zz''\<rparr>, av_limiter = 0, av_auth = 0, av_finish = 0,
      av_touched = True, av_logged = True\<rparr>"

definition idle_server :: server_state where
  "idle_server = \<lparr>sv_buckets = [], sv_db = \<lparr>api_keys = [], tenants = []\<rparr>, usage_log = []\<rparr>"

lemma bad_key_served:
  "map sd_status (fst (serve_all (\<lambda>_. []) (\<lambda>_ _. 200) idle_server [bad_key_arrival])) = [401]"
  "map sd_auth (fst (serve_all (\<lambda>_. []) (\<lambda>_ _. 200) idle_server [bad_key_arrival])) = [None]"
  by code_simp+

theorem usage_counts_exact_witness:
  "errors_of (None, None, resolver, formatBucketDay 0) (usage_log (snd (serve_all (\<lambda>_. []) (\<lambda>_ _. 200) idle_server [bad_key_arrival]))) = 1"
proof -
  obtain r where r: "fst (serve_all (\<lambda>_. []) (\<lambda>_ _. 200) idle_server [bad_key_arrival]) = [r]" "sd_status r = 401" "sd_auth r = None"
    using bad_key_served by (cases "fst (serve_all (\<lambda>_. []) (\<lambda>_ _. 200) idle_server [bad_key_arrival])") auto
  then have "serve_all (\<lambda>_. []) (\<lambda>_ _. 200) idle_server [bad_key_arrival]
      = ([r], snd (serve_all (\<lambda>_. []) (\<lambda>_ _. 200) idle_server [bad_key_arrival]))"
    by (metis prod.collapse)
  from usage_counts_exact[OF this, of "(None, None, resolver, formatBucketDay 0)"] show ?thesis
    using r by (simp add: bad_key_arrival_def billed_to_def idle_server_def)
qed

text \<open>
  Remark (safety). A request reaches the handler only when the limiter has let it through and either it has
  no bearer token and is served anonymously, or the hash of its token is that of an active key
  that has not expired and belongs to an active tenant. A key that is not accepted is never served as
  anonymous: it is answered 401.
\<close>

theorem handler_needs_valid_key:
  assumes "serve sha handler st av = (r, st')" "sd_auth r = Some a"
  shows "fst (rateLimitMiddleware default_limiter (sv_buckets st) None (av_request av) (av_limiter av)) = Inr () \<and>
    (case parseBearerToken (rq_authorization (av_request av)) of
       None \<Rightarrow> a = buildAnonymousContext (request_ip (av_request av))
     | Some bearer \<Rightarrow> \<exists>ak t. ak \<in> set (api_keys (sv_db st)) \<and> t \<in> set (tenants (sv_db st)) \<and> tn_id t = ak_tenantId ak \<and>
         keyHash ak = computeKeyHash sha bearer \<and> ak_status ak = KEY_ACTIVE \<and> (\<forall>e. ak_expiresAt ak = Some e \<longrightarrow> av_auth av < e) \<and>
         tn_status t = TENANT_ACTIVE \<and> ac_apiKey a = Some ak \<and> ac_tenant a = Some t)"
  using assms(1)
proof (cases rule: serve_cases)
  case (handled bs a' db)
  then have a: "a' = a" using assms(2) by simp
  show ?thesis using authMiddleware_Inr[OF handled(2)[unfolded a]] handled(1) by simp
qed (use assms(2) in simp_all)

definition paying_server :: server_state where
  "paying_server =
     \<lparr>sv_buckets = [],
      sv_db = \<lparr>api_keys = [\<lparr>ak_id = ''k'', ak_tenantId = ''t'', keyHash = [], keyPrefix = ''ap_live_'', ak_description = None,
                            ak_expiresAt = Some 9, lastUsedAt = None, ak_status = KEY_ACTIVE\<rparr>],
               tenants = [\<lparr>tn_id = ''t'', tenantDid = ''did:key:t'', tn_tier = PRO, displayName = ''T'', contactEmail = None,
                           tn_status = TENANT_ACTIVE\<rparr>]\<rparr>,
      usage_log = []\<rparr>"

lemma paying_served: "map_option ac_tier (sd_auth (fst (serve (\<lambda>_. []) (\<lambda>_ _. 200) paying_server bad_key_arrival))) = Some PRO"
  by code_simp

theorem handler_needs_valid_key_witness:
  "\<exists>ak t. ak \<in> set (api_keys (sv_db paying_server)) \<and> t \<in> set (tenants (sv_db paying_server)) \<and> ak_status ak = KEY_ACTIVE \<and> tn_status t = TENANT_ACTIVE"
proof -
  obtain a where a: "sd_auth (fst (serve (\<lambda>_. []) (\<lambda>_ _. 200) paying_server bad_key_arrival)) = Some a"
    using paying_served by (cases "sd_auth (fst (serve (\<lambda>_. []) (\<lambda>_ _. 200) paying_server bad_key_arrival))") auto
  have b: "parseBearerToken (rq_authorization (av_request bad_key_arrival)) = Some ''zz''"
    by code_simp
  obtain r st' where s: "serve (\<lambda>_. []) (\<lambda>_ _. 200) paying_server bad_key_arrival = (r, st')" by fastforce
  show ?thesis using handler_needs_valid_key[OF s] a b s by auto
qed

end
