(* ===== verification/Federated_Resolver.thy ===== *)
theory Federated_Resolver
  imports Capability_Token Hash_Chain
begin

text \<open>
  \<open>identity/src/binding.ts\<close> and \<open>identity/src/federated-resolver.ts\<close>: the binding of an agent to its
  principal, and the resolver that asks several nodes for an identity document, checks each answer,
  takes a vote, refuses older versions and keeps a cache and the health of the nodes.

  What a node answers, in which order the answers arrive and what the clock says meanwhile are
  arguments of a resolution. The environment holds the third-party code: Ed25519, SHA-256, canonical
  text, URL parsing, the verifier of rotation chains (\<open>None\<close> is an exception), the DNS guard and the
  watermark store. Counters, latencies and availability figures are left out; alerts are kept. The
  version of a document is any number a node may send; HTTP and DNS themselves are outside.
\<close>

subsection \<open>Binding proofs\<close>

record binding_proof =
  bd_principalDid :: did
  bd_agentDid :: did
  bd_issuedAt :: timestamp
  bd_expiresAt :: "timestamp option"
  bd_signature :: string

type_synonym binding_text = "did \<Rightarrow> timestamp \<Rightarrow> did \<Rightarrow> string"

definition bindingPayload :: "binding_text \<Rightarrow> binding_proof \<Rightarrow> string" where
  "bindingPayload canon p = canon (bd_agentDid p) (bd_issuedAt p) (bd_principalDid p)"

record create_binding_params =
  cb_principalDid :: did
  cb_agentDid :: did
  cb_privateKey :: string
  cb_issuedAt :: "timestamp option"
  cb_expiresAt :: "timestamp option"

datatype binding_error = InvalidPrincipalDid | InvalidAgentDid | BindingCrypto crypto_error

definition createBinding :: "platform \<Rightarrow> binding_text \<Rightarrow> create_binding_params \<Rightarrow> timestamp \<Rightarrow> binding_error + binding_proof" where
  "createBinding pf canon prm now =
     (if \<not> isDidKey (cb_principalDid prm) then Inl InvalidPrincipalDid
      else if \<not> isDidAgent (cb_agentDid prm) then Inl InvalidAgentDid
      else
        (let p = \<lparr>bd_principalDid = cb_principalDid prm, bd_agentDid = cb_agentDid prm,
                  bd_issuedAt = (case cb_issuedAt prm of None \<Rightarrow> now | Some t \<Rightarrow> t), bd_expiresAt = cb_expiresAt prm, bd_signature = []\<rparr> in
         case sign pf (bindingPayload canon p) (cb_privateKey prm) IDENTITY_ENCODING of
           Inl e \<Rightarrow> Inl (BindingCrypto e)
         | Inr s \<Rightarrow> Inr (p\<lparr>bd_signature := s\<rparr>)))"

text \<open>The \<open>catch\<close> turns every exception into \<open>false\<close>.\<close>

definition verifyBinding :: "platform \<Rightarrow> binding_text \<Rightarrow> binding_proof \<Rightarrow> timestamp \<Rightarrow> bool" where
  "verifyBinding pf canon p now =
     (if \<not> isDidKey (bd_principalDid p) \<or> \<not> isDidAgent (bd_agentDid p) then False
      else if (case bd_expiresAt p of None \<Rightarrow> False | Some e \<Rightarrow> isTimestampExpired e now) then False
      else case extractPublicKeyFromDIDKey (bd_principalDid p) of
             Inl _ \<Rightarrow> False
           | Inr k \<Rightarrow> verify pf (bindingPayload canon p) (bd_signature p) k = Inr True)"

subsection \<open>Documents, nodes and configuration\<close>

record fed_document =
  fd_id :: did
  fd_principalDid :: did
  fd_publicKey :: string
  fd_bindingProof :: "binding_proof option"
  fd_version :: "rat option"
  fd_hasRotationProof :: bool
  fd_carried :: js_object

record fed_node =
  fn_id :: string
  fn_url :: string
  fn_weight :: "rat option"

datatype health_state = HEALTHY | DEGRADED | UNHEALTHY

record health_check_config =
  probeIntervalMs :: rat
  failureThreshold :: rat
  recoveryThreshold :: rat

record fed_config =
  fc_nodes :: "fed_node list"
  minResponses :: rat
  timeoutMs :: int
  settleWindowMs :: "int option"
  cacheTtlMs :: int
  maxResponseBytes :: int
  healthCheck :: "health_check_config option"

record 'w fed_env =
  fe_pf :: platform
  fe_sha :: "bytes \<Rightarrow> bytes"
  fe_bindingText :: binding_text
  fe_contentHash :: "fed_document \<Rightarrow> string"
  fe_parseUrl :: "string \<Rightarrow> (string \<times> int option) option"
  fe_encode :: "did \<Rightarrow> string"
  fe_guard :: "string \<Rightarrow> bool"
  fe_verifyDIDBinding :: "fed_document \<Rightarrow> bool option"
  wm_get :: "'w \<Rightarrow> did \<Rightarrow> rat option"
  wm_set :: "'w \<Rightarrow> did \<Rightarrow> rat \<Rightarrow> 'w"

definition is_integer :: "rat \<Rightarrow> bool" where
  "is_integer r = (of_int \<lfloor>r\<rfloor> = r)"

text \<open>The rules of \<open>validateConfig\<close> on data; that the injected functions are there is a matter of types here.\<close>

definition validateConfig :: "fed_config \<Rightarrow> bool" where
  "validateConfig cfg =
     (fc_nodes cfg \<noteq> [] \<and> 1 \<le> minResponses cfg \<and> minResponses cfg \<le> of_nat (length (fc_nodes cfg)) \<and>
      (length (fc_nodes cfg) = 2 \<longrightarrow> minResponses cfg = 2) \<and>
      (case healthCheck cfg of
         None \<Rightarrow> True
       | Some hc \<Rightarrow> is_integer (probeIntervalMs hc) \<and> 1 \<le> probeIntervalMs hc \<and> is_integer (failureThreshold hc) \<and>
           1 \<le> failureThreshold hc \<and> is_integer (recoveryThreshold hc) \<and> 1 \<le> recoveryThreshold hc))"

definition DEFAULT_MAX_RESPONSE_BYTES :: int where
  "DEFAULT_MAX_RESPONSE_BYTES = 64 * 1024"

definition BLOCKED_PORTS :: "int list" where
  "BLOCKED_PORTS = [21, 22, 23, 25, 110, 143, 3306, 5432, 6379, 27017]"

definition HEALTH_RATE_WINDOW :: nat where
  "HEALTH_RATE_WINDOW = 20"

definition PASSIVE_HEALTH_CFG :: health_check_config where
  "PASSIVE_HEALTH_CFG = \<lparr>probeIntervalMs = 0, failureThreshold = 3, recoveryThreshold = 2\<rparr>"

subsection \<open>Private addresses\<close>

definition ipv4_literal :: "string \<Rightarrow> bool" where
  "ipv4_literal s =
     (let parts = js_split (CHR ''.'') s in
      length parts = 4 \<and> list_all (\<lambda>p. 1 \<le> length p \<and> length p \<le> 3 \<and> list_all is_digit p) parts)"

definition strip_brackets :: "string \<Rightarrow> string" where
  "strip_brackets s =
     (let a = (case s of [] \<Rightarrow> [] | c # cs \<Rightarrow> if c = CHR ''['' then cs else s) in
      if a \<noteq> [] \<and> last a = CHR '']'' then butlast a else a)"

definition isPrivateIP :: "string \<Rightarrow> bool" where
  "isPrivateIP ip =
     (let n = map lower_char (takeWhile (\<lambda>c. c \<noteq> CHR ''%'') (strip_brackets ip)) in
      if ipv4_literal n then
        starts_with ''127.'' n \<or> n = ''0.0.0.0'' \<or> starts_with ''10.'' n \<or>
        list_ex (\<lambda>p. starts_with p n)
          [''172.16.'', ''172.17.'', ''172.18.'', ''172.19.'', ''172.20.'', ''172.21.'', ''172.22.'', ''172.23.'', ''172.24.'',
           ''172.25.'', ''172.26.'', ''172.27.'', ''172.28.'', ''172.29.'', ''172.30.'', ''172.31.''] \<or>
        starts_with ''192.168.'' n \<or> starts_with ''169.254.'' n
      else
        n = ''::1'' \<or> n = ''0000:0000:0000:0000:0000:0000:0000:0001'' \<or> n = ''::'' \<or>
        n = ''0000:0000:0000:0000:0000:0000:0000:0000'' \<or> starts_with ''fc'' n \<or> starts_with ''fd'' n \<or>
        (starts_with ''fe'' n \<and> 3 < length n \<and> n ! 2 \<in> set ''89ab'' \<and> n ! 3 \<in> set ''0123456789abcdef''))"

text \<open>\<open>createDefaultDnsRebindingGuard\<close>; \<open>v4\<close> and \<open>v6\<close> are what DNS answers, empty when a lookup fails.\<close>

definition resolveAndValidate :: "(string \<Rightarrow> string list) \<Rightarrow> (string \<Rightarrow> string list) \<Rightarrow> string \<Rightarrow> string option" where
  "resolveAndValidate v4 v6 hostname =
     (let bare = strip_brackets hostname in
      if ipv4_literal bare \<or> CHR '':'' \<in> set bare then (if isPrivateIP bare then None else Some bare)
      else
        (let addrs = v4 bare @ v6 bare in
         if addrs = [] then None
         else if list_ex isPrivateIP addrs then None
         else Some (hd addrs)))"

subsection \<open>Alerts and node health\<close>

datatype signature_reason = binding_proof_invalid | malformed_document | rotation_proof_malformed

datatype abuse_reason = response_too_large | malformed_json | invalid_schema | url_policy_violation | redirect_blocked

datatype fed_alert =
  FEDERATION_SIGNATURE_INVALID string signature_reason
| FEDERATION_VERSION_CONFLICT "rat option"
| FEDERATION_QUORUM_UNMET nat nat rat
| FEDERATION_VERSION_ROLLBACK rat rat
| FEDERATION_NODE_ABUSE string abuse_reason
| FEDERATION_NODE_HEALTH_CHANGED string health_state health_state
| FEDERATION_EPOCH_MISMATCH nat nat
| FEDERATION_DNS_REBINDING_BLOCKED string

record node_state =
  ns_node :: fed_node
  health :: health_state
  consecutiveFailures :: nat
  consecutiveSuccesses :: nat
  recentResults :: "bool list"

definition fresh_node :: "fed_node \<Rightarrow> node_state" where
  "fresh_node n = \<lparr>ns_node = n, health = HEALTHY, consecutiveFailures = 0, consecutiveSuccesses = 0, recentResults = []\<rparr>"

definition changeHealth :: "node_state \<Rightarrow> health_state \<Rightarrow> node_state \<times> fed_alert list" where
  "changeHealth st h = (st\<lparr>health := h\<rparr>, [FEDERATION_NODE_HEALTH_CHANGED (fn_id (ns_node st)) (health st) h])"

definition push_result :: "bool \<Rightarrow> node_state \<Rightarrow> node_state" where
  "push_result b st =
     (let rs = recentResults st @ [b] in st\<lparr>recentResults := (if HEALTH_RATE_WINDOW < length rs then tl rs else rs)\<rparr>)"

definition failure_rate :: "node_state \<Rightarrow> rat" where
  "failure_rate st = of_nat (length (filter (\<lambda>r. \<not> r) (recentResults st))) / of_nat (length (recentResults st))"

definition after_success :: "health_check_config \<Rightarrow> node_state \<Rightarrow> node_state \<times> fed_alert list" where
  "after_success hc st =
     (if health st = UNHEALTHY then
        (if recoveryThreshold hc \<le> of_nat (consecutiveSuccesses st) then changeHealth st HEALTHY else (st, []))
      else if health st = DEGRADED \<and> HEALTH_RATE_WINDOW \<le> length (recentResults st) \<and> failure_rate st < 1 / 10
      then changeHealth st HEALTHY
      else (st, []))"

definition drivePassiveHealth :: "health_check_config \<Rightarrow> node_state \<Rightarrow> bool \<Rightarrow> node_state \<times> fed_alert list" where
  "drivePassiveHealth hc st0 success =
     (let st = push_result success st0 in
      if success then
        after_success hc (st\<lparr>consecutiveFailures := 0, consecutiveSuccesses := consecutiveSuccesses st + 1\<rparr>)
      else
        (let st = st\<lparr>consecutiveSuccesses := 0, consecutiveFailures := consecutiveFailures st + 1\<rparr> in
         if failureThreshold hc \<le> of_nat (consecutiveFailures st) then
           (if health st \<noteq> UNHEALTHY then changeHealth st UNHEALTHY else (st, []))
         else if health st = HEALTHY then
           (if HEALTH_RATE_WINDOW \<le> length (recentResults st)
            then (if 2 / 10 \<le> failure_rate st then changeHealth st DEGRADED else (st, []))
            else changeHealth st DEGRADED)
         else (st, [])))"

definition recordNodeSuccess :: "health_check_config \<Rightarrow> node_state \<Rightarrow> node_state \<times> fed_alert list" where
  "recordNodeSuccess hc st0 =
     after_success hc ((push_result True st0)\<lparr>consecutiveFailures := 0, consecutiveSuccesses := consecutiveSuccesses st0 + 1\<rparr>)"

definition recordNodeFailure :: "health_check_config \<Rightarrow> node_state \<Rightarrow> node_state \<times> fed_alert list" where
  "recordNodeFailure hc st0 =
     (let st = (push_result False st0)\<lparr>consecutiveSuccesses := 0, consecutiveFailures := consecutiveFailures st0 + 1\<rparr> in
      if failureThreshold hc \<le> of_nat (consecutiveFailures st) then
        (if health st \<noteq> UNHEALTHY then changeHealth st UNHEALTHY else (st, []))
      else if health st = HEALTHY then changeHealth st DEGRADED
      else (st, []))"

subsection \<open>Asking one node\<close>

datatype body = MalformedJson | NotADocument | DocumentBody fed_document

record http_response =
  rs_status :: int
  rs_contentLength :: "int option"
  rs_body :: body

datatype fetch_outcome = Aborted | RedirectBlocked | FetchFailed | Response http_response

datatype query_result = QDoc fed_document | QNotFound | QError

definition queryNode :: "'w fed_env \<Rightarrow> fed_config \<Rightarrow> did \<Rightarrow> fetch_outcome \<Rightarrow> node_state \<Rightarrow> query_result \<times> node_state \<times> fed_alert list" where
  "queryNode env cfg did answer st =
     (let hc = (case healthCheck cfg of None \<Rightarrow> PASSIVE_HEALTH_CFG | Some hc \<Rightarrow> hc);
          i = fn_id (ns_node st);
          finish = (\<lambda>r ok as. case drivePassiveHealth hc st ok of (st', as') \<Rightarrow> (r, st', as @ as'));
          abuse = (\<lambda>r. finish QError False [FEDERATION_NODE_ABUSE i r]) in
      case fe_parseUrl env (fn_url (ns_node st) @ ''/api/v1/identities/'' @ fe_encode env did) of
        None \<Rightarrow> abuse url_policy_violation
      | Some (host, port) \<Rightarrow>
          if ipv4_literal host \<or> CHR '':'' \<in> set host then abuse url_policy_violation
          else if (case port of None \<Rightarrow> False | Some p \<Rightarrow> p \<in> set BLOCKED_PORTS) then abuse url_policy_violation
          else if \<not> fe_guard env host then finish QError False [FEDERATION_DNS_REBINDING_BLOCKED i]
          else
            (case answer of
               Aborted \<Rightarrow> finish QError False []
             | RedirectBlocked \<Rightarrow> abuse redirect_blocked
             | FetchFailed \<Rightarrow> finish QError False []
             | Response res \<Rightarrow>
                 if rs_status res = 404 then finish QNotFound True []
                 else if \<not> (200 \<le> rs_status res \<and> rs_status res < 300) then finish QError False []
                 else if (case rs_contentLength res of None \<Rightarrow> False | Some n \<Rightarrow> maxResponseBytes cfg < n) then abuse response_too_large
                 else
                   (case rs_body res of
                      MalformedJson \<Rightarrow> abuse malformed_json
                    | NotADocument \<Rightarrow> abuse invalid_schema
                    | DocumentBody d \<Rightarrow> if fd_id d \<noteq> did then abuse invalid_schema else finish (QDoc d) True [])))"

subsection \<open>Checking one document\<close>

datatype doc_verdict = DocOk | DocBad signature_reason | VerifierThrew

definition verifyDocumentSignature :: "'w fed_env \<Rightarrow> fed_document \<Rightarrow> timestamp \<Rightarrow> doc_verdict" where
  "verifyDocumentSignature env doc now =
     (case fd_bindingProof doc of
        None \<Rightarrow> DocBad binding_proof_invalid
      | Some p \<Rightarrow>
          if bd_agentDid p \<noteq> fd_id doc then DocBad binding_proof_invalid
          else if bd_principalDid p \<noteq> fd_principalDid doc then DocBad binding_proof_invalid
          else if \<not> verifyBinding (fe_pf env) (fe_bindingText env) p now then DocBad binding_proof_invalid
          else
            (let later = (case fd_version doc of None \<Rightarrow> False | Some v \<Rightarrow> 1 < v);
                 first = (case fd_version doc of None \<Rightarrow> True | Some v \<Rightarrow> v = 0 \<or> v = 1) in
             if later \<and> \<not> fd_hasRotationProof doc then DocBad rotation_proof_malformed
             else if first \<and> createAgentDID (fe_sha env) (fd_publicKey doc) \<noteq> Inr (fd_id doc) then
               (case createAgentDID (fe_sha env) (fd_publicKey doc) of Inl _ \<Rightarrow> DocBad malformed_document | Inr _ \<Rightarrow> DocBad binding_proof_invalid)
             else if later then
               (case fe_verifyDIDBinding env doc of None \<Rightarrow> VerifierThrew | Some ok \<Rightarrow> if ok then DocOk else DocBad rotation_proof_malformed)
             else DocOk))"

subsection \<open>The vote\<close>

record resolution_candidate =
  cd_nodeId :: string
  cd_document :: fed_document

definition doc_ver :: "fed_document \<Rightarrow> rat" where
  "doc_ver d = (case fd_version d of None \<Rightarrow> 1 | Some v \<Rightarrow> v)"

definition cd_version :: "resolution_candidate \<Rightarrow> rat" where
  "cd_version c = doc_ver (cd_document c)"

definition group_by_version :: "resolution_candidate list \<Rightarrow> (rat, resolution_candidate list) js_map" where
  "group_by_version cs =
     foldl (\<lambda>m c. jm_set m (cd_version c) ((case jm_get m (cd_version c) of None \<Rightarrow> [] | Some g \<Rightarrow> g) @ [c])) [] cs"

definition computeQuorumThreshold :: "nat \<Rightarrow> nat" where
  "computeQuorumThreshold n = n div 2 + 1"

definition content_agrees :: "'w fed_env \<Rightarrow> resolution_candidate list \<Rightarrow> bool" where
  "content_agrees env cs = (length (remdups (map (\<lambda>c. fe_contentHash env (cd_document c)) cs)) \<le> 1)"

definition selectHighestVersionFallback :: "'w fed_env \<Rightarrow> resolution_candidate list \<Rightarrow> fed_document option \<times> fed_alert list" where
  "selectHighestVersionFallback env cs =
     (let byVersion = group_by_version cs; maxVersion = Max (set (jm_keys byVersion));
          winners = (case jm_get byVersion maxVersion of None \<Rightarrow> [] | Some g \<Rightarrow> g) in
      if \<not> content_agrees env winners then (None, [FEDERATION_VERSION_CONFLICT None])
      else ((case winners of [] \<Rightarrow> None | c # _ \<Rightarrow> Some (cd_document c)),
            if 1 < length byVersion then [FEDERATION_VERSION_CONFLICT (Some maxVersion)] else []))"

definition selectByQuorum :: "'w fed_env \<Rightarrow> resolution_candidate list \<Rightarrow> nat \<Rightarrow> fed_document option \<times> fed_alert list" where
  "selectByQuorum env cs totalNodes =
     (if totalNodes < 3 then
        (case selectHighestVersionFallback env cs of (r, as) \<Rightarrow>
          (r, FEDERATION_QUORUM_UNMET (length cs) (length cs) (of_nat (computeQuorumThreshold totalNodes)) # as))
      else
        (let threshold = computeQuorumThreshold (length cs); byVersion = group_by_version cs;
             qualified = map fst (filter (\<lambda>(v, g). threshold \<le> length g) byVersion) in
         if qualified = [] then (None, [FEDERATION_QUORUM_UNMET (length cs) (length cs) (of_nat threshold)])
         else
           (let chosen = Max (set qualified);
                winners = (case jm_get byVersion chosen of None \<Rightarrow> [] | Some g \<Rightarrow> g);
                minority = (if list_ex (\<lambda>(v, g). v \<noteq> chosen \<and> g \<noteq> []) byVersion then [FEDERATION_VERSION_CONFLICT (Some chosen)] else []) in
            if \<not> content_agrees env winners then (None, minority @ [FEDERATION_VERSION_CONFLICT None])
            else ((case winners of [] \<Rightarrow> None | c # _ \<Rightarrow> Some (cd_document c)), minority))))"

subsection \<open>Collecting the answers\<close>

text \<open>
  One turn of the loop of \<open>fanOut\<close>: the node whose answer comes next, the clock at the top of the turn,
  whether the answer comes before the timer, and the readings of the clock for the check of the
  binding proof and for the settle window.
\<close>

record arrival_event =
  ae_node :: string
  ae_top :: int
  ae_beatsTimer :: bool
  ae_verifyAt :: timestamp
  ae_after :: int

record fan_state =
  fs_valid :: "resolution_candidate list"
  fs_responded :: nat
  fs_all404 :: bool
  fs_settled :: bool
  fs_deadline :: rat
  fs_alerts :: "fed_alert list"

definition accept_candidate :: "fed_config \<Rightarrow> rat \<Rightarrow> rat \<Rightarrow> resolution_candidate \<Rightarrow> int \<Rightarrow> fan_state \<Rightarrow> fan_state" where
  "accept_candidate cfg window globalDeadline c now fs =
     (let valid = fs_valid fs @ [c] in
      if minResponses cfg \<le> of_nat (length valid) \<and> \<not> fs_settled fs
      then fs\<lparr>fs_valid := valid, fs_settled := True, fs_deadline := min (of_int now + window) globalDeadline\<rparr>
      else fs\<lparr>fs_valid := valid\<rparr>)"

text \<open>\<open>None\<close>: the rotation verifier has thrown, and the resolution with it.\<close>

fun fan_loop ::
  "'w fed_env \<Rightarrow> fed_config \<Rightarrow> (string \<Rightarrow> query_result) \<Rightarrow> rat \<Rightarrow> rat \<Rightarrow> arrival_event list \<Rightarrow> fan_state \<Rightarrow> fan_state option" where
  "fan_loop env cfg answers window globalDeadline [] fs = Some fs"
| "fan_loop env cfg answers window globalDeadline (a # as) fs =
     (if fs_deadline fs \<le> of_int (ae_top a) \<or> \<not> ae_beatsTimer a then Some fs
      else
        (case answers (ae_node a) of
           QNotFound \<Rightarrow> fan_loop env cfg answers window globalDeadline as (fs\<lparr>fs_responded := fs_responded fs + 1\<rparr>)
         | QError \<Rightarrow> fan_loop env cfg answers window globalDeadline as (fs\<lparr>fs_all404 := False\<rparr>)
         | QDoc d \<Rightarrow>
             (let fs1 = fs\<lparr>fs_all404 := False, fs_responded := fs_responded fs + 1\<rparr> in
              case verifyDocumentSignature env d (ae_verifyAt a) of
                VerifierThrew \<Rightarrow> None
              | DocBad r \<Rightarrow>
                  fan_loop env cfg answers window globalDeadline as
                    (fs1\<lparr>fs_alerts := fs_alerts fs1 @ [FEDERATION_SIGNATURE_INVALID (ae_node a) r]\<rparr>)
              | DocOk \<Rightarrow>
                  fan_loop env cfg answers window globalDeadline as
                    (accept_candidate cfg window globalDeadline \<lparr>cd_nodeId = ae_node a, cd_document = d\<rparr> (ae_after a) fs1))))"

subsection \<open>The resolver\<close>

record fed_cache_entry =
  ce_document :: fed_document
  ce_cachedAt :: int
  ce_expires :: int

record 'w fed_state =
  nodeStates :: "(string, node_state) js_map"
  fcache :: "(did, fed_cache_entry) js_map"
  cacheEpoch :: "(did, nat) js_map"
  watermarks :: 'w
  alerts :: "fed_alert list"

definition new_resolver :: "fed_config \<Rightarrow> 'w \<Rightarrow> 'w fed_state" where
  "new_resolver cfg w =
     \<lparr>nodeStates = foldl (\<lambda>m n. jm_set m (fn_id n) (fresh_node n)) [] (fc_nodes cfg), fcache = [], cacheEpoch = [],
      watermarks = w, alerts = []\<rparr>"

definition getCached :: "did \<Rightarrow> int \<Rightarrow> 'w fed_state \<Rightarrow> fed_document option \<times> 'w fed_state" where
  "getCached d now st =
     (case jm_get (fcache st) d of
        None \<Rightarrow> (None, st)
      | Some e \<Rightarrow> if ce_expires e < now then (None, st\<lparr>fcache := jm_delete (fcache st) d\<rparr>) else (Some (ce_document e), st))"

definition setCached :: "fed_config \<Rightarrow> did \<Rightarrow> fed_document \<Rightarrow> int \<Rightarrow> 'w fed_state \<Rightarrow> 'w fed_state" where
  "setCached cfg d doc now st =
     st\<lparr>fcache := jm_set (fcache st) d \<lparr>ce_document = doc, ce_cachedAt = now, ce_expires = now + cacheTtlMs cfg\<rparr>\<rparr>"

definition epoch_of :: "did \<Rightarrow> 'w fed_state \<Rightarrow> nat" where
  "epoch_of d st = (case jm_get (cacheEpoch st) d of None \<Rightarrow> 0 | Some e \<Rightarrow> e)"

definition invalidateCache :: "did \<Rightarrow> 'w fed_state \<Rightarrow> 'w fed_state" where
  "invalidateCache d st = st\<lparr>fcache := jm_delete (fcache st) d, cacheEpoch := jm_set (cacheEpoch st) d (epoch_of d st + 1)\<rparr>"

definition emit :: "fed_alert list \<Rightarrow> 'w fed_state \<Rightarrow> 'w fed_state" where
  "emit as st = st\<lparr>alerts := alerts st @ as\<rparr>"

definition is_target :: "node_state \<Rightarrow> bool" where
  "is_target s = (health s \<noteq> UNHEALTHY \<and> 0 < (case fn_weight (ns_node s) of None \<Rightarrow> 1 | Some w \<Rightarrow> w))"

definition targets :: "'w fed_state \<Rightarrow> node_state list" where
  "targets st = filter is_target (map snd (nodeStates st))"

text \<open>What happens around one resolution: what each node answers, the turns of the loop, calls of \<open>invalidateCache\<close> meanwhile, and the clock.\<close>

record resolution =
  rz_answers :: "string \<Rightarrow> fetch_outcome"
  rz_arrivals :: "arrival_event list"
  rz_invalidations :: nat
  rz_start :: int
  rz_inner :: int
  rz_fan :: int
  rz_check :: int
  rz_store :: int

definition query_targets :: "'w fed_env \<Rightarrow> fed_config \<Rightarrow> did \<Rightarrow> (string \<Rightarrow> fetch_outcome) \<Rightarrow> 'w fed_state \<Rightarrow> 'w fed_state" where
  "query_targets env cfg d answers st =
     emit (concat (map (\<lambda>s. snd (snd (queryNode env cfg d (answers (fn_id (ns_node s))) s))) (targets st)))
       (st\<lparr>nodeStates := jm_map_values (\<lambda>k s. if is_target s then fst (snd (queryNode env cfg d (answers (fn_id (ns_node s))) s)) else s)
             (nodeStates st)\<rparr>)"

definition node_answer :: "'w fed_env \<Rightarrow> fed_config \<Rightarrow> did \<Rightarrow> (string \<Rightarrow> fetch_outcome) \<Rightarrow> 'w fed_state \<Rightarrow> string \<Rightarrow> query_result" where
  "node_answer env cfg d answers st i =
     (case jm_get (nodeStates st) i of None \<Rightarrow> QError | Some s \<Rightarrow> fst (queryNode env cfg d (answers (fn_id (ns_node s))) s))"

text \<open>The turns of the loop are over targets, each at most once.\<close>

fun fair_arrivals :: "string list \<Rightarrow> arrival_event list \<Rightarrow> arrival_event list" where
  "fair_arrivals waiting [] = []"
| "fair_arrivals waiting (a # as) =
     (if ae_node a \<in> set waiting then a # fair_arrivals (removeAll (ae_node a) waiting) as else fair_arrivals waiting as)"

definition settle_window :: "fed_config \<Rightarrow> rat" where
  "settle_window cfg = (case settleWindowMs cfg of Some w \<Rightarrow> of_int w | None \<Rightarrow> min (of_int (timeoutMs cfg) / 4) 1000)"

text \<open>After the vote: the rollback check, the epoch check, cache and watermark.\<close>

definition adopt ::
  "'w fed_env \<Rightarrow> fed_config \<Rightarrow> did \<Rightarrow> resolution \<Rightarrow> nat \<Rightarrow> fed_document \<Rightarrow> 'w fed_state \<Rightarrow> fed_document option \<times> 'w fed_state" where
  "adopt env cfg d rz startEpoch chosen st =
     (case getCached d (rz_check rz) st of (cachedDoc, st1) \<Rightarrow>
      let cacheVersion = (case cachedDoc of None \<Rightarrow> 0 | Some c \<Rightarrow> (case fd_version c of None \<Rightarrow> 0 | Some v \<Rightarrow> v));
          persistVersion = (case wm_get env (watermarks st1) d of None \<Rightarrow> 0 | Some v \<Rightarrow> v);
          watermark = max cacheVersion persistVersion in
      if doc_ver chosen < watermark then (None, emit [FEDERATION_VERSION_ROLLBACK (doc_ver chosen) watermark] st1)
      else if epoch_of d st1 \<noteq> startEpoch then (None, emit [FEDERATION_EPOCH_MISMATCH startEpoch (epoch_of d st1)] st1)
      else
        (let st2 = setCached cfg d chosen (rz_store rz) st1 in
         (Some chosen, st2\<lparr>watermarks := wm_set env (watermarks st2) d (doc_ver chosen)\<rparr>)))"

definition fanOut ::
  "'w fed_env \<Rightarrow> fed_config \<Rightarrow> did \<Rightarrow> resolution \<Rightarrow> nat \<Rightarrow> 'w fed_state \<Rightarrow> fed_document option option \<times> 'w fed_state" where
  "fanOut env cfg d rz startEpoch st =
     (let ids = map (\<lambda>s. fn_id (ns_node s)) (targets st); total = length ids;
          deadline = of_int (rz_fan rz + timeoutMs cfg);
          answers = node_answer env cfg d (rz_answers rz) st;
          st1 = (invalidateCache d ^^ rz_invalidations rz) (query_targets env cfg d (rz_answers rz) st) in
      case fan_loop env cfg answers (settle_window cfg) deadline (fair_arrivals ids (rz_arrivals rz))
             \<lparr>fs_valid = [], fs_responded = 0, fs_all404 = True, fs_settled = False, fs_deadline = deadline, fs_alerts = []\<rparr> of
        None \<Rightarrow> (None, st1)
      | Some fs \<Rightarrow>
          (let st2 = emit (fs_alerts fs) st1 in
           if fs_valid fs = [] \<and> fs_all404 fs \<and> minResponses cfg \<le> of_nat (fs_responded fs) then (Some None, st2)
           else if of_nat (length (fs_valid fs)) < minResponses cfg
           then (Some None, emit [FEDERATION_QUORUM_UNMET (fs_responded fs) (length (fs_valid fs)) (minResponses cfg)] st2)
           else
             (case selectByQuorum env (fs_valid fs) total of
                (None, as) \<Rightarrow> (Some None, emit as st2)
              | (Some chosen, as) \<Rightarrow> (case adopt env cfg d rz startEpoch chosen (emit as st2) of (r, st3) \<Rightarrow> (Some r, st3)))))"

definition resolveInternal ::
  "'w fed_env \<Rightarrow> fed_config \<Rightarrow> did \<Rightarrow> resolution \<Rightarrow> 'w fed_state \<Rightarrow> fed_document option option \<times> 'w fed_state" where
  "resolveInternal env cfg d rz st =
     (case getCached d (rz_inner rz) st of
        (Some doc, st1) \<Rightarrow> (Some (Some doc), st1)
      | (None, st1) \<Rightarrow>
          if of_nat (length (targets st1)) < minResponses cfg
          then (Some None, emit [FEDERATION_QUORUM_UNMET 0 0 (minResponses cfg)] st1)
          else fanOut env cfg d rz (epoch_of d st1) st1)"

text \<open>\<open>None\<close> is an exception. Callers that join a resolution in flight get its answer.\<close>

definition resolve ::
  "'w fed_env \<Rightarrow> fed_config \<Rightarrow> did \<Rightarrow> resolution \<Rightarrow> 'w fed_state \<Rightarrow> fed_document option option \<times> 'w fed_state" where
  "resolve env cfg d rz st =
     (case getCached d (rz_start rz) st of
        (Some doc, st1) \<Rightarrow> (Some (Some doc), st1)
      | (None, st1) \<Rightarrow> resolveInternal env cfg d rz st1)"

fun resolve_all ::
  "'w fed_env \<Rightarrow> fed_config \<Rightarrow> (did \<times> resolution) list \<Rightarrow> 'w fed_state \<Rightarrow> (did \<times> fed_document option) list \<times> 'w fed_state" where
  "resolve_all env cfg [] st = ([], st)"
| "resolve_all env cfg ((d, rz) # cs) st =
     (case resolve env cfg d rz st of (r, st1) \<Rightarrow>
      case resolve_all env cfg cs st1 of (rs, st2) \<Rightarrow> ((d, case r of None \<Rightarrow> None | Some x \<Rightarrow> x) # rs, st2))"

text \<open>The prober, when one is configured: nodes of weight 0 are skipped.\<close>

definition probe_round :: "health_check_config \<Rightarrow> (string \<Rightarrow> bool) \<Rightarrow> 'w fed_state \<Rightarrow> 'w fed_state" where
  "probe_round hc ok st =
     (let probe = (\<lambda>s. if fn_weight (ns_node s) = Some 0 then (s, [])
                       else if ok (fn_id (ns_node s)) then recordNodeSuccess hc s else recordNodeFailure hc s) in
      emit (concat (map (\<lambda>(k, s). snd (probe s)) (nodeStates st)))
        (st\<lparr>nodeStates := jm_map_values (\<lambda>k s. fst (probe s)) (nodeStates st)\<rparr>))"

definition close_resolver :: "'w fed_state \<Rightarrow> 'w fed_state" where
  "close_resolver st = st\<lparr>fcache := []\<rparr>"

subsection \<open>The watermark store\<close>

text \<open>The contract of \<open>WatermarkStore\<close>: a store that only grows, of versions by DID.\<close>

locale version_store = watermark_store get put
  for get :: "'w \<Rightarrow> did \<Rightarrow> rat option" and put :: "'w \<Rightarrow> did \<Rightarrow> rat \<Rightarrow> 'w"

text \<open>The in-memory store of \<open>sdk/src/golden-path/steps-26-32.ts\<close>.\<close>

definition mem_getWatermark :: "(did, rat) js_map \<Rightarrow> did \<Rightarrow> rat option" where
  "mem_getWatermark m d = jm_get m d"

definition mem_setWatermark :: "(did, rat) js_map \<Rightarrow> did \<Rightarrow> rat \<Rightarrow> (did, rat) js_map" where
  "mem_setWatermark m d v = (case jm_get m d of None \<Rightarrow> jm_set m d v | Some u \<Rightarrow> if u < v then jm_set m d v else m)"

interpretation gp: version_store mem_getWatermark mem_setWatermark
  by unfold_locales (auto simp: mem_getWatermark_def mem_setWatermark_def jm_get_set max_def split: option.splits)

subsection \<open>Candidates\<close>

definition checked :: "'w fed_env \<Rightarrow> (string \<Rightarrow> query_result) \<Rightarrow> resolution_candidate \<Rightarrow> bool" where
  "checked env answers c =
     (answers (cd_nodeId c) = QDoc (cd_document c) \<and> (\<exists>t. verifyDocumentSignature env (cd_document c) t = DocOk))"

lemma accept_candidate_valid [simp]: "fs_valid (accept_candidate cfg w g c now fs) = fs_valid fs @ [c]"
  by (simp add: accept_candidate_def Let_def)

definition gains :: "'w fed_env \<Rightarrow> (string \<Rightarrow> query_result) \<Rightarrow> arrival_event list \<Rightarrow> resolution_candidate list \<Rightarrow> resolution_candidate list \<Rightarrow> bool" where
  "gains env answers as cs cs' =
     (\<exists>new. cs' = cs @ new \<and> list_all (checked env answers) new \<and> set (map cd_nodeId new) \<subseteq> ae_node ` set as \<and>
       (distinct (map ae_node as) \<longrightarrow> distinct (map cd_nodeId new)))"

lemma gains_refl: "gains env answers as cs cs"
  by (simp add: gains_def)

lemma gains_skip: "gains env answers as cs cs' \<Longrightarrow> gains env answers (a # as) cs cs'"
  unfolding gains_def by auto

lemma gains_take:
  assumes "gains env answers as (cs @ [c]) cs'" "checked env answers c" "cd_nodeId c = ae_node a"
  shows "gains env answers (a # as) cs cs'"
proof -
  obtain new where new: "cs' = cs @ c # new" "list_all (checked env answers) new" "set (map cd_nodeId new) \<subseteq> ae_node ` set as"
      "distinct (map ae_node as) \<longrightarrow> distinct (map cd_nodeId new)"
    using assms(1) by (auto simp: gains_def)
  have "distinct (map ae_node (a # as)) \<longrightarrow> distinct (map cd_nodeId (c # new))"
    using new(3,4) assms(3) by auto
  then show ?thesis
    unfolding gains_def using new assms(2,3) by (intro exI[of _ "c # new"]) auto
qed

lemma fan_loop_candidates:
  assumes "fan_loop env cfg answers w g as fs = Some fs'"
  shows "gains env answers as (fs_valid fs) (fs_valid fs')"
  using assms
proof (induction env cfg answers w g as fs rule: fan_loop.induct)
  case (1 env cfg answers w g fs)
  then show ?case by (simp add: gains_refl)
next
  case (2 env cfg answers w g a as fs)
  show ?case
  proof (cases "fs_deadline fs \<le> of_int (ae_top a) \<or> \<not> ae_beatsTimer a")
    case True
    then show ?thesis using 2(5) by (auto simp: gains_refl)
  next
    case go: False
    show ?thesis
    proof (cases "answers (ae_node a)")
      case (QDoc d)
      show ?thesis
      proof (cases "verifyDocumentSignature env d (ae_verifyAt a)")
        case DocOk
        have "checked env answers \<lparr>cd_nodeId = ae_node a, cd_document = d\<rparr>" using QDoc DocOk by (auto simp: checked_def)
        then show ?thesis using 2(1)[OF go QDoc refl DocOk] 2(5) go QDoc DocOk by (auto intro: gains_take)
      next
        case (DocBad r)
        then show ?thesis using 2(2)[OF go QDoc refl DocBad] 2(5) go QDoc by (simp add: gains_skip)
      next
        case VerifierThrew
        then show ?thesis using 2(5) go QDoc by simp
      qed
    next
      case QNotFound
      then show ?thesis using 2(3)[OF go QNotFound] 2(5) go by (simp add: gains_skip)
    next
      case QError
      then show ?thesis using 2(4)[OF go QError] 2(5) go by (simp add: gains_skip)
    qed
  qed
qed

lemma fair_arrivals_nodes: "distinct (map ae_node (fair_arrivals ids as)) \<and> ae_node ` set (fair_arrivals ids as) \<subseteq> set ids"
  by (induction ids as rule: fair_arrivals.induct) auto

lemma queryNode_QDoc: "fst (queryNode env cfg d answer st) = QDoc doc \<Longrightarrow> fd_id doc = d"
  by (auto simp: queryNode_def Let_def split: option.splits prod.splits if_splits fetch_outcome.splits body.splits)

lemma node_answer_QDoc: "node_answer env cfg d answers st i = QDoc doc \<Longrightarrow> fd_id doc = d"
  by (auto simp: node_answer_def queryNode_QDoc split: option.splits)

subsection \<open>Counting votes\<close>

lemma group_by_version_get:
  "jm_get (group_by_version cs) v = (let g = filter (\<lambda>c. cd_version c = v) cs in if g = [] then None else Some g)"
  by (induction cs rule: rev_induct) (auto simp: group_by_version_def jm_get_set jm.get_empty Let_def split: option.splits if_splits)

lemma group_by_version_wf: "jm_wf (group_by_version cs)"
  by (induction cs rule: rev_induct) (auto simp: group_by_version_def jm.wf_put jm.wf_empty)

lemma jm_get_member: "jm_wf m \<Longrightarrow> (k, v) \<in> set m \<Longrightarrow> jm_get m k = Some v"
  by (simp add: jm_get_def jm_wf_def jm_keys_def map_of_is_SomeI)

lemma content_agrees_same:
  assumes "content_agrees env cs" "c \<in> set cs" "c' \<in> set cs"
  shows "fe_contentHash env (cd_document c) = fe_contentHash env (cd_document c')"
proof -
  let ?H = "(\<lambda>c. fe_contentHash env (cd_document c)) ` set cs"
  have "card ?H \<le> Suc 0"
    using assms(1) by (simp add: content_agrees_def length_remdups_card_conv)
  then have "\<forall>x \<in> ?H. \<forall>y \<in> ?H. x = y" by (simp only: card_le_Suc0_iff_eq finite_imageI finite_set)
  then show ?thesis using assms(2,3) by blast
qed

text \<open>The candidates that agree with a document in version and content.\<close>

definition backers :: "'w fed_env \<Rightarrow> fed_document \<Rightarrow> resolution_candidate list \<Rightarrow> resolution_candidate list" where
  "backers env d cs = filter (\<lambda>c. cd_version c = doc_ver d \<and> fe_contentHash env (cd_document c) = fe_contentHash env d) cs"

lemma selectByQuorum_majority:
  assumes sel: "selectByQuorum env cs n = (Some d, as)" and "3 \<le> n"
  shows "length cs < 2 * length (backers env d cs)"
proof -
  define th m q where "th = computeQuorumThreshold (length cs)" and "m = group_by_version cs"
    and "q = map fst (filter (\<lambda>(v, g). th \<le> length g) m)"
  define v where "v = Max (set q)"
  define ws where "ws = (case jm_get m v of None \<Rightarrow> [] | Some g \<Rightarrow> g)"
  have q: "q \<noteq> []" using sel assms(2) by (auto simp: selectByQuorum_def Let_def th_def m_def q_def split: if_splits)
  then have "v \<in> set q" unfolding v_def by (intro Max_in) auto
  then obtain g where g: "(v, g) \<in> set m" "th \<le> length g" by (auto simp: q_def)
  then have get: "jm_get m v = Some g" using jm_get_member[of m v g] group_by_version_wf[of cs] by (simp add: m_def)
  then have ws: "ws = filter (\<lambda>c. cd_version c = v) cs" "th \<le> length ws"
    using g(2) group_by_version_get[of cs v] by (auto simp: ws_def m_def Let_def split: if_splits)
  have ok: "content_agrees env ws" "(case ws of [] \<Rightarrow> None | c # _ \<Rightarrow> Some (cd_document c)) = Some d"
    using sel assms(2) q by (auto simp: selectByQuorum_def Let_def th_def m_def q_def v_def ws_def split: if_splits)
  then obtain c where c: "c \<in> set ws" "d = cd_document c" by (auto split: list.splits)
  have dv: "doc_ver d = v" using c ws(1) by (simp add: cd_version_def)
  have "(cd_version c' = v) = (cd_version c' = doc_ver d \<and> fe_contentHash env (cd_document c') = fe_contentHash env d)" if "c' \<in> set cs" for c'
    using content_agrees_same[OF ok(1) _ c(1), of c'] that dv c(2) ws(1) by auto
  then have "ws = backers env d cs" unfolding backers_def ws(1) by (intro filter_cong) simp_all
  then show ?thesis using ws(2) by (simp add: th_def computeQuorumThreshold_def)
qed

subsection \<open>One resolution\<close>

lemma getCached_None: "getCached d now st = (None, st1) \<Longrightarrow> nodeStates st1 = nodeStates st \<and> watermarks st1 = watermarks st"
  by (auto simp: getCached_def split: option.splits if_splits)

lemma getCached_Some: "getCached d now st = (Some doc, st1) \<Longrightarrow> st1 = st \<and> (\<exists>e. jm_get (fcache st) d = Some e \<and> ce_document e = doc)"
  by (auto simp: getCached_def split: option.splits if_splits)

lemma emit_simps [simp]: "nodeStates (emit as st) = nodeStates st" "fcache (emit as st) = fcache st" "cacheEpoch (emit as st) = cacheEpoch st"
  "watermarks (emit as st) = watermarks st"
  by (simp_all add: emit_def)

lemma adopt_Some:
  assumes "adopt env cfg d rz ep chosen st = (Some r, st')"
  shows "r = chosen" "(case wm_get env (watermarks st) d of None \<Rightarrow> 0 | Some v \<Rightarrow> v) \<le> doc_ver chosen"
    "watermarks st' = wm_set env (watermarks st) d (doc_ver chosen)"
    "map_option ce_document (jm_get (fcache st') d) = Some chosen" "d' \<noteq> d \<Longrightarrow> jm_get (fcache st') d' = jm_get (fcache st) d'"
  using assms
  by (auto simp: adopt_def getCached_def setCached_def Let_def jm_get_delete jm_get_set split: prod.splits option.splits if_splits)

lemma adopt_None:
  assumes "adopt env cfg d rz ep chosen st = (None, st')"
  shows "watermarks st' = watermarks st" "jm_get (fcache st') d' = jm_get (fcache st) d' \<or> (d' = d \<and> jm_get (fcache st') d' = None)"
  using assms
  by (auto simp: adopt_def getCached_def setCached_def Let_def jm_get_delete split: prod.splits option.splits if_splits)

definition network_state :: "'w fed_env \<Rightarrow> fed_config \<Rightarrow> did \<Rightarrow> resolution \<Rightarrow> 'w fed_state \<Rightarrow> 'w fed_state" where
  "network_state env cfg d rz st = (invalidateCache d ^^ rz_invalidations rz) (query_targets env cfg d (rz_answers rz) st)"

lemma network_state_simps [simp]:
  "watermarks (network_state env cfg d rz st) = watermarks st"
  "nodeStates (network_state env cfg d rz st) = nodeStates (query_targets env cfg d (rz_answers rz) st)"
  "jm_get (fcache (network_state env cfg d rz st)) d' = (if d' = d \<and> 0 < rz_invalidations rz then None else jm_get (fcache st) d')"
proof -
  have f: "watermarks ((invalidateCache d ^^ n) s) = watermarks s \<and> nodeStates ((invalidateCache d ^^ n) s) = nodeStates s \<and>
      jm_get (fcache ((invalidateCache d ^^ n) s)) d' = (if d' = d \<and> 0 < n then None else jm_get (fcache s) d')" for n and s :: "'a fed_state"
    by (induction n) (auto simp: invalidateCache_def jm_get_delete)
  show "watermarks (network_state env cfg d rz st) = watermarks st"
    "nodeStates (network_state env cfg d rz st) = nodeStates (query_targets env cfg d (rz_answers rz) st)"
    "jm_get (fcache (network_state env cfg d rz st)) d' = (if d' = d \<and> 0 < rz_invalidations rz then None else jm_get (fcache st) d')"
    using f by (auto simp: network_state_def query_targets_def)
qed

text \<open>What stands behind an answer from the network.\<close>

lemma fanOut_cases:
  assumes "fanOut env cfg d rz ep st = (r, st')"
  obtains (silent) as where "r = None \<or> r = Some None" "st' = emit as (network_state env cfg d rz st)"
  | (voted) cs as doc x where "list_all (checked env (node_answer env cfg d (rz_answers rz) st)) cs"
      "distinct (map cd_nodeId cs)" "set (map cd_nodeId cs) \<subseteq> (\<lambda>s. fn_id (ns_node s)) ` set (targets st)"
      "minResponses cfg \<le> of_nat (length cs)" "selectByQuorum env cs (length (targets st)) = (Some doc, x)"
      "adopt env cfg d rz ep doc (emit as (network_state env cfg d rz st)) = (the r, st')" "r \<noteq> None"
proof -
  define ids where "ids = map (\<lambda>s. fn_id (ns_node s)) (targets st)"
  define answers where "answers = node_answer env cfg d (rz_answers rz) st"
  define arr where "arr = fair_arrivals ids (rz_arrivals rz)"
  define deadline where "deadline = (of_int (rz_fan rz + timeoutMs cfg) :: rat)"
  define fs0 where "fs0 = \<lparr>fs_valid = [], fs_responded = 0, fs_all404 = True, fs_settled = False, fs_deadline = deadline, fs_alerts = []\<rparr>"
  have emit2: "emit as (emit bs s) = emit (bs @ as) s" "emit [] s = s" for as bs and s :: "'a fed_state" by (simp_all add: emit_def)
  show ?thesis
  proof (cases "fan_loop env cfg answers (settle_window cfg) deadline arr fs0")
    case None
    then show ?thesis
      using assms silent[of "[]"]
      by (simp add: fanOut_def Let_def ids_def answers_def arr_def deadline_def fs0_def network_state_def emit2)
  next
    case (Some fs)
    have g: "gains env answers arr [] (fs_valid fs)" using fan_loop_candidates[OF Some] by (simp add: fs0_def)
    note fair = fair_arrivals_nodes[of ids "rz_arrivals rz", folded arr_def]
    have cs: "list_all (checked env answers) (fs_valid fs)" "distinct (map cd_nodeId (fs_valid fs))"
        "set (map cd_nodeId (fs_valid fs)) \<subseteq> ae_node ` set arr"
      using g fair by (auto simp: gains_def)
    then have cs3: "set (map cd_nodeId (fs_valid fs)) \<subseteq> (\<lambda>s. fn_id (ns_node s)) ` set (targets st)"
      using fair unfolding ids_def set_map by blast
    note run = assms[unfolded fanOut_def Let_def, folded ids_def answers_def arr_def deadline_def, folded fs0_def, folded network_state_def,
        unfolded Some, simplified, unfolded emit2]
    show ?thesis
    proof (cases "fs_valid fs = [] \<and> fs_all404 fs \<and> minResponses cfg \<le> of_nat (fs_responded fs) \<or> of_nat (length (fs_valid fs)) < minResponses cfg")
      case True
      then show ?thesis using run silent by (auto split: if_splits)
    next
      case False
      then have run2: "(case selectByQuorum env (fs_valid fs) (length ids) of
          (None, as) \<Rightarrow> (Some None, emit (fs_alerts fs @ as) (network_state env cfg d rz st))
        | (Some chosen, as) \<Rightarrow>
            (case adopt env cfg d rz ep chosen (emit (fs_alerts fs @ as) (network_state env cfg d rz st)) of (r, st3) \<Rightarrow> (Some r, st3))) = (r, st')"
        using run by auto
      obtain o1 x where sel: "selectByQuorum env (fs_valid fs) (length ids) = (o1, x)" by fastforce
      show ?thesis
      proof (cases o1)
        case None
        then show ?thesis using run2 sel silent by auto
      next
        case (Some doc)
        obtain r3 st3 where ad: "adopt env cfg d rz ep doc (emit (fs_alerts fs @ x) (network_state env cfg d rz st)) = (r3, st3)" by fastforce
        show ?thesis
          using voted[OF cs(1)[unfolded answers_def] cs(2) cs3, of doc x "fs_alerts fs @ x"] False sel Some ad run2 by (auto simp: ids_def)
      qed
    qed
  qed
qed

text \<open>A resolution answers from the cache, or from the network.\<close>

lemma resolve_cases:
  assumes "resolve env cfg d rz st = (r, st')"
  obtains (cached) doc e where "r = Some (Some doc)" "jm_get (fcache st) d = Some e" "ce_document e = doc" "st' = st"
  | (short) as st1 where "r = Some None" "st' = emit as st1" "st1 = st \<or> st1 = st\<lparr>fcache := jm_delete (fcache st) d\<rparr>"
      "of_nat (length (targets st)) < minResponses cfg"
  | (network) st1 where "fanOut env cfg d rz (epoch_of d st) st1 = (r, st')" "st1 = st \<or> st1 = st\<lparr>fcache := jm_delete (fcache st) d\<rparr>"
proof -
  obtain c1 s1 where g1: "getCached d (rz_start rz) st = (c1, s1)" by fastforce
  obtain c2 s2 where g2: "getCached d (rz_inner rz) s1 = (c2, s2)" by fastforce
  show ?thesis
  proof (cases c1)
    case (Some doc)
    obtain e where e: "jm_get (fcache st) d = Some e" "ce_document e = doc" and s1: "s1 = st" using getCached_Some[OF g1[unfolded Some]] by auto
    have "r = Some (Some doc)" "st' = st" using assms g1 Some s1 by (simp_all add: resolve_def)
    then show ?thesis using cached e by blast
  next
    case None
    have s1: "s1 = st \<or> s1 = st\<lparr>fcache := jm_delete (fcache st) d\<rparr>"
      using g1 None by (auto simp: getCached_def split: option.splits if_splits)
    show ?thesis
    proof (cases c2)
      case (Some doc)
      have "jm_get (fcache s1) d \<noteq> None" using g2 Some by (auto simp: getCached_def split: option.splits if_splits)
      then have s: "s1 = st" using s1 by (auto simp: jm_get_delete)
      obtain e where e: "jm_get (fcache st) d = Some e" "ce_document e = doc" and s2: "s2 = st"
        using getCached_Some[OF g2[unfolded Some]] s by auto
      have "r = Some (Some doc)" "st' = st"
        using assms g1 g2 None Some s s2 by (simp_all add: resolve_def resolveInternal_def)
      then show ?thesis using cached e by blast
    next
      case c2: None
      have dd: "jm_delete (jm_delete (fcache st) d) d = jm_delete (fcache st) d" by (simp add: jm_delete_def)
      have s2: "s2 = st \<or> s2 = st\<lparr>fcache := jm_delete (fcache st) d\<rparr>"
        using g2 c2 s1 dd by (auto simp: getCached_def split: option.splits if_splits)
      then have t: "targets s2 = targets st" "epoch_of d s2 = epoch_of d st" by (auto simp: targets_def epoch_of_def)
      have "(if of_nat (length (targets s2)) < minResponses cfg then (Some None, emit [FEDERATION_QUORUM_UNMET 0 0 (minResponses cfg)] s2)
          else fanOut env cfg d rz (epoch_of d s2) s2) = (r, st')"
        using assms g1 g2 None c2 by (simp add: resolve_def resolveInternal_def)
      note run = this[unfolded t]
      show ?thesis
      proof (cases "of_nat (length (targets st)) < minResponses cfg")
        case True
        show ?thesis using run True by (intro short[OF _ _ s2 True]) auto
      next
        case False
        show ?thesis using run False by (intro network[OF _ s2]) simp
      qed
    qed
  qed
qed

subsection \<open>Versions only grow\<close>

definition floor_of :: "'w fed_env \<Rightarrow> 'w fed_state \<Rightarrow> did \<Rightarrow> rat" where
  "floor_of env st d = (case wm_get env (watermarks st) d of None \<Rightarrow> 0 | Some v \<Rightarrow> v)"

text \<open>\<open>hi\<close> bounds what has been answered: the watermarks are above it, and so are the cached documents.\<close>

definition above :: "'w fed_env \<Rightarrow> (did \<Rightarrow> rat) \<Rightarrow> 'w fed_state \<Rightarrow> bool" where
  "above env hi st =
     (\<forall>d. hi d \<le> floor_of env st d \<and>
        (\<forall>e. jm_get (fcache st) d = Some e \<longrightarrow> hi d \<le> doc_ver (ce_document e) \<and> doc_ver (ce_document e) \<le> floor_of env st d))"

lemma above_cong:
  assumes "above env hi st" "watermarks st' = watermarks st"
    and "\<And>d. jm_get (fcache st') d = jm_get (fcache st) d \<or> jm_get (fcache st') d = None"
  shows "above env hi st'"
  unfolding above_def
proof (intro allI conjI impI)
  fix d
  have f: "floor_of env st' d = floor_of env st d" by (simp add: floor_of_def assms(2))
  show "hi d \<le> floor_of env st' d" using assms(1) f by (simp add: above_def)
  fix e assume "jm_get (fcache st') d = Some e"
  then have "jm_get (fcache st) d = Some e" using assms(3)[of d] by simp
  then show "hi d \<le> doc_ver (ce_document e)" "doc_ver (ce_document e) \<le> floor_of env st' d" using assms(1) f by (auto simp: above_def)
qed

context version_store
begin

lemma resolve_above:
  assumes env: "wm_get env = get" "wm_set env = put" and inv: "above env hi st" and run: "resolve env cfg d rz st = (r, st')"
  shows "(\<forall>doc. r = Some (Some doc) \<longrightarrow> hi d \<le> doc_ver doc \<and> above env (hi(d := doc_ver doc)) st') \<and>
    ((\<forall>doc. r \<noteq> Some (Some doc)) \<longrightarrow> above env hi st')"
  using run
proof (cases rule: resolve_cases)
  case (cached doc e)
  have "hi d \<le> doc_ver doc" "doc_ver doc \<le> floor_of env st d" using inv cached(2,3) by (auto simp: above_def)
  then have "above env (hi(d := doc_ver doc)) st" using inv cached(2,3) by (auto simp: above_def)
  then show ?thesis using cached \<open>hi d \<le> doc_ver doc\<close> by simp
next
  case (short as st1)
  then have "above env hi st'" by (intro above_cong[OF inv]) (auto simp: jm_get_delete split: if_splits)
  then show ?thesis using short by simp
next
  case (network st1)
  have st1: "above env hi st1" using network(2) by (intro above_cong[OF inv]) (auto simp: jm_get_delete split: if_splits)
  from network(1) show ?thesis
  proof (cases rule: fanOut_cases)
    case (silent as)
    then have "above env hi st'" by (intro above_cong[OF st1]) auto
    then show ?thesis using silent by auto
  next
    case (voted cs as doc x)
    let ?n = "emit as (network_state env cfg d rz st1)"
    have n: "above env hi ?n" by (intro above_cong[OF st1]) auto
    show ?thesis
    proof (cases "the r")
      case None
      note ad = adopt_None[OF voted(6)[unfolded None]]
      have k: "jm_get (fcache st') d' = jm_get (fcache ?n) d' \<or> jm_get (fcache st') d' = None" for d' using ad(2)[of d'] by auto
      have "above env hi st'" using n ad(1) k by (rule above_cong)
      then show ?thesis using None voted(7) by auto
    next
      case (Some c)
      note ad = adopt_Some[OF voted(6)[unfolded Some]]
      have floor: "floor_of env ?n d \<le> doc_ver doc" using ad(2) by (simp add: floor_of_def)
      have hi: "hi d \<le> doc_ver doc" using n floor unfolding above_def by (meson order.trans)
      obtain u where u: "get (put (watermarks ?n) d (doc_ver doc)) d = Some u" "doc_ver doc \<le> u" using put_reaches by blast
      then have fd: "doc_ver doc \<le> floor_of env st' d" by (simp add: floor_of_def env ad(3))
      have fo: "d' \<noteq> d \<Longrightarrow> floor_of env st' d' = floor_of env ?n d'" for d' using put_other by (simp add: floor_of_def env ad(3))
      have "above env (hi(d := doc_ver doc)) st'"
        unfolding above_def
      proof (intro allI conjI impI)
        fix d'
        show "(hi(d := doc_ver doc)) d' \<le> floor_of env st' d'" using fd fo[of d'] n by (cases "d' = d") (auto simp: above_def)
        fix e assume e: "jm_get (fcache st') d' = Some e"
        show "(hi(d := doc_ver doc)) d' \<le> doc_ver (ce_document e)" "doc_ver (ce_document e) \<le> floor_of env st' d'"
          using e ad(1,4) ad(5)[of d'] fd fo[of d'] n by (cases "d' = d"; auto simp: above_def)+
      qed
      then show ?thesis using hi voted(7) Some ad(1) by auto
    qed
  qed
qed

lemma resolve_all_above:
  assumes env: "wm_get env = get" "wm_set env = put"
  shows "above env hi st \<Longrightarrow> (d, Some doc) \<in> set (fst (resolve_all env cfg calls st)) \<Longrightarrow> hi d \<le> doc_ver doc"
proof (induction calls arbitrary: st hi)
  case (Cons c calls)
  obtain d0 rz where c: "c = (d0, rz)" by (cases c)
  obtain r st1 where run: "resolve env cfg d0 rz st = (r, st1)" by fastforce
  note step = resolve_above[OF env Cons.prems(1) run]
  show ?case
  proof (cases "\<exists>x. r = Some (Some x)")
    case True
    then obtain x where x: "r = Some (Some x)" by blast
    then have up: "hi d0 \<le> doc_ver x" "above env (hi(d0 := doc_ver x)) st1" using step by auto
    show ?thesis
      using Cons.prems(2) Cons.IH[OF up(2)] up(1) x run c by (auto split: prod.splits if_splits)
  next
    case False
    then have "above env hi st1" using step by blast
    then show ?thesis using Cons.prems(2) Cons.IH[of hi st1] False run c by (auto split: prod.splits option.splits)
  qed
qed simp

lemma answers_grow:
  assumes env: "wm_get env = get" "wm_set env = put"
  shows "above env hi st \<Longrightarrow>
    sorted_wrt (\<lambda>a b. \<forall>x y. fst a = fst b \<longrightarrow> snd a = Some x \<longrightarrow> snd b = Some y \<longrightarrow> doc_ver x \<le> doc_ver y) (fst (resolve_all env cfg calls st))"
proof (induction calls arbitrary: st hi)
  case (Cons c calls)
  obtain d0 rz where c: "c = (d0, rz)" by (cases c)
  obtain r st1 where run: "resolve env cfg d0 rz st = (r, st1)" by fastforce
  note step = resolve_above[OF env Cons.prems run]
  obtain rs st2 where rest: "resolve_all env cfg calls st1 = (rs, st2)" by fastforce
  have out: "fst (resolve_all env cfg (c # calls) st) = (d0, case r of None \<Rightarrow> None | Some x \<Rightarrow> x) # rs" using c run rest by simp
  show ?case
  proof (cases "\<exists>x. r = Some (Some x)")
    case True
    then obtain x where x: "r = Some (Some x)" by blast
    then have up: "above env (hi(d0 := doc_ver x)) st1" using step by auto
    have "doc_ver x \<le> doc_ver y" if "(d0, Some y) \<in> set rs" for y
      using resolve_all_above[OF env up, of d0 y cfg calls] that rest by simp
    then show ?thesis using Cons.IH[OF up] rest x unfolding out by auto
  next
    case False
    then have "above env hi st1" using step by blast
    then have "sorted_wrt (\<lambda>a b. \<forall>x y. fst a = fst b \<longrightarrow> snd a = Some x \<longrightarrow> snd b = Some y \<longrightarrow> doc_ver x \<le> doc_ver y) rs"
      using Cons.IH[of hi st1] rest by simp
    moreover have "(case r of None \<Rightarrow> None | Some x \<Rightarrow> x) = None" using False by (cases r) auto
    ultimately show ?thesis unfolding out by simp
  qed
qed simp

end

subsection \<open>What a resolution does to the nodes\<close>

lemma adopt_nodes: "nodeStates (snd (adopt env cfg d rz ep doc st)) = nodeStates st"
  by (auto simp: adopt_def getCached_def setCached_def Let_def split: prod.splits option.splits)

lemma query_targets_keeps: "jm_get (nodeStates st) i = Some s \<Longrightarrow> \<not> is_target s \<Longrightarrow> jm_get (nodeStates (query_targets env cfg d answers st)) i = Some s"
  by (simp add: query_targets_def jm_get_map_values)

lemma resolve_keeps_non_target:
  assumes "jm_get (nodeStates st) i = Some s" "\<not> is_target s"
  shows "jm_get (nodeStates (snd (resolve env cfg d rz st))) i = Some s"
proof (cases "resolve env cfg d rz st")
  case (Pair r st')
  then show ?thesis
  proof (cases rule: resolve_cases)
    case (cached doc e)
    then show ?thesis using assms Pair by simp
  next
    case (short as st1)
    then show ?thesis using assms Pair by auto
  next
    case (network st1)
    have st1: "jm_get (nodeStates st1) i = Some s" using network(2) assms(1) by auto
    note q = query_targets_keeps[OF st1 assms(2), of env cfg d "rz_answers rz"]
    from network(1) show ?thesis
    proof (cases rule: fanOut_cases)
      case (silent as)
      then show ?thesis using q Pair by simp
    next
      case (voted cs as doc x)
      then show ?thesis using q Pair adopt_nodes[of env cfg d rz "epoch_of d st" doc "emit as (network_state env cfg d rz st1)"] by simp
    qed
  qed
qed

lemma resolve_all_keeps_non_target:
  "jm_get (nodeStates st) i = Some s \<Longrightarrow> \<not> is_target s \<Longrightarrow> jm_get (nodeStates (snd (resolve_all env cfg calls st))) i = Some s"
proof (induction calls arbitrary: st)
  case (Cons c calls)
  obtain d rz where c: "c = (d, rz)" by (cases c)
  have "jm_get (nodeStates (snd (resolve env cfg d rz st))) i = Some s" using Cons.prems by (rule resolve_keeps_non_target)
  then have "jm_get (nodeStates (snd (resolve_all env cfg calls (snd (resolve env cfg d rz st))))) i = Some s"
    using Cons.IH Cons.prems(2) by blast
  then show ?case unfolding c by (simp add: split_def)
qed simp

subsection \<open>Properties\<close>

text \<open>
  Remark (roundtrip). A binding made with the private key of a \<open>did:key\<close> principal verifies until it
  expires, when its base64url signature does not read as hex.
\<close>

theorem binding_roundtrip:
  assumes laws: "ed25519_laws pf" and make: "createBinding pf canon prm t = Inr p"
    and key: "assertPrivateKey (cb_privateKey prm) = Inr kb" "cb_principalDid prm = publicKeyToDidKey (ed_public pf (take 32 kb))"
    and sig: "\<not> HEX_PATTERN (bd_signature p)"
    and time: "\<forall>e. cb_expiresAt prm = Some e \<longrightarrow> \<not> isTimestampExpired e now"
  shows "verifyBinding pf canon p now"
proof -
  define p0 where "p0 = \<lparr>bd_principalDid = cb_principalDid prm, bd_agentDid = cb_agentDid prm,
      bd_issuedAt = (case cb_issuedAt prm of None \<Rightarrow> t | Some t \<Rightarrow> t), bd_expiresAt = cb_expiresAt prm, bd_signature = []\<rparr>"
  obtain v where v: "sign pf (bindingPayload canon p0) (cb_privateKey prm) EncBase64Url = Inr v" "p = p0\<lparr>bd_signature := v\<rparr>"
    and dids: "isDidKey (cb_principalDid prm)" "isDidAgent (cb_agentDid prm)"
    using make by (auto simp: createBinding_def IDENTITY_ENCODING_def Let_def p0_def split: if_splits sum.splits)
  have len: "length (ed_public pf (take 32 kb)) = 32"
    using laws key(1) by (auto simp: ed25519_laws_def assertPrivateKey_def split: sum.splits if_splits)
  have "bindingPayload canon p = bindingPayload canon p0" by (simp add: v(2) bindingPayload_def)
  then have "verify pf (bindingPayload canon p) (bd_signature p) (toHex (ed_public pf (take 32 kb))) = Inr True"
    using sign_verify[OF laws key(1) v(1)] sig by (simp add: v(2))
  then show ?thesis
    using dids time did_key_of_public(2)[OF len] key(2) by (auto simp: verifyBinding_def v(2) p0_def split: option.splits)
qed

text \<open>Remark (error). The expiry of a binding is not signed: without it, or with a later one, the binding still verifies.\<close>

theorem binding_expiry_unsigned:
  "verifyBinding pf canon p now \<Longrightarrow> verifyBinding pf canon (p\<lparr>bd_expiresAt := None\<rparr>) later"
  by (auto simp: verifyBinding_def bindingPayload_def split: if_splits sum.splits)

text \<open>Remark (error). An IPv4 address mapped into IPv6 passes for public.\<close>

lemma mapped_loopback_public: "\<not> isPrivateIP ''::ffff:127.0.0.1''" "isPrivateIP ''127.0.0.1''" "isPrivateIP ''[fe80::1%eth0]''"
  by code_simp+

text \<open>Remark (safety). The guard hands out an address only when none of those DNS gave is private.\<close>

lemma guarded_address_public:
  "resolveAndValidate v4 v6 h = Some a \<Longrightarrow> \<not> isPrivateIP a \<and> (a = strip_brackets h \<or> list_all (\<lambda>b. \<not> isPrivateIP b) (v4 (strip_brackets h) @ v6 (strip_brackets h)))"
  using hd_in_set[of "v4 (strip_brackets h) @ v6 (strip_brackets h)"]
  by (auto simp: resolveAndValidate_def Let_def list_ex_iff list_all_iff simp del: hd_append split: if_splits)


definition demo_binding :: binding_proof where
  "demo_binding = \<lparr>bd_principalDid = publicKeyToDidKey (replicate 32 1), bd_agentDid = demo_agent 2,
     bd_issuedAt = ''2026-01-01T00:00:00.000Z'', bd_expiresAt = None, bd_signature = toBase64Url (replicate 32 1 @ replicate 32 255)\<rparr>"

definition demo_fed_document :: "rat option \<Rightarrow> fed_document" where
  "demo_fed_document v = \<lparr>fd_id = demo_agent 2, fd_principalDid = publicKeyToDidKey (replicate 32 1), fd_publicKey = toHex (replicate 32 1),
     fd_bindingProof = Some demo_binding, fd_version = v, fd_hasRotationProof = False, fd_carried = []\<rparr>"

definition demo_env :: "(did, rat) js_map fed_env" where
  "demo_env = \<lparr>fe_pf = demo_platform, fe_sha = (\<lambda>_. replicate 19 170 @ [162]), fe_bindingText = (\<lambda>a t p. a @ t @ p), fe_contentHash = fd_publicKey,
     fe_parseUrl = (\<lambda>u. Some (''node.example'', None)), fe_encode = (\<lambda>d. d), fe_guard = (\<lambda>h. True), fe_verifyDIDBinding = (\<lambda>d. None),
     wm_get = mem_getWatermark, wm_set = mem_setWatermark\<rparr>"

definition demo_config :: fed_config where
  "demo_config = \<lparr>fc_nodes = map (\<lambda>i. \<lparr>fn_id = i, fn_url = ''https://'' @ i, fn_weight = None\<rparr>) [''n1'', ''n2'', ''n3''], minResponses = 2,
     timeoutMs = 3000, settleWindowMs = None, cacheTtlMs = 60000, maxResponseBytes = DEFAULT_MAX_RESPONSE_BYTES, healthCheck = None\<rparr>"

definition demo_arrival :: "string \<Rightarrow> int \<Rightarrow> arrival_event" where
  "demo_arrival i t = \<lparr>ae_node = i, ae_top = t, ae_beatsTimer = True, ae_verifyAt = ''2026-03-01T00:00:00.000Z'', ae_after = t + 1\<rparr>"

definition demo_run :: resolution where
  "demo_run = \<lparr>rz_answers = (\<lambda>i. if i = ''n3'' then FetchFailed
       else Response \<lparr>rs_status = 200, rs_contentLength = Some 900, rs_body = DocumentBody (demo_fed_document (Some 1))\<rparr>),
     rz_arrivals = [demo_arrival ''n1'' 10, demo_arrival ''n2'' 20], rz_invalidations = 0, rz_start = 0, rz_inner = 1, rz_fan = 2,
     rz_check = 30, rz_store = 31\<rparr>"

lemma demo_fed_document_ok:
  "verifyDocumentSignature demo_env (demo_fed_document (Some 1)) t = DocOk"
proof -
  have "verifyBinding demo_platform canon demo_binding t" for canon
    using did_key_of_public[of "replicate 32 1"] by (simp add: verifyBinding_def demo_binding_def demo_agent_ok demo_verify)
  moreover have "createAgentDID (\<lambda>_. replicate 19 170 @ [162]) (toHex (replicate 32 1)) = Inr (demo_agent 2)"
  proof -
    have "detectEncoding (toHex (replicate 32 1)) = EncHex" by code_simp
    moreover have "''did:agent:'' @ take 40 (toHex (replicate 19 170 @ [162])) = demo_agent 2" by code_simp
    ultimately show ?thesis by (simp add: createAgentDID_def)
  qed
  ultimately show ?thesis by (simp add: verifyDocumentSignature_def demo_env_def demo_fed_document_def) (simp add: demo_binding_def)
qed

lemma demo_nodes:
  "targets (new_resolver demo_config w) = map fresh_node (fc_nodes demo_config)"
  "jm_get (nodeStates (new_resolver demo_config w)) i =
     (if i = ''n1'' \<or> i = ''n2'' \<or> i = ''n3'' then Some (fresh_node \<lparr>fn_id = i, fn_url = ''https://'' @ i, fn_weight = None\<rparr>) else None)"
  by (auto simp: new_resolver_def demo_config_def targets_def is_target_def fresh_node_def jm_get_def jm_keys_def)

lemma demo_answers:
  "node_answer demo_env demo_config (demo_agent 2) (rz_answers demo_run) (new_resolver demo_config w) ''n1'' = QDoc (demo_fed_document (Some 1))"
  "node_answer demo_env demo_config (demo_agent 2) (rz_answers demo_run) (new_resolver demo_config w) ''n2'' = QDoc (demo_fed_document (Some 1))"
proof -
  have "fst (queryNode demo_env demo_config (demo_agent 2) (rz_answers demo_run i) (fresh_node \<lparr>fn_id = i, fn_url = u, fn_weight = None\<rparr>)) =
      QDoc (demo_fed_document (Some 1))" if "i \<noteq> ''n3''" for i u
    using that
    by (simp add: queryNode_def demo_env_def demo_run_def demo_config_def ipv4_literal_def demo_fed_document_def DEFAULT_MAX_RESPONSE_BYTES_def
        Let_def split: prod.splits)
  then show "node_answer demo_env demo_config (demo_agent 2) (rz_answers demo_run) (new_resolver demo_config w) ''n1'' = QDoc (demo_fed_document (Some 1))"
    "node_answer demo_env demo_config (demo_agent 2) (rz_answers demo_run) (new_resolver demo_config w) ''n2'' = QDoc (demo_fed_document (Some 1))"
    unfolding node_answer_def demo_nodes by (simp_all add: fresh_node_def)
qed

lemma demo_resolved: "fst (resolve demo_env demo_config (demo_agent 2) demo_run (new_resolver demo_config [])) = Some (Some (demo_fed_document (Some 1)))"
proof -
  let ?st = "new_resolver demo_config []"
  let ?c = "\<lambda>i. \<lparr>cd_nodeId = i, cd_document = demo_fed_document (Some 1)\<rparr>"
  have f: "fcache ?st = []" "cacheEpoch ?st = []" by (simp_all add: new_resolver_def)
  have m: "minResponses demo_config = 2" "timeoutMs demo_config = 3000" "settle_window demo_config = 750" by (simp_all add: demo_config_def settle_window_def)
  have ids: "map (\<lambda>s. fn_id (ns_node s)) (targets ?st) = [''n1'', ''n2'', ''n3'']" unfolding demo_nodes by (simp add: fresh_node_def demo_config_def)
  have len: "length (targets ?st) = 3" using arg_cong[OF ids, of length] by (simp add: eval_nat_numeral)
  have fan: "rz_fan demo_run = 2" "rz_invalidations demo_run = 0" by (simp_all add: demo_run_def)
  have arr: "fair_arrivals [''n1'', ''n2'', ''n3''] (rz_arrivals demo_run) = [demo_arrival ''n1'' 10, demo_arrival ''n2'' 20]"
    by (simp add: demo_run_def demo_arrival_def)
  obtain a b c e where loop: "fan_loop demo_env demo_config (node_answer demo_env demo_config (demo_agent 2) (rz_answers demo_run) ?st) 750
      (of_int (rz_fan demo_run + 3000)) [demo_arrival ''n1'' 10, demo_arrival ''n2'' 20]
      \<lparr>fs_valid = [], fs_responded = 0, fs_all404 = True, fs_settled = False, fs_deadline = of_int (rz_fan demo_run + 3000), fs_alerts = []\<rparr>
      = Some \<lparr>fs_valid = [?c ''n1'', ?c ''n2''], fs_responded = a, fs_all404 = False, fs_settled = b, fs_deadline = c, fs_alerts = e\<rparr>"
    by (simp add: demo_arrival_def demo_answers demo_fed_document_ok accept_candidate_def m fan)
  have sel: "selectByQuorum demo_env [?c ''n1'', ?c ''n2''] 3 = (Some (demo_fed_document (Some 1)), [])"
    by (simp add: selectByQuorum_def computeQuorumThreshold_def group_by_version_def cd_version_def doc_ver_def demo_fed_document_def
        jm_get_def jm_keys_def content_agrees_def)
  have ad: "fst (adopt demo_env demo_config (demo_agent 2) demo_run 0 (demo_fed_document (Some 1)) (emit x (emit y (query_targets e c d a ?st)))) = Some (demo_fed_document (Some 1))"
    for x y e c d a
    by (simp add: adopt_def getCached_def query_targets_def f epoch_of_def demo_env_def mem_getWatermark_def doc_ver_def demo_fed_document_def jm.get_empty
        new_resolver_def emit_def Let_def)
  have "fst (fanOut demo_env demo_config (demo_agent 2) demo_run 0 ?st) = Some (Some (demo_fed_document (Some 1)))"
    unfolding fanOut_def Let_def ids arr m loop using sel ad by (simp add: split_def fan eval_nat_numeral)
  then show ?thesis
    by (simp add: resolve_def resolveInternal_def getCached_def f jm.get_empty len m epoch_of_def)
qed




text \<open>
  Remark (error). A node that has become \<open>UNHEALTHY\<close> is never asked again by \<open>resolve\<close>: only the prober, which is
  optional, could bring it back.
\<close>

theorem unhealthy_node_forgotten:
  assumes "jm_get (nodeStates st) i = Some s" "health s = UNHEALTHY"
  shows "jm_get (nodeStates (snd (resolve_all env cfg calls st))) i = Some s"
  using assms by (intro resolve_all_keeps_non_target) (simp_all add: is_target_def)

text \<open>Three failures in a row make a fresh node \<open>UNHEALTHY\<close> when no health check is configured.\<close>

lemma three_failures_unhealthy:
  "health (fst (drivePassiveHealth PASSIVE_HEALTH_CFG (fst (drivePassiveHealth PASSIVE_HEALTH_CFG
     (fst (drivePassiveHealth PASSIVE_HEALTH_CFG (fresh_node n) False)) False)) False)) = UNHEALTHY"
  by (simp add: drivePassiveHealth_def PASSIVE_HEALTH_CFG_def fresh_node_def push_result_def changeHealth_def HEALTH_RATE_WINDOW_def Let_def)

definition demo_sick :: "(did, rat) js_map fed_state" where
  "demo_sick = (new_resolver demo_config [])
     \<lparr>nodeStates := [(''n1'', (fresh_node \<lparr>fn_id = ''n1'', fn_url = ''https://n1'', fn_weight = None\<rparr>)\<lparr>health := UNHEALTHY\<rparr>)]\<rparr>"

theorem unhealthy_node_forgotten_witness:
  "map_option health (jm_get (nodeStates (snd (resolve_all demo_env demo_config [(demo_agent 2, demo_run)] demo_sick))) ''n1'') = Some UNHEALTHY"
proof -
  let ?s = "(fresh_node \<lparr>fn_id = ''n1'', fn_url = ''https://n1'', fn_weight = None\<rparr>)\<lparr>health := UNHEALTHY\<rparr>"
  have "jm_get (nodeStates demo_sick) ''n1'' = Some ?s" "health ?s = UNHEALTHY" by (simp_all add: demo_sick_def jm_get_def)
  from unhealthy_node_forgotten[OF this, of demo_env demo_config "[(demo_agent 2, demo_run)]"] show ?thesis
    by (simp del: resolve_all.simps)
qed

text \<open>
  Remark (error). The public key of a document is checked only for the versions 0, 1 and above 1. A document that
  passes still passes with any other key once its version is below 1 and not 0: the key in it is then
  bound to nothing.
\<close>

theorem key_not_bound_below_version_one:
  assumes "verifyDocumentSignature env doc now = DocOk" "v < 1" "v \<noteq> 0"
  shows "verifyDocumentSignature env (doc\<lparr>fd_publicKey := k, fd_version := Some v\<rparr>) now = DocOk"
  using assms by (auto simp: verifyDocumentSignature_def Let_def split: option.splits if_splits sum.splits)

theorem key_not_bound_below_version_one_witness:
  "verifyDocumentSignature demo_env ((demo_fed_document (Some 1))\<lparr>fd_publicKey := ''forged'', fd_version := Some (1 / 2)\<rparr>) ''2026-03-01T00:00:00.000Z'' = DocOk"
  by (rule key_not_bound_below_version_one[OF demo_fed_document_ok]) simp_all

end
