(* ===== verification/Secure_Channel.thy ===== *)
theory Secure_Channel
  imports Hash_Chain Js_Text
begin

text \<open>
  The encrypted channel of a session: \<open>crypto/src/encryption.ts\<close> (key identifiers, nonces, associated
  data, key chain), \<open>communication/src/session/crypto-state.ts\<close> (the handle of one generation of keys),
  \<open>communication/src/session-registry.ts\<close> (handles by session, the dual-key window) and the encrypted
  bodies of \<open>communication/src/envelope.ts\<close> with their replay tracker.

  AES-GCM, HKDF, SHA-256 and the canonical printer are parameters; texts are handed to them as texts,
  their UTF-8 encoding included. The cached key identifier of a handle is recomputed here: the cache is
  cleared exactly when the keys are. Numbers that the source keeps in eight bytes are natural numbers,
  written into bytes modulo \<open>2 ^ 64\<close>.
\<close>

subsection \<open>Primitives\<close>

record channel_crypto =
  cc_sha :: "bytes \<Rightarrow> bytes"
  cc_jcs :: "js_object \<Rightarrow> string"
  gcm_seal :: "bytes \<Rightarrow> bytes \<Rightarrow> string \<Rightarrow> bytes \<Rightarrow> bytes"
  gcm_open :: "bytes \<Rightarrow> bytes \<Rightarrow> string \<Rightarrow> bytes \<Rightarrow> bytes option"
  hkdf_extract :: "bytes \<Rightarrow> bytes \<Rightarrow> bytes"
  hkdf_expand :: "bytes \<Rightarrow> string \<Rightarrow> nat \<Rightarrow> bytes"

definition INIT_TO_RESP_KEY :: string where
  "INIT_TO_RESP_KEY = ''ap/e2e/v1/traffic/init->resp/key''"

definition RESP_TO_INIT_KEY :: string where
  "RESP_TO_INIT_KEY = ''ap/e2e/v1/traffic/resp->init/key''"

definition SESSION_SALT :: string where
  "SESSION_SALT = ''ap/e2e/v1/nonce/session-salt''"

definition REKEY_CHAIN :: string where
  "REKEY_CHAIN = ''ap/e2e/v1/rekey/chain-key''"

text \<open>The \<open>k\<close> low bytes of a number, the most significant one first (\<open>DataView.setUint32\<close> twice).\<close>

fun be_bytes :: "nat \<Rightarrow> nat \<Rightarrow> bytes" where
  "be_bytes 0 n = []"
| "be_bytes (Suc k) n = be_bytes k (n div 256) @ [word_of_nat (n mod 256)]"

definition be_number :: "bytes \<Rightarrow> nat" where
  "be_number bs = foldl (\<lambda>n b. n * 256 + unat b) 0 bs"

datatype direction = init_to_resp | resp_to_init

datatype session_role = initiator | responder

definition ownDirection :: "session_role \<Rightarrow> direction" where
  "ownDirection r = (case r of initiator \<Rightarrow> init_to_resp | responder \<Rightarrow> resp_to_init)"

definition peerDirection :: "session_role \<Rightarrow> direction" where
  "peerDirection r = (case r of initiator \<Rightarrow> resp_to_init | responder \<Rightarrow> init_to_resp)"

definition DIRECTION_BYTE :: "direction \<Rightarrow> byte" where
  "DIRECTION_BYTE d = (case d of init_to_resp \<Rightarrow> 1 | resp_to_init \<Rightarrow> 2)"

definition direction_text :: "direction \<Rightarrow> string" where
  "direction_text d = (case d of init_to_resp \<Rightarrow> ''init_to_resp'' | resp_to_init \<Rightarrow> ''resp_to_init'')"

definition computeKeyId :: "channel_crypto \<Rightarrow> bytes \<Rightarrow> nat \<Rightarrow> string" where
  "computeKeyId C directionKey generation =
     toHex (take 16 (cc_sha C (directionKey @ be_bytes 4 (generation div 2 ^ 32) @ be_bytes 4 (generation mod 2 ^ 32))))"

definition salt_byte :: "bytes \<Rightarrow> nat \<Rightarrow> byte" where
  "salt_byte salt i = (if i < length salt then salt ! i else 0)"

definition buildAeadNonce :: "direction \<Rightarrow> nat \<Rightarrow> bytes \<Rightarrow> bytes" where
  "buildAeadNonce d seq salt =
     DIRECTION_BYTE d # be_bytes 4 (seq div 2 ^ 32) @ be_bytes 4 (seq mod 2 ^ 32) @
     [salt_byte salt 0, salt_byte salt 1, salt_byte salt 2]"

record aad_fields =
  aad_envelopeId :: string
  aad_messageType :: string
  aad_summary :: "js_object option"

definition buildAeadBytes ::
  "channel_crypto \<Rightarrow> aad_fields \<Rightarrow> direction \<Rightarrow> string \<Rightarrow> nat \<Rightarrow> string \<Rightarrow> string option \<Rightarrow> crypto_error + string" where
  "buildAeadBytes C f d keyId seq sessionId tokenId =
     canonicalize (cc_jcs C)
       [(''aadSummary'', case aad_summary f of None \<Rightarrow> JNull | Some j \<Rightarrow> JObj j),
        (''direction'', JStr (direction_text d)),
        (''envelopeId'', JStr (aad_envelopeId f)),
        (''keyId'', JStr keyId),
        (''messageType'', JStr (aad_messageType f)),
        (''sequenceNumber'', JStr (dec_string seq)),
        (''sessionId'', JStr sessionId),
        (''tokenId'', case tokenId of None \<Rightarrow> JNull | Some t \<Rightarrow> JStr t)]"

record session_keys =
  sk_initToResp :: bytes
  sk_respToInit :: bytes
  sk_sessionSalt :: bytes
  sk_rekeyChainKey :: bytes

definition deriveSessionKeys :: "channel_crypto \<Rightarrow> bytes \<Rightarrow> bytes \<Rightarrow> session_keys" where
  "deriveSessionKeys C sharedSecret transcriptHash =
     (let prk = hkdf_extract C sharedSecret transcriptHash in
      \<lparr>sk_initToResp = hkdf_expand C prk INIT_TO_RESP_KEY 32, sk_respToInit = hkdf_expand C prk RESP_TO_INIT_KEY 32,
       sk_sessionSalt = hkdf_expand C prk SESSION_SALT 4, sk_rekeyChainKey = hkdf_expand C prk REKEY_CHAIN 32\<rparr>)"

text \<open>The traffic keys of the previous generation are arguments without influence.\<close>

definition deriveChainKeyRekeyKeys :: "channel_crypto \<Rightarrow> bytes \<Rightarrow> bytes \<Rightarrow> bytes \<Rightarrow> bytes \<times> bytes \<times> bytes" where
  "deriveChainKeyRekeyKeys C prevRekeyChainKey prevInitToResp prevRespToInit =
     (let prk = hkdf_extract C prevRekeyChainKey prevRekeyChainKey in
      (hkdf_expand C prk INIT_TO_RESP_KEY 32, hkdf_expand C prk RESP_TO_INIT_KEY 32, hkdf_expand C prk REKEY_CHAIN 32))"

subsection \<open>The handle of one generation\<close>

datatype channel_error =
  CH_SESSION_NOT_FOUND | CH_TOKEN_MISMATCH | CH_HANDLE_REVOKED | CH_REPLAY_DETECTED | CH_DECRYPTION_FAILED
| CH_INVALID_BODY | CH_REKEY_FAILED | CH_INTERNAL_ERROR | CH_CRYPTO crypto_error

datatype handle_state = H_ACTIVE | H_PENDING_REKEY | H_CLOSED | H_REVOKED

record handle =
  h_sessionId :: string
  h_generation :: nat
  h_role :: session_role
  h_tokenId :: "string option"
  h_state :: handle_state
  h_keys :: session_keys
  h_sequenceNumber :: nat
  h_zeroized :: bool

definition new_handle :: "string \<Rightarrow> nat \<Rightarrow> session_role \<Rightarrow> string option \<Rightarrow> session_keys \<Rightarrow> handle_state \<Rightarrow> handle" where
  "new_handle sid g r tok ks s =
     \<lparr>h_sessionId = sid, h_generation = g, h_role = r, h_tokenId = tok, h_state = s, h_keys = ks, h_sequenceNumber = 0, h_zeroized = False\<rparr>"

definition traffic_key :: "direction \<Rightarrow> handle \<Rightarrow> bytes" where
  "traffic_key d h = (case d of init_to_resp \<Rightarrow> sk_initToResp (h_keys h) | resp_to_init \<Rightarrow> sk_respToInit (h_keys h))"

definition h_keyId :: "channel_crypto \<Rightarrow> handle \<Rightarrow> string" where
  "h_keyId C h = computeKeyId C (traffic_key (ownDirection (h_role h)) h) (h_generation h)"

definition h_peerKeyId :: "channel_crypto \<Rightarrow> handle \<Rightarrow> string" where
  "h_peerKeyId C h = computeKeyId C (traffic_key (peerDirection (h_role h)) h) (h_generation h)"

definition h_usable :: "handle \<Rightarrow> bool" where
  "h_usable h = (h_state h \<noteq> H_CLOSED \<and> h_state h \<noteq> H_REVOKED)"

text \<open>The sequence number is advanced before the associated data are built, so also when that throws.\<close>

definition h_encrypt :: "channel_crypto \<Rightarrow> handle \<Rightarrow> aad_fields \<Rightarrow> bytes \<Rightarrow> (channel_error + bytes \<times> bytes \<times> string) \<times> handle" where
  "h_encrypt C h f plaintext =
     (if \<not> h_usable h then (Inl CH_HANDLE_REVOKED, h)
      else if h_tokenId h = None then (Inl CH_HANDLE_REVOKED, h)
      else
        (let d = ownDirection (h_role h); key = traffic_key d h; seq = h_sequenceNumber h;
             h' = h\<lparr>h_sequenceNumber := seq + 1\<rparr>; nonce = buildAeadNonce d seq (sk_sessionSalt (h_keys h)); keyId = h_keyId C h' in
         case buildAeadBytes C f d keyId seq (h_sessionId h) (h_tokenId h) of
           Inl e \<Rightarrow> (Inl (CH_CRYPTO e), h')
         | Inr aad \<Rightarrow> (Inr (gcm_seal C key nonce aad plaintext, nonce, keyId), h')))"

definition nonce_seq :: "bytes \<Rightarrow> nat" where
  "nonce_seq nonce = be_number (map (\<lambda>i. salt_byte nonce (i + 1)) [0..<8])"

definition h_decrypt :: "channel_crypto \<Rightarrow> handle \<Rightarrow> aad_fields \<Rightarrow> bytes \<Rightarrow> bytes \<Rightarrow> channel_error + bytes" where
  "h_decrypt C h f ciphertext nonce =
     (if \<not> h_usable h then Inl CH_HANDLE_REVOKED
      else
        (let d = peerDirection (h_role h); key = traffic_key d h in
         case buildAeadBytes C f d (h_peerKeyId C h) (nonce_seq nonce) (h_sessionId h) (h_tokenId h) of
           Inl e \<Rightarrow> Inl (CH_CRYPTO e)
         | Inr aad \<Rightarrow> (case gcm_open C key nonce aad ciphertext of None \<Rightarrow> Inl CH_DECRYPTION_FAILED | Some p \<Rightarrow> Inr p)))"

datatype rekey_mode = chain_key | full_handshake_required

text \<open>\<open>rekey\<close> only checks the state, in either mode.\<close>

definition h_rekey :: "handle \<Rightarrow> rekey_mode \<Rightarrow> channel_error + unit" where
  "h_rekey h mode =
     (if \<not> h_usable h then Inl CH_HANDLE_REVOKED
      else if h_state h = H_PENDING_REKEY then Inl CH_REKEY_FAILED
      else Inr ())"

definition h_zeroize :: "handle \<Rightarrow> handle" where
  "h_zeroize h =
     (if h_zeroized h then h
      else
        (let z = map (\<lambda>_. 0) in
         h\<lparr>h_keys := \<lparr>sk_initToResp = z (sk_initToResp (h_keys h)), sk_respToInit = z (sk_respToInit (h_keys h)),
                      sk_sessionSalt = z (sk_sessionSalt (h_keys h)), sk_rekeyChainKey = z (sk_rekeyChainKey (h_keys h))\<rparr>,
           h_zeroized := True, h_state := H_CLOSED\<rparr>))"

subsection \<open>The registry\<close>

record registry_entry =
  currentHandle :: handle
  previousHandle :: "handle option"
  dualKeyTimer :: bool

record new_session_data =
  nd_keys :: session_keys
  nd_generation :: nat

type_synonym registry = "(string, registry_entry) js_map"

definition createSession :: "string \<Rightarrow> session_role \<Rightarrow> string option \<Rightarrow> new_session_data \<Rightarrow> registry \<Rightarrow> (channel_error + unit) \<times> registry" where
  "createSession sid r tok nd reg =
     (case jm_get reg sid of
        Some _ \<Rightarrow> (Inl CH_INTERNAL_ERROR, reg)
      | None \<Rightarrow>
          (Inr (), jm_set reg sid
             \<lparr>currentHandle = new_handle sid (nd_generation nd) r tok (nd_keys nd) H_ACTIVE, previousHandle = None, dualKeyTimer = False\<rparr>))"

definition lookupHandle :: "string \<Rightarrow> registry \<Rightarrow> handle option" where
  "lookupHandle sid reg = map_option currentHandle (jm_get reg sid)"

definition lookupHandleForDecrypt :: "channel_crypto \<Rightarrow> string \<Rightarrow> string \<Rightarrow> registry \<Rightarrow> handle option" where
  "lookupHandleForDecrypt C sid keyId reg =
     (case jm_get reg sid of
        None \<Rightarrow> None
      | Some e \<Rightarrow>
          if h_peerKeyId C (currentHandle e) = keyId then Some (currentHandle e)
          else (case previousHandle e of
                  None \<Rightarrow> None
                | Some p \<Rightarrow> if h_peerKeyId C p = keyId then Some p else None))"

definition swapForDualKey :: "string \<Rightarrow> new_session_data \<Rightarrow> registry \<Rightarrow> (channel_error + unit) \<times> registry" where
  "swapForDualKey sid nd reg =
     (case jm_get reg sid of
        None \<Rightarrow> (Inl CH_INTERNAL_ERROR, reg)
      | Some e \<Rightarrow>
          (let old = currentHandle e in
           if h_state old = H_PENDING_REKEY then (Inr (), reg)
           else
             (Inr (), jm_set reg sid
                \<lparr>currentHandle = new_handle sid (nd_generation nd) (h_role old) (h_tokenId old) (nd_keys nd) H_PENDING_REKEY,
                 previousHandle = Some old, dualKeyTimer = True\<rparr>)))"

definition chain_generation :: "channel_crypto \<Rightarrow> handle \<Rightarrow> new_session_data" where
  "chain_generation C old =
     (case deriveChainKeyRekeyKeys C (sk_rekeyChainKey (h_keys old)) (sk_initToResp (h_keys old)) (sk_respToInit (h_keys old)) of
        (i2r, r2i, chain) \<Rightarrow>
          \<lparr>nd_keys = \<lparr>sk_initToResp = i2r, sk_respToInit = r2i, sk_sessionSalt = sk_sessionSalt (h_keys old), sk_rekeyChainKey = chain\<rparr>,
           nd_generation = h_generation old + 1\<rparr>)"

definition swapForDualKeyChainMode :: "channel_crypto \<Rightarrow> string \<Rightarrow> registry \<Rightarrow> (channel_error + unit) \<times> registry" where
  "swapForDualKeyChainMode C sid reg =
     (case jm_get reg sid of
        None \<Rightarrow> (Inl CH_INTERNAL_ERROR, reg)
      | Some e \<Rightarrow>
          if h_state (currentHandle e) = H_PENDING_REKEY then (Inr (), reg)
          else swapForDualKey sid (chain_generation C (currentHandle e)) reg)"

text \<open>The handles are zeroized before the entry is removed; nothing else refers to them.\<close>

definition closeSession :: "string \<Rightarrow> registry \<Rightarrow> registry" where
  "closeSession sid reg =
     (case jm_get reg sid of
        None \<Rightarrow> reg
      | Some e \<Rightarrow>
          jm_delete (jm_set reg sid
            \<lparr>currentHandle = h_zeroize (currentHandle e), previousHandle = map_option h_zeroize (previousHandle e), dualKeyTimer = False\<rparr>) sid)"

definition expireDualKeyWindow :: "string \<Rightarrow> registry \<Rightarrow> registry" where
  "expireDualKeyWindow sid reg =
     (case jm_get reg sid of
        None \<Rightarrow> reg
      | Some e \<Rightarrow>
          (let h = currentHandle e in
           jm_set reg sid
             \<lparr>currentHandle = (if h_state h = H_PENDING_REKEY then h\<lparr>h_state := H_ACTIVE\<rparr> else h), previousHandle = None, dualKeyTimer = False\<rparr>))"

subsection \<open>Encrypted bodies\<close>

datatype body_type = BUSINESS | RECEIPT

record encrypted_body =
  eb_type :: "body_type option"
  eb_ciphertext :: string
  eb_aeadNonce :: string
  eb_keyId :: string
  eb_aadSummary :: "js_object option"

text \<open>
  \<open>Buffer.from(s, 'base64url')\<close>: both alphabets are read, characters of neither are skipped, and a last
  character that fills no byte is dropped.
\<close>

definition url_char :: "char \<Rightarrow> char" where
  "url_char c = (if c = CHR ''+'' then CHR ''-'' else if c = CHR ''/'' then CHR ''_'' else c)"

definition buffer_base64 :: "string \<Rightarrow> bytes" where
  "buffer_base64 s = b64_groups (filter (\<lambda>c. c \<in> set BASE64URL_CHARS) (map url_char s))"

definition extractNonce :: "string \<Rightarrow> channel_error + bytes" where
  "extractNonce aeadNonce =
     (if length aeadNonce = 24 \<and> HEX_PATTERN aeadNonce then Inr (hex_pairs aeadNonce)
      else
        (let bin = buffer_base64 aeadNonce in
         if length bin \<noteq> 12 then Inl CH_INVALID_BODY else Inr bin))"

definition extractSequenceNumber :: "string \<Rightarrow> channel_error + nat \<times> byte" where
  "extractSequenceNumber aeadNonce =
     res_bind (extractNonce aeadNonce) (\<lambda>bs. Inr (nonce_seq bs, hd bs))"

definition decodeEncryptedField :: "string \<Rightarrow> bytes" where
  "decodeEncryptedField s = (if HEX_PATTERN s \<and> even (length s) then hex_pairs s else buffer_base64 s)"

definition replayKey :: "string \<Rightarrow> byte \<Rightarrow> string \<Rightarrow> string" where
  "replayKey sid b keyId = sid @ '':'' @ dec_string (unat b) @ '':'' @ keyId"

record channel =
  ch_registry :: registry
  ch_tracker :: "(string, nat) js_map"

definition encryptEnvelopeBody ::
  "channel_crypto \<Rightarrow> string \<Rightarrow> string \<Rightarrow> aad_fields \<Rightarrow> bytes \<Rightarrow> body_type \<Rightarrow> channel \<Rightarrow> (channel_error + encrypted_body) \<times> channel" where
  "encryptEnvelopeBody C sid tokenRef f plaintext bt ch =
     (case jm_get (ch_registry ch) sid of
        None \<Rightarrow> (Inl CH_SESSION_NOT_FOUND, ch)
      | Some e \<Rightarrow>
          if h_tokenId (currentHandle e) \<noteq> Some tokenRef then (Inl CH_TOKEN_MISMATCH, ch)
          else
            (case h_encrypt C (currentHandle e) f plaintext of
               (r, h') \<Rightarrow>
                 (case r of
                    Inl err \<Rightarrow> Inl err
                  | Inr (ciphertext, nonce, keyId) \<Rightarrow>
                      Inr \<lparr>eb_type = Some bt, eb_ciphertext = toHex ciphertext, eb_aeadNonce = toHex nonce, eb_keyId = keyId,
                           eb_aadSummary = aad_summary f\<rparr>,
                  ch\<lparr>ch_registry := jm_set (ch_registry ch) sid (e\<lparr>currentHandle := h'\<rparr>)\<rparr>)))"

definition track_max :: "(string, nat) js_map \<Rightarrow> string \<Rightarrow> nat \<Rightarrow> (string, nat) js_map" where
  "track_max m k seq = (case jm_get m k of None \<Rightarrow> jm_set m k seq | Some s \<Rightarrow> if s < seq then jm_set m k seq else m)"

definition decryptEnvelopeBody ::
  "channel_crypto \<Rightarrow> string \<Rightarrow> encrypted_body \<Rightarrow> aad_fields \<Rightarrow> string \<Rightarrow> channel \<Rightarrow> (channel_error + bytes) \<times> channel" where
  "decryptEnvelopeBody C sid body f tokenRef ch =
     (if eb_type body = None then (Inl CH_INVALID_BODY, ch)
      else
        (case extractSequenceNumber (eb_aeadNonce body) of
           Inl e \<Rightarrow> (Inl e, ch)
         | Inr (seq, directionByte) \<Rightarrow>
             (let rKey = replayKey sid directionByte (eb_keyId body); maxSeen = jm_get (ch_tracker ch) rKey in
              if (case maxSeen of None \<Rightarrow> False | Some m \<Rightarrow> seq \<le> m) then (Inl CH_REPLAY_DETECTED, ch)
              else
                (case lookupHandleForDecrypt C sid (eb_keyId body) (ch_registry ch) of
                   None \<Rightarrow> (Inl CH_DECRYPTION_FAILED, ch)
                 | Some h \<Rightarrow>
                     (case h_decrypt C h f (decodeEncryptedField (eb_ciphertext body)) (decodeEncryptedField (eb_aeadNonce body)) of
                        Inl e \<Rightarrow> (Inl e, ch)
                      | Inr plaintext \<Rightarrow>
                          if h_tokenId h \<noteq> Some tokenRef then (Inl CH_TOKEN_MISMATCH, ch)
                          else (Inr plaintext, ch\<lparr>ch_tracker := track_max (ch_tracker ch) rKey seq\<rparr>))))))"

subsection \<open>Calls in any order\<close>

datatype channel_call =
  Create string session_role "string option" new_session_data
| Encrypt string string aad_fields bytes body_type
| Decrypt string encrypted_body aad_fields string
| Swap string new_session_data
| SwapChain string
| TimerFires string
| Close string

text \<open>
  What a call shows outside: a generation of keys taken into use under its identifier, a sealed body, an
  opened body with its text. A timer fires only while it is armed.
\<close>

datatype channel_event =
  Installed string
| Sealed encrypted_body
| Opened string encrypted_body bytes

definition installed_now :: "channel_crypto \<Rightarrow> string \<Rightarrow> registry \<Rightarrow> registry \<Rightarrow> channel_event list" where
  "installed_now C sid reg reg' =
     (if reg' = reg then []
      else (case lookupHandle sid reg' of None \<Rightarrow> [] | Some h \<Rightarrow> [Installed (h_keyId C h)]))"

fun channel_step :: "channel_crypto \<Rightarrow> channel_call \<Rightarrow> channel \<Rightarrow> channel_event list \<times> channel" where
  "channel_step C (Create sid r tok nd) ch =
     (let reg' = snd (createSession sid r tok nd (ch_registry ch)) in
      (installed_now C sid (ch_registry ch) reg', ch\<lparr>ch_registry := reg'\<rparr>))"
| "channel_step C (Encrypt sid tok f p bt) ch =
     (case encryptEnvelopeBody C sid tok f p bt ch of
        (Inl _, ch') \<Rightarrow> ([], ch')
      | (Inr b, ch') \<Rightarrow> ([Sealed b], ch'))"
| "channel_step C (Decrypt sid b f tok) ch =
     (case decryptEnvelopeBody C sid b f tok ch of
        (Inl _, ch') \<Rightarrow> ([], ch')
      | (Inr p, ch') \<Rightarrow> ([Opened sid b p], ch'))"
| "channel_step C (Swap sid nd) ch =
     (let reg' = snd (swapForDualKey sid nd (ch_registry ch)) in
      (installed_now C sid (ch_registry ch) reg', ch\<lparr>ch_registry := reg'\<rparr>))"
| "channel_step C (SwapChain sid) ch =
     (let reg' = snd (swapForDualKeyChainMode C sid (ch_registry ch)) in
      (installed_now C sid (ch_registry ch) reg', ch\<lparr>ch_registry := reg'\<rparr>))"
| "channel_step C (TimerFires sid) ch =
     ([], ch\<lparr>ch_registry := (case jm_get (ch_registry ch) sid of
                              None \<Rightarrow> ch_registry ch
                            | Some e \<Rightarrow> if dualKeyTimer e then expireDualKeyWindow sid (ch_registry ch) else ch_registry ch)\<rparr>)"
| "channel_step C (Close sid) ch = ([], ch\<lparr>ch_registry := closeSession sid (ch_registry ch)\<rparr>)"

fun channel_run :: "channel_crypto \<Rightarrow> channel_call list \<Rightarrow> channel \<Rightarrow> channel_event list \<times> channel" where
  "channel_run C [] ch = ([], ch)"
| "channel_run C (c # cs) ch =
     (case channel_step C c ch of (es, ch1) \<Rightarrow> case channel_run C cs ch1 of (es', ch2) \<Rightarrow> (es @ es', ch2))"

definition fresh_channel :: channel where
  "fresh_channel = \<lparr>ch_registry = [], ch_tracker = []\<rparr>"

subsection \<open>Numbers in bytes\<close>

lemma be_bytes_length [simp]: "length (be_bytes k n) = k"
  by (induction k arbitrary: n) simp_all

lemma be_number_snoc: "be_number (bs @ [b]) = be_number bs * 256 + unat b"
  by (simp add: be_number_def)

lemma be_number_append: "be_number (as @ bs) = be_number as * 256 ^ length bs + be_number bs"
proof (induction bs rule: rev_induct)
  case (snoc b bs)
  have "be_number (as @ bs @ [b]) = be_number (as @ bs) * 256 + unat b" using be_number_snoc[of "as @ bs" b] by simp
  then show ?case by (simp add: snoc be_number_snoc algebra_simps)
qed (simp add: be_number_def)

lemma be_number_bytes: "be_number (be_bytes k n) = n mod 256 ^ k"
proof (induction k arbitrary: n)
  case (Suc k)
  have "unat (word_of_nat (n mod 256) :: byte) = n mod 256" by (simp add: unat_of_nat take_bit_eq_mod)
  then have "be_number (be_bytes (Suc k) n) = (n div 256 mod 256 ^ k) * 256 + n mod 256" by (simp add: Suc be_number_snoc)
  also have "\<dots> = n mod 256 ^ Suc k" using mod_mult2_eq[of n 256 "256 ^ k"] by (simp add: algebra_simps)
  finally show ?case .
qed (simp add: be_number_def)

text \<open>The sequence number is read back from the nonce, modulo \<open>2 ^ 64\<close>.\<close>

lemma nonce_length [simp]: "length (buildAeadNonce d seq salt) = 12"
  by (simp add: buildAeadNonce_def)

lemma nonce_seq_read: "nonce_seq (buildAeadNonce d seq salt) = seq mod 2 ^ 64"
proof -
  let ?n = "buildAeadNonce d seq salt" and ?m = "be_bytes 4 (seq div 2 ^ 32) @ be_bytes 4 (seq mod 2 ^ 32)"
  have "map (\<lambda>i. salt_byte ?n (i + 1)) [0..<8] = ?m"
  proof (rule nth_equalityI)
    fix i assume "i < length (map (\<lambda>i. salt_byte ?n (i + 1)) [0..<8])"
    then have i: "i < 8" by simp
    then have "i < 4 \<or> i - 4 < 4" by arith
    then have "?n ! (i + 1) = ?m ! i" using i by (auto simp: buildAeadNonce_def nth_append)
    then show "map (\<lambda>i. salt_byte ?n (i + 1)) [0..<8] ! i = ?m ! i" using i by (simp add: salt_byte_def)
  qed simp
  then have "nonce_seq ?n = seq div 2 ^ 32 mod 2 ^ 32 * 2 ^ 32 + seq mod 2 ^ 32"
    by (simp add: nonce_seq_def be_number_append be_number_bytes)
  also have "\<dots> = seq mod (2 ^ 32 * 2 ^ 32)" using mod_mult2_eq[of seq "2 ^ 32" "2 ^ 32"] by (simp add: algebra_simps)
  also have "\<dots> = seq mod 2 ^ 64" by simp
  finally show ?thesis .
qed

lemma nonce_inj: "m < 2 ^ 64 \<Longrightarrow> n < 2 ^ 64 \<Longrightarrow> toHex (buildAeadNonce d m salt) = toHex (buildAeadNonce d n salt) \<Longrightarrow> m = n"
  using nonce_seq_read[of d m salt] nonce_seq_read[of d n salt] unfolding toHex_inj by (metis mod_less)

lemma decode_toHex [simp]: "decodeEncryptedField (toHex bs) = bs"
proof (cases "bs = []")
  case False
  then show ?thesis by (simp add: decodeEncryptedField_def toHex_pattern length_toHex hex_pairs_toHex)
qed (simp add: decodeEncryptedField_def buffer_base64_def toHex_def HEX_PATTERN_def)

lemma extract_toHex: "length bs = 12 \<Longrightarrow> extractSequenceNumber (toHex bs) = Inr (nonce_seq bs, hd bs)"
  by (cases "bs = []") (auto simp: extractSequenceNumber_def extractNonce_def toHex_pattern length_toHex hex_pairs_toHex)

subsection \<open>The slots of a registry\<close>

text \<open>What matters for sealing: the identifier, role and salt of the current generation of a session, and its next sequence number.\<close>

definition slot :: "channel_crypto \<Rightarrow> handle \<Rightarrow> string \<times> session_role \<times> bytes \<times> nat" where
  "slot C h = (h_keyId C h, h_role h, sk_sessionSalt (h_keys h), h_sequenceNumber h)"

definition slots :: "channel_crypto \<Rightarrow> registry \<Rightarrow> string \<Rightarrow> (string \<times> session_role \<times> bytes \<times> nat) option" where
  "slots C reg sid = map_option (\<lambda>e. slot C (currentHandle e)) (jm_get reg sid)"

fun sealed_of :: "channel_event list \<Rightarrow> encrypted_body list" where
  "sealed_of [] = []"
| "sealed_of (Sealed b # es) = b # sealed_of es"
| "sealed_of (_ # es) = sealed_of es"

fun installed_of :: "channel_event list \<Rightarrow> string list" where
  "installed_of [] = []"
| "installed_of (Installed k # es) = k # installed_of es"
| "installed_of (_ # es) = installed_of es"

fun opened_of :: "channel_event list \<Rightarrow> (string \<times> encrypted_body) list" where
  "opened_of [] = []"
| "opened_of (Opened sid b p # es) = (sid, b) # opened_of es"
| "opened_of (_ # es) = opened_of es"

lemma events_append [simp]:
  "sealed_of (es @ es') = sealed_of es @ sealed_of es'" "installed_of (es @ es') = installed_of es @ installed_of es'"
  "opened_of (es @ es') = opened_of es @ opened_of es'"
  by (induction es rule: sealed_of.induct; simp)+

lemma slots_set [simp]: "slots C (jm_set reg sid e) = (slots C reg)(sid \<mapsto> slot C (currentHandle e))"
  by (rule ext) (simp add: slots_def jm_get_set)

lemma slots_delete: "slots C (jm_delete reg sid) = (slots C reg)(sid := None)"
  by (rule ext) (simp add: slots_def jm_get_delete)

lemma h_encrypt_slot:
  assumes "h_encrypt C h f p = (r, h')"
  shows "h' = h \<and> (\<exists>e. r = Inl e) \<or>
    h' = h\<lparr>h_sequenceNumber := h_sequenceNumber h + 1\<rparr> \<and> h_tokenId h \<noteq> None \<and>
      (\<forall>c n k. r = Inr (c, n, k) \<longrightarrow> k = h_keyId C h \<and> n = buildAeadNonce (ownDirection (h_role h)) (h_sequenceNumber h) (sk_sessionSalt (h_keys h)))"
  using assms by (auto simp: h_encrypt_def Let_def h_keyId_def traffic_key_def split: if_splits sum.splits direction.splits)

text \<open>
  One call leaves the slots alone, clears one, takes a fresh generation into use, or advances the number of
  one slot, sealing at most one body with it.
\<close>

inductive slot_step :: "(string \<Rightarrow> (string \<times> session_role \<times> bytes \<times> nat) option) \<Rightarrow> string list \<Rightarrow> encrypted_body list
    \<Rightarrow> (string \<Rightarrow> (string \<times> session_role \<times> bytes \<times> nat) option) \<Rightarrow> bool" where
  stay: "slot_step m [] [] m"
| clear: "slot_step m [] [] (m(sid := None))"
| install: "slot_step m [k] [] (m(sid \<mapsto> (k, r, salt, 0)))"
| advance: "m sid = Some (k, r, salt, n) \<Longrightarrow> bs = [] \<or> (\<exists>b. bs = [b] \<and> eb_keyId b = k \<and> eb_aeadNonce b = toHex (buildAeadNonce (ownDirection r) n salt))
    \<Longrightarrow> slot_step m [] bs (m(sid \<mapsto> (k, r, salt, n + 1)))"

lemma install_step:
  assumes "reg' = jm_set reg sid \<lparr>currentHandle = new_handle sid g r tok ks s, previousHandle = p, dualKeyTimer = t\<rparr>"
    and "reg' \<noteq> reg"
  shows "slot_step (slots C reg) (installed_of (installed_now C sid reg reg')) (sealed_of (installed_now C sid reg reg')) (slots C reg')"
proof -
  let ?h = "new_handle sid g r tok ks s"
  have "installed_now C sid reg reg' = [Installed (h_keyId C ?h)]"
    using assms by (simp add: installed_now_def lookupHandle_def jm_get_set)
  moreover have "slots C reg' = (slots C reg)(sid \<mapsto> (h_keyId C ?h, r, sk_sessionSalt ks, 0))"
    by (simp add: assms(1) slot_def new_handle_def)
  ultimately show ?thesis using slot_step.install by simp
qed

lemma quiet_step: "slot_step (slots C reg) (installed_of (installed_now C sid reg reg)) (sealed_of (installed_now C sid reg reg)) (slots C reg)"
  by (simp add: installed_now_def slot_step.stay)

lemma encrypt_step:
  assumes "encryptEnvelopeBody C sid tok f p bt ch = (r, ch')"
  shows "slot_step (slots C (ch_registry ch)) [] (case r of Inl _ \<Rightarrow> [] | Inr b \<Rightarrow> [b]) (slots C (ch_registry ch'))"
proof (cases "jm_get (ch_registry ch) sid")
  case None
  then show ?thesis using assms by (auto simp: encryptEnvelopeBody_def intro: slot_step.stay)
next
  case (Some e)
  let ?h = "currentHandle e"
  show ?thesis
  proof (cases "h_tokenId ?h = Some tok")
    case False
    then show ?thesis using assms Some by (auto simp: encryptEnvelopeBody_def intro: slot_step.stay)
  next
    case True
    obtain r1 h' where enc: "h_encrypt C ?h f p = (r1, h')" by fastforce
    have ch': "ch_registry ch' = jm_set (ch_registry ch) sid (e\<lparr>currentHandle := h'\<rparr>)"
      and r: "r = (case r1 of Inl err \<Rightarrow> Inl err | Inr (ciphertext, nonce, keyId) \<Rightarrow>
          Inr \<lparr>eb_type = Some bt, eb_ciphertext = toHex ciphertext, eb_aeadNonce = toHex nonce, eb_keyId = keyId, eb_aadSummary = aad_summary f\<rparr>)"
      using assms Some True enc by (auto simp: encryptEnvelopeBody_def)
    have here: "slots C (ch_registry ch) sid = Some (slot C ?h)" by (simp add: slots_def Some)
    from h_encrypt_slot[OF enc] show ?thesis
    proof (elim disjE conjE exE)
      fix err assume "h' = ?h" "r1 = Inl err"
      moreover have "(slots C (ch_registry ch))(sid \<mapsto> slot C ?h) = slots C (ch_registry ch)" using here by auto
      ultimately show ?thesis using ch' r by (simp add: slot_step.stay)
    next
      assume h': "h' = ?h\<lparr>h_sequenceNumber := h_sequenceNumber ?h + 1\<rparr>"
        and out: "\<forall>c n k. r1 = Inr (c, n, k) \<longrightarrow> k = h_keyId C ?h \<and> n = buildAeadNonce (ownDirection (h_role ?h)) (h_sequenceNumber ?h) (sk_sessionSalt (h_keys ?h))"
      have "slot C h' = (h_keyId C ?h, h_role ?h, sk_sessionSalt (h_keys ?h), h_sequenceNumber ?h + 1)"
        by (simp add: h' slot_def h_keyId_def traffic_key_def split: direction.splits)
      then have eq: "slots C (ch_registry ch') = (slots C (ch_registry ch))(sid \<mapsto> (h_keyId C ?h, h_role ?h, sk_sessionSalt (h_keys ?h), h_sequenceNumber ?h + 1))"
        by (simp add: ch')
      show ?thesis
        unfolding eq by (rule slot_step.advance) (use here out r in \<open>auto simp: slot_def split: sum.splits\<close>)
    qed
  qed
qed

lemma decrypt_keeps_registry: "ch_registry (snd (decryptEnvelopeBody C sid b f tok ch)) = ch_registry ch"
  by (simp add: decryptEnvelopeBody_def Let_def split: sum.splits option.splits prod.splits)

lemma swap_step:
  "slot_step (slots C reg) (installed_of (installed_now C sid reg (snd (swapForDualKey sid nd reg))))
    (sealed_of (installed_now C sid reg (snd (swapForDualKey sid nd reg)))) (slots C (snd (swapForDualKey sid nd reg)))"
proof (cases "jm_get reg sid")
  case None
  then show ?thesis by (simp add: swapForDualKey_def quiet_step)
next
  case (Some e)
  show ?thesis
  proof (cases "h_state (currentHandle e) = H_PENDING_REKEY")
    case True
    then show ?thesis using Some by (simp add: swapForDualKey_def Let_def quiet_step)
  next
    case False
    let ?e = "\<lparr>currentHandle = new_handle sid (nd_generation nd) (h_role (currentHandle e)) (h_tokenId (currentHandle e)) (nd_keys nd) H_PENDING_REKEY,
        previousHandle = Some (currentHandle e), dualKeyTimer = True\<rparr>"
    have "h_state (currentHandle ?e) \<noteq> h_state (currentHandle e)" using False by (simp add: new_handle_def)
    then have "?e \<noteq> e" by metis
    then have "jm_get (jm_set reg sid ?e) sid \<noteq> jm_get reg sid" using Some by (simp add: jm_get_set)
    then have ne: "jm_set reg sid ?e \<noteq> reg" by metis
    have "snd (swapForDualKey sid nd reg) = jm_set reg sid ?e" using Some False by (simp add: swapForDualKey_def Let_def)
    then show ?thesis using install_step[OF _ ne] by simp
  qed
qed

lemma channel_step_slots:
  assumes "channel_step C c ch = (es, ch')"
  shows "slot_step (slots C (ch_registry ch)) (installed_of es) (sealed_of es) (slots C (ch_registry ch'))"
proof (cases c)
  case (Create sid r tok nd)
  let ?reg = "ch_registry ch"
  show ?thesis
  proof (cases "jm_get ?reg sid")
    case None
    let ?e = "\<lparr>currentHandle = new_handle sid (nd_generation nd) r tok (nd_keys nd) H_ACTIVE, previousHandle = None, dualKeyTimer = False\<rparr>"
    have "jm_get (jm_set ?reg sid ?e) sid \<noteq> jm_get ?reg sid" using None by (simp add: jm_get_set)
    then have ne: "jm_set ?reg sid ?e \<noteq> ?reg" by metis
    show ?thesis using assms Create None install_step[OF _ ne] by (auto simp: createSession_def Let_def)
  next
    case (Some e)
    then show ?thesis using assms Create quiet_step[of C ?reg sid] by (auto simp: createSession_def Let_def)
  qed
next
  case (Encrypt sid tok f p bt)
  obtain r ch1 where "encryptEnvelopeBody C sid tok f p bt ch = (r, ch1)" by fastforce
  then show ?thesis using assms Encrypt encrypt_step[of C sid tok f p bt ch r ch1] by (cases r) auto
next
  case (Decrypt sid b f tok)
  obtain r ch1 where run: "decryptEnvelopeBody C sid b f tok ch = (r, ch1)" by fastforce
  then have "ch_registry ch1 = ch_registry ch" using decrypt_keeps_registry[of C sid b f tok ch] by simp
  then show ?thesis using assms Decrypt run by (cases r) (auto intro: slot_step.stay)
next
  case (Swap sid nd)
  then show ?thesis using assms swap_step by (auto simp: Let_def)
next
  case (SwapChain sid)
  let ?reg = "ch_registry ch"
  have "snd (swapForDualKeyChainMode C sid ?reg) = ?reg \<or> (\<exists>nd. snd (swapForDualKeyChainMode C sid ?reg) = snd (swapForDualKey sid nd ?reg))"
    by (auto simp: swapForDualKeyChainMode_def split: option.splits)
  then show ?thesis using assms SwapChain swap_step quiet_step[of C ?reg sid] by (auto simp: Let_def)
next
  case (TimerFires sid)
  let ?reg = "ch_registry ch"
  have "slots C (expireDualKeyWindow sid ?reg) = slots C ?reg"
  proof (cases "jm_get ?reg sid")
    case (Some e)
    have "slot C (currentHandle e\<lparr>h_state := H_ACTIVE\<rparr>) = slot C (currentHandle e)"
      by (simp add: slot_def h_keyId_def traffic_key_def split: direction.splits)
    then show ?thesis using Some by (auto simp: expireDualKeyWindow_def Let_def slots_def fun_eq_iff jm_get_set)
  qed (simp add: expireDualKeyWindow_def)
  then show ?thesis using assms TimerFires by (auto split: option.splits intro: slot_step.stay)
next
  case (Close sid)
  have "slots C (closeSession sid reg) = (slots C reg)(sid := None)" for reg
    by (auto simp: closeSession_def slots_delete slots_def fun_eq_iff jm_get_delete jm_get_set split: option.splits)
  then show ?thesis using assms Close by (auto intro: slot_step.clear)
qed

subsection \<open>Nonces\<close>

definition wire_nonce :: "encrypted_body \<Rightarrow> string \<times> string" where
  "wire_nonce b = (eb_keyId b, eb_aeadNonce b)"

text \<open>
  Every slot holds a generation of its own, and what was sealed under it has a smaller sequence number
  than its next one; \<open>n\<close> bounds the numbers.
\<close>

definition nonces_ok :: "string list \<Rightarrow> encrypted_body list \<Rightarrow> nat \<Rightarrow> (string \<Rightarrow> (string \<times> session_role \<times> bytes \<times> nat) option) \<Rightarrow> bool" where
  "nonces_ok ks bs n m =
     (distinct (map wire_nonce bs) \<and> eb_keyId ` set bs \<subseteq> set ks \<and>
      (\<forall>sid sid' k r r' salt salt' i i'. m sid = Some (k, r, salt, i) \<longrightarrow> m sid' = Some (k, r', salt', i') \<longrightarrow> sid = sid') \<and>
      (\<forall>sid k r salt i. m sid = Some (k, r, salt, i) \<longrightarrow>
         k \<in> set ks \<and> i \<le> n \<and>
         (\<forall>b \<in> set bs. eb_keyId b = k \<longrightarrow> (\<exists>j < i. eb_aeadNonce b = toHex (buildAeadNonce (ownDirection r) j salt)))))"

lemma nonces_okD:
  assumes "nonces_ok ks bs n m"
  shows "distinct (map wire_nonce bs)" "eb_keyId ` set bs \<subseteq> set ks"
    "m sid = Some (k, r, salt, i) \<Longrightarrow> m sid' = Some (k, r', salt', i') \<Longrightarrow> sid = sid'"
    "m sid = Some (k, r, salt, i) \<Longrightarrow> k \<in> set ks \<and> i \<le> n"
    "m sid = Some (k, r, salt, i) \<Longrightarrow> b \<in> set bs \<Longrightarrow> eb_keyId b = k \<Longrightarrow> \<exists>j < i. eb_aeadNonce b = toHex (buildAeadNonce (ownDirection r) j salt)"
proof -
  show "distinct (map wire_nonce bs)" "eb_keyId ` set bs \<subseteq> set ks" using assms by (simp_all add: nonces_ok_def)
  show "m sid = Some (k, r, salt, i) \<Longrightarrow> m sid' = Some (k, r', salt', i') \<Longrightarrow> sid = sid'" using assms unfolding nonces_ok_def by blast
  show "m sid = Some (k, r, salt, i) \<Longrightarrow> k \<in> set ks \<and> i \<le> n" using assms unfolding nonces_ok_def by blast
  show "m sid = Some (k, r, salt, i) \<Longrightarrow> b \<in> set bs \<Longrightarrow> eb_keyId b = k \<Longrightarrow> \<exists>j < i. eb_aeadNonce b = toHex (buildAeadNonce (ownDirection r) j salt)"
    using assms unfolding nonces_ok_def by blast
qed

lemma nonces_okI:
  assumes "distinct (map wire_nonce bs)" "eb_keyId ` set bs \<subseteq> set ks"
    and "\<And>sid sid' k r r' salt salt' i i'. m sid = Some (k, r, salt, i) \<Longrightarrow> m sid' = Some (k, r', salt', i') \<Longrightarrow> sid = sid'"
    and "\<And>sid k r salt i. m sid = Some (k, r, salt, i) \<Longrightarrow> k \<in> set ks \<and> i \<le> n"
    and "\<And>sid k r salt i b. m sid = Some (k, r, salt, i) \<Longrightarrow> b \<in> set bs \<Longrightarrow> eb_keyId b = k \<Longrightarrow>
      \<exists>j < i. eb_aeadNonce b = toHex (buildAeadNonce (ownDirection r) j salt)"
  shows "nonces_ok ks bs n m"
  using assms unfolding nonces_ok_def by meson

lemma nonces_ok_advance:
  assumes ok: "nonces_ok ks bs n m" and here: "m sid = Some (k, r, salt, i)" and n: "n < 2 ^ 64"
    and new: "new = [] \<or> (\<exists>b. new = [b] \<and> eb_keyId b = k \<and> eb_aeadNonce b = toHex (buildAeadNonce (ownDirection r) i salt))"
  shows "nonces_ok ks (bs @ new) (Suc n) (m(sid \<mapsto> (k, r, salt, i + 1)))"
proof (rule nonces_okI)
  note D = nonces_okD[OF ok]
  have k: "k \<in> set ks" "i \<le> n" using D(4)[OF here] by auto
  have other: "k' \<noteq> k" if "m s = Some (k', r', salt', i')" "s \<noteq> sid" for s k' r' salt' i' using D(3)[OF here] that by blast
  have fresh: "wire_nonce b' \<noteq> (k, toHex (buildAeadNonce (ownDirection r) i salt))" if b': "b' \<in> set bs" for b'
  proof
    assume w: "wire_nonce b' = (k, toHex (buildAeadNonce (ownDirection r) i salt))"
    then obtain j where "j < i" "toHex (buildAeadNonce (ownDirection r) j salt) = toHex (buildAeadNonce (ownDirection r) i salt)"
      using D(5)[OF here b'] by (auto simp: wire_nonce_def)
    then show False using nonce_inj[of j i "ownDirection r" salt] k(2) n by simp
  qed
  show "distinct (map wire_nonce (bs @ new))" using new D(1) fresh by (auto simp: wire_nonce_def)
  show "eb_keyId ` set (bs @ new) \<subseteq> set ks" using new D(2) k(1) by auto
  fix s k1 r1 salt1 i1
  assume s: "(m(sid \<mapsto> (k, r, salt, i + 1))) s = Some (k1, r1, salt1, i1)"
  show "k1 \<in> set ks \<and> i1 \<le> Suc n" using s k D(4)[of s k1 r1 salt1 i1] by (cases "s = sid") auto
  { fix s' r2 salt2 i2 assume "(m(sid \<mapsto> (k, r, salt, i + 1))) s' = Some (k1, r2, salt2, i2)"
    then show "s = s'"
      using s other[of s k1 r1 salt1 i1] other[of s' k1 r2 salt2 i2] D(3)[of s k1 r1 salt1 i1 s' r2 salt2 i2] by (cases "s = sid"; cases "s' = sid") auto }
  fix b assume b: "b \<in> set (bs @ new)" "eb_keyId b = k1"
  show "\<exists>j < i1. eb_aeadNonce b = toHex (buildAeadNonce (ownDirection r1) j salt1)"
  proof (cases "s = sid")
    case True
    then have eq: "k1 = k" "r1 = r" "salt1 = salt" "i1 = i + 1" using s by auto
    show ?thesis
    proof (cases "b \<in> set bs")
      case True
      then obtain j where "j < i" "eb_aeadNonce b = toHex (buildAeadNonce (ownDirection r) j salt)" using D(5)[OF here] b(2) eq(1) by blast
      then show ?thesis unfolding eq by (intro exI[of _ j]) simp
    next
      case False
      then have "eb_aeadNonce b = toHex (buildAeadNonce (ownDirection r) i salt)" using new b(1) by auto
      then show ?thesis unfolding eq by (intro exI[of _ i]) simp
    qed
  next
    case False
    then have m: "m s = Some (k1, r1, salt1, i1)" using s by simp
    then have "b \<in> set bs" using b new other[OF m False] by auto
    then show ?thesis using D(5)[OF m] b(2) by simp
  qed
qed

lemma nonces_ok_step:
  assumes step: "slot_step m new_ks new m'" and ok: "nonces_ok ks bs n m" and n: "n < 2 ^ 64" and fresh: "distinct (ks @ new_ks)"
  shows "nonces_ok (ks @ new_ks) (bs @ new) (Suc n) m'"
  using step
proof cases
  case stay
  have "nonces_ok ks bs (Suc n) m" using nonces_okD[OF ok] by (intro nonces_okI) (auto simp: le_SucI)
  then show ?thesis using stay by simp
next
  case (clear sid)
  have "nonces_ok ks bs (Suc n) (m(sid := None))"
    using nonces_okD[OF ok] by (intro nonces_okI) (auto simp: le_SucI split: if_splits)
  then show ?thesis using clear by simp
next
  case (install k sid r salt)
  note D = nonces_okD[OF ok]
  have k: "k \<notin> set ks" using fresh install by simp
  have away: "k' \<noteq> k" if "m s = Some (k', r', salt', i')" for s k' r' salt' i' using D(4)[OF that] k by auto
  have unused: "b \<in> set bs \<Longrightarrow> eb_keyId b \<noteq> k" for b using D(2) k by auto
  have "nonces_ok (ks @ [k]) bs (Suc n) (m(sid \<mapsto> (k, r, salt, 0)))"
  proof (rule nonces_okI)
    show "distinct (map wire_nonce bs)" "eb_keyId ` set bs \<subseteq> set (ks @ [k])" using D(1,2) by auto
    fix s k1 r1 salt1 i1
    assume s: "(m(sid \<mapsto> (k, r, salt, 0))) s = Some (k1, r1, salt1, i1)"
    show "k1 \<in> set (ks @ [k]) \<and> i1 \<le> Suc n" using s D(4)[of s k1 r1 salt1 i1] by (cases "s = sid") auto
    { fix s' r2 salt2 i2 assume "(m(sid \<mapsto> (k, r, salt, 0))) s' = Some (k1, r2, salt2, i2)"
      then show "s = s'"
        using s away[of s k1 r1 salt1 i1] away[of s' k1 r2 salt2 i2] D(3)[of s k1 r1 salt1 i1 s' r2 salt2 i2] by (cases "s = sid"; cases "s' = sid") auto }
    fix b assume "b \<in> set bs" "eb_keyId b = k1"
    then show "\<exists>j < i1. eb_aeadNonce b = toHex (buildAeadNonce (ownDirection r1) j salt1)"
      using s unused D(5)[of s k1 r1 salt1 i1 b] by (cases "s = sid") auto
  qed
  then show ?thesis using install by simp
next
  case (advance sid k r salt i)
  then show ?thesis using nonces_ok_advance[OF ok _ n] by simp
qed

lemma channel_run_nonces:
  "nonces_ok ks bs n (slots C (ch_registry ch)) \<Longrightarrow> n + length calls \<le> 2 ^ 64 \<Longrightarrow> channel_run C calls ch = (es, ch') \<Longrightarrow>
   distinct (ks @ installed_of es) \<Longrightarrow> distinct (map wire_nonce (bs @ sealed_of es))"
proof (induction calls arbitrary: ks bs n ch es)
  case Nil
  then show ?case using nonces_okD(1) by auto
next
  case (Cons c calls)
  obtain es1 ch1 where s: "channel_step C c ch = (es1, ch1)" by fastforce
  obtain es2 where r: "channel_run C calls ch1 = (es2, ch')" "es = es1 @ es2" using Cons.prems(3) s by (auto split: prod.splits)
  have "nonces_ok (ks @ installed_of es1) (bs @ sealed_of es1) (Suc n) (slots C (ch_registry ch1))"
    by (rule nonces_ok_step[OF channel_step_slots[OF s] Cons.prems(1)]) (use Cons.prems(2,4) r in auto)
  from Cons.IH[OF this _ r(1)] show ?case using Cons.prems(2,4) r(2) by simp
qed

subsection \<open>Replays\<close>

interpretation rt: watermark_store "jm_get :: (string, nat) js_map \<Rightarrow> _" track_max
  by unfold_locales (auto simp: track_max_def jm_get_set max_def split: option.splits)

text \<open>The place of an opened body in its stream: session, direction byte, key identifier, and its number there.\<close>

definition stream_of :: "string \<times> encrypted_body \<Rightarrow> string" where
  "stream_of = (\<lambda>(sid, b). case extractSequenceNumber (eb_aeadNonce b) of Inl _ \<Rightarrow> [] | Inr (seq, d) \<Rightarrow> replayKey sid d (eb_keyId b))"

definition number_of :: "string \<times> encrypted_body \<Rightarrow> nat" where
  "number_of = (\<lambda>(sid, b). case extractSequenceNumber (eb_aeadNonce b) of Inl _ \<Rightarrow> 0 | Inr (seq, d) \<Rightarrow> seq)"

lemma decrypt_cases:
  assumes "decryptEnvelopeBody C sid b f tok ch = (r, ch')"
  obtains (refused) e where "r = Inl e" "ch' = ch"
  | (opened) p h where "r = Inr p" "ch' = ch\<lparr>ch_tracker := track_max (ch_tracker ch) (stream_of (sid, b)) (number_of (sid, b))\<rparr>"
      "\<And>m. jm_get (ch_tracker ch) (stream_of (sid, b)) = Some m \<Longrightarrow> m < number_of (sid, b)"
      "lookupHandleForDecrypt C sid (eb_keyId b) (ch_registry ch) = Some h" "h_tokenId h = Some tok"
      "h_decrypt C h f (decodeEncryptedField (eb_ciphertext b)) (decodeEncryptedField (eb_aeadNonce b)) = Inr p"
proof (cases r)
  case (Inl e)
  have "ch' = ch" using assms Inl by (auto simp: decryptEnvelopeBody_def Let_def split: sum.splits option.splits if_splits prod.splits)
  then show ?thesis using refused Inl by blast
next
  case (Inr p)
  obtain seq d where x: "extractSequenceNumber (eb_aeadNonce b) = Inr (seq, d)"
    using assms Inr by (auto simp: decryptEnvelopeBody_def split: sum.splits if_splits prod.splits)
  have s: "stream_of (sid, b) = replayKey sid d (eb_keyId b)" "number_of (sid, b) = seq" by (simp_all add: stream_of_def number_of_def x)
  have "(case jm_get (ch_tracker ch) (replayKey sid d (eb_keyId b)) of None \<Rightarrow> False | Some m \<Rightarrow> seq \<le> m) = False"
    using assms Inr x by (auto simp: decryptEnvelopeBody_def Let_def split: if_splits)
  moreover obtain h where "lookupHandleForDecrypt C sid (eb_keyId b) (ch_registry ch) = Some h" "h_tokenId h = Some tok"
      "h_decrypt C h f (decodeEncryptedField (eb_ciphertext b)) (decodeEncryptedField (eb_aeadNonce b)) = Inr p"
      "ch' = ch\<lparr>ch_tracker := track_max (ch_tracker ch) (replayKey sid d (eb_keyId b)) seq\<rparr>"
    using assms Inr x by (auto simp: decryptEnvelopeBody_def Let_def split: if_splits option.splits sum.splits)
  ultimately show ?thesis using opened[of p h] Inr s by (auto split: option.splits)
qed

lemma step_tracker:
  assumes "channel_step C c ch = (es, ch')"
  shows "opened_of es = [] \<and> ch_tracker ch' = ch_tracker ch \<or>
    (\<exists>o1. opened_of es = [o1] \<and> ch_tracker ch' = track_max (ch_tracker ch) (stream_of o1) (number_of o1) \<and>
      (\<forall>m. jm_get (ch_tracker ch) (stream_of o1) = Some m \<longrightarrow> m < number_of o1))"
proof (cases c)
  case (Decrypt sid b f tok)
  obtain r ch1 where run: "decryptEnvelopeBody C sid b f tok ch = (r, ch1)" by fastforce
  from run show ?thesis
  proof (cases rule: decrypt_cases)
    case (refused e)
    then show ?thesis using assms Decrypt run by auto
  next
    case (opened p h)
    then show ?thesis using assms Decrypt run by (auto intro!: exI[of _ "(sid, b)"])
  qed
next
  case (Encrypt sid tok f p bt)
  obtain r ch1 where run: "encryptEnvelopeBody C sid tok f p bt ch = (r, ch1)" by fastforce
  then have "ch_tracker ch1 = ch_tracker ch" by (auto simp: encryptEnvelopeBody_def split: option.splits if_splits prod.splits)
  then show ?thesis using assms Encrypt run by (cases r) auto
qed (use assms in \<open>auto simp: Let_def installed_now_def split: option.splits if_splits\<close>)

lemma run_opened_later:
  "channel_run C calls ch = (es, ch') \<Longrightarrow> x \<in> set (opened_of es) \<Longrightarrow> jm_get (ch_tracker ch) (stream_of x) = Some m \<Longrightarrow> m < number_of x"
proof (induction calls arbitrary: ch es m)
  case (Cons c calls)
  obtain es1 ch1 where s: "channel_step C c ch = (es1, ch1)" by fastforce
  obtain es2 where r: "channel_run C calls ch1 = (es2, ch')" "es = es1 @ es2" using Cons.prems(1) s by (auto split: prod.splits)
  from step_tracker[OF s] show ?case
  proof (elim disjE exE conjE)
    assume "opened_of es1 = []" "ch_tracker ch1 = ch_tracker ch"
    then show ?case using Cons.IH[OF r(1)] Cons.prems(2,3) r(2) by simp
  next
    fix o1 assume o1: "opened_of es1 = [o1]" "ch_tracker ch1 = track_max (ch_tracker ch) (stream_of o1) (number_of o1)"
      "\<forall>m. jm_get (ch_tracker ch) (stream_of o1) = Some m \<longrightarrow> m < number_of o1"
    show ?case
    proof (cases "x = o1")
      case True
      then show ?thesis using o1(3) Cons.prems(3) by blast
    next
      case False
      then have x: "x \<in> set (opened_of es2)" using Cons.prems(2) r(2) o1(1) by simp
      obtain u where "jm_get (ch_tracker ch1) (stream_of x) = Some u" "m \<le> u"
        using rt.put_keeps[OF Cons.prems(3), of "stream_of o1" "number_of o1"] o1(2) by metis
      then show ?thesis using Cons.IH[OF r(1) x] by fastforce
    qed
  qed
qed simp

lemma run_opened_sorted:
  "channel_run C calls ch = (es, ch') \<Longrightarrow> sorted_wrt (\<lambda>x y. stream_of x = stream_of y \<longrightarrow> number_of x < number_of y) (opened_of es)"
proof (induction calls arbitrary: ch es)
  case (Cons c calls)
  obtain es1 ch1 where s: "channel_step C c ch = (es1, ch1)" by fastforce
  obtain es2 where r: "channel_run C calls ch1 = (es2, ch')" "es = es1 @ es2" using Cons.prems s by (auto split: prod.splits)
  note rest = Cons.IH[OF r(1)]
  from step_tracker[OF s] show ?case
  proof (elim disjE exE conjE)
    assume "opened_of es1 = []"
    then show ?case using rest r(2) by simp
  next
    fix o1 assume o1: "opened_of es1 = [o1]" "ch_tracker ch1 = track_max (ch_tracker ch) (stream_of o1) (number_of o1)"
    obtain u where u: "jm_get (ch_tracker ch1) (stream_of o1) = Some u" "number_of o1 \<le> u"
      using rt.put_reaches[of "ch_tracker ch" "stream_of o1" "number_of o1"] o1(2) by metis
    have "number_of o1 < number_of y" if "y \<in> set (opened_of es2)" "stream_of o1 = stream_of y" for y
      using run_opened_later[OF r(1) that(1)] u that(2) by (metis le_less_trans)
    then show ?case using rest r(2) o1(1) by simp
  qed
qed simp

subsection \<open>Both ends\<close>

text \<open>The law of the cipher: what was sealed opens to the same text.\<close>

definition aead_opens :: "channel_crypto \<Rightarrow> bool" where
  "aead_opens C = (\<forall>k n a p. gcm_open C k n a (gcm_seal C k n a p) = Some p)"

definition mirrors :: "handle \<Rightarrow> handle \<Rightarrow> bool" where
  "mirrors h g =
     (h_sessionId g = h_sessionId h \<and> h_generation g = h_generation h \<and> h_tokenId g = h_tokenId h \<and> h_keys g = h_keys h \<and>
      peerDirection (h_role g) = ownDirection (h_role h))"

definition printable_aad :: "aad_fields \<Rightarrow> bool" where
  "printable_aad f = (case aad_summary f of None \<Rightarrow> True | Some j \<Rightarrow> assertSerializable (JObj j))"

lemma aad_printed: "printable_aad f \<Longrightarrow> \<exists>a. buildAeadBytes C f d k s sid tok = Inr a"
  by (auto simp: buildAeadBytes_def canonicalize_def printable_aad_def split: option.splits)

lemma mirrors_key: "mirrors h g \<Longrightarrow> h_peerKeyId C g = h_keyId C h"
  by (simp add: mirrors_def h_peerKeyId_def h_keyId_def traffic_key_def split: direction.splits)

lemma h_encrypt_ok:
  assumes "printable_aad f" "h_usable h" "h_tokenId h \<noteq> None"
  obtains c where "h_encrypt C h f p =
    (Inr (c, buildAeadNonce (ownDirection (h_role h)) (h_sequenceNumber h) (sk_sessionSalt (h_keys h)), h_keyId C h), h\<lparr>h_sequenceNumber := h_sequenceNumber h + 1\<rparr>)"
  using assms aad_printed[OF assms(1), of C "ownDirection (h_role h)" "h_keyId C h" "h_sequenceNumber h" "h_sessionId h" "h_tokenId h"]
  by (auto simp: h_encrypt_def Let_def h_keyId_def traffic_key_def split: direction.splits)

lemma sealed_opens:
  assumes law: "aead_opens C" and m: "mirrors h g" "h_usable g" and n: "h_sequenceNumber h < 2 ^ 64"
    and enc: "h_encrypt C h f p = (Inr (c, nonce, k), h')"
  shows "h_decrypt C g f c nonce = Inr p" "k = h_peerKeyId C g"
proof -
  let ?d = "ownDirection (h_role h)"
  have nonce: "nonce = buildAeadNonce ?d (h_sequenceNumber h) (sk_sessionSalt (h_keys h))" and k: "k = h_keyId C h"
    using h_encrypt_slot[OF enc] by auto
  have same: "h_keyId C (h\<lparr>h_sequenceNumber := i\<rparr>) = h_keyId C h" for i by (simp add: h_keyId_def traffic_key_def split: direction.splits)
  obtain a where a: "buildAeadBytes C f ?d k (h_sequenceNumber h) (h_sessionId h) (h_tokenId h) = Inr a" "c = gcm_seal C (traffic_key ?d h) nonce a p"
    using enc k nonce same by (auto simp: h_encrypt_def Let_def split: if_splits sum.splits)
  have "nonce_seq nonce = h_sequenceNumber h" using n by (simp add: nonce nonce_seq_read)
  moreover have "traffic_key ?d g = traffic_key ?d h" using m(1) by (simp add: mirrors_def traffic_key_def split: direction.splits)
  ultimately show "h_decrypt C g f c nonce = Inr p"
    using a m mirrors_key[OF m(1), of C] k law by (simp add: h_decrypt_def mirrors_def aead_opens_def Let_def)
  show "k = h_peerKeyId C g" using mirrors_key[OF m(1), of C] k by simp
qed

record message =
  msg_aad :: aad_fields
  msg_text :: bytes
  msg_type :: body_type

fun send_all :: "channel_crypto \<Rightarrow> string \<Rightarrow> string \<Rightarrow> message list \<Rightarrow> channel \<Rightarrow> (channel_error + encrypted_body) list" where
  "send_all C sid tok [] ch = []"
| "send_all C sid tok (m # ms) ch =
     (case encryptEnvelopeBody C sid tok (msg_aad m) (msg_text m) (msg_type m) ch of (r, ch1) \<Rightarrow> r # send_all C sid tok ms ch1)"

fun receive_all :: "channel_crypto \<Rightarrow> string \<Rightarrow> string \<Rightarrow> (aad_fields \<times> encrypted_body) list \<Rightarrow> channel \<Rightarrow> (channel_error + bytes) list" where
  "receive_all C sid tok [] ch = []"
| "receive_all C sid tok ((f, b) # bs) ch =
     (case decryptEnvelopeBody C sid b f tok ch of (r, ch1) \<Rightarrow> r # receive_all C sid tok bs ch1)"

lemma encrypt_body_ok:
  assumes "jm_get (ch_registry ch) sid = Some e" "h_tokenId (currentHandle e) = Some tok"
    and "h_encrypt C (currentHandle e) f p = (Inr (c, nonce, k), h')"
  shows "encryptEnvelopeBody C sid tok f p bt ch =
    (Inr \<lparr>eb_type = Some bt, eb_ciphertext = toHex c, eb_aeadNonce = toHex nonce, eb_keyId = k, eb_aadSummary = aad_summary f\<rparr>,
     ch\<lparr>ch_registry := jm_set (ch_registry ch) sid (e\<lparr>currentHandle := h'\<rparr>)\<rparr>)"
  using assms by (simp add: encryptEnvelopeBody_def)

lemma decrypt_body_ok:
  assumes body: "b = \<lparr>eb_type = Some bt, eb_ciphertext = toHex c, eb_aeadNonce = toHex nonce, eb_keyId = k, eb_aadSummary = s\<rparr>" "length nonce = 12"
    and h: "lookupHandleForDecrypt C sid k (ch_registry ch) = Some g" "h_tokenId g = Some tok" "h_decrypt C g f c nonce = Inr p"
    and seen: "\<And>m. jm_get (ch_tracker ch) (replayKey sid (hd nonce) k) = Some m \<Longrightarrow> m < nonce_seq nonce"
  shows "decryptEnvelopeBody C sid b f tok ch =
    (Inr p, ch\<lparr>ch_tracker := track_max (ch_tracker ch) (replayKey sid (hd nonce) k) (nonce_seq nonce)\<rparr>)"
proof -
  have "(case jm_get (ch_tracker ch) (replayKey sid (hd nonce) k) of None \<Rightarrow> False | Some m \<Rightarrow> nonce_seq nonce \<le> m) = False"
    using seen by (auto split: option.splits)
  then show ?thesis using h by (simp add: decryptEnvelopeBody_def body(1) extract_toHex[OF body(2)] Let_def)
qed

lemma messages_delivered:
  assumes law: "aead_opens C"
    and A: "jm_get (ch_registry a) sid = Some ea" "h_tokenId (currentHandle ea) = Some tok" "h_usable (currentHandle ea)"
    and B: "jm_get (ch_registry b) sid = Some eb" "h_usable (currentHandle eb)"
    and m: "mirrors (currentHandle ea) (currentHandle eb)"
    and n: "h_sequenceNumber (currentHandle ea) + length ms \<le> 2 ^ 64"
    and seen: "\<And>x. jm_get (ch_tracker b) (replayKey sid (DIRECTION_BYTE (ownDirection (h_role (currentHandle ea)))) (h_keyId C (currentHandle ea))) = Some x
      \<Longrightarrow> x < h_sequenceNumber (currentHandle ea)"
    and ok: "list_all (\<lambda>m. printable_aad (msg_aad m)) ms"
  shows "\<exists>bs. send_all C sid tok ms a = map Inr bs \<and> receive_all C sid tok (zip (map msg_aad ms) bs) b = map (\<lambda>m. Inr (msg_text m)) ms"
  using A B m n seen ok
proof (induction ms arbitrary: a ea b)
  case (Cons x ms)
  let ?h = "currentHandle ea" and ?g = "currentHandle eb"
  let ?nonce = "buildAeadNonce (ownDirection (h_role ?h)) (h_sequenceNumber ?h) (sk_sessionSalt (h_keys ?h))"
  have n: "h_sequenceNumber ?h < 2 ^ 64" using Cons.prems(7) by simp
  obtain c where enc: "h_encrypt C ?h (msg_aad x) (msg_text x) = (Inr (c, ?nonce, h_keyId C ?h), ?h\<lparr>h_sequenceNumber := h_sequenceNumber ?h + 1\<rparr>)"
    using h_encrypt_ok[of "msg_aad x" ?h C "msg_text x"] Cons.prems(2,3,9) by auto
  let ?body = "\<lparr>eb_type = Some (msg_type x), eb_ciphertext = toHex c, eb_aeadNonce = toHex ?nonce, eb_keyId = h_keyId C ?h, eb_aadSummary = aad_summary (msg_aad x)\<rparr>"
  let ?h' = "?h\<lparr>h_sequenceNumber := h_sequenceNumber ?h + 1\<rparr>"
  let ?a = "a\<lparr>ch_registry := jm_set (ch_registry a) sid (ea\<lparr>currentHandle := ?h'\<rparr>)\<rparr>"
  note opens = sealed_opens[OF law Cons.prems(6,5) n enc]
  have key: "replayKey sid (hd ?nonce) (h_keyId C ?h) = replayKey sid (DIRECTION_BYTE (ownDirection (h_role ?h))) (h_keyId C ?h)"
    by (simp add: buildAeadNonce_def)
  have seq: "nonce_seq ?nonce = h_sequenceNumber ?h" using n by (simp add: nonce_seq_read)
  let ?b = "b\<lparr>ch_tracker := track_max (ch_tracker b) (replayKey sid (hd ?nonce) (h_keyId C ?h)) (nonce_seq ?nonce)\<rparr>"
  have e1: "encryptEnvelopeBody C sid tok (msg_aad x) (msg_text x) (msg_type x) a = (Inr ?body, ?a)"
    using encrypt_body_ok[OF Cons.prems(1,2) enc] .
  have d1: "decryptEnvelopeBody C sid ?body (msg_aad x) tok b = (Inr (msg_text x), ?b)"
  proof (rule decrypt_body_ok[OF refl nonce_length])
    show "lookupHandleForDecrypt C sid (h_keyId C ?h) (ch_registry b) = Some ?g" using Cons.prems(4) opens(2) by (simp add: lookupHandleForDecrypt_def)
    show "h_tokenId ?g = Some tok" using Cons.prems(2,6) by (simp add: mirrors_def)
    show "h_decrypt C ?g (msg_aad x) c ?nonce = Inr (msg_text x)" by (rule opens(1))
    show "m < nonce_seq ?nonce" if "jm_get (ch_tracker b) (replayKey sid (hd ?nonce) (h_keyId C ?h)) = Some m" for m
      using Cons.prems(8)[of m] that by (simp add: key seq)
  qed
  have keep: "h_keyId C ?h' = h_keyId C ?h" "mirrors ?h' ?g" using Cons.prems(6)
    by (simp_all add: h_keyId_def traffic_key_def mirrors_def split: direction.splits)
  have seen': "u < h_sequenceNumber ?h'"
    if "jm_get (ch_tracker ?b) (replayKey sid (DIRECTION_BYTE (ownDirection (h_role ?h'))) (h_keyId C ?h')) = Some u" for u
  proof -
    have "jm_get (ch_tracker ?b) (replayKey sid (hd ?nonce) (h_keyId C ?h)) = Some u" using that keep(1) key by simp
    then show ?thesis using Cons.prems(8) key seq by (auto simp: rt.get_put less_Suc_eq split: option.splits)
  qed
  have "\<exists>bs. send_all C sid tok ms ?a = map Inr bs \<and> receive_all C sid tok (zip (map msg_aad ms) bs) ?b = map (\<lambda>m. Inr (msg_text m)) ms"
    by (rule Cons.IH[of ?a "ea\<lparr>currentHandle := ?h'\<rparr>" ?b])
      (use Cons.prems keep(2) seen' in \<open>auto simp: jm_get_set h_usable_def\<close>)
  then obtain bs where "send_all C sid tok ms ?a = map Inr bs" "receive_all C sid tok (zip (map msg_aad ms) bs) ?b = map (\<lambda>m. Inr (msg_text m)) ms" by blast
  then show ?case using e1 d1 by (intro exI[of _ "?body # bs"]) simp
qed simp

subsection \<open>Properties\<close>

text \<open>
  C20 (safety). Whatever sessions are created, rekeyed, expired and closed in between, no two encrypted bodies
  carry the same nonce under the same key identifier, as long as every generation of keys taken into use
  has an identifier of its own and there are at most \<open>2 ^ 64\<close> calls.
\<close>

theorem nonces_never_repeat:
  assumes "distinct (installed_of (fst (channel_run C calls fresh_channel)))" "length calls \<le> 2 ^ 64"
  shows "distinct (map wire_nonce (sealed_of (fst (channel_run C calls fresh_channel))))"
proof -
  have "nonces_ok [] [] 0 (slots C (ch_registry fresh_channel))" by (simp add: nonces_ok_def slots_def fresh_channel_def jm.get_empty)
  from channel_run_nonces[OF this] show ?thesis using assms by (cases "channel_run C calls fresh_channel") simp
qed

definition demo_crypto :: channel_crypto where
  "demo_crypto = \<lparr>cc_sha = take 16, cc_jcs = (\<lambda>j. ''aad''), gcm_seal = (\<lambda>k n a p. p), gcm_open = (\<lambda>k n a c. Some c),
     hkdf_extract = (\<lambda>s t. s), hkdf_expand = (\<lambda>k l n. map (\<lambda>b. b + 1) k)\<rparr>"

definition demo_session :: new_session_data where
  "demo_session = \<lparr>nd_keys = \<lparr>sk_initToResp = [1], sk_respToInit = [2], sk_sessionSalt = [7, 7, 7, 7], sk_rekeyChainKey = [3]\<rparr>, nd_generation = 0\<rparr>"

definition demo_aad :: aad_fields where
  "demo_aad = \<lparr>aad_envelopeId = ''e1'', aad_messageType = ''BUSINESS'', aad_summary = None\<rparr>"

definition demo_talk :: "channel_call list" where
  "demo_talk = [Create ''s'' initiator (Some ''t'') demo_session, Encrypt ''s'' ''t'' demo_aad [9] BUSINESS, Encrypt ''s'' ''t'' demo_aad [9] BUSINESS,
     SwapChain ''s'', Encrypt ''s'' ''t'' demo_aad [9] BUSINESS]"

lemma demo_talk_events:
  "installed_of (fst (channel_run demo_crypto demo_talk fresh_channel)) = [computeKeyId demo_crypto [1] 0, computeKeyId demo_crypto [4] 1]"
  by (simp add: demo_talk_def fresh_channel_def createSession_def jm_get_def Let_def installed_now_def lookupHandle_def encryptEnvelopeBody_def
      new_handle_def demo_session_def h_encrypt_def h_usable_def buildAeadBytes_def canonicalize_def demo_aad_def
      swapForDualKeyChainMode_def swapForDualKey_def chain_generation_def deriveChainKeyRekeyKeys_def h_keyId_def traffic_key_def ownDirection_def
      demo_crypto_def)

lemma demo_keys_differ: "computeKeyId demo_crypto [1] 0 \<noteq> computeKeyId demo_crypto [4] 1"
  by (simp add: computeKeyId_def toHex_inj demo_crypto_def)

theorem nonces_never_repeat_witness: "distinct (map wire_nonce (sealed_of (fst (channel_run demo_crypto demo_talk fresh_channel))))"
  by (rule nonces_never_repeat, unfold demo_talk_events) (use demo_keys_differ in \<open>simp, simp add: demo_talk_def\<close>)

text \<open>
  C21 (safety). However calls follow each other, a body is opened at most once: the bodies opened in one
  session under one key identifier and direction byte have increasing sequence numbers.
\<close>

theorem bodies_opened_once:
  "sorted_wrt (\<lambda>x y. stream_of x = stream_of y \<longrightarrow> number_of x < number_of y) (opened_of (fst (channel_run C calls ch))) \<and>
   distinct (opened_of (fst (channel_run C calls ch)))"
proof -
  have s: "sorted_wrt (\<lambda>x y. stream_of x = stream_of y \<longrightarrow> number_of x < number_of y) (opened_of (fst (channel_run C calls ch)))"
    using run_opened_sorted[of C calls ch] by (cases "channel_run C calls ch") simp
  moreover have "distinct xs" if "sorted_wrt (\<lambda>x y. stream_of x = stream_of y \<longrightarrow> number_of x < number_of y) xs" for xs
    using that by (induction xs) auto
  ultimately show ?thesis by blast
qed

theorem bodies_opened_once_witness:
  "distinct (opened_of (fst (channel_run demo_crypto
     [Create ''s'' responder (Some ''t'') demo_session,
      Decrypt ''s'' \<lparr>eb_type = Some BUSINESS, eb_ciphertext = ''09'', eb_aeadNonce = ''010000000000000000070707'', eb_keyId = ''010000000000000000'', eb_aadSummary = None\<rparr>
        demo_aad ''t''] fresh_channel)))"
  using bodies_opened_once by (rule conjunct2)

text \<open>
  C22 (roundtrip). Two fresh registries that hold the same keys in opposite roles: what one side sends, at most
  \<open>2 ^ 64\<close> messages with printable associated data, the other side reads in order, text by text.
\<close>

theorem channel_roundtrip:
  assumes law: "aead_opens C" and roles: "peerDirection r' = ownDirection r"
    and ok: "list_all (\<lambda>m. printable_aad (msg_aad m)) ms" "length ms \<le> 2 ^ 64"
  shows "\<exists>bs. send_all C sid tok ms (snd (channel_step C (Create sid r (Some tok) nd) fresh_channel)) = map Inr bs \<and>
    receive_all C sid tok (zip (map msg_aad ms) bs) (snd (channel_step C (Create sid r' (Some tok) nd) fresh_channel)) =
      map (\<lambda>m. Inr (msg_text m)) ms"
proof -
  let ?e = "\<lambda>r. \<lparr>currentHandle = new_handle sid (nd_generation nd) r (Some tok) (nd_keys nd) H_ACTIVE, previousHandle = None, dualKeyTimer = False\<rparr>"
  have new: "jm_get (ch_registry (snd (channel_step C (Create sid x (Some tok) nd) fresh_channel))) sid = Some (?e x)"
    "ch_tracker (snd (channel_step C (Create sid x (Some tok) nd) fresh_channel)) = []" for x
    by (simp_all add: createSession_def fresh_channel_def jm_get_def Let_def)
  show ?thesis
    by (rule messages_delivered[OF law new(1)[of r] _ _ new(1)[of r']])
      (use roles ok in \<open>simp_all add: new_handle_def h_usable_def mirrors_def new(2) jm.get_empty del: channel_step.simps\<close>)
qed

theorem channel_roundtrip_witness:
  "\<exists>bs. send_all demo_crypto ''s'' ''t'' [\<lparr>msg_aad = demo_aad, msg_text = [9], msg_type = BUSINESS\<rparr>]
      (snd (channel_step demo_crypto (Create ''s'' initiator (Some ''t'') demo_session) fresh_channel)) = map Inr bs \<and>
    receive_all demo_crypto ''s'' ''t'' (zip [demo_aad] bs) (snd (channel_step demo_crypto (Create ''s'' responder (Some ''t'') demo_session) fresh_channel)) =
      [Inr [9]]"
  using channel_roundtrip[of demo_crypto responder initiator "[\<lparr>msg_aad = demo_aad, msg_text = [9], msg_type = BUSINESS\<rparr>]" "''s''" "''t''" demo_session]
  by (simp add: aead_opens_def demo_crypto_def peerDirection_def ownDirection_def printable_aad_def demo_aad_def del: channel_step.simps)

text \<open>
  Remark (functional). After a swap a body sealed under the previous generation still opens, until the timer
  fires; from then on it is refused.
\<close>

theorem dual_key_window:
  assumes law: "aead_opens C" and B: "jm_get (ch_registry b) sid = Some e" "h_state (currentHandle e) = H_ACTIVE"
    and h: "mirrors h (currentHandle e)" "h_tokenId h = Some tok" "h_sequenceNumber h < 2 ^ 64"
    and enc: "h_encrypt C h f p = (Inr (c, nonce, k), h')"
    and new: "h_peerKeyId C (new_handle sid (nd_generation nd) (h_role (currentHandle e)) (Some tok) (nd_keys nd) H_PENDING_REKEY) \<noteq> k"
    and seen: "\<And>m. jm_get (ch_tracker b) (replayKey sid (hd nonce) k) = Some m \<Longrightarrow> m < nonce_seq nonce"
    and body: "x = \<lparr>eb_type = Some bt, eb_ciphertext = toHex c, eb_aeadNonce = toHex nonce, eb_keyId = k, eb_aadSummary = s\<rparr>"
  defines "w \<equiv> snd (channel_step C (Swap sid nd) b)"
  shows "fst (decryptEnvelopeBody C sid x f tok w) = Inr p"
    "fst (decryptEnvelopeBody C sid x f tok (snd (channel_step C (TimerFires sid) w))) = Inl CH_DECRYPTION_FAILED"
proof -
  let ?g = "currentHandle e"
  let ?n = "new_handle sid (nd_generation nd) (h_role ?g) (h_tokenId ?g) (nd_keys nd) H_PENDING_REKEY"
  have tok: "h_tokenId ?g = Some tok" using h(1,2) by (simp add: mirrors_def)
  have usable: "h_usable ?g" using B(2) by (simp add: h_usable_def)
  note opens = sealed_opens[OF law h(1) usable h(3) enc]
  have len: "length nonce = 12" using h_encrypt_slot[OF enc] by auto
  have w: "jm_get (ch_registry w) sid = Some \<lparr>currentHandle = ?n, previousHandle = Some ?g, dualKeyTimer = True\<rparr>" "ch_tracker w = ch_tracker b"
    using B by (simp_all add: w_def swapForDualKey_def Let_def jm_get_set)
  have "lookupHandleForDecrypt C sid k (ch_registry w) = Some ?g" using w(1) new opens(2) tok by (simp add: lookupHandleForDecrypt_def)
  from decrypt_body_ok[OF body len this tok opens(1)] seen show "fst (decryptEnvelopeBody C sid x f tok w) = Inr p" by (simp add: w(2))
  let ?t = "snd (channel_step C (TimerFires sid) w)"
  have t: "jm_get (ch_registry ?t) sid = Some \<lparr>currentHandle = ?n\<lparr>h_state := H_ACTIVE\<rparr>, previousHandle = None, dualKeyTimer = False\<rparr>" "ch_tracker ?t = ch_tracker b"
    using w by (simp_all add: expireDualKeyWindow_def Let_def jm_get_set new_handle_def)
  have "h_peerKeyId C (?n\<lparr>h_state := H_ACTIVE\<rparr>) = h_peerKeyId C ?n" by (simp add: h_peerKeyId_def traffic_key_def split: direction.splits)
  then have "lookupHandleForDecrypt C sid k (ch_registry ?t) = None" using t(1) new tok by (simp add: lookupHandleForDecrypt_def)
  moreover have "(case jm_get (ch_tracker ?t) (replayKey sid (hd nonce) k) of None \<Rightarrow> False | Some m \<Rightarrow> nonce_seq nonce \<le> m) = False"
    using seen t(2) by (auto split: option.splits)
  ultimately show "fst (decryptEnvelopeBody C sid x f tok ?t) = Inl CH_DECRYPTION_FAILED"
    by (simp add: decryptEnvelopeBody_def body extract_toHex[OF len] Let_def del: channel_step.simps)
qed

text \<open>Remark (safety). A closed session seals and opens nothing.\<close>

lemma closed_session_silent:
  "fst (encryptEnvelopeBody C sid tok f p bt (snd (channel_step C (Close sid) ch))) = Inl CH_SESSION_NOT_FOUND"
  "fst (decryptEnvelopeBody C sid b f tok (snd (channel_step C (Close sid) ch))) \<noteq> Inr q"
proof -
  have "jm_get (closeSession sid reg) sid = None" for reg by (auto simp: closeSession_def jm_get_delete split: option.splits)
  then have r: "jm_get (ch_registry (snd (channel_step C (Close sid) ch))) sid = None" by simp
  show "fst (encryptEnvelopeBody C sid tok f p bt (snd (channel_step C (Close sid) ch))) = Inl CH_SESSION_NOT_FOUND"
    using r by (simp add: encryptEnvelopeBody_def del: channel_step.simps)
  show "fst (decryptEnvelopeBody C sid b f tok (snd (channel_step C (Close sid) ch))) \<noteq> Inr q"
    using r by (auto simp: decryptEnvelopeBody_def lookupHandleForDecrypt_def Let_def simp del: channel_step.simps split: sum.splits)
qed

text \<open>
  Remark (error). A nonce in base64url whose sixteen characters are hex digits has twelve bytes for the replay
  check and eight for the cipher.
\<close>

lemma nonce_read_twice:
  "map_sum id length (extractNonce ''abcdefabcdefabcd'') = Inr 12" "length (decodeEncryptedField ''abcdefabcdefabcd'') = 8"
  by code_simp+

end
