(* ===== verification/Handshake.thy ===== *)
theory Handshake
  imports Secure_Channel Capability_Token Effects
begin

text \<open>
  Signed envelopes (\<open>communication/src/envelope.ts\<close>) and the handshake over them
  (\<open>communication/src/handshake\<close>): the initiator sends a challenge, the responder checks it, claims its
  nonce, negotiates encryption and answers, and the initiator checks the answer against what it sent.

  The transport, the resolver of public keys, the checks of the initiator, the authorization validator and
  the session store are ports; random values and readings of the clock are drawn into a record per
  attempt. Ed25519, X25519, SHA-256, the canonical printer and the JSON-schema validator are parameters.
  Messages of errors are left out. The session keys that both sides derive and drop are left out as well.
\<close>

subsection \<open>Messages\<close>

datatype encryption_preference = PREF_OFF | PREF_OPT_IN | PREF_REQUIRED

datatype negotiated_mode = MODE_OFF | MODE_REQUIRED

record challenge_encryption =
  hce_preference :: encryption_preference
  hce_initiatorEphemeralPublicKey :: string

record response_encryption =
  hre_negotiatedMode :: negotiated_mode
  hre_responderPreference :: encryption_preference
  hre_responderEphemeralPublicKey :: "string option"
  hre_transcriptHashConfirmation :: string
  hre_authorizedTokenFingerprint :: "string option"

record handshake_challenge =
  hc_challengeId :: string
  hc_initiatorDid :: did
  hc_responderDid :: did
  hc_nonce :: string
  hc_timestamp :: timestamp
  hc_expiresAt :: timestamp
  hc_initiatorCapabilities :: "string list"
  hc_principalDid :: "did option"
  hc_capabilityTokenId :: "string option"
  hc_resumeSessionId :: "string option"
  hc_encryption :: "challenge_encryption option"

record handshake_response =
  hr_challengeId :: string
  hr_sessionId :: string
  hr_responderDid :: did
  hr_responderCapabilities :: "string list"
  hr_nonce :: string
  hr_timestamp :: timestamp
  hr_encryption :: "response_encryption option"

record handshake_ack =
  ha_response :: handshake_response
  ha_accepted :: bool
  ha_reason :: "string option"

datatype envelope_body = InitBody handshake_challenge | AckBody handshake_ack | OtherBody js_object

datatype message_type =
  HANDSHAKE_INIT | HANDSHAKE_ACK | NEGOTIATION_REQUEST | NEGOTIATION_RESPONSE | NEGOTIATION_CONFIRM | MSG_ERROR
| DISCOVERY_REQUEST | DISCOVERY_RESPONSE

record envelope_header =
  eh_senderDid :: did
  eh_recipientDid :: did
  eh_sessionId :: "string option"
  eh_sequenceNumber :: "int option"
  eh_capabilityTokenRef :: "string option"

record negotiation_envelope =
  ne_id :: string
  ne_specVersion :: string
  ne_header :: envelope_header
  ne_messageType :: message_type
  ne_body :: envelope_body
  ne_signature :: string
  ne_timestamp :: timestamp

subsection \<open>Their JSON\<close>

definition opt_prop :: "string \<Rightarrow> ('a \<Rightarrow> jsval) \<Rightarrow> 'a option \<Rightarrow> js_object" where
  "opt_prop k f v = (case v of None \<Rightarrow> [] | Some x \<Rightarrow> [(k, f x)])"

definition or_null :: "string option \<Rightarrow> jsval" where
  "or_null v = (case v of None \<Rightarrow> JNull | Some s \<Rightarrow> JStr s)"

definition strings_json :: "string list \<Rightarrow> jsval" where
  "strings_json xs = JArr (map JStr xs)"

definition preference_text :: "encryption_preference \<Rightarrow> string" where
  "preference_text p = (case p of PREF_OFF \<Rightarrow> ''OFF'' | PREF_OPT_IN \<Rightarrow> ''OPT_IN'' | PREF_REQUIRED \<Rightarrow> ''REQUIRED'')"

definition mode_text :: "negotiated_mode \<Rightarrow> string" where
  "mode_text m = (case m of MODE_OFF \<Rightarrow> ''OFF'' | MODE_REQUIRED \<Rightarrow> ''REQUIRED'')"

definition PROTOCOL_VERSION :: string where
  "PROTOCOL_VERSION = ''ap/e2e/v1''"

definition challenge_json :: "handshake_challenge \<Rightarrow> js_object" where
  "challenge_json c =
     [(''challengeId'', JStr (hc_challengeId c)), (''initiatorDid'', JStr (hc_initiatorDid c)), (''responderDid'', JStr (hc_responderDid c)),
      (''nonce'', JStr (hc_nonce c)), (''timestamp'', JStr (hc_timestamp c)), (''expiresAt'', JStr (hc_expiresAt c)),
      (''initiatorCapabilities'', strings_json (hc_initiatorCapabilities c))] @
     opt_prop ''principalDid'' JStr (hc_principalDid c) @ opt_prop ''capabilityTokenId'' JStr (hc_capabilityTokenId c) @
     opt_prop ''resumeSessionId'' JStr (hc_resumeSessionId c) @
     opt_prop ''encryption'' (\<lambda>e. JObj [(''preference'', JStr (preference_text (hce_preference e))),
       (''initiatorEphemeralPublicKey'', JStr (hce_initiatorEphemeralPublicKey e)), (''encryptionProtocolVersion'', JStr PROTOCOL_VERSION)]) (hc_encryption c)"

definition response_json :: "handshake_response \<Rightarrow> js_object" where
  "response_json r =
     [(''challengeId'', JStr (hr_challengeId r)), (''sessionId'', JStr (hr_sessionId r)), (''responderDid'', JStr (hr_responderDid r)),
      (''responderCapabilities'', strings_json (hr_responderCapabilities r)), (''nonce'', JStr (hr_nonce r)), (''timestamp'', JStr (hr_timestamp r))] @
     opt_prop ''encryption'' (\<lambda>e. JObj ([(''negotiatedMode'', JStr (mode_text (hre_negotiatedMode e))),
       (''responderPreference'', JStr (preference_text (hre_responderPreference e)))] @
       opt_prop ''responderEphemeralPublicKey'' JStr (hre_responderEphemeralPublicKey e) @
       [(''encryptionProtocolVersion'', JStr PROTOCOL_VERSION), (''transcriptHashConfirmation'', JStr (hre_transcriptHashConfirmation e))] @
       opt_prop ''authorizedTokenFingerprint'' JStr (hre_authorizedTokenFingerprint e))) (hr_encryption r)"

definition body_json :: "envelope_body \<Rightarrow> js_object" where
  "body_json b =
     (case b of
        InitBody c \<Rightarrow> [(''challenge'', JObj (challenge_json c))]
      | AckBody a \<Rightarrow> [(''response'', JObj (response_json (ha_response a))), (''accepted'', JBool (ha_accepted a))] @ opt_prop ''reason'' JStr (ha_reason a)
      | OtherBody j \<Rightarrow> j)"

definition MESSAGE_TYPES :: "(message_type \<times> string) list" where
  "MESSAGE_TYPES =
     [(HANDSHAKE_INIT, ''HANDSHAKE_INIT''), (HANDSHAKE_ACK, ''HANDSHAKE_ACK''), (NEGOTIATION_REQUEST, ''NEGOTIATION_REQUEST''),
      (NEGOTIATION_RESPONSE, ''NEGOTIATION_RESPONSE''), (NEGOTIATION_CONFIRM, ''NEGOTIATION_CONFIRM''), (MSG_ERROR, ''ERROR''),
      (DISCOVERY_REQUEST, ''DISCOVERY_REQUEST''), (DISCOVERY_RESPONSE, ''DISCOVERY_RESPONSE'')]"

definition message_text :: "message_type \<Rightarrow> string" where
  "message_text m = the (map_of MESSAGE_TYPES m)"

definition header_json :: "envelope_header \<Rightarrow> js_object" where
  "header_json h =
     [(''senderDid'', JStr (eh_senderDid h)), (''recipientDid'', JStr (eh_recipientDid h)), (''sessionId'', or_null (eh_sessionId h))] @
     opt_prop ''sequenceNumber'' (\<lambda>n. JNum (Fin (of_int n))) (eh_sequenceNumber h) @ opt_prop ''capabilityTokenRef'' JStr (eh_capabilityTokenRef h)"

definition signed_payload :: "negotiation_envelope \<Rightarrow> js_object" where
  "signed_payload e =
     [(''id'', JStr (ne_id e)), (''specVersion'', JStr (ne_specVersion e)), (''header'', JObj (header_json (ne_header e))),
      (''messageType'', JStr (message_text (ne_messageType e))), (''body'', JObj (body_json (ne_body e))), (''timestamp'', JStr (ne_timestamp e))]"

definition envelope_json :: "negotiation_envelope \<Rightarrow> jsval" where
  "envelope_json e = JObj (signed_payload e @ [(''signature'', JStr (ne_signature e))])"

subsection \<open>Building, parsing and verifying an envelope\<close>

datatype hs_code =
  HS_TIMEOUT | HS_REJECTED | HS_INVALID | HS_SIGNATURE_INVALID | HS_ENCRYPTION_REQUIRED | HS_REQUIRES_CAPABILITY_TOKEN
| HS_INVALID_ENCRYPTION_OFFER | HS_DOWNGRADE_DETECTED | HS_INVALID_MESSAGE | HS_SPEC_VERSION_MISMATCH | HS_INTERNAL_ERROR | HS_OTHER string

datatype hs_error = HsProtocol hs_code | HsOther

definition ENVELOPE_ENCODING :: encoding where
  "ENVELOPE_ENCODING = EncBase64Url"

definition SUPPORTED_SPEC_VERSIONS :: "string list" where
  "SUPPORTED_SPEC_VERSIONS = [''0.1.0'', ''0.2.0'', ''0.3.0'']"

definition default_encoding :: "string \<Rightarrow> encoding" where
  "default_encoding v = (if v = ''0.3.0'' \<or> v = ''0.2.0'' then ENVELOPE_ENCODING else EncHex)"

record envelope_params =
  bp_senderDid :: did
  bp_senderPrivateKey :: string
  bp_recipientDid :: did
  bp_sessionId :: "string option"
  bp_messageType :: message_type
  bp_body :: envelope_body
  bp_sequenceNumber :: "int option"
  bp_capabilityTokenRef :: "string option"
  bp_signatureEncoding :: "encoding option"
  bp_specVersion :: "string option"

definition unsigned_envelope :: "envelope_params \<Rightarrow> string \<Rightarrow> timestamp \<Rightarrow> negotiation_envelope" where
  "unsigned_envelope p uuid now =
     \<lparr>ne_id = uuid,
      ne_specVersion = (case bp_specVersion p of Some v \<Rightarrow> v | None \<Rightarrow> if bp_capabilityTokenRef p \<noteq> None then ''0.2.0'' else ''0.1.0''),
      ne_header = \<lparr>eh_senderDid = bp_senderDid p, eh_recipientDid = bp_recipientDid p, eh_sessionId = bp_sessionId p,
                   eh_sequenceNumber = bp_sequenceNumber p, eh_capabilityTokenRef = bp_capabilityTokenRef p\<rparr>,
      ne_messageType = bp_messageType p, ne_body = bp_body p, ne_signature = [], ne_timestamp = now\<rparr>"

definition buildEnvelope ::
  "platform \<Rightarrow> (js_object \<Rightarrow> string) \<Rightarrow> envelope_params \<Rightarrow> string \<Rightarrow> timestamp \<Rightarrow> hs_error + negotiation_envelope" where
  "buildEnvelope pf canon p uuid now =
     (let e = unsigned_envelope p uuid now;
          enc = (case bp_signatureEncoding p of Some x \<Rightarrow> x | None \<Rightarrow> default_encoding (ne_specVersion e)) in
      case canonicalize canon (signed_payload e) of
        Inl _ \<Rightarrow> Inl (HsProtocol HS_INTERNAL_ERROR)
      | Inr t \<Rightarrow>
          (case sign pf t (bp_senderPrivateKey p) enc of
             Inl _ \<Rightarrow> Inl (HsProtocol HS_INTERNAL_ERROR)
           | Inr s \<Rightarrow> Inr (e\<lparr>ne_signature := s\<rparr>)))"

definition str_prop :: "js_object \<Rightarrow> string \<Rightarrow> string option" where
  "str_prop obj k = (case get_prop obj k of JStr s \<Rightarrow> if s = [] then None else Some s | _ \<Rightarrow> None)"

definition obj_prop :: "js_object \<Rightarrow> string \<Rightarrow> js_object option" where
  "obj_prop obj k = (case get_prop obj k of JObj o1 \<Rightarrow> Some o1 | JArr _ \<Rightarrow> Some [] | _ \<Rightarrow> None)"

text \<open>\<open>/^\d+\.\d+\.\d+$/\<close>.\<close>

definition semver :: "string \<Rightarrow> bool" where
  "semver s = (let ps = js_split (CHR ''.'') s in length ps = 3 \<and> list_all (\<lambda>p. p \<noteq> [] \<and> list_all is_digit p) ps)"

definition valid_did :: "string option \<Rightarrow> bool" where
  "valid_did s = (case s of None \<Rightarrow> False | Some d \<Rightarrow> isDidAgent d \<or> isDidKey d)"

text \<open>\<open>parseEnvelope\<close> checks a JSON value and hands it back; arrays have none of the properties asked for.\<close>

definition parseEnvelope :: "jsval \<Rightarrow> hs_error + unit" where
  "parseEnvelope raw =
     (let obj = (case raw of JObj o1 \<Rightarrow> o1 | _ \<Rightarrow> []); bad = HsProtocol HS_INVALID_MESSAGE; h = obj_prop obj ''header'';
          hd_str = (\<lambda>k. case h of None \<Rightarrow> None | Some o1 \<Rightarrow> str_prop o1 k) in
      res_bind (ensure (case raw of JObj _ \<Rightarrow> True | JArr _ \<Rightarrow> True | _ \<Rightarrow> False) bad) (\<lambda>_.
      res_bind (ensure (str_prop obj ''id'' \<noteq> None) bad) (\<lambda>_.
      res_bind (ensure (str_prop obj ''specVersion'' \<noteq> None) bad) (\<lambda>_.
      res_bind (ensure (case str_prop obj ''specVersion'' of None \<Rightarrow> False | Some v \<Rightarrow> semver v) (HsProtocol HS_SPEC_VERSION_MISMATCH)) (\<lambda>_.
      res_bind (ensure (h \<noteq> None) bad) (\<lambda>_.
      res_bind (ensure (valid_did (hd_str ''senderDid'')) bad) (\<lambda>_.
      res_bind (ensure (valid_did (hd_str ''recipientDid'')) bad) (\<lambda>_.
      res_bind (ensure (case get_prop obj ''messageType'' of JStr m \<Rightarrow> m \<in> set (map snd MESSAGE_TYPES) | _ \<Rightarrow> False) bad) (\<lambda>_.
      res_bind (ensure (obj_prop obj ''body'' \<noteq> None) bad) (\<lambda>_.
      res_bind (ensure (str_prop obj ''signature'' \<noteq> None) bad) (\<lambda>_.
      res_bind (ensure (str_prop obj ''timestamp'' \<noteq> None) bad) (\<lambda>_.
      ensure (get_prop (case h of None \<Rightarrow> [] | Some o1 \<Rightarrow> o1) ''capabilityTokenRef'' = JUndef \<or> get_prop obj ''specVersion'' = JStr ''0.2.0'')
        (HsProtocol HS_SPEC_VERSION_MISMATCH)))))))))))))"

text \<open>The answer of \<open>resolvePublicKey\<close> is awaited; an empty key counts as none. Reasons are left out.\<close>

definition signature_checks :: "platform \<Rightarrow> (js_object \<Rightarrow> string) \<Rightarrow> negotiation_envelope \<Rightarrow> string \<Rightarrow> bool" where
  "signature_checks pf canon e key =
     (case canonicalize canon (signed_payload e) of Inl _ \<Rightarrow> False | Inr t \<Rightarrow> verify pf t (ne_signature e) key = Inr True)"

definition within_skew :: "negotiation_envelope \<Rightarrow> int \<Rightarrow> int \<Rightarrow> bool" where
  "within_skew e now clockSkewMs = (case getTime (ne_timestamp e) of None \<Rightarrow> False | Some t \<Rightarrow> \<bar>t - now\<bar> \<le> clockSkewMs)"

definition verifyEnvelope ::
  "platform \<Rightarrow> (js_object \<Rightarrow> string) \<Rightarrow> (did \<Rightarrow> ('w, hs_error, string option) eff) \<Rightarrow> negotiation_envelope \<Rightarrow> int \<Rightarrow> int \<Rightarrow> ('w, hs_error, bool) eff" where
  "verifyEnvelope pf canon resolveKey e clockSkewMs now =
     (if ne_specVersion e \<notin> set SUPPORTED_SPEC_VERSIONS then eff_return False
      else if \<not> within_skew e now clockSkewMs then eff_return False
      else eff_bind (resolveKey (eh_senderDid (ne_header e))) (\<lambda>key.
           eff_return (case key of None \<Rightarrow> False | Some k \<Rightarrow> k \<noteq> [] \<and> signature_checks pf canon e k)))"

definition CLOCK_SKEW_MS :: int where
  "CLOCK_SKEW_MS = 300000"

subsection \<open>The transcript\<close>

record hs_crypto =
  hk_pf :: platform
  hk_canon :: "js_object \<Rightarrow> string"
  hk_sha :: "string \<Rightarrow> bytes"
  hk_dh :: "bytes \<Rightarrow> bytes \<Rightarrow> bytes option"
  hk_challengeSchema :: "handshake_challenge \<Rightarrow> bool"
  hk_ackSchema :: "handshake_ack \<Rightarrow> bool"

record transcript_input =
  ti_initiatorDid :: did
  ti_responderDid :: did
  ti_initiatorCapabilities :: "string list"
  ti_responderCapabilities :: "string list"
  ti_initiatorPreference :: encryption_preference
  ti_responderPreference :: encryption_preference
  ti_negotiatedEncryptionMode :: negotiated_mode
  ti_I_epk :: string
  ti_R_epk :: string
  ti_nonce :: string
  ti_initTimestamp :: timestamp
  ti_responseTimestamp :: timestamp
  ti_authorizedPrincipalDid :: did
  ti_authorizedTokenId :: "string option"
  ti_authorizedTokenFingerprint :: string

definition transcript_json :: "transcript_input \<Rightarrow> js_object" where
  "transcript_json t =
     [(''protocolVersion'', JStr PROTOCOL_VERSION), (''initiatorDid'', JStr (ti_initiatorDid t)), (''responderDid'', JStr (ti_responderDid t)),
      (''initiatorCapabilities'', strings_json (ti_initiatorCapabilities t)), (''responderCapabilities'', strings_json (ti_responderCapabilities t)),
      (''initiatorPreference'', JStr (preference_text (ti_initiatorPreference t))), (''responderPreference'', JStr (preference_text (ti_responderPreference t))),
      (''negotiatedEncryptionMode'', JStr (mode_text (ti_negotiatedEncryptionMode t))), (''I_epk'', JStr (ti_I_epk t)), (''R_epk'', JStr (ti_R_epk t)),
      (''nonce'', JStr (ti_nonce t)), (''initTimestamp'', JStr (ti_initTimestamp t)), (''responseTimestamp'', JStr (ti_responseTimestamp t)),
      (''authorizedPrincipalDid'', JStr (ti_authorizedPrincipalDid t)), (''authorizedTokenId'', or_null (ti_authorizedTokenId t)),
      (''authorizedTokenFingerprint'', JStr (ti_authorizedTokenFingerprint t))]"

definition computeTranscriptHash :: "hs_crypto \<Rightarrow> transcript_input \<Rightarrow> hs_error + bytes" where
  "computeTranscriptHash K t = (case canonicalize (hk_canon K) (transcript_json t) of Inl _ \<Rightarrow> Inl HsOther | Inr s \<Rightarrow> Inr (hk_sha K s))"

definition confirmation :: "bytes \<Rightarrow> string" where
  "confirmation h = toHex (take 16 h)"

record derived_keys =
  dk_initiatorEphemeralPublicKeyHex :: string
  dk_responderEphemeralPublicKeyHex :: string
  dk_transcriptHash :: bytes

record handshake_result =
  hs_sessionId :: string
  hs_negotiatedCapabilities :: "string list"
  hs_encryption :: "(negotiated_mode \<times> derived_keys option) option"

subsection \<open>The initiator\<close>

datatype send_outcome = TimedOut | Answer "negotiation_envelope option"

record 'w initiator_options =
  in_did :: did
  in_privateKey :: string
  in_send :: "negotiation_envelope \<Rightarrow> string \<Rightarrow> ('w, hs_error, send_outcome) eff"
  in_resolvePublicKey :: "did \<Rightarrow> ('w, hs_error, string option) eff"
  in_challengeExpiryMs :: int
  in_capabilities :: "string list"
  in_maxRetries :: int
  in_preference :: encryption_preference

record initiate_params =
  ip_responderDid :: did
  ip_responderEndpoint :: string
  ip_principalDid :: "did option"
  ip_capabilityTokenId :: "string option"

record attempt_draw =
  ad_nonce :: string
  ad_challengeId :: string
  ad_now :: int
  ad_secretKey :: bytes
  ad_publicKey :: bytes
  ad_envelopeId :: string
  ad_envelopeTime :: timestamp
  ad_verifyNow :: int

definition make_challenge :: "'w initiator_options \<Rightarrow> initiate_params \<Rightarrow> attempt_draw \<Rightarrow> handshake_challenge" where
  "make_challenge I p d =
     \<lparr>hc_challengeId = ad_challengeId d, hc_initiatorDid = in_did I, hc_responderDid = ip_responderDid p, hc_nonce = ad_nonce d,
      hc_timestamp = toISOString (ad_now d), hc_expiresAt = toISOString (ad_now d + in_challengeExpiryMs I),
      hc_initiatorCapabilities = in_capabilities I, hc_principalDid = ip_principalDid p, hc_capabilityTokenId = ip_capabilityTokenId p,
      hc_resumeSessionId = None,
      hc_encryption = (if in_preference I \<noteq> PREF_OFF \<and> toHex (ad_publicKey d) \<noteq> []
                       then Some \<lparr>hce_preference = in_preference I, hce_initiatorEphemeralPublicKey = toHex (ad_publicKey d)\<rparr> else None)\<rparr>"

definition init_params :: "'w initiator_options \<Rightarrow> initiate_params \<Rightarrow> handshake_challenge \<Rightarrow> envelope_params" where
  "init_params I p c =
     \<lparr>bp_senderDid = in_did I, bp_senderPrivateKey = in_privateKey I, bp_recipientDid = ip_responderDid p, bp_sessionId = None,
      bp_messageType = HANDSHAKE_INIT, bp_body = InitBody c, bp_sequenceNumber = None, bp_capabilityTokenRef = None,
      bp_signatureEncoding = None, bp_specVersion = None\<rparr>"

definition need_value :: "string option \<Rightarrow> hs_error + string" where
  "need_value v = (case v of None \<Rightarrow> Inl (HsProtocol HS_INVALID) | Some s \<Rightarrow> if s = [] then Inl (HsProtocol HS_INVALID) else Inr s)"

definition hs_fromHex :: "string \<Rightarrow> hs_error + bytes" where
  "hs_fromHex s = (case fromHex s of Inl _ \<Rightarrow> Inl HsOther | Inr b \<Rightarrow> Inr b)"

definition shared_secret :: "hs_crypto \<Rightarrow> bytes \<Rightarrow> bytes \<Rightarrow> hs_error + bytes" where
  "shared_secret K sk pk = (case hk_dh K sk pk of None \<Rightarrow> Inl HsOther | Some s \<Rightarrow> Inr s)"

definition initiator_transcript ::
  "'w initiator_options \<Rightarrow> initiate_params \<Rightarrow> attempt_draw \<Rightarrow> handshake_response \<Rightarrow> response_encryption \<Rightarrow> string list \<Rightarrow> string \<Rightarrow> transcript_input" where
  "initiator_transcript I p d resp enc caps rpk =
     \<lparr>ti_initiatorDid = in_did I, ti_responderDid = ip_responderDid p, ti_initiatorCapabilities = in_capabilities I, ti_responderCapabilities = caps,
      ti_initiatorPreference = in_preference I, ti_responderPreference = hre_responderPreference enc, ti_negotiatedEncryptionMode = MODE_REQUIRED,
      ti_I_epk = toHex (ad_publicKey d), ti_R_epk = rpk, ti_nonce = ad_nonce d, ti_initTimestamp = toISOString (ad_now d),
      ti_responseTimestamp = hr_timestamp resp,
      ti_authorizedPrincipalDid = (case ip_principalDid p of None \<Rightarrow> in_did I | Some q \<Rightarrow> q), ti_authorizedTokenId = ip_capabilityTokenId p,
      ti_authorizedTokenFingerprint = (case hre_authorizedTokenFingerprint enc of None \<Rightarrow> [] | Some f \<Rightarrow> f)\<rparr>"

text \<open>The responder has agreed to encrypt: its key, its confirmation and the fingerprint of the token are checked.\<close>

definition accept_encryption ::
  "hs_crypto \<Rightarrow> 'w initiator_options \<Rightarrow> initiate_params \<Rightarrow> attempt_draw \<Rightarrow> handshake_response \<Rightarrow> response_encryption \<Rightarrow> string list \<Rightarrow> hs_error + derived_keys" where
  "accept_encryption K I p d resp enc caps =
     res_bind (need_value (hre_responderEphemeralPublicKey enc)) (\<lambda>rpk.
     res_bind (ensure (hre_transcriptHashConfirmation enc \<noteq> []) (HsProtocol HS_INVALID)) (\<lambda>_.
     res_bind (ensure (ip_capabilityTokenId p = None \<or> (case hre_authorizedTokenFingerprint enc of None \<Rightarrow> False | Some f \<Rightarrow> f \<noteq> [])) (HsProtocol HS_INVALID)) (\<lambda>_.
     res_bind (hs_fromHex rpk) (\<lambda>rkey.
     res_bind (shared_secret K (ad_secretKey d) rkey) (\<lambda>_.
     res_bind (computeTranscriptHash K (initiator_transcript I p d resp enc caps rpk)) (\<lambda>th.
     res_bind (ensure (confirmation th = hre_transcriptHashConfirmation enc) (HsProtocol HS_DOWNGRADE_DETECTED)) (\<lambda>_.
     Inr \<lparr>dk_initiatorEphemeralPublicKeyHex = toHex (ad_publicKey d), dk_responderEphemeralPublicKeyHex = rpk, dk_transcriptHash = th\<rparr>)))))))"

definition encryption_outcome ::
  "hs_crypto \<Rightarrow> 'w initiator_options \<Rightarrow> initiate_params \<Rightarrow> attempt_draw \<Rightarrow> handshake_response \<Rightarrow> string list
    \<Rightarrow> hs_error + (negotiated_mode \<times> derived_keys option) option" where
  "encryption_outcome K I p d resp caps =
     (if in_preference I = PREF_OFF \<or> toHex (ad_publicKey d) = [] then Inr None
      else
        (case hr_encryption resp of
           Some enc \<Rightarrow>
             if hre_negotiatedMode enc = MODE_REQUIRED
             then res_bind (accept_encryption K I p d resp enc caps) (\<lambda>k. Inr (Some (MODE_REQUIRED, Some k)))
             else res_bind (ensure (in_preference I \<noteq> PREF_REQUIRED) (HsProtocol HS_ENCRYPTION_REQUIRED)) (\<lambda>_. Inr (Some (MODE_OFF, None)))
         | None \<Rightarrow> res_bind (ensure (in_preference I \<noteq> PREF_REQUIRED) (HsProtocol HS_ENCRYPTION_REQUIRED)) (\<lambda>_. Inr (Some (MODE_OFF, None)))))"

text \<open>The body of the answer; a body of another shape fails the schema.\<close>

definition read_ack ::
  "hs_crypto \<Rightarrow> 'w initiator_options \<Rightarrow> initiate_params \<Rightarrow> attempt_draw \<Rightarrow> envelope_body \<Rightarrow> hs_error + handshake_result" where
  "read_ack K I p d body =
     (case body of
        AckBody a \<Rightarrow>
          (let resp = ha_response a; caps = filter (\<lambda>c. c \<in> set (in_capabilities I)) (hr_responderCapabilities resp) in
           res_bind (ensure (hk_ackSchema K a) (HsProtocol HS_INVALID)) (\<lambda>_.
           res_bind (ensure (ha_accepted a) (HsProtocol HS_REJECTED)) (\<lambda>_.
           res_bind (ensure (hr_nonce resp = ad_nonce d) (HsProtocol HS_INVALID)) (\<lambda>_.
           res_bind (ensure (hr_challengeId resp = ad_challengeId d) (HsProtocol HS_INVALID)) (\<lambda>_.
           res_bind (ensure (hr_responderDid resp = ip_responderDid p) (HsProtocol HS_INVALID)) (\<lambda>_.
           res_bind (encryption_outcome K I p d resp caps) (\<lambda>enc.
           Inr \<lparr>hs_sessionId = hr_sessionId resp, hs_negotiatedCapabilities = caps, hs_encryption = enc\<rparr>)))))))
      | _ \<Rightarrow> Inl (HsProtocol HS_INVALID))"

definition check_ack ::
  "hs_crypto \<Rightarrow> 'w initiator_options \<Rightarrow> initiate_params \<Rightarrow> attempt_draw \<Rightarrow> negotiation_envelope \<Rightarrow> ('w, hs_error, handshake_result) eff" where
  "check_ack K I p d ack =
     eff_bind (eff_lift (parseEnvelope (envelope_json ack))) (\<lambda>_.
     eff_bind (verifyEnvelope (hk_pf K) (hk_canon K) (in_resolvePublicKey I) ack CLOCK_SKEW_MS (ad_verifyNow d)) (\<lambda>valid.
     eff_bind (eff_guard (ne_messageType ack = HANDSHAKE_ACK) (HsProtocol HS_INVALID)) (\<lambda>_.
     eff_bind (eff_guard valid (HsProtocol HS_SIGNATURE_INVALID)) (\<lambda>_.
     eff_bind (eff_guard (eh_senderDid (ne_header ack) = ip_responderDid p) (HsProtocol HS_INVALID)) (\<lambda>_.
     eff_lift (read_ack K I p d (ne_body ack)))))))"

text \<open>One attempt; the record of the challenge in flight is looked up under its own id and removed at the end, so it stays local here.\<close>

definition attemptHandshake ::
  "hs_crypto \<Rightarrow> 'w initiator_options \<Rightarrow> initiate_params \<Rightarrow> attempt_draw \<Rightarrow> ('w, hs_error, handshake_result) eff" where
  "attemptHandshake K I p d =
     eff_bind (eff_lift (buildEnvelope (hk_pf K) (hk_canon K) (init_params I p (make_challenge I p d)) (ad_envelopeId d) (ad_envelopeTime d))) (\<lambda>e.
     eff_bind (eff_catch (in_send I e (ip_responderEndpoint p))
       (\<lambda>err. eff_throw (case err of HsProtocol c \<Rightarrow> HsProtocol c | HsOther \<Rightarrow> HsProtocol HS_TIMEOUT))) (\<lambda>out.
     (case out of
        TimedOut \<Rightarrow> eff_throw (HsProtocol HS_TIMEOUT)
      | Answer None \<Rightarrow> eff_throw (HsProtocol HS_INVALID)
      | Answer (Some ack) \<Rightarrow> check_ack K I p d ack)))"

text \<open>Without any attempt (\<open>maxRetries\<close> below 0) the loop ends and throws an undefined error.\<close>

fun attempts :: "(nat \<Rightarrow> ('w, hs_error, handshake_result) eff) \<Rightarrow> nat \<Rightarrow> nat \<Rightarrow> ('w, hs_error, handshake_result) eff" where
  "attempts try i 0 = eff_throw HsOther"
| "attempts try i (Suc n) =
     eff_catch (try i) (\<lambda>err. if err = HsProtocol HS_TIMEOUT \<and> n \<noteq> 0 then attempts try (i + 1) n else eff_throw err)"

definition initiate ::
  "hs_crypto \<Rightarrow> 'w initiator_options \<Rightarrow> initiate_params \<Rightarrow> (nat \<Rightarrow> attempt_draw) \<Rightarrow> ('w, hs_error, handshake_result) eff" where
  "initiate K I p draws = attempts (\<lambda>i. attemptHandshake K I p (draws i)) 0 (nat (1 + in_maxRetries I))"

subsection \<open>The responder\<close>

record 'x responder_state =
  rs_nonces :: "string list"
  rs_lastHandshakeResult :: "handshake_result option"
  rs_outside :: 'x

datatype hav_result = HavAccepted did "string option" "string option" | HavRefused string

record session_create =
  sn_sessionId :: string
  sn_initiatorDid :: did
  sn_responderDid :: did
  sn_principalDid :: did
  sn_capabilityTokenId :: "string option"
  sn_capabilityTokenFingerprint :: "string option"
  sn_negotiatedCapabilities :: "string list"
  sn_encrypted :: bool

record 'x responder_options =
  re_did :: did
  re_privateKey :: string
  re_verifyInitiator :: "did \<Rightarrow> ('x, hs_error, bool) eff"
  re_resolvePublicKey :: "did \<Rightarrow> ('x, hs_error, string option) eff"
  re_capabilities :: "string list"
  re_nonceStore :: "(string \<Rightarrow> timestamp \<Rightarrow> ('x, hs_error, bool) eff) option"
  re_sessionStore :: "(session_create \<Rightarrow> ('x, hs_error, unit) eff) option"
  re_authorizationValidator :: "(did \<Rightarrow> did \<Rightarrow> string option \<Rightarrow> ('x, hs_error, hav_result) eff) option"
  re_preference :: encryption_preference

record respond_draw =
  rd_verifyNow :: int
  rd_now :: int
  rd_sessionId :: string
  rd_responseTime :: timestamp
  rd_secretKey :: bytes
  rd_publicKey :: bytes
  rd_envelopeId :: string
  rd_envelopeTime :: timestamp
  rd_ackTime :: timestamp

definition outside_eff :: "('x, hs_error, 'a) eff \<Rightarrow> ('x responder_state, hs_error, 'a) eff" where
  "outside_eff m = (\<lambda>st. case m (rs_outside st) of (r, x) \<Rightarrow> (r, st\<lparr>rs_outside := x\<rparr>))"

text \<open>\<open>InMemoryNonceStore.claim\<close> or the injected store.\<close>

definition claim_nonce :: "'x responder_options \<Rightarrow> string \<Rightarrow> timestamp \<Rightarrow> ('x responder_state, hs_error, bool) eff" where
  "claim_nonce R nonce expiry =
     (case re_nonceStore R of
        Some store \<Rightarrow> outside_eff (store nonce expiry)
      | None \<Rightarrow> (\<lambda>st. if nonce \<in> set (rs_nonces st) then (Inr False, st) else (Inr True, st\<lparr>rs_nonces := nonce # rs_nonces st\<rparr>)))"

definition ack_params :: "'x responder_options \<Rightarrow> did \<Rightarrow> string option \<Rightarrow> handshake_ack \<Rightarrow> envelope_params" where
  "ack_params R recipient sid a =
     \<lparr>bp_senderDid = re_did R, bp_senderPrivateKey = re_privateKey R, bp_recipientDid = recipient, bp_sessionId = sid,
      bp_messageType = HANDSHAKE_ACK, bp_body = AckBody a, bp_sequenceNumber = None, bp_capabilityTokenRef = None,
      bp_signatureEncoding = None, bp_specVersion = None\<rparr>"

definition buildAck ::
  "hs_crypto \<Rightarrow> 'x responder_options \<Rightarrow> respond_draw \<Rightarrow> did \<Rightarrow> handshake_challenge \<Rightarrow> string \<Rightarrow> hs_error + negotiation_envelope" where
  "buildAck K R d recipient c reason =
     buildEnvelope (hk_pf K) (hk_canon K)
       (ack_params R recipient None
         \<lparr>ha_response = \<lparr>hr_challengeId = hc_challengeId c, hr_sessionId = [], hr_responderDid = re_did R, hr_responderCapabilities = [],
                         hr_nonce = hc_nonce c, hr_timestamp = rd_ackTime d, hr_encryption = None\<rparr>,
          ha_accepted = False, ha_reason = (if reason = [] then None else Some reason)\<rparr>)
       (rd_envelopeId d) (rd_envelopeTime d)"

definition check_init ::
  "hs_crypto \<Rightarrow> 'x responder_options \<Rightarrow> respond_draw \<Rightarrow> negotiation_envelope \<Rightarrow> ('x responder_state, hs_error, handshake_challenge) eff" where
  "check_init K R d e =
     eff_bind (eff_guard (ne_messageType e = HANDSHAKE_INIT) (HsProtocol HS_INVALID)) (\<lambda>_.
     eff_bind (eff_lift (parseEnvelope (envelope_json e))) (\<lambda>_.
     (case ne_body e of
        InitBody c \<Rightarrow>
          eff_bind (eff_guard (hk_challengeSchema K c) (HsProtocol HS_INVALID)) (\<lambda>_.
          eff_bind (outside_eff (verifyEnvelope (hk_pf K) (hk_canon K) (re_resolvePublicKey R) e CLOCK_SKEW_MS (rd_verifyNow d))) (\<lambda>valid.
          eff_bind (eff_guard valid (HsProtocol HS_SIGNATURE_INVALID)) (\<lambda>_.
          eff_bind (eff_guard (hc_initiatorDid c = eh_senderDid (ne_header e)) (HsProtocol HS_INVALID)) (\<lambda>_.
          eff_bind (eff_guard (hc_responderDid c = re_did R) (HsProtocol HS_INVALID)) (\<lambda>_.
          eff_return c)))))
      | _ \<Rightarrow> eff_throw (HsProtocol HS_INVALID))))"

definition challenge_expired :: "handshake_challenge \<Rightarrow> int \<Rightarrow> bool" where
  "challenge_expired c now = (case getTime (hc_expiresAt c) of None \<Rightarrow> False | Some t \<Rightarrow> t \<le> now)"

text \<open>The authorization of the initiator: \<open>Inl\<close> is the reason of a refusal, \<open>Inr\<close> principal, token and fingerprint.\<close>

type_synonym authorization = "did \<times> string option \<times> string option"

definition hav_check :: "'x responder_options \<Rightarrow> did \<Rightarrow> handshake_challenge \<Rightarrow> ('x responder_state, hs_error, string + authorization) eff" where
  "hav_check R initiatorDid c =
     (let pr = (case hc_principalDid c of None \<Rightarrow> initiatorDid | Some q \<Rightarrow> q); tok = hc_capabilityTokenId c in
      case re_authorizationValidator R of
        None \<Rightarrow> eff_return (Inr (pr, tok, None))
      | Some validate \<Rightarrow>
          eff_bind (outside_eff (validate initiatorDid pr tok)) (\<lambda>r.
          eff_return
            (case r of
               HavRefused _ \<Rightarrow> Inl ''Authorization validation failed''
             | HavAccepted pr' tok' fp \<Rightarrow>
                 if pr' \<noteq> pr \<or> tok' \<noteq> tok then Inl ''Authorization fields inconsistent with the challenge (post-HAV values diverge from the challenge input)'' else Inr (pr', tok', fp))))"

definition authorize ::
  "'x responder_options \<Rightarrow> respond_draw \<Rightarrow> did \<Rightarrow> handshake_challenge \<Rightarrow> ('x responder_state, hs_error, string + authorization) eff" where
  "authorize R d initiatorDid c =
     (if challenge_expired c (rd_now d) then eff_return (Inl ''Challenge expired'')
      else
        eff_bind (outside_eff (re_verifyInitiator R initiatorDid)) (\<lambda>accepted.
        if \<not> accepted then eff_return (Inl ''Initiator not authorized'')
        else
          eff_bind (claim_nonce R (hc_nonce c) (hc_expiresAt c)) (\<lambda>claimed.
          if \<not> claimed then eff_return (Inl ''Duplicate nonce (suspected replay attack)'')
          else hav_check R initiatorDid c)))"

definition initiator_preference :: "handshake_challenge \<Rightarrow> encryption_preference" where
  "initiator_preference c = (case hc_encryption c of None \<Rightarrow> PREF_OFF | Some e \<Rightarrow> hce_preference e)"

text \<open>The compatibility matrix, and the keys when it gives encryption.\<close>

definition respond_keys ::
  "hs_crypto \<Rightarrow> 'x responder_options \<Rightarrow> respond_draw \<Rightarrow> handshake_challenge \<Rightarrow> string list \<Rightarrow> authorization \<Rightarrow> hs_error + derived_keys" where
  "respond_keys K R d c caps auth =
     (case auth of (pr, tok, fp) \<Rightarrow>
      let ipk = (case hc_encryption c of None \<Rightarrow> [] | Some e \<Rightarrow> hce_initiatorEphemeralPublicKey e); rpk = toHex (rd_publicKey d) in
      res_bind (hs_fromHex ipk) (\<lambda>ikey.
      res_bind (ensure (\<not> list_all (\<lambda>b. b = 0) ikey) (HsProtocol HS_INVALID_ENCRYPTION_OFFER)) (\<lambda>_.
      res_bind (shared_secret K (rd_secretKey d) ikey) (\<lambda>_.
      res_bind (computeTranscriptHash K
        \<lparr>ti_initiatorDid = hc_initiatorDid c, ti_responderDid = re_did R, ti_initiatorCapabilities = hc_initiatorCapabilities c,
         ti_responderCapabilities = caps, ti_initiatorPreference = initiator_preference c, ti_responderPreference = re_preference R,
         ti_negotiatedEncryptionMode = MODE_REQUIRED, ti_I_epk = ipk, ti_R_epk = rpk, ti_nonce = hc_nonce c,
         ti_initTimestamp = hc_timestamp c, ti_responseTimestamp = rd_responseTime d, ti_authorizedPrincipalDid = pr,
         ti_authorizedTokenId = tok, ti_authorizedTokenFingerprint = (case fp of None \<Rightarrow> [] | Some f \<Rightarrow> f)\<rparr>) (\<lambda>th.
      Inr \<lparr>dk_initiatorEphemeralPublicKeyHex = ipk, dk_responderEphemeralPublicKeyHex = rpk, dk_transcriptHash = th\<rparr>)))))"

definition negotiate ::
  "hs_crypto \<Rightarrow> 'x responder_options \<Rightarrow> respond_draw \<Rightarrow> handshake_challenge \<Rightarrow> string list \<Rightarrow> authorization \<Rightarrow> hs_error + derived_keys option" where
  "negotiate K R d c caps auth =
     (case auth of (pr, tok, fp) \<Rightarrow>
      let ipref = initiator_preference c; rpref = re_preference R; required = (ipref = PREF_REQUIRED \<or> rpref = PREF_REQUIRED) in
      res_bind (ensure (\<not> (ipref = PREF_OFF \<and> rpref = PREF_REQUIRED \<or> ipref = PREF_REQUIRED \<and> rpref = PREF_OFF)) (HsProtocol HS_ENCRYPTION_REQUIRED)) (\<lambda>_.
      res_bind (ensure (\<not> (required \<and> tok = None)) (HsProtocol HS_REQUIRES_CAPABILITY_TOKEN)) (\<lambda>_.
      res_bind (ensure (\<not> (required \<and> tok \<noteq> None \<and> (case fp of None \<Rightarrow> True | Some f \<Rightarrow> f = []))) (HsProtocol HS_REQUIRES_CAPABILITY_TOKEN)) (\<lambda>_.
      if required then res_bind (respond_keys K R d c caps auth) (\<lambda>k. Inr (Some k)) else Inr None))))"

definition encryption_for_response ::
  "'x responder_options \<Rightarrow> handshake_challenge \<Rightarrow> derived_keys option \<Rightarrow> string option \<Rightarrow> response_encryption option" where
  "encryption_for_response R c keys fp =
     (case keys of
        Some k \<Rightarrow> Some \<lparr>hre_negotiatedMode = MODE_REQUIRED, hre_responderPreference = re_preference R,
                        hre_responderEphemeralPublicKey = Some (dk_responderEphemeralPublicKeyHex k),
                        hre_transcriptHashConfirmation = confirmation (dk_transcriptHash k),
                        hre_authorizedTokenFingerprint = (if fp = Some [] then None else fp)\<rparr>
      | None \<Rightarrow>
          if initiator_preference c \<noteq> PREF_OFF
          then Some \<lparr>hre_negotiatedMode = MODE_OFF, hre_responderPreference = re_preference R, hre_responderEphemeralPublicKey = None,
                     hre_transcriptHashConfirmation = [], hre_authorizedTokenFingerprint = None\<rparr>
          else None)"

definition persist_session ::
  "'x responder_options \<Rightarrow> respond_draw \<Rightarrow> did \<Rightarrow> string list \<Rightarrow> authorization \<Rightarrow> bool \<Rightarrow> ('x responder_state, hs_error, bool) eff" where
  "persist_session R d initiatorDid caps auth encrypted =
     (case re_sessionStore R of
        None \<Rightarrow> eff_return True
      | Some create \<Rightarrow>
          (case auth of (pr, tok, fp) \<Rightarrow>
           eff_catch
             (eff_bind (outside_eff (create \<lparr>sn_sessionId = rd_sessionId d, sn_initiatorDid = initiatorDid, sn_responderDid = re_did R,
                sn_principalDid = pr, sn_capabilityTokenId = tok, sn_capabilityTokenFingerprint = fp, sn_negotiatedCapabilities = caps,
                sn_encrypted = encrypted\<rparr>)) (\<lambda>_. eff_return True))
             (\<lambda>_. eff_return False)))"

definition accepted_ack :: "'x responder_options \<Rightarrow> respond_draw \<Rightarrow> handshake_challenge \<Rightarrow> string list \<Rightarrow> derived_keys option \<Rightarrow> string option \<Rightarrow> handshake_ack" where
  "accepted_ack R d c caps keys fp =
     \<lparr>ha_response = \<lparr>hr_challengeId = hc_challengeId c, hr_sessionId = rd_sessionId d, hr_responderDid = re_did R, hr_responderCapabilities = caps,
                     hr_nonce = hc_nonce c, hr_timestamp = rd_responseTime d, hr_encryption = encryption_for_response R c keys fp\<rparr>,
      ha_accepted = True, ha_reason = None\<rparr>"

definition accept ::
  "hs_crypto \<Rightarrow> 'x responder_options \<Rightarrow> respond_draw \<Rightarrow> did \<Rightarrow> handshake_challenge \<Rightarrow> authorization \<Rightarrow> ('x responder_state, hs_error, negotiation_envelope) eff" where
  "accept K R d initiatorDid c auth =
     (let caps = filter (\<lambda>x. x \<in> set (re_capabilities R)) (hc_initiatorCapabilities c) in
      eff_bind (eff_lift (negotiate K R d c caps auth)) (\<lambda>keys.
      eff_bind (persist_session R d initiatorDid caps auth (keys \<noteq> None)) (\<lambda>stored.
      if \<not> stored then eff_lift (buildAck K R d initiatorDid c ''Session persistence failed'')
      else
        eff_bind (\<lambda>st. (Inr (), st\<lparr>rs_lastHandshakeResult := Some
          \<lparr>hs_sessionId = rd_sessionId d, hs_negotiatedCapabilities = caps, hs_encryption = map_option (\<lambda>k. (MODE_REQUIRED, Some k)) keys\<rparr>\<rparr>)) (\<lambda>_.
        eff_lift (buildEnvelope (hk_pf K) (hk_canon K) (ack_params R initiatorDid (Some (rd_sessionId d)) (accepted_ack R d c caps keys (snd (snd auth))))
          (rd_envelopeId d) (rd_envelopeTime d))))))"

definition respond ::
  "hs_crypto \<Rightarrow> 'x responder_options \<Rightarrow> respond_draw \<Rightarrow> negotiation_envelope \<Rightarrow> ('x responder_state, hs_error, negotiation_envelope) eff" where
  "respond K R d e =
     (let initiatorDid = eh_senderDid (ne_header e) in
      eff_bind (check_init K R d e) (\<lambda>c.
      eff_bind (authorize R d initiatorDid c) (\<lambda>auth.
      (case auth of
         Inl reason \<Rightarrow> eff_lift (buildAck K R d initiatorDid c reason)
       | Inr a \<Rightarrow> accept K R d initiatorDid c a))))"

subsection \<open>Envelopes\<close>

lemma sign_verify_any:
  assumes laws: "ed25519_laws pf" and sk: "assertPrivateKey sk = Inr kb" and sig: "sign pf m sk enc = Inr v"
    and nohex: "enc = EncBase64Url \<Longrightarrow> \<not> HEX_PATTERN v"
  shows "verify pf m v (toHex (ed_public pf (take 32 kb))) = Inr True"
proof (cases enc)
  case EncHex
  have len: "length (take 32 kb) = 32" using sk by (auto simp: assertPrivateKey_def split: sum.splits if_splits)
  have "v = toHex (ed_sign pf m (take 32 kb))" using sig sk EncHex by (simp add: sign_def Let_def)
  then show ?thesis using laws len by (simp add: verify_def assertSignature_def assertPublicKey_def normalizeKey_toHex ed25519_laws_def)
next
  case EncBase64Url
  then show ?thesis using sign_verify[OF laws sk] sig nohex by simp
qed

lemma built_envelope:
  assumes "buildEnvelope pf canon p uuid now = Inr e"
  obtains s t where "canonicalize canon (signed_payload (unsigned_envelope p uuid now)) = Inr t"
    "sign pf t (bp_senderPrivateKey p) (case bp_signatureEncoding p of Some x \<Rightarrow> x | None \<Rightarrow> default_encoding (ne_specVersion (unsigned_envelope p uuid now))) = Inr s"
    "e = (unsigned_envelope p uuid now)\<lparr>ne_signature := s\<rparr>"
  using assms by (auto simp: buildEnvelope_def Let_def split: sum.splits)

lemma payload_ignores_signature [simp]: "signed_payload (e\<lparr>ne_signature := s\<rparr>) = signed_payload e"
  by (simp add: signed_payload_def)

lemma built_fields:
  assumes "buildEnvelope pf canon p uuid now = Inr e"
  shows "ne_header e = \<lparr>eh_senderDid = bp_senderDid p, eh_recipientDid = bp_recipientDid p, eh_sessionId = bp_sessionId p,
      eh_sequenceNumber = bp_sequenceNumber p, eh_capabilityTokenRef = bp_capabilityTokenRef p\<rparr>"
    "ne_body e = bp_body p" "ne_messageType e = bp_messageType p" "ne_timestamp e = now" "ne_id e = uuid"
  using assms by (auto simp: buildEnvelope_def unsigned_envelope_def Let_def split: sum.splits)

subsection \<open>What the initiator has checked\<close>

lemmas res_Inr = res_bind_Inr ensure_Inr

lemma parse_is_unit: "(r :: hs_error + unit) = Inr u \<longleftrightarrow> r = Inr ()"
  by simp

lemma verifyEnvelope_True:
  assumes "verifyEnvelope pf canon resolveKey e skew now w = (Inr True, w')"
  shows "within_skew e now skew" "ne_specVersion e \<in> set SUPPORTED_SPEC_VERSIONS"
    "\<exists>k. resolveKey (eh_senderDid (ne_header e)) w = (Inr (Some k), w') \<and> signature_checks pf canon e k"
  using assms by (auto simp: verifyEnvelope_def eff_bind_Inr split: if_splits option.splits)

lemma check_ack_Inr:
  assumes "check_ack K I p d ack w = (Inr res, w')"
  shows "verifyEnvelope (hk_pf K) (hk_canon K) (in_resolvePublicKey I) ack CLOCK_SKEW_MS (ad_verifyNow d) w = (Inr True, w')"
    "ne_messageType ack = HANDSHAKE_ACK" "eh_senderDid (ne_header ack) = ip_responderDid p" "read_ack K I p d (ne_body ack) = Inr res"
  using assms by (auto simp: check_ack_def eff_bind_Inr eff_lift_def)

lemma attempt_Inr:
  assumes "attemptHandshake K I p d w = (Inr res, w')"
  obtains e ack w1 where
    "buildEnvelope (hk_pf K) (hk_canon K) (init_params I p (make_challenge I p d)) (ad_envelopeId d) (ad_envelopeTime d) = Inr e"
    "in_send I e (ip_responderEndpoint p) w = (Inr (Answer (Some ack)), w1)" "check_ack K I p d ack w1 = (Inr res, w')"
proof -
  obtain e w0 out w1 where e: "buildEnvelope (hk_pf K) (hk_canon K) (init_params I p (make_challenge I p d)) (ad_envelopeId d) (ad_envelopeTime d) = Inr e" "w0 = w"
    and o1: "eff_catch (in_send I e (ip_responderEndpoint p)) (\<lambda>err. eff_throw (case err of HsProtocol c \<Rightarrow> HsProtocol c | HsOther \<Rightarrow> HsProtocol HS_TIMEOUT)) w0 = (Inr out, w1)"
    and r: "(case out of TimedOut \<Rightarrow> eff_throw (HsProtocol HS_TIMEOUT) | Answer None \<Rightarrow> eff_throw (HsProtocol HS_INVALID)
      | Answer (Some ack) \<Rightarrow> check_ack K I p d ack) w1 = (Inr res, w')"
    using assms by (auto simp: attemptHandshake_def eff_bind_Inr eff_lift_def)
  have s: "in_send I e (ip_responderEndpoint p) w = (Inr out, w1)" using o1 e(2) by (auto simp: eff_catch_def split: prod.splits sum.splits)
  obtain ack where "out = Answer (Some ack)" using r by (auto split: send_outcome.splits option.splits)
  then show ?thesis using that e(1) s r by simp
qed

lemma read_ack_Inr:
  assumes "read_ack K I p d body = Inr res"
  obtains a enc where "body = AckBody a" "ha_accepted a" "hr_nonce (ha_response a) = ad_nonce d" "hr_challengeId (ha_response a) = ad_challengeId d"
    "encryption_outcome K I p d (ha_response a) (filter (\<lambda>c. c \<in> set (in_capabilities I)) (hr_responderCapabilities (ha_response a))) = Inr enc"
    "res = \<lparr>hs_sessionId = hr_sessionId (ha_response a),
      hs_negotiatedCapabilities = filter (\<lambda>c. c \<in> set (in_capabilities I)) (hr_responderCapabilities (ha_response a)), hs_encryption = enc\<rparr>"
  using assms by (auto simp: read_ack_def Let_def res_Inr split: envelope_body.splits)

lemma encryption_outcome_cases:
  assumes "encryption_outcome K I p d resp caps = Inr enc"
  obtains (off) "in_preference I = PREF_OFF \<or> ad_publicKey d = []" "enc = None"
  | (plain) "in_preference I = PREF_OPT_IN" "enc = Some (MODE_OFF, None)" "\<forall>x. hr_encryption resp = Some x \<longrightarrow> hre_negotiatedMode x = MODE_OFF"
  | (encrypted) x k where "in_preference I \<noteq> PREF_OFF" "ad_publicKey d \<noteq> []" "hr_encryption resp = Some x" "hre_negotiatedMode x = MODE_REQUIRED"
      "accept_encryption K I p d resp x caps = Inr k" "enc = Some (MODE_REQUIRED, Some k)"
proof (cases "in_preference I = PREF_OFF \<or> ad_publicKey d = []")
  case True
  then show ?thesis using off assms by (auto simp: encryption_outcome_def toHex_def)
next
  case False
  have hex: "toHex (ad_publicKey d) \<noteq> []" using False length_toHex[of "ad_publicKey d"] by auto
  show ?thesis
  proof (cases "\<exists>x. hr_encryption resp = Some x \<and> hre_negotiatedMode x = MODE_REQUIRED")
    case True
    then obtain x where x: "hr_encryption resp = Some x" "hre_negotiatedMode x = MODE_REQUIRED" by blast
    then obtain k where "accept_encryption K I p d resp x caps = Inr k" "enc = Some (MODE_REQUIRED, Some k)"
      using assms False hex by (auto simp: encryption_outcome_def res_Inr)
    then show ?thesis using encrypted x False by blast
  next
    case plain': False
    have m: "m = MODE_OFF" if "m \<noteq> MODE_REQUIRED" for m using that by (cases m) auto
    have "in_preference I \<noteq> PREF_REQUIRED" "enc = Some (MODE_OFF, None)"
      using assms False hex plain' by (auto simp: encryption_outcome_def res_Inr split: option.splits if_splits)
    moreover have "in_preference I = PREF_OPT_IN" using False calculation(1) by (cases "in_preference I") auto
    ultimately show ?thesis using plain plain' m by blast
  qed
qed

lemma accept_encryption_Inr:
  assumes "accept_encryption K I p d resp x caps = Inr k"
  shows "\<exists>rpk. hre_responderEphemeralPublicKey x = Some rpk \<and> k = \<lparr>dk_initiatorEphemeralPublicKeyHex = toHex (ad_publicKey d),
      dk_responderEphemeralPublicKeyHex = rpk, dk_transcriptHash = dk_transcriptHash k\<rparr> \<and>
    computeTranscriptHash K (initiator_transcript I p d resp x caps rpk) = Inr (dk_transcriptHash k) \<and>
    confirmation (dk_transcriptHash k) = hre_transcriptHashConfirmation x"
  using assms by (auto simp: accept_encryption_def need_value_def res_Inr split: option.splits if_splits)


subsection \<open>What the responder has checked\<close>

lemma outside_eff_fields [simp]:
  "rs_nonces (snd (outside_eff m st)) = rs_nonces st" "rs_lastHandshakeResult (snd (outside_eff m st)) = rs_lastHandshakeResult st"
  by (simp_all add: outside_eff_def split: prod.splits)

lemma outside_eff_keeps:
  assumes "outside_eff m st = (r, st')"
  shows "rs_nonces st' = rs_nonces st" "rs_lastHandshakeResult st' = rs_lastHandshakeResult st"
  using assms by (auto simp: outside_eff_def split: prod.splits)

definition responder_result :: "respond_draw \<Rightarrow> string list \<Rightarrow> derived_keys option \<Rightarrow> handshake_result" where
  "responder_result d caps keys =
     \<lparr>hs_sessionId = rd_sessionId d, hs_negotiatedCapabilities = caps, hs_encryption = map_option (\<lambda>k. (MODE_REQUIRED, Some k)) keys\<rparr>"

definition shared_capabilities :: "'x responder_options \<Rightarrow> handshake_challenge \<Rightarrow> string list" where
  "shared_capabilities R c = filter (\<lambda>x. x \<in> set (re_capabilities R)) (hc_initiatorCapabilities c)"

lemma refusal_not_accepted:
  assumes "buildAck K R d recipient c reason = Inr env" "ne_body env = AckBody a"
  shows "\<not> ha_accepted a"
  using assms built_fields(2)[of _ _ _ _ _ env] by (force simp: buildAck_def ack_params_def)

lemma persist_keeps:
  assumes "persist_session R d who caps auth encrypted st = (r, st')"
  shows "rs_nonces st' = rs_nonces st" "rs_lastHandshakeResult st' = rs_lastHandshakeResult st"
proof -
  have "rs_nonces st' = rs_nonces st \<and> rs_lastHandshakeResult st' = rs_lastHandshakeResult st"
  proof (cases "re_sessionStore R")
    case None
    then show ?thesis using assms by (simp add: persist_session_def)
  next
    case (Some create)
    obtain pr tok fp where auth: "auth = (pr, tok, fp)" by (cases auth)
    show ?thesis using assms
      unfolding persist_session_def Some auth option.case prod.case eff_catch_def eff_bind_def
      by (auto split: prod.splits sum.splits dest: outside_eff_keeps)
  qed
  then show "rs_nonces st' = rs_nonces st" "rs_lastHandshakeResult st' = rs_lastHandshakeResult st" by simp_all
qed

lemma accept_accepted:
  fixes R :: "'x responder_options" and st st' :: "'x responder_state"
  assumes run: "accept K R d who c auth st = (Inr env, st')" and body: "ne_body env = AckBody a" and ok: "ha_accepted a"
  obtains keys where "negotiate K R d c (shared_capabilities R c) auth = Inr keys"
    "a = accepted_ack R d c (shared_capabilities R c) keys (snd (snd auth))"
    "rs_lastHandshakeResult st' = Some (responder_result d (shared_capabilities R c) keys)" "rs_nonces st' = rs_nonces st"
proof -
  let ?caps = "shared_capabilities R c"
  define finish where "finish keys stored =
    (if \<not> stored then eff_lift (buildAck K R d who c ''Session persistence failed'')
     else eff_bind (\<lambda>st :: 'x responder_state. (Inr (), st\<lparr>rs_lastHandshakeResult := Some (responder_result d ?caps keys)\<rparr>)) (\<lambda>_.
       eff_lift (buildEnvelope (hk_pf K) (hk_canon K) (ack_params R who (Some (rd_sessionId d)) (accepted_ack R d c ?caps keys (snd (snd auth))))
         (rd_envelopeId d) (rd_envelopeTime d))))" for keys stored
  have acc: "accept K R d who c auth =
    eff_bind (eff_lift (negotiate K R d c ?caps auth)) (\<lambda>keys. eff_bind (persist_session R d who ?caps auth (keys \<noteq> None)) (\<lambda>stored. finish keys stored))"
    unfolding accept_def finish_def shared_capabilities_def responder_result_def Let_def by (rule refl)
  obtain keys st0 where n: "eff_lift (negotiate K R d c ?caps auth) st = (Inr keys, st0)"
    and p0: "eff_bind (persist_session R d who ?caps auth (keys \<noteq> None)) (\<lambda>stored. finish keys stored) st0 = (Inr env, st')"
    using run unfolding acc eff_bind_Inr[of "eff_lift _"] by blast
  obtain stored st1 where p: "persist_session R d who ?caps auth (keys \<noteq> None) st0 = (Inr stored, st1)"
    and r: "finish keys stored st1 = (Inr env, st')"
    using p0 unfolding eff_bind_Inr by blast
  have stored
  proof (rule ccontr)
    assume "\<not> stored"
    then have "buildAck K R d who c ''Session persistence failed'' = Inr env" using r by (simp add: finish_def eff_lift_def)
    from refusal_not_accepted[OF this body] show False using ok by simp
  qed
  then have b: "buildEnvelope (hk_pf K) (hk_canon K) (ack_params R who (Some (rd_sessionId d)) (accepted_ack R d c ?caps keys (snd (snd auth))))
      (rd_envelopeId d) (rd_envelopeTime d) = Inr env"
    and st': "st' = st1\<lparr>rs_lastHandshakeResult := Some (responder_result d ?caps keys)\<rparr>"
    using r by (auto simp: finish_def eff_bind_def eff_lift_def)
  have a: "a = accepted_ack R d c ?caps keys (snd (snd auth))" using built_fields(2)[OF b] body by (simp add: ack_params_def)
  have n': "negotiate K R d c ?caps auth = Inr keys" "st0 = st" using n by (simp_all add: eff_lift_def)
  show thesis using that[OF n'(1) a] st' persist_keeps(1)[OF p] n'(2) by simp
qed

lemma respond_accepted:
  assumes run: "respond K R d e st = (Inr env, st')" and body: "ne_body env = AckBody a" and ok: "ha_accepted a"
  obtains c auth keys st1 st2 where "check_init K R d e st = (Inr c, st1)" "authorize R d (eh_senderDid (ne_header e)) c st1 = (Inr (Inr auth), st2)"
    "negotiate K R d c (shared_capabilities R c) auth = Inr keys"
    "a = accepted_ack R d c (shared_capabilities R c) keys (snd (snd auth))"
    "rs_lastHandshakeResult st' = Some (responder_result d (shared_capabilities R c) keys)" "rs_nonces st' = rs_nonces st2"
proof -
  let ?who = "eh_senderDid (ne_header e)"
  obtain c st1 answer st2 where i: "check_init K R d e st = (Inr c, st1)" and au: "authorize R d ?who c st1 = (Inr answer, st2)"
    and r: "(case answer of Inl reason \<Rightarrow> eff_lift (buildAck K R d ?who c reason) | Inr a \<Rightarrow> accept K R d ?who c a) st2 = (Inr env, st')"
    using run unfolding respond_def Let_def eff_bind_Inr by blast
  have "\<exists>auth. answer = Inr auth"
  proof (cases answer)
    case (Inl why)
    then have "buildAck K R d ?who c why = Inr env" using r by (simp add: eff_lift_def)
    then show ?thesis using refusal_not_accepted body ok by blast
  next
    case (Inr auth)
    then show ?thesis by blast
  qed
  then obtain auth where "answer = Inr auth" ..
  then have au': "authorize R d ?who c st1 = (Inr (Inr auth), st2)" and r': "accept K R d ?who c auth st2 = (Inr env, st')" using au r by simp_all
  show thesis by (rule accept_accepted[OF r' body ok]) (rule that[OF i au'])
qed


lemma authorize_Inr:
  assumes run: "authorize R d who c st = (Inr (Inr (pr, tok, fp)), st')"
  obtains st1 st2 where "\<not> challenge_expired c (rd_now d)" "outside_eff (re_verifyInitiator R who) st = (Inr True, st1)"
    "claim_nonce R (hc_nonce c) (hc_expiresAt c) st1 = (Inr True, st2)" "hav_check R who c st2 = (Inr (Inr (pr, tok, fp)), st')"
  using run unfolding authorize_def by (auto simp: eff_bind_Inr split: if_splits)

lemma hav_check_Inr:
  assumes "hav_check R who c st = (Inr (Inr (pr, tok, fp)), st')"
  shows "pr = (case hc_principalDid c of None \<Rightarrow> who | Some q \<Rightarrow> q)" "tok = hc_capabilityTokenId c" "rs_nonces st' = rs_nonces st"
    "\<forall>validate. re_authorizationValidator R = Some validate \<longrightarrow> outside_eff (validate who pr tok) st = (Inr (HavAccepted pr tok fp), st')"
proof -
  have "pr = (case hc_principalDid c of None \<Rightarrow> who | Some q \<Rightarrow> q) \<and> tok = hc_capabilityTokenId c \<and> rs_nonces st' = rs_nonces st \<and>
    (\<forall>validate. re_authorizationValidator R = Some validate \<longrightarrow> outside_eff (validate who pr tok) st = (Inr (HavAccepted pr tok fp), st'))"
  proof (cases "re_authorizationValidator R")
    case None
    then show ?thesis using assms by (simp add: hav_check_def Let_def)
  next
    case (Some validate)
    let ?pr = "case hc_principalDid c of None \<Rightarrow> who | Some q \<Rightarrow> q"
    obtain r where r: "outside_eff (validate who ?pr (hc_capabilityTokenId c)) st = (Inr r, st')"
      and "(case r of HavRefused _ \<Rightarrow> Inl ''Authorization validation failed''
        | HavAccepted pr' tok' fp \<Rightarrow> if pr' \<noteq> ?pr \<or> tok' \<noteq> hc_capabilityTokenId c
            then Inl ''Authorization fields inconsistent with the challenge (post-HAV values diverge from the challenge input)'' else Inr (pr', tok', fp)) = Inr (pr, tok, fp)"
      using assms Some unfolding hav_check_def Let_def by (auto simp: eff_bind_Inr)
    then have "r = HavAccepted pr tok fp" "pr = ?pr" "tok = hc_capabilityTokenId c" by (auto split: hav_result.splits if_splits)
    then show ?thesis using r outside_eff_keeps(1)[OF r] Some by simp
  qed
  then show "pr = (case hc_principalDid c of None \<Rightarrow> who | Some q \<Rightarrow> q)" "tok = hc_capabilityTokenId c" "rs_nonces st' = rs_nonces st"
    "\<forall>validate. re_authorizationValidator R = Some validate \<longrightarrow> outside_eff (validate who pr tok) st = (Inr (HavAccepted pr tok fp), st')"
    by blast+
qed

lemma check_init_Inr:
  assumes "check_init K R d e st = (Inr c, st')"
  shows "ne_body e = InitBody c" "hc_initiatorDid c = eh_senderDid (ne_header e)" "hc_responderDid c = re_did R" "rs_nonces st' = rs_nonces st"
    "outside_eff (verifyEnvelope (hk_pf K) (hk_canon K) (re_resolvePublicKey R) e CLOCK_SKEW_MS (rd_verifyNow d)) st = (Inr True, st')"
proof -
  have b: "ne_body e = InitBody c \<and> hc_initiatorDid c = eh_senderDid (ne_header e) \<and> hc_responderDid c = re_did R \<and>
    outside_eff (verifyEnvelope (hk_pf K) (hk_canon K) (re_resolvePublicKey R) e CLOCK_SKEW_MS (rd_verifyNow d)) st = (Inr True, st')"
    using assms by (auto simp: check_init_def eff_bind_Inr eff_lift_def split: envelope_body.splits)
  then show "ne_body e = InitBody c" "hc_initiatorDid c = eh_senderDid (ne_header e)" "hc_responderDid c = re_did R" "rs_nonces st' = rs_nonces st"
    "outside_eff (verifyEnvelope (hk_pf K) (hk_canon K) (re_resolvePublicKey R) e CLOCK_SKEW_MS (rd_verifyNow d)) st = (Inr True, st')"
    using outside_eff_keeps(1) by blast+
qed

lemma negotiate_keys:
  assumes "negotiate K R d c caps (pr, tok, fp) = Inr keys"
  shows "(keys \<noteq> None) = (initiator_preference c = PREF_REQUIRED \<or> re_preference R = PREF_REQUIRED)"
    "keys = Some k \<Longrightarrow> respond_keys K R d c caps (pr, tok, fp) = Inr k \<and> initiator_preference c \<noteq> PREF_OFF \<and> tok \<noteq> None \<and> fp \<noteq> None \<and> fp \<noteq> Some []"
  using assms by (auto simp: negotiate_def Let_def res_Inr split: if_splits option.splits)


subsection \<open>Nonces\<close>

lemma claim_once:
  assumes "re_nonceStore R = None" "claim_nonce R n x st = (r, st')"
  shows "set (rs_nonces st) \<subseteq> set (rs_nonces st')" "r = Inr True \<Longrightarrow> n \<notin> set (rs_nonces st) \<and> n \<in> set (rs_nonces st')"
  using assms by (auto simp: claim_nonce_def split: if_splits)

definition keeps_nonces :: "('x responder_state, hs_error, 'a) eff \<Rightarrow> bool" where
  "keeps_nonces m = (\<forall>st. set (rs_nonces st) \<subseteq> set (rs_nonces (snd (m st))))"

lemma keeps_nonces_bind: "keeps_nonces m \<Longrightarrow> (\<And>a. keeps_nonces (k a)) \<Longrightarrow> keeps_nonces (eff_bind m k)"
  unfolding keeps_nonces_def eff_bind_def by (fastforce split: prod.splits sum.splits)

lemma keeps_nonces_simple:
  "keeps_nonces (eff_return a)" "keeps_nonces (eff_throw e)" "keeps_nonces (eff_lift r)" "keeps_nonces (eff_guard b e)" "keeps_nonces (outside_eff m)"
  by (simp_all add: keeps_nonces_def eff_return_def eff_throw_def eff_lift_def eff_guard_def)

lemma keeps_nonces_claim: "re_nonceStore R = None \<Longrightarrow> keeps_nonces (claim_nonce R n x)"
  unfolding keeps_nonces_def using claim_once(1) by (metis prod.collapse)

lemma keeps_nonces_persist: "keeps_nonces (persist_session R d who caps auth enc)"
  unfolding keeps_nonces_def using persist_keeps(1) by (metis order_refl prod.collapse)

lemma keeps_nonces_if: "(b \<Longrightarrow> keeps_nonces m) \<Longrightarrow> (\<not> b \<Longrightarrow> keeps_nonces n) \<Longrightarrow> keeps_nonces (if b then m else n)"
  by simp

lemmas keeps_nonces_rules = keeps_nonces_bind keeps_nonces_simple keeps_nonces_claim keeps_nonces_persist keeps_nonces_if

lemma keeps_nonces_check: "keeps_nonces (check_init K R d e)"
  unfolding check_init_def by (cases "ne_body e") (auto intro!: keeps_nonces_rules)

lemma keeps_nonces_authorize: "re_nonceStore R = None \<Longrightarrow> keeps_nonces (authorize R d who c)"
proof -
  assume store: "re_nonceStore R = None"
  have h: "keeps_nonces (hav_check R who c)"
    unfolding hav_check_def Let_def by (cases "re_authorizationValidator R") (auto intro!: keeps_nonces_rules)
  show ?thesis unfolding authorize_def using store by (intro keeps_nonces_rules h)
qed

lemma keeps_nonces_accept: "keeps_nonces (accept K R d who c auth)"
proof -
  have "keeps_nonces (\<lambda>st. (Inr (), st\<lparr>rs_lastHandshakeResult := r\<rparr>))" for r by (simp add: keeps_nonces_def)
  then show ?thesis unfolding accept_def Let_def by (intro keeps_nonces_rules)
qed

lemma keeps_nonces_respond: "re_nonceStore R = None \<Longrightarrow> keeps_nonces (respond K R d e)"
  unfolding respond_def Let_def
  by (intro keeps_nonces_bind keeps_nonces_check keeps_nonces_authorize) (auto split: sum.splits intro: keeps_nonces_simple keeps_nonces_accept)

lemma accepted_claims:
  assumes store: "re_nonceStore R = None" and run: "respond K R d e st = (Inr env, st')" and body: "ne_body env = AckBody a" and ok: "ha_accepted a"
  shows "hr_nonce (ha_response a) \<notin> set (rs_nonces st)" "hr_nonce (ha_response a) \<in> set (rs_nonces st')"
proof -
  obtain c auth keys st1 st2 where i: "check_init K R d e st = (Inr c, st1)" and au: "authorize R d (eh_senderDid (ne_header e)) c st1 = (Inr (Inr auth), st2)"
    and a: "a = accepted_ack R d c (shared_capabilities R c) keys (snd (snd auth))" and st': "rs_nonces st' = rs_nonces st2"
    using respond_accepted[OF run body ok] by metis
  obtain pr tok fp where auth: "auth = (pr, tok, fp)" by (cases auth)
  obtain s1 s2 where s1: "outside_eff (re_verifyInitiator R (eh_senderDid (ne_header e))) st1 = (Inr True, s1)"
    and s2: "claim_nonce R (hc_nonce c) (hc_expiresAt c) s1 = (Inr True, s2)" and h: "hav_check R (eh_senderDid (ne_header e)) c s2 = (Inr (Inr (pr, tok, fp)), st2)"
    using authorize_Inr[OF au[unfolded auth]] by metis
  have "hc_nonce c \<notin> set (rs_nonces s1)" "hc_nonce c \<in> set (rs_nonces s2)" using claim_once(2)[OF store s2] by simp_all
  then show "hr_nonce (ha_response a) \<notin> set (rs_nonces st)" "hr_nonce (ha_response a) \<in> set (rs_nonces st')"
    using check_init_Inr(4)[OF i] outside_eff_keeps(1)[OF s1] hav_check_Inr(3)[OF h] st' by (simp_all add: a accepted_ack_def)
qed

text \<open>A responder that serves one envelope after the other, and the nonces of the answers that accept.\<close>

fun respond_all ::
  "hs_crypto \<Rightarrow> 'x responder_options \<Rightarrow> (respond_draw \<times> negotiation_envelope) list \<Rightarrow> 'x responder_state
    \<Rightarrow> (hs_error + negotiation_envelope) list" where
  "respond_all K R [] st = []"
| "respond_all K R ((d, e) # calls) st = (case respond K R d e st of (r, st') \<Rightarrow> r # respond_all K R calls st')"

fun accepted_nonces :: "(hs_error + negotiation_envelope) list \<Rightarrow> string list" where
  "accepted_nonces [] = []"
| "accepted_nonces (r # rs) =
     (case r of
        Inr env \<Rightarrow> (case ne_body env of AckBody a \<Rightarrow> if ha_accepted a then hr_nonce (ha_response a) # accepted_nonces rs else accepted_nonces rs
                                   | _ \<Rightarrow> accepted_nonces rs)
      | Inl _ \<Rightarrow> accepted_nonces rs)"

lemma accepted_nonces_cases:
  obtains env a where "r = Inr env" "ne_body env = AckBody a" "ha_accepted a" "accepted_nonces (r # rs) = hr_nonce (ha_response a) # accepted_nonces rs"
  | "accepted_nonces (r # rs) = accepted_nonces rs"
proof (cases "\<exists>env a. r = Inr env \<and> ne_body env = AckBody a \<and> ha_accepted a")
  case True
  then show thesis using that(1) by auto
next
  case False
  then have "accepted_nonces (r # rs) = accepted_nonces rs" by (auto split: sum.split envelope_body.split)
  then show thesis by (rule that(2))
qed

lemma served_nonces_fresh:
  assumes store: "re_nonceStore R = None"
  shows "distinct (accepted_nonces (respond_all K R calls st)) \<and> set (accepted_nonces (respond_all K R calls st)) \<inter> set (rs_nonces st) = {}"
proof (induction calls arbitrary: st)
  case (Cons call calls)
  obtain d e where call: "call = (d, e)" by (cases call)
  obtain r st' where r: "respond K R d e st = (r, st')" by (cases "respond K R d e st")
  have mono: "set (rs_nonces st) \<subseteq> set (rs_nonces st')" using keeps_nonces_respond[OF store] r unfolding keeps_nonces_def by (metis snd_conv)
  have run: "respond_all K R (call # calls) st = r # respond_all K R calls st'" using call r by simp
  note IH = Cons.IH[of st']
  show ?case
  proof (rule accepted_nonces_cases[of r "respond_all K R calls st'"])
    fix env a assume a: "r = Inr env" "ne_body env = AckBody a" "ha_accepted a"
      "accepted_nonces (r # respond_all K R calls st') = hr_nonce (ha_response a) # accepted_nonces (respond_all K R calls st')"
    note n = accepted_claims[OF store r[unfolded a(1)] a(2,3)]
    show ?case unfolding run a(4) using IH n mono by auto
  next
    assume s: "accepted_nonces (r # respond_all K R calls st') = accepted_nonces (respond_all K R calls st')"
    show ?case unfolding run s using IH mono by blast
  qed
qed simp


subsection \<open>Both sides\<close>

definition hs_keys :: "(negotiated_mode \<times> derived_keys option) option \<Rightarrow> derived_keys option" where
  "hs_keys enc = (case enc of None \<Rightarrow> None | Some (_, k) \<Rightarrow> k)"

lemma offered:
  "initiator_preference (make_challenge I p d) = (if in_preference I \<noteq> PREF_OFF \<and> ad_publicKey d \<noteq> [] then in_preference I else PREF_OFF)"
  using length_toHex[of "ad_publicKey d"] by (auto simp: initiator_preference_def make_challenge_def toHex_def)

lemma respond_keys_transcript:
  assumes "respond_keys K R rd (make_challenge I p d) caps (pr, tok, fp) = Inr k" and offer: "in_preference I \<noteq> PREF_OFF" "ad_publicKey d \<noteq> []"
    and pr: "pr = (case ip_principalDid p of None \<Rightarrow> in_did I | Some q \<Rightarrow> q)" and tok: "tok = ip_capabilityTokenId p" and did: "re_did R = ip_responderDid p"
    and fp: "fp \<noteq> None" "fp \<noteq> Some []"
    and resp: "resp = ha_response (accepted_ack R rd (make_challenge I p d) caps (Some k) fp)" and x: "hr_encryption resp = Some x"
  shows "hre_responderEphemeralPublicKey x = Some (dk_responderEphemeralPublicKeyHex k)"
    "dk_initiatorEphemeralPublicKeyHex k = toHex (ad_publicKey d)"
    "computeTranscriptHash K (initiator_transcript I p d resp x caps (dk_responderEphemeralPublicKeyHex k)) = Inr (dk_transcriptHash k)"
proof -
  have hex: "toHex (ad_publicKey d) \<noteq> []" using offer(2) length_toHex[of "ad_publicKey d"] by auto
  have x': "x = \<lparr>hre_negotiatedMode = MODE_REQUIRED, hre_responderPreference = re_preference R,
      hre_responderEphemeralPublicKey = Some (dk_responderEphemeralPublicKeyHex k), hre_transcriptHashConfirmation = confirmation (dk_transcriptHash k),
      hre_authorizedTokenFingerprint = fp\<rparr>"
    using x fp by (simp add: resp accepted_ack_def encryption_for_response_def)
  have t: "hr_timestamp resp = rd_responseTime rd" by (simp add: resp accepted_ack_def)
  obtain th where th: "computeTranscriptHash K
      \<lparr>ti_initiatorDid = in_did I, ti_responderDid = re_did R, ti_initiatorCapabilities = in_capabilities I,
       ti_responderCapabilities = caps, ti_initiatorPreference = initiator_preference (make_challenge I p d), ti_responderPreference = re_preference R,
       ti_negotiatedEncryptionMode = MODE_REQUIRED, ti_I_epk = toHex (ad_publicKey d), ti_R_epk = toHex (rd_publicKey rd), ti_nonce = ad_nonce d,
       ti_initTimestamp = toISOString (ad_now d), ti_responseTimestamp = rd_responseTime rd, ti_authorizedPrincipalDid = pr,
       ti_authorizedTokenId = tok, ti_authorizedTokenFingerprint = (case fp of None \<Rightarrow> [] | Some f \<Rightarrow> f)\<rparr> = Inr th"
    and k: "k = \<lparr>dk_initiatorEphemeralPublicKeyHex = toHex (ad_publicKey d), dk_responderEphemeralPublicKeyHex = toHex (rd_publicKey rd), dk_transcriptHash = th\<rparr>"
    using assms(1) offer hex by (auto simp: respond_keys_def Let_def res_Inr make_challenge_def)
  show "hre_responderEphemeralPublicKey x = Some (dk_responderEphemeralPublicKeyHex k)" by (simp add: x')
  show "dk_initiatorEphemeralPublicKeyHex k = toHex (ad_publicKey d)" by (simp add: k)
  show "computeTranscriptHash K (initiator_transcript I p d resp x caps (dk_responderEphemeralPublicKeyHex k)) = Inr (dk_transcriptHash k)"
    using th offer by (simp add: initiator_transcript_def x' t k did pr tok offered)
qed

lemma encryption_agrees:
  assumes neg: "negotiate K R rd (make_challenge I p d) caps (pr, tok, fp) = Inr keys"
    and pr: "pr = (case ip_principalDid p of None \<Rightarrow> in_did I | Some q \<Rightarrow> q)" and tok: "tok = ip_capabilityTokenId p" and did: "re_did R = ip_responderDid p"
    and out: "encryption_outcome K I p d (ha_response (accepted_ack R rd (make_challenge I p d) caps keys fp)) caps = Inr enc"
  shows "hs_keys enc = keys"
proof (cases keys)
  case None
  have e: "hr_encryption (ha_response (accepted_ack R rd (make_challenge I p d) caps keys fp)) = Some x \<Longrightarrow> hre_negotiatedMode x = MODE_OFF" for x
    using None by (auto simp: accepted_ack_def encryption_for_response_def split: if_splits)
  show ?thesis using out
    by (rule encryption_outcome_cases) (use None e in \<open>auto simp: hs_keys_def\<close>)
next
  case (Some k)
  note n = negotiate_keys(2)[OF neg Some]
  have offer: "in_preference I \<noteq> PREF_OFF" "ad_publicKey d \<noteq> []" using n offered[of I p d] by (auto split: if_splits)
  let ?resp = "ha_response (accepted_ack R rd (make_challenge I p d) caps keys fp)"
  show ?thesis using out
  proof (rule encryption_outcome_cases)
    assume "in_preference I = PREF_OFF \<or> ad_publicKey d = []"
    then show ?thesis using offer by simp
  next
    assume "\<forall>x. hr_encryption ?resp = Some x \<longrightarrow> hre_negotiatedMode x = MODE_OFF"
    then show ?thesis using Some by (simp add: accepted_ack_def encryption_for_response_def)
  next
    fix x k' assume x: "hr_encryption ?resp = Some x" and acc: "accept_encryption K I p d ?resp x caps = Inr k'" and enc: "enc = Some (MODE_REQUIRED, Some k')"
    note r = respond_keys_transcript[of K R rd I p d caps pr tok fp k ?resp x, OF _ offer pr tok did]
    obtain rpk where rpk: "hre_responderEphemeralPublicKey x = Some rpk" and k': "k' = \<lparr>dk_initiatorEphemeralPublicKeyHex = toHex (ad_publicKey d),
        dk_responderEphemeralPublicKeyHex = rpk, dk_transcriptHash = dk_transcriptHash k'\<rparr>"
      and th: "computeTranscriptHash K (initiator_transcript I p d ?resp x caps rpk) = Inr (dk_transcriptHash k')"
      using accept_encryption_Inr[OF acc] by blast
    have "dk_responderEphemeralPublicKeyHex k = rpk" "dk_initiatorEphemeralPublicKeyHex k = toHex (ad_publicKey d)" "dk_transcriptHash k = dk_transcriptHash k'"
      using r n x rpk th Some by auto
    then have "k = k'" using k' by (metis derived_keys.surjective unit.exhaust)
    then show ?thesis using Some enc by (simp add: hs_keys_def)
  qed
qed

lemma attempts_Inr:
  "attempts try i n w = (Inr res, w') \<Longrightarrow> \<exists>j v. i \<le> j \<and> j < i + n \<and> try j v = (Inr res, w')"
proof (induction n arbitrary: i w)
  case (Suc n)
  obtain r v where r: "try i w = (r, v)" by (cases "try i w")
  show ?case
  proof (cases r)
    case (Inl err)
    then have "attempts try (i + 1) n v = (Inr res, w')" using Suc.prems r by (auto simp: eff_catch_def split: if_splits)
    from Suc.IH[OF this] obtain j u where "i + 1 \<le> j" "j < i + 1 + n" "try j u = (Inr res, w')" by blast
    then show ?thesis by (intro exI[of _ j] exI[of _ u]) simp
  next
    case (Inr x)
    then have "try i w = (Inr res, w')" using Suc.prems r by (simp add: eff_catch_def)
    then show ?thesis by (intro exI[of _ i] exI[of _ w]) simp
  qed
qed simp

lemma attempt_bound:
  assumes run: "attemptHandshake K I p d w = (Inr res, w')"
  shows "\<exists>ack a key w1. in_resolvePublicKey I (ip_responderDid p) w1 = (Inr (Some key), w') \<and> signature_checks (hk_pf K) (hk_canon K) ack key \<and>
    within_skew ack (ad_verifyNow d) CLOCK_SKEW_MS \<and> eh_senderDid (ne_header ack) = ip_responderDid p \<and>
    ne_body ack = AckBody a \<and> ha_accepted a \<and> hr_nonce (ha_response a) = ad_nonce d \<and> hr_challengeId (ha_response a) = ad_challengeId d \<and>
    hs_sessionId res = hr_sessionId (ha_response a) \<and> set (hs_negotiatedCapabilities res) \<subseteq> set (in_capabilities I) \<and>
    (in_preference I = PREF_REQUIRED \<and> ad_publicKey d \<noteq> [] \<longrightarrow>
      (\<exists>x k. hr_encryption (ha_response a) = Some x \<and> hs_encryption res = Some (MODE_REQUIRED, Some k) \<and>
        computeTranscriptHash K (initiator_transcript I p d (ha_response a) x (hs_negotiatedCapabilities res) (dk_responderEphemeralPublicKeyHex k)) =
          Inr (dk_transcriptHash k) \<and>
        confirmation (dk_transcriptHash k) = hre_transcriptHashConfirmation x))"
proof -
  obtain ack w1 where c: "check_ack K I p d ack w1 = (Inr res, w')" using attempt_Inr[OF run] by metis
  note v = verifyEnvelope_True[OF check_ack_Inr(1)[OF c]] and sender = check_ack_Inr(3)[OF c]
  obtain key where key: "in_resolvePublicKey I (ip_responderDid p) w1 = (Inr (Some key), w')" "signature_checks (hk_pf K) (hk_canon K) ack key"
    using v(3) sender by auto
  obtain a enc where a: "ne_body ack = AckBody a" "ha_accepted a" "hr_nonce (ha_response a) = ad_nonce d" "hr_challengeId (ha_response a) = ad_challengeId d"
    and out: "encryption_outcome K I p d (ha_response a) (filter (\<lambda>c. c \<in> set (in_capabilities I)) (hr_responderCapabilities (ha_response a))) = Inr enc"
    and res: "res = \<lparr>hs_sessionId = hr_sessionId (ha_response a),
      hs_negotiatedCapabilities = filter (\<lambda>c. c \<in> set (in_capabilities I)) (hr_responderCapabilities (ha_response a)), hs_encryption = enc\<rparr>"
    using read_ack_Inr[OF check_ack_Inr(4)[OF c]] by blast
  have enc: "\<exists>x k. hr_encryption (ha_response a) = Some x \<and> hs_encryption res = Some (MODE_REQUIRED, Some k) \<and>
      computeTranscriptHash K (initiator_transcript I p d (ha_response a) x (hs_negotiatedCapabilities res) (dk_responderEphemeralPublicKeyHex k)) =
        Inr (dk_transcriptHash k) \<and> confirmation (dk_transcriptHash k) = hre_transcriptHashConfirmation x"
    if req: "in_preference I = PREF_REQUIRED" "ad_publicKey d \<noteq> []"
    using out
  proof (rule encryption_outcome_cases)
    fix x k assume x: "hr_encryption (ha_response a) = Some x" and e: "enc = Some (MODE_REQUIRED, Some k)"
      and acc: "accept_encryption K I p d (ha_response a) x (filter (\<lambda>c. c \<in> set (in_capabilities I)) (hr_responderCapabilities (ha_response a))) = Inr k"
    obtain rpk where "dk_responderEphemeralPublicKeyHex k = rpk"
      "computeTranscriptHash K (initiator_transcript I p d (ha_response a) x
        (filter (\<lambda>c. c \<in> set (in_capabilities I)) (hr_responderCapabilities (ha_response a))) rpk) = Inr (dk_transcriptHash k)"
      "confirmation (dk_transcriptHash k) = hre_transcriptHashConfirmation x"
      using accept_encryption_Inr[OF acc] by (metis derived_keys.select_convs(2))
    then show ?thesis using x e by (auto simp: res)
  qed (use req in auto)
  show ?thesis
    by (rule exI[of _ ack], rule exI[of _ a], rule exI[of _ key], rule exI[of _ w1]) (use key v(1) sender a enc in \<open>auto simp: res\<close>)
qed

subsection \<open>A handshake that completes\<close>

lemma opt_prop_all: "list_all P (opt_prop k f v) = (\<forall>x. v = Some x \<longrightarrow> P (k, f x))"
  by (simp add: opt_prop_def split: option.split)

lemma strings_serializable [simp]: "assertSerializable (strings_json xs)"
  by (induction xs) (simp_all add: strings_json_def)

lemma handshake_serializable:
  assumes "\<And>j. ne_body e = OtherBody j \<Longrightarrow> assertSerializable (JObj j)"
  shows "assertSerializable (JObj (signed_payload e))"
proof -
  have "assertSerializable (JObj (header_json (ne_header e)))"
    by (simp add: header_json_def opt_prop_all or_null_def split: option.split)
  moreover have "assertSerializable (JObj (body_json (ne_body e)))"
    using assms by (cases "ne_body e") (simp_all add: body_json_def challenge_json_def response_json_def opt_prop_all)
  ultimately show ?thesis by (simp add: signed_payload_def)
qed

lemma get_prop_Cons: "get_prop ((k, v) # ps) key = (if k = key then v else get_prop ps key)"
  by (simp add: get_prop_def)

lemma parse_accepts:
  assumes "ne_id e \<noteq> []" "semver (ne_specVersion e)" "valid_did (Some (eh_senderDid (ne_header e)))" "valid_did (Some (eh_recipientDid (ne_header e)))"
    "ne_signature e \<noteq> []" "ne_timestamp e \<noteq> []" "eh_capabilityTokenRef (ne_header e) = None \<or> ne_specVersion e = ''0.2.0''"
  shows "parseEnvelope (envelope_json e) = Inr ()"
proof -
  have v: "ne_specVersion e \<noteq> []" using assms(2) by (auto simp: semver_def Let_def)
  have dids: "eh_senderDid (ne_header e) \<noteq> []" "eh_recipientDid (ne_header e) \<noteq> []" using assms(3,4) by (auto simp: valid_did_def isDidAgent_def isDidKey_def)
  have ref: "get_prop (header_json (ne_header e)) ''capabilityTokenRef'' = JUndef \<or> ne_specVersion e = ''0.2.0''"
    using assms(7) by (auto simp: header_json_def get_prop_Cons opt_prop_def get_prop_def split: option.split)
  have m: "message_text (ne_messageType e) \<in> set (map snd MESSAGE_TYPES)" by (cases "ne_messageType e") (simp_all add: message_text_def MESSAGE_TYPES_def)
  have h: "str_prop (header_json (ne_header e)) ''senderDid'' = Some (eh_senderDid (ne_header e))"
    "str_prop (header_json (ne_header e)) ''recipientDid'' = Some (eh_recipientDid (ne_header e))"
    using dids by (simp_all add: str_prop_def header_json_def get_prop_Cons)
  show ?thesis
    using assms v m h ref
    by (simp add: parseEnvelope_def Let_def envelope_json_def signed_payload_def str_prop_def obj_prop_def get_prop_Cons ensure_def)
qed

lemma built_accepted:
  assumes built: "buildEnvelope pf canon p uuid now = Inr e" and laws: "ed25519_laws pf" and key: "assertPrivateKey (bp_senderPrivateKey p) = Inr kb"
    and nohex: "default_encoding (ne_specVersion e) = EncBase64Url \<Longrightarrow> \<not> HEX_PATTERN (ne_signature e)" and enc: "bp_signatureEncoding p = None"
    and resolved: "resolveKey (bp_senderDid p) w = (Inr (Some (toHex (ed_public pf (take 32 kb)))), w')" "ed_public pf (take 32 kb) \<noteq> []"
    and wf: "uuid \<noteq> []" "ne_signature e \<noteq> []" "isDidAgent (bp_senderDid p)" "isDidAgent (bp_recipientDid p)" "bp_specVersion p = None"
    and time: "getTime now = Some t" "\<bar>t - clock\<bar> \<le> skew"
  shows "parseEnvelope (envelope_json e) = Inr () \<and> verifyEnvelope pf canon resolveKey e skew clock w = (Inr True, w')"
proof -
  obtain s m where t: "canonicalize canon (signed_payload (unsigned_envelope p uuid now)) = Inr m"
    and s: "sign pf m (bp_senderPrivateKey p) (default_encoding (ne_specVersion (unsigned_envelope p uuid now))) = Inr s"
    and e: "e = (unsigned_envelope p uuid now)\<lparr>ne_signature := s\<rparr>"
    using built_envelope[OF built] enc by (metis option.case(1))
  have v: "ne_specVersion e = (if bp_capabilityTokenRef p \<noteq> None then ''0.2.0'' else ''0.1.0'')"
    using wf(5) by (simp add: e unsigned_envelope_def)
  have sv: "semver (ne_specVersion e)" unfolding v by (cases "bp_capabilityTokenRef p") (simp, code_simp)+
  have "now \<noteq> []" using time(1) by (auto simp: getTime_def timestampPattern_def split: if_splits)
  then have "parseEnvelope (envelope_json e) = Inr ()"
    using wf v sv built_fields[OF built] by (intro parse_accepts) (auto simp: valid_did_def)
  moreover have "signature_checks pf canon e (toHex (ed_public pf (take 32 kb)))"
    using sign_verify_any[OF laws key s] t nohex by (simp add: signature_checks_def e)
  moreover have "toHex (ed_public pf (take 32 kb)) \<noteq> []" using resolved(2) length_toHex[of "ed_public pf (take 32 kb)"] by auto
  ultimately show ?thesis using resolved(1) time v built_fields[OF built]
    by (auto simp: verifyEnvelope_def SUPPORTED_SPEC_VERSIONS_def within_skew_def eff_bind_def)
qed


text \<open>Two concrete sides that require encryption, over a transport that hands the message to the responder.\<close>

definition demo_hs :: hs_crypto where
  "demo_hs = \<lparr>hk_pf = demo_platform, hk_canon = (\<lambda>_. ''{}''), hk_sha = (\<lambda>_. replicate 32 5), hk_dh = (\<lambda>_ _. Some []),
     hk_challengeSchema = (\<lambda>_. True), hk_ackSchema = (\<lambda>_. True)\<rparr>"

definition demo_responder :: "unit responder_options" where
  "demo_responder = \<lparr>re_did = demo_agent 3, re_privateKey = toHex (replicate 32 1), re_verifyInitiator = (\<lambda>_. eff_return True),
     re_resolvePublicKey = (\<lambda>_. eff_return (Some (toHex (replicate 32 1)))), re_capabilities = [''QUOTE''], re_nonceStore = None, re_sessionStore = None,
     re_authorizationValidator = Some (\<lambda>_ pr tok. eff_return (HavAccepted pr tok (Some ''f''))), re_preference = PREF_REQUIRED\<rparr>"

definition demo_rd :: respond_draw where
  "demo_rd = \<lparr>rd_verifyNow = 0, rd_now = 0, rd_sessionId = ''s1'', rd_responseTime = ''1970-01-01T00:00:00.000Z'', rd_secretKey = [3], rd_publicKey = [4],
     rd_envelopeId = ''e2'', rd_envelopeTime = ''1970-01-01T00:00:00.000Z'', rd_ackTime = ''1970-01-01T00:00:00.000Z''\<rparr>"

definition demo_initiator :: "unit responder_state initiator_options" where
  "demo_initiator = \<lparr>in_did = demo_agent 2, in_privateKey = toHex (replicate 32 1),
     in_send = (\<lambda>e _. eff_bind (respond demo_hs demo_responder demo_rd e) (\<lambda>ack. eff_return (Answer (Some ack)))),
     in_resolvePublicKey = (\<lambda>_. eff_return (Some (toHex (replicate 32 1)))), in_challengeExpiryMs = 60000, in_capabilities = [''QUOTE'', ''BOOK''],
     in_maxRetries = 2, in_preference = PREF_REQUIRED\<rparr>"

definition hs_demo_params :: initiate_params where
  "hs_demo_params = \<lparr>ip_responderDid = demo_agent 3, ip_responderEndpoint = [], ip_principalDid = None, ip_capabilityTokenId = Some ''t''\<rparr>"

definition demo_ad :: attempt_draw where
  "demo_ad = \<lparr>ad_nonce = ''n'', ad_challengeId = ''c'', ad_now = 0, ad_secretKey = [1], ad_publicKey = [2], ad_envelopeId = ''e1'',
     ad_envelopeTime = ''1970-01-01T00:00:00.000Z'', ad_verifyNow = 0\<rparr>"

definition demo_before :: "unit responder_state" where
  "demo_before = \<lparr>rs_nonces = [], rs_lastHandshakeResult = None, rs_outside = ()\<rparr>"

definition demo_sealed :: "envelope_params \<Rightarrow> string \<Rightarrow> negotiation_envelope" where
  "demo_sealed p uuid = (unsigned_envelope p uuid ''1970-01-01T00:00:00.000Z'')\<lparr>ne_signature := toHex (replicate 32 1 @ replicate 32 255)\<rparr>"

definition plain_params :: "envelope_params \<Rightarrow> bool" where
  "plain_params p = (bp_senderPrivateKey p = toHex (replicate 32 1) \<and> bp_signatureEncoding p = None \<and> bp_specVersion p = None \<and>
     bp_capabilityTokenRef p = None \<and> (\<forall>j. bp_body p \<noteq> OtherBody j))"

lemma demo_builds:
  assumes "plain_params p"
  shows "buildEnvelope demo_platform canon p uuid ''1970-01-01T00:00:00.000Z'' = Inr (demo_sealed p uuid)"
proof -
  let ?e = "unsigned_envelope p uuid ''1970-01-01T00:00:00.000Z''"
  have "assertSerializable (JObj (signed_payload ?e))"
    by (rule handshake_serializable) (use assms in \<open>simp add: unsigned_envelope_def plain_params_def\<close>)
  then have "canonicalize canon (signed_payload ?e) = Inr (canon (signed_payload ?e))" by (simp add: canonicalize_def del: assertSerializable.simps)
  moreover have "default_encoding (ne_specVersion ?e) = EncHex" using assms by (simp add: default_encoding_def unsigned_envelope_def plain_params_def)
  moreover have "sign demo_platform m (toHex (replicate 32 1)) EncHex = Inr (toHex (replicate 32 1 @ replicate 32 255))" for m
    by (simp add: sign_def demo_key demo_platform_def Let_def)
  ultimately show ?thesis using assms by (simp add: buildEnvelope_def Let_def demo_sealed_def plain_params_def)
qed

lemma epoch_read: "getTime ''1970-01-01T00:00:00.000Z'' = Some 0"
  by code_simp

lemma demo_accepts:
  assumes p: "plain_params p" "bp_senderDid p \<in> {demo_agent 2, demo_agent 3}" "bp_recipientDid p \<in> {demo_agent 2, demo_agent 3}" and uuid: "uuid \<noteq> []"
  shows "parseEnvelope (envelope_json (demo_sealed p uuid)) = Inr ()"
    "verifyEnvelope demo_platform canon (\<lambda>_. eff_return (Some (toHex (replicate 32 1)))) (demo_sealed p uuid) CLOCK_SKEW_MS 0 w = (Inr True, w)"
proof -
  note b = demo_builds[OF p(1), of canon uuid]
  have ne: "toHex (replicate 32 1 @ replicate 32 255) \<noteq> []" using length_toHex[of "replicate 32 1 @ replicate 32 255"] by auto
  have "parseEnvelope (envelope_json (demo_sealed p uuid)) = Inr () \<and>
    verifyEnvelope demo_platform canon (\<lambda>_. eff_return (Some (toHex (replicate 32 1)))) (demo_sealed p uuid) CLOCK_SKEW_MS 0 w = (Inr True, w)"
    by (rule built_accepted[OF b demo_laws, of "replicate 32 1" _ _ _ 0])
      (use p uuid demo_agent_ok in \<open>auto simp: plain_params_def demo_key demo_platform_def demo_sealed_def unsigned_envelope_def default_encoding_def
        epoch_read ne CLOCK_SKEW_MS_def\<close>)
  then show "parseEnvelope (envelope_json (demo_sealed p uuid)) = Inr ()"
    "verifyEnvelope demo_platform canon (\<lambda>_. eff_return (Some (toHex (replicate 32 1)))) (demo_sealed p uuid) CLOCK_SKEW_MS 0 w = (Inr True, w)" by simp_all
qed

definition demo_challenge :: handshake_challenge where
  "demo_challenge = make_challenge demo_initiator hs_demo_params demo_ad"

definition demo_init :: negotiation_envelope where
  "demo_init = demo_sealed (init_params demo_initiator hs_demo_params demo_challenge) ''e1''"

definition hs_demo_keys :: derived_keys where
  "hs_demo_keys = \<lparr>dk_initiatorEphemeralPublicKeyHex = toHex [2], dk_responderEphemeralPublicKeyHex = toHex [4], dk_transcriptHash = replicate 32 5\<rparr>"

definition demo_ack :: negotiation_envelope where
  "demo_ack = demo_sealed (ack_params demo_responder (demo_agent 2) (Some ''s1'')
     (accepted_ack demo_responder demo_rd demo_challenge [''QUOTE''] (Some hs_demo_keys) (Some ''f''))) ''e2''"

definition demo_result :: handshake_result where
  "demo_result = \<lparr>hs_sessionId = ''s1'', hs_negotiatedCapabilities = [''QUOTE''], hs_encryption = Some (MODE_REQUIRED, Some hs_demo_keys)\<rparr>"

definition demo_after :: "unit responder_state" where
  "demo_after = \<lparr>rs_nonces = [''n''], rs_lastHandshakeResult = Some demo_result, rs_outside = ()\<rparr>"

lemma demo_challenge_fields [simp]:
  "hc_initiatorDid demo_challenge = demo_agent 2" "hc_responderDid demo_challenge = demo_agent 3" "hc_nonce demo_challenge = ''n''"
  "hc_challengeId demo_challenge = ''c''" "hc_principalDid demo_challenge = None" "hc_capabilityTokenId demo_challenge = Some ''t''"
  "hc_initiatorCapabilities demo_challenge = [''QUOTE'', ''BOOK'']" "hc_expiresAt demo_challenge = toISOString 60000"
  "hc_encryption demo_challenge = Some \<lparr>hce_preference = PREF_REQUIRED, hce_initiatorEphemeralPublicKey = toHex [2]\<rparr>"
  by (simp_all add: demo_challenge_def make_challenge_def demo_initiator_def hs_demo_params_def demo_ad_def toHex_def)

lemma demo_checked: "check_init demo_hs demo_responder demo_rd demo_init demo_before = (Inr demo_challenge, demo_before)"
proof -
  let ?p = "init_params demo_initiator hs_demo_params demo_challenge"
  have p: "plain_params ?p" "bp_senderDid ?p \<in> {demo_agent 2, demo_agent 3}" "bp_recipientDid ?p \<in> {demo_agent 2, demo_agent 3}"
    by (simp_all add: plain_params_def init_params_def demo_initiator_def hs_demo_params_def)
  have f: "ne_messageType demo_init = HANDSHAKE_INIT" "ne_body demo_init = InitBody demo_challenge" "eh_senderDid (ne_header demo_init) = demo_agent 2"
    by (simp_all add: demo_init_def demo_sealed_def unsigned_envelope_def init_params_def demo_initiator_def)
  show ?thesis
    using demo_accepts(1)[OF p, of "''e1''"] demo_accepts(2)[OF p, of "''e1''" "\<lambda>_. ''{}''" "()"] f unfolding demo_init_def[symmetric]
    by (simp add: check_init_def eff_bind_def eff_guard_def eff_return_def eff_lift_def outside_eff_def demo_hs_def demo_responder_def demo_rd_def demo_before_def)
qed

lemma demo_authorized:
  "authorize demo_responder demo_rd (demo_agent 2) demo_challenge demo_before =
   (Inr (Inr (demo_agent 2, Some ''t'', Some ''f'')), demo_before\<lparr>rs_nonces := [''n'']\<rparr>)"
proof -
  have "getTime (toISOString 60000) = Some 60000" by (rule getTime_toISOString) code_simp+
  then have "\<not> challenge_expired demo_challenge 0" by (simp add: challenge_expired_def)
  then show ?thesis
    by (simp add: authorize_def hav_check_def claim_nonce_def demo_rd_def demo_responder_def demo_before_def eff_bind_def eff_return_def outside_eff_def Let_def)
qed

lemma demo_negotiated: "negotiate demo_hs demo_responder demo_rd demo_challenge [''QUOTE''] (demo_agent 2, Some ''t'', Some ''f'') = Inr (Some hs_demo_keys)"
proof -
  have "computeTranscriptHash demo_hs t = Inr (replicate 32 5)" for t
    by (simp add: computeTranscriptHash_def canonicalize_def demo_hs_def transcript_json_def or_null_def split: option.split)
  moreover have "hs_fromHex (toHex [2]) = Inr [2]" by (simp add: hs_fromHex_def fromHex_toHex)
  ultimately show ?thesis
    by (simp add: negotiate_def respond_keys_def demo_responder_def demo_rd_def initiator_preference_def shared_secret_def demo_hs_def ensure_def hs_demo_keys_def Let_def)
qed

lemma demo_responds: "respond demo_hs demo_responder demo_rd demo_init demo_before = (Inr demo_ack, demo_after)"
proof -
  have s: "eh_senderDid (ne_header demo_init) = demo_agent 2" by (simp add: demo_init_def demo_sealed_def unsigned_envelope_def init_params_def demo_initiator_def)
  let ?p = "ack_params demo_responder (demo_agent 2) (Some ''s1'') (accepted_ack demo_responder demo_rd demo_challenge [''QUOTE''] (Some hs_demo_keys) (Some ''f''))"
  have "plain_params ?p" by (simp add: plain_params_def ack_params_def demo_responder_def)
  from demo_builds[OF this] have b: "buildEnvelope demo_platform canon ?p ''e2'' ''1970-01-01T00:00:00.000Z'' = Inr demo_ack" for canon by (simp add: demo_ack_def)
  have caps: "filter (\<lambda>x. x \<in> set (re_capabilities demo_responder)) (hc_initiatorCapabilities demo_challenge) = [''QUOTE'']" by (simp add: demo_responder_def)
  have store: "persist_session demo_responder demo_rd who cs auth enc = eff_return True" for who cs auth enc by (simp add: persist_session_def demo_responder_def)
  have "accept demo_hs demo_responder demo_rd (demo_agent 2) demo_challenge (demo_agent 2, Some ''t'', Some ''f'') (demo_before\<lparr>rs_nonces := [''n'']\<rparr>) = (Inr demo_ack, demo_after)"
    unfolding accept_def caps Let_def demo_negotiated store
    using b by (simp add: eff_bind_def eff_lift_def eff_return_def demo_rd_def demo_hs_def demo_before_def demo_after_def demo_result_def)
  then show ?thesis by (simp add: respond_def s eff_bind_def demo_checked demo_authorized Let_def)
qed

lemma demo_ack_read: "read_ack demo_hs demo_initiator hs_demo_params demo_ad (ne_body demo_ack) = Inr demo_result"
proof -
  have th: "computeTranscriptHash demo_hs t = Inr (replicate 32 5)" for t
    by (simp add: computeTranscriptHash_def canonicalize_def demo_hs_def transcript_json_def or_null_def split: option.split)
  have h: "hs_fromHex (toHex [4]) = Inr [4]" by (simp add: hs_fromHex_def fromHex_toHex)
  have ne: "toHex [2] \<noteq> []" "toHex [4] \<noteq> []" "confirmation (replicate 32 5) \<noteq> []" by (simp_all add: toHex_def confirmation_def)
  show ?thesis
    using th h ne
    by (simp add: read_ack_def demo_ack_def demo_sealed_def unsigned_envelope_def ack_params_def accepted_ack_def encryption_for_response_def encryption_outcome_def
      accept_encryption_def need_value_def shared_secret_def demo_hs_def demo_initiator_def hs_demo_params_def demo_ad_def demo_rd_def demo_responder_def
      hs_demo_keys_def demo_result_def ensure_def Let_def)
qed

lemma demo_completes: "attemptHandshake demo_hs demo_initiator hs_demo_params demo_ad demo_before = (Inr demo_result, demo_after)"
proof -
  let ?p = "init_params demo_initiator hs_demo_params demo_challenge"
  have "plain_params ?p" by (simp add: plain_params_def init_params_def demo_initiator_def)
  from demo_builds[OF this] have b: "buildEnvelope demo_platform canon ?p ''e1'' ''1970-01-01T00:00:00.000Z'' = Inr demo_init" for canon by (simp add: demo_init_def)
  let ?q = "ack_params demo_responder (demo_agent 2) (Some ''s1'') (accepted_ack demo_responder demo_rd demo_challenge [''QUOTE''] (Some hs_demo_keys) (Some ''f''))"
  have q: "plain_params ?q" "bp_senderDid ?q \<in> {demo_agent 2, demo_agent 3}" "bp_recipientDid ?q \<in> {demo_agent 2, demo_agent 3}"
    by (simp_all add: plain_params_def ack_params_def demo_responder_def)
  have f: "ne_messageType demo_ack = HANDSHAKE_ACK" "eh_senderDid (ne_header demo_ack) = demo_agent 3"
    by (simp_all add: demo_ack_def demo_sealed_def unsigned_envelope_def ack_params_def demo_responder_def)
  have c: "check_ack demo_hs demo_initiator hs_demo_params demo_ad demo_ack demo_after = (Inr demo_result, demo_after)"
    using demo_accepts(1)[OF q, of "''e2''"] demo_accepts(2)[OF q, of "''e2''" "\<lambda>_. ''{}''" demo_after] f demo_ack_read unfolding demo_ack_def[symmetric]
    by (simp add: check_ack_def eff_bind_def eff_guard_def eff_return_def eff_lift_def demo_hs_def demo_initiator_def hs_demo_params_def demo_ad_def)
  have snd: "in_send demo_initiator demo_init (ip_responderEndpoint hs_demo_params) demo_before = (Inr (Answer (Some demo_ack)), demo_after)"
    by (simp add: demo_initiator_def eff_bind_def demo_responds eff_return_def)
  show ?thesis
    unfolding attemptHandshake_def demo_challenge_def[symmetric]
    using b snd c by (simp add: eff_bind_def eff_lift_def eff_catch_def demo_hs_def demo_ad_def)
qed

lemma demo_offers: "in_preference demo_initiator = PREF_REQUIRED" "ad_publicKey demo_ad \<noteq> []"
  by (simp_all add: demo_initiator_def demo_ad_def)

subsection \<open>Properties\<close>

text \<open>
  C18 (safety). Whatever the network does, a handshake that returns, within the permitted retries, has an
  answer of the responder: an ACK that verifies under the key resolved for the responder's DID, is fresh,
  accepts, and carries the nonce and challenge id of the attempt that returned. Where encryption is
  required, the result has keys, and the answer confirms the hash of the transcript that the initiator
  has itself assembled.
\<close>

theorem result_is_bound:
  assumes run: "initiate K I p draws w = (Inr res, w')"
  shows "\<exists>i ack a key w1. i < nat (1 + in_maxRetries I) \<and> in_resolvePublicKey I (ip_responderDid p) w1 = (Inr (Some key), w') \<and> signature_checks (hk_pf K) (hk_canon K) ack key \<and>
    within_skew ack (ad_verifyNow (draws i)) CLOCK_SKEW_MS \<and> eh_senderDid (ne_header ack) = ip_responderDid p \<and>
    ne_body ack = AckBody a \<and> ha_accepted a \<and> hr_nonce (ha_response a) = ad_nonce (draws i) \<and> hr_challengeId (ha_response a) = ad_challengeId (draws i) \<and>
    hs_sessionId res = hr_sessionId (ha_response a) \<and> set (hs_negotiatedCapabilities res) \<subseteq> set (in_capabilities I) \<and>
    (in_preference I = PREF_REQUIRED \<and> ad_publicKey (draws i) \<noteq> [] \<longrightarrow>
      (\<exists>x k. hr_encryption (ha_response a) = Some x \<and> hs_encryption res = Some (MODE_REQUIRED, Some k) \<and>
        computeTranscriptHash K (initiator_transcript I p (draws i) (ha_response a) x (hs_negotiatedCapabilities res) (dk_responderEphemeralPublicKeyHex k)) =
          Inr (dk_transcriptHash k) \<and>
        confirmation (dk_transcriptHash k) = hre_transcriptHashConfirmation x))"
proof -
  obtain i v where i: "i < nat (1 + in_maxRetries I)" and r: "attemptHandshake K I p (draws i) v = (Inr res, w')"
    using attempts_Inr[OF run[unfolded initiate_def]] by auto
  show ?thesis using attempt_bound[OF r] i by blast
qed

theorem result_is_bound_witness:
  "\<exists>(ack :: negotiation_envelope) a x k. ne_body ack = AckBody a \<and> ha_accepted a \<and> hr_nonce (ha_response a) = ad_nonce demo_ad \<and> hr_encryption (ha_response a) = Some x \<and>
    hs_encryption demo_result = Some (MODE_REQUIRED, Some k) \<and> confirmation (dk_transcriptHash k) = hre_transcriptHashConfirmation x"
proof -
  obtain n where "nat (1 + in_maxRetries demo_initiator) = Suc n" by (simp add: demo_initiator_def numeral_3_eq_3)
  then have "initiate demo_hs demo_initiator hs_demo_params (\<lambda>_. demo_ad) demo_before = (Inr demo_result, demo_after)"
    by (simp add: initiate_def eff_catch_def demo_completes)
  from result_is_bound[OF this] show ?thesis
    using demo_offers by blast
qed

text \<open>
  C19 (safety). When the transport hands the messages to a responder, a handshake that returns to the
  initiator is the one the responder has recorded: same session, same capabilities, and the same keys or
  none on both sides.
\<close>

theorem both_sides_agree:
  assumes send: "in_send I = (\<lambda>e _. eff_bind (respond K R rd e) (\<lambda>ack. eff_return (Answer (Some ack))))"
    and resolver: "\<And>did st r st'. in_resolvePublicKey I did st = (r, st') \<Longrightarrow> rs_lastHandshakeResult st' = rs_lastHandshakeResult st"
    and run: "attemptHandshake K I p d st = (Inr res, st')"
  shows "\<exists>last. rs_lastHandshakeResult st' = Some last \<and> hs_sessionId last = hs_sessionId res \<and>
    hs_negotiatedCapabilities last = hs_negotiatedCapabilities res \<and> hs_keys (hs_encryption last) = hs_keys (hs_encryption res)"
proof -
  obtain e ack st1 where e: "buildEnvelope (hk_pf K) (hk_canon K) (init_params I p (make_challenge I p d)) (ad_envelopeId d) (ad_envelopeTime d) = Inr e"
    and s: "in_send I e (ip_responderEndpoint p) st = (Inr (Answer (Some ack)), st1)" and c: "check_ack K I p d ack st1 = (Inr res, st')"
    using attempt_Inr[OF run] by metis
  have rsp: "respond K R rd e st = (Inr ack, st1)" using s by (auto simp: send eff_bind_Inr)
  have keep: "rs_lastHandshakeResult st' = rs_lastHandshakeResult st1" using verifyEnvelope_True(3)[OF check_ack_Inr(1)[OF c]] resolver by blast
  obtain a enc where body: "ne_body ack = AckBody a" "ha_accepted a"
    and out: "encryption_outcome K I p d (ha_response a) (filter (\<lambda>c. c \<in> set (in_capabilities I)) (hr_responderCapabilities (ha_response a))) = Inr enc"
    and res: "res = \<lparr>hs_sessionId = hr_sessionId (ha_response a),
      hs_negotiatedCapabilities = filter (\<lambda>c. c \<in> set (in_capabilities I)) (hr_responderCapabilities (ha_response a)), hs_encryption = enc\<rparr>"
    using read_ack_Inr[OF check_ack_Inr(4)[OF c]] by blast
  obtain ch auth keys s1 s2 where i: "check_init K R rd e st = (Inr ch, s1)" and au: "authorize R rd (eh_senderDid (ne_header e)) ch s1 = (Inr (Inr auth), s2)"
    and neg: "negotiate K R rd ch (shared_capabilities R ch) auth = Inr keys" and a: "a = accepted_ack R rd ch (shared_capabilities R ch) keys (snd (snd auth))"
    and last: "rs_lastHandshakeResult st1 = Some (responder_result rd (shared_capabilities R ch) keys)"
    using respond_accepted[OF rsp body] by metis
  obtain pr tok fp where auth: "auth = (pr, tok, fp)" by (cases auth)
  note f = built_fields[OF e]
  have ch: "ch = make_challenge I p d" using check_init_Inr(1)[OF i] f(2) by (simp add: init_params_def)
  have did: "re_did R = ip_responderDid p" using check_init_Inr(3)[OF i] by (simp add: ch make_challenge_def)
  have caps: "filter (\<lambda>c. c \<in> set (in_capabilities I)) (shared_capabilities R ch) = shared_capabilities R ch"
    by (rule filter_True) (simp add: shared_capabilities_def ch make_challenge_def)
  obtain s3 where "hav_check R (eh_senderDid (ne_header e)) ch s3 = (Inr (Inr (pr, tok, fp)), s2)" using authorize_Inr[OF au[unfolded auth]] by metis
  then have pr: "pr = (case ip_principalDid p of None \<Rightarrow> in_did I | Some q \<Rightarrow> q)" and tok: "tok = ip_capabilityTokenId p"
    using hav_check_Inr(1,2) f(1) by (fastforce simp: ch make_challenge_def init_params_def)+
  have rc: "hr_responderCapabilities (ha_response a) = shared_capabilities R ch" by (simp add: a accepted_ack_def)
  have "hs_keys enc = keys"
    by (rule encryption_agrees[OF neg[unfolded auth ch] pr tok did]) (use out caps rc in \<open>simp add: a auth ch\<close>)
  then have "hs_keys (map_option (\<lambda>k. (MODE_REQUIRED, Some k)) keys) = hs_keys enc" by (cases keys) (auto simp: hs_keys_def)
  then show ?thesis using keep last caps rc by (simp add: res responder_result_def a accepted_ack_def)
qed

theorem both_sides_agree_witness:
  "attemptHandshake demo_hs demo_initiator hs_demo_params demo_ad demo_before = (Inr demo_result, demo_after) \<and>
   (\<exists>last. rs_lastHandshakeResult demo_after = Some last \<and> hs_sessionId last = ''s1'' \<and> hs_keys (hs_encryption last) = Some hs_demo_keys)"
proof -
  have "in_send demo_initiator = (\<lambda>e _. eff_bind (respond demo_hs demo_responder demo_rd e) (\<lambda>ack. eff_return (Answer (Some ack))))"
    by (simp add: demo_initiator_def)
  moreover have "rs_lastHandshakeResult st' = rs_lastHandshakeResult st" if "in_resolvePublicKey demo_initiator did st = (r, st')" for did st r st'
    using that by (simp add: demo_initiator_def)
  ultimately have "\<exists>last. rs_lastHandshakeResult demo_after = Some last \<and> hs_sessionId last = hs_sessionId demo_result \<and>
    hs_negotiatedCapabilities last = hs_negotiatedCapabilities demo_result \<and> hs_keys (hs_encryption last) = hs_keys (hs_encryption demo_result)"
    by (rule both_sides_agree[OF _ _ demo_completes])
  moreover have "hs_sessionId demo_result = ''s1''" "hs_keys (hs_encryption demo_result) = Some hs_demo_keys" by (simp_all add: demo_result_def hs_keys_def)
  ultimately show ?thesis using demo_completes by auto
qed

text \<open>
  C23 (safety). A responder with the in-memory nonce store never accepts two challenges with the same
  nonce, whatever envelopes it is given and whatever its ports answer.
\<close>

theorem nonce_accepted_once:
  assumes "re_nonceStore R = None"
  shows "distinct (accepted_nonces (respond_all K R calls st))"
  using served_nonces_fresh[OF assms] by blast

theorem nonce_accepted_once_witness:
  "accepted_nonces (respond_all demo_hs demo_responder [(demo_rd, demo_init)] demo_before) = [''n''] \<and>
   distinct (accepted_nonces (respond_all demo_hs demo_responder [(demo_rd, demo_init), (demo_rd, demo_init)] demo_before))"
proof -
  have "re_nonceStore demo_responder = None" by (simp add: demo_responder_def)
  moreover have "ne_body demo_ack = AckBody (accepted_ack demo_responder demo_rd demo_challenge [''QUOTE''] (Some hs_demo_keys) (Some ''f''))"
    by (simp add: demo_ack_def demo_sealed_def unsigned_envelope_def ack_params_def)
  moreover have "accepted_nonces (respond_all demo_hs demo_responder [(demo_rd, demo_init)] demo_before) = [''n'']"
    using calculation(2) by (simp add: demo_responds accepted_ack_def)
  ultimately show ?thesis using nonce_accepted_once[of demo_responder] by blast
qed

text \<open>
  Remark (roundtrip). An envelope that is built is accepted by the parser and verifies for every resolver
  that knows the key of its sender, within the permitted skew.
\<close>

theorem envelope_roundtrip:
  assumes built: "buildEnvelope pf canon p uuid now = Inr e" and laws: "ed25519_laws pf" and key: "assertPrivateKey (bp_senderPrivateKey p) = Inr kb"
    and nohex: "default_encoding (ne_specVersion e) = EncBase64Url \<Longrightarrow> \<not> HEX_PATTERN (ne_signature e)" and enc: "bp_signatureEncoding p = None"
    and resolved: "resolveKey (bp_senderDid p) w = (Inr (Some (toHex (ed_public pf (take 32 kb)))), w')" "ed_public pf (take 32 kb) \<noteq> []"
    and wf: "uuid \<noteq> []" "ne_signature e \<noteq> []" "isDidAgent (bp_senderDid p)" "isDidAgent (bp_recipientDid p)" "bp_specVersion p = None"
    and time: "getTime now = Some t" "\<bar>t - clock\<bar> \<le> skew"
  shows "parseEnvelope (envelope_json e) = Inr () \<and> verifyEnvelope pf canon resolveKey e skew clock w = (Inr True, w')"
  using assms by (rule built_accepted)

theorem envelope_roundtrip_witness:
  "parseEnvelope (envelope_json demo_init) = Inr () \<and>
   verifyEnvelope demo_platform (\<lambda>_. ''{}'') (\<lambda>_ w. (Inr (Some (toHex (replicate 32 1))), w)) demo_init 1000 500 () = (Inr True, ())"
proof -
  let ?p = "init_params demo_initiator hs_demo_params demo_challenge"
  have p: "plain_params ?p" by (simp add: plain_params_def init_params_def demo_initiator_def)
  have ne: "toHex (replicate 32 1 @ replicate 32 255) \<noteq> []" using length_toHex[of "replicate 32 1 @ replicate 32 255"] by auto
  show ?thesis
    by (rule envelope_roundtrip[OF demo_builds[OF p, of _ "''e1''", folded demo_init_def] demo_laws, of "replicate 32 1" _ _ _ 0])
      (use demo_agent_ok in \<open>simp_all add: demo_key demo_platform_def demo_init_def demo_sealed_def unsigned_envelope_def default_encoding_def
        epoch_read ne init_params_def demo_initiator_def hs_demo_params_def\<close>)
qed

end
