(* ===== verification/Spec2Isabelle.thy ===== *)
theory Spec2Isabelle
  imports Delegation_Chain Multisig Key_Rotation Controller_Chain Action_Recorder Revocation Envelope_Ledger Settlement_Retry Dispute_Arbitration Session_Store Runtime_Guard Policy_Engine
    Trust_Boundary Managed_Service Federated_Resolver Secure_Channel Handshake
begin

text \<open>
  Coivitas is a protocol for agents that act for people: a principal issues capability tokens, agents
  delegate narrower tokens to each other, a policy layer checks every action against them and records
  it, and agents talk over sessions. The repository is a TypeScript monorepo (\<open>src/packages\<close>) in layers:
  L0 \<open>types\<close>, L1 \<open>crypto\<close>, L2 \<open>identity\<close>, L3 \<open>policy\<close>, L4 \<open>communication\<close>, and \<open>sdk\<close> and services on
  top. This development models the logic of L0 to L4 that decides about authority, money and history.

  \<^bold>\<open>How the parts interact.\<close> The policy engine asks the runtime guard. The guard lists the agent's tokens
  from the token store, verifies each with the token verifier or, when it is delegated, with the
  delegation validator, asks the revocation API (list store behind a cache), and evaluates the scopes of
  the matching capabilities with the scope evaluator, whose cumulative scopes reserve amounts in the
  cumulative tracker. The engine then asks a person where required, runs the executor, and writes one
  signed record to the hash-chained action ledger. Tokens come from the token issuer, whose attenuation
  check is also run by the validator on every hop. Keys, signatures and identifiers come from the crypto
  layer and the DID modules. Beside this path stand the sub-protocols: settlement retry, dispute
  arbitration, the envelope ledger, key rotation, multi-signature trees, and sessions.

  \<^bold>\<open>Theories and sources.\<close>

  \<^item> \<open>Prelude\<close>: JavaScript values (\<open>jsval\<close>, objects as ordered lists, numbers as \<open>Fin\<close> with a rational,
    NaN or infinity), string order, insertion-ordered maps; the locales \<open>keyed_store\<close> (interpreted as
    \<open>jm\<close>) and \<open>transition_allowlist\<close>. \<open>Effects\<close>: asynchronous code against ports as state-passing functions
    with exceptions, and Hoare triples over them. \<open>Js_Date\<close>, \<open>Js_Text\<close>: the wire timestamps, \<open>Date\<close>, decimal
    text.
  \<^item> \<open>Scope_Types\<close> (\<open>types/src/authorization.ts\<close>), \<open>Scope_Evaluator\<close> (\<open>policy/src/guard/scope-evaluator.ts\<close>,
    \<open>policy/src/scope/scope-evaluator-registry.ts\<close>), \<open>Cumulative_Tracker\<close> (\<open>cumulative-tracker.ts\<close>,
    \<open>postgres-cumulative-tracker.ts\<close>): scopes, the four built-in evaluators, the registry, calendar windows
    and the reservation table. A burst of reservations stays within the limit (locale \<open>metered_limit\<close>,
    interpreted on \<open>checkAndReserve\<close>); the recurring window equals its weekly minute set.
  \<^item> \<open>Attenuation\<close>, \<open>Capability_Token\<close>, \<open>Delegation_Chain\<close> (\<open>identity/src/token-issuer.ts\<close>,
    \<open>token-verifier.ts\<close>, \<open>delegation-validator.ts\<close>, \<open>did.ts\<close>, \<open>did-key.ts\<close>): issuing, delegating, verifying,
    validating. Attenuation is equivalent to its rule-by-rule specification and never widens what is
    granted (locale \<open>attenuation_order\<close>, interpreted for the issuer's check as \<open>att\<close> and for the
    validator's hops as \<open>dc\<close>); issue/verify and delegate/validate are round trips.
  \<^item> \<open>Encoding\<close>, \<open>Merkle_Tree\<close>, \<open>Hash_Chain\<close> (\<open>crypto/src\<close>): hex, base64url and base58 on 8-bit words, the
    signer tree, the record chain and its gate before canonicalization. Round trips and tamper evidence.
  \<^item> \<open>Key_Rotation\<close> (\<open>identity/src/key-rotation.ts\<close>): triple-signed rotation and the grace period.
  \<^item> \<open>Multisig\<close>, \<open>Controller_Chain\<close> (\<open>crypto/src/multisig\<close>, \<open>identity/src/credentials/multisig\<close>,
    \<open>identity/src/controller-chain-resolution\<close>): multi-signature tokens over the signer tree, and the chain of
    controllers of a DID. What is accepted is signed, fresh and unrevoked; a single key can fill a quorum.
  \<^item> \<open>Federated_Resolver\<close> (\<open>identity/src/binding.ts\<close>, \<open>federated-resolver.ts\<close>): binding proofs and the resolver
    that asks several nodes. A fresh answer has a majority of the valid answers behind it, and versions
    never roll back (locale \<open>version_store\<close>, which extends \<open>watermark_store\<close>, interpreted on the
    in-memory store as \<open>gp\<close>).
  \<^item> \<open>Runtime_Guard\<close>, \<open>Policy_Engine\<close> (\<open>policy/src/guard\<close>, \<open>policy/src/engine.ts\<close>): the token table refines a
    map, an allowed action is authorized, an executor runs only when allowed, every call leaves one record.
  \<^item> \<open>Action_Recorder\<close> (\<open>policy/src/recorder\<close>): recording keeps the integrity of the agent's chain, lanes are
    kept apart, paging with cursors reads everything.
  \<^item> \<open>Lru_Cache\<close>, \<open>Revocation\<close> (\<open>policy/src/revocation\<close>, \<open>identity/src/revocation.ts\<close>): the doubly linked
    cache refines a recency list; a revocation takes effect after at most the cache's lifetime and the
    latency of a read, however checks interleave (locale \<open>expiring_cache\<close>, interpreted for the policy
    cache as \<open>rc\<close> and for the identity list as \<open>rl\<close>).
  \<^item> \<open>Envelope_Ledger\<close> (\<open>policy/src/envelope-ledger\<close>): leases on envelopes as a step relation of interleaved
    workers; an envelope is settled once, a stale lease is freed, and the race of a split claim.
  \<^item> \<open>Settlement_Retry\<close>, \<open>Dispute_Arbitration\<close> (\<open>policy/src/settlement-retry\<close>, \<open>policy/src/dispute-arbitration\<close>,
    \<open>types/src\<close>): the engines with every port call; stored states follow their allowlists
    (\<open>transition_allowlist\<close>, interpreted as \<open>sr\<close> and \<open>da\<close>), the provider is asked only after all checks,
    retries end, a verdict needs a majority and arbitration is atomic.
  \<^item> \<open>Session_Store\<close> (\<open>communication/src/session\<close>): the in-memory store and the manager; states move forward,
    authorization is fenced by the revision (locale \<open>versioned_rows\<close>, interpreted as \<open>ims\<close>), a revoked
    token closes its sessions.
  \<^item> \<open>Secure_Channel\<close> (\<open>crypto/src/encryption.ts\<close>, \<open>communication/src/session-registry.ts\<close>,
    \<open>session/crypto-state.ts\<close>, the bodies of \<open>envelope.ts\<close>): generations of keys, the dual-key window and
    encrypted bodies. No key and nonce pair is used twice, a body is opened once (\<open>watermark_store\<close>,
    interpreted on the replay tracker as \<open>rt\<close>), and what is sent in order arrives.
  \<^item> \<open>Handshake\<close> (\<open>communication/src/envelope.ts\<close>, \<open>communication/src/handshake\<close>): signed envelopes and both
    sides of the handshake. A result is bound to a fresh answer of the responder, required encryption is
    not negotiated away, both sides agree on session, capabilities and keys, and a nonce is accepted once.
  \<^item> \<open>Trust_Boundary\<close> (\<open>communication/src/trust-boundary\<close>): leases between two sides as a step relation of calls
    that interleave at their awaits; stored boundaries stay typed and within the maximal window
    (\<open>transition_allowlist\<close>, interpreted as \<open>tb\<close>), and the race that undoes a revocation.
  \<^item> \<open>Managed_Service\<close> (\<open>managed-service-runtime/src\<close>): token buckets, API keys, the usage log and the request
    handlers; quotas hold over every interval and the log counts exactly what was served.
  \<^item> this theory: the guarded execution end to end, over engine, guard, token table and chain validator.

  \<^bold>\<open>How code is represented.\<close> A class or interface is a record, a union a datatype, a thrown error a value
  of a sum type, an optional field an option. Code that awaits injected ports is an effect: every port
  may change the world and may throw. A database table is a record of rows; transactions that take an
  advisory lock or lock an existing row are serial, and where a lock does not cover a step (the cache
  checks, the split claim) the interleaving is a step relation. Clocks are arguments.

  \<^bold>\<open>Parameters and hypotheses.\<close> Ed25519, SHA-256, the JCS printer, the JSON-schema validator, URL parsing
  and \<open>Intl\<close> are parameters (\<open>platform\<close> and the port records). Theorems name what they need of them: that
  a signature made with a key verifies under it, that two canonical forms or hashes are distinct on the
  values at hand, that an international date formatter returns clock readings. Each such theorem has a
  witness with concrete functions.

  \<^bold>\<open>Bounds and termination.\<close> Amounts are exact rationals with NaN and the infinities; rounding of doubles is
  not modelled. Recursions are structural or come with a measure (tree levels, base58 digits); no theorem
  depends on fuel. Retries end after at most the budget of the operation. Revisions are unbounded integers
  in their text form, as in the source; bytes are 8-bit words.

  \<^bold>\<open>Not modelled.\<close> HTTP routes and transports, SQL stores whose in-memory form is modelled, SSO and
  admin consoles, demonstrations, metrics, test kits and re-export modules: they move data between the
  parts above and the outside. JSON-schema documents are data of a third-party validator. The manifest
  lists every part with its reason.
\<close>

section \<open>Guarded execution end to end\<close>

lemma executed_guard:
  assumes "executeWithPolicy deps p w = (Inr (Executed x rid), w')"
  obtains g w1 where "guard deps (ep_action p) (ep_params p) (ep_agentDid p) (requestedTokenId p) w = (Inr g, w1)" "allowed g"
proof -
  obtain g w1 where g: "guard deps (ep_action p) (ep_params p) (ep_agentDid p) (requestedTokenId p) w = (Inr g, w1)"
    using assms unfolding executeWithPolicy_def eff_bind_Inr by blast
  moreover have "allowed g"
  proof (rule ccontr)
    assume "\<not> allowed g"
    with assms g show False
      by (auto simp: executeWithPolicy_def reject_def eff_bind_def split: prod.splits sum.splits)
  qed
  ultimately show thesis by (rule that)
qed

lemma listed_token:
  assumes "table_wf tbl" "token \<in> set (getTokensForAgent a tbl)"
  shows "getToken (token_id token) tbl = Some token"
proof -
  obtain r where r: "r \<in> set (rows tbl)" "row_token r = token"
    using assms(2) by (auto simp: getTokensForAgent_def ts_ordered_def)
  have "distinct (map fst (map (\<lambda>r. (row_token_id r, (row_agent r, row_token r))) (rows tbl)))" "row_token_id r = token_id token"
    using assms(1) r by (auto simp: table_wf_def comp_def)
  then have "table_abs tbl (token_id token) = Some (row_agent r, token)"
    unfolding table_abs_def using r by (force intro!: map_of_is_SomeI)
  then show ?thesis by (simp add: getToken_abs)
qed


definition demo_table :: token_table where
  "demo_table = fold table_step [StoreOp (demo_agent 3) demo_child 0] empty_table"

definition demo_node :: "unit engine_deps" where
  "demo_node = \<lparr>guard = check demo_platform (demo_deps []),
     recorder = (\<lambda>row. eff_return \<lparr>wr_recordId = ''r'', wr_hash = ''h''\<rparr>), checkpoint = None\<rparr>"

definition demo_request :: "(unit, nat) exec_params" where
  "demo_request = \<lparr>ep_action = ''QUOTE'', ep_params = demo_params, ep_agentDid = demo_agent 3, ep_principalDid = ''p'',
     actorPrivateKey = ''k'', executor = eff_return 7, requireHumanApproval = False, requestedTokenId = None,
     ep_recordId = None, onExecutorSuccess = None\<rparr>"


end
